(* ===== verification/Prelude.thy ===== *)
theory Prelude
  imports Complex_Main "HOL-Library.AList"
begin

text \<open>
  Shared vocabulary of the development.

  \<^item> JavaScript numbers. A finite double is a rational, and the only operations the modelled code
    performs on document numbers are comparison, equality, the integer test and (on safe integers)
    addition and subtraction, all of which are exact, so numbers are \<open>rat\<close>. Values that come
    from outside and may be NaN, an infinity or a negative zero have the type \<open>jsnum\<close>.
  \<^item> Errors. A thrown exception or a rejected result is \<open>Inl e\<close>; \<open>rbind\<close> and
    \<open>foldR\<close> sequence computations the way a throw unwinds them.
  \<^item> Objects. A plain JavaScript object is an association list with distinct keys in insertion
    order; \<open>AList.update\<close> is property assignment and object spread (\<open>{...o, [k]: v}\<close>),
    \<open>AList.delete\<close> is removal of an own property, \<open>map_of\<close> is an own-property read.
  \<^item> Strings are lists of code units; the type \<open>string\<close> covers the units 0 to 255.
\<close>

section \<open>Collections of facts\<close>

named_theorems alist_simps \<open>own-property reads after writes on objects\<close>
named_theorems result_simps \<open>sequencing of computations that may throw\<close>

section \<open>JavaScript numbers\<close>

datatype jsnum = Fin rat | NegZero | NaN | PosInf | NegInf

definition max_safe_integer :: rat where
  "max_safe_integer = 9007199254740991"

definition is_integer :: "rat \<Rightarrow> bool" where
  "is_integer r \<longleftrightarrow> of_int \<lfloor>r\<rfloor> = r"

definition is_safe_integer :: "rat \<Rightarrow> bool" where
  "is_safe_integer r \<longleftrightarrow> is_integer r \<and> \<bar>r\<bar> \<le> max_safe_integer"

lemma is_integer_of_nat [simp]: "is_integer (of_nat n)"
  by (simp add: is_integer_def)

lemma is_integer_numeral [simp]:
  "is_integer 0" "is_integer 1" "is_integer (numeral k)"
  by (simp_all add: is_integer_def)

lemma is_integer_nat_floor: "is_integer r \<Longrightarrow> 0 \<le> r \<Longrightarrow> of_nat (nat \<lfloor>r\<rfloor>) = r"
  by (simp add: is_integer_def)

section \<open>Results\<close>

fun rbind :: "'e + 's \<Rightarrow> ('s \<Rightarrow> 'e + 't) \<Rightarrow> 'e + 't" where
  "rbind (Inl e) f = Inl e"
| "rbind (Inr x) f = f x"

fun map_result :: "('a \<Rightarrow> 'b) \<Rightarrow> 'e + 'a \<Rightarrow> 'e + 'b" where
  "map_result f (Inl e) = Inl e"
| "map_result f (Inr x) = Inr (f x)"

fun foldR :: "('s \<Rightarrow> 'x \<Rightarrow> 'e + 's) \<Rightarrow> 's \<Rightarrow> 'x list \<Rightarrow> 'e + 's" where
  "foldR f s [] = Inr s"
| "foldR f s (x # xs) = rbind (f s x) (\<lambda>s'. foldR f s' xs)"

fun is_ok :: "'e + 'a \<Rightarrow> bool" where
  "is_ok (Inl e) = False"
| "is_ok (Inr x) = True"

fun result_option :: "'e + 'a \<Rightarrow> 'a option" where
  "result_option (Inl e) = None"
| "result_option (Inr x) = Some x"

lemma result_option_Some_iff [simp]: "result_option m = Some x \<longleftrightarrow> m = Inr x"
  by (cases m) auto

lemma result_option_map_result [simp]:
  "result_option (map_result f m) = map_option f (result_option m)"
  by (cases m) auto

lemma map_option_twice: "map_option f (map_option g x) = map_option (\<lambda>y. f (g y)) x"
  by (cases x) simp_all

lemma rbind_Inr_iff [result_simps]: "rbind m f = Inr y \<longleftrightarrow> (\<exists>x. m = Inr x \<and> f x = Inr y)"
  by (cases m) auto

lemma rbind_Inl_iff [result_simps]:
  "rbind m f = Inl e \<longleftrightarrow> m = Inl e \<or> (\<exists>x. m = Inr x \<and> f x = Inl e)"
  by (cases m) auto

lemma map_result_Inr_iff [result_simps]: "map_result f m = Inr y \<longleftrightarrow> (\<exists>x. m = Inr x \<and> y = f x)"
  by (cases m) auto

lemma map_result_Inl_iff [simp]: "map_result f m = Inl e \<longleftrightarrow> m = Inl e"
  by (cases m) auto

lemma rbind_assoc: "rbind (rbind m f) g = rbind m (\<lambda>x. rbind (f x) g)"
  by (cases m) auto

lemma rbind_Inr_right [simp]: "rbind m Inr = m"
  by (cases m) auto

lemma is_ok_iff: "is_ok m \<longleftrightarrow> (\<exists>x. m = Inr x)"
  by (cases m) auto

lemma foldR_append: "foldR f s (xs @ ys) = rbind (foldR f s xs) (\<lambda>s'. foldR f s' ys)"
  by (induction xs arbitrary: s) (simp_all add: rbind_assoc)

text \<open>An invariant of the loop body is an invariant of the loop.\<close>

lemma foldR_invariant:
  assumes "foldR f s xs = Inr t" and "P s"
    and "\<And>s x s'. x \<in> set xs \<Longrightarrow> P s \<Longrightarrow> f s x = Inr s' \<Longrightarrow> P s'"
  shows "P t"
  using assms
proof (induction xs arbitrary: s)
  case Nil
  then show ?case by simp
next
  case (Cons x xs)
  from Cons.prems(1) obtain s' where s': "f s x = Inr s'" and rest: "foldR f s' xs = Inr t"
    by (auto simp: result_simps)
  have "P s'" using Cons.prems(2,3) s' by (meson list.set_intros(1))
  with rest show ?case
    by (rule Cons.IH) (use Cons.prems(3) in auto)
qed

section \<open>Objects as association lists\<close>

lemma map_of_update [alist_simps, simp]:
  "map_of (AList.update k v xs) k' = (if k' = k then Some v else map_of xs k')"
  by (simp add: AList.update_conv)

lemma map_of_delete [alist_simps, simp]:
  "map_of (AList.delete k xs) k' = (if k' = k then None else map_of xs k')"
  by (simp add: AList.delete_conv)

lemma keys_update: "fst ` set (AList.update k v xs) = insert k (fst ` set xs)"
  by (induction xs) auto

lemma keys_delete: "fst ` set (AList.delete k xs) = fst ` set xs - {k}"
  by (auto simp: AList.delete_eq)

lemma set_update_subset: "set (AList.update k v xs) \<subseteq> insert (k, v) (set xs)"
  by (induction xs) auto

lemma map_of_in_set: "map_of xs k = Some v \<Longrightarrow> (k, v) \<in> set xs"
  by (rule map_of_SomeD)

lemma map_of_map_snd: "map_of (map (\<lambda>kv. (fst kv, f (snd kv))) xs) = map_option f \<circ> map_of xs"
  by (induction xs) auto

lemma length_update_new: "map_of xs k = None \<Longrightarrow> AList.update k v xs = xs @ [(k, v)]"
  by (induction xs) auto

section \<open>Lists\<close>

text \<open>\<open>insert_at i x xs\<close> is \<open>[...xs.slice(0, i), x, ...xs.slice(i)]\<close> and
  \<open>remove_at i xs\<close> is \<open>[...xs.slice(0, i), ...xs.slice(i + 1)]\<close>.\<close>

definition insert_at :: "nat \<Rightarrow> 'a \<Rightarrow> 'a list \<Rightarrow> 'a list" where
  "insert_at i x xs = take i xs @ x # drop i xs"

definition remove_at :: "nat \<Rightarrow> 'a list \<Rightarrow> 'a list" where
  "remove_at i xs = take i xs @ drop (Suc i) xs"

lemma length_insert_at [simp]: "length (insert_at i x xs) = Suc (length xs)"
  by (simp add: insert_at_def)

lemma set_insert_at [simp]: "set (insert_at i x xs) = insert x (set xs)"
proof -
  have "set (insert_at i x xs) = insert x (set (take i xs @ drop i xs))"
    by (simp add: insert_at_def del: append_take_drop_id)
  then show ?thesis by simp
qed

lemma distinct_insert_at [simp]: "distinct (insert_at i x xs) \<longleftrightarrow> x \<notin> set xs \<and> distinct xs"
proof -
  have "distinct (insert_at i x xs) \<longleftrightarrow> distinct (x # (take i xs @ drop i xs))"
    by (auto simp: insert_at_def simp del: append_take_drop_id)
  then show ?thesis by simp
qed

lemma map_insert_at: "map f (insert_at i x xs) = insert_at i (f x) (map f xs)"
  by (simp add: insert_at_def take_map drop_map)

lemma map_remove_at: "map f (remove_at i xs) = remove_at i (map f xs)"
  by (simp add: remove_at_def take_map drop_map)

lemma remove_insert_at [simp]: "i \<le> length xs \<Longrightarrow> remove_at i (insert_at i x xs) = xs"
  by (simp add: insert_at_def remove_at_def)

lemma insert_remove_at [simp]: "i < length xs \<Longrightarrow> insert_at i (xs ! i) (remove_at i xs) = xs"
  by (simp add: insert_at_def remove_at_def Cons_nth_drop_Suc)

lemma nth_insert_at [simp]: "i \<le> length xs \<Longrightarrow> insert_at i x xs ! i = x"
  by (simp add: insert_at_def nth_append)

lemma set_remove_at_subset: "set (remove_at i xs) \<subseteq> set xs"
  by (auto simp: remove_at_def dest: in_set_takeD in_set_dropD)

lemma length_remove_at: "i < length xs \<Longrightarrow> length (remove_at i xs) = length xs - 1"
  by (simp add: remove_at_def)

end
