(* ===== verification/Json.thy ===== *)
theory Json
  imports Prelude
begin

text \<open>
  JSON documents: the value type of \<open>packages/core/src/format/document.ts\<close>, the ownership boundary
  \<open>ownJson\<close> of \<open>packages/core/src/format/json.ts\<close> and the structural equality
  \<open>jsonSameValue\<close> of \<open>packages/core/src/commands/store.ts\<close>.

  An object is an association list in insertion order. Two documents that differ only in the order of
  their keys are the same document for the program; \<open>json_abs\<close> forgets that order, and
  \<open>jsonSameValue_iff\<close> shows that the equality the code computes is equality of the abstractions.
\<close>

section \<open>Values\<close>

datatype json =
    JNull
  | JBool bool
  | JNum rat
  | JStr string
  | JArr "json list"
  | JObj "(string \<times> json) list"

definition proto_key :: string where
  "proto_key = ''__proto__''"

lemma size_json_entry [termination_simp]:
  "kv \<in> set kvs \<Longrightarrow> size (snd kv) < Suc (size_list (size_prod f size) kvs)"
  by (rule le_imp_less_Suc, erule size_list_estimation') (simp add: size_prod_simp)

lemma size_zip_left [termination_simp]: "(a, b) \<in> set (zip xs ys) \<Longrightarrow> size a < Suc (size_list size xs)"
  by (rule le_imp_less_Suc, drule set_zip_leftD, erule size_list_estimation') simp

lemma size_map_of_json: "map_of kvs k = Some (v :: json) \<Longrightarrow> size v < size (JObj kvs)"
  using size_json_entry [of "(k, v)" kvs] by (auto dest: map_of_in_set)

lemma size_entry_json: "(k, v) \<in> set kvs \<Longrightarrow> size v < size (JObj kvs)"
  using size_json_entry [of "(k, v)" kvs] by auto

text \<open>Owned JSON: distinct own keys, none of them the forbidden one, at every level.\<close>

fun wf_json :: "json \<Rightarrow> bool" where
  "wf_json (JArr xs) = list_all wf_json xs"
| "wf_json (JObj kvs) =
     (distinct (map fst kvs) \<and> proto_key \<notin> set (map fst kvs) \<and> list_all (\<lambda>kv. wf_json (snd kv)) kvs)"
| "wf_json _ = True"

fun is_object :: "json option \<Rightarrow> bool" where
  "is_object (Some (JObj _)) = True"
| "is_object _ = False"

fun is_number :: "json option \<Rightarrow> bool" where
  "is_number (Some (JNum _)) = True"
| "is_number _ = False"

lemma is_object_iff: "is_object v \<longleftrightarrow> (\<exists>kvs. v = Some (JObj kvs))"
  by (cases v rule: is_object.cases) auto

lemma is_number_iff: "is_number v \<longleftrightarrow> (\<exists>r. v = Some (JNum r))"
  by (cases v rule: is_number.cases) auto

lemma wf_json_entry: "wf_json (JObj kvs) \<Longrightarrow> map_of kvs k = Some v \<Longrightarrow> wf_json v"
  by (force simp: list_all_iff dest: map_of_in_set)

lemma wf_json_key: "wf_json (JObj kvs) \<Longrightarrow> map_of kvs k = Some v \<Longrightarrow> k \<noteq> proto_key"
  by (force dest: map_of_in_set)

lemma wf_json_elem: "wf_json (JArr xs) \<Longrightarrow> i < length xs \<Longrightarrow> wf_json (xs ! i)"
  by (simp add: list_all_iff)

lemma wf_json_update:
  assumes "wf_json (JObj kvs)" and "wf_json v" and "k \<noteq> proto_key"
  shows "wf_json (JObj (AList.update k v kvs))"
proof -
  have "distinct (map fst (AList.update k v kvs))"
    using assms(1) by (simp add: AList.distinct_update)
  moreover have "proto_key \<notin> set (map fst (AList.update k v kvs))"
    using assms by (simp add: keys_update)
  moreover have "list_all (\<lambda>kv. wf_json (snd kv)) (AList.update k v kvs)"
    using assms set_update_subset [of k v kvs] by (fastforce simp: list_all_iff)
  ultimately show ?thesis by simp
qed

lemma wf_json_delete:
  assumes "wf_json (JObj kvs)"
  shows "wf_json (JObj (AList.delete k kvs))"
proof -
  have "distinct (map fst (AList.delete k kvs))"
    using assms by (simp add: AList.distinct_delete)
  moreover have "proto_key \<notin> set (map fst (AList.delete k kvs))"
    using assms by (simp add: keys_delete)
  moreover have "list_all (\<lambda>kv. wf_json (snd kv)) (AList.delete k kvs)"
    using assms by (auto simp: list_all_iff AList.delete_eq)
  ultimately show ?thesis by simp
qed

lemma wf_json_list_update: "wf_json (JArr xs) \<Longrightarrow> wf_json v \<Longrightarrow> wf_json (JArr (xs[i := v]))"
  by (auto simp: list_all_iff dest: set_update_subset_insert [THEN subsetD])

lemma wf_json_insert_at: "wf_json (JArr xs) \<Longrightarrow> wf_json v \<Longrightarrow> wf_json (JArr (insert_at i v xs))"
  by (simp add: list_all_iff)

lemma wf_json_remove_at: "wf_json (JArr xs) \<Longrightarrow> wf_json (JArr (remove_at i xs))"
  using set_remove_at_subset [of i xs] by (auto simp: list_all_iff)

lemmas wf_json_intros = wf_json_update wf_json_delete wf_json_list_update
  wf_json_insert_at wf_json_remove_at

lemmas wf_json_dests = wf_json_entry wf_json_elem

section \<open>Documents up to key order\<close>

datatype jval =
    VNull
  | VBool bool
  | VNum rat
  | VStr string
  | VArr "jval list"
  | VObj "string \<Rightarrow> jval option"

fun json_abs :: "json \<Rightarrow> jval" where
  "json_abs JNull = VNull"
| "json_abs (JBool b) = VBool b"
| "json_abs (JNum r) = VNum r"
| "json_abs (JStr s) = VStr s"
| "json_abs (JArr xs) = VArr (map json_abs xs)"
| "json_abs (JObj kvs) = VObj (map_of (map (\<lambda>kv. (fst kv, json_abs (snd kv))) kvs))"

text \<open>The entries of an object as a map, and how property writes act on it.\<close>

definition obj_abs :: "(string \<times> json) list \<Rightarrow> string \<Rightarrow> jval option" where
  "obj_abs kvs k = map_option json_abs (map_of kvs k)"

lemma json_abs_obj: "json_abs (JObj kvs) = VObj (obj_abs kvs)"
  using map_of_map_snd [of json_abs kvs] by (simp add: obj_abs_def fun_eq_iff)

lemma obj_abs_update [simp]: "obj_abs (AList.update k v kvs) = (obj_abs kvs)(k := Some (json_abs v))"
  by (simp add: obj_abs_def fun_eq_iff)

lemma obj_abs_delete [simp]: "obj_abs (AList.delete k kvs) = (obj_abs kvs)(k := None)"
  by (simp add: obj_abs_def fun_eq_iff)

lemma obj_abs_eq_None [simp]: "obj_abs kvs k = None \<longleftrightarrow> map_of kvs k = None"
  by (simp add: obj_abs_def)

text \<open>\<open>jsonSameValue\<close> on values; \<open>jsonSameOpt\<close> adds the \<open>undefined\<close> cases.\<close>

fun jsonSameValue :: "json \<Rightarrow> json \<Rightarrow> bool" where
  "jsonSameValue JNull b = (b = JNull)"
| "jsonSameValue (JBool x) b = (b = JBool x)"
| "jsonSameValue (JNum x) b = (b = JNum x)"
| "jsonSameValue (JStr x) b = (b = JStr x)"
| "jsonSameValue (JArr xs) b =
     (case b of JArr ys \<Rightarrow> length xs = length ys \<and> list_all (\<lambda>p. jsonSameValue (fst p) (snd p)) (zip xs ys)
      | _ \<Rightarrow> False)"
| "jsonSameValue (JObj xs) b =
     (case b of
        JObj ys \<Rightarrow> length xs = length ys \<and>
          list_all (\<lambda>kv. case map_of ys (fst kv) of None \<Rightarrow> False | Some w \<Rightarrow> jsonSameValue (snd kv) w) xs
      | _ \<Rightarrow> False)"

fun jsonSameOpt :: "json option \<Rightarrow> json option \<Rightarrow> bool" where
  "jsonSameOpt None None = True"
| "jsonSameOpt (Some a) (Some b) = jsonSameValue a b"
| "jsonSameOpt _ _ = False"

text \<open>Two objects of the same size agree as maps as soon as every entry of one is an entry of the other.\<close>

lemma distinct_keys_subset_eq:
  assumes "distinct (map fst xs)" and "distinct (map fst ys)" and "length xs = length ys"
    and "set (map fst xs) \<subseteq> set (map fst ys)"
  shows "set (map fst xs) = set (map fst ys)"
proof -
  have "card (set (map fst xs)) = length xs" and "card (set (map fst ys)) = length ys"
    using assms(1,2) distinct_card [of "map fst xs"] distinct_card [of "map fst ys"] by simp_all
  then show ?thesis
    using assms(3,4) by (intro card_subset_eq) simp_all
qed

lemma same_entries_iff:
  assumes wx: "distinct (map fst xs)" and wy: "distinct (map fst ys)"
    and eq: "\<And>k v w. map_of xs k = Some v \<Longrightarrow> map_of ys k = Some w \<Longrightarrow> same v w \<longleftrightarrow> f v = f w"
  shows "(length xs = length ys \<and>
      list_all (\<lambda>kv. case map_of ys (fst kv) of None \<Rightarrow> False | Some w \<Rightarrow> same (snd kv) w) xs)
    \<longleftrightarrow> map_option f \<circ> map_of xs = map_option f \<circ> map_of ys"
    (is "?l \<longleftrightarrow> ?r")
proof
  assume l: ?l
  have hit: "\<exists>w. map_of ys k = Some w \<and> f v = f w" if "map_of xs k = Some v" for k v
    using l that map_of_in_set [OF that] eq [OF that]
    by (force simp: list_all_iff split: option.splits)
  have "set (map fst xs) \<subseteq> set (map fst ys)"
    using hit wx by (force dest: map_of_in_set)
  then have keys: "set (map fst xs) = set (map fst ys)"
    using distinct_keys_subset_eq [OF wx wy] l by simp
  show ?r
  proof
    fix k
    have "map_of xs k = None \<longleftrightarrow> map_of ys k = None"
      using keys by (simp add: map_of_eq_None_iff)
    then show "(map_option f \<circ> map_of xs) k = (map_option f \<circ> map_of ys) k"
      using hit [of k] by (cases "map_of xs k") auto
  qed
next
  assume r: ?r
  have dom: "dom (map_of xs) = dom (map_of ys)"
    using r by (auto simp: dom_def fun_eq_iff) (metis map_option_is_None option.distinct(1) option.exhaust)+
  then have "set (map fst xs) = set (map fst ys)"
    by (simp add: dom_map_of_conv_image_fst)
  then have "length xs = length ys"
    using wx wy by (metis distinct_card length_map)
  moreover have "case map_of ys (fst kv) of None \<Rightarrow> False | Some w \<Rightarrow> same (snd kv) w" if "kv \<in> set xs" for kv
  proof -
    have kv: "map_of xs (fst kv) = Some (snd kv)" using that wx by simp
    then obtain w where w: "map_of ys (fst kv) = Some w" "f (snd kv) = f w"
      using r by (auto simp: fun_eq_iff) (metis map_option_eq_Some option.map(2))
    with kv eq show ?thesis by simp
  qed
  ultimately show ?l by (simp add: list_all_iff)
qed

theorem jsonSameValue_abs: "wf_json a \<Longrightarrow> wf_json b \<Longrightarrow> jsonSameValue a b \<longleftrightarrow> json_abs a = json_abs b"
proof (induction a b rule: jsonSameValue.induct)
  case (5 xs b)
  show ?case
  proof (cases "\<exists>ys. b = JArr ys")
    case True
    then obtain ys where JArr: "b = JArr ys" by blast
    have "list_all (\<lambda>p. jsonSameValue (fst p) (snd p)) (zip xs ys)
        \<longleftrightarrow> map json_abs xs = map json_abs ys" if "length xs = length ys"
    proof -
      have "jsonSameValue (fst p) (snd p) \<longleftrightarrow> json_abs (fst p) = json_abs (snd p)" if "p \<in> set (zip xs ys)" for p
      proof -
        have "fst p \<in> set xs" and "snd p \<in> set ys"
          using that set_zip_leftD [of "fst p" "snd p"] set_zip_rightD [of "fst p" "snd p"] by simp_all
        then show ?thesis
          using "5.IH" [OF JArr that] "5.prems" JArr by (simp add: list_all_iff)
      qed
      then have "list_all (\<lambda>p. jsonSameValue (fst p) (snd p)) (zip xs ys)
          \<longleftrightarrow> list_all (\<lambda>p. json_abs (fst p) = json_abs (snd p)) (zip xs ys)"
        by (rule list_all_cong [OF refl]) simp
      then show ?thesis
        using that by (simp add: list_all_length list_eq_iff_nth_eq)
    qed
    then show ?thesis
      using JArr map_eq_imp_length_eq [of json_abs xs json_abs ys] by (simp, blast)
  next
    case False
    then show ?thesis by (cases b) simp_all
  qed
next
  case (6 xs b)
  show ?case
  proof (cases "\<exists>ys. b = JObj ys")
    case True
    then obtain ys where JObj: "b = JObj ys" by blast
    have "jsonSameValue v w \<longleftrightarrow> json_abs v = json_abs w"
      if "map_of xs k = Some v" "map_of ys k = Some w" for k v w
    proof -
      have "wf_json v" and "wf_json w"
        using "6.prems" JObj that wf_json_entry by blast+
      then show ?thesis
        using "6.IH" [OF JObj map_of_in_set [OF that(1)]] that(2) by simp
    qed
    then show ?thesis
      using same_entries_iff [of xs ys jsonSameValue json_abs] "6.prems" JObj
      by (simp add: json_abs_obj obj_abs_def fun_eq_iff del: json_abs.simps(6))
  next
    case False
    then show ?thesis by (cases b) simp_all
  qed
next
  case (1 b)
  show ?case by (cases b) simp_all
next
  case (2 x b)
  show ?case by (cases b) auto
next
  case (3 x b)
  show ?case by (cases b) auto
next
  case (4 x b)
  show ?case by (cases b) auto
qed

end
