(* ===== verification/OwnJson.thy ===== *)
theory OwnJson
  imports Json
begin

text \<open>
  The ownership boundary \<open>ownJson\<close> of \<open>packages/core/src/format/json.ts\<close>: every foreign value
  is validated, normalised and deep-copied into owned JSON, or rejected with a reason.

  A foreign value is a root in an explicit heap of JavaScript objects, so aliasing and cycles are
  expressible. The visitor's recursion is bounded by the remaining depth, so the model is total without
  assuming anything about the heap. Proxies (objects whose reflection lies or throws) are outside the
  model: a heap cell answers the same on every read.
\<close>

section \<open>Foreign values\<close>

datatype rawval =
    RUndef
  | RNull
  | RBool bool
  | RNum jsnum
  | RStr string
  | ROther string  \<comment> \<open>a function, symbol or bigint, with its \<open>typeof\<close>\<close>
  | RRef nat       \<comment> \<open>an object, by address\<close>

datatype rawprop = Data rawval | Accessor

datatype rawobj =
    RawArr "rawprop option list"          \<comment> \<open>\<open>None\<close> is a hole\<close>
  | RawObj "(string \<times> rawprop) list"      \<comment> \<open>own enumerable properties of a plain object\<close>
  | RawExotic string                      \<comment> \<open>non-plain prototype, with its constructor name\<close>

type_synonym heap = "nat \<Rightarrow> rawobj"

datatype locseg = LKey string | LIdx nat

type_synonym loc = "locseg list"

datatype own_fail =
    TooManyChars
  | TooManyNodes
  | NonFinite loc
  | NotJson loc string
  | TooDeep loc
  | Cyclic loc
  | SparseArray loc
  | AccessorProp loc
  | UndefinedElem loc
  | NonPlain loc string
  | ForbiddenKey loc
  | UndefinedProp loc

record own_limits =
  max_depth :: nat
  max_nodes :: nat
  max_chars :: nat
  reject_undefined :: bool

definition default_limits :: "bool \<Rightarrow> own_limits" where
  "default_limits rej =
     \<lparr>max_depth = 64, max_nodes = 4000000, max_chars = 64000000, reject_undefined = rej\<rparr>"

section \<open>The visitor\<close>

type_synonym counters = "nat \<times> nat"  \<comment> \<open>nodes and string characters charged so far\<close>

definition charge_node :: "own_limits \<Rightarrow> counters \<Rightarrow> own_fail + counters" where
  "charge_node lm c =
     (if Suc (fst c) > max_nodes lm then Inl TooManyNodes else Inr (Suc (fst c), snd c))"

definition charge_chars :: "own_limits \<Rightarrow> string \<Rightarrow> counters \<Rightarrow> own_fail + counters" where
  "charge_chars lm s c =
     (if snd c + length s > max_chars lm then Inl TooManyChars else Inr (fst c, snd c + length s))"

fun own_elems ::
  "(loc \<Rightarrow> counters \<Rightarrow> rawval \<Rightarrow> own_fail + json \<times> counters) \<Rightarrow> loc \<Rightarrow> nat \<Rightarrow> counters \<Rightarrow>
   rawprop option list \<Rightarrow> own_fail + json list \<times> counters" where
  "own_elems vis loc i c [] = Inr ([], c)"
| "own_elems vis loc i c (None # es) = Inl (SparseArray (loc @ [LIdx i]))"
| "own_elems vis loc i c (Some Accessor # es) = Inl (AccessorProp (loc @ [LIdx i]))"
| "own_elems vis loc i c (Some (Data v) # es) =
     (if v = RUndef then Inl (UndefinedElem (loc @ [LIdx i]))
      else rbind (vis (loc @ [LIdx i]) c v) (\<lambda>(j, c).
             map_result (\<lambda>(js, c). (j # js, c)) (own_elems vis loc (Suc i) c es)))"

fun own_props ::
  "own_limits \<Rightarrow> (loc \<Rightarrow> counters \<Rightarrow> rawval \<Rightarrow> own_fail + json \<times> counters) \<Rightarrow> loc \<Rightarrow> counters \<Rightarrow>
   (string \<times> rawprop) list \<Rightarrow> own_fail + (string \<times> json) list \<times> counters" where
  "own_props lm vis loc c [] = Inr ([], c)"
| "own_props lm vis loc c ((k, p) # ps) =
     rbind (charge_chars lm k c) (\<lambda>c.
       if k = proto_key then Inl (ForbiddenKey loc)
       else (case p of
         Accessor \<Rightarrow> Inl (AccessorProp (loc @ [LKey k]))
       | Data v \<Rightarrow>
           if v = RUndef then
             (if reject_undefined lm then Inl (UndefinedProp (loc @ [LKey k]))
              else rbind (charge_node lm c) (\<lambda>c. own_props lm vis loc c ps))
           else rbind (vis (loc @ [LKey k]) c v) (\<lambda>(j, c).
                  map_result (\<lambda>(kvs, c). ((k, j) # kvs, c)) (own_props lm vis loc c ps))))"

text \<open>The part of a visit that reads an object; \<open>child\<close> visits one level deeper.\<close>

definition own_object ::
  "own_limits \<Rightarrow> heap \<Rightarrow> (nat list \<Rightarrow> loc \<Rightarrow> counters \<Rightarrow> rawval \<Rightarrow> own_fail + json \<times> counters) \<Rightarrow>
   nat list \<Rightarrow> loc \<Rightarrow> counters \<Rightarrow> nat \<Rightarrow> own_fail + json \<times> counters" where
  "own_object lm h child anc loc c a =
     (if a \<in> set anc then Inl (Cyclic loc)
      else (case h a of
        RawArr es \<Rightarrow>
          if fst c + length es > max_nodes lm then Inl TooManyNodes
          else map_result (\<lambda>(js, c). (JArr js, c)) (own_elems (child (a # anc)) loc 0 c es)
      | RawObj ps \<Rightarrow>
          if fst c + length ps > max_nodes lm then Inl TooManyNodes
          else map_result (\<lambda>(kvs, c). (JObj kvs, c)) (own_props lm (child (a # anc)) loc c ps)
      | RawExotic name \<Rightarrow> Inl (NonPlain loc name)))"

definition own_value ::
  "own_limits \<Rightarrow> (nat \<Rightarrow> counters \<Rightarrow> own_fail + json \<times> counters) \<Rightarrow> loc \<Rightarrow> counters \<Rightarrow> rawval \<Rightarrow>
   own_fail + json \<times> counters" where
  "own_value lm on_object loc c v =
     rbind (charge_node lm c) (\<lambda>c.
       case v of
         RNull \<Rightarrow> Inr (JNull, c)
       | RStr s \<Rightarrow> map_result (\<lambda>c. (JStr s, c)) (charge_chars lm s c)
       | RBool b \<Rightarrow> Inr (JBool b, c)
       | RNum (Fin r) \<Rightarrow> Inr (JNum r, c)
       | RNum NegZero \<Rightarrow> Inr (JNum 0, c)
       | RNum _ \<Rightarrow> Inl (NonFinite loc)
       | RUndef \<Rightarrow> Inl (NotJson loc ''undefined'')
       | ROther t \<Rightarrow> Inl (NotJson loc t)
       | RRef a \<Rightarrow> on_object a c)"

text \<open>\<open>own_visit lm h d\<close> visits with \<open>d\<close> levels left (\<open>maxDepth - depth\<close> in the code).\<close>

primrec own_visit ::
  "own_limits \<Rightarrow> heap \<Rightarrow> nat \<Rightarrow> nat list \<Rightarrow> loc \<Rightarrow> counters \<Rightarrow> rawval \<Rightarrow> own_fail + json \<times> counters" where
  "own_visit lm h 0 = (\<lambda>anc loc. own_value lm (\<lambda>a c. Inl (TooDeep loc)) loc)"
| "own_visit lm h (Suc d) =
     (\<lambda>anc loc. own_value lm (\<lambda>a c. own_object lm h (own_visit lm h d) anc loc c a) loc)"

definition ownJson :: "own_limits \<Rightarrow> heap \<Rightarrow> rawval \<Rightarrow> own_fail + json" where
  "ownJson lm h v = map_result fst (own_visit lm h (max_depth lm) [] [] (0, 0) v)"

section \<open>What a foreign value denotes\<close>

text \<open>
  The specification: the finite JSON tree a foreign value denotes under JSON semantics (negative zero
  is zero, undefined properties are dropped). A cyclic value, a hole, an accessor, a non-finite number
  and a forbidden key denote nothing.
\<close>

inductive denotes :: "heap \<Rightarrow> rawval \<Rightarrow> json \<Rightarrow> bool"
  and denotes_elems :: "heap \<Rightarrow> rawprop option list \<Rightarrow> json list \<Rightarrow> bool"
  and denotes_props :: "heap \<Rightarrow> (string \<times> rawprop) list \<Rightarrow> (string \<times> json) list \<Rightarrow> bool"
  for h :: heap where
  den_null: "denotes h RNull JNull"
| den_bool: "denotes h (RBool b) (JBool b)"
| den_num: "denotes h (RNum (Fin r)) (JNum r)"
| den_negzero: "denotes h (RNum NegZero) (JNum 0)"
| den_str: "denotes h (RStr s) (JStr s)"
| den_arr: "h a = RawArr es \<Longrightarrow> denotes_elems h es js \<Longrightarrow> denotes h (RRef a) (JArr js)"
| den_obj: "h a = RawObj ps \<Longrightarrow> denotes_props h ps kvs \<Longrightarrow> denotes h (RRef a) (JObj kvs)"
| den_elems_nil: "denotes_elems h [] []"
| den_elems_cons: "denotes h v j \<Longrightarrow> denotes_elems h es js \<Longrightarrow>
    denotes_elems h (Some (Data v) # es) (j # js)"
| den_props_nil: "denotes_props h [] []"
| den_props_drop: "k \<noteq> proto_key \<Longrightarrow> denotes_props h ps kvs \<Longrightarrow>
    denotes_props h ((k, Data RUndef) # ps) kvs"
| den_props_cons: "k \<noteq> proto_key \<Longrightarrow> denotes h v j \<Longrightarrow> denotes_props h ps kvs \<Longrightarrow>
    denotes_props h ((k, Data v) # ps) ((k, j) # kvs)"

text \<open>Own keys of a JavaScript object are distinct.\<close>

definition heap_ok :: "heap \<Rightarrow> bool" where
  "heap_ok h \<longleftrightarrow> (\<forall>a ps. h a = RawObj ps \<longrightarrow> distinct (map fst ps))"

section \<open>Measures of a document\<close>

fun json_depth :: "json \<Rightarrow> nat" where
  "json_depth (JArr xs) = Suc (Max (insert 0 (set (map json_depth xs))))"
| "json_depth (JObj kvs) = Suc (Max (insert 0 (set (map (\<lambda>kv. json_depth (snd kv)) kvs))))"
| "json_depth _ = 0"

fun json_nodes :: "json \<Rightarrow> nat" where
  "json_nodes (JArr xs) = Suc (sum_list (map json_nodes xs))"
| "json_nodes (JObj kvs) = Suc (sum_list (map (\<lambda>kv. json_nodes (snd kv)) kvs))"
| "json_nodes _ = 1"

fun json_chars :: "json \<Rightarrow> nat" where
  "json_chars (JStr s) = length s"
| "json_chars (JArr xs) = sum_list (map json_chars xs)"
| "json_chars (JObj kvs) = sum_list (map (\<lambda>kv. length (fst kv) + json_chars (snd kv)) kvs)"
| "json_chars _ = 0"

lemma json_nodes_pos: "1 \<le> json_nodes j"
  by (cases j) simp_all

lemma json_depth_arr_le: "json_depth (JArr xs) \<le> Suc d \<longleftrightarrow> (\<forall>x \<in> set xs. json_depth x \<le> d)"
  by simp

lemma json_depth_obj_le: "json_depth (JObj kvs) \<le> Suc d \<longleftrightarrow> (\<forall>kv \<in> set kvs. json_depth (snd kv) \<le> d)"
  by simp

section \<open>Soundness\<close>

text \<open>What a successful visit guarantees: value, shape, depth, and that the budgets were charged.\<close>

definition visit_sound ::
  "own_limits \<Rightarrow> heap \<Rightarrow> nat \<Rightarrow> rawval \<Rightarrow> counters \<Rightarrow> json \<Rightarrow> counters \<Rightarrow> bool" where
  "visit_sound lm h d v c j c' \<longleftrightarrow>
     denotes h v j \<and> wf_json j \<and> json_depth j \<le> d \<and>
     fst c + json_nodes j \<le> fst c' \<and> snd c + json_chars j \<le> snd c' \<and>
     fst c' \<le> max_nodes lm \<and> (snd c \<le> max_chars lm \<longrightarrow> snd c' \<le> max_chars lm)"

lemma charge_node_Inr [simp]:
  "charge_node lm c = Inr c' \<longleftrightarrow> Suc (fst c) \<le> max_nodes lm \<and> c' = (Suc (fst c), snd c)"
  by (auto simp: charge_node_def)

lemma charge_chars_Inr [simp]:
  "charge_chars lm s c = Inr c' \<longleftrightarrow> snd c + length s \<le> max_chars lm \<and> c' = (fst c, snd c + length s)"
  by (auto simp: charge_chars_def)

lemma charge_node_ok [simp]: "Suc (fst c) \<le> max_nodes lm \<Longrightarrow> charge_node lm c = Inr (Suc (fst c), snd c)"
  by simp

lemma charge_chars_ok [simp]:
  "snd c + length s \<le> max_chars lm \<Longrightarrow> charge_chars lm s c = Inr (fst c, snd c + length s)"
  by simp

lemma own_elems_sound:
  assumes vis: "\<And>loc c v j c'. vis loc c v = Inr (j, c') \<Longrightarrow> visit_sound lm h d v c j c'"
    and "own_elems vis loc i c es = Inr (js, c')"
  shows "denotes_elems h es js \<and> list_all wf_json js \<and> (\<forall>j \<in> set js. json_depth j \<le> d) \<and>
     fst c + sum_list (map json_nodes js) \<le> fst c' \<and> snd c + sum_list (map json_chars js) \<le> snd c' \<and>
     (fst c \<le> max_nodes lm \<longrightarrow> fst c' \<le> max_nodes lm) \<and> (snd c \<le> max_chars lm \<longrightarrow> snd c' \<le> max_chars lm)"
  using assms(2)
proof (induction es arbitrary: i c js c')
  case Nil
  then show ?case by (auto intro: den_elems_nil)
next
  case (Cons e es)
  from Cons.prems obtain v j c1 js1 where e: "e = Some (Data v)"
    and hd: "vis (loc @ [LIdx i]) c v = Inr (j, c1)"
    and tl: "own_elems vis loc (Suc i) c1 es = Inr (js1, c')" and js: "js = j # js1"
    by (cases "(vis, loc, i, c, e # es)" rule: own_elems.cases) (auto simp: result_simps split: if_splits)
  show ?case
    using vis [OF hd] Cons.IH [OF tl] unfolding e js
    by (auto simp: visit_sound_def intro: den_elems_cons)
qed

lemma own_props_sound:
  assumes vis: "\<And>loc c v j c'. vis loc c v = Inr (j, c') \<Longrightarrow> visit_sound lm h d v c j c'"
    and "own_props lm vis loc c ps = Inr (kvs, c')"
  shows "denotes_props h ps kvs \<and> proto_key \<notin> set (map fst kvs) \<and>
     list_all (\<lambda>kv. wf_json (snd kv)) kvs \<and> (\<forall>kv \<in> set kvs. json_depth (snd kv) \<le> d) \<and>
     fst c + sum_list (map (\<lambda>kv. json_nodes (snd kv)) kvs) \<le> fst c' \<and>
     snd c + sum_list (map (\<lambda>kv. length (fst kv) + json_chars (snd kv)) kvs) \<le> snd c' \<and>
     (fst c \<le> max_nodes lm \<longrightarrow> fst c' \<le> max_nodes lm) \<and> (snd c \<le> max_chars lm \<longrightarrow> snd c' \<le> max_chars lm)"
  using assms(2)
proof (induction ps arbitrary: c kvs c')
  case Nil
  then show ?case by (auto intro: den_props_nil)
next
  case (Cons p ps)
  obtain k q where p: "p = (k, q)" by (cases p)
  from Cons.prems obtain v where k: "k \<noteq> proto_key" and q: "q = Data v"
    and chars: "snd c + length k \<le> max_chars lm"
    by (auto simp: p result_simps split: if_splits rawprop.splits)
  show ?case
  proof (cases "v = RUndef")
    case True
    with Cons.prems k q chars have "Suc (fst c) \<le> max_nodes lm"
      and rest: "own_props lm vis loc (Suc (fst c), snd c + length k) ps = Inr (kvs, c')"
      by (auto simp: p result_simps split: if_splits)
    then show ?thesis
      using Cons.IH [OF rest] k chars True unfolding p q by (auto intro: den_props_drop)
  next
    case False
    with Cons.prems k q obtain j c1 kvs1 where kvs: "kvs = (k, j) # kvs1"
      and hd: "vis (loc @ [LKey k]) (fst c, snd c + length k) v = Inr (j, c1)"
      and tl: "own_props lm vis loc c1 ps = Inr (kvs1, c')"
      by (auto simp: p result_simps)
    show ?thesis
      using vis [OF hd] Cons.IH [OF tl] k chars unfolding p q kvs
      by (auto simp: visit_sound_def intro: den_props_cons)
  qed
qed

lemma denotes_props_keys: "denotes_props h ps kvs \<Longrightarrow> set (map fst kvs) \<subseteq> set (map fst ps)"
  by (induction rule: denotes_denotes_elems_denotes_props.inducts(3)
        [where ?P1.0 = "\<lambda>_ _. True" and ?P2.0 = "\<lambda>_ _. True"]) auto

lemma denotes_props_distinct:
  "denotes_props h ps kvs \<Longrightarrow> distinct (map fst ps) \<longrightarrow> distinct (map fst kvs)"
proof (induction rule: denotes_denotes_elems_denotes_props.inducts(3)
    [where ?P1.0 = "\<lambda>_ _. True" and ?P2.0 = "\<lambda>_ _. True"])
  case (den_props_cons k v j ps kvs)
  then show ?case using denotes_props_keys [of h ps kvs] by auto
qed auto

lemma own_value_sound:
  assumes on_object: "\<And>a c j c'. fst c \<le> max_nodes lm \<Longrightarrow> on_object a c = Inr (j, c') \<Longrightarrow>
      denotes h (RRef a) j \<and> wf_json j \<and> json_depth j \<le> d \<and>
      fst c + json_nodes j \<le> Suc (fst c') \<and> snd c + json_chars j \<le> snd c' \<and>
      fst c' \<le> max_nodes lm \<and> (snd c \<le> max_chars lm \<longrightarrow> snd c' \<le> max_chars lm)"
    and "own_value lm on_object loc c v = Inr (j, c')"
  shows "visit_sound lm h d v c j c'"
proof (cases v)
  case (RRef a)
  then have "Suc (fst c) \<le> max_nodes lm" and "on_object a (Suc (fst c), snd c) = Inr (j, c')"
    using assms(2) by (auto simp: own_value_def result_simps)
  then show ?thesis
    using on_object [of "(Suc (fst c), snd c)" a j c'] RRef by (auto simp: visit_sound_def)
next
  case (RNum n)
  then show ?thesis
    using assms(2) by (cases n)
      (auto simp: own_value_def result_simps visit_sound_def intro: den_num den_negzero)
qed (use assms(2) in \<open>auto simp: own_value_def result_simps visit_sound_def
      intro: den_null den_bool den_str\<close>)

lemma own_visit_sound:
  assumes "heap_ok h" and "own_visit lm h d anc loc c v = Inr (j, c')"
  shows "visit_sound lm h d v c j c'"
  using assms(2)
proof (induction d arbitrary: anc loc c v j c')
  case 0
  then show ?case by (auto intro: own_value_sound)
next
  case (Suc d)
  show ?case
  proof (rule own_value_sound)
    show "own_value lm (\<lambda>a c. own_object lm h (own_visit lm h d) anc loc c a) loc c v = Inr (j, c')"
      using Suc.prems by simp
  next
    fix a c j c'
    assume nodes: "fst c \<le> max_nodes lm"
      and obj: "own_object lm h (own_visit lm h d) anc loc c a = Inr (j, c')"
    show "denotes h (RRef a) j \<and> wf_json j \<and> json_depth j \<le> Suc d \<and>
      fst c + json_nodes j \<le> Suc (fst c') \<and> snd c + json_chars j \<le> snd c' \<and>
      fst c' \<le> max_nodes lm \<and> (snd c \<le> max_chars lm \<longrightarrow> snd c' \<le> max_chars lm)"
    proof (cases "h a")
      case (RawArr es)
      with obj obtain js where j: "j = JArr js"
        and els: "own_elems (own_visit lm h d (a # anc)) loc 0 c es = Inr (js, c')"
        by (auto simp: own_object_def result_simps split: if_splits)
      show ?thesis
        using own_elems_sound [OF Suc.IH els] nodes den_arr [of h a es js, OF RawArr] unfolding j
        by (auto simp: json_depth_arr_le simp del: json_depth.simps)
    next
      case (RawObj ps)
      with obj obtain kvs where j: "j = JObj kvs"
        and els: "own_props lm (own_visit lm h d (a # anc)) loc c ps = Inr (kvs, c')"
        by (auto simp: own_object_def result_simps split: if_splits)
      have "distinct (map fst ps)" using assms(1) RawObj by (simp add: heap_ok_def)
      then show ?thesis
        using own_props_sound [OF Suc.IH els] denotes_props_distinct [of h ps kvs] nodes
          den_obj [of h a ps kvs, OF RawObj] unfolding j
        by (auto simp: json_depth_obj_le simp del: json_depth.simps)
    qed (use obj in \<open>simp add: own_object_def split: if_splits\<close>)
  qed
qed

section \<open>Completeness\<close>

inductive_cases denotes_refE: "denotes h (RRef a) j"
inductive_cases denotes_undefE: "denotes h RUndef j"
inductive_cases denotes_elems_nilE: "denotes_elems h es []"
inductive_cases denotes_elems_consE: "denotes_elems h es (j # js)"
inductive_cases denotes_elems_rawE: "denotes_elems h (e # es) js"
inductive_cases denotes_props_rawE: "denotes_props h (p # ps) kvs"

inductive_simps denotes_leaf_simps [simp]:
  "denotes h RNull j" "denotes h (RBool b) j" "denotes h (RStr s) j" "denotes h (RNum (Fin r)) j"
  "denotes h (RNum NegZero) j" "denotes h RUndef j" "denotes h (ROther t) j"
  "denotes h (RNum NaN) j" "denotes h (RNum PosInf) j" "denotes h (RNum NegInf) j"
  "denotes_elems h [] js" "denotes_props h [] kvs"

lemma denotes_functional:
  "denotes h v j \<Longrightarrow> denotes h v j' \<Longrightarrow> j' = j"
  "denotes_elems h es js \<Longrightarrow> denotes_elems h es js' \<Longrightarrow> js' = js"
  "denotes_props h ps kvs \<Longrightarrow> denotes_props h ps kvs' \<Longrightarrow> kvs' = kvs"
proof (induction arbitrary: j' and js' and kvs' rule: denotes_denotes_elems_denotes_props.inducts)
  case (den_arr a es js)
  from den_arr.prems show ?case
    by (rule denotes_refE) (use den_arr(1) in \<open>auto dest: den_arr.IH(3)\<close>)
next
  case (den_obj a ps kvs)
  from den_obj.prems show ?case
    by (rule denotes_refE) (use den_obj(1) in \<open>auto dest: den_obj.IH(3)\<close>)
next
  case (den_elems_cons v j es js)
  from den_elems_cons.prems show ?case
    by (rule denotes_elems_rawE) (auto dest: den_elems_cons.IH(2,4))
next
  case (den_props_drop k ps kvs)
  from den_props_drop.prems show ?case
    by (rule denotes_props_rawE) (auto dest: den_props_drop.IH(2))
next
  case (den_props_cons k v j ps kvs)
  have "v \<noteq> RUndef" using den_props_cons by auto
  with den_props_cons.prems show ?case
    by (elim denotes_props_rawE) (auto dest: den_props_cons.IH(2,4))
qed (simp_all add: denotes_leaf_simps)

text \<open>No own property of any object holds \<open>undefined\<close>.\<close>

definition heap_defined :: "heap \<Rightarrow> bool" where
  "heap_defined h \<longleftrightarrow> (\<forall>a ps. h a = RawObj ps \<longrightarrow> (\<forall>p \<in> set ps. snd p \<noteq> Data RUndef))"

text \<open>
  What a value costs: the nodes and the string characters that owning it charges. A dropped
  \<open>undefined\<close> property still costs a node and its key; where undefined properties are to be
  rejected (\<open>r\<close>), a value that has one costs nothing because it is not a value.
\<close>

inductive weighs :: "bool \<Rightarrow> heap \<Rightarrow> rawval \<Rightarrow> json \<Rightarrow> nat \<Rightarrow> nat \<Rightarrow> bool"
  and weighs_elems :: "bool \<Rightarrow> heap \<Rightarrow> rawprop option list \<Rightarrow> json list \<Rightarrow> nat \<Rightarrow> nat \<Rightarrow> bool"
  and weighs_props :: "bool \<Rightarrow> heap \<Rightarrow> (string \<times> rawprop) list \<Rightarrow> (string \<times> json) list \<Rightarrow> nat \<Rightarrow> nat \<Rightarrow> bool"
  for r :: bool and h :: heap where
  w_null: "weighs r h RNull JNull 1 0"
| w_bool: "weighs r h (RBool b) (JBool b) 1 0"
| w_num: "weighs r h (RNum (Fin q)) (JNum q) 1 0"
| w_negzero: "weighs r h (RNum NegZero) (JNum 0) 1 0"
| w_str: "weighs r h (RStr s) (JStr s) 1 (length s)"
| w_arr: "h a = RawArr es \<Longrightarrow> weighs_elems r h es js n m \<Longrightarrow> weighs r h (RRef a) (JArr js) (Suc n) m"
| w_obj: "h a = RawObj ps \<Longrightarrow> weighs_props r h ps kvs n m \<Longrightarrow> weighs r h (RRef a) (JObj kvs) (Suc n) m"
| w_elems_nil: "weighs_elems r h [] [] 0 0"
| w_elems_cons: "weighs r h v j n m \<Longrightarrow> weighs_elems r h es js n' m' \<Longrightarrow>
    weighs_elems r h (Some (Data v) # es) (j # js) (n + n') (m + m')"
| w_props_nil: "weighs_props r h [] [] 0 0"
| w_props_drop: "\<not> r \<Longrightarrow> k \<noteq> proto_key \<Longrightarrow> weighs_props r h ps kvs n' m' \<Longrightarrow>
    weighs_props r h ((k, Data RUndef) # ps) kvs (Suc n') (length k + m')"
| w_props_cons: "k \<noteq> proto_key \<Longrightarrow> weighs r h v j n m \<Longrightarrow> weighs_props r h ps kvs n' m' \<Longrightarrow>
    weighs_props r h ((k, Data v) # ps) ((k, j) # kvs) (n + n') (length k + m + m')"

inductive_cases weighs_refE: "weighs r h (RRef a) j n m"
inductive_cases weighs_elems_rawE: "weighs_elems r h (e # es) js n m"
inductive_cases weighs_props_rawE: "weighs_props r h (p # ps) kvs n m"

inductive_simps weighs_leaf_simps [simp]:
  "weighs r h RNull j n m" "weighs r h (RBool b) j n m" "weighs r h (RStr s) j n m"
  "weighs r h (RNum (Fin q)) j n m" "weighs r h (RNum NegZero) j n m" "weighs r h RUndef j n m"
  "weighs r h (ROther t) j n m" "weighs r h (RNum NaN) j n m" "weighs r h (RNum PosInf) j n m"
  "weighs r h (RNum NegInf) j n m" "weighs_elems r h [] js n m" "weighs_props r h [] kvs n m"

lemma weighs_denotes:
  "weighs r h v j n m \<Longrightarrow> denotes h v j"
  "weighs_elems r h es js n m \<Longrightarrow> denotes_elems h es js"
  "weighs_props r h ps kvs n m \<Longrightarrow> denotes_props h ps kvs"
  by (induction rule: weighs_weighs_elems_weighs_props.inducts)
    (auto intro: denotes_denotes_elems_denotes_props.intros)

text \<open>Without undefined properties a value costs exactly what its JSON tree measures.\<close>

lemma denotes_weighs:
  assumes "heap_defined h"
  shows "denotes h v j \<Longrightarrow> weighs r h v j (json_nodes j) (json_chars j)"
    and "denotes_elems h es js \<Longrightarrow>
      weighs_elems r h es js (sum_list (map json_nodes js)) (sum_list (map json_chars js))"
    and "denotes_props h ps kvs \<Longrightarrow> (\<forall>p \<in> set ps. snd p \<noteq> Data RUndef) \<longrightarrow>
      weighs_props r h ps kvs (sum_list (map (\<lambda>kv. json_nodes (snd kv)) kvs))
        (sum_list (map (\<lambda>kv. length (fst kv) + json_chars (snd kv)) kvs))"
proof (induction rule: denotes_denotes_elems_denotes_props.inducts)
  case (den_obj a ps kvs)
  then have "\<forall>p \<in> set ps. snd p \<noteq> Data RUndef" using assms unfolding heap_defined_def by blast
  then show ?case using den_obj by (simp add: w_obj)
next
  case (den_props_cons k v j ps kvs)
  then show ?case
    using w_props_cons [of k r h v j "json_nodes j" "json_chars j" ps kvs] by (simp add: add.assoc)
qed (simp_all add: w_arr w_elems_cons w_elems_nil w_props_nil)

text \<open>Where undefined properties are dropped, everything that denotes a tree has a cost.\<close>

lemma denoting_weighs:
  "denotes h v j \<Longrightarrow> \<exists>n m. weighs False h v j n m"
  "denotes_elems h es js \<Longrightarrow> \<exists>n m. weighs_elems False h es js n m"
  "denotes_props h ps kvs \<Longrightarrow> \<exists>n m. weighs_props False h ps kvs n m"
proof (induction rule: denotes_denotes_elems_denotes_props.inducts)
  case (den_props_drop k ps kvs)
  then show ?case using w_props_drop by blast
qed (blast intro: weighs_weighs_elems_weighs_props.intros)+

lemma weighs_positive: "weighs r h v j n m \<Longrightarrow> 1 \<le> n"
  by (cases rule: weighs.cases) auto

lemma weighs_elems_length: "weighs_elems r h es js n m \<Longrightarrow> length es \<le> n"
proof (induction es arbitrary: js n m)
  case (Cons e es)
  from Cons.prems show ?case
    by (rule weighs_elems_rawE) (use Cons.IH weighs_positive in force)
qed simp

lemma weighs_props_length: "weighs_props r h ps kvs n m \<Longrightarrow> length ps \<le> n"
proof (induction ps arbitrary: kvs n m)
  case (Cons p ps)
  from Cons.prems show ?case
    by (rule weighs_props_rawE) (use Cons.IH weighs_positive in force)+
qed simp

subsection \<open>What a successful visit charges\<close>

definition spends ::
  "own_limits \<Rightarrow> heap \<Rightarrow> rawval \<Rightarrow> counters \<Rightarrow> json \<Rightarrow> counters \<Rightarrow> bool" where
  "spends lm h v c j c' \<longleftrightarrow>
     (\<exists>n m. weighs (reject_undefined lm) h v j n m \<and> c' = (fst c + n, snd c + m))"

lemma own_elems_spends:
  assumes vis: "\<And>loc c v j c'. vis loc c v = Inr (j, c') \<Longrightarrow> spends lm h v c j c'"
    and "own_elems vis loc i c es = Inr (js, c')"
  shows "\<exists>n m. weighs_elems (reject_undefined lm) h es js n m \<and> c' = (fst c + n, snd c + m)"
  using assms(2)
proof (induction es arbitrary: i c js c')
  case (Cons e es)
  from Cons.prems obtain v j c1 js1 where e: "e = Some (Data v)"
    and hd: "vis (loc @ [LIdx i]) c v = Inr (j, c1)"
    and tl: "own_elems vis loc (Suc i) c1 es = Inr (js1, c')" and js: "js = j # js1"
    by (cases "(vis, loc, i, c, e # es)" rule: own_elems.cases) (auto simp: result_simps split: if_splits)
  from vis [OF hd] obtain n m where w: "weighs (reject_undefined lm) h v j n m"
    and c1: "c1 = (fst c + n, snd c + m)"
    unfolding spends_def by blast
  from Cons.IH [OF tl] obtain n' m' where w': "weighs_elems (reject_undefined lm) h es js1 n' m'"
    and c': "c' = (fst c1 + n', snd c1 + m')"
    by blast
  show ?case
    unfolding e js using w_elems_cons [OF w w'] c1 c' by (intro exI conjI) simp_all
qed simp

lemma own_props_spends:
  assumes vis: "\<And>loc c v j c'. vis loc c v = Inr (j, c') \<Longrightarrow> spends lm h v c j c'"
    and "own_props lm vis loc c ps = Inr (kvs, c')"
  shows "\<exists>n m. weighs_props (reject_undefined lm) h ps kvs n m \<and> c' = (fst c + n, snd c + m)"
  using assms(2)
proof (induction ps arbitrary: c kvs c')
  case (Cons p ps)
  obtain k q where p: "p = (k, q)" by (cases p)
  from Cons.prems obtain v where k: "k \<noteq> proto_key" and q: "q = Data v"
    by (auto simp: p result_simps split: if_splits rawprop.splits)
  show ?case
  proof (cases "v = RUndef")
    case True
    with Cons.prems k q have r: "\<not> reject_undefined lm"
      and rest: "own_props lm vis loc (Suc (fst c), snd c + length k) ps = Inr (kvs, c')"
      by (auto simp: p result_simps split: if_splits)
    from Cons.IH [OF rest] obtain n m where w: "weighs_props (reject_undefined lm) h ps kvs n m"
      and c': "c' = (Suc (fst c) + n, snd c + length k + m)"
      by auto
    show ?thesis
      unfolding p q True using w_props_drop [OF r k w] c' by (intro exI conjI) simp_all
  next
    case False
    with Cons.prems k q obtain j c1 kvs1 where kvs: "kvs = (k, j) # kvs1"
      and hd: "vis (loc @ [LKey k]) (fst c, snd c + length k) v = Inr (j, c1)"
      and tl: "own_props lm vis loc c1 ps = Inr (kvs1, c')"
      by (auto simp: p result_simps)
    from vis [OF hd] obtain n m where w: "weighs (reject_undefined lm) h v j n m"
      and c1: "c1 = (fst c + n, snd c + length k + m)"
      unfolding spends_def by auto
    from Cons.IH [OF tl] obtain n' m' where w': "weighs_props (reject_undefined lm) h ps kvs1 n' m'"
      and c': "c' = (fst c1 + n', snd c1 + m')"
      by blast
    show ?thesis
      unfolding p q kvs using w_props_cons [OF k w w'] c1 c' by (intro exI conjI) (auto simp: add.assoc)
  qed
qed simp

lemma own_visit_spends:
  "own_visit lm h d anc loc c v = Inr (j, c') \<Longrightarrow> spends lm h v c j c'"
proof (induction d arbitrary: anc loc c v j c')
  case 0
  then show ?case
    by (cases v; cases "case v of RNum n \<Rightarrow> n | _ \<Rightarrow> NaN")
      (auto simp: own_value_def spends_def result_simps)
next
  case (Suc d)
  show ?case
  proof (cases v)
    case (RRef a)
    with Suc.prems have obj: "own_object lm h (own_visit lm h d) anc loc (Suc (fst c), snd c) a = Inr (j, c')"
      by (auto simp: own_value_def result_simps)
    then consider (arr) es js where "h a = RawArr es" "j = JArr js"
        "own_elems (own_visit lm h d (a # anc)) loc 0 (Suc (fst c), snd c) es = Inr (js, c')"
      | (obj) ps kvs where "h a = RawObj ps" "j = JObj kvs"
        "own_props lm (own_visit lm h d (a # anc)) loc (Suc (fst c), snd c) ps = Inr (kvs, c')"
      by (auto simp: own_object_def result_simps split: if_splits rawobj.splits)
    then show ?thesis
    proof cases
      case arr
      have "\<exists>n m. weighs_elems (reject_undefined lm) h es js n m \<and>
          c' = (fst (Suc (fst c), snd c) + n, snd (Suc (fst c), snd c) + m)"
        by (rule own_elems_spends [OF Suc.IH arr(3)])
      then obtain n m
        where w: "weighs_elems (reject_undefined lm) h es js n m" and c': "c' = (Suc (fst c) + n, snd c + m)"
        by auto
      show ?thesis
        unfolding spends_def RRef arr(2)
        by (intro exI [of _ "Suc n"] exI [of _ m] conjI w_arr [of h a es, OF arr(1) w]) (simp add: c')
    next
      case obj
      have "\<exists>n m. weighs_props (reject_undefined lm) h ps kvs n m \<and>
          c' = (fst (Suc (fst c), snd c) + n, snd (Suc (fst c), snd c) + m)"
        by (rule own_props_spends [OF Suc.IH obj(3)])
      then obtain n m
        where w: "weighs_props (reject_undefined lm) h ps kvs n m" and c': "c' = (Suc (fst c) + n, snd c + m)"
        by auto
      show ?thesis
        unfolding spends_def RRef obj(2)
        by (intro exI [of _ "Suc n"] exI [of _ m] conjI w_obj [of h a ps, OF obj(1) w]) (simp add: c')
    qed
  next
    case (RNum n)
    then show ?thesis
      using Suc.prems by (cases n) (auto simp: own_value_def spends_def result_simps)
  qed (use Suc.prems in \<open>auto simp: own_value_def spends_def result_simps\<close>)
qed

subsection \<open>What is within the budgets is accepted\<close>

definition fits :: "own_limits \<Rightarrow> counters \<Rightarrow> nat \<Rightarrow> nat \<Rightarrow> bool" where
  "fits lm c n m \<longleftrightarrow> fst c + n \<le> max_nodes lm \<and> snd c + m \<le> max_chars lm"

definition visits ::
  "own_limits \<Rightarrow> (loc \<Rightarrow> counters \<Rightarrow> rawval \<Rightarrow> own_fail + json \<times> counters) \<Rightarrow> rawval \<Rightarrow> json \<Rightarrow>
   nat \<Rightarrow> nat \<Rightarrow> bool" where
  "visits lm vis v j n m \<longleftrightarrow>
     (\<forall>loc c. fits lm c n m \<longrightarrow> vis loc c v = Inr (j, (fst c + n, snd c + m)))"

lemma visitsD:
  "visits lm vis v j n m \<Longrightarrow> fits lm c n m \<Longrightarrow> vis loc c v = Inr (j, (fst c + n, snd c + m))"
  unfolding visits_def by blast

lemma own_elems_complete:
  assumes "weighs_elems r h es js n m"
    and "\<And>v j n m. j \<in> set js \<Longrightarrow> weighs r h v j n m \<Longrightarrow> visits lm vis v j n m"
    and "fits lm c n m"
  shows "own_elems vis loc i c es = Inr (js, (fst c + n, snd c + m))"
  using assms
proof (induction es arbitrary: i c js n m)
  case (Cons e es)
  from Cons.prems(1) obtain v j js1 n1 m1 n2 m2 where e: "e = Some (Data v)" and js: "js = j # js1"
    and w: "weighs r h v j n1 m1" "weighs_elems r h es js1 n2 m2" and nm: "n = n1 + n2" "m = m1 + m2"
    by (auto elim: weighs_elems_rawE)
  have v: "v \<noteq> RUndef" using w(1) by auto
  have "visits lm vis v j n1 m1" using Cons.prems(2) js w(1) by simp
  then have hd: "vis (loc @ [LIdx i]) c v = Inr (j, (fst c + n1, snd c + m1))"
    by (rule visitsD) (use Cons.prems(3) nm in \<open>auto simp: fits_def\<close>)
  have tl: "own_elems vis loc (Suc i) (fst c + n1, snd c + m1) es =
      Inr (js1, (fst c + n1 + n2, snd c + m1 + m2))"
    using Cons.IH [OF w(2)] Cons.prems(2,3) js nm by (simp add: fits_def add.assoc)
  show ?case by (simp add: e js v hd tl nm add.assoc)
qed simp

lemma own_props_complete:
  assumes "weighs_props (reject_undefined lm) h ps kvs n m"
    and "\<And>v j n m. j \<in> snd ` set kvs \<Longrightarrow> weighs (reject_undefined lm) h v j n m \<Longrightarrow> visits lm vis v j n m"
    and "fits lm c n m"
  shows "own_props lm vis loc c ps = Inr (kvs, (fst c + n, snd c + m))"
  using assms
proof (induction ps arbitrary: c kvs n m)
  case (Cons p ps)
  from Cons.prems(1) show ?case
  proof (rule weighs_props_rawE)
    fix k n2 m2
    assume r: "\<not> reject_undefined lm" and k: "k \<noteq> proto_key" and p: "p = (k, Data RUndef)"
      and w0: "weighs_props False h ps kvs n2 m2" and nm: "n = Suc n2" "m = length k + m2"
    have w: "weighs_props (reject_undefined lm) h ps kvs n2 m2" using w0 r by simp
    have "own_props lm vis loc (Suc (fst c), snd c + length k) ps =
        Inr (kvs, (Suc (fst c) + n2, snd c + length k + m2))"
      using Cons.IH [OF w] Cons.prems(2,3) nm by (simp add: fits_def)
    then show ?thesis using Cons.prems(3) r k by (simp add: p nm fits_def)
  next
    fix k v j n1 m1 kvs1 n2 m2
    assume k: "k \<noteq> proto_key" and p: "p = (k, Data v)" and kvs: "kvs = (k, j) # kvs1"
      and w: "weighs (reject_undefined lm) h v j n1 m1" "weighs_props (reject_undefined lm) h ps kvs1 n2 m2"
      and nm: "n = n1 + n2" "m = length k + m1 + m2"
    have v: "v \<noteq> RUndef" using w(1) by auto
    let ?c1 = "(fst c, snd c + length k)"
    have "visits lm vis v j n1 m1" using Cons.prems(2) kvs w(1) by simp
    then have hd: "vis (loc @ [LKey k]) ?c1 v = Inr (j, (fst ?c1 + n1, snd ?c1 + m1))"
      by (rule visitsD) (use Cons.prems(3) nm in \<open>auto simp: fits_def\<close>)
    have tl: "own_props lm vis loc (fst c + n1, snd c + length k + m1) ps =
        Inr (kvs1, (fst c + n1 + n2, snd c + length k + m1 + m2))"
      using Cons.IH [OF w(2)] Cons.prems(2,3) kvs nm by (simp add: fits_def add.assoc)
    show ?thesis using hd tl Cons.prems(3) by (simp add: p kvs v k nm fits_def add.assoc [symmetric])
  qed
qed simp

lemma size_json_elem: "j \<in> set js \<Longrightarrow> size j < size (JArr js)"
  by (simp add: less_Suc_eq_le size_list_estimation')

lemma size_json_value: "kv \<in> set kvs \<Longrightarrow> size (snd kv) < size (JObj kvs)"
  using size_json_entry by simp

text \<open>The ancestors of a visited value denote strictly larger trees, so they never include it.\<close>

definition above :: "heap \<Rightarrow> nat list \<Rightarrow> json \<Rightarrow> bool" where
  "above h anc j \<longleftrightarrow> (\<forall>b \<in> set anc. \<exists>jb. denotes h (RRef b) jb \<and> size j < size jb)"

lemma above_fresh: "above h anc j \<Longrightarrow> denotes h (RRef a) j \<Longrightarrow> a \<notin> set anc"
  unfolding above_def using denotes_functional(1) by (metis less_irrefl_nat)

lemma above_push:
  "above h anc j \<Longrightarrow> denotes h (RRef a) j \<Longrightarrow> size i < size j \<Longrightarrow> above h (a # anc) i"
  unfolding above_def by fastforce

lemma own_visit_accepts:
  assumes "weighs (reject_undefined lm) h v j n m" and "json_depth j \<le> d" and "above h anc j"
    and "fits lm c n m"
  shows "own_visit lm h d anc loc c v = Inr (j, (fst c + n, snd c + m))"
  using assms
proof (induction d arbitrary: anc loc c v j n m)
  case 0
  then show ?case
    by (cases v; cases "case v of RNum n \<Rightarrow> n | _ \<Rightarrow> NaN")
      (auto simp: own_value_def fits_def elim!: weighs_refE)
next
  case (Suc d)
  show ?case
  proof (cases v)
    case (RRef a)
    have den: "denotes h (RRef a) j" using weighs_denotes(1) Suc.prems(1) RRef by simp
    have fresh: "a \<notin> set anc" using above_fresh Suc.prems(3) den by blast
    have visit: "visits lm (own_visit lm h d (a # anc)) w i n m"
      if "size i < size j" "json_depth i \<le> d" "weighs (reject_undefined lm) h w i n m" for w i n m
      using Suc.IH that above_push Suc.prems(3) den unfolding visits_def by blast
    have "weighs (reject_undefined lm) h (RRef a) j n m" using Suc.prems(1) RRef by simp
    then show ?thesis
    proof (rule weighs_refE)
      fix es js n1
      assume j: "j = JArr js" and es: "h a = RawArr es" and n: "n = Suc n1"
        and w: "weighs_elems (reject_undefined lm) h es js n1 m"
      have "own_elems (own_visit lm h d (a # anc)) loc 0 (Suc (fst c), snd c) es =
          Inr (js, (Suc (fst c) + n1, snd c + m))"
        using own_elems_complete [OF w, of lm "own_visit lm h d (a # anc)" "(Suc (fst c), snd c)" loc 0]
          visit Suc.prems(2,4) size_json_elem [of _ js]
        by (simp add: j n fits_def)
      then show ?thesis
        using Suc.prems(4) fresh es weighs_elems_length [OF w] RRef
        by (simp add: j n own_value_def own_object_def fits_def)
    next
      fix ps kvs n1
      assume j: "j = JObj kvs" and ps: "h a = RawObj ps" and n: "n = Suc n1"
        and w: "weighs_props (reject_undefined lm) h ps kvs n1 m"
      have kids: "visits lm (own_visit lm h d (a # anc)) w i n m"
        if "i \<in> snd ` set kvs" "weighs (reject_undefined lm) h w i n m" for w i n m
      proof -
        from that(1) obtain kv where kv: "kv \<in> set kvs" "i = snd kv" by blast
        then have "json_depth i \<le> d" using Suc.prems(2) j json_depth_obj_le by blast
        then show ?thesis using visit that(2) size_json_value [OF kv(1)] j kv(2) by simp
      qed
      have "own_props lm (own_visit lm h d (a # anc)) loc (Suc (fst c), snd c) ps =
          Inr (kvs, (Suc (fst c) + n1, snd c + m))"
        using own_props_complete [OF w, of "own_visit lm h d (a # anc)" "(Suc (fst c), snd c)" loc]
          kids Suc.prems(4)
        by (simp add: j n fits_def)
      then show ?thesis
        using Suc.prems(4) fresh ps weighs_props_length [OF w] RRef
        by (simp add: j n own_value_def own_object_def fits_def)
    qed
  next
    case (RNum n)
    then show ?thesis
      using Suc.prems by (cases n) (auto simp: own_value_def fits_def)
  qed (use Suc.prems in \<open>auto simp: own_value_def fits_def\<close>)
qed

lemma own_visit_complete:
  assumes "heap_defined h" and "denotes h v j" and "json_depth j \<le> d" and "above h anc j"
    and "fits lm c (json_nodes j) (json_chars j)"
  shows "own_visit lm h d anc loc c v = Inr (j, (fst c + json_nodes j, snd c + json_chars j))"
  using own_visit_accepts [OF denotes_weighs(1) [OF assms(1,2)] assms(3-5)] .

section \<open>Cycles\<close>

inductive child_ref :: "heap \<Rightarrow> nat \<Rightarrow> nat \<Rightarrow> bool" for h :: heap where
  child_elem: "h a = RawArr es \<Longrightarrow> Some (Data (RRef b)) \<in> set es \<Longrightarrow> child_ref h a b"
| child_prop: "h a = RawObj ps \<Longrightarrow> (k, Data (RRef b)) \<in> set ps \<Longrightarrow> child_ref h a b"

lemma denotes_elems_member:
  "denotes_elems h es js \<Longrightarrow> Some (Data v) \<in> set es \<Longrightarrow> \<exists>j \<in> set js. denotes h v j"
proof (induction es arbitrary: js)
  case (Cons e es)
  from Cons.prems(1) show ?case
    by (rule denotes_elems_rawE) (use Cons.IH Cons.prems(2) in force)
qed simp

lemma denotes_props_member:
  "denotes_props h ps kvs \<Longrightarrow> (k, Data v) \<in> set ps \<Longrightarrow> v \<noteq> RUndef \<Longrightarrow>
   \<exists>kv \<in> set kvs. denotes h v (snd kv)"
proof (induction ps arbitrary: kvs)
  case (Cons p ps)
  from Cons.prems(1) show ?case
    by (rule denotes_props_rawE) (use Cons.IH Cons.prems(2,3) in force)+
qed simp

lemma child_ref_smaller:
  assumes "child_ref h a b" and "denotes h (RRef a) j"
  shows "\<exists>i. denotes h (RRef b) i \<and> size i < size j"
  using assms
proof (cases rule: child_ref.cases)
  case (child_elem es)
  then obtain js where "j = JArr js" "denotes_elems h es js"
    using assms(2) by (auto elim: denotes_refE)
  then show ?thesis
    using denotes_elems_member [of h es js "RRef b"] child_elem size_json_elem by blast
next
  case (child_prop ps k)
  then obtain kvs where "j = JObj kvs" "denotes_props h ps kvs"
    using assms(2) by (auto elim: denotes_refE)
  then show ?thesis
    using denotes_props_member [of h ps kvs k "RRef b"] child_prop size_json_value by blast
qed

lemma child_refs_smaller:
  "(child_ref h)\<^sup>+\<^sup>+ a b \<Longrightarrow> denotes h (RRef a) j \<Longrightarrow> \<exists>i. denotes h (RRef b) i \<and> size i < size j"
proof (induction rule: tranclp_induct)
  case (base b)
  then show ?case by (rule child_ref_smaller)
next
  case (step b c)
  then show ?case using child_ref_smaller by (meson less_trans)
qed

lemma cyclic_denotes_nothing: "(child_ref h)\<^sup>+\<^sup>+ a a \<Longrightarrow> \<not> denotes h (RRef a) j"
  using child_refs_smaller [of h a a j] denotes_functional(1) by (metis less_irrefl_nat)

subsection \<open>The walk to a rejected place\<close>

definition slot_at :: "heap \<Rightarrow> nat \<Rightarrow> locseg \<Rightarrow> rawval option" where
  "slot_at h a s = (case (h a, s) of
       (RawArr es, LIdx i) \<Rightarrow>
         if i < length es then (case es ! i of Some (Data v) \<Rightarrow> Some v | _ \<Rightarrow> None) else None
     | (RawObj ps, LKey k) \<Rightarrow> (case map_of ps k of Some (Data v) \<Rightarrow> Some v | _ \<Rightarrow> None)
     | _ \<Rightarrow> None)"

text \<open>The objects met on the way from a value along a location, the last one included.\<close>

fun addresses_along :: "heap \<Rightarrow> rawval \<Rightarrow> loc \<Rightarrow> nat list option" where
  "addresses_along h (RRef a) [] = Some [a]"
| "addresses_along h (RRef a) (s # loc) = (case slot_at h a s of
       Some w \<Rightarrow> map_option ((#) a) (addresses_along h w loc)
     | None \<Rightarrow> None)"
| "addresses_along h _ _ = None"

fun walk_place :: "own_fail \<Rightarrow> loc option" where
  "walk_place (Cyclic loc) = Some loc"
| "walk_place (TooDeep loc) = Some loc"
| "walk_place _ = None"

text \<open>The walk below \<open>anc\<close> that a rejection \<open>e\<close> at \<open>loc'\<close> under \<open>loc\<close> has made.\<close>

definition walked_to :: "heap \<Rightarrow> nat \<Rightarrow> nat list \<Rightarrow> rawval \<Rightarrow> loc \<Rightarrow> own_fail \<Rightarrow> loc \<Rightarrow> bool" where
  "walked_to h d anc v loc e loc' \<longleftrightarrow> (\<exists>rest as b. loc' = loc @ rest \<and>
     addresses_along h v rest = Some (as @ [b]) \<and> distinct as \<and> set as \<inter> set anc = {} \<and>
     (e = Cyclic loc' \<longrightarrow> b \<in> set as \<union> set anc) \<and> (e = TooDeep loc' \<longrightarrow> length as = d))"

lemma charge_fail_place:
  "charge_node lm c = Inl e \<Longrightarrow> walk_place e = None"
  "charge_chars lm s c = Inl e \<Longrightarrow> walk_place e = None"
  by (auto simp: charge_node_def charge_chars_def split: if_splits)

lemma own_elems_fails:
  assumes "own_elems vis loc i c es = Inl e" and "walk_place e = Some p"
  shows "\<exists>k v c'. k < length es \<and> es ! k = Some (Data v) \<and> vis (loc @ [LIdx (i + k)]) c' v = Inl e"
  using assms(1)
proof (induction vis loc i c es rule: own_elems.induct)
  case (4 vis loc i c v es)
  have v: "v \<noteq> RUndef" using 4(2) assms(2) by auto
  show ?case
  proof (cases "vis (loc @ [LIdx i]) c v")
    case (Inl e')
    then show ?thesis using 4(2) v by (intro exI [of _ 0] exI [of _ v] exI [of _ c]) auto
  next
    case (Inr jc)
    obtain j c1 where jc: "jc = (j, c1)" by (cases jc)
    have "own_elems vis loc (Suc i) c1 es = Inl e"
      using 4(2) v Inr jc by (cases "own_elems vis loc (Suc i) c1 es") auto
    from 4(1) [OF v this] obtain k w c' where
      "k < length es" "es ! k = Some (Data w)" "vis (loc @ [LIdx (Suc i + k)]) c' w = Inl e"
      by auto
    then show ?thesis by (intro exI [of _ "Suc k"] exI [of _ w] exI [of _ c']) auto
  qed
qed (use assms(2) in auto)

lemma own_props_fails:
  assumes "own_props lm vis loc c ps = Inl e" and "walk_place e = Some p"
  shows "\<exists>k v c'. (k, Data v) \<in> set ps \<and> vis (loc @ [LKey k]) c' v = Inl e"
  using assms(1)
proof (induction ps arbitrary: c)
  case (Cons q ps)
  obtain k r where q: "q = (k, r)" by (cases q)
  have chars: "charge_chars lm k c = Inr (fst c, snd c + length k)"
    using Cons.prems charge_fail_place(2) assms(2)
    by (cases "charge_chars lm k c") (auto simp: q)
  then obtain v where r: "r = Data v" and k: "k \<noteq> proto_key"
    using Cons.prems assms(2) by (cases r) (auto simp: q split: if_splits)
  show ?case
  proof (cases "v = RUndef")
    case True
    then obtain c' where "own_props lm vis loc c' ps = Inl e"
      using Cons.prems chars r k assms(2) charge_fail_place(1)
      by (cases "charge_node lm (fst c, snd c + length k)") (auto simp: q split: if_splits)
    then show ?thesis using Cons.IH by fastforce
  next
    case False
    show ?thesis
    proof (cases "vis (loc @ [LKey k]) (fst c, snd c + length k) v")
      case (Inl e')
      then show ?thesis using Cons.prems chars r k False unfolding q by force
    next
      case (Inr jc)
      then have "own_props lm vis loc (snd jc) ps = Inl e"
        using Cons.prems chars r k False
        by (cases jc; cases "own_props lm vis loc (snd jc) ps") (auto simp: q)
      then show ?thesis using Cons.IH by fastforce
    qed
  qed
qed simp

lemma walked_to_step:
  assumes "walked_to h d (a # anc) w (loc @ [s]) e loc'" and "slot_at h a s = Some w" and "a \<notin> set anc"
  shows "walked_to h (Suc d) anc (RRef a) loc e loc'"
proof -
  from assms(1) obtain rest as b where w: "loc' = loc @ [s] @ rest" "addresses_along h w rest = Some (as @ [b])"
    "distinct as" "set as \<inter> set (a # anc) = {}" "e = Cyclic loc' \<longrightarrow> b \<in> set as \<union> set (a # anc)"
    "e = TooDeep loc' \<longrightarrow> length as = d"
    unfolding walked_to_def by auto
  show ?thesis
    unfolding walked_to_def
    by (intro exI [of _ "s # rest"] exI [of _ "a # as"] exI [of _ b]) (use w assms(2,3) in auto)
qed

lemma own_visit_walk:
  assumes "heap_ok h" and "own_visit lm h d anc loc c v = Inl e" and "walk_place e = Some loc'"
  shows "walked_to h d anc v loc e loc'"
  using assms(2)
proof (induction d arbitrary: anc loc c v)
  case 0
  then have "e = TooDeep loc \<and> (\<exists>a. v = RRef a)"
    using assms(3) charge_fail_place(1)
    by (cases v; cases "case v of RNum n \<Rightarrow> n | _ \<Rightarrow> NaN"; cases "charge_node lm c")
      (auto simp: own_value_def dest: charge_fail_place split: if_splits)
  then show ?case using assms(3) by (auto simp: walked_to_def intro!: exI [of _ "[]"])
next
  case (Suc d)
  then obtain a c1 where v: "v = RRef a"
    and obj: "own_object lm h (own_visit lm h d) anc loc c1 a = Inl e"
    using assms(3) charge_fail_place
    by (cases v; cases "case v of RNum n \<Rightarrow> n | _ \<Rightarrow> NaN"; cases "charge_node lm c")
      (auto simp: own_value_def)
  show ?case
  proof (cases "a \<in> set anc")
    case True
    then show ?thesis
      using obj v assms(3) by (auto simp: own_object_def walked_to_def intro!: exI [of _ "[]"])
  next
    case fresh: False
    show ?thesis
    proof (cases "h a")
      case (RawArr es)
      then have "own_elems (own_visit lm h d (a # anc)) loc 0 c1 es = Inl e"
        using obj fresh assms(3)
        by (cases "own_elems (own_visit lm h d (a # anc)) loc 0 c1 es")
          (auto simp: own_object_def split: if_splits)
      from own_elems_fails [OF this assms(3)] obtain k w c2 where k: "k < length es"
        "es ! k = Some (Data w)" and vis: "own_visit lm h d (a # anc) (loc @ [LIdx k]) c2 w = Inl e"
        by auto
      have "slot_at h a (LIdx k) = Some w" using RawArr k by (simp add: slot_at_def)
      from walked_to_step [OF Suc.IH [OF vis] this fresh] show ?thesis unfolding v .
    next
      case (RawObj ps)
      then have "own_props lm (own_visit lm h d (a # anc)) loc c1 ps = Inl e"
        using obj fresh assms(3)
        by (cases "own_props lm (own_visit lm h d (a # anc)) loc c1 ps")
          (auto simp: own_object_def split: if_splits)
      from own_props_fails [OF this assms(3)] obtain k w c2 where k: "(k, Data w) \<in> set ps"
        and vis: "own_visit lm h d (a # anc) (loc @ [LKey k]) c2 w = Inl e"
        by auto
      have "map_of ps k = Some (Data w)"
        using assms(1) RawObj k unfolding heap_ok_def by (auto intro: map_of_is_SomeI)
      then have "slot_at h a (LKey k) = Some w" using RawObj by (simp add: slot_at_def)
      from walked_to_step [OF Suc.IH [OF vis] this fresh] show ?thesis unfolding v .
    qed (use obj fresh assms(3) in \<open>auto simp: own_object_def\<close>)
  qed
qed

section \<open>Properties\<close>

lemma ownJson_visit:
  "ownJson lm h v = Inr j \<longleftrightarrow> (\<exists>c. own_visit lm h (max_depth lm) [] [] (0, 0) v = Inr (j, c))"
  by (auto simp: ownJson_def result_simps)

text \<open>C19: whatever \<open>ownJson\<close> accepts, from any heap of JavaScript objects, is the JSON tree the
  value denotes, is well formed at every level (distinct keys, no forbidden key) and lies within the
  depth, node and character budgets.\<close>

theorem ownJson_sound:
  assumes "heap_ok h" and "ownJson lm h v = Inr j"
  shows "denotes h v j \<and> wf_json j \<and> json_depth j \<le> max_depth lm \<and>
    json_nodes j \<le> max_nodes lm \<and> json_chars j \<le> max_chars lm"
proof -
  from assms(2) obtain c where "own_visit lm h (max_depth lm) [] [] (0, 0) v = Inr (j, c)"
    by (auto simp: ownJson_visit)
  from own_visit_sound [OF assms(1) this] show ?thesis
    by (auto simp: visit_sound_def)
qed

definition sample_heap :: heap where
  "sample_heap a =
     (if a = 0 then RawObj [(''x'', Data (RNum NegZero)), (''ys'', Data (RRef 1))]
      else RawArr [Some (Data RNull), Some (Data (RStr ''a''))])"

definition sample_json :: json where
  "sample_json = JObj [(''x'', JNum 0), (''ys'', JArr [JNull, JStr ''a''])]"

lemma sample_heap_ok: "heap_ok sample_heap"
  by (simp add: heap_ok_def sample_heap_def)

lemma sample_denotes: "denotes sample_heap (RRef 0) sample_json"
  unfolding sample_json_def
  by (intro denotes_denotes_elems_denotes_props.intros)
    (auto simp: sample_heap_def proto_key_def intro!: denotes_denotes_elems_denotes_props.intros)

lemma sample_owned: "ownJson (default_limits True) sample_heap (RRef 0) = Inr sample_json"
proof -
  have "heap_defined sample_heap" by (simp add: heap_defined_def sample_heap_def)
  from own_visit_complete [OF this sample_denotes, of 64 "[]" "default_limits True" "(0, 0)" "[]"]
  show ?thesis
    by (simp add: ownJson_visit above_def fits_def sample_json_def default_limits_def)
qed

theorem ownJson_sound_witness:
  "denotes sample_heap (RRef 0) sample_json \<and> wf_json sample_json \<and> json_depth sample_json \<le> 64"
  using ownJson_sound [OF sample_heap_ok sample_owned] by (simp add: default_limits_def)

text \<open>C20: \<open>ownJson\<close> accepts a value exactly if it denotes a JSON tree (\<open>undefined\<close> properties
  dropped, or none present where they are to be rejected) of at most the maximal depth that costs at most
  the maximal numbers of nodes and characters, and then returns that tree: it never refuses or alters
  valid input, however the input shares its objects.\<close>

theorem ownJson_exact:
  assumes "heap_ok h"
  shows "ownJson lm h v = Inr j \<longleftrightarrow>
    (\<exists>n m. weighs (reject_undefined lm) h v j n m \<and> json_depth j \<le> max_depth lm \<and>
       n \<le> max_nodes lm \<and> m \<le> max_chars lm)"
proof
  assume "ownJson lm h v = Inr j"
  then obtain c where run: "own_visit lm h (max_depth lm) [] [] (0, 0) v = Inr (j, c)"
    by (auto simp: ownJson_visit)
  from own_visit_spends [OF run] obtain n m where "weighs (reject_undefined lm) h v j n m" "c = (n, m)"
    by (auto simp: spends_def)
  with own_visit_sound [OF assms run]
  show "\<exists>n m. weighs (reject_undefined lm) h v j n m \<and> json_depth j \<le> max_depth lm \<and>
       n \<le> max_nodes lm \<and> m \<le> max_chars lm"
    by (intro exI [of _ n] exI [of _ m]) (simp add: visit_sound_def)
next
  assume "\<exists>n m. weighs (reject_undefined lm) h v j n m \<and> json_depth j \<le> max_depth lm \<and>
       n \<le> max_nodes lm \<and> m \<le> max_chars lm"
  then obtain n m where "weighs (reject_undefined lm) h v j n m" "json_depth j \<le> max_depth lm"
    and "n \<le> max_nodes lm" "m \<le> max_chars lm"
    by blast
  then show "ownJson lm h v = Inr j"
    using own_visit_accepts [of lm h v j n m "max_depth lm" "[]" "(0, 0)" "[]"]
    by (simp add: ownJson_visit above_def fits_def)
qed

definition gappy_heap :: heap where
  "gappy_heap a = RawObj [(''gone'', Data RUndef), (''x'', Data (RNum NegZero))]"

lemma gappy_heap_ok: "heap_ok gappy_heap"
  by (simp add: heap_ok_def gappy_heap_def)

lemma gappy_weighs: "weighs False gappy_heap (RRef 0) (JObj [(''x'', JNum 0)]) 3 5"
proof -
  have "weighs_props False gappy_heap [(''x'', Data (RNum NegZero))] [(''x'', JNum 0)] (1 + 0) (1 + 0 + 0)"
    using w_props_cons [of "''x''" False gappy_heap "RNum NegZero" "JNum 0" 1 0 "[]" "[]" 0 0]
    by (simp add: proto_key_def)
  then have "weighs_props False gappy_heap [(''gone'', Data RUndef), (''x'', Data (RNum NegZero))]
      [(''x'', JNum 0)] 2 5"
    using w_props_drop [of False "''gone''" _ _ _ 1 1]
    by (simp add: proto_key_def eval_nat_numeral)
  then show ?thesis
    using w_obj [of gappy_heap 0, OF gappy_heap_def] by (simp add: eval_nat_numeral)
qed

theorem ownJson_exact_witness:
  "ownJson (default_limits False) gappy_heap (RRef 0) = Inr (JObj [(''x'', JNum 0)])"
  unfolding ownJson_exact [OF gappy_heap_ok]
  by (intro exI [of _ 3] exI [of _ 5] conjI) (use gappy_weighs in \<open>simp_all add: default_limits_def\<close>)

text \<open>C21: a value from which a cycle can be reached is rejected, whatever the limits. A rejection as
  cyclic names a place where the walk from the root meets one of its own ancestors; a rejection for depth
  names a chain of distinct objects as deep as the limit, so a cycle never passes for depth.\<close>

theorem ownJson_rejects_cycles:
  assumes "heap_ok h"
  shows "((child_ref h)\<^sup>*\<^sup>* a b \<and> (child_ref h)\<^sup>+\<^sup>+ b b \<longrightarrow> (\<exists>e. ownJson lm h (RRef a) = Inl e)) \<and>
    (ownJson lm h v = Inl (Cyclic loc) \<longrightarrow>
       (\<exists>as b. addresses_along h v loc = Some (as @ [b]) \<and> distinct as \<and> b \<in> set as)) \<and>
    (ownJson lm h v = Inl (TooDeep loc) \<longrightarrow>
       (\<exists>as b. addresses_along h v loc = Some (as @ [b]) \<and> distinct as \<and> length as = max_depth lm))"
proof (intro conjI impI)
  assume cyc: "(child_ref h)\<^sup>*\<^sup>* a b \<and> (child_ref h)\<^sup>+\<^sup>+ b b"
  show "\<exists>e. ownJson lm h (RRef a) = Inl e"
  proof (cases "ownJson lm h (RRef a)")
    case (Inr j)
    then have "denotes h (RRef a) j"
      using assms own_visit_sound by (auto simp: ownJson_visit visit_sound_def)
    then obtain i where "denotes h (RRef b) i"
      using cyc child_refs_smaller by (metis rtranclpD)
    then show ?thesis using cyclic_denotes_nothing cyc by blast
  qed simp
next
  assume "ownJson lm h v = Inl (Cyclic loc)"
  then have "own_visit lm h (max_depth lm) [] [] (0, 0) v = Inl (Cyclic loc)"
    by (cases "own_visit lm h (max_depth lm) [] [] (0, 0) v") (simp_all add: ownJson_def)
  from own_visit_walk [OF assms this]
  show "\<exists>as b. addresses_along h v loc = Some (as @ [b]) \<and> distinct as \<and> b \<in> set as"
    by (auto simp: walked_to_def)
next
  assume "ownJson lm h v = Inl (TooDeep loc)"
  then have "own_visit lm h (max_depth lm) [] [] (0, 0) v = Inl (TooDeep loc)"
    by (cases "own_visit lm h (max_depth lm) [] [] (0, 0) v") (simp_all add: ownJson_def)
  from own_visit_walk [OF assms this]
  show "\<exists>as b. addresses_along h v loc = Some (as @ [b]) \<and> distinct as \<and> length as = max_depth lm"
    by (auto simp: walked_to_def)
qed

definition knot_heap :: heap where
  "knot_heap a = RawArr [Some (Data (RRef (1 - a)))]"

lemma knot_addresses: "addresses_along knot_heap v loc = Some as \<Longrightarrow> set as \<subseteq> (case v of RRef a \<Rightarrow> {a, 0, 1} | _ \<Rightarrow> {})"
proof (induction loc arbitrary: v as)
  case Nil
  then show ?case by (cases v) auto
next
  case (Cons s loc)
  then obtain a w as' where v: "v = RRef a" and w: "slot_at knot_heap a s = Some w"
    and as: "as = a # as'" "addresses_along knot_heap w loc = Some as'"
    by (cases v) (auto split: option.splits)
  have "w = RRef (1 - a)" using w by (auto simp: slot_at_def knot_heap_def split: locseg.splits if_splits)
  then show ?case using Cons.IH [OF as(2)] v as(1) by auto
qed

text \<open>Two arrays that hold each other are reported as cyclic: their walk is far too short for depth.\<close>

theorem ownJson_rejects_cycles_witness:
  "(\<exists>e. ownJson (default_limits True) knot_heap (RRef 0) = Inl e) \<and>
   (\<forall>loc. ownJson (default_limits True) knot_heap (RRef 0) \<noteq> Inl (TooDeep loc))"
proof -
  have ok: "heap_ok knot_heap" by (simp add: heap_ok_def knot_heap_def)
  have "child_ref knot_heap 0 1"
    by (rule child_elem [OF knot_heap_def]) simp
  moreover have "child_ref knot_heap 1 0"
    by (rule child_elem [OF knot_heap_def]) simp
  ultimately have cyc: "(child_ref knot_heap)\<^sup>+\<^sup>+ 0 0"
    by (rule tranclp.trancl_into_trancl [OF tranclp.r_into_trancl])
  note fact = ownJson_rejects_cycles [OF ok, of 0 0 "default_limits True" "RRef 0"]
  have "ownJson (default_limits True) knot_heap (RRef 0) \<noteq> Inl (TooDeep loc)" for loc
  proof
    assume "ownJson (default_limits True) knot_heap (RRef 0) = Inl (TooDeep loc)"
    then obtain as b where as: "addresses_along knot_heap (RRef 0) loc = Some (as @ [b])" "distinct as"
      "length as = 64"
      using fact [of loc] by (auto simp: default_limits_def)
    have "card (set as) \<le> card {0, 1 :: nat}"
      using knot_addresses [OF as(1)] by (intro card_mono) auto
    then show False using as(2,3) by (simp add: distinct_card)
  qed
  then show ?thesis using fact cyc by blast
qed

end
