(* ===== verification/Reversible.thy ===== *)
theory Reversible
  imports Prelude
begin

text \<open>
  The interface between an edit vocabulary and the histories built on it.

  A provider has documents, edits that may throw, an inverse for every edit and a \<open>view\<close> of documents
  (what counts as the same document). A client keeps lists of edits and replays them or their inverses.
  The laws are the three facts a client needs: an edit does not see more than the view, it keeps
  documents valid, and a recorded edit is undone by its inverse. The document patches interpret it.
\<close>

fun recorded_along :: "('d \<Rightarrow> 'o \<Rightarrow> 'e + 'd) \<Rightarrow> ('d \<Rightarrow> 'o \<Rightarrow> bool) \<Rightarrow> 'd \<Rightarrow> 'o list \<Rightarrow> bool" where
  "recorded_along edit rc d [] = True"
| "recorded_along edit rc d (x # xs) =
     (rc d x \<and> (case edit d x of Inl e \<Rightarrow> False | Inr d' \<Rightarrow> recorded_along edit rc d' xs))"

lemma recorded_along_append:
  "recorded_along edit rc d (xs @ ys) \<longleftrightarrow>
     recorded_along edit rc d xs \<and>
     (\<forall>d'. foldR edit d xs = Inr d' \<longrightarrow> recorded_along edit rc d' ys)"
proof (induction xs arbitrary: d)
  case (Cons x xs)
  then show ?case by (cases "edit d x") auto
qed simp

lemma recorded_along_runs: "recorded_along edit rc d xs \<Longrightarrow> \<exists>d'. foldR edit d xs = Inr d'"
proof (induction xs arbitrary: d)
  case (Cons x xs)
  then show ?case by (cases "edit d x") auto
qed simp

locale reversible_edits =
  fixes edit :: "'d \<Rightarrow> 'o \<Rightarrow> 'e + 'd"
    and inv_edit :: "'o \<Rightarrow> 'o"
    and valid :: "'d \<Rightarrow> bool"
    and valid_edit :: "'o \<Rightarrow> bool"
    and rc :: "'d \<Rightarrow> 'o \<Rightarrow> bool"
    and view :: "'d \<Rightarrow> 'v"
  assumes edit_respects:
      "edit a x = Inr a' \<Longrightarrow> view a = view b \<Longrightarrow> \<exists>b'. edit b x = Inr b' \<and> view a' = view b'"
    and edit_valid: "edit d x = Inr d' \<Longrightarrow> valid d \<Longrightarrow> valid_edit x \<Longrightarrow> valid d'"
    and edit_invert:
      "edit d x = Inr d' \<Longrightarrow> rc d x \<Longrightarrow> valid d \<Longrightarrow> valid_edit x \<Longrightarrow>
       \<exists>d''. edit d' (inv_edit x) = Inr d'' \<and> view d'' = view d"
begin

lemma run_respects:
  assumes "foldR edit a xs = Inr a'" and "view a = view b"
  shows "\<exists>b'. foldR edit b xs = Inr b' \<and> view a' = view b'"
  using assms
proof (induction xs arbitrary: a b)
  case (Cons x xs)
  from Cons.prems(1) obtain a1 where a1: "edit a x = Inr a1" "foldR edit a1 xs = Inr a'"
    by (auto simp: result_simps)
  from edit_respects [OF a1(1) Cons.prems(2)] obtain b1
    where "edit b x = Inr b1" "view a1 = view b1" by blast
  with Cons.IH [OF a1(2)] show ?case by auto
qed simp

lemma run_valid:
  assumes "foldR edit d xs = Inr d'" and "valid d" and "list_all valid_edit xs"
  shows "valid d'"
  using assms(1)
  by (rule foldR_invariant) (use assms(2,3) in \<open>auto simp: list_all_iff intro: edit_valid\<close>)

text \<open>Running the inverses of a recorded list backwards leads back, from any document that looks like
  the one the list ended in.\<close>

lemma run_invert:
  assumes "foldR edit d xs = Inr d'" and "recorded_along edit rc d xs" and "valid d"
    and "list_all valid_edit xs" and "view e = view d'"
  shows "\<exists>d''. foldR edit e (rev (map inv_edit xs)) = Inr d'' \<and> view d'' = view d"
  using assms
proof (induction xs arbitrary: d e)
  case Nil
  then show ?case by auto
next
  case (Cons x xs)
  from Cons.prems(1) obtain d1 where d1: "edit d x = Inr d1" and tl: "foldR edit d1 xs = Inr d'"
    by (auto simp: result_simps)
  have valid1: "valid d1" using d1 Cons.prems(3,4) edit_valid by auto
  have rec1: "recorded_along edit rc d1 xs" and rcx: "rc d x" using Cons.prems(2) d1 by auto
  from Cons.IH [OF tl rec1 valid1] Cons.prems(4,5) obtain e1
    where e1: "foldR edit e (rev (map inv_edit xs)) = Inr e1" "view e1 = view d1" by auto
  from edit_invert [OF d1 rcx Cons.prems(3)] Cons.prems(4) obtain d2
    where d2: "edit d1 (inv_edit x) = Inr d2" "view d2 = view d" by auto
  from edit_respects [OF d2(1)] e1(2) obtain e2
    where "edit e1 (inv_edit x) = Inr e2" "view d2 = view e2" by metis
  with e1 d2 show ?case by (simp add: foldR_append)
qed

text \<open>Undo followed by redo.\<close>

lemma run_invert_rerun:
  assumes "foldR edit d xs = Inr d'" and "recorded_along edit rc d xs" and "valid d"
    and "list_all valid_edit xs" and "view e = view d'"
  shows "\<exists>e1 e2. foldR edit e (rev (map inv_edit xs)) = Inr e1 \<and> foldR edit e1 xs = Inr e2 \<and>
    view e1 = view d \<and> view e2 = view d'"
proof -
  from run_invert [OF assms] obtain e1
    where e1: "foldR edit e (rev (map inv_edit xs)) = Inr e1" "view e1 = view d" by blast
  from run_respects [OF assms(1), of e1] e1(2) obtain e2
    where "foldR edit e1 xs = Inr e2" "view d' = view e2" by metis
  with e1 show ?thesis by metis
qed

end

end
