(* ===== verification/Patch.thy ===== *)
theory Patch
  imports OwnJson Reversible
begin

text \<open>
  Serializable document patches: \<open>packages/core/src/commands/patch.ts\<close>.

  \<open>applyAt\<close>, \<open>applyOwnedOps\<close>, \<open>applyOps\<close>, \<open>decodeOwnedOp\<close>, \<open>getAtPath\<close> and
  \<open>invertOps\<close> follow the code branch by branch; a thrown \<open>PatchError\<close> is an \<open>Inl\<close> with the
  reason the code gives. \<open>vapply\<close> is the specification: the same edit on documents without key
  order. The theory shows that the code refines it, that a recorded op list is undone by its inverse,
  and the frame and read-back laws of the edits.
\<close>

section \<open>Ops and errors\<close>

datatype seg = Key string | Idx rat

type_synonym path = "seg list"

datatype patch_op =
    OpAdd path json
  | OpRemove path json         \<comment> \<open>old value\<close>
  | OpReplace path json json   \<comment> \<open>value, old value\<close>

fun op_path :: "patch_op \<Rightarrow> path" where
  "op_path (OpAdd p v) = p"
| "op_path (OpRemove p old) = p"
| "op_path (OpReplace p v old) = p"

datatype patch_reason =
    CannotTargetRoot
  | ExpectedArray rat
  | NotAnIndex rat
  | IndexOutOfBounds rat
  | InsertOutOfBounds rat
  | RemoveOutOfBounds rat
  | ReplaceOutOfBounds rat
  | ExpectedObject string
  | ForbiddenSegment
  | KeyNotFound string
  | KeyExists string

datatype ingress_reason =
    OpsNotJson own_fail
  | OpsNotArray
  | OpNotObject nat
  | UnknownOpKind nat
  | PathNotArray nat
  | BadSegment nat
  | RequiresValue nat

datatype patch_error = PatchError patch_op patch_reason | IngressError ingress_reason

section \<open>Reading\<close>

definition is_index :: "rat \<Rightarrow> bool" where
  "is_index i \<longleftrightarrow> is_safe_integer i \<and> i \<ge> 0"

definition index_of :: "rat \<Rightarrow> nat" where
  "index_of i = nat \<lfloor>i\<rfloor>"

fun child_at :: "json \<Rightarrow> seg \<Rightarrow> json option" where
  "child_at (JArr xs) (Idx i) = (if is_index i \<and> index_of i < length xs then Some (xs ! index_of i) else None)"
| "child_at (JObj kvs) (Key k) = map_of kvs k"
| "child_at _ _ = None"

fun getAtPath :: "json \<Rightarrow> path \<Rightarrow> json option" where
  "getAtPath doc [] = Some doc"
| "getAtPath doc (s # rest) =
     (case child_at doc s of None \<Rightarrow> None | Some c \<Rightarrow> getAtPath c rest)"

section \<open>Applying owned ops\<close>

fun apply_elem :: "patch_op \<Rightarrow> rat \<Rightarrow> json list \<Rightarrow> patch_error + json" where
  "apply_elem (OpAdd p v) i xs =
     (if index_of i > length xs then Inl (PatchError (OpAdd p v) (InsertOutOfBounds i))
      else Inr (JArr (insert_at (index_of i) v xs)))"
| "apply_elem (OpRemove p old) i xs =
     (if index_of i \<ge> length xs then Inl (PatchError (OpRemove p old) (RemoveOutOfBounds i))
      else Inr (JArr (remove_at (index_of i) xs)))"
| "apply_elem (OpReplace p v old) i xs =
     (if index_of i \<ge> length xs then Inl (PatchError (OpReplace p v old) (ReplaceOutOfBounds i))
      else Inr (JArr (xs[index_of i := v])))"

fun apply_prop :: "patch_op \<Rightarrow> string \<Rightarrow> (string \<times> json) list \<Rightarrow> patch_error + json" where
  "apply_prop (OpAdd p v) k kvs =
     (if map_of kvs k \<noteq> None then Inl (PatchError (OpAdd p v) (KeyExists k))
      else Inr (JObj (AList.update k v kvs)))"
| "apply_prop (OpRemove p old) k kvs =
     (if map_of kvs k = None then Inl (PatchError (OpRemove p old) (KeyNotFound k))
      else Inr (JObj (AList.delete k kvs)))"
| "apply_prop (OpReplace p v old) k kvs =
     (if map_of kvs k = None then Inl (PatchError (OpReplace p v old) (KeyNotFound k))
      else Inr (JObj (AList.update k v kvs)))"

fun applyAt :: "json \<Rightarrow> path \<Rightarrow> patch_op \<Rightarrow> patch_error + json" where
  "applyAt node [] op =
     (case op of OpReplace p v old \<Rightarrow> Inr v | _ \<Rightarrow> Inl (PatchError op CannotTargetRoot))"
| "applyAt node (Idx i # rest) op =
     (case node of
        JArr xs \<Rightarrow>
          if \<not> is_index i then Inl (PatchError op (NotAnIndex i))
          else if rest \<noteq> [] then
            (if index_of i < length xs
             then map_result (\<lambda>sub. JArr (xs[index_of i := sub])) (applyAt (xs ! index_of i) rest op)
             else Inl (PatchError op (IndexOutOfBounds i)))
          else apply_elem op i xs
      | _ \<Rightarrow> Inl (PatchError op (ExpectedArray i)))"
| "applyAt node (Key k # rest) op =
     (case node of
        JObj kvs \<Rightarrow>
          if k = proto_key then Inl (PatchError op ForbiddenSegment)
          else if rest \<noteq> [] then
            (case map_of kvs k of
               None \<Rightarrow> Inl (PatchError op (KeyNotFound k))
             | Some c \<Rightarrow> map_result (\<lambda>sub. JObj (AList.update k sub kvs)) (applyAt c rest op))
          else apply_prop op k kvs
      | _ \<Rightarrow> Inl (PatchError op (ExpectedObject k)))"

definition applyOp :: "json \<Rightarrow> patch_op \<Rightarrow> patch_error + json" where
  "applyOp doc op = applyAt doc (op_path op) op"

definition applyOwnedOps :: "json \<Rightarrow> patch_op list \<Rightarrow> patch_error + json" where
  "applyOwnedOps = foldR applyOp"

section \<open>Applying foreign ops\<close>

fun seg_of_json :: "json \<Rightarrow> seg option" where
  "seg_of_json (JStr s) = Some (Key s)"
| "seg_of_json (JNum r) = Some (Idx r)"
| "seg_of_json _ = None"

fun segs_of_json :: "json list \<Rightarrow> seg list option" where
  "segs_of_json [] = Some []"
| "segs_of_json (x # xs) =
     (case seg_of_json x of None \<Rightarrow> None | Some s \<Rightarrow> map_option ((#) s) (segs_of_json xs))"

definition decode_path :: "nat \<Rightarrow> json option \<Rightarrow> patch_error + path" where
  "decode_path index p =
     (case p of
        Some (JArr raw) \<Rightarrow>
          (case segs_of_json raw of None \<Rightarrow> Inl (IngressError (BadSegment index)) | Some segs \<Rightarrow> Inr segs)
      | _ \<Rightarrow> Inl (IngressError (PathNotArray index)))"

definition decodeOwnedOp :: "json \<Rightarrow> nat \<Rightarrow> patch_error + patch_op" where
  "decodeOwnedOp j index =
     (case j of
        JObj ob \<Rightarrow>
          (let kind = map_of ob ''op'';
               old = (case map_of ob ''oldValue'' of None \<Rightarrow> JNull | Some v \<Rightarrow> v)
           in
             if kind \<noteq> Some (JStr ''add'') \<and> kind \<noteq> Some (JStr ''remove'') \<and> kind \<noteq> Some (JStr ''replace'')
             then Inl (IngressError (UnknownOpKind index))
             else rbind (decode_path index (map_of ob ''path'')) (\<lambda>segs.
               if kind = Some (JStr ''remove'') then Inr (OpRemove segs old)
               else (case map_of ob ''value'' of
                   None \<Rightarrow> Inl (IngressError (RequiresValue index))
                 | Some v \<Rightarrow>
                     if kind = Some (JStr ''add'') then Inr (OpAdd segs v) else Inr (OpReplace segs v old))))
      | _ \<Rightarrow> Inl (IngressError (OpNotObject index)))"

fun apply_batch :: "json \<Rightarrow> nat \<Rightarrow> json list \<Rightarrow> patch_error + json" where
  "apply_batch cur i [] = Inr cur"
| "apply_batch cur i (j # js) =
     rbind (decodeOwnedOp j i) (\<lambda>op. rbind (applyOp cur op) (\<lambda>cur'. apply_batch cur' (Suc i) js))"

definition applyOps :: "json \<Rightarrow> heap \<Rightarrow> rawval \<Rightarrow> patch_error + json" where
  "applyOps doc h ops =
     (case ownJson (default_limits True) h ops of
        Inl e \<Rightarrow> Inl (IngressError (OpsNotJson e))
      | Inr (JArr batch) \<Rightarrow> apply_batch doc 0 batch
      | Inr _ \<Rightarrow> Inl (IngressError OpsNotArray))"

section \<open>Inverting\<close>

fun invertOp :: "patch_op \<Rightarrow> patch_op" where
  "invertOp (OpAdd p v) = OpRemove p v"
| "invertOp (OpRemove p old) = OpAdd p old"
| "invertOp (OpReplace p v old) = OpReplace p old v"

definition invertOps :: "patch_op list \<Rightarrow> patch_op list" where
  "invertOps ops = rev (map invertOp ops)"

section \<open>Specification: edits of documents without key order\<close>

datatype vop = VAdd jval | VRemove jval | VReplace jval jval

fun vop_of :: "patch_op \<Rightarrow> vop" where
  "vop_of (OpAdd p v) = VAdd (json_abs v)"
| "vop_of (OpRemove p old) = VRemove (json_abs old)"
| "vop_of (OpReplace p v old) = VReplace (json_abs v) (json_abs old)"

fun vinvert :: "vop \<Rightarrow> vop" where
  "vinvert (VAdd v) = VRemove v"
| "vinvert (VRemove old) = VAdd old"
| "vinvert (VReplace v old) = VReplace old v"

fun vapply_elem :: "vop \<Rightarrow> nat \<Rightarrow> jval list \<Rightarrow> jval option" where
  "vapply_elem (VAdd v) i xs = (if i > length xs then None else Some (VArr (insert_at i v xs)))"
| "vapply_elem (VRemove old) i xs = (if i \<ge> length xs then None else Some (VArr (remove_at i xs)))"
| "vapply_elem (VReplace v old) i xs = (if i \<ge> length xs then None else Some (VArr (xs[i := v])))"

fun vapply_prop :: "vop \<Rightarrow> string \<Rightarrow> (string \<Rightarrow> jval option) \<Rightarrow> jval option" where
  "vapply_prop (VAdd v) k m = (if m k \<noteq> None then None else Some (VObj (m(k := Some v))))"
| "vapply_prop (VRemove old) k m = (if m k = None then None else Some (VObj (m(k := None))))"
| "vapply_prop (VReplace v old) k m = (if m k = None then None else Some (VObj (m(k := Some v))))"

fun vapply :: "jval \<Rightarrow> path \<Rightarrow> vop \<Rightarrow> jval option" where
  "vapply node [] op = (case op of VReplace v old \<Rightarrow> Some v | _ \<Rightarrow> None)"
| "vapply node (Idx i # rest) op =
     (case node of
        VArr xs \<Rightarrow>
          if \<not> is_index i then None
          else if rest \<noteq> [] then
            (if index_of i < length xs
             then map_option (\<lambda>sub. VArr (xs[index_of i := sub])) (vapply (xs ! index_of i) rest op)
             else None)
          else vapply_elem op (index_of i) xs
      | _ \<Rightarrow> None)"
| "vapply node (Key k # rest) op =
     (case node of
        VObj m \<Rightarrow>
          if k = proto_key then None
          else if rest \<noteq> [] then
            (case m k of
               None \<Rightarrow> None
             | Some c \<Rightarrow> map_option (\<lambda>sub. VObj (m(k := Some sub))) (vapply c rest op))
          else vapply_prop op k m
      | _ \<Rightarrow> None)"

fun vget :: "jval \<Rightarrow> path \<Rightarrow> jval option" where
  "vget v [] = Some v"
| "vget (VArr xs) (Idx i # rest) =
     (if is_index i \<and> index_of i < length xs then vget (xs ! index_of i) rest else None)"
| "vget (VObj m) (Key k # rest) = (case m k of None \<Rightarrow> None | Some c \<Rightarrow> vget c rest)"
| "vget _ _ = None"

section \<open>The code refines the specification\<close>

lemma json_abs_arr [simp]: "json_abs (JArr xs) = VArr (map json_abs xs)"
  by simp

declare json_abs.simps(6) [simp del]
declare json_abs_obj [simp]

lemma apply_elem_refines:
  "vapply_elem (vop_of op) (index_of i) (map json_abs xs) =
   map_option json_abs (result_option (apply_elem op i xs))"
  by (cases op) (simp_all add: map_insert_at map_remove_at map_update)

lemma apply_prop_refines:
  "vapply_prop (vop_of op) k (obj_abs kvs) =
   map_option json_abs (result_option (apply_prop op k kvs))"
  by (cases op) (simp_all)

lemma applyAt_refines:
  "vapply (json_abs doc) p (vop_of op) = map_option json_abs (result_option (applyAt doc p op))"
proof (induction doc p op rule: applyAt.induct)
  case (1 node op)
  then show ?case by (cases op) simp_all
next
  case (2 node i rest op)
  show ?case
  proof (cases node)
    case (JArr xs)
    with 2 show ?thesis
      by (auto simp: apply_elem_refines map_update map_option_twice)
  qed simp_all
next
  case (3 node k rest op)
  show ?case
  proof (cases node)
    case (JObj kvs)
    with 3 show ?thesis
      by (auto simp: apply_prop_refines map_option_twice obj_abs_def split: option.splits)
  qed simp_all
qed

lemma applyOp_abs:
  "applyOp doc op = Inr d' \<Longrightarrow> vapply (json_abs doc) (op_path op) (vop_of op) = Some (json_abs d')"
  using applyAt_refines [of doc "op_path op" op] by (simp add: applyOp_def)

lemma applyOp_abs_ex:
  "vapply (json_abs doc) (op_path op) (vop_of op) = Some w \<Longrightarrow>
   \<exists>d'. applyOp doc op = Inr d' \<and> json_abs d' = w"
  using applyAt_refines [of doc "op_path op" op] by (auto simp: applyOp_def)

text \<open>Hence applying ops respects the equality of documents.\<close>

lemma applyOp_respects:
  assumes "applyOp a op = Inr a'" and "json_abs a = json_abs b"
  shows "\<exists>b'. applyOp b op = Inr b' \<and> json_abs a' = json_abs b'"
  using applyOp_abs [OF assms(1)] applyOp_abs_ex [of b op] assms(2) by fastforce

lemma applyOwnedOps_simps [simp]:
  "applyOwnedOps doc [] = Inr doc"
  "applyOwnedOps doc (op # ops) = rbind (applyOp doc op) (\<lambda>d. applyOwnedOps d ops)"
  by (simp_all add: applyOwnedOps_def)

lemma applyOwnedOps_append:
  "applyOwnedOps doc (xs @ ys) = rbind (applyOwnedOps doc xs) (\<lambda>d. applyOwnedOps d ys)"
  by (simp add: applyOwnedOps_def foldR_append)

section \<open>Well-formedness\<close>

fun wf_op :: "patch_op \<Rightarrow> bool" where
  "wf_op (OpAdd p v) = wf_json v"
| "wf_op (OpRemove p old) = wf_json old"
| "wf_op (OpReplace p v old) = (wf_json v \<and> wf_json old)"

lemma apply_elem_wf:
  "apply_elem op i xs = Inr d' \<Longrightarrow> wf_json (JArr xs) \<Longrightarrow> wf_op op \<Longrightarrow> wf_json d'"
  by (cases op) (auto intro!: wf_json_intros simp del: wf_json.simps split: if_splits)

lemma apply_prop_wf:
  "apply_prop op k kvs = Inr d' \<Longrightarrow> k \<noteq> proto_key \<Longrightarrow> wf_json (JObj kvs) \<Longrightarrow> wf_op op \<Longrightarrow> wf_json d'"
  by (cases op) (auto intro!: wf_json_intros simp del: wf_json.simps split: if_splits)

lemma applyAt_wf: "applyAt doc p op = Inr d' \<Longrightarrow> wf_json doc \<Longrightarrow> wf_op op \<Longrightarrow> wf_json d'"
proof (induction doc p op arbitrary: d' rule: applyAt.induct)
  case (1 node op)
  then show ?case by (cases op) simp_all
next
  case (2 node i rest op)
  from 2(2) obtain xs where xs: "node = JArr xs" by (cases node) simp_all
  show ?case
  proof (cases "rest = []")
    case True
    then show ?thesis using 2(2-) xs apply_elem_wf by (auto split: if_splits)
  next
    case False
    then obtain c where "is_index i" "index_of i < length xs"
      "applyAt (xs ! index_of i) rest op = Inr c" "d' = JArr (xs[index_of i := c])"
      using 2(2) xs by (auto simp: result_simps split: if_splits)
    then show ?thesis
      using 2(1) [of xs c] 2(3-) xs False wf_json_elem [of xs "index_of i"]
        wf_json_list_update [of xs c "index_of i"] by simp
  qed
next
  case (3 node k rest op)
  from 3(2) obtain kvs where kvs: "node = JObj kvs" by (cases node) simp_all
  have k: "k \<noteq> proto_key" using 3(2) kvs by auto
  show ?case
  proof (cases "rest = []")
    case True
    then show ?thesis using 3(2-) kvs k apply_prop_wf by simp
  next
    case False
    then obtain c c' where "map_of kvs k = Some c" "applyAt c rest op = Inr c'"
      "d' = JObj (AList.update k c' kvs)"
      using 3(2) kvs k by (auto simp: result_simps split: option.splits)
    then show ?thesis
      using 3(1) [of kvs c c'] 3(3-) kvs False k wf_json_entry [of kvs k c]
        wf_json_update [of kvs c' k] by simp
  qed
qed

lemma applyOp_wf: "applyOp doc op = Inr d' \<Longrightarrow> wf_json doc \<Longrightarrow> wf_op op \<Longrightarrow> wf_json d'"
  unfolding applyOp_def by (rule applyAt_wf)

section \<open>Undoing\<close>

fun vrecorded :: "jval \<Rightarrow> path \<Rightarrow> vop \<Rightarrow> bool" where
  "vrecorded d p (VAdd v) = True"
| "vrecorded d p (VRemove old) = (vget d p = Some old)"
| "vrecorded d p (VReplace v old) = (vget d p = Some old)"

lemma vapply_elem_invert:
  assumes "vapply_elem op (index_of i) xs = Some d'" and "is_index i"
    and "vrecorded (VArr xs) [Idx i] op"
  shows "vapply d' [Idx i] (vinvert op) = Some (VArr xs)"
  using assms by (cases op) (auto simp: length_remove_at split: if_splits)

lemma vapply_prop_invert:
  assumes "vapply_prop op k m = Some d'" and "k \<noteq> proto_key" and "vrecorded (VObj m) [Key k] op"
  shows "vapply d' [Key k] (vinvert op) = Some (VObj m)"
  using assms by (cases op) (auto simp: fun_upd_idem split: if_splits option.splits)

lemma vrecorded_child:
  "vrecorded d (s # p) op \<Longrightarrow> (\<And>v. vget d (s # p) = Some v \<Longrightarrow> vget c p = Some v) \<Longrightarrow> vrecorded c p op"
  by (cases op) auto

lemma vapply_invert:
  "vapply d p op = Some d' \<Longrightarrow> vrecorded d p op \<Longrightarrow> vapply d' p (vinvert op) = Some d"
proof (induction d p op arbitrary: d' rule: vapply.induct)
  case (1 node op)
  then show ?case by (cases op) auto
next
  case (2 node i rest op)
  then obtain xs where xs: "node = VArr xs" and i: "is_index i"
    by (cases node) (auto split: if_splits)
  show ?case
  proof (cases "rest = []")
    case True
    then show ?thesis using 2(2,3) xs i vapply_elem_invert by simp
  next
    case False
    then obtain c where c: "vapply (xs ! index_of i) rest op = Some c"
      and d': "d' = VArr (xs[index_of i := c])" and len: "index_of i < length xs"
      using 2(2) xs i by (auto split: if_splits)
    have "vrecorded (xs ! index_of i) rest op"
      using vrecorded_child [OF 2(3)] xs i len by simp
    then have "vapply c rest (vinvert op) = Some (xs ! index_of i)"
      using 2(1) xs i False len c by simp
    then show ?thesis using i False len d' xs by simp
  qed
next
  case (3 node k rest op)
  then obtain m where m: "node = VObj m" and k: "k \<noteq> proto_key"
    by (cases node) (auto split: if_splits)
  show ?case
  proof (cases "rest = []")
    case True
    then show ?thesis using 3(2,3) m k vapply_prop_invert by simp
  next
    case False
    then obtain c c' where c: "m k = Some c" "vapply c rest op = Some c'"
      and d': "d' = VObj (m(k := Some c'))"
      using 3(2) m k by (auto split: option.splits)
    have "vrecorded c rest op"
      using vrecorded_child [OF 3(3)] m c(1) by simp
    then have "vapply c' rest (vinvert op) = Some c"
      using 3(1) m k False c by simp
    then show ?thesis using k False d' m c(1) by (simp add: fun_upd_idem)
  qed
qed

text \<open>An op is recorded against a document when its old value is the value it overwrites or removes.\<close>

fun recorded :: "json \<Rightarrow> patch_op \<Rightarrow> bool" where
  "recorded doc (OpAdd p v) = True"
| "recorded doc (OpRemove p old) = jsonSameOpt (getAtPath doc p) (Some old)"
| "recorded doc (OpReplace p v old) = jsonSameOpt (getAtPath doc p) (Some old)"

abbreviation recorded_run :: "json \<Rightarrow> patch_op list \<Rightarrow> bool" where
  "recorded_run \<equiv> recorded_along applyOp recorded"

lemma jsonSameOpt_abs:
  assumes "\<And>v. x = Some v \<Longrightarrow> wf_json v" and "wf_json w"
  shows "jsonSameOpt x (Some w) \<longleftrightarrow> map_option json_abs x = Some (json_abs w)"
  using assms jsonSameValue_abs by (cases x) auto

lemma vget_abs: "vget (json_abs doc) p = map_option json_abs (getAtPath doc p)"
proof (induction doc p rule: getAtPath.induct)
  case (2 doc s rest)
  then show ?case
    by (cases doc; cases s) (auto simp: obj_abs_def split: option.splits)
qed simp

lemma getAtPath_append:
  "getAtPath d (p @ q) = (case getAtPath d p of None \<Rightarrow> None | Some c \<Rightarrow> getAtPath c q)"
  by (induction p arbitrary: d) (auto split: option.splits)

lemma getAtPath_wf: "getAtPath doc p = Some v \<Longrightarrow> wf_json doc \<Longrightarrow> wf_json v"
proof (induction doc p rule: getAtPath.induct)
  case (2 doc s rest)
  from "2.prems"(1) obtain c where c: "child_at doc s = Some c" and v: "getAtPath c rest = Some v"
    by (auto split: option.splits)
  have "wf_json c"
    using c "2.prems"(2) wf_json_dests
    by (cases doc; cases s) (auto simp del: wf_json.simps split: if_splits)
  with "2.IH" [OF c v] show ?case by simp
qed simp

lemma recorded_abs:
  "wf_json doc \<Longrightarrow> wf_op op \<Longrightarrow> recorded doc op \<longleftrightarrow> vrecorded (json_abs doc) (op_path op) (vop_of op)"
  by (cases op) (simp_all add: vget_abs jsonSameOpt_abs getAtPath_wf)

lemma vop_of_invertOp [simp]: "vop_of (invertOp op) = vinvert (vop_of op)"
  by (cases op) simp_all

lemma op_path_invertOp [simp]: "op_path (invertOp op) = op_path op"
  by (cases op) simp_all

lemma wf_op_invertOp [simp]: "wf_op (invertOp op) \<longleftrightarrow> wf_op op"
  by (cases op) auto

lemma wf_invertOps [simp]: "list_all wf_op (invertOps ops) \<longleftrightarrow> list_all wf_op ops"
  by (simp add: invertOps_def list_all_iff)

lemma invertOps_simps [simp]:
  "invertOps [] = []"
  "invertOps (op # ops) = invertOps ops @ [invertOp op]"
  by (simp_all add: invertOps_def)

lemma invertOps_twice: "invertOps (invertOps ops) = ops"
proof -
  have "invertOp (invertOp op) = op" for op by (cases op) simp_all
  then show ?thesis by (simp add: invertOps_def rev_map comp_def)
qed

lemma applyOp_invert:
  assumes "applyOp doc op = Inr d'" and "recorded doc op" and "wf_json doc" and "wf_op op"
  shows "\<exists>d''. applyOp d' (invertOp op) = Inr d'' \<and> json_abs d'' = json_abs doc"
proof -
  have "vapply (json_abs d') (op_path op) (vinvert (vop_of op)) = Some (json_abs doc)"
    using applyOp_abs [OF assms(1)] recorded_abs assms(2-4) by (intro vapply_invert) simp_all
  then show ?thesis
    using applyOp_abs_ex [of d' "invertOp op"] by simp
qed

interpretation patch: reversible_edits applyOp invertOp wf_json wf_op recorded json_abs
  by unfold_locales (auto intro: applyOp_respects applyOp_wf applyOp_invert)

section \<open>Read-back and frame\<close>

lemma child_at_update_elem:
  "is_index i \<Longrightarrow> index_of i < length xs \<Longrightarrow> child_at (JArr (xs[index_of i := v])) (Idx i) = Some v"
  by simp

lemma applyAt_readback:
  assumes "applyAt doc p op = Inr d'" and "op = OpAdd p0 v \<or> op = OpReplace p0 v old"
  shows "getAtPath d' p = Some v"
  using assms
proof (induction doc p op arbitrary: d' rule: applyAt.induct)
  case (1 node op)
  then show ?case by auto
next
  case (2 node i rest op)
  then obtain xs where xs: "node = JArr xs" by (cases node) simp_all
  show ?case
    using 2 xs by (cases "rest = []") (auto simp: result_simps split: if_splits)
next
  case (3 node k rest op)
  then obtain kvs where kvs: "node = JObj kvs" by (cases node) simp_all
  show ?case
    using 3 kvs by (cases "rest = []") (auto simp: result_simps split: if_splits option.splits)
qed

text \<open>Two paths that part at an object key do not interfere.\<close>

lemma applyAt_frame:
  assumes "applyAt doc (pre @ Key a # p) op = Inr d'" and "a \<noteq> b"
  shows "getAtPath d' (pre @ Key b # q) = getAtPath doc (pre @ Key b # q)"
  using assms(1)
proof (induction pre arbitrary: doc d')
  case Nil
  then obtain kvs where kvs: "doc = JObj kvs" by (cases doc) simp_all
  show ?case
  proof (cases "p = []")
    case True
    with Nil kvs have "apply_prop op a kvs = Inr d'" by (auto split: if_splits)
    then show ?thesis using kvs assms(2) by (cases op) (auto split: if_splits)
  next
    case False
    with Nil kvs show ?thesis
      using assms(2) by (auto simp: result_simps split: if_splits option.splits)
  qed
next
  case (Cons s pre)
  show ?case
  proof (cases s)
    case (Key k)
    with Cons.prems obtain kvs where kvs: "doc = JObj kvs" by (cases doc) simp_all
    with Cons.prems Key obtain c c' where "map_of kvs k = Some c"
      "applyAt c (pre @ Key a # p) op = Inr c'" "d' = JObj (AList.update k c' kvs)"
      by (auto simp: result_simps split: if_splits option.splits)
    then show ?thesis using Cons.IH kvs Key by simp
  next
    case (Idx i)
    with Cons.prems obtain xs where xs: "doc = JArr xs" by (cases doc) simp_all
    with Cons.prems Idx obtain c' where "is_index i" "index_of i < length xs"
      "applyAt (xs ! index_of i) (pre @ Key a # p) op = Inr c'" "d' = JArr (xs[index_of i := c'])"
      by (auto simp: result_simps split: if_splits)
    then show ?thesis using Cons.IH xs Idx by simp
  qed
qed

fun safe_seg :: "seg \<Rightarrow> bool" where
  "safe_seg (Key k) = (k \<noteq> proto_key)"
| "safe_seg (Idx i) = is_index i"

lemma applyAt_safe: "applyAt doc p op = Inr d' \<Longrightarrow> list_all safe_seg p"
proof (induction doc p op arbitrary: d' rule: applyAt.induct)
  case (2 node i rest op)
  then obtain xs where xs: "node = JArr xs" by (cases node) simp_all
  then show ?case
    using 2 by (cases "rest = []") (auto simp: result_simps split: if_splits)
next
  case (3 node k rest op)
  then obtain kvs where kvs: "node = JObj kvs" by (cases node) simp_all
  then show ?case
    using 3 by (cases "rest = []") (auto simp: result_simps split: if_splits option.splits)
qed simp

section \<open>Foreign batches\<close>

lemma apply_batch_decodes:
  "apply_batch cur i js = Inr d' \<Longrightarrow>
   \<exists>ops. length ops = length js \<and> (\<forall>k < length js. decodeOwnedOp (js ! k) (i + k) = Inr (ops ! k)) \<and>
     applyOwnedOps cur ops = Inr d'"
proof (induction js arbitrary: cur i)
  case (Cons j js)
  from Cons.prems obtain op cur1 where op: "decodeOwnedOp j i = Inr op" "applyOp cur op = Inr cur1"
    and rest: "apply_batch cur1 (Suc i) js = Inr d'"
    by (auto simp: result_simps)
  from Cons.IH [OF rest] obtain ops where ops: "length ops = length js"
    "\<forall>k < length js. decodeOwnedOp (js ! k) (Suc i + k) = Inr (ops ! k)" "applyOwnedOps cur1 ops = Inr d'"
    by blast
  have "decodeOwnedOp ((j # js) ! k) (i + k) = Inr ((op # ops) ! k)" if "k < length (j # js)" for k
    using that op ops(2) by (cases k) simp_all
  moreover have "applyOwnedOps cur (op # ops) = Inr d'" using op ops by simp
  ultimately show ?case using ops(1) by (metis length_Cons)
qed simp

lemma decodeOwnedOp_wf:
  assumes "decodeOwnedOp j i = Inr op" and "wf_json j"
  shows "wf_op op"
proof (cases j)
  case (JObj kvs)
  let ?old = "case map_of kvs ''oldValue'' of None \<Rightarrow> JNull | Some v \<Rightarrow> v"
  have wf: "wf_json v" if "map_of kvs k = Some v" for k v
    using assms(2) JObj that wf_json_entry by blast
  have old: "wf_json ?old" by (auto split: option.splits intro: wf)
  from assms(1) JObj obtain segs where
    "op = OpRemove segs ?old \<or> (\<exists>v. map_of kvs ''value'' = Some v \<and> (op = OpAdd segs v \<or> op = OpReplace segs v ?old))"
    unfolding decodeOwnedOp_def Let_def json.case rbind_Inr_iff if_distrib
    by (cases "map_of kvs ''value''") (auto simp: rbind_Inr_iff split: if_split_asm)
  then show ?thesis using wf old by auto
qed (use assms in \<open>simp_all add: decodeOwnedOp_def\<close>)

lemma applyOwnedOps_safe:
  "applyOwnedOps doc ops = Inr d' \<Longrightarrow> op \<in> set ops \<Longrightarrow> list_all safe_seg (op_path op)"
proof (induction ops arbitrary: doc)
  case (Cons x ops)
  then show ?case using applyAt_safe by (auto simp: result_simps applyOp_def)
qed simp

section \<open>Properties\<close>

text \<open>C17: applying a patch op is exactly the corresponding edit of the document seen as nested maps and
  arrays, errors included: it fails precisely where the edit is undefined, and its result does not
  depend on the order of object keys.\<close>

theorem applyOp_refines_edit:
  "vapply (json_abs doc) (op_path op) (vop_of op) = map_option json_abs (result_option (applyOp doc op))"
  unfolding applyOp_def by (rule applyAt_refines)

text \<open>C18: a list of ops recorded against a document applies to it, and applying the inverted list to
  the result restores the original document (the same value, key order aside).\<close>

theorem invertOps_restores:
  assumes "wf_json doc" and "list_all wf_op ops" and "recorded_run doc ops"
  shows "\<exists>d' d''. applyOwnedOps doc ops = Inr d' \<and> applyOwnedOps d' (invertOps ops) = Inr d'' \<and>
    jsonSameValue d'' doc"
proof -
  from recorded_along_runs [OF assms(3)] obtain d' where d': "applyOwnedOps doc ops = Inr d'"
    by (auto simp: applyOwnedOps_def)
  from patch.run_invert [OF d' [unfolded applyOwnedOps_def] assms(3,1,2) refl] obtain d''
    where d'': "applyOwnedOps d' (invertOps ops) = Inr d''" "json_abs d'' = json_abs doc"
    by (auto simp: applyOwnedOps_def invertOps_def)
  have "wf_json d'"
    using patch.run_valid d' assms(1,2) by (auto simp: applyOwnedOps_def)
  then have "wf_json d''"
    using patch.run_valid d''(1) assms(2) wf_invertOps by (metis applyOwnedOps_def)
  then show ?thesis using d' d'' jsonSameValue_abs assms(1) by blast
qed

definition patch_demo_doc :: json where
  "patch_demo_doc = JObj [(''a'', JNum 1), (''b'', JArr [JStr ''x''])]"

definition patch_demo_ops :: "patch_op list" where
  "patch_demo_ops =
     [OpRemove [Key ''a''] (JNum 1), OpAdd [Key ''b'', Idx 1] (JStr ''y''),
      OpReplace [Key ''b'', Idx 0] JNull (JStr ''x'')]"

lemmas patch_demo_eval = patch_demo_doc_def patch_demo_ops_def applyOp_def is_index_def index_of_def
  is_safe_integer_def max_safe_integer_def proto_key_def insert_at_def

theorem invertOps_restores_witness:
  "\<exists>d' d''. applyOwnedOps patch_demo_doc patch_demo_ops = Inr d' \<and>
    applyOwnedOps d' (invertOps patch_demo_ops) = Inr d'' \<and> jsonSameValue d'' patch_demo_doc"
  by (rule invertOps_restores) (simp_all add: patch_demo_eval)

text \<open>An op reads back and stays local. After an add or a replace the written path holds exactly the
  written value, and every path that parts from the written one at an object key reads as before.\<close>

theorem applyOp_readback_and_frame:
  assumes "applyOp doc op = Inr d'"
  shows "(op = OpAdd p v \<or> op = OpReplace p v old \<longrightarrow> getAtPath d' p = Some v) \<and>
    (op_path op = pre @ Key a # q \<and> a \<noteq> b \<longrightarrow>
       getAtPath d' (pre @ Key b # r) = getAtPath doc (pre @ Key b # r))"
proof (intro conjI impI)
  assume "op = OpAdd p v \<or> op = OpReplace p v old"
  then show "getAtPath d' p = Some v"
    using applyAt_readback [of doc "op_path op" op d' p v old] assms by (auto simp: applyOp_def)
next
  assume "op_path op = pre @ Key a # q \<and> a \<noteq> b"
  then show "getAtPath d' (pre @ Key b # r) = getAtPath doc (pre @ Key b # r)"
    using applyAt_frame [of doc pre a q op d' b r] assms by (simp add: applyOp_def)
qed

theorem applyOp_readback_and_frame_witness:
  "getAtPath (JObj [(''a'', JNum 2), (''b'', JNum 5)]) [Key ''b''] = Some (JNum 5)"
  using applyOp_readback_and_frame [of "JObj [(''a'', JNum 1), (''b'', JNum 5)]"
      "OpReplace [Key ''a''] (JNum 2) (JNum 1)" "JObj [(''a'', JNum 2), (''b'', JNum 5)]"
      "[Key ''a'']" "JNum 2" "JNum 1" "[]" "''a''" "[]" "''b''" "[]"]
  by (simp add: patch_demo_eval)

text \<open>C29: the ingress choke point. When a foreign batch is accepted, it was a JSON array of ops of the
  closed vocabulary, every op applied in order to a well-formed document gives a well-formed document,
  and no path segment is the forbidden key or an unsafe index.\<close>

theorem applyOps_safe:
  assumes "heap_ok h" and "wf_json doc" and "applyOps doc h v = Inr d'"
  shows "wf_json d' \<and> (\<exists>batch ops. denotes h v (JArr batch) \<and> length ops = length batch \<and>
    (\<forall>k < length batch. decodeOwnedOp (batch ! k) k = Inr (ops ! k)) \<and>
    applyOwnedOps doc ops = Inr d' \<and> (\<forall>op \<in> set ops. wf_op op \<and> list_all safe_seg (op_path op)))"
proof -
  from assms(3) obtain batch where own: "ownJson (default_limits True) h v = Inr (JArr batch)"
    and run: "apply_batch doc 0 batch = Inr d'"
    by (auto simp: applyOps_def split: sum.splits json.splits)
  from own obtain c where "own_visit (default_limits True) h 64 [] [] (0, 0) v = Inr (JArr batch, c)"
    by (auto simp: ownJson_visit default_limits_def)
  from own_visit_sound [OF assms(1) this] have den: "denotes h v (JArr batch)" "list_all wf_json batch"
    by (simp_all add: visit_sound_def)
  from apply_batch_decodes [OF run] obtain ops where ops: "length ops = length batch"
    "\<forall>k < length batch. decodeOwnedOp (batch ! k) k = Inr (ops ! k)" "applyOwnedOps doc ops = Inr d'"
    by auto
  have wf: "wf_op op" if "op \<in> set ops" for op
    using that ops(1,2) den(2) decodeOwnedOp_wf by (metis in_set_conv_nth list_all_length)
  then have "wf_json d'"
    using patch.run_valid [of doc ops d'] ops(3) assms(2) by (auto simp: applyOwnedOps_def list_all_iff)
  then show ?thesis using den(1) ops wf applyOwnedOps_safe [OF ops(3)] by blast
qed

definition foreign_heap :: heap where
  "foreign_heap a =
     (if a = 0 then RawArr [Some (Data (RRef 1))]
      else if a = 1 then RawObj [(''op'', Data (RStr ''add'')), (''path'', Data (RRef 2)), (''value'', Data RNull)]
      else RawArr [Some (Data (RStr ''k''))])"

lemma foreign_heap_ok: "heap_ok foreign_heap"
  by (simp add: heap_ok_def foreign_heap_def)

lemma foreign_owned:
  "ownJson (default_limits True) foreign_heap (RRef 0) =
   Inr (JArr [JObj [(''op'', JStr ''add''), (''path'', JArr [JStr ''k'']), (''value'', JNull)]])"
    (is "_ = Inr ?j")
proof -
  have "heap_defined foreign_heap" by (simp add: heap_defined_def foreign_heap_def)
  moreover have "denotes foreign_heap (RRef 0) ?j"
    by (intro denotes_denotes_elems_denotes_props.intros)
      (auto simp: foreign_heap_def proto_key_def intro!: denotes_denotes_elems_denotes_props.intros)
  ultimately show ?thesis
    using own_visit_complete [of foreign_heap "RRef 0" ?j 64 "[]" "default_limits True" "(0, 0)" "[]"]
    by (simp add: ownJson_visit above_def fits_def default_limits_def)
qed

lemma foreign_applied: "applyOps (JObj []) foreign_heap (RRef 0) = Inr (JObj [(''k'', JNull)])"
  by (simp add: applyOps_def foreign_owned decodeOwnedOp_def decode_path_def patch_demo_eval)

theorem applyOps_safe_witness: "wf_json (JObj [(''k'', JNull)])"
proof -
  have "wf_json (JObj [])" by simp
  from applyOps_safe [OF foreign_heap_ok this foreign_applied] show ?thesis by blast
qed

end
