(* ===== verification/Ids.thy ===== *)
theory Ids
  imports Prelude
begin

text \<open>
  The identity scheme of \<open>packages/core/src/ids.ts\<close>: port references and endpoints with their
  canonical keys, occurrence keys, and the allocated ids of nodes, links and groups.

  Branded id types are strings. The parts of the JavaScript library the keys rest on are written out:
  decimal printing of safe integers, \<open>JSON.stringify\<close> on strings and lists of strings,
  \<open>encodeURIComponent\<close> and \<open>decodeURIComponent\<close>, \<open>split\<close> and \<open>join\<close>.
\<close>

section \<open>Decimal numerals\<close>

definition digit_char :: "nat \<Rightarrow> char" where
  "digit_char n = char_of (48 + n)"

fun show_nat :: "nat \<Rightarrow> string" where
  "show_nat n = (if n < 10 then [digit_char n] else show_nat (n div 10) @ [digit_char (n mod 10)])"

declare show_nat.simps [simp del]

definition is_digit :: "char \<Rightarrow> bool" where
  "is_digit c \<longleftrightarrow> 48 \<le> (of_char c :: nat) \<and> (of_char c :: nat) \<le> 57"

definition is_lower :: "char \<Rightarrow> bool" where
  "is_lower c \<longleftrightarrow> 97 \<le> (of_char c :: nat) \<and> (of_char c :: nat) \<le> 122"

definition is_upper :: "char \<Rightarrow> bool" where
  "is_upper c \<longleftrightarrow> 65 \<le> (of_char c :: nat) \<and> (of_char c :: nat) \<le> 90"

definition read_nat :: "string \<Rightarrow> nat" where
  "read_nat ds = foldl (\<lambda>n c. 10 * n + (of_char c - 48)) 0 ds"

lemma of_digit_char [simp]: "n < 10 \<Longrightarrow> of_char (digit_char n) = 48 + n"
  by (simp add: digit_char_def)

lemma is_digit_digit_char [simp]: "n < 10 \<Longrightarrow> is_digit (digit_char n)"
  by (simp add: is_digit_def)

lemma digit_not_lower: "is_digit c \<Longrightarrow> \<not> is_lower c"
  by (simp add: is_digit_def is_lower_def)

lemma read_nat_snoc [simp]: "read_nat (ds @ [c]) = 10 * read_nat ds + (of_char c - 48)"
  by (simp add: read_nat_def)

lemma show_nat_ne [simp]: "show_nat n \<noteq> []"
  by (subst show_nat.simps) simp

lemma show_nat_digits: "list_all is_digit (show_nat n)"
proof (induction n rule: show_nat.induct)
  case (1 n)
  then show ?case by (subst show_nat.simps) simp
qed

lemma read_show_nat [simp]: "read_nat (show_nat n) = n"
proof (induction n rule: show_nat.induct)
  case (1 n)
  show ?case
  proof (cases "n < 10")
    case True
    then show ?thesis by (subst show_nat.simps) (simp add: read_nat_def)
  next
    case False
    then show ?thesis using 1 by (subst show_nat.simps) simp
  qed
qed

lemma show_nat_inj: "show_nat m = show_nat n \<Longrightarrow> m = n"
  by (metis read_show_nat)

section \<open>Allocated ids\<close>

definition max_safe_nat :: nat where
  "max_safe_nat = 9007199254740991"

definition actor_char :: "char \<Rightarrow> bool" where
  "actor_char c \<longleftrightarrow> is_upper c \<or> is_lower c \<or> is_digit c \<or> c = CHR ''_'' \<or> c = CHR ''-''"

definition isValidActorId :: "string \<Rightarrow> bool" where
  "isValidActorId s \<longleftrightarrow> s \<noteq> ''__proto__'' \<and> s \<noteq> [] \<and> list_all actor_char s"

definition actorCursorOf :: "(string \<times> nat) list option \<Rightarrow> string \<Rightarrow> nat" where
  "actorCursorOf cursors actor =
     (case cursors of
        None \<Rightarrow> 0
      | Some m \<Rightarrow> (case map_of m actor of None \<Rightarrow> 0 | Some n \<Rightarrow> n))"

definition formatAllocatedId :: "string \<Rightarrow> nat \<Rightarrow> string option \<Rightarrow> string" where
  "formatAllocatedId prefix ordinal actor =
     (case actor of
        None \<Rightarrow> prefix @ show_nat ordinal
      | Some a \<Rightarrow> prefix @ show_nat ordinal @ ''-'' @ a)"

definition parseAllocatedId :: "string \<Rightarrow> (string \<times> nat \<times> string option) option" where
  "parseAllocatedId s =
     (let p = takeWhile is_lower s;
          r = dropWhile is_lower s;
          ds = takeWhile is_digit r;
          t = dropWhile is_digit r;
          n = read_nat ds
      in
        if p = [] \<or> ds = [] \<or> n > max_safe_nat \<or> ds \<noteq> show_nat n then None
        else (case t of
            [] \<Rightarrow> Some (p, n, None)
          | c # a \<Rightarrow> if c = CHR ''-'' \<and> isValidActorId a then Some (p, n, Some a) else None))"

text \<open>The prefixes the allocators mint.\<close>

definition allocated_prefixes :: "string list" where
  "allocated_prefixes = [''n'', ''l'', ''net'', ''r'', ''v'', ''s'', ''c'', ''m'', ''cs'', ''g'']"

datatype alloc_error = IdSpaceExhausted nat

definition guardOrdinal :: "nat \<Rightarrow> alloc_error + nat" where
  "guardOrdinal ordinal = (if ordinal \<ge> max_safe_nat then Inl (IdSpaceExhausted ordinal) else Inr ordinal)"

definition allocateId :: "nat \<Rightarrow> string \<Rightarrow> alloc_error + (string \<times> nat)" where
  "allocateId next_ordinal prefix =
     map_result (\<lambda>n. (prefix @ show_nat n, Suc n)) (guardOrdinal next_ordinal)"

definition group_key :: "nat \<Rightarrow> string" where
  "group_key n = ''grp'' @ show_nat n"

definition group_suffix :: "string \<Rightarrow> nat option" where
  "group_suffix key =
     (let ds = drop 3 key; v = read_nat ds
      in if take 3 key = ''grp'' \<and> ds \<noteq> [] \<and> list_all is_digit ds \<and>
            v < max_safe_nat \<and> key = group_key v
         then Some v else None)"

fun groupIdFloor_scan :: "nat \<Rightarrow> string list \<Rightarrow> nat" where
  "groupIdFloor_scan n [] = n"
| "groupIdFloor_scan n (key # keys) =
     (case group_suffix key of
        None \<Rightarrow> groupIdFloor_scan n keys
      | Some v \<Rightarrow> groupIdFloor_scan (if v + 1 > n then v + 1 else n) keys)"

definition groupIdFloor :: "nat option \<Rightarrow> string list \<Rightarrow> nat" where
  "groupIdFloor groupSeq keys = groupIdFloor_scan (case groupSeq of None \<Rightarrow> 0 | Some n \<Rightarrow> n) keys"

subsection \<open>Round trip\<close>

lemma takeWhile_split:
  assumes "list_all P xs" and "ys = [] \<or> \<not> P (hd ys)"
  shows "takeWhile P (xs @ ys) = xs" and "dropWhile P (xs @ ys) = ys"
proof -
  have "takeWhile P ys = []" and "dropWhile P ys = ys"
    using assms(2) by (cases ys; simp)+
  then show "takeWhile P (xs @ ys) = xs" and "dropWhile P (xs @ ys) = ys"
    using assms(1) by (simp_all add: list_all_iff takeWhile_append2 dropWhile_append2)
qed

text \<open>The three parts the id regular expression matches.\<close>

lemma id_parts:
  assumes "list_all is_lower p" and "t = [] \<or> \<not> is_digit (hd t)"
  shows "takeWhile is_lower (p @ show_nat n @ t) = p"
    and "takeWhile is_digit (dropWhile is_lower (p @ show_nat n @ t)) = show_nat n"
    and "dropWhile is_digit (dropWhile is_lower (p @ show_nat n @ t)) = t"
proof -
  have hd: "show_nat n @ t = [] \<or> \<not> is_lower (hd (show_nat n @ t))"
    using show_nat_digits [of n] show_nat_ne [of n]
    by (cases "show_nat n") (auto dest: digit_not_lower)
  note outer = takeWhile_split [OF assms(1) hd]
  note inner = takeWhile_split [OF show_nat_digits assms(2)]
  show "takeWhile is_lower (p @ show_nat n @ t) = p"
    and "takeWhile is_digit (dropWhile is_lower (p @ show_nat n @ t)) = show_nat n"
    and "dropWhile is_digit (dropWhile is_lower (p @ show_nat n @ t)) = t"
    using outer inner by simp_all
qed

lemma parse_format_id:
  assumes "prefix \<noteq> []" and "list_all is_lower prefix" and "n \<le> max_safe_nat"
    and "\<forall>a. actor = Some a \<longrightarrow> isValidActorId a"
  shows "parseAllocatedId (formatAllocatedId prefix n actor) = Some (prefix, n, actor)"
proof (cases actor)
  case None
  then show ?thesis
    using assms id_parts [OF assms(2), of "[]" n]
    by (simp add: parseAllocatedId_def formatAllocatedId_def Let_def del: dropWhile_eq_Nil_conv)
next
  case (Some a)
  have "\<not> is_digit (hd (''-'' @ a))" by (simp add: is_digit_def)
  then show ?thesis
    using assms Some id_parts [OF assms(2), of "''-'' @ a" n]
    by (simp add: parseAllocatedId_def formatAllocatedId_def Let_def)
qed

lemma format_parse_id:
  assumes "parseAllocatedId s = Some (prefix, n, actor)"
  shows "formatAllocatedId prefix n actor = s \<and> prefix \<noteq> [] \<and> list_all is_lower prefix \<and>
    n \<le> max_safe_nat \<and> (\<forall>a. actor = Some a \<longrightarrow> isValidActorId a)"
proof -
  define p where "p = takeWhile is_lower s"
  define ds where "ds = takeWhile is_digit (dropWhile is_lower s)"
  define t where "t = dropWhile is_digit (dropWhile is_lower s)"
  have s: "s = p @ ds @ t" by (simp add: p_def ds_def t_def)
  have low: "list_all is_lower p" by (auto simp: p_def list_all_iff dest: set_takeWhileD)
  have parse: "parseAllocatedId s =
    (if p = [] \<or> ds = [] \<or> read_nat ds > max_safe_nat \<or> ds \<noteq> show_nat (read_nat ds) then None
     else (case t of [] \<Rightarrow> Some (p, read_nat ds, None)
       | c # a \<Rightarrow> if c = CHR ''-'' \<and> isValidActorId a then Some (p, read_nat ds, Some a) else None))"
    by (simp only: parseAllocatedId_def p_def ds_def t_def Let_def)
  show ?thesis
  proof (cases t)
    case Nil
    then show ?thesis
      using assms low s parse by (auto simp: formatAllocatedId_def split: if_splits)
  next
    case (Cons c a)
    then have "prefix = p" "n = read_nat ds" "actor = Some a" "c = CHR ''-''" "isValidActorId a"
      "p \<noteq> []" "n \<le> max_safe_nat" "ds = show_nat n"
      using assms parse by (auto split: if_splits)
    then show ?thesis
      using low s Cons by (simp add: formatAllocatedId_def)
  qed
qed

subsection \<open>Group ids\<close>

lemma group_suffix_Some: "group_suffix key = Some v \<longleftrightarrow> key = group_key v \<and> v < max_safe_nat"
proof
  assume "group_suffix key = Some v"
  then show "key = group_key v \<and> v < max_safe_nat"
    by (auto simp: group_suffix_def Let_def split: if_splits)
next
  assume "key = group_key v \<and> v < max_safe_nat"
  then show "group_suffix key = Some v"
    by (simp add: group_suffix_def group_key_def show_nat_digits Let_def)
qed

lemma groupIdFloor_scan_ge: "n \<le> groupIdFloor_scan n keys"
proof (induction n keys rule: groupIdFloor_scan.induct)
  case (2 n key keys)
  then show ?case by (auto split: option.splits if_splits intro: order_trans)
qed simp

lemma groupIdFloor_scan_above:
  "group_key v \<in> set keys \<Longrightarrow> v < max_safe_nat \<Longrightarrow> v < groupIdFloor_scan n keys"
proof (induction n keys rule: groupIdFloor_scan.induct)
  case (2 n key keys)
  show ?case
  proof (cases "key = group_key v")
    case True
    then have "group_suffix key = Some v" using "2.prems"(2) by (simp add: group_suffix_Some)
    then show ?thesis
      using groupIdFloor_scan_ge [of "if v + 1 > n then v + 1 else n" keys] by (auto split: if_splits)
  next
    case False
    then show ?thesis using 2 by (auto split: option.splits)
  qed
qed simp

section \<open>Ports and endpoints\<close>

record portref =
  pr_node :: string
  pr_port :: string
  pr_members :: "string list option"

datatype endpoint =
    PortEnd portref
  | RerouteEnd string
  | ValueSourceEnd string
  | SelectorEnd string "string option"
  | WidgetTapEnd string string

definition sameMemberPath :: "string list option \<Rightarrow> string list option \<Rightarrow> bool" where
  "sameMemberPath a b \<longleftrightarrow>
     (let la = (case a of None \<Rightarrow> 0 | Some xs \<Rightarrow> length xs);
          lb = (case b of None \<Rightarrow> 0 | Some xs \<Rightarrow> length xs)
      in la = lb \<and> (\<forall>i < la. the a ! i = the b ! i))"

definition samePortRef :: "portref \<Rightarrow> portref \<Rightarrow> bool" where
  "samePortRef a b \<longleftrightarrow> pr_node a = pr_node b \<and> pr_port a = pr_port b \<and> sameMemberPath (pr_members a) (pr_members b)"

fun sameEndpoint :: "endpoint \<Rightarrow> endpoint \<Rightarrow> bool" where
  "sameEndpoint (RerouteEnd a) e = (case e of RerouteEnd b \<Rightarrow> a = b | _ \<Rightarrow> False)"
| "sameEndpoint (ValueSourceEnd a) e = (case e of ValueSourceEnd b \<Rightarrow> a = b | _ \<Rightarrow> False)"
| "sameEndpoint (SelectorEnd a c) e = (case e of SelectorEnd b d \<Rightarrow> a = b \<and> c = d | _ \<Rightarrow> False)"
| "sameEndpoint (WidgetTapEnd n t) e = (case e of WidgetTapEnd m u \<Rightarrow> n = m \<and> t = u | _ \<Rightarrow> False)"
| "sameEndpoint (PortEnd p) e = (case e of PortEnd q \<Rightarrow> samePortRef p q | _ \<Rightarrow> False)"

text \<open>A member path with absent and empty identified.\<close>

definition members_of :: "string list option \<Rightarrow> string list" where
  "members_of m = (case m of None \<Rightarrow> [] | Some xs \<Rightarrow> xs)"

lemma sameMemberPath_iff: "sameMemberPath a b \<longleftrightarrow> members_of a = members_of b"
proof -
  have "(length xs = length ys \<and> (\<forall>i < length xs. xs ! i = ys ! i)) \<longleftrightarrow> xs = ys" for xs ys :: "string list"
    by (rule list_eq_iff_nth_eq [symmetric])
  then show ?thesis
    by (cases a; cases b) (auto simp: sameMemberPath_def members_of_def)
qed

subsection \<open>\<open>JSON.stringify\<close> on strings and string lists\<close>

definition hex_lower :: "nat \<Rightarrow> char" where
  "hex_lower n = (if n < 10 then char_of (48 + n) else char_of (87 + n))"

definition json_escape :: "char \<Rightarrow> string" where
  "json_escape c =
     (let n = (of_char c :: nat) in
      if c = CHR 0x22 then [CHR 0x5C, CHR 0x22]
      else if c = CHR 0x5C then [CHR 0x5C, CHR 0x5C]
      else if c = CHR 0x08 then [CHR 0x5C, CHR ''b'']
      else if c = CHR 0x09 then [CHR 0x5C, CHR ''t'']
      else if c = CHR 0x0A then [CHR 0x5C, CHR ''n'']
      else if c = CHR 0x0C then [CHR 0x5C, CHR ''f'']
      else if c = CHR 0x0D then [CHR 0x5C, CHR ''r'']
      else if n < 32 then [CHR 0x5C, CHR ''u'', CHR ''0'', CHR ''0'', hex_lower (n div 16), hex_lower (n mod 16)]
      else [c])"

definition stringify_string :: "string \<Rightarrow> string" where
  "stringify_string s = CHR 0x22 # concat (map json_escape s) @ [CHR 0x22]"

fun stringify_items :: "string list \<Rightarrow> string" where
  "stringify_items [] = []"
| "stringify_items [s] = stringify_string s"
| "stringify_items (s # ss) = stringify_string s @ '','' @ stringify_items ss"

definition stringify_list :: "string list \<Rightarrow> string" where
  "stringify_list ss = ''['' @ stringify_items ss @ '']''"

definition portAddressKey :: "string \<Rightarrow> string list option \<Rightarrow> string" where
  "portAddressKey port members =
     stringify_list (if members = None \<or> members = Some [] then [port] else port # the members)"

definition portRefKey :: "portref \<Rightarrow> string" where
  "portRefKey p = stringify_string (pr_node p) @ [CHR 0x00] @ portAddressKey (pr_port p) (pr_members p)"

text \<open>Escaping is a prefix code, and a closing quote is never the start of an escape.\<close>

lemma of_hex_lower: "n < 16 \<Longrightarrow> (of_char (hex_lower n) :: nat) = (if n < 10 then 48 + n else 87 + n)"
  by (simp add: hex_lower_def)

lemma hex_lower_inj:
  assumes "m < 16" and "n < 16" and "hex_lower m = hex_lower n"
  shows "m = n"
proof -
  have "(of_char (hex_lower m) :: nat) = of_char (hex_lower n)"
    using assms(3) by (rule arg_cong)
  then have "(if m < 10 then 48 + m else 87 + m) = (if n < 10 then 48 + n else 87 + n)"
    unfolding of_hex_lower [OF assms(1)] of_hex_lower [OF assms(2)] .
  then show ?thesis by (simp split: if_splits)
qed

lemma of_char_lt: "(of_char c :: nat) < 256"
  by (rule nat_of_char_less_256)

text \<open>The three shapes of an escape: two characters, six characters, or the character itself.\<close>

definition short_escapes :: "(char \<times> char) list" where
  "short_escapes = [(CHR 0x22, CHR 0x22), (CHR 0x5C, CHR 0x5C), (CHR 0x08, CHR ''b''), (CHR 0x09, CHR ''t''),
     (CHR 0x0A, CHR ''n''), (CHR 0x0C, CHR ''f''), (CHR 0x0D, CHR ''r'')]"

lemma json_escape_eq:
  "json_escape c =
    (case map_of short_escapes c of
       Some d \<Rightarrow> [CHR 0x5C, d]
     | None \<Rightarrow>
         if (of_char c :: nat) < 32
         then [CHR 0x5C, CHR ''u'', CHR ''0'', CHR ''0'', hex_lower (of_char c div 16), hex_lower (of_char c mod 16)]
         else [c])"
  by (simp add: json_escape_def short_escapes_def Let_def)

lemma short_escapes_inj:
  "map_of short_escapes c = Some e \<Longrightarrow> map_of short_escapes d = Some e \<Longrightarrow> c = d"
  by (auto simp: short_escapes_def split: if_splits)

lemma short_escapes_no_u: "map_of short_escapes c \<noteq> Some (CHR ''u'')"
  by (simp add: short_escapes_def)

lemma plain_not_backslash: "map_of short_escapes c = None \<Longrightarrow> c \<noteq> CHR 0x5C \<and> c \<noteq> CHR 0x22"
  by (auto simp: short_escapes_def)

lemma char_div_mod_eq:
  assumes "hex_lower (of_char c div 16) = hex_lower (of_char d div 16)"
    and "hex_lower (of_char c mod 16) = hex_lower (of_char d mod 16)"
  shows "c = d"
proof -
  have "(of_char c :: nat) div 16 < 16" "(of_char d :: nat) div 16 < 16"
    using of_char_lt [of c] of_char_lt [of d] by linarith+
  then have "(of_char c :: nat) div 16 = of_char d div 16" "(of_char c :: nat) mod 16 = of_char d mod 16"
    using assms by (auto intro: hex_lower_inj)
  then have "(of_char c :: nat) = of_char d" by (metis div_mult_mod_eq)
  then show ?thesis by simp
qed

lemma json_escape_prefix:
  assumes "json_escape c @ x = json_escape d @ y"
  shows "c = d \<and> x = y"
proof (cases "map_of short_escapes c"; cases "map_of short_escapes d")
  assume "map_of short_escapes c = None" "map_of short_escapes d = None"
  then show ?thesis
    using assms char_div_mod_eq [of c d] plain_not_backslash
    by (auto simp: json_escape_eq split: if_splits)
next
  fix e assume "map_of short_escapes c = None" "map_of short_escapes d = Some e"
  then show ?thesis
    using assms short_escapes_no_u [of d] plain_not_backslash [of c]
    by (auto simp: json_escape_eq split: if_splits)
next
  fix e assume "map_of short_escapes c = Some e" "map_of short_escapes d = None"
  then show ?thesis
    using assms short_escapes_no_u [of c] plain_not_backslash [of d]
    by (auto simp: json_escape_eq split: if_splits)
next
  fix e f assume "map_of short_escapes c = Some e" "map_of short_escapes d = Some f"
  then show ?thesis
    using assms short_escapes_inj [of c e d] by (auto simp: json_escape_eq)
qed

lemma json_escape_no_quote: "json_escape c @ x \<noteq> CHR 0x22 # y"
  using plain_not_backslash [of c] by (auto simp: json_escape_eq split: option.splits)

lemma json_escape_no_nul: "CHR 0x00 \<notin> set (json_escape c)"
proof -
  have hex: "hex_lower n \<noteq> CHR 0x00" if "n < 16" for n
    using of_hex_lower [OF that] by (auto split: if_splits)
  have "(of_char c :: nat) div 16 < 16" using of_char_lt [of c] by linarith
  then show ?thesis
    using hex [of "of_char c div 16"] hex [of "of_char c mod 16"]
    by (auto simp: json_escape_eq short_escapes_def split: option.splits if_splits)
qed

lemma escaped_inj:
  "concat (map json_escape s) @ CHR 0x22 # x = concat (map json_escape t) @ CHR 0x22 # y \<Longrightarrow> s = t \<and> x = y"
proof (induction s arbitrary: t)
  case Nil
  then show ?case
    using json_escape_no_quote [symmetric] by (cases t) auto
next
  case (Cons c s)
  show ?case
  proof (cases t)
    case Nil
    then show ?thesis using Cons.prems json_escape_no_quote [of c] by auto
  next
    case (Cons d t')
    then show ?thesis
      using Cons.prems Cons.IH [of t'] json_escape_prefix [of c _ d] by fastforce
  qed
qed

lemma stringify_string_inj:
  "stringify_string s @ x = stringify_string t @ y \<Longrightarrow> s = t \<and> x = y"
  using escaped_inj [of s x t y] by (simp add: stringify_string_def)

lemma stringify_items_inj:
  "ss \<noteq> [] \<Longrightarrow> ts \<noteq> [] \<Longrightarrow> stringify_items ss @ '']'' = stringify_items ts @ '']'' \<Longrightarrow> ss = ts"
proof (induction ss arbitrary: ts rule: stringify_items.induct)
  case (2 s)
  then obtain t ts' where ts: "ts = t # ts'" by (cases ts) auto
  with 2 stringify_string_inj [of s "'']''" t] show ?case
    by (cases ts') auto
next
  case (3 s s2 ss)
  then obtain t ts' where ts: "ts = t # ts'" by (cases ts) auto
  show ?case
  proof (cases ts')
    case Nil
    then show ?thesis
      using 3(4) ts stringify_string_inj [of s "'','' @ stringify_items (s2 # ss) @ '']''" t "'']''"] by simp
  next
    case (Cons t2 ts2)
    then show ?thesis
      using 3 ts stringify_string_inj [of s "'','' @ stringify_items (s2 # ss) @ '']''" t
          "'','' @ stringify_items (t2 # ts2) @ '']''"]
      by (metis append_Cons append_assoc list.distinct(1) same_append_eq stringify_items.simps(3))
  qed
qed simp

lemma stringify_list_inj: "ss \<noteq> [] \<Longrightarrow> ts \<noteq> [] \<Longrightarrow> stringify_list ss = stringify_list ts \<Longrightarrow> ss = ts"
  using stringify_items_inj by (simp add: stringify_list_def)

lemma portAddressKey_members: "portAddressKey port m = stringify_list (port # members_of m)"
  by (cases m) (auto simp: portAddressKey_def members_of_def)

lemma portRefKey_inj: "portRefKey p = portRefKey q \<Longrightarrow> samePortRef p q"
proof -
  assume "portRefKey p = portRefKey q"
  then have node: "pr_node p = pr_node q"
    and key: "portAddressKey (pr_port p) (pr_members p) = portAddressKey (pr_port q) (pr_members q)"
    using stringify_string_inj [of "pr_node p" _ "pr_node q"] by (auto simp: portRefKey_def)
  then show ?thesis
    using stringify_list_inj [of "pr_port p # members_of (pr_members p)" "pr_port q # members_of (pr_members q)"]
    by (simp add: portAddressKey_members samePortRef_def sameMemberPath_iff)
qed

lemma portRefKey_respects: "samePortRef p q \<Longrightarrow> portRefKey p = portRefKey q"
  by (simp add: portRefKey_def portAddressKey_members samePortRef_def sameMemberPath_iff)

section \<open>Occurrence keys\<close>

record occurrence =
  oc_path :: "string list"
  oc_node :: string

definition sameOccurrenceRef :: "occurrence \<Rightarrow> occurrence \<Rightarrow> bool" where
  "sameOccurrenceRef a b \<longleftrightarrow>
     (if oc_node a \<noteq> oc_node b \<or> length (oc_path a) \<noteq> length (oc_path b) then False
      else list_all (\<lambda>p. fst p = snd p) (zip (oc_path a) (oc_path b)))"

definition isOccurrenceAncestorOrSelf :: "occurrence \<Rightarrow> occurrence \<Rightarrow> bool" where
  "isOccurrenceAncestorOrSelf ancestor owner \<longleftrightarrow>
     (let as = oc_path ancestor @ [oc_node ancestor]; os = oc_path owner @ [oc_node owner]
      in length as \<le> length os \<and> list_all (\<lambda>p. fst p = snd p) (zip as os))"

subsection \<open>URI components\<close>

definition uri_unreserved :: "char \<Rightarrow> bool" where
  "uri_unreserved c \<longleftrightarrow> is_upper c \<or> is_lower c \<or> is_digit c \<or> c \<in> set ''-_.!~*()'' \<or> c = CHR 0x27"

definition hex_upper :: "nat \<Rightarrow> char" where
  "hex_upper n = (if n < 10 then char_of (48 + n) else char_of (55 + n))"

definition hex_value :: "char \<Rightarrow> nat option" where
  "hex_value c =
     (let n = (of_char c :: nat) in
      if 48 \<le> n \<and> n \<le> 57 then Some (n - 48)
      else if 65 \<le> n \<and> n \<le> 70 then Some (n - 55)
      else if 97 \<le> n \<and> n \<le> 102 then Some (n - 87)
      else None)"

definition percent :: "nat \<Rightarrow> string" where
  "percent b = [CHR ''%'', hex_upper (b div 16), hex_upper (b mod 16)]"

text \<open>\<open>encodeURIComponent\<close> of one unit: UTF-8, percent-encoded.\<close>

definition uri_encode_char :: "char \<Rightarrow> string" where
  "uri_encode_char c =
     (let n = (of_char c :: nat) in
      if uri_unreserved c then [c]
      else if n < 128 then percent n
      else percent (192 + n div 64) @ percent (128 + n mod 64))"

definition encodeURIComponent :: "string \<Rightarrow> string" where
  "encodeURIComponent s = concat (map uri_encode_char s)"

fun percent_byte :: "string \<Rightarrow> (nat \<times> string) option" where
  "percent_byte (p # h # l # rest) =
     (if p = CHR ''%'' then
        (case (hex_value h, hex_value l) of
           (Some x, Some y) \<Rightarrow> Some (16 * x + y, rest)
         | _ \<Rightarrow> None)
      else None)"
| "percent_byte _ = None"

text \<open>\<open>decodeURIComponent\<close>; \<open>None\<close> is a thrown \<open>URIError\<close> (or a unit above 255, which the string
  type does not have). Each step consumes at least one character, so the length is enough fuel.\<close>

fun uri_decode :: "nat \<Rightarrow> string \<Rightarrow> string option" where
  "uri_decode fuel [] = Some []"
| "uri_decode 0 (c # cs) = None"
| "uri_decode (Suc fuel) (c # cs) =
     (if c \<noteq> CHR ''%'' then map_option ((#) c) (uri_decode fuel cs)
      else (case percent_byte (c # cs) of
          None \<Rightarrow> None
        | Some (b, rest) \<Rightarrow>
            if b < 128 then map_option ((#) (char_of b)) (uri_decode fuel rest)
            else if b = 194 \<or> b = 195 then
              (case percent_byte rest of
                 None \<Rightarrow> None
               | Some (b2, rest2) \<Rightarrow>
                   if 128 \<le> b2 \<and> b2 < 192
                   then map_option ((#) (char_of ((b - 192) * 64 + (b2 - 128)))) (uri_decode fuel rest2)
                   else None)
            else None))"

definition decodeURIComponent :: "string \<Rightarrow> string option" where
  "decodeURIComponent s = uri_decode (length s) s"

subsection \<open>Keys\<close>

definition dot :: char where
  "dot = CHR ''.''"

definition escape_dot :: "char \<Rightarrow> string" where
  "escape_dot c = (if c = dot then ''%2E'' else [c])"

definition escapeSeg :: "string \<Rightarrow> string" where
  "escapeSeg s = concat (map escape_dot (encodeURIComponent s))"

fun join_dots :: "string list \<Rightarrow> string" where
  "join_dots [] = []"
| "join_dots [s] = s"
| "join_dots (s # ss) = s @ dot # join_dots ss"

fun split_dots :: "string \<Rightarrow> string list" where
  "split_dots [] = [[]]"
| "split_dots (c # cs) =
     (if c = dot then [] # split_dots cs
      else (case split_dots cs of [] \<Rightarrow> [[c]] | s # ss \<Rightarrow> (c # s) # ss))"

definition occurrenceKey :: "occurrence \<Rightarrow> string" where
  "occurrenceKey o1 = join_dots (map escapeSeg (oc_path o1 @ [oc_node o1]))"

datatype key_error = InvalidOccurrenceKey string | MalformedUri string

fun unescape_all :: "string list \<Rightarrow> string list option" where
  "unescape_all [] = Some []"
| "unescape_all (s # ss) =
     (case decodeURIComponent s of None \<Rightarrow> None | Some x \<Rightarrow> map_option ((#) x) (unescape_all ss))"

definition parseOccurrenceKey :: "string \<Rightarrow> key_error + occurrence" where
  "parseOccurrenceKey key =
     (case unescape_all (split_dots key) of
        None \<Rightarrow> Inl (MalformedUri key)
      | Some segs \<Rightarrow>
          if segs = [] \<or> [] \<in> set segs then Inl (InvalidOccurrenceKey key)
          else Inr \<lparr>oc_path = butlast segs, oc_node = last segs\<rparr>)"

definition executionKey :: "string \<Rightarrow> string \<Rightarrow> string" where
  "executionKey connection prompt = escapeSeg connection @ dot # escapeSeg prompt"

definition isOccurrenceKeyWithin :: "string \<Rightarrow> string \<Rightarrow> bool" where
  "isOccurrenceKeyWithin key instance_node \<longleftrightarrow>
     (let p = escapeSeg instance_node @ [dot] in take (length p) key = p)"

subsection \<open>Decoding inverts encoding\<close>

lemma of_hex_upper: "n < 16 \<Longrightarrow> (of_char (hex_upper n) :: nat) = (if n < 10 then 48 + n else 55 + n)"
  by (simp add: hex_upper_def)

lemma hex_value_upper: "n < 16 \<Longrightarrow> hex_value (hex_upper n) = Some n"
  by (simp add: hex_value_def of_hex_upper Let_def)

lemma percent_byte_percent [simp]: "b < 256 \<Longrightarrow> percent_byte (percent b @ rest) = Some (b, rest)"
  by (simp add: percent_def hex_value_upper)

lemma escape_dot_other: "c \<noteq> dot \<Longrightarrow> escape_dot c = [c]"
  by (simp add: escape_dot_def)

lemma hex_upper_not_dot: "n < 16 \<Longrightarrow> hex_upper n \<noteq> dot"
  using of_hex_upper [of n] by (auto simp: dot_def split: if_splits)

lemma concat_escape_percent: "b < 256 \<Longrightarrow> concat (map escape_dot (percent b)) = percent b"
  by (simp add: percent_def escape_dot_other hex_upper_not_dot) (simp add: escape_dot_def dot_def)

text \<open>One escaped unit: itself, one percent byte, or two.\<close>

definition seg_escape :: "char \<Rightarrow> string" where
  "seg_escape c =
     (let n = (of_char c :: nat) in
      if uri_unreserved c \<and> c \<noteq> dot then [c]
      else if n < 128 then percent n
      else percent (192 + n div 64) @ percent (128 + n mod 64))"

lemma percent_dot: "percent 46 = ''%2E''"
  by code_simp

lemma escapeSeg_char: "concat (map escape_dot (uri_encode_char c)) = seg_escape c"
proof (cases "uri_unreserved c")
  case True
  then show ?thesis
    by (cases "c = dot") (simp_all add: uri_encode_char_def seg_escape_def escape_dot_def dot_def percent_dot)
next
  case False
  have "192 + (of_char c :: nat) div 64 < 256" and "128 + (of_char c :: nat) mod 64 < 256"
    using of_char_lt [of c] by linarith+
  then show ?thesis
    using False of_char_lt [of c]
    by (simp add: uri_encode_char_def seg_escape_def Let_def concat_escape_percent)
qed

lemma escapeSeg_eq: "escapeSeg s = concat (map seg_escape s)"
  by (induction s) (simp_all add: escapeSeg_def encodeURIComponent_def escapeSeg_char)

lemma percent_not_unreserved: "\<not> uri_unreserved (CHR ''%'')"
  by (simp add: uri_unreserved_def is_upper_def is_lower_def is_digit_def)

lemma uri_decode_escape_char:
  "uri_decode (Suc fuel) (seg_escape c @ rest) = map_option ((#) c) (uri_decode fuel rest)"
proof -
  have wide: "192 + (of_char c :: nat) div 64 < 256" "128 + (of_char c :: nat) mod 64 < 256"
    using of_char_lt [of c] by linarith+
  consider (plain) "uri_unreserved c \<and> c \<noteq> dot" | (one) "\<not> (uri_unreserved c \<and> c \<noteq> dot)" "(of_char c :: nat) < 128"
    | (two) "\<not> (uri_unreserved c \<and> c \<noteq> dot)" "\<not> (of_char c :: nat) < 128"
    by blast
  then show ?thesis
  proof cases
    case plain
    then have "c \<noteq> CHR ''%''" using percent_not_unreserved by blast
    then show ?thesis using plain by (simp add: seg_escape_def)
  next
    case one
    have "seg_escape c @ rest = percent (of_char c) @ rest"
      using one by (auto simp: seg_escape_def Let_def)
    moreover have "percent_byte (percent (of_char c) @ rest) = Some (of_char c, rest)"
      using of_char_lt [of c] by (rule percent_byte_percent)
    moreover obtain cs where "percent (of_char c) @ rest = CHR ''%'' # cs"
      by (simp add: percent_def)
    ultimately show ?thesis using one(2) by simp
  next
    case two
    let ?n = "of_char c :: nat"
    have n: "192 + ?n div 64 = 194 \<or> 192 + ?n div 64 = 195"
      using two(2) of_char_lt [of c] by linarith
    have recomb: "(192 + ?n div 64 - 192) * 64 + (128 + ?n mod 64 - 128) = ?n" by simp
    have b1: "percent_byte (percent (192 + ?n div 64) @ percent (128 + ?n mod 64) @ rest) =
        Some (192 + ?n div 64, percent (128 + ?n mod 64) @ rest)"
      using wide(1) by (rule percent_byte_percent)
    have b2: "percent_byte (percent (128 + ?n mod 64) @ rest) = Some (128 + ?n mod 64, rest)"
      using wide(2) by (rule percent_byte_percent)
    have "seg_escape c @ rest = percent (192 + ?n div 64) @ percent (128 + ?n mod 64) @ rest"
      using two by (auto simp: seg_escape_def Let_def)
    moreover obtain cs where "percent (192 + ?n div 64) @ percent (128 + ?n mod 64) @ rest = CHR ''%'' # cs"
      by (simp add: percent_def)
    ultimately show ?thesis
      using b1 b2 n recomb by (auto simp: mod_less)
  qed
qed

lemma seg_escape_length: "1 \<le> length (seg_escape c)"
  by (simp add: seg_escape_def percent_def Let_def)

lemma uri_decode_escape: "length s \<le> fuel \<Longrightarrow> uri_decode fuel (concat (map seg_escape s)) = Some s"
proof (induction s arbitrary: fuel)
  case (Cons c s)
  then obtain f where "fuel = Suc f" by (cases fuel) simp_all
  with Cons show ?case by (simp add: uri_decode_escape_char)
qed simp

lemma length_escape: "length s \<le> length (concat (map seg_escape s))"
proof (induction s)
  case (Cons c s)
  then show ?case using seg_escape_length [of c] by simp
qed simp

lemma decode_escapeSeg: "decodeURIComponent (escapeSeg s) = Some s"
  unfolding decodeURIComponent_def escapeSeg_eq by (rule uri_decode_escape [OF length_escape])

lemma escapeSeg_inj: "escapeSeg s = escapeSeg t \<Longrightarrow> s = t"
  by (metis decode_escapeSeg option.inject)

subsection \<open>Splitting inverts joining\<close>

lemma split_dots_ne [simp]: "split_dots s \<noteq> []"
  by (cases s) (auto split: list.splits)

lemma split_dots_plain: "dot \<notin> set s \<Longrightarrow> split_dots s = [s]"
  by (induction s) auto

lemma split_dots_append: "dot \<notin> set s \<Longrightarrow> split_dots (s @ dot # t) = s # split_dots t"
  by (induction s) auto

lemma split_join_dots: "ss \<noteq> [] \<Longrightarrow> \<forall>s \<in> set ss. dot \<notin> set s \<Longrightarrow> split_dots (join_dots ss) = ss"
  by (induction ss rule: join_dots.induct) (simp_all add: split_dots_plain split_dots_append)

lemma seg_escape_no_dot: "dot \<notin> set (seg_escape c)"
proof -
  have pct: "dot \<notin> set (percent b)" if "b < 256" for b
  proof -
    have "b div 16 < 16" using that by linarith
    then show ?thesis
      using hex_upper_not_dot [of "b div 16"] hex_upper_not_dot [of "b mod 16"]
      by (auto simp: percent_def dot_def)
  qed
  have "192 + (of_char c :: nat) div 64 < 256" "128 + (of_char c :: nat) mod 64 < 256"
    using of_char_lt [of c] by linarith+
  then show ?thesis
    using pct of_char_lt [of c] by (auto simp: seg_escape_def Let_def)
qed

lemma escapeSeg_no_dot: "dot \<notin> set (escapeSeg s)"
  using seg_escape_no_dot by (auto simp: escapeSeg_eq)

lemma unescape_all_escaped: "unescape_all (map escapeSeg ss) = Some ss"
  by (induction ss) (simp_all add: decode_escapeSeg)

lemma split_occurrenceKey:
  "split_dots (occurrenceKey o1) = map escapeSeg (oc_path o1 @ [oc_node o1])"
  unfolding occurrenceKey_def by (rule split_join_dots) (auto simp: escapeSeg_no_dot)

lemma parse_occurrenceKey:
  assumes "[] \<notin> set (oc_path o1)" and "oc_node o1 \<noteq> []"
  shows "parseOccurrenceKey (occurrenceKey o1) = Inr o1"
  using assms unfolding parseOccurrenceKey_def split_occurrenceKey unescape_all_escaped by simp

lemma occurrenceKey_inj:
  assumes "occurrenceKey a = occurrenceKey b"
  shows "a = b"
proof -
  have "map escapeSeg (oc_path a @ [oc_node a]) = map escapeSeg (oc_path b @ [oc_node b])"
    using assms split_occurrenceKey by metis
  then have "unescape_all (map escapeSeg (oc_path a @ [oc_node a])) =
      unescape_all (map escapeSeg (oc_path b @ [oc_node b]))"
    by (rule arg_cong)
  then have "oc_path a @ [oc_node a] = oc_path b @ [oc_node b]"
    unfolding unescape_all_escaped by simp
  then show ?thesis by (simp add: occurrence.equality)
qed

lemma starts_with_segment:
  assumes "dot \<notin> set s" and "dot \<notin> set t"
  shows "take (length (s @ [dot])) (t @ dot # r) = s @ [dot] \<longleftrightarrow> s = t"
proof
  assume "take (length (s @ [dot])) (t @ dot # r) = s @ [dot]"
  then obtain r' where "t @ dot # r = s @ dot # r'"
    by (metis append_Cons append_assoc append_take_drop_id append_Nil)
  then have "split_dots (t @ dot # r) = split_dots (s @ dot # r')" by simp
  then show "s = t" using assms by (simp add: split_dots_append)
qed simp

lemma within_key_iff:
  "isOccurrenceKeyWithin (occurrenceKey o1) i \<longleftrightarrow> (\<exists>p. oc_path o1 = i # p)"
proof (cases "oc_path o1")
  case Nil
  have "dot \<notin> set (take n (escapeSeg (oc_node o1)))" for n
    using escapeSeg_no_dot by (metis in_set_takeD)
  then have "take (length (escapeSeg i @ [dot])) (escapeSeg (oc_node o1)) \<noteq> escapeSeg i @ [dot]"
    by (metis in_set_conv_decomp)
  then show ?thesis
    using Nil by (simp add: isOccurrenceKeyWithin_def occurrenceKey_def Let_def)
next
  case (Cons n p)
  then obtain r where "occurrenceKey o1 = escapeSeg n @ dot # r"
    by (cases p) (auto simp: occurrenceKey_def)
  then have "isOccurrenceKeyWithin (occurrenceKey o1) i \<longleftrightarrow> escapeSeg i = escapeSeg n"
    using starts_with_segment [OF escapeSeg_no_dot escapeSeg_no_dot, of i n r]
    by (simp add: isOccurrenceKeyWithin_def Let_def)
  then show ?thesis using Cons escapeSeg_inj by auto
qed

lemma sameOccurrenceRef_iff: "sameOccurrenceRef a b \<longleftrightarrow> a = b"
proof -
  have "list_all (\<lambda>p. fst p = snd p) (zip xs ys) \<longleftrightarrow> xs = ys" if "length xs = length ys"
    for xs ys :: "string list"
    using that by (simp add: list_all_length list_eq_iff_nth_eq)
  then show ?thesis
    by (auto simp: sameOccurrenceRef_def occurrence.equality)
qed

section \<open>Properties\<close>

text \<open>C31: allocated ids are canonical. Every id the allocator formats parses back to its prefix, ordinal
  and actor, and every string that parses is exactly the formatting of what it parses to.\<close>

theorem allocated_id_roundtrip:
  assumes "prefix \<noteq> []" and "list_all is_lower prefix" and "n \<le> max_safe_nat"
    and "\<forall>a. actor = Some a \<longrightarrow> isValidActorId a"
  shows "parseAllocatedId (formatAllocatedId prefix n actor) = Some (prefix, n, actor) \<and>
    (\<forall>s p m b. parseAllocatedId s = Some (p, m, b) \<longrightarrow> formatAllocatedId p m b = s)"
  using parse_format_id [OF assms] format_parse_id by blast

theorem allocated_id_roundtrip_witness:
  "parseAllocatedId (formatAllocatedId ''net'' 12 (Some ''a-b'')) = Some (''net'', 12, Some ''a-b'')"
proof -
  have "isValidActorId ''a-b''" and "list_all is_lower ''net''"
    by (simp_all add: isValidActorId_def actor_char_def is_lower_def is_upper_def is_digit_def)
  then show ?thesis
    using allocated_id_roundtrip [of "''net''" 12 "Some ''a-b''"] by (simp add: max_safe_nat_def)
qed

text \<open>the group id floor is at or above the persisted cursor and above every canonical group key in
  use, so the next id it mints names no existing group.\<close>

theorem groupIdFloor_fresh:
  assumes "guardOrdinal (groupIdFloor groupSeq keys) = Inr n"
  shows "group_key n \<notin> set keys \<and> (\<forall>m. groupSeq = Some m \<longrightarrow> m \<le> n) \<and>
    (\<forall>v. group_key v \<in> set keys \<and> v < max_safe_nat \<longrightarrow> v < n)"
proof -
  from assms have n: "n = groupIdFloor groupSeq keys" "n < max_safe_nat"
    by (auto simp: guardOrdinal_def split: if_splits)
  have above: "v < n" if "group_key v \<in> set keys" "v < max_safe_nat" for v
    using groupIdFloor_scan_above [OF that] n(1) by (simp add: groupIdFloor_def)
  moreover have "\<forall>m. groupSeq = Some m \<longrightarrow> m \<le> n"
    using groupIdFloor_scan_ge n(1) by (auto simp: groupIdFloor_def)
  moreover have "group_key n \<notin> set keys" using above [of n] n(2) by auto
  ultimately show ?thesis by blast
qed

theorem groupIdFloor_fresh_witness:
  "group_key 5 \<notin> set [''grp4'', ''grp007'', ''x'']"
proof -
  have "digit_char 4 = CHR ''4''" and "digit_char 7 = CHR ''7''" by code_simp+
  then have "group_suffix ''grp4'' = Some 4" and "group_suffix ''grp007'' = None" and "group_suffix ''x'' = None"
    by (simp_all add: group_suffix_def group_key_def read_nat_def show_nat.simps is_digit_def
        max_safe_nat_def Let_def)
  then have "groupIdFloor (Some 2) [''grp4'', ''grp007'', ''x''] = 5"
    by (simp add: groupIdFloor_def)
  then have "guardOrdinal (groupIdFloor (Some 2) [''grp4'', ''grp007'', ''x'']) = Inr 5"
    by (simp add: guardOrdinal_def max_safe_nat_def)
  from groupIdFloor_fresh [OF this] show ?thesis by blast
qed

text \<open>Port keys are exact. Two port references get the same map key precisely when they are the same
  port (node, port and member path, absent and empty paths identified), for arbitrary id strings.\<close>

theorem portRefKey_exact: "portRefKey p = portRefKey q \<longleftrightarrow> samePortRef p q"
  using portRefKey_inj portRefKey_respects by blast

text \<open>C32: occurrence keys are injective, parse back to the occurrence they were made from, and the
  subtree test on keys holds exactly for occurrences whose path starts at the given instance node.\<close>

theorem occurrenceKey_roundtrip:
  assumes "[] \<notin> set (oc_path a)" and "oc_node a \<noteq> []"
  shows "parseOccurrenceKey (occurrenceKey a) = Inr a \<and>
    (occurrenceKey a = occurrenceKey b \<longleftrightarrow> sameOccurrenceRef a b) \<and>
    (isOccurrenceKeyWithin (occurrenceKey a) i \<longleftrightarrow> (\<exists>p. oc_path a = i # p))"
proof (intro conjI)
  show "occurrenceKey a = occurrenceKey b \<longleftrightarrow> sameOccurrenceRef a b"
    unfolding sameOccurrenceRef_iff using occurrenceKey_inj by metis
qed (rule parse_occurrenceKey [OF assms], rule within_key_iff)

theorem occurrenceKey_roundtrip_witness:
  "parseOccurrenceKey (occurrenceKey \<lparr>oc_path = [''n1'', ''a.b''], oc_node = ''x/y''\<rparr>) =
    Inr \<lparr>oc_path = [''n1'', ''a.b''], oc_node = ''x/y''\<rparr>"
proof -
  let ?a = "\<lparr>oc_path = [''n1'', ''a.b''], oc_node = ''x/y''\<rparr>"
  have "[] \<notin> set (oc_path ?a)" and "oc_node ?a \<noteq> []" by simp_all
  from occurrenceKey_roundtrip [OF this, of ?a "''n1''"] show ?thesis by blast
qed

end
