(* ===== verification/Transaction.thy ===== *)
theory Transaction
  imports Patch Ids
begin

text \<open>
  Commands and transactions: \<open>packages/core/src/commands/contract.ts\<close>.

  A transaction is a working document and the ops recorded so far; every builder call records the op it
  applied, with the value it overwrote. A command only ever touches the document through the builder (the
  working copy is a closure variable), so a command run is an interaction with the builder: a
  \<open>script\<close> that reads the transaction, makes calls, may catch what a call throws, and returns
  diagnostics or throws. The message text of a diagnostic is not modelled.
\<close>

section \<open>Diagnostics\<close>

datatype severity = SevError | SevWarning | SevInfo

record diagnostic =
  dg_severity :: severity
  dg_code :: string

definition error_diag :: "string \<Rightarrow> diagnostic" where
  "error_diag code = \<lparr>dg_severity = SevError, dg_code = code\<rparr>"

definition hasErrors :: "diagnostic list \<Rightarrow> bool" where
  "hasErrors ds \<longleftrightarrow> list_ex (\<lambda>d. dg_severity d = SevError) ds"

lemma hasErrors_error_diag [simp]: "hasErrors [error_diag c]"
  by (simp add: hasErrors_def error_diag_def)

section \<open>The transaction builder\<close>

type_synonym foreign = "heap \<times> rawval"

datatype tx_error =
    NotOwned own_fail
  | ForbiddenPath path
  | NothingAtPath path
  | OpRejected patch_error
  | AllocFailed alloc_error
  | CommandThrew string

record tx =
  tx_working :: json
  tx_ops :: "patch_op list"
  tx_actor :: "string option"

definition createTransactionBuilder :: "json \<Rightarrow> string option \<Rightarrow> tx" where
  "createTransactionBuilder doc actor = \<lparr>tx_working = doc, tx_ops = [], tx_actor = actor\<rparr>"

definition tx_own :: "foreign \<Rightarrow> tx_error + json" where
  "tx_own v =
     (case ownJson (default_limits False) (fst v) (snd v) of Inl e \<Rightarrow> Inl (NotOwned e) | Inr j \<Rightarrow> Inr j)"

definition tx_own_path :: "path \<Rightarrow> tx_error + path" where
  "tx_own_path p = (if Key proto_key \<in> set p then Inl (ForbiddenPath p) else Inr p)"

text \<open>\<open>readAt\<close> repeats the traversal of \<open>getAtPath\<close> on the working document.\<close>

fun readAt_step :: "json option \<Rightarrow> seg \<Rightarrow> json option" where
  "readAt_step (Some (JArr xs)) (Idx i) =
     (if is_safe_integer i \<and> i \<ge> 0 \<and> index_of i < length xs then Some (xs ! index_of i) else None)"
| "readAt_step (Some (JObj kvs)) (Key k) = map_of kvs k"
| "readAt_step _ _ = None"

definition readAt :: "tx \<Rightarrow> path \<Rightarrow> json option" where
  "readAt t p = foldl readAt_step (Some (tx_working t)) p"

definition tx_record :: "patch_op \<Rightarrow> tx \<Rightarrow> tx_error + tx" where
  "tx_record op t =
     (case applyOwnedOps (tx_working t) [op] of
        Inl e \<Rightarrow> Inl (OpRejected e)
      | Inr w \<Rightarrow> Inr (t\<lparr>tx_working := w, tx_ops := tx_ops t @ [op]\<rparr>))"

text \<open>The second half of \<open>set\<close> and \<open>insert\<close>, once the value is owned.\<close>

definition tx_set_owned :: "path \<Rightarrow> json \<Rightarrow> tx \<Rightarrow> tx_error + tx" where
  "tx_set_owned p v t =
     rbind (tx_own_path p) (\<lambda>p.
       case readAt t p of
         None \<Rightarrow> tx_record (OpAdd p v) t
       | Some existing \<Rightarrow> tx_record (OpReplace p v existing) t)"

definition tx_set :: "path \<Rightarrow> foreign \<Rightarrow> tx \<Rightarrow> tx_error + tx" where
  "tx_set p v t = rbind (tx_own v) (\<lambda>j. tx_set_owned p j t)"

definition tx_insert :: "path \<Rightarrow> foreign \<Rightarrow> tx \<Rightarrow> tx_error + tx" where
  "tx_insert p v t = rbind (tx_own_path p) (\<lambda>p. rbind (tx_own v) (\<lambda>j. tx_record (OpAdd p j) t))"

definition tx_remove :: "path \<Rightarrow> tx \<Rightarrow> tx_error + tx" where
  "tx_remove p t =
     (case readAt t p of
        None \<Rightarrow> Inl (NothingAtPath p)
      | Some existing \<Rightarrow> rbind (tx_own_path p) (\<lambda>p. tx_record (OpRemove p existing) t))"

definition tx_result :: "tx \<Rightarrow> json \<times> patch_op list \<times> patch_op list" where
  "tx_result t = (tx_working t, tx_ops t, invertOps (tx_ops t))"

section \<open>Commands\<close>

datatype tx_call = TxSet path foreign | TxInsert path foreign | TxRemove path

fun do_call :: "tx_call \<Rightarrow> tx \<Rightarrow> tx_error + tx" where
  "do_call (TxSet p v) t = tx_set p v t"
| "do_call (TxInsert p v) t = tx_insert p v t"
| "do_call (TxRemove p) t = tx_remove p t"

text \<open>\<open>Get\<close> reads the transaction (\<open>current\<close>, \<open>forward\<close>, \<open>actor\<close>); \<open>Call\<close> continues
  with its second argument, or with its third on a thrown error.\<close>

datatype script =
    Done "diagnostic list"
  | Throw tx_error
  | Get "tx \<Rightarrow> script"
  | Call tx_call script "tx_error \<Rightarrow> script"

primrec run_script :: "script \<Rightarrow> tx \<Rightarrow> tx_error + (tx \<times> diagnostic list)" where
  "run_script (Done ds) = (\<lambda>t. Inr (t, ds))"
| "run_script (Throw e) = (\<lambda>t. Inl e)"
| "run_script (Get f) = (\<lambda>t. run_script (f t) t)"
| "run_script (Call c s h) =
     (\<lambda>t. case do_call c t of Inl e \<Rightarrow> run_script (h e) t | Inr t' \<Rightarrow> run_script s t')"

text \<open>\<open>'c\<close> is the execution context (the schema resolver of an initial dispatch, or shared replay), which
  the gate only passes on.\<close>

record 'c command_def =
  cd_validate :: "json \<Rightarrow> json \<Rightarrow> 'c \<Rightarrow> diagnostic list"  \<comment> \<open>\<open>validateDispatch\<close>, \<open>[]\<close> when absent\<close>
  cd_run :: "json \<Rightarrow> json \<Rightarrow> 'c \<Rightarrow> script"

definition executeCommand ::
  "'c command_def \<Rightarrow> json \<Rightarrow> json \<Rightarrow> tx \<Rightarrow> 'c \<Rightarrow> tx_error + (tx \<times> diagnostic list)" where
  "executeCommand cmd doc params t ctx =
     (let preflight = cd_validate cmd doc params ctx in
      if hasErrors preflight then Inr (t, preflight)
      else map_result (\<lambda>(t', ds). (t', preflight @ ds)) (run_script (cd_run cmd doc params ctx) t))"

section \<open>Invariant of a transaction\<close>

text \<open>The recorded ops lead from the base document to the working one, each recorded against the document
  it was applied to.\<close>

definition tx_inv :: "json \<Rightarrow> tx \<Rightarrow> bool" where
  "tx_inv doc t \<longleftrightarrow>
     wf_json doc \<and> applyOwnedOps doc (tx_ops t) = Inr (tx_working t) \<and>
     recorded_run doc (tx_ops t) \<and> list_all wf_op (tx_ops t)"

lemma readAt_None: "foldl readAt_step None p = None"
  by (induction p) simp_all

lemma readAt_getAtPath: "readAt t p = getAtPath (tx_working t) p"
proof -
  have "foldl readAt_step (Some d) p = getAtPath d p" for d
  proof (induction p arbitrary: d)
    case (Cons s p)
    have "readAt_step (Some d) s = child_at d s"
      by (cases d; cases s) (simp_all add: is_index_def)
    then show ?case using Cons by (cases "child_at d s") (simp_all add: readAt_None)
  qed simp
  then show ?thesis by (simp add: readAt_def)
qed

lemma tx_inv_create: "wf_json doc \<Longrightarrow> tx_inv doc (createTransactionBuilder doc actor)"
  by (simp add: tx_inv_def createTransactionBuilder_def)

lemma tx_inv_wf: "tx_inv doc t \<Longrightarrow> wf_json (tx_working t)"
  using patch.run_valid by (auto simp: tx_inv_def applyOwnedOps_def)

lemma jsonSameValue_refl: "wf_json a \<Longrightarrow> jsonSameValue a a"
  by (simp add: jsonSameValue_abs)

lemma tx_record_inv:
  assumes "tx_record op t = Inr t'" and "tx_inv doc t" and "wf_op op" and "recorded (tx_working t) op"
  shows "tx_inv doc t'"
proof -
  from assms(1) obtain w where w: "applyOp (tx_working t) op = Inr w"
    and t': "t' = t\<lparr>tx_working := w, tx_ops := tx_ops t @ [op]\<rparr>"
    by (auto simp: tx_record_def split: sum.splits)
  show ?thesis
    using assms(2-4) w t'
    by (simp add: tx_inv_def applyOwnedOps_append recorded_along_append) (simp add: applyOwnedOps_def)
qed

lemma own_limits_heap:
  assumes "heap_ok (fst v)" and "tx_own v = Inr j"
  shows "wf_json j"
proof -
  from assms(2) obtain c where
    "own_visit (default_limits False) (fst v) 64 [] [] (0, 0) (snd v) = Inr (j, c)"
    by (auto simp: tx_own_def ownJson_visit default_limits_def split: sum.splits)
  from own_visit_sound [OF assms(1) this] show ?thesis by (simp add: visit_sound_def)
qed

lemma tx_set_owned_inv:
  assumes "tx_set_owned p v t = Inr t'" and "tx_inv doc t" and "wf_json v"
  shows "tx_inv doc t'"
proof (cases "readAt t p")
  case None
  then show ?thesis
    using assms tx_record_inv [of "OpAdd p v" t t' doc]
    by (auto simp: tx_set_owned_def tx_own_path_def split: if_splits)
next
  case (Some old)
  then have "wf_json old"
    using tx_inv_wf [OF assms(2)] getAtPath_wf by (simp add: readAt_getAtPath)
  with Some show ?thesis
    using assms tx_record_inv [of "OpReplace p v old" t t' doc]
    by (auto simp: tx_set_owned_def tx_own_path_def readAt_getAtPath jsonSameValue_refl split: if_splits)
qed

lemma tx_remove_inv:
  assumes "tx_remove p t = Inr t'" and "tx_inv doc t"
  shows "tx_inv doc t'"
proof -
  from assms(1) obtain old where old: "readAt t p = Some old" and rc: "tx_record (OpRemove p old) t = Inr t'"
    by (auto simp: tx_remove_def tx_own_path_def split: option.splits if_splits)
  have "wf_json old"
    using tx_inv_wf [OF assms(2)] getAtPath_wf old by (simp add: readAt_getAtPath)
  then show ?thesis
    using tx_record_inv [OF rc assms(2)] old by (simp add: readAt_getAtPath jsonSameValue_refl)
qed

fun call_heap_ok :: "tx_call \<Rightarrow> bool" where
  "call_heap_ok (TxSet p v) = heap_ok (fst v)"
| "call_heap_ok (TxInsert p v) = heap_ok (fst v)"
| "call_heap_ok (TxRemove p) = True"

lemma do_call_inv:
  assumes "do_call c t = Inr t'" and "tx_inv doc t" and "call_heap_ok c"
  shows "tx_inv doc t'"
proof (cases c)
  case (TxSet p v)
  with assms obtain j where "tx_own v = Inr j" "tx_set_owned p j t = Inr t'"
    by (auto simp: tx_set_def result_simps)
  then show ?thesis
    using TxSet assms(2,3) own_limits_heap tx_set_owned_inv by simp
next
  case (TxInsert p v)
  with assms obtain j where "tx_own v = Inr j" "tx_record (OpAdd p j) t = Inr t'"
    by (auto simp: tx_insert_def tx_own_path_def result_simps split: if_splits)
  then show ?thesis
    using TxInsert assms(2,3) own_limits_heap tx_record_inv [of "OpAdd p j" t t' doc] by simp
next
  case (TxRemove p)
  with assms show ?thesis using tx_remove_inv by simp
qed

text \<open>Every value a script hands to the builder lives in a heap of JavaScript objects.\<close>

primrec script_heaps_ok :: "script \<Rightarrow> bool" where
  "script_heaps_ok (Done ds) = True"
| "script_heaps_ok (Throw e) = True"
| "script_heaps_ok (Get f) = (\<forall>t. script_heaps_ok (f t))"
| "script_heaps_ok (Call c s h) = (call_heap_ok c \<and> script_heaps_ok s \<and> (\<forall>e. script_heaps_ok (h e)))"

lemma tx_record_actor: "tx_record op t = Inr t' \<Longrightarrow> tx_actor t' = tx_actor t"
  by (auto simp: tx_record_def split: sum.splits)

lemma do_call_actor: "do_call c t = Inr t' \<Longrightarrow> tx_actor t' = tx_actor t"
  by (cases c) (auto simp: tx_set_def tx_set_owned_def tx_insert_def tx_remove_def rbind_Inr_iff
      dest: tx_record_actor split: option.split_asm)

lemma run_script_inv:
  "run_script s t = Inr (t', ds) \<Longrightarrow> script_heaps_ok s \<Longrightarrow> tx_inv doc t \<Longrightarrow>
   tx_inv doc t' \<and> tx_actor t' = tx_actor t"
proof (induction s arbitrary: t)
  case (Call c s h)
  show ?case
  proof (cases "do_call c t")
    case (Inl e)
    have "script_heaps_ok (h e)" using Call.prems(2) by simp
    from Call.IH(2) [OF rangeI _ this] Call.prems Inl show ?thesis by simp
  next
    case (Inr t1)
    moreover have "tx_actor t1 = tx_actor t" by (rule do_call_actor [OF Inr])
    ultimately show ?thesis
      using Call do_call_inv [of c t t1 doc] by auto
  qed
qed auto

lemma executeCommand_inv:
  assumes "executeCommand cmd doc params t ctx = Inr (t', ds)"
    and "script_heaps_ok (cd_run cmd doc params ctx)" and "tx_inv base t"
  shows "tx_inv base t'"
  using assms run_script_inv
  by (fastforce simp: executeCommand_def Let_def result_simps split: if_splits)

section \<open>Properties\<close>

lemma tx_inv_exact:
  assumes inv: "tx_inv doc t" and res: "tx_result t = (doc', fwd, bwd)"
  shows "applyOwnedOps doc fwd = Inr doc'" and "wf_json doc'"
    and "\<exists>d. applyOwnedOps doc' bwd = Inr d \<and> jsonSameValue d doc"
proof -
  have wfd: "wf_json doc" using inv by (simp add: tx_inv_def)
  have ops: "doc' = tx_working t" "fwd = tx_ops t" "bwd = invertOps (tx_ops t)"
    using res by (auto simp: tx_result_def)
  have run: "foldR applyOp doc (tx_ops t) = Inr (tx_working t)" and rc: "recorded_run doc (tx_ops t)"
    and wf: "list_all wf_op (tx_ops t)"
    using inv by (simp_all add: tx_inv_def applyOwnedOps_def)
  from patch.run_invert [OF run rc wfd wf refl] obtain d
    where d: "applyOwnedOps (tx_working t) (invertOps (tx_ops t)) = Inr d" "json_abs d = json_abs doc"
    by (auto simp: applyOwnedOps_def invertOps_def)
  have "wf_json d"
    using patch.run_valid [of "tx_working t" "invertOps (tx_ops t)" d] d(1) tx_inv_wf [OF inv] wf
    by (simp add: applyOwnedOps_def)
  then show "\<exists>d. applyOwnedOps doc' bwd = Inr d \<and> jsonSameValue d doc"
    using d ops jsonSameValue_abs wfd by blast
  show "applyOwnedOps doc fwd = Inr doc'" "wf_json doc'"
    using run ops tx_inv_wf [OF inv] by (simp_all add: applyOwnedOps_def)
qed

text \<open>C22: whatever a command does through the builder, the transaction it leaves behind is exact. The
  forward ops applied to the base document give the working document, and the inverse ops applied to the
  working document give the base document back.\<close>

theorem transaction_exact:
  assumes "wf_json doc" and "script_heaps_ok s"
    and "run_script s (createTransactionBuilder doc actor) = Inr (t, ds)"
    and "tx_result t = (doc', fwd, bwd)"
  shows "applyOwnedOps doc fwd = Inr doc' \<and> wf_json doc' \<and>
    (\<exists>d. applyOwnedOps doc' bwd = Inr d \<and> jsonSameValue d doc)"
proof -
  have "tx_inv doc t"
    using run_script_inv [OF assms(3,2) tx_inv_create [OF assms(1)]] by blast
  from tx_inv_exact [OF this assms(4)] show ?thesis by blast
qed

definition demo_script :: script where
  "demo_script =
     Call (TxSet [Key ''a''] (\<lambda>_. RawArr [], RNum (Fin 2)))
       (Call (TxRemove [Key ''b'']) (Done []) Throw) Throw"

definition demo_doc :: json where
  "demo_doc = JObj [(''b'', JStr ''x''), (''a'', JNum 1)]"

lemma demo_own: "tx_own (\<lambda>_. RawArr [], RNum (Fin 2)) = Inr (JNum 2)"
proof -
  have "own_visit (default_limits False) (\<lambda>_. RawArr []) 64 [] [] (0, 0) (RNum (Fin 2)) = Inr (JNum 2, (1, 0))"
    using own_visit_complete [of "\<lambda>_. RawArr []" "RNum (Fin 2)" "JNum 2" 64 "[]" "default_limits False" "(0, 0)" "[]"]
    by (simp add: heap_defined_def above_def fits_def default_limits_def)
  then have "ownJson (default_limits False) (\<lambda>_. RawArr []) (RNum (Fin 2)) = Inr (JNum 2)"
    by (simp add: ownJson_visit default_limits_def)
  then show ?thesis by (simp add: tx_own_def)
qed

lemma demo_run:
  "run_script demo_script (createTransactionBuilder demo_doc None) =
   Inr (\<lparr>tx_working = JObj [(''a'', JNum 2)],
         tx_ops = [OpReplace [Key ''a''] (JNum 2) (JNum 1), OpRemove [Key ''b''] (JStr ''x'')],
         tx_actor = None\<rparr>, [])"
  by (simp add: demo_script_def demo_doc_def tx_set_def demo_own tx_set_owned_def tx_remove_def
      tx_own_path_def tx_record_def readAt_def createTransactionBuilder_def applyOp_def proto_key_def)

theorem transaction_exact_witness:
  "\<exists>d. applyOwnedOps (JObj [(''a'', JNum 2)])
      (invertOps [OpReplace [Key ''a''] (JNum 2) (JNum 1), OpRemove [Key ''b''] (JStr ''x'')]) = Inr d \<and>
    jsonSameValue d demo_doc"
proof -
  have "wf_json demo_doc" by (simp add: demo_doc_def proto_key_def)
  moreover have "script_heaps_ok demo_script" by (simp add: demo_script_def heap_ok_def)
  ultimately show ?thesis
    using transaction_exact [OF _ _ demo_run] by (simp add: tx_result_def)
qed

end
