(* ===== verification/Cursors.thy ===== *)
theory Cursors
  imports Patch
begin

text \<open>
  Allocation cursors under history replay: the cursor preservers of
  \<open>packages/core/src/commands/store.ts\<close>.

  Undo and redo replay recorded ops, but an id that was allocated stays allocated: no cursor of the
  document may move back. Ops that write a cursor directly are recognised by \<open>isAllocationCursor\<close>;
  ops that write a subtree holding cursors are rewritten by the \<^emph>\<open>preserver\<close> of their position, which
  merges the cursors of the current subtree into the replayed one. A preserver maps the current and the
  next value of a position (\<open>None\<close> is \<open>undefined\<close>) to the value to write.

  The code compares by reference to see whether a child preserver returned a new object. A preserver
  returns a new object only when it differs from \<open>next\<close> as a value, so the comparison here is
  equality of values. Own-property reads stand for property reads: no id in a document is the name of a
  member of \<open>Object.prototype\<close>.
\<close>

section \<open>Positions\<close>

definition seg_at :: "path \<Rightarrow> nat \<Rightarrow> seg option" where
  "seg_at p i = (if i < length p then Some (p ! i) else None)"

definition key_at :: "path \<Rightarrow> nat \<Rightarrow> string \<Rightarrow> bool" where
  "key_at p i k \<longleftrightarrow> seg_at p i = Some (Key k)"

datatype dyn_pos = PortMap | DynState | MemberMap | Scope | DynOutside

fun dyn_walk :: "dyn_pos \<Rightarrow> path \<Rightarrow> dyn_pos" where
  "dyn_walk pos [] = pos"
| "dyn_walk PortMap (s # rest) = dyn_walk DynState rest"
| "dyn_walk DynState (s # rest) = dyn_walk (if s = Key ''memberState'' then MemberMap else DynOutside) rest"
| "dyn_walk MemberMap (s # rest) = dyn_walk Scope rest"
| "dyn_walk Scope (s # rest) = dyn_walk DynState rest"
| "dyn_walk DynOutside (s # rest) = DynOutside"

definition dynamicShapePosition :: "path \<Rightarrow> dyn_pos" where
  "dynamicShapePosition p =
     (if length p < 5 \<or> \<not> key_at p 0 ''graphs'' \<or> \<not> key_at p 2 ''nodes'' \<or> \<not> key_at p 4 ''dynamic'' then DynOutside
      else dyn_walk PortMap (drop 5 p))"

definition isAllocationCursor :: "path \<Rightarrow> bool" where
  "isAllocationCursor p =
     (let owner = key_at p 0 ''graphs'' \<or> key_at p 0 ''occurrenceTopologies'';
          lst = seg_at p (length p - 1)
      in
        if lst = Some (Key ''nextOrdinal'') then length p = 3 \<and> owner
        else if length p = 4 \<and> owner \<and> key_at p 2 ''actorCursors'' then True
        else if lst = Some (Key ''seq'') then dynamicShapePosition (butlast p) = DynState
        else if lst = Some (Key ''surfaceSeq'') then length p = 1
        else if lst = Some (Key ''groupSeq'') then length p = 4 \<and> key_at p 0 ''view'' \<and> key_at p 1 ''graphs''
        else False)"

datatype view_pos = GraphsMap | GraphView | ViewOutside

definition viewGraphShapePosition :: "path \<Rightarrow> view_pos" where
  "viewGraphShapePosition p =
     (if \<not> key_at p 0 ''view'' \<or> \<not> key_at p 1 ''graphs'' then ViewOutside
      else if length p = 2 then GraphsMap
      else if length p = 3 then GraphView
      else ViewOutside)"

definition isActorCursorsMap :: "path \<Rightarrow> bool" where
  "isActorCursorsMap p \<longleftrightarrow>
     length p = 3 \<and> (key_at p 0 ''graphs'' \<or> key_at p 0 ''occurrenceTopologies'') \<and> key_at p 2 ''actorCursors''"

datatype occ_pos = OccMap | OccTopology | OccOutside

definition occurrenceTopologyShapePosition :: "path \<Rightarrow> occ_pos" where
  "occurrenceTopologyShapePosition p =
     (if \<not> key_at p 0 ''occurrenceTopologies'' then OccOutside
      else if length p = 1 then OccMap
      else if length p = 2 then OccTopology
      else OccOutside)"

section \<open>Preservers\<close>

type_synonym preserver = "json option \<Rightarrow> json option \<Rightarrow> json option"

type_synonym entries = "(string \<times> json) list"

text \<open>The mutable \<open>base\<close> object with its \<open>changed\<close> flag, and the two writes the preservers make.\<close>

type_synonym draft = "entries \<times> bool"

fun merge_at :: "string \<Rightarrow> json option \<Rightarrow> draft \<Rightarrow> draft" where
  "merge_at k None (base, changed) = (base, changed)"
| "merge_at k (Some m) (base, changed) =
     (if map_of base k = Some m then (base, changed) else (AList.update k m base, True))"

definition num_of :: "json option \<Rightarrow> rat option" where
  "num_of v = (case v of Some (JNum r) \<Rightarrow> Some r | _ \<Rightarrow> None)"

fun clamp_at :: "string \<Rightarrow> json option \<Rightarrow> draft \<Rightarrow> draft" where
  "clamp_at k cur (base, changed) =
     (case num_of cur of
        None \<Rightarrow> (base, changed)
      | Some c \<Rightarrow>
          (case num_of (map_of base k) of
             Some n \<Rightarrow> if n < c then (AList.update k (JNum c) base, True) else (base, changed)
           | None \<Rightarrow> (AList.update k (JNum c) base, True)))"

definition entries_or :: "entries \<Rightarrow> json option \<Rightarrow> entries" where
  "entries_or dflt v = (case v of Some (JObj b) \<Rightarrow> b | _ \<Rightarrow> dflt)"

text \<open>How \<open>preserveRecord\<close> and \<open>preserveStateCursors\<close> return.\<close>

fun seal :: "json option \<Rightarrow> draft \<Rightarrow> json option" where
  "seal nxt (base, changed) =
     (if \<not> changed then nxt
      else if \<not> is_object nxt \<and> base = [] then nxt
      else Some (JObj base))"

definition preserveRecord :: "preserver \<Rightarrow> (string \<Rightarrow> bool) \<Rightarrow> preserver" where
  "preserveRecord child skip current nxt =
     (case current of
        Some (JObj cur) \<Rightarrow>
          seal nxt (fold (\<lambda>kv d. if skip (fst kv) then d
                             else merge_at (fst kv) (child (Some (snd kv)) (map_of (fst d) (fst kv))) d)
                      cur (entries_or [] nxt, \<not> is_object nxt))
      | _ \<Rightarrow> nxt)"

lemma preserveRecord_cong [fundef_cong]:
  assumes "current = current'" and "nxt = nxt'" and "skip = skip'"
    and "\<And>cur k c e. current' = Some (JObj cur) \<Longrightarrow> (k, c) \<in> set cur \<Longrightarrow> child (Some c) e = child' (Some c) e"
  shows "preserveRecord child skip current nxt = preserveRecord child' skip' current' nxt'"
proof (cases "\<exists>cur. current' = Some (JObj cur)")
  case True
  then obtain cur where cur: "current' = Some (JObj cur)" by blast
  have "fold (\<lambda>kv d. if skip (fst kv) then d else merge_at (fst kv) (child (Some (snd kv)) (map_of (fst d) (fst kv))) d) cur d0 =
      fold (\<lambda>kv d. if skip (fst kv) then d else merge_at (fst kv) (child' (Some (snd kv)) (map_of (fst d) (fst kv))) d) cur d0" for d0
    by (rule fold_cong [OF refl refl]) (use assms(4) [OF cur] in \<open>auto simp: fun_eq_iff\<close>)
  then show ?thesis using assms(1-3) cur by (simp add: preserveRecord_def)
next
  case False
  then show ?thesis using assms(1,2) by (simp add: preserveRecord_def split: option.splits json.splits)
qed

definition no_skip :: "string \<Rightarrow> bool" where
  "no_skip k = False"

function (sequential) preserveStateCursors :: "json option \<Rightarrow> json option \<Rightarrow> json option" where
  "preserveStateCursors (Some (JObj cur)) nxt =
     (let d = clamp_at ''seq'' (map_of cur ''seq'') (entries_or [] nxt, \<not> is_object nxt)
      in seal nxt (merge_at ''memberState''
           (preserveRecord (\<lambda>sc. preserveRecord (\<lambda>st. preserveStateCursors st) no_skip sc) no_skip
              (map_of cur ''memberState'') (map_of (fst d) ''memberState'')) d))"
| "preserveStateCursors _ nxt = nxt"
  by pat_completeness auto
termination
proof (relation "measure (\<lambda>(cur, nxt). case cur of None \<Rightarrow> 0 | Some j \<Rightarrow> size j)")
  show "((Some c, e), (Some (JObj cur), nxt)) \<in> measure (\<lambda>(cur, nxt). case cur of None \<Rightarrow> 0 | Some j \<Rightarrow> size j)"
    if "map_of cur ''memberState'' = Some (JObj mm)" "(m, s) \<in> set mm" "Some s = Some (JObj sc)" "(k, c) \<in> set sc"
    for cur nxt mm m s sc k c e
    using size_map_of_json [OF that(1)] size_entry_json [OF that(2)] size_entry_json [OF that(4)] that(3) by simp
qed simp_all

definition preserveScope :: preserver where
  "preserveScope = preserveRecord preserveStateCursors no_skip"

definition preserveMemberMap :: preserver where
  "preserveMemberMap = preserveRecord preserveScope no_skip"

definition preservePortMap :: preserver where
  "preservePortMap = preserveRecord preserveStateCursors no_skip"

text \<open>\<open>preserverAt\<close> has no entry for \<open>outside\<close>.\<close>

fun preserverAt :: "dyn_pos \<Rightarrow> preserver" where
  "preserverAt PortMap = preservePortMap"
| "preserverAt DynState = preserveStateCursors"
| "preserverAt MemberMap = preserveMemberMap"
| "preserverAt Scope = preserveScope"
| "preserverAt DynOutside = (\<lambda>current nxt. nxt)"

definition preserveGraphViewCursor :: preserver where
  "preserveGraphViewCursor current nxt =
     (case current of
        Some (JObj cur) \<Rightarrow>
          (case num_of (map_of cur ''groupSeq'') of
             None \<Rightarrow> nxt
           | Some c \<Rightarrow>
               (let base = entries_or [(''nodes'', JObj [])] nxt
                in case num_of (map_of base ''groupSeq'') of
                     None \<Rightarrow> Some (JObj (AList.update ''groupSeq'' (JNum c) base))
                   | Some n \<Rightarrow>
                       if n \<ge> c \<and> is_object nxt then nxt
                       else Some (JObj (AList.update ''groupSeq'' (JNum (if n > c then n else c)) base))))
      | _ \<Rightarrow> nxt)"

definition makePreserveViewGraphsMap :: "string list \<Rightarrow> preserver" where
  "makePreserveViewGraphsMap surviving = preserveRecord preserveGraphViewCursor (\<lambda>k. k \<notin> set surviving)"

definition preserveNumericCursor :: preserver where
  "preserveNumericCursor current nxt =
     (case num_of current of
        None \<Rightarrow> nxt
      | Some c \<Rightarrow> (case num_of nxt of None \<Rightarrow> current | Some n \<Rightarrow> if n < c then current else nxt))"

definition preserveActorCursorsMap :: preserver where
  "preserveActorCursorsMap = preserveRecord preserveNumericCursor no_skip"

definition positive_num :: "json option \<Rightarrow> bool" where
  "positive_num v = (case num_of v of Some r \<Rightarrow> r > 0 | None \<Rightarrow> False)"

text \<open>The skeleton of an occurrence topology; \<open>owner\<close> and \<open>bodyGraph\<close> are required fields.\<close>

definition topology_skeleton :: "entries \<Rightarrow> entries" where
  "topology_skeleton cur =
     (case map_of cur ''owner'' of None \<Rightarrow> [] | Some v \<Rightarrow> [(''owner'', v)]) @
     (case map_of cur ''bodyGraph'' of None \<Rightarrow> [] | Some v \<Rightarrow> [(''bodyGraph'', v)]) @
     [(''links'', JObj []), (''nextOrdinal'', JNum 0)]"

definition topology_draft :: "entries \<Rightarrow> json option \<Rightarrow> draft" where
  "topology_draft cur nxt =
     (let d = clamp_at ''nextOrdinal'' (map_of cur ''nextOrdinal'')
                (entries_or (topology_skeleton cur) nxt, \<not> is_object nxt)
      in merge_at ''actorCursors''
           (preserveActorCursorsMap (map_of cur ''actorCursors'') (map_of (fst d) ''actorCursors'')) d)"

definition preserveOccurrenceTopologyCursors :: preserver where
  "preserveOccurrenceTopologyCursors current nxt =
     (case current of
        Some (JObj cur) \<Rightarrow>
          (let hasCursor = (positive_num (map_of cur ''nextOrdinal'') \<or>
                 list_ex (\<lambda>kv. positive_num (Some (snd kv))) (entries_or [] (map_of cur ''actorCursors'')));
               d = topology_draft cur nxt
           in if \<not> hasCursor \<and> nxt = None then nxt
              else if snd d then Some (JObj (fst d)) else nxt)
      | _ \<Rightarrow> nxt)"

definition makePreserveOccurrenceTopologiesMap :: "string list \<Rightarrow> preserver" where
  "makePreserveOccurrenceTopologiesMap surviving =
     preserveRecord preserveOccurrenceTopologyCursors (\<lambda>k. k \<notin> set surviving)"

section \<open>Reading cursors\<close>

text \<open>The cursor of a value at a path: a positive number. A cursor at zero has allocated nothing.\<close>

definition obj_get :: "json option \<Rightarrow> string \<Rightarrow> json option" where
  "obj_get v k = (case v of Some (JObj kvs) \<Rightarrow> map_of kvs k | _ \<Rightarrow> None)"

fun cursor_at :: "json option \<Rightarrow> path \<Rightarrow> rat option" where
  "cursor_at None p = None"
| "cursor_at (Some j) p =
     (case num_of (getAtPath j p) of None \<Rightarrow> None | Some r \<Rightarrow> if r > 0 then Some r else None)"

fun max_cursor :: "rat option \<Rightarrow> rat option \<Rightarrow> rat option" where
  "max_cursor None y = y"
| "max_cursor x None = x"
| "max_cursor (Some a) (Some b) = Some (max a b)"

definition opt_wf :: "json option \<Rightarrow> bool" where
  "opt_wf v \<longleftrightarrow> (\<forall>j. v = Some j \<longrightarrow> wf_json j)"

lemma max_cursor_None [simp]: "max_cursor x None = x"
  by (cases x) simp_all

lemma max_cursor_eq_None [simp]: "max_cursor x y = None \<longleftrightarrow> x = None \<and> y = None"
  "None = max_cursor x y \<longleftrightarrow> x = None \<and> y = None"
  by (cases x; cases y; simp)+

lemma cursor_at_key [simp]: "cursor_at v (Key k # q) = cursor_at (obj_get v k) q"
proof (cases v)
  case (Some j)
  then show ?thesis by (cases j) (auto simp: obj_get_def num_of_def split: option.splits)
qed (simp add: obj_get_def)

lemma obj_get_simps [simp]: "obj_get None k = None" "obj_get (Some (JObj kvs)) k = map_of kvs k"
  by (simp_all add: obj_get_def)

lemma obj_get_not_object: "\<not> is_object v \<Longrightarrow> obj_get v k = None"
  by (cases v rule: is_object.cases) (simp_all add: obj_get_def)

lemma obj_get_entries: "map_of (entries_or [] v) k = obj_get v k"
  by (simp add: entries_or_def obj_get_def split: option.splits json.splits)

lemma num_of_simps [simp]: "num_of (Some (JNum r)) = Some r" "num_of None = None" "num_of (Some (JObj kvs)) = None"
  by (simp_all add: num_of_def)

lemma num_of_Some: "num_of v = Some r \<longleftrightarrow> v = Some (JNum r)"
  by (auto simp: num_of_def split: option.splits json.splits)

lemma opt_wf_simps [simp]: "opt_wf None" "opt_wf (Some j) = wf_json j"
  by (simp_all add: opt_wf_def)

lemma opt_wf_get: "opt_wf v \<Longrightarrow> opt_wf (obj_get v k)"
  using wf_json_entry by (auto simp: obj_get_def opt_wf_def split: option.splits json.splits)

lemma opt_wf_entry: "wf_json (JObj kvs) \<Longrightarrow> opt_wf (map_of kvs k)"
  using wf_json_entry by (auto simp: opt_wf_def)

text \<open>What a draft reads like.\<close>

lemma merge_at_get: "map_of (fst (merge_at k m d)) k' = (if k' = k \<and> m \<noteq> None then m else map_of (fst d) k')"
  by (cases d; cases m) auto

lemma clamp_at_get:
  "map_of (fst (clamp_at k cur d)) k' =
     (if k' = k then
        (case num_of cur of
           None \<Rightarrow> map_of (fst d) k
         | Some c \<Rightarrow> (case num_of (map_of (fst d) k) of
             None \<Rightarrow> Some (JNum c) | Some n \<Rightarrow> if n < c then Some (JNum c) else map_of (fst d) k))
      else map_of (fst d) k')"
  by (cases d) (auto split: option.splits)

lemma clamp_at_cursor:
  "cursor_at (map_of (fst (clamp_at k cur d)) k) [] = max_cursor (cursor_at cur []) (cursor_at (map_of (fst d) k) [])"
proof -
  have c: "cursor_at v [] = (case num_of v of None \<Rightarrow> None | Some r \<Rightarrow> if r > 0 then Some r else None)" for v
    by (cases v) simp_all
  show ?thesis
    unfolding c clamp_at_get by (auto split: option.splits simp: num_of_Some)
qed

text \<open>A draft remembers whether it was written to; sealing an untouched draft of an object returns it.\<close>

definition draft_of :: "json option \<Rightarrow> draft \<Rightarrow> bool" where
  "draft_of nxt d \<longleftrightarrow> (\<not> snd d \<longrightarrow> nxt = Some (JObj (fst d)))"

lemma draft_of_start: "draft_of nxt (entries_or dflt nxt, \<not> is_object nxt)"
  by (auto simp: draft_of_def is_object_iff entries_or_def)

lemma draft_of_merge: "draft_of nxt d \<Longrightarrow> draft_of nxt (merge_at k m d)"
  by (cases d; cases m) (auto simp: draft_of_def)

lemma draft_of_clamp: "draft_of nxt d \<Longrightarrow> draft_of nxt (clamp_at k c d)"
  by (cases d) (auto simp: draft_of_def split: option.splits)

lemma seal_get: "draft_of nxt d \<Longrightarrow> obj_get (seal nxt d) k = map_of (fst d) k"
  by (cases d) (auto simp: draft_of_def obj_get_not_object)

lemma seal_some: "seal (Some j) d \<noteq> None"
  by (cases d) auto

lemma wf_merge: "wf_json (JObj (fst d)) \<Longrightarrow> opt_wf m \<Longrightarrow> k \<noteq> proto_key \<Longrightarrow> wf_json (JObj (fst (merge_at k m d)))"
  using wf_json_update by (cases d; cases m) (auto simp del: wf_json.simps)

lemma wf_clamp: "wf_json (JObj (fst d)) \<Longrightarrow> k \<noteq> proto_key \<Longrightarrow> wf_json (JObj (fst (clamp_at k c d)))"
  using wf_json_update [of _ "JNum _"] by (cases d) (auto simp del: wf_json.simps(2) split: option.splits)

lemma wf_seal: "opt_wf nxt \<Longrightarrow> wf_json (JObj (fst d)) \<Longrightarrow> opt_wf (seal nxt d)"
  by (cases d) (auto simp del: wf_json.simps)

lemma wf_entries_or: "opt_wf v \<Longrightarrow> wf_json (JObj dflt) \<Longrightarrow> wf_json (JObj (entries_or dflt v))"
  by (auto simp: entries_or_def opt_wf_def simp del: wf_json.simps split: option.splits json.splits)

section \<open>The interface of a preserver\<close>

text \<open>
  \<open>declared\<close> names the cursor positions below a preserver's position. The laws: at every declared
  position the result holds the larger of the two cursors, the result is well formed, and a write stays
  a write. A client that replays ops through a preserver needs nothing else.
\<close>

locale cursor_preserver =
  fixes preserve :: "json option \<Rightarrow> json option \<Rightarrow> json option"
    and declared :: "path \<Rightarrow> bool"
  assumes keeps: "opt_wf cur \<Longrightarrow> opt_wf nxt \<Longrightarrow> declared q \<Longrightarrow>
      cursor_at (preserve cur nxt) q = max_cursor (cursor_at cur q) (cursor_at nxt q)"
    and keeps_wf: "opt_wf cur \<Longrightarrow> opt_wf nxt \<Longrightarrow> opt_wf (preserve cur nxt)"
    and keeps_write: "preserve cur (Some j) \<noteq> None"
begin

lemma never_rewinds:
  assumes "opt_wf cur" and "opt_wf nxt" and "declared q" and "cursor_at cur q = Some n"
  shows "\<exists>m. cursor_at (preserve cur nxt) q = Some m \<and> n \<le> m"
  using keeps [OF assms(1-3)] assms(4) by (cases "cursor_at nxt q") auto

lemma never_loses_next:
  assumes "opt_wf cur" and "opt_wf nxt" and "declared q" and "cursor_at nxt q = Some n"
  shows "\<exists>m. cursor_at (preserve cur nxt) q = Some m \<and> n \<le> m"
  using keeps [OF assms(1-3)] assms(4) by (cases "cursor_at cur q") auto

text \<open>What a removal leaves behind holds every declared cursor.\<close>

lemma removal_keeps:
  assumes "opt_wf cur" and "declared q"
  shows "cursor_at (preserve cur None) q = cursor_at cur q"
  using keeps [OF assms(1) _ assms(2), of None] by simp

end

subsection \<open>Records\<close>

lemma fold_record:
  assumes "distinct (map fst cur)"
  shows "map_of (fst (fold (\<lambda>kv d. if skip (fst kv) then d
        else merge_at (fst kv) (child (Some (snd kv)) (map_of (fst d) (fst kv))) d) cur d)) k =
    (case map_of cur k of
       None \<Rightarrow> map_of (fst d) k
     | Some c \<Rightarrow> if skip k \<or> child (Some c) (map_of (fst d) k) = None then map_of (fst d) k
                else child (Some c) (map_of (fst d) k))"
  using assms
proof (induction cur arbitrary: d)
  case (Cons kv cur)
  obtain k0 c0 where kv: "kv = (k0, c0)" by fastforce
  have fresh: "map_of cur k0 = None"
    using Cons.prems kv by (force simp: map_of_eq_None_iff)
  let ?d = "if skip k0 then d else merge_at k0 (child (Some c0) (map_of (fst d) k0)) d"
  have d': "map_of (fst ?d) k' = (if k' = k0 \<and> \<not> skip k0 \<and> child (Some c0) (map_of (fst d) k0) \<noteq> None
      then child (Some c0) (map_of (fst d) k0) else map_of (fst d) k')" for k'
    by (auto simp: merge_at_get)
  have "distinct (map fst cur)" using Cons.prems by simp
  from Cons.IH [OF this, of ?d] show ?case
    unfolding fold_Cons comp_apply kv fst_conv snd_conv d'
    using fresh by (cases "k = k0") (auto split: option.splits)
qed simp

lemma draft_of_fold:
  "draft_of nxt d \<Longrightarrow> draft_of nxt (fold (\<lambda>kv d. if skip (fst kv) then d
        else merge_at (fst kv) (child (Some (snd kv)) (map_of (fst d) (fst kv))) d) cur d)"
  by (induction cur arbitrary: d) (simp_all add: draft_of_merge)

lemma preserveRecord_get:
  assumes "distinct (map fst cur)"
  shows "obj_get (preserveRecord child skip (Some (JObj cur)) nxt) k =
    (case map_of cur k of
       None \<Rightarrow> obj_get nxt k
     | Some c \<Rightarrow> if skip k \<or> child (Some c) (obj_get nxt k) = None then obj_get nxt k
                else child (Some c) (obj_get nxt k))"
  unfolding preserveRecord_def option.case json.case
    seal_get [OF draft_of_fold [OF draft_of_start]] fold_record [OF assms] fst_conv obj_get_entries
  by (rule refl)

lemma preserveRecord_keeps:
  assumes "opt_wf cur" and "opt_wf nxt" and "\<not> skip k"
    and "\<And>c e. obj_get cur k = Some c \<Longrightarrow> wf_json c \<Longrightarrow> opt_wf e \<Longrightarrow>
      cursor_at (child (Some c) e) q = max_cursor (cursor_at (Some c) q) (cursor_at e q)"
  shows "cursor_at (preserveRecord child skip cur nxt) (Key k # q) =
    max_cursor (cursor_at cur (Key k # q)) (cursor_at nxt (Key k # q))"
proof (cases "\<exists>kvs. cur = Some (JObj kvs)")
  case True
  then obtain kvs where kvs: "cur = Some (JObj kvs)" by blast
  then have d: "distinct (map fst kvs)" using assms(1) by simp
  show ?thesis
  proof (cases "map_of kvs k")
    case None
    then show ?thesis using kvs by (simp add: preserveRecord_get [OF d])
  next
    case (Some c)
    have "wf_json c" using assms(1) kvs Some wf_json_entry [of kvs k c] by simp
    from assms(4) [OF _ this opt_wf_get [OF assms(2)], of k] Some kvs
    have "cursor_at (child (Some c) (obj_get nxt k)) q = max_cursor (cursor_at (Some c) q) (cursor_at (obj_get nxt k) q)"
      by simp
    then show ?thesis
      using kvs Some assms(3)
      by (cases "child (Some c) (obj_get nxt k)") (auto simp: preserveRecord_get [OF d] simp del: cursor_at.simps(2) elim: max_cursor.elims)
  qed
next
  case False
  then have "obj_get cur k = None" and "preserveRecord child skip cur nxt = nxt"
    by (auto simp: preserveRecord_def obj_get_def split: option.splits json.splits)
  then show ?thesis by simp
qed

lemma preserveRecord_wf:
  assumes "opt_wf cur" and "opt_wf nxt"
    and "\<And>k c e. obj_get cur k = Some c \<Longrightarrow> wf_json c \<Longrightarrow> opt_wf e \<Longrightarrow> opt_wf (child (Some c) e)"
  shows "opt_wf (preserveRecord child skip cur nxt)"
proof (cases "\<exists>kvs. cur = Some (JObj kvs)")
  case True
  then obtain kvs where kvs: "cur = Some (JObj kvs)" by blast
  have step: "wf_json (JObj (fst (fold (\<lambda>kv d. if skip (fst kv) then d
        else merge_at (fst kv) (child (Some (snd kv)) (map_of (fst d) (fst kv))) d) ks d)))"
    if "wf_json (JObj (fst d))" and "set ks \<subseteq> set kvs" for ks d
    using that
  proof (induction ks arbitrary: d)
    case (Cons kv ks)
    obtain k c where kv: "kv = (k, c)" by fastforce
    have "(k, c) \<in> set kvs" using Cons.prems(2) kv by simp
    then have "map_of kvs k = Some c" using assms(1) kvs by simp
    moreover have "wf_json c" and "k \<noteq> proto_key"
      using calculation assms(1) kvs wf_json_entry [of kvs k c] wf_json_key [of kvs k c] by simp_all
    moreover have "opt_wf (map_of (fst d) k)" using Cons.prems(1) by (rule opt_wf_entry)
    ultimately have "wf_json (JObj (fst (merge_at k (child (Some c) (map_of (fst d) k)) d)))"
      using assms(3) kvs Cons.prems(1) by (intro wf_merge) (simp_all del: wf_json.simps)
    then show ?case using Cons kv by (simp del: wf_json.simps)
  qed simp
  have "wf_json (JObj (entries_or [] nxt))" using assms(2) by (rule wf_entries_or) simp
  with step [of "(entries_or [] nxt, \<not> is_object nxt)" kvs] show ?thesis
    unfolding preserveRecord_def kvs option.case json.case by (intro wf_seal [OF assms(2)]) simp
next
  case False
  then have "preserveRecord child skip cur nxt = nxt"
    by (auto simp: preserveRecord_def split: option.splits json.splits)
  then show ?thesis using assms(2) by simp
qed

lemma preserveRecord_write: "preserveRecord child skip cur (Some j) \<noteq> None"
  using seal_some [of j] by (auto simp: preserveRecord_def simp del: seal.simps not_None_eq split: option.splits json.splits)

text \<open>A record of a preserved position is a preserved position, one key deeper.\<close>

fun below :: "(path \<Rightarrow> bool) \<Rightarrow> (string \<Rightarrow> bool) \<Rightarrow> path \<Rightarrow> bool" where
  "below D skip (Key k # q) = (\<not> skip k \<and> D q)"
| "below D skip _ = False"

lemma below_iff: "below D skip q \<longleftrightarrow> (\<exists>k r. q = Key k # r \<and> \<not> skip k \<and> D r)"
  by (cases "(D, skip, q)" rule: below.cases) auto

locale record_preserver = cursor_preserver +
  fixes skip :: "string \<Rightarrow> bool"
begin

lemma record_keeps:
  "opt_wf cur \<Longrightarrow> opt_wf nxt \<Longrightarrow> below declared skip q \<Longrightarrow>
   cursor_at (preserveRecord preserve skip cur nxt) q = max_cursor (cursor_at cur q) (cursor_at nxt q)"
  by (cases "(declared, skip, q)" rule: below.cases)
    (simp_all del: cursor_at_key cursor_at.simps add: preserveRecord_keeps keeps)

end

sublocale record_preserver \<subseteq> rcd: cursor_preserver "preserveRecord preserve skip" "below declared skip"
  by unfold_locales
    (simp_all add: record_keeps preserveRecord_wf keeps_wf preserveRecord_write)

lemma record_preserver_rcd:
  assumes "cursor_preserver child D"
  shows "cursor_preserver (preserveRecord child skip) (below D skip)"
  using record_preserver.record_keeps [OF record_preserver.intro [OF assms]]
    cursor_preserver.keeps_wf [OF assms]
  by (intro cursor_preserver.intro) (simp_all add: preserveRecord_wf preserveRecord_write)

subsection \<open>Dynamic state\<close>

text \<open>The cursors below a dynamic port state: its \<open>seq\<close>, and those of the states nested in its member scopes.\<close>

fun state_cursor :: "path \<Rightarrow> bool" where
  "state_cursor [Key k] = (k = ''seq'')"
| "state_cursor (Key ms # Key m # Key c # rest) = (ms = ''memberState'' \<and> state_cursor rest)"
| "state_cursor _ = False"

abbreviation scope_cursor :: "path \<Rightarrow> bool" where
  "scope_cursor \<equiv> below state_cursor no_skip"

abbreviation member_cursor :: "path \<Rightarrow> bool" where
  "member_cursor \<equiv> below scope_cursor no_skip"

lemma no_skip [simp]: "no_skip k = False"
  by (simp add: no_skip_def)

lemma state_cursor_cases:
  assumes "state_cursor q"
  obtains "q = [Key ''seq'']" | m where "q = Key ''memberState'' # m" and "member_cursor m"
  using assms by (cases q rule: state_cursor.cases) auto

lemma preserveState_eq:
  "preserveStateCursors (Some (JObj cur)) nxt =
     (let d = clamp_at ''seq'' (map_of cur ''seq'') (entries_or [] nxt, \<not> is_object nxt)
      in seal nxt (merge_at ''memberState''
           (preserveMemberMap (map_of cur ''memberState'') (map_of (fst d) ''memberState'')) d))"
  by (simp add: preserveMemberMap_def preserveScope_def)

lemma preserveState_not_object: "\<not> is_object cur \<Longrightarrow> preserveStateCursors cur nxt = nxt"
  by (cases cur rule: is_object.cases) simp_all

declare preserveStateCursors.simps(1) [simp del]

text \<open>The shared shape of a preserver that clamps one number and merges one nested record.\<close>

lemma clamp_merge_get:
  assumes "kc \<noteq> km"
  shows "map_of (fst (merge_at km m (clamp_at kc c d))) k =
    (if k = km \<and> m \<noteq> None then m else map_of (fst (clamp_at kc c d)) k)"
  by (simp add: merge_at_get)

lemma preserveState_seq:
  "cursor_at (preserveStateCursors (Some (JObj cur)) nxt) [Key ''seq''] =
   max_cursor (cursor_at (Some (JObj cur)) [Key ''seq'']) (cursor_at nxt [Key ''seq''])"
proof -
  have "obj_get (preserveStateCursors (Some (JObj cur)) nxt) ''seq'' =
      map_of (fst (clamp_at ''seq'' (map_of cur ''seq'') (entries_or [] nxt, \<not> is_object nxt))) ''seq''"
    unfolding preserveState_eq Let_def
    by (subst seal_get [OF draft_of_merge [OF draft_of_clamp [OF draft_of_start]]]) (simp add: merge_at_get)
  then show ?thesis
    by (simp add: clamp_at_cursor obj_get_entries del: clamp_at.simps cursor_at.simps)
qed

lemma preserveState_members:
  "obj_get (preserveStateCursors (Some (JObj cur)) nxt) ''memberState'' =
   (let m = preserveMemberMap (map_of cur ''memberState'') (obj_get nxt ''memberState'')
    in if m = None then obj_get nxt ''memberState'' else m)"
  unfolding preserveState_eq Let_def
  by (subst seal_get [OF draft_of_merge [OF draft_of_clamp [OF draft_of_start]]])
    (simp add: merge_at_get clamp_at_get obj_get_entries del: clamp_at.simps)

lemma preserveState_laws:
  "opt_wf cur \<Longrightarrow> opt_wf nxt \<Longrightarrow>
     (state_cursor q \<longrightarrow>
       cursor_at (preserveStateCursors cur nxt) q = max_cursor (cursor_at cur q) (cursor_at nxt q)) \<and>
     opt_wf (preserveStateCursors cur nxt)"
proof (induction "case cur of None \<Rightarrow> 0 | Some j \<Rightarrow> size j" arbitrary: cur nxt q rule: less_induct)
  case less
  show ?case
  proof (cases "\<exists>kvs. cur = Some (JObj kvs)")
    case True
    then obtain kvs where kvs: "cur = Some (JObj kvs)" by blast
    let ?ms = "map_of kvs ''memberState''"
    have inner: "(state_cursor q \<longrightarrow> cursor_at (preserveStateCursors (Some c) e) q =
        max_cursor (cursor_at (Some c) q) (cursor_at e q)) \<and> opt_wf (preserveStateCursors (Some c) e)"
      if "obj_get ?ms m = Some s" "obj_get (Some s) k = Some c" "wf_json c" "opt_wf e" for m s k c e q
    proof (rule less.hyps)
      from that(1) obtain mm where mm: "?ms = Some (JObj mm)" "map_of mm m = Some s"
        by (auto simp: obj_get_def split: option.splits json.splits)
      from that(2) obtain sc where sc: "s = JObj sc" "map_of sc k = Some c"
        by (auto simp: obj_get_def split: json.splits)
      show "(case Some c of None \<Rightarrow> 0 | Some j \<Rightarrow> size j) < (case cur of None \<Rightarrow> 0 | Some j \<Rightarrow> size j)"
        using size_map_of_json [OF mm(1)] size_map_of_json [OF mm(2)] size_map_of_json [OF sc(2)] sc(1) kvs by simp
    qed (use that in simp_all)
    have ms_wf: "opt_wf ?ms" and nms_wf: "opt_wf (obj_get nxt ''memberState'')"
      using less.prems kvs opt_wf_entry opt_wf_get by auto
    have scope_wf: "opt_wf (preserveScope (Some s) e)" if "obj_get ?ms m = Some s" "wf_json s" "opt_wf e" for m s e
      unfolding preserveScope_def using that inner by (intro preserveRecord_wf) simp_all
    have mm_wf: "opt_wf (preserveMemberMap ?ms e)" if "opt_wf e" for e
      unfolding preserveMemberMap_def using that ms_wf scope_wf by (intro preserveRecord_wf)
    have mm_keeps: "cursor_at (preserveMemberMap ?ms e) m = max_cursor (cursor_at ?ms m) (cursor_at e m)"
      if "member_cursor m" "opt_wf e" for m e
    proof -
      from that(1) obtain a b r where m: "m = Key a # Key b # r" and r: "state_cursor r"
        by (auto simp: below_iff)
      have "cursor_at (preserveScope (Some s) e') (Key b # r) = max_cursor (cursor_at (Some s) (Key b # r)) (cursor_at e' (Key b # r))"
        if "obj_get ?ms a = Some s" "wf_json s" "opt_wf e'" for s e'
        unfolding preserveScope_def using that inner r by (intro preserveRecord_keeps) simp_all
      then show ?thesis
        unfolding m preserveMemberMap_def using ms_wf that(2) by (intro preserveRecord_keeps) simp_all
    qed
    have "cursor_at (preserveStateCursors cur nxt) q = max_cursor (cursor_at cur q) (cursor_at nxt q)" if "state_cursor q"
      using that
    proof (cases rule: state_cursor_cases)
      case 1
      then show ?thesis unfolding kvs by (simp only: preserveState_seq)
    next
      case (2 m)
      then show ?thesis
        unfolding kvs 2 cursor_at_key preserveState_members Let_def
        using mm_keeps [OF 2(2) nms_wf] by (auto simp del: cursor_at.simps(2))
    qed
    moreover have "opt_wf (preserveStateCursors cur nxt)"
    proof -
      let ?d = "clamp_at ''seq'' (map_of kvs ''seq'') (entries_or [] nxt, \<not> is_object nxt)"
      have "wf_json (JObj (entries_or [] nxt))" using less.prems(2) by (rule wf_entries_or) simp
      then have d: "wf_json (JObj (fst ?d))" by (intro wf_clamp) (simp_all add: proto_key_def)
      show ?thesis
        unfolding kvs preserveState_eq Let_def
        by (intro wf_seal wf_merge d less.prems(2) mm_wf opt_wf_entry) (simp add: proto_key_def)
    qed
    ultimately show ?thesis by blast
  next
    case False
    then have no: "\<not> is_object cur" by (simp add: is_object_iff)
    have "cursor_at cur q = None" if "state_cursor q"
      using that obj_get_not_object [OF no] by (cases rule: state_cursor_cases) simp_all
    then show ?thesis using preserveState_not_object [OF no] less.prems by simp
  qed
qed

lemma preserveState_write: "preserveStateCursors cur (Some j) \<noteq> None"
  using seal_some [of j]
  by (cases cur rule: is_object.cases) (simp_all add: preserveState_eq Let_def del: seal.simps not_None_eq)

interpretation st: record_preserver preserveStateCursors state_cursor no_skip
  by unfold_locales (use preserveState_laws preserveState_write in auto)

interpretation sc: record_preserver preserveScope scope_cursor no_skip
  unfolding preserveScope_def record_preserver_def by (rule st.rcd.cursor_preserver_axioms)

interpretation mm: record_preserver preserveMemberMap member_cursor no_skip
  unfolding preserveMemberMap_def record_preserver_def by (rule sc.rcd.cursor_preserver_axioms)

lemma preservePortMap_preserves: "cursor_preserver preservePortMap scope_cursor"
  unfolding preservePortMap_def by (rule st.rcd.cursor_preserver_axioms)

text \<open>The cursors below each position of a dynamic-state subtree.\<close>

fun dyn_cursor :: "dyn_pos \<Rightarrow> path \<Rightarrow> bool" where
  "dyn_cursor PortMap = scope_cursor"
| "dyn_cursor DynState = state_cursor"
| "dyn_cursor MemberMap = member_cursor"
| "dyn_cursor Scope = scope_cursor"
| "dyn_cursor DynOutside = (\<lambda>q. False)"

lemma preserverAt_preserves: "cursor_preserver (preserverAt pos) (dyn_cursor pos)"
proof (cases pos)
  case DynOutside
  then show ?thesis by unfold_locales simp_all
qed (simp_all add: preservePortMap_preserves st.cursor_preserver_axioms mm.cursor_preserver_axioms
    sc.cursor_preserver_axioms)

subsection \<open>Graph views\<close>

definition group_cursor :: "path \<Rightarrow> bool" where
  "group_cursor q \<longleftrightarrow> q = [Key ''groupSeq'']"

lemma cursor_at_nil: "cursor_at v [] = (case num_of v of None \<Rightarrow> None | Some r \<Rightarrow> if r > 0 then Some r else None)"
  by (cases v) simp_all

interpretation gv: cursor_preserver preserveGraphViewCursor group_cursor
proof
  fix cur nxt :: "json option" and q
  assume wf: "opt_wf cur" "opt_wf nxt"
  show "opt_wf (preserveGraphViewCursor cur nxt)"
  proof -
    have "wf_json (JObj (AList.update ''groupSeq'' (JNum r) (entries_or [(''nodes'', JObj [])] nxt)))" for r
      using wf_entries_or [OF wf(2), of "[(''nodes'', JObj [])]"]
      by (intro wf_json_update) (simp_all add: proto_key_def)
    then show ?thesis
      using wf(2) by (auto simp: preserveGraphViewCursor_def Let_def simp del: wf_json.simps split: option.splits json.splits)
  qed
  assume "group_cursor q"
  then have q: "q = [Key ''groupSeq'']" by (simp add: group_cursor_def)
  show "cursor_at (preserveGraphViewCursor cur nxt) q = max_cursor (cursor_at cur q) (cursor_at nxt q)"
  proof (cases "num_of (obj_get cur ''groupSeq'')")
    case None
    then have "preserveGraphViewCursor cur nxt = nxt"
      by (auto simp: preserveGraphViewCursor_def obj_get_def split: option.splits json.splits)
    then show ?thesis using None by (simp add: q cursor_at_nil)
  next
    case (Some c)
    then obtain kvs where kvs: "cur = Some (JObj kvs)" "num_of (map_of kvs ''groupSeq'') = Some c"
      by (auto simp: obj_get_def split: option.splits json.splits)
    have base: "num_of (map_of (entries_or [(''nodes'', JObj [])] nxt) ''groupSeq'') = num_of (obj_get nxt ''groupSeq'')"
      by (auto simp: entries_or_def obj_get_def split: option.splits json.splits)
    show ?thesis
      unfolding q cursor_at_key cursor_at_nil
      using Some base by (auto simp: preserveGraphViewCursor_def kvs Let_def split: option.splits)
  qed
next
  fix cur and j :: json
  show "preserveGraphViewCursor cur (Some j) \<noteq> None"
    by (auto simp: preserveGraphViewCursor_def Let_def split: option.splits json.splits)
qed

lemma makePreserveViewGraphsMap_preserves:
  "cursor_preserver (makePreserveViewGraphsMap gs) (below group_cursor (\<lambda>k. k \<notin> set gs))"
  unfolding makePreserveViewGraphsMap_def
  by (rule record_preserver_rcd [OF gv.cursor_preserver_axioms])

subsection \<open>Actor cursors and occurrence topologies\<close>

definition number_cursor :: "path \<Rightarrow> bool" where
  "number_cursor q \<longleftrightarrow> q = []"

interpretation nc: record_preserver preserveNumericCursor number_cursor no_skip
  by unfold_locales
    (auto simp: number_cursor_def cursor_at_nil preserveNumericCursor_def num_of_Some split: option.splits)

lemma preserveActorCursorsMap_preserves:
  "cursor_preserver preserveActorCursorsMap (below number_cursor no_skip)"
  unfolding preserveActorCursorsMap_def by (rule nc.rcd.cursor_preserver_axioms)

interpretation ac: cursor_preserver preserveActorCursorsMap "below number_cursor no_skip"
  by (rule preserveActorCursorsMap_preserves)

definition topology_cursor :: "path \<Rightarrow> bool" where
  "topology_cursor q \<longleftrightarrow> q = [Key ''nextOrdinal''] \<or> (\<exists>a. q = [Key ''actorCursors'', Key a])"

lemma topology_skeleton_get:
  "map_of (topology_skeleton cur) ''nextOrdinal'' = Some (JNum 0)"
  "map_of (topology_skeleton cur) ''actorCursors'' = None"
  by (auto simp: topology_skeleton_def split: option.splits)

lemma topology_skeleton_wf:
  assumes "wf_json (JObj cur)"
  shows "wf_json (JObj (topology_skeleton cur))"
  using wf_json_entry [OF assms]
  by (auto simp: topology_skeleton_def proto_key_def split: option.splits)

lemma topology_base_get:
  "cursor_at (map_of (entries_or (topology_skeleton cur) nxt) ''nextOrdinal'') [] = cursor_at (obj_get nxt ''nextOrdinal'') []"
  "map_of (entries_or (topology_skeleton cur) nxt) ''actorCursors'' = obj_get nxt ''actorCursors''"
  by (auto simp: entries_or_def topology_skeleton_get cursor_at_nil obj_get_def split: option.splits json.splits)

lemma topology_draft_get:
  "cursor_at (map_of (fst (topology_draft cur nxt)) ''nextOrdinal'') [] =
     max_cursor (cursor_at (map_of cur ''nextOrdinal'') []) (cursor_at (obj_get nxt ''nextOrdinal'') [])"
  "cursor_at (map_of (fst (topology_draft cur nxt)) ''actorCursors'') q =
     (let m = preserveActorCursorsMap (map_of cur ''actorCursors'') (obj_get nxt ''actorCursors'')
      in cursor_at (if m = None then obj_get nxt ''actorCursors'' else m) q)"
  by (simp_all add: topology_draft_def Let_def merge_at_get clamp_at_cursor topology_base_get
      del: clamp_at.simps cursor_at.simps)
    (auto simp add: clamp_at_get topology_base_get simp del: clamp_at.simps)

lemma topology_draft_wf:
  assumes "opt_wf nxt" and "wf_json (JObj cur)"
  shows "wf_json (JObj (fst (topology_draft cur nxt)))"
proof -
  let ?d = "clamp_at ''nextOrdinal'' (map_of cur ''nextOrdinal'') (entries_or (topology_skeleton cur) nxt, \<not> is_object nxt)"
  have "wf_json (JObj (entries_or (topology_skeleton cur) nxt))"
    using assms topology_skeleton_wf by (intro wf_entries_or)
  then have d: "wf_json (JObj (fst ?d))" by (intro wf_clamp) (simp_all add: proto_key_def)
  show ?thesis
    unfolding topology_draft_def Let_def
    by (intro wf_merge d ac.keeps_wf opt_wf_entry assms(2)) (simp add: proto_key_def)
qed

lemma no_topology_cursor:
  assumes "\<not> positive_num (map_of cur ''nextOrdinal'')"
    and "\<not> list_ex (\<lambda>kv. positive_num (Some (snd kv))) (entries_or [] (map_of cur ''actorCursors''))"
    and "topology_cursor q"
  shows "cursor_at (Some (JObj cur)) q = None"
proof -
  have pos: "cursor_at v [] = None" if "\<not> positive_num v" for v
    using that by (auto simp: cursor_at_nil positive_num_def split: option.splits)
  have "\<not> positive_num (obj_get (map_of cur ''actorCursors'') a)" for a
  proof (cases "obj_get (map_of cur ''actorCursors'') a")
    case (Some c)
    then have "(a, c) \<in> set (entries_or [] (map_of cur ''actorCursors''))"
      using map_of_in_set [of "entries_or [] (map_of cur ''actorCursors'')" a c] by (simp add: obj_get_entries)
    then show ?thesis using assms(2) Some by (force simp: list_ex_iff)
  qed (simp add: positive_num_def)
  then show ?thesis
    using assms(1,3) pos unfolding topology_cursor_def by (auto simp del: cursor_at.simps)
qed

interpretation tp: cursor_preserver preserveOccurrenceTopologyCursors topology_cursor
proof
  fix cur nxt :: "json option" and q
  assume wf: "opt_wf cur" "opt_wf nxt"
  show "opt_wf (preserveOccurrenceTopologyCursors cur nxt)"
    using wf topology_draft_wf
    by (auto simp: preserveOccurrenceTopologyCursors_def Let_def simp del: wf_json.simps split: option.splits json.splits)
  assume q: "topology_cursor q"
  show "cursor_at (preserveOccurrenceTopologyCursors cur nxt) q = max_cursor (cursor_at cur q) (cursor_at nxt q)"
  proof (cases "\<exists>kvs. cur = Some (JObj kvs)")
    case True
    then obtain kvs where kvs: "cur = Some (JObj kvs)" by blast
    have acs: "cursor_at (let m = preserveActorCursorsMap (map_of kvs ''actorCursors'') (obj_get nxt ''actorCursors'')
        in if m = None then obj_get nxt ''actorCursors'' else m) [Key a] =
      max_cursor (cursor_at (map_of kvs ''actorCursors'') [Key a]) (cursor_at (obj_get nxt ''actorCursors'') [Key a])" for a
      using ac.keeps [of "map_of kvs ''actorCursors''" "obj_get nxt ''actorCursors''" "[Key a]"]
        wf kvs opt_wf_entry opt_wf_get
      by (cases "preserveActorCursorsMap (map_of kvs ''actorCursors'') (obj_get nxt ''actorCursors'')")
        (simp_all add: Let_def number_cursor_def del: cursor_at_key cursor_at.simps(2))
    have draft: "cursor_at (Some (JObj (fst (topology_draft kvs nxt)))) q = max_cursor (cursor_at cur q) (cursor_at nxt q)"
    proof -
      have "cursor_at (map_of (fst (topology_draft kvs nxt)) ''actorCursors'') [Key a] =
        max_cursor (cursor_at (map_of kvs ''actorCursors'') [Key a]) (cursor_at (obj_get nxt ''actorCursors'') [Key a])" for a
        using acs [of a] unfolding topology_draft_get(2) Let_def .
      then show ?thesis
        using q unfolding topology_cursor_def
        by (auto simp: topology_draft_get(1) kvs simp del: cursor_at.simps(2))
    qed
    have same: "nxt = Some (JObj (fst (topology_draft kvs nxt)))" if "\<not> snd (topology_draft kvs nxt)"
      using that draft_of_merge [OF draft_of_clamp [OF draft_of_start]]
      by (auto simp: topology_draft_def Let_def draft_of_def)
    show ?thesis
      using draft same no_topology_cursor [of kvs q] q
      by (auto simp: preserveOccurrenceTopologyCursors_def kvs Let_def simp del: cursor_at.simps(2))
  next
    case False
    then have "preserveOccurrenceTopologyCursors cur nxt = nxt"
      by (auto simp: preserveOccurrenceTopologyCursors_def split: option.splits json.splits)
    moreover have "cursor_at cur q = None"
      using False q obj_get_not_object [of cur] by (auto simp: topology_cursor_def is_object_iff)
    ultimately show ?thesis by simp
  qed
next
  fix cur and j :: json
  show "preserveOccurrenceTopologyCursors cur (Some j) \<noteq> None"
    by (auto simp: preserveOccurrenceTopologyCursors_def Let_def split: option.splits json.splits)
qed

lemma makePreserveOccurrenceTopologiesMap_preserves:
  "cursor_preserver (makePreserveOccurrenceTopologiesMap ks) (below topology_cursor (\<lambda>k. k \<notin> set ks))"
  unfolding makePreserveOccurrenceTopologiesMap_def
  by (rule record_preserver_rcd [OF tp.cursor_preserver_axioms])

section \<open>Properties\<close>

text \<open>C30: at every position of a dynamic-state subtree, rewriting a replayed value by the preserver of the
  position keeps every declared sequence counter (nested member scopes included) at the larger of its
  current and its replayed value, and nothing that was well formed becomes malformed.\<close>

theorem dynamic_preserver_keeps_max:
  assumes "opt_wf cur" and "opt_wf nxt"
  shows "(dyn_cursor pos q \<longrightarrow>
      cursor_at (preserverAt pos cur nxt) q = max_cursor (cursor_at cur q) (cursor_at nxt q)) \<and>
    opt_wf (preserverAt pos cur nxt)"
  using cursor_preserver.keeps [OF preserverAt_preserves assms] cursor_preserver.keeps_wf [OF preserverAt_preserves assms]
  by blast

definition dyn_demo_current :: json where
  "dyn_demo_current = JObj [(''p'', JObj [(''seq'', JNum 7), (''members'', JArr [JStr ''m6'']),
     (''memberState'', JObj [(''m6'', JObj [(''c'', JObj [(''seq'', JNum 2)])])])])]"

theorem dynamic_preserver_keeps_max_witness:
  "cursor_at (preserverAt PortMap (Some dyn_demo_current) None) [Key ''p'', Key ''seq''] = Some 7 \<and>
   cursor_at (preserverAt PortMap (Some dyn_demo_current) None)
     [Key ''p'', Key ''memberState'', Key ''m6'', Key ''c'', Key ''seq''] = Some 2"
proof -
  have wf: "opt_wf (Some dyn_demo_current)" by (simp add: dyn_demo_current_def proto_key_def)
  note * = dynamic_preserver_keeps_max [OF wf opt_wf_simps(1), of PortMap]
  show ?thesis
    using * [of "[Key ''p'', Key ''seq'']"] * [of "[Key ''p'', Key ''memberState'', Key ''m6'', Key ''c'', Key ''seq'']"]
    by (simp add: below_iff dyn_demo_current_def del: preserverAt.simps)
qed

text \<open>removing or replacing the occurrence topologies never gives an id back. For every occurrence
  whose owner survives, the merged map holds the larger of the current and the replayed link cursor, both
  the solo one and every actor's.\<close>

theorem topologies_preserver_keeps_max:
  assumes "opt_wf cur" and "opt_wf nxt" and "k \<in> set surviving"
    and "q = [Key ''nextOrdinal''] \<or> q = [Key ''actorCursors'', Key a]"
  shows "cursor_at (makePreserveOccurrenceTopologiesMap surviving cur nxt) (Key k # q) =
    max_cursor (cursor_at cur (Key k # q)) (cursor_at nxt (Key k # q))"
proof -
  have "below topology_cursor (\<lambda>k. k \<notin> set surviving) (Key k # q)"
    using assms(3,4) by (auto simp: topology_cursor_def)
  from cursor_preserver.keeps [OF makePreserveOccurrenceTopologiesMap_preserves assms(1,2) this] show ?thesis .
qed

theorem topologies_preserver_keeps_max_witness:
  "cursor_at (makePreserveOccurrenceTopologiesMap [''n1'']
     (Some (JObj [(''n1'', JObj [(''links'', JObj [(''l4'', JNull)]), (''nextOrdinal'', JNum 5)])])) None)
     [Key ''n1'', Key ''nextOrdinal''] = Some 5"
proof -
  let ?cur = "Some (JObj [(''n1'', JObj [(''links'', JObj [(''l4'', JNull)]), (''nextOrdinal'', JNum 5)])])"
  have "opt_wf ?cur" by (simp add: proto_key_def)
  from topologies_preserver_keeps_max [OF this opt_wf_simps(1), of "''n1''" "[''n1'']" "[Key ''nextOrdinal'']"]
  show ?thesis by simp
qed

end
