(* ===== verification/Replay.thy ===== *)
theory Replay
  imports Cursors Ids "HOL-Library.Sublist"
begin

text \<open>
  Replay of recorded ops: \<open>replayHistoryOps\<close> of \<open>packages/core/src/commands/store.ts\<close>.

  Undo and redo replay patches. The replay first works out which graphs and which occurrence owners
  survive the batch, then takes the ops one by one: a direct cursor write is dropped or clamped, a write
  to a subtree that holds cursors goes through the preserver of its position, and every other op is
  replayed as recorded. With \<open>requireRecordedValues\<close> it stops at the first op whose recorded value the
  document no longer holds.

  The document is a JSON value. \<open>MalformedDocument\<close> is the \<open>TypeError\<close> of reading through a field
  that the document type requires and the value lacks.
\<close>

section \<open>Survivors\<close>

datatype replay_error =
    ReplayPatch patch_error
  | ReplayKey key_error
  | MalformedDocument

definition keys_at :: "json \<Rightarrow> string \<Rightarrow> string list" where
  "keys_at doc k = map fst (entries_or [] (obj_get (Some doc) k))"

fun op_value :: "patch_op \<Rightarrow> json option" where
  "op_value (OpAdd p v) = Some v"
| "op_value (OpRemove p old) = None"
| "op_value (OpReplace p v old) = Some v"

fun op_old :: "patch_op \<Rightarrow> json option" where
  "op_old (OpAdd p v) = None"
| "op_old (OpRemove p old) = Some old"
| "op_old (OpReplace p v old) = Some old"

definition track_graphs :: "string list \<Rightarrow> patch_op \<Rightarrow> string list" where
  "track_graphs gs op =
     (case op_path op of
        [Key r] \<Rightarrow> if r = ''graphs'' then map fst (entries_or [] (op_value op)) else gs
      | [Key r, Key g] \<Rightarrow>
          if r = ''graphs'' then (if op_value op = None then removeAll g gs else g # gs) else gs
      | _ \<Rightarrow> gs)"

definition survivingGraphs :: "json \<Rightarrow> patch_op list \<Rightarrow> string list" where
  "survivingGraphs doc ops = foldl track_graphs (keys_at doc ''graphs'') ops"

definition is_semantic_op :: "patch_op \<Rightarrow> bool" where
  "is_semantic_op op \<longleftrightarrow>
     (let p = op_path op in
      key_at p 0 ''graphs'' \<and>
      (length p \<le> 2 \<or> key_at p 2 ''nodes'' \<and> (length p \<le> 4 \<or> key_at p 4 ''type'')))"

definition semanticFinal :: "json \<Rightarrow> patch_op list \<Rightarrow> patch_error + json" where
  "semanticFinal doc ops = applyOwnedOps doc (filter is_semantic_op ops)"

definition subgraphDefIdOf :: "string \<Rightarrow> string option" where
  "subgraphDefIdOf t = (case t of [] \<Rightarrow> None | c # rest \<Rightarrow> if c = CHR ''#'' then Some rest else None)"

definition need :: "json option \<Rightarrow> replay_error + json" where
  "need v = (case v of None \<Rightarrow> Inl MalformedDocument | Some j \<Rightarrow> Inr j)"

text \<open>The walk from the root graph down the owner's instance path.\<close>

fun owner_walk :: "json \<Rightarrow> json option \<Rightarrow> string list \<Rightarrow> replay_error + bool" where
  "owner_walk graphs graph [] = Inr (graph \<noteq> None)"
| "owner_walk graphs graph (i # rest) =
     (case graph of
        None \<Rightarrow> Inr False
      | Some g \<Rightarrow>
          rbind (need (obj_get (Some g) ''nodes'')) (\<lambda>nodes.
            case obj_get (Some nodes) i of
              None \<Rightarrow> Inr False
            | Some node \<Rightarrow>
                (case obj_get (Some node) ''type'' of
                   Some (JStr t) \<Rightarrow>
                     (case subgraphDefIdOf t of
                        None \<Rightarrow> Inr False
                      | Some body \<Rightarrow> owner_walk graphs (obj_get (Some graphs) body) rest)
                 | _ \<Rightarrow> Inl MalformedDocument)))"

definition ownerSurvives :: "json \<Rightarrow> string \<Rightarrow> replay_error + bool" where
  "ownerSurvives final key =
     (case parseOccurrenceKey key of
        Inl e \<Rightarrow> Inl (ReplayKey e)
      | Inr owner \<Rightarrow>
          rbind (need (obj_get (Some final) ''graphs'')) (\<lambda>graphs.
            let graph = (case obj_get (Some final) ''root'' of
                           Some (JStr r) \<Rightarrow> obj_get (Some graphs) r | _ \<Rightarrow> None)
            in owner_walk graphs graph (oc_path owner @ [oc_node owner])))"

fun filterR :: "('a \<Rightarrow> 'e + bool) \<Rightarrow> 'a list \<Rightarrow> 'e + 'a list" where
  "filterR f [] = Inr []"
| "filterR f (x # xs) =
     rbind (f x) (\<lambda>b. map_result (\<lambda>ys. if b then x # ys else ys) (filterR f xs))"

definition survivingOccurrences :: "json \<Rightarrow> json \<Rightarrow> replay_error + string list" where
  "survivingOccurrences doc final =
     filterR (ownerSurvives final)
       (remdups (keys_at doc ''occurrenceTopologies'' @ keys_at final ''occurrenceTopologies''))"

section \<open>One op\<close>

datatype site = NumericCursor | Subtree preserver | Verbatim

fun is_number_op :: "patch_op \<Rightarrow> bool" where
  "is_number_op (OpAdd p v) = is_number (Some v)"
| "is_number_op (OpRemove p old) = is_number (Some old)"
| "is_number_op (OpReplace p v old) = is_number (Some v)"

definition isNumericCursorOp :: "patch_op \<Rightarrow> bool" where
  "isNumericCursorOp op \<longleftrightarrow> isAllocationCursor (op_path op) \<and> is_number_op op"

definition key_in :: "path \<Rightarrow> nat \<Rightarrow> string list \<Rightarrow> bool" where
  "key_in p i ks \<longleftrightarrow> (case seg_at p i of Some (Key k) \<Rightarrow> k \<in> set ks | _ \<Rightarrow> False)"

definition view_site :: "string list \<Rightarrow> path \<Rightarrow> view_pos" where
  "view_site graphs p =
     (if viewGraphShapePosition p = GraphView \<and> \<not> key_in p 2 graphs then ViewOutside
      else viewGraphShapePosition p)"

definition occ_site :: "string list \<Rightarrow> path \<Rightarrow> occ_pos" where
  "occ_site occs p =
     (if occurrenceTopologyShapePosition p = OccTopology \<and> \<not> key_in p 1 occs then OccOutside
      else occurrenceTopologyShapePosition p)"

definition site_of :: "string list \<Rightarrow> string list \<Rightarrow> patch_op \<Rightarrow> site" where
  "site_of graphs occs op =
     (let p = op_path op in
      if isNumericCursorOp op then NumericCursor
      else if dynamicShapePosition p \<noteq> DynOutside then Subtree (preserverAt (dynamicShapePosition p))
      else (case view_site graphs p of
          GraphView \<Rightarrow> Subtree preserveGraphViewCursor
        | GraphsMap \<Rightarrow> Subtree (makePreserveViewGraphsMap graphs)
        | ViewOutside \<Rightarrow>
            (case occ_site occs p of
               OccTopology \<Rightarrow> Subtree preserveOccurrenceTopologyCursors
             | OccMap \<Rightarrow> Subtree (makePreserveOccurrenceTopologiesMap occs)
             | OccOutside \<Rightarrow> if isActorCursorsMap p then Subtree preserveActorCursorsMap else Verbatim)))"

datatype verdict = Skip | Apply patch_op | Stale

definition numeric_verdict :: "json option \<Rightarrow> patch_op \<Rightarrow> verdict" where
  "numeric_verdict current op =
     (case op_value op of
        None \<Rightarrow> Skip
      | Some v \<Rightarrow>
          (case (num_of current, num_of (Some v)) of
             (Some c, Some n) \<Rightarrow> if n \<le> c then Skip else Apply (OpReplace (op_path op) v (JNum c))
           | _ \<Rightarrow> Apply op))"

text \<open>The precondition a shared session asks for, at a preserved position and elsewhere.\<close>

definition recorded_modulo_cursors :: "preserver \<Rightarrow> json option \<Rightarrow> patch_op \<Rightarrow> bool" where
  "recorded_modulo_cursors pres current op \<longleftrightarrow>
     (let allowed = pres current (op_old op) in
      case current of
        None \<Rightarrow> allowed = None
      | Some c \<Rightarrow> (case allowed of None \<Rightarrow> False | Some a \<Rightarrow> jsonSameValue c a))"

definition recorded_exactly :: "json option \<Rightarrow> patch_op \<Rightarrow> bool" where
  "recorded_exactly current op \<longleftrightarrow>
     (case op_old op of
        None \<Rightarrow> current = None
      | Some old \<Rightarrow> (case current of None \<Rightarrow> False | Some c \<Rightarrow> jsonSameValue c old))"

fun is_add :: "patch_op \<Rightarrow> bool" where
  "is_add (OpAdd p v) = True"
| "is_add _ = False"

fun is_replace :: "patch_op \<Rightarrow> bool" where
  "is_replace (OpReplace p v old) = True"
| "is_replace _ = False"

definition rewritten :: "preserver \<Rightarrow> json option \<Rightarrow> patch_op \<Rightarrow> patch_op" where
  "rewritten pres current op =
     (case op_value op of
        None \<Rightarrow>
          (case (pres current None, current) of
             (Some kept, Some c) \<Rightarrow> OpReplace (op_path op) kept c
           | _ \<Rightarrow> op)
      | Some v \<Rightarrow>
          (let clamped = (case pres current (Some v) of Some w \<Rightarrow> w | None \<Rightarrow> v) in
           case current of
             None \<Rightarrow> if clamped \<noteq> v \<or> \<not> is_add op then OpAdd (op_path op) clamped else op
           | Some c \<Rightarrow>
               if clamped \<noteq> v \<or> \<not> is_replace op
               then OpReplace (op_path op) clamped c else op))"

definition verdict_of :: "bool \<Rightarrow> site \<Rightarrow> json option \<Rightarrow> patch_op \<Rightarrow> verdict" where
  "verdict_of strict st current op =
     (case st of
        NumericCursor \<Rightarrow> numeric_verdict current op
      | Subtree pres \<Rightarrow>
          if strict \<and> \<not> recorded_modulo_cursors pres current op then Stale
          else Apply (rewritten pres current op)
      | Verbatim \<Rightarrow> if strict \<and> \<not> recorded_exactly current op then Stale else Apply op)"

section \<open>The replay\<close>

record replay =
  rp_doc :: json
  rp_applied :: "patch_op list"
  rp_stale :: "patch_op option"

fun replay_loop ::
  "bool \<Rightarrow> (patch_op \<Rightarrow> site) \<Rightarrow> json \<Rightarrow> patch_op list \<Rightarrow> patch_op list \<Rightarrow> patch_error + replay" where
  "replay_loop strict sites cur applied [] =
     Inr \<lparr>rp_doc = cur, rp_applied = applied, rp_stale = None\<rparr>"
| "replay_loop strict sites cur applied (op # ops) =
     (case verdict_of strict (sites op) (getAtPath cur (op_path op)) op of
        Skip \<Rightarrow> replay_loop strict sites cur applied ops
      | Stale \<Rightarrow> Inr \<lparr>rp_doc = cur, rp_applied = applied, rp_stale = Some op\<rparr>
      | Apply eff \<Rightarrow>
          rbind (applyOwnedOps cur [eff]) (\<lambda>cur'. replay_loop strict sites cur' (applied @ [eff]) ops))"

definition replayHistoryOps :: "json \<Rightarrow> patch_op list \<Rightarrow> bool \<Rightarrow> replay_error + replay" where
  "replayHistoryOps doc ops strict =
     (case semanticFinal doc ops of
        Inl e \<Rightarrow> Inl (ReplayPatch e)
      | Inr final \<Rightarrow>
          rbind (survivingOccurrences doc final) (\<lambda>occs.
            case replay_loop strict (site_of (survivingGraphs doc ops) occs) doc [] ops of
              Inl e \<Rightarrow> Inl (ReplayPatch e)
            | Inr r \<Rightarrow> Inr r))"

section \<open>What a site does\<close>

text \<open>Every preserver that the replay picks honours the cursors declared below the path of the op.\<close>

definition declared_below :: "string list \<Rightarrow> string list \<Rightarrow> path \<Rightarrow> path \<Rightarrow> bool" where
  "declared_below graphs occs p =
     (if dynamicShapePosition p \<noteq> DynOutside then dyn_cursor (dynamicShapePosition p)
      else (case view_site graphs p of
          GraphView \<Rightarrow> group_cursor
        | GraphsMap \<Rightarrow> below group_cursor (\<lambda>k. k \<notin> set graphs)
        | ViewOutside \<Rightarrow>
            (case occ_site occs p of
               OccTopology \<Rightarrow> topology_cursor
             | OccMap \<Rightarrow> below topology_cursor (\<lambda>k. k \<notin> set occs)
             | OccOutside \<Rightarrow> if isActorCursorsMap p then below number_cursor no_skip else (\<lambda>q. False))))"

lemma site_preserves:
  assumes "\<not> isNumericCursorOp op" and "declared_below graphs occs (op_path op) q"
  shows "\<exists>pres. site_of graphs occs op = Subtree pres \<and> cursor_preserver pres (declared_below graphs occs (op_path op))"
  using assms
  by (auto simp: site_of_def declared_below_def Let_def preserverAt_preserves gv.cursor_preserver_axioms
      makePreserveViewGraphsMap_preserves tp.cursor_preserver_axioms
      makePreserveOccurrenceTopologiesMap_preserves ac.cursor_preserver_axioms
      split: view_pos.split occ_pos.split if_splits)

lemma site_subtree_preserves:
  assumes "site_of graphs occs op = Subtree pres"
  shows "cursor_preserver pres (declared_below graphs occs (op_path op))"
  using assms
  by (auto simp: site_of_def declared_below_def Let_def preserverAt_preserves gv.cursor_preserver_axioms
      makePreserveViewGraphsMap_preserves tp.cursor_preserver_axioms
      makePreserveOccurrenceTopologiesMap_preserves ac.cursor_preserver_axioms
      split: view_pos.splits occ_pos.splits if_splits)

lemma rewritten_path [simp]: "op_path (rewritten pres current op) = op_path op"
  by (auto simp: rewritten_def Let_def split: option.splits)

lemma numeric_verdict_path: "numeric_verdict current op = Apply eff \<Longrightarrow> op_path eff = op_path op"
  by (auto simp: numeric_verdict_def split: option.splits if_splits)

lemma verdict_path: "verdict_of strict st current op = Apply eff \<Longrightarrow> op_path eff = op_path op"
  by (auto simp: verdict_of_def numeric_verdict_path split: site.splits if_splits)

lemma op_value_wf: "wf_op op \<Longrightarrow> op_value op = Some v \<Longrightarrow> wf_json v"
  by (cases op) auto

lemma rewritten_wf:
  assumes "cursor_preserver pres D" and "opt_wf current" and "wf_op op"
  shows "wf_op (rewritten pres current op)"
proof (cases "op_value op")
  case None
  then show ?thesis
    using assms(2,3) cursor_preserver.keeps_wf [OF assms(1,2), of None]
    by (auto simp: rewritten_def opt_wf_def split: option.splits)
next
  case (Some v)
  then show ?thesis
    using assms(2,3) cursor_preserver.keeps_wf [OF assms(1,2), of "Some v"] op_value_wf [OF assms(3) Some]
    by (auto simp: rewritten_def opt_wf_def Let_def split: option.splits)
qed

lemma numeric_verdict_wf: "numeric_verdict current op = Apply eff \<Longrightarrow> wf_op op \<Longrightarrow> wf_op eff"
  using op_value_wf by (auto simp: numeric_verdict_def split: option.splits if_splits)

lemma verdict_wf:
  assumes "verdict_of strict st current op = Apply eff" and "opt_wf current" and "wf_op op"
    and "\<And>pres. st = Subtree pres \<Longrightarrow> \<exists>D. cursor_preserver pres D"
  shows "wf_op eff"
proof (cases st)
  case NumericCursor
  then show ?thesis using assms numeric_verdict_wf by (simp add: verdict_of_def)
next
  case (Subtree pres)
  then show ?thesis
    using assms rewritten_wf by (auto simp: verdict_of_def split: if_splits)
next
  case Verbatim
  then show ?thesis using assms by (auto simp: verdict_of_def split: if_splits)
qed

text \<open>What a rewritten op leaves at its path.\<close>

lemma rewritten_value:
  assumes "cursor_preserver pres D" and "pres (Some s) (op_value op) = Some w"
  shows "\<exists>p old. rewritten pres (Some s) op = OpReplace p w old"
proof (cases "op_value op")
  case None
  then show ?thesis using assms(2) by (simp add: rewritten_def)
next
  case (Some v)
  then show ?thesis using assms(2) by (cases op) (auto simp: rewritten_def Let_def)
qed

section \<open>Cursors across one op\<close>

definition all_keys :: "path \<Rightarrow> bool" where
  "all_keys p \<longleftrightarrow> (\<forall>s \<in> set p. \<exists>k. s = Key k)"

lemma cursor_at_append: "cursor_at (Some d) (p @ q) = cursor_at (getAtPath d p) q"
  by (cases "getAtPath d p") (simp_all add: getAtPath_append)

lemma cursor_at_Some: "cursor_at (Some d) c = Some n \<longleftrightarrow> getAtPath d c = Some (JNum n) \<and> n > 0"
  by (auto simp: num_of_Some split: option.splits if_splits)

lemma applyAt_below_number:
  assumes "applyAt doc (c @ q) op = Inr d'" and "getAtPath doc c = Some (JNum n)" and "q \<noteq> []"
  shows False
  using assms(1,2)
proof (induction c arbitrary: doc d')
  case Nil
  then show ?case using assms(3) by (cases q; cases "hd q") auto
next
  case (Cons s c)
  then show ?case
    using assms(3) by (cases s; cases doc) (auto simp: result_simps split: if_splits option.splits)
qed

lemma applyAt_index_needs_array:
  assumes "applyAt doc (pre @ Idx i # q) op = Inr d'"
  shows "getAtPath doc (pre @ Key b # r) = None"
  using assms
proof (induction pre arbitrary: doc d')
  case Nil
  then show ?case by (cases doc) auto
next
  case (Cons s pre)
  show ?case
    using Cons by (cases s; cases doc) (auto simp: result_simps split: if_splits option.splits)
qed

declare cursor_at.simps(2) [simp del]

text \<open>An op whose path parts from the cursor's path leaves the cursor alone.\<close>

lemma cursor_frame:
  assumes "applyAt doc p op = Inr d'" and "p \<parallel> c" and "all_keys c" and "cursor_at (Some doc) c = Some n"
  shows "cursor_at (Some d') c = Some n"
proof -
  from parallel_decomp [OF assms(2)] obtain pre s a t b
    where st: "s \<noteq> t" "p = pre @ s # a" "c = pre @ t # b" by blast
  obtain k where t: "t = Key k" using assms(3) st(3) by (auto simp: all_keys_def)
  show ?thesis
  proof (cases s)
    case (Key x)
    with st t applyAt_frame [of doc pre x a op d' k b] assms(1,4) show ?thesis
      by (simp add: cursor_at_Some)
  next
    case (Idx i)
    with st t applyAt_index_needs_array [of doc pre i a op d' k b] assms(1,4) show ?thesis
      by (simp add: cursor_at_Some)
  qed
qed

text \<open>What the batch must not do to a cursor: write its ancestors outside a declared position, or write
  the cursor itself with anything but a number.\<close>

definition respects_cursor :: "string list \<Rightarrow> string list \<Rightarrow> path \<Rightarrow> patch_op \<Rightarrow> bool" where
  "respects_cursor graphs occs c op \<longleftrightarrow>
     (op_path op = c \<longrightarrow> isNumericCursorOp op) \<and>
     (strict_prefix (op_path op) c \<longrightarrow>
        \<not> isNumericCursorOp op \<and> declared_below graphs occs (op_path op) (drop (length (op_path op)) c))"

lemma numeric_step:
  assumes "numeric_verdict (getAtPath cur c) op = Apply eff" and "is_number_op op" and "op_path op = c"
    and "applyOp cur eff = Inr cur'" and "cursor_at (Some cur) c = Some n"
  shows "\<exists>m. cursor_at (Some cur') c = Some m \<and> n \<le> m"
proof -
  have n: "getAtPath cur c = Some (JNum n)" "n > 0" using assms(5) by (simp_all add: cursor_at_Some)
  obtain v where v: "op_value op = Some v"
    using assms(1) by (cases "op_value op") (simp_all add: numeric_verdict_def)
  then obtain r where r: "v = JNum r" using assms(2) by (cases op) (auto simp: is_number_iff)
  have eff: "eff = OpReplace c (JNum r) (JNum n)" and le: "n < r"
    using assms(1,3) n v r by (auto simp: numeric_verdict_def split: if_splits)
  have "getAtPath cur' c = Some (JNum r)"
    using applyAt_readback [of cur c eff cur' c "JNum r" "JNum n"] assms(4) eff by (simp add: applyOp_def)
  then show ?thesis using n le by (intro exI [of _ r]) (simp add: cursor_at_Some)
qed

lemma subtree_step:
  assumes "cursor_preserver pres D" and "D q" and "c = op_path op @ q"
    and "applyOp cur (rewritten pres (getAtPath cur (op_path op)) op) = Inr cur'"
    and "wf_json cur" and "wf_op op" and "cursor_at (Some cur) c = Some n"
  shows "\<exists>m. cursor_at (Some cur') c = Some m \<and> n \<le> m"
proof -
  let ?p = "op_path op"
  have "cursor_at (getAtPath cur ?p) q = Some n" using assms(3,7) by (simp add: cursor_at_append)
  then obtain s where s: "getAtPath cur ?p = Some s" "cursor_at (Some s) q = Some n"
    by (cases "getAtPath cur ?p") simp_all
  have wf: "opt_wf (Some s)" using s(1) assms(5) getAtPath_wf by simp
  have "opt_wf (op_value op)" using assms(6) op_value_wf by (auto simp: opt_wf_def)
  from cursor_preserver.never_rewinds [OF assms(1) wf this assms(2) s(2)] obtain w m
    where w: "pres (Some s) (op_value op) = Some w" and m: "cursor_at (Some w) q = Some m" "n \<le> m"
    by (cases "pres (Some s) (op_value op)") auto
  from rewritten_value [OF assms(1) w] obtain p old where eff: "rewritten pres (Some s) op = OpReplace p w old" by blast
  moreover have "p = ?p" using eff rewritten_path [of pres "Some s" op] by simp
  ultimately have "getAtPath cur' ?p = Some w"
    using applyAt_readback assms(4) s(1) by (auto simp: applyOp_def)
  then show ?thesis using m assms(3) by (auto simp: cursor_at_append)
qed

lemma verdict_step:
  assumes "verdict_of strict (site_of graphs occs op) (getAtPath cur (op_path op)) op = Apply eff"
    and "applyOp cur eff = Inr cur'" and "respects_cursor graphs occs c op" and "all_keys c"
    and "wf_json cur" and "wf_op op" and "cursor_at (Some cur) c = Some n"
  shows "\<exists>m. cursor_at (Some cur') c = Some m \<and> n \<le> m"
proof -
  have path: "op_path eff = op_path op" using assms(1) by (rule verdict_path)
  consider "op_path op = c" | "strict_prefix (op_path op) c" | "strict_prefix c (op_path op)" | "op_path op \<parallel> c"
    by (metis parallelI prefix_order.le_less)
  then show ?thesis
  proof cases
    case 1
    then have num: "isNumericCursorOp op" using assms(3) by (simp add: respects_cursor_def)
    then have "numeric_verdict (getAtPath cur c) op = Apply eff"
      using assms(1) 1 by (simp add: site_of_def verdict_of_def)
    then show ?thesis
      using numeric_step num 1 assms(2,7) by (simp add: isNumericCursorOp_def)
  next
    case 2
    then obtain q where q: "c = op_path op @ q" by (auto simp: strict_prefix_def prefix_def)
    have nn: "\<not> isNumericCursorOp op" and d: "declared_below graphs occs (op_path op) q"
      using 2 assms(3) q by (auto simp: respects_cursor_def)
    from site_preserves [OF nn d] obtain pres where pres: "site_of graphs occs op = Subtree pres"
      "cursor_preserver pres (declared_below graphs occs (op_path op))" by blast
    have "eff = rewritten pres (getAtPath cur (op_path op)) op"
      using assms(1) pres(1) by (auto simp: verdict_of_def split: if_splits)
    then show ?thesis using subtree_step [OF pres(2) d q _ assms(5,6,7)] assms(2) by blast
  next
    case 3
    then obtain q where "op_path op = c @ q" "q \<noteq> []" by (auto simp: strict_prefix_def prefix_def)
    then show ?thesis
      using applyAt_below_number [of cur c q eff cur' n] assms(2,7) path by (auto simp: applyOp_def cursor_at_Some)
  next
    case 4
    then show ?thesis
      using cursor_frame [OF _ 4 assms(4,7)] assms(2) path by (auto simp: applyOp_def)
  qed
qed

section \<open>The loop\<close>

lemma verdict_invariant:
  assumes "verdict_of strict (site_of graphs occs op) (getAtPath cur (op_path op)) op = Apply eff"
    and "applyOp cur eff = Inr cur'" and "wf_json cur" and "wf_op op"
  shows "wf_json cur' \<and> wf_op eff"
proof -
  have "opt_wf (getAtPath cur (op_path op))"
    using assms(3) getAtPath_wf by (auto simp: opt_wf_def)
  then have "wf_op eff"
    using verdict_wf [OF assms(1) _ assms(4)] site_subtree_preserves by blast
  then show ?thesis using assms(2,3) patch.edit_valid by blast
qed

lemma replay_loop_applies:
  assumes "replay_loop strict (site_of graphs occs) cur applied ops = Inr r"
    and "wf_json cur" and "list_all wf_op ops"
  shows "wf_json (rp_doc r) \<and>
    (\<exists>effs. rp_applied r = applied @ effs \<and> applyOwnedOps cur effs = Inr (rp_doc r) \<and> list_all wf_op effs)"
  using assms
proof (induction ops arbitrary: cur applied)
  case (Cons op ops)
  show ?case
  proof (cases "verdict_of strict (site_of graphs occs op) (getAtPath cur (op_path op)) op")
    case Skip
    then show ?thesis using Cons by simp
  next
    case (Apply eff)
    with Cons.prems(1) obtain cur' where cur': "applyOp cur eff = Inr cur'"
      and rest: "replay_loop strict (site_of graphs occs) cur' (applied @ [eff]) ops = Inr r"
      by (auto simp: result_simps)
    have wf: "wf_json cur' \<and> wf_op eff"
      using verdict_invariant [OF Apply cur'] Cons.prems by simp
    with Cons.IH [OF rest] Cons.prems(3) obtain effs where effs: "wf_json (rp_doc r)"
      "rp_applied r = (applied @ [eff]) @ effs" "applyOwnedOps cur' effs = Inr (rp_doc r)" "list_all wf_op effs"
      by auto
    then have "rp_applied r = applied @ (eff # effs)" "applyOwnedOps cur (eff # effs) = Inr (rp_doc r)"
      using cur' by simp_all
    then show ?thesis using effs wf by (metis list.pred_inject(2))
  next
    case Stale
    then show ?thesis using Cons.prems by (auto intro: exI [of _ "[]"])
  qed
qed auto

lemma replay_loop_cursor:
  assumes "replay_loop strict (site_of graphs occs) cur applied ops = Inr r"
    and "wf_json cur" and "list_all wf_op ops" and "all_keys c"
    and "list_all (respects_cursor graphs occs c) ops" and "cursor_at (Some cur) c = Some n"
  shows "\<exists>m. cursor_at (Some (rp_doc r)) c = Some m \<and> n \<le> m"
  using assms(1-3,5-)
proof (induction ops arbitrary: cur applied n)
  case (Cons op ops)
  show ?case
  proof (cases "verdict_of strict (site_of graphs occs op) (getAtPath cur (op_path op)) op")
    case Skip
    then show ?thesis using Cons by simp
  next
    case (Apply eff)
    with Cons.prems(1) obtain cur' where cur': "applyOp cur eff = Inr cur'"
      and rest: "replay_loop strict (site_of graphs occs) cur' (applied @ [eff]) ops = Inr r"
      by (auto simp: result_simps)
    have wf: "wf_json cur'" using verdict_invariant [OF Apply cur'] Cons.prems by simp
    from verdict_step [OF Apply cur' _ assms(4)] Cons.prems obtain m
      where m: "cursor_at (Some cur') c = Some m" "n \<le> m" by auto
    from Cons.IH [OF rest wf _ _ m(1)] Cons.prems m(2) show ?thesis by fastforce
  next
    case Stale
    then show ?thesis using Cons.prems by auto
  qed
qed auto

lemma replay_decompose:
  assumes "replayHistoryOps doc ops strict = Inr r"
  obtains final occs where "semanticFinal doc ops = Inr final" and "survivingOccurrences doc final = Inr occs"
    and "replay_loop strict (site_of (survivingGraphs doc ops) occs) doc [] ops = Inr r"
proof -
  from assms obtain final where final: "semanticFinal doc ops = Inr final"
    by (cases "semanticFinal doc ops") (simp_all add: replayHistoryOps_def)
  with assms obtain occs where occs: "survivingOccurrences doc final = Inr occs"
    by (cases "survivingOccurrences doc final") (simp_all add: replayHistoryOps_def)
  have "replay_loop strict (site_of (survivingGraphs doc ops) occs) doc [] ops = Inr r"
    using assms final occs
    by (cases "replay_loop strict (site_of (survivingGraphs doc ops) occs) doc [] ops")
      (simp_all add: replayHistoryOps_def)
  with final occs show thesis by (rule that)
qed

lemma replay_applies:
  assumes "replayHistoryOps doc ops strict = Inr r" and "wf_json doc" and "list_all wf_op ops"
  shows "applyOwnedOps doc (rp_applied r) = Inr (rp_doc r) \<and> wf_json (rp_doc r) \<and> list_all wf_op (rp_applied r)"
  using assms(1)
proof (rule replay_decompose)
  fix final occs
  assume "replay_loop strict (site_of (survivingGraphs doc ops) occs) doc [] ops = Inr r"
  from replay_loop_applies [OF this assms(2,3)] show ?thesis by auto
qed

section \<open>Batches without cursors\<close>

text \<open>An op that the replay takes as recorded, whatever survives.\<close>

definition plain_op :: "patch_op \<Rightarrow> bool" where
  "plain_op op \<longleftrightarrow>
     (let p = op_path op in
      \<not> isNumericCursorOp op \<and> dynamicShapePosition p = DynOutside \<and> viewGraphShapePosition p = ViewOutside \<and>
      occurrenceTopologyShapePosition p = OccOutside \<and> \<not> isActorCursorsMap p)"

lemma plain_site: "plain_op op \<Longrightarrow> site_of graphs occs op = Verbatim"
  by (simp add: plain_op_def site_of_def view_site_def occ_site_def Let_def)

lemma plain_loop:
  assumes "list_all plain_op ops"
  shows "replay_loop False (site_of graphs occs) cur applied ops =
    map_result (\<lambda>d. \<lparr>rp_doc = d, rp_applied = applied @ ops, rp_stale = None\<rparr>) (applyOwnedOps cur ops)"
  using assms
proof (induction ops arbitrary: cur applied)
  case (Cons op ops)
  then show ?case
    by (cases "applyOp cur op") (simp_all add: verdict_of_def plain_site)
qed simp

lemma recorded_exactly_recorded:
  "recorded_exactly (getAtPath cur (op_path op)) op \<Longrightarrow> recorded cur op"
  by (cases op) (auto simp: recorded_exactly_def split: option.splits)

section \<open>Properties\<close>

text \<open>C2: replay does not rewind the allocation cursors it watches. Whatever history is replayed, in either mode, an
  allocation cursor of the document stands at or above its old value afterwards, for every batch that writes the cursor
  itself only with numbers and writes an ancestor of it only at a declared cursor position. The condition is needed, and
  commands exist that break it: \<open>whole_nodes_write_rewinds\<close> below.\<close>

theorem replay_never_rewinds:
  assumes "replayHistoryOps doc ops strict = Inr r" and "wf_json doc" and "list_all wf_op ops"
    and "all_keys c" and "cursor_at (Some doc) c = Some n"
    and "\<forall>final occs. semanticFinal doc ops = Inr final \<longrightarrow> survivingOccurrences doc final = Inr occs \<longrightarrow>
      list_all (respects_cursor (survivingGraphs doc ops) occs c) ops"
  shows "\<exists>m. cursor_at (Some (rp_doc r)) c = Some m \<and> n \<le> m"
  using assms(1)
proof (rule replay_decompose)
  fix final occs
  assume final: "semanticFinal doc ops = Inr final" and occs: "survivingOccurrences doc final = Inr occs"
    and run: "replay_loop strict (site_of (survivingGraphs doc ops) occs) doc [] ops = Inr r"
  have "list_all (respects_cursor (survivingGraphs doc ops) occs c) ops"
    using assms(6) final occs by blast
  from replay_loop_cursor [OF run assms(2,3,4) this assms(5)] show ?thesis .
qed

definition undo_demo_doc :: json where
  "undo_demo_doc = JObj [(''root'', JStr ''g0''),
     (''graphs'', JObj [(''g0'', JObj [(''nextOrdinal'', JNum 4), (''nodes'', JObj [(''n3'', JNull)])])]),
     (''view'', JObj [(''graphs'', JObj [(''g0'', JObj [(''nodes'', JObj []), (''groupSeq'', JNum 2)])])])]"

definition undo_demo_ops :: "patch_op list" where
  "undo_demo_ops =
     [OpRemove [Key ''view'', Key ''graphs'', Key ''g0''] (JObj []),
      OpReplace [Key ''graphs'', Key ''g0'', Key ''nextOrdinal''] (JNum 3) (JNum 4),
      OpRemove [Key ''graphs'', Key ''g0'', Key ''nodes'', Key ''n3''] JNull]"

lemmas position_eval = isNumericCursorOp_def isAllocationCursor_def key_at_def seg_at_def
  dynamicShapePosition_def viewGraphShapePosition_def occurrenceTopologyShapePosition_def
  isActorCursorsMap_def view_site_def occ_site_def key_in_def Let_def

lemma undo_demo_final:
  "semanticFinal undo_demo_doc undo_demo_ops =
   Inr (JObj [(''root'', JStr ''g0''),
     (''graphs'', JObj [(''g0'', JObj [(''nextOrdinal'', JNum 4), (''nodes'', JObj [])])]),
     (''view'', JObj [(''graphs'', JObj [(''g0'', JObj [(''nodes'', JObj []), (''groupSeq'', JNum 2)])])])])"
  by (simp add: semanticFinal_def undo_demo_doc_def undo_demo_ops_def is_semantic_op_def key_at_def seg_at_def
      Let_def applyOp_def proto_key_def)

lemma undo_demo_survivors:
  "survivingGraphs undo_demo_doc undo_demo_ops = [''g0'']"
  by (simp add: survivingGraphs_def undo_demo_doc_def undo_demo_ops_def keys_at_def entries_or_def track_graphs_def)

lemma undo_demo_replay:
  "replayHistoryOps undo_demo_doc undo_demo_ops False =
   Inr \<lparr>rp_doc = JObj [(''root'', JStr ''g0''),
         (''graphs'', JObj [(''g0'', JObj [(''nextOrdinal'', JNum 4), (''nodes'', JObj [])])]),
         (''view'', JObj [(''graphs'', JObj [(''g0'', JObj [(''nodes'', JObj []), (''groupSeq'', JNum 2)])])])],
       rp_applied =
         [OpReplace [Key ''view'', Key ''graphs'', Key ''g0''] (JObj [(''nodes'', JObj []), (''groupSeq'', JNum 2)])
            (JObj [(''nodes'', JObj []), (''groupSeq'', JNum 2)]),
          OpRemove [Key ''graphs'', Key ''g0'', Key ''nodes'', Key ''n3''] JNull],
       rp_stale = None\<rparr>"
proof -
  let ?ops = "undo_demo_ops" and ?s = "site_of [''g0''] []"
  have sites: "?s (undo_demo_ops ! 0) = Subtree preserveGraphViewCursor"
    "?s (undo_demo_ops ! 1) = NumericCursor" "?s (undo_demo_ops ! 2) = Verbatim"
    by (simp_all add: undo_demo_ops_def site_of_def position_eval)
  have "replay_loop False ?s undo_demo_doc [] ?ops = replay_loop False ?s undo_demo_doc []
      [undo_demo_ops ! 0, undo_demo_ops ! 1, undo_demo_ops ! 2]"
    by (simp add: undo_demo_ops_def)
  also have "\<dots> = Inr \<lparr>rp_doc = JObj [(''root'', JStr ''g0''),
         (''graphs'', JObj [(''g0'', JObj [(''nextOrdinal'', JNum 4), (''nodes'', JObj [])])]),
         (''view'', JObj [(''graphs'', JObj [(''g0'', JObj [(''nodes'', JObj []), (''groupSeq'', JNum 2)])])])],
       rp_applied =
         [OpReplace [Key ''view'', Key ''graphs'', Key ''g0''] (JObj [(''nodes'', JObj []), (''groupSeq'', JNum 2)])
            (JObj [(''nodes'', JObj []), (''groupSeq'', JNum 2)]),
          OpRemove [Key ''graphs'', Key ''g0'', Key ''nodes'', Key ''n3''] JNull],
       rp_stale = None\<rparr>"
    unfolding replay_loop.simps sites
    by (simp add: undo_demo_ops_def undo_demo_doc_def verdict_of_def numeric_verdict_def rewritten_def
        preserveGraphViewCursor_def entries_or_def Let_def applyOp_def proto_key_def)
  finally show ?thesis
    unfolding replayHistoryOps_def undo_demo_final undo_demo_survivors
    by (simp add: survivingOccurrences_def keys_at_def entries_or_def undo_demo_doc_def)
qed

theorem replay_never_rewinds_witness:
  "\<exists>m. cursor_at (Some (JObj [(''root'', JStr ''g0''),
         (''graphs'', JObj [(''g0'', JObj [(''nextOrdinal'', JNum 4), (''nodes'', JObj [])])]),
         (''view'', JObj [(''graphs'', JObj [(''g0'', JObj [(''nodes'', JObj []), (''groupSeq'', JNum 2)])])])]))
       [Key ''view'', Key ''graphs'', Key ''g0'', Key ''groupSeq''] = Some m \<and> 2 \<le> m"
proof -
  let ?c = "[Key ''view'', Key ''graphs'', Key ''g0'', Key ''groupSeq'']"
  have "wf_json undo_demo_doc" "list_all wf_op undo_demo_ops"
    by (simp_all add: undo_demo_doc_def undo_demo_ops_def proto_key_def)
  moreover have "all_keys ?c" by (simp add: all_keys_def)
  moreover have "cursor_at (Some undo_demo_doc) ?c = Some 2"
    by (simp add: cursor_at_Some undo_demo_doc_def)
  moreover have "list_all (respects_cursor [''g0''] occs ?c) undo_demo_ops" for occs
    by (simp add: undo_demo_ops_def respects_cursor_def declared_below_def position_eval group_cursor_def)
  then have "\<forall>final occs. semanticFinal undo_demo_doc undo_demo_ops = Inr final \<longrightarrow>
      survivingOccurrences undo_demo_doc final = Inr occs \<longrightarrow>
      list_all (respects_cursor (survivingGraphs undo_demo_doc undo_demo_ops) occs ?c) undo_demo_ops"
    by (simp add: undo_demo_survivors)
  ultimately show ?thesis
    using replay_never_rewinds [OF undo_demo_replay, of ?c 2] by simp
qed

text \<open>Some commands write the whole \<open>nodes\<close> map of a graph (extracting and flattening a subgraph), which is no declared
  position although the dynamic state of its nodes holds sequence cursors. Undoing such a write puts back the old map
  with the old cursor: here the cursor falls from 4 to 3, and the next member takes an id that was used before.\<close>

definition nodes_with_seq :: "rat \<Rightarrow> json" where
  "nodes_with_seq n = JObj [(''n1'', JObj [(''dynamic'', JObj [(''in'', JObj [(''seq'', JNum n)])])])]"

definition seq_demo_doc :: json where
  "seq_demo_doc = JObj [(''graphs'', JObj [(''g0'', JObj [(''nodes'', nodes_with_seq 4)])])]"

lemma whole_nodes_write_rewinds:
  "\<exists>r. replayHistoryOps seq_demo_doc
       [OpReplace [Key ''graphs'', Key ''g0'', Key ''nodes''] (nodes_with_seq 3) (nodes_with_seq 3)] False = Inr r \<and>
     (let c = [Key ''graphs'', Key ''g0'', Key ''nodes'', Key ''n1'', Key ''dynamic'', Key ''in'', Key ''seq''] in
      isAllocationCursor c \<and> cursor_at (Some seq_demo_doc) c = Some 4 \<and> cursor_at (Some (rp_doc r)) c = Some 3)"
proof -
  let ?ops = "[OpReplace [Key ''graphs'', Key ''g0'', Key ''nodes''] (nodes_with_seq 3) (nodes_with_seq 3)]"
  let ?after = "JObj [(''graphs'', JObj [(''g0'', JObj [(''nodes'', nodes_with_seq 3)])])]"
  have "semanticFinal seq_demo_doc ?ops = Inr ?after"
    by (simp add: semanticFinal_def seq_demo_doc_def is_semantic_op_def key_at_def seg_at_def Let_def applyOp_def proto_key_def)
  moreover have "site_of gs oc (hd ?ops) = Verbatim" for gs oc by (simp add: site_of_def position_eval)
  ultimately have "\<exists>r. replayHistoryOps seq_demo_doc ?ops False = Inr r \<and> rp_doc r = ?after"
    by (simp add: replayHistoryOps_def survivingOccurrences_def keys_at_def entries_or_def seq_demo_doc_def verdict_of_def
        applyOp_def proto_key_def)
  then show ?thesis
    by (auto simp: cursor_at_Some seq_demo_doc_def nodes_with_seq_def position_eval)
qed

text \<open>C23: the replay reports what it did. The ops it returns as applied, run over the document it was given,
  produce exactly the document it returns; both are well formed.\<close>

theorem replay_reports_reality:
  assumes "replayHistoryOps doc ops strict = Inr r" and "wf_json doc" and "list_all wf_op ops"
  shows "applyOwnedOps doc (rp_applied r) = Inr (rp_doc r) \<and> wf_json (rp_doc r) \<and> list_all wf_op (rp_applied r)"
  using replay_applies [OF assms] .

theorem replay_reports_reality_witness:
  "wf_json (JObj [(''root'', JStr ''g0''),
         (''graphs'', JObj [(''g0'', JObj [(''nextOrdinal'', JNum 4), (''nodes'', JObj [])])]),
         (''view'', JObj [(''graphs'', JObj [(''g0'', JObj [(''nodes'', JObj []), (''groupSeq'', JNum 2)])])])])"
proof -
  have "wf_json undo_demo_doc" "list_all wf_op undo_demo_ops"
    by (simp_all add: undo_demo_doc_def undo_demo_ops_def proto_key_def)
  from replay_reports_reality [OF undo_demo_replay this] show ?thesis by simp
qed

end
