(* ===== verification/CursorWrites.thy ===== *)
theory CursorWrites
  imports Replay
begin

text \<open>
  Batches that mint ids: ops at plain positions and ops that raise an allocation cursor. The replay takes
  back the first and leaves the second: undoing such a batch gives the document it started from with the
  cursors as the batch left them, and redoing it gives the document it ended in.
\<close>

section \<open>Writing below object keys\<close>

text \<open>The value at a path of keys replaced, where there is one.\<close>

fun put_at :: "json \<Rightarrow> path \<Rightarrow> json \<Rightarrow> json" where
  "put_at d [] v = v"
| "put_at (JObj kvs) (Key k # p) v =
     (case map_of kvs k of None \<Rightarrow> JObj kvs | Some c \<Rightarrow> JObj (AList.update k (put_at c p v) kvs))"
| "put_at d p v = d"

lemma put_at_replace:
  "applyAt d p (OpReplace q v old) = Inr d' \<Longrightarrow> all_keys p \<Longrightarrow> d' = put_at d p v"
proof (induction p arbitrary: d d')
  case (Cons s p)
  from Cons.prems(2) obtain k where s: "s = Key k" by (auto simp: all_keys_def)
  from Cons.prems(1) s obtain kvs where kvs: "d = JObj kvs" by (cases d) simp_all
  have p: "all_keys p" using Cons.prems(2) by (simp add: all_keys_def)
  show ?case
  proof (cases "p = []")
    case True
    then show ?thesis using Cons.prems(1) s kvs by (auto split: if_splits option.splits)
  next
    case False
    with Cons.prems(1) s kvs obtain c c' where "map_of kvs k = Some c"
      "applyAt c p (OpReplace q v old) = Inr c'" "d' = JObj (AList.update k c' kvs)"
      by (auto simp: result_simps split: if_splits option.splits)
    then show ?thesis using Cons.IH p s kvs by simp
  qed
qed simp

lemma put_at_wf: "wf_json d \<Longrightarrow> wf_json v \<Longrightarrow> wf_json (put_at d p v)"
proof (induction d p v rule: put_at.induct)
  case (2 kvs k p v)
  show ?case
  proof (cases "map_of kvs k")
    case (Some c)
    then have "wf_json (put_at c p v)" "k \<noteq> proto_key"
      using 2 wf_json_entry wf_json_key by blast+
    then show ?thesis using wf_json_update [OF 2(2)] Some by (simp del: wf_json.simps)
  qed (use 2 in simp)
qed simp_all

lemma put_at_abs:
  "json_abs a = json_abs b \<Longrightarrow> all_keys p \<Longrightarrow> json_abs (put_at a p v) = json_abs (put_at b p v)"
proof (induction p arbitrary: a b)
  case (Cons s p)
  from Cons.prems(2) obtain k where s: "s = Key k" by (auto simp: all_keys_def)
  have p: "all_keys p" using Cons.prems(2) by (simp add: all_keys_def)
  show ?case
  proof (cases a)
    case (JObj kvs)
    then obtain lvs where b: "b = JObj lvs" using Cons.prems(1) by (cases b) (simp_all add: json_abs_obj)
    have eq: "obj_abs kvs = obj_abs lvs" using Cons.prems(1) JObj b by (simp add: json_abs_obj)
    then have "obj_abs kvs k = obj_abs lvs k" by simp
    then consider "map_of kvs k = None" "map_of lvs k = None"
      | c e where "map_of kvs k = Some c" "map_of lvs k = Some e" "json_abs c = json_abs e"
      unfolding obj_abs_def by (cases "map_of kvs k"; cases "map_of lvs k") auto
    then show ?thesis
    proof cases
      case 1
      then show ?thesis using JObj b s eq by (simp add: json_abs_obj)
    next
      case 2
      then show ?thesis using JObj b s eq Cons.IH [OF 2(3) p] by (simp add: json_abs_obj)
    qed
  next
    case (JArr xs)
    then show ?thesis using Cons.prems(1) s by (cases b) (simp_all add: json_abs_obj)
  qed (use Cons.prems(1) s in \<open>cases b; simp add: json_abs_obj\<close>)+
qed simp

section \<open>Commuting with an op beside the path\<close>

lemma update_commutes:
  "x \<noteq> y \<Longrightarrow> map_of kvs y \<noteq> None \<Longrightarrow>
   AList.update x a (AList.update y b kvs) = AList.update y b (AList.update x a kvs)"
  by (induction kvs) auto

lemma apply_prop_update:
  assumes "apply_prop op x kvs = Inr (JObj lvs)" and "x \<noteq> y" and "map_of kvs y \<noteq> None"
  shows "apply_prop op x (AList.update y w kvs) = Inr (JObj (AList.update y w lvs))"
  using assms update_commutes [OF assms(2,3), of _ w]
  by (cases op) (auto simp: AList.delete_update split: if_splits)

lemma apply_prop_obj: "apply_prop op x kvs = Inr d \<Longrightarrow> x \<noteq> y \<Longrightarrow> \<exists>lvs. d = JObj lvs \<and> map_of lvs y = map_of kvs y"
  by (cases op) (auto split: if_splits)

text \<open>The two keys part at an object.\<close>

lemma put_commutes_here:
  assumes "applyAt (JObj kvs) (Key x # a) op = Inr d'" and "x \<noteq> y"
  shows "applyAt (put_at (JObj kvs) (Key y # b) v) (Key x # a) op = Inr (put_at d' (Key y # b) v)"
proof (cases "map_of kvs y")
  case None
  have "\<exists>lvs. d' = JObj lvs \<and> map_of lvs y = None"
    using assms None apply_prop_obj [of op x kvs d' y]
    by (cases "a = []") (auto simp: result_simps split: if_splits option.splits)
  then show ?thesis using assms(1) None by auto
next
  case (Some c)
  have x: "x \<noteq> proto_key" using assms(1) by (auto split: if_splits)
  show ?thesis
  proof (cases "a = []")
    case True
    then have ap: "apply_prop op x kvs = Inr d'" using assms(1) x by simp
    from apply_prop_obj [OF ap assms(2)] obtain lvs where d': "d' = JObj lvs" "map_of lvs y = Some c"
      using Some by auto
    then show ?thesis
      using apply_prop_update [OF ap [unfolded d'(1)] assms(2)] Some True x by simp
  next
    case False
    with assms(1) x obtain e e' where e: "map_of kvs x = Some e" "applyAt e a op = Inr e'"
      "d' = JObj (AList.update x e' kvs)"
      by (auto simp: result_simps split: option.splits)
    then show ?thesis
      using Some False x assms(2) update_commutes [OF assms(2), of kvs e'] by simp
  qed
qed

lemma put_commutes_at:
  assumes "applyAt d (pre @ s # a) op = Inr d'" and "s \<noteq> Key y" and "all_keys pre"
  shows "applyAt (put_at d (pre @ Key y # b) v) (pre @ s # a) op = Inr (put_at d' (pre @ Key y # b) v)"
  using assms(1,3)
proof (induction pre arbitrary: d d')
  case Nil
  show ?case
  proof (cases s)
    case (Key x)
    moreover obtain kvs where "d = JObj kvs" using Nil Key by (cases d) simp_all
    ultimately show ?thesis using put_commutes_here assms(2) Nil by simp
  next
    case (Idx i)
    then obtain xs where d: "d = JArr xs" using Nil by (cases d) simp_all
    moreover have "\<exists>ys. d' = JArr ys"
      using Nil Idx d by (cases op) (auto simp: result_simps split: if_splits option.splits)
    ultimately show ?thesis using Nil Idx by auto
  qed
next
  case (Cons t pre)
  from Cons.prems(2) obtain k where t: "t = Key k" by (auto simp: all_keys_def)
  have pre: "all_keys pre" using Cons.prems(2) by (simp add: all_keys_def)
  from Cons.prems(1) t obtain kvs where kvs: "d = JObj kvs" by (cases d) simp_all
  with Cons.prems(1) t obtain c c' where c: "map_of kvs k = Some c" "k \<noteq> proto_key"
    "applyAt c (pre @ s # a) op = Inr c'" "d' = JObj (AList.update k c' kvs)"
    by (auto simp: result_simps split: if_splits option.splits)
  then show ?case using Cons.IH [OF c(3) pre] t kvs by simp
qed

lemma put_commutes:
  assumes "applyOp d op = Inr d'" and "op_path op \<parallel> c" and "all_keys c"
  shows "applyOp (put_at d c v) op = Inr (put_at d' c v)"
proof -
  from parallel_decomp [OF assms(2)] obtain pre s a t b
    where st: "s \<noteq> t" "op_path op = pre @ s # a" "c = pre @ t # b" by blast
  obtain y where "t = Key y" "all_keys pre" using assms(3) st(3) by (auto simp: all_keys_def)
  then show ?thesis
    using put_commutes_at [of d pre s a op d' y b v] assms(1) st by (simp add: applyOp_def)
qed

lemma get_beside:
  assumes "applyOp d op = Inr d'" and "op_path op \<parallel> c" and "all_keys c" and "getAtPath d c = Some v"
  shows "getAtPath d' c = Some v"
proof -
  from parallel_decomp [OF assms(2)] obtain pre s a t b
    where st: "s \<noteq> t" "op_path op = pre @ s # a" "c = pre @ t # b" by blast
  obtain y where t: "t = Key y" using assms(3) st(3) by (auto simp: all_keys_def)
  have run: "applyAt d (pre @ s # a) op = Inr d'" using assms(1) st(2) by (simp add: applyOp_def)
  show ?thesis
  proof (cases s)
    case (Key x)
    then show ?thesis using applyAt_frame [of d pre x a op d' y b] run st t assms(4) by simp
  next
    case (Idx i)
    then show ?thesis using applyAt_index_needs_array [of d pre i a op d' y b] run st t assms(4) by simp
  qed
qed

section \<open>Batches that mint ids\<close>

text \<open>A position that the replay takes as recorded, and an op that raises a cursor that is there.\<close>

definition plain_path :: "path \<Rightarrow> bool" where
  "plain_path p \<longleftrightarrow> \<not> isAllocationCursor p \<and> dynamicShapePosition p = DynOutside \<and>
     viewGraphShapePosition p = ViewOutside \<and> occurrenceTopologyShapePosition p = OccOutside \<and>
     \<not> isActorCursorsMap p"

fun raises_cursor :: "patch_op \<Rightarrow> bool" where
  "raises_cursor (OpReplace c (JNum n) (JNum m)) \<longleftrightarrow> isAllocationCursor c \<and> all_keys c \<and> m < n"
| "raises_cursor op \<longleftrightarrow> False"

definition mints :: "patch_op list \<Rightarrow> bool" where
  "mints ops \<longleftrightarrow> (\<forall>op \<in> set ops. raises_cursor op \<or>
     plain_path (op_path op) \<and> (\<forall>w \<in> set ops. raises_cursor w \<longrightarrow> op_path op \<parallel> op_path w))"

abbreviation plain_ops :: "patch_op list \<Rightarrow> patch_op list" where
  "plain_ops \<equiv> filter (\<lambda>op. \<not> isNumericCursorOp op)"

text \<open>The document with only the cursor writes of a batch made.\<close>

definition raise_cursor :: "patch_op \<Rightarrow> json \<Rightarrow> json" where
  "raise_cursor op d = (case op of OpReplace c v old \<Rightarrow> if raises_cursor op then put_at d c v else d | _ \<Rightarrow> d)"

definition with_cursors :: "patch_op list \<Rightarrow> json \<Rightarrow> json" where
  "with_cursors ops d = fold raise_cursor ops d"

lemma with_cursors_simps [simp]:
  "with_cursors [] d = d" "with_cursors (op # ops) d = with_cursors ops (raise_cursor op d)"
  by (simp_all add: with_cursors_def)

lemma raises_cursor_iff:
  "raises_cursor op \<longleftrightarrow> (\<exists>c n m. op = OpReplace c (JNum n) (JNum m) \<and> isAllocationCursor c \<and> all_keys c \<and> m < n)"
  by (cases op rule: raises_cursor.cases) auto

lemma raises_numeric: "raises_cursor op \<Longrightarrow> isNumericCursorOp op \<and> isNumericCursorOp (invertOp op)"
  by (auto simp: raises_cursor_iff isNumericCursorOp_def)

lemma plain_not_numeric: "plain_path (op_path op) \<Longrightarrow> \<not> isNumericCursorOp op \<and> \<not> raises_cursor op"
  using raises_numeric by (auto simp: plain_path_def isNumericCursorOp_def)

lemma plain_path_op: "plain_path (op_path op) \<Longrightarrow> plain_op op"
  by (simp add: plain_path_def plain_op_def isNumericCursorOp_def Let_def)

lemma mints_Cons: "mints (op # ops) \<Longrightarrow> mints ops"
  by (auto simp: mints_def)

lemma mints_cases:
  assumes "mints (op # ops)"
  obtains "raises_cursor op" "isNumericCursorOp op"
  | "plain_path (op_path op)" "\<not> isNumericCursorOp op" "raise_cursor op = (\<lambda>d. d)"
    "\<And>w. w \<in> set ops \<Longrightarrow> raises_cursor w \<Longrightarrow> op_path op \<parallel> op_path w"
proof (cases "raises_cursor op")
  case False
  then have "raise_cursor op = (\<lambda>d. d)" by (auto simp: raise_cursor_def fun_eq_iff split: patch_op.split)
  then show ?thesis using assms False that(2) plain_not_numeric by (auto simp: mints_def)
qed (use raises_numeric that(1) in blast)

lemma raise_cursor_run: "applyOp d op = Inr d' \<Longrightarrow> raises_cursor op \<Longrightarrow> d' = raise_cursor op d"
  using put_at_replace by (auto simp: raises_cursor_iff raise_cursor_def applyOp_def)

lemma raise_cursor_abs: "json_abs a = json_abs b \<Longrightarrow> json_abs (raise_cursor op a) = json_abs (raise_cursor op b)"
proof (cases "raises_cursor op")
  case True
  assume "json_abs a = json_abs b"
  from put_at_abs [OF this] True show ?thesis by (auto simp: raise_cursor_def raises_cursor_iff)
next
  case False
  assume "json_abs a = json_abs b"
  moreover have "raise_cursor op d = d" for d
    using False by (cases op) (simp_all add: raise_cursor_def del: raises_cursor.simps)
  ultimately show ?thesis by simp
qed

lemma with_cursors_abs: "json_abs a = json_abs b \<Longrightarrow> json_abs (with_cursors ops a) = json_abs (with_cursors ops b)"
proof (induction ops arbitrary: a b)
  case (Cons op ops)
  show ?case unfolding with_cursors_simps by (rule Cons.IH [OF raise_cursor_abs [OF Cons.prems]])
qed simp

lemma raise_cursor_wf: "wf_json d \<Longrightarrow> wf_json (raise_cursor op d)"
  using put_at_wf by (auto simp: raise_cursor_def raises_cursor_iff split: patch_op.split)

lemma with_cursors_wf: "wf_json d \<Longrightarrow> wf_json (with_cursors ops d)"
  by (induction ops arbitrary: d) (simp_all add: raise_cursor_wf)

lemma with_cursors_plain: "\<forall>op \<in> set ops. plain_path (op_path op) \<Longrightarrow> with_cursors ops d = d"
proof (induction ops)
  case (Cons op ops)
  then have "raise_cursor op d = d"
    using plain_not_numeric by (auto simp: raise_cursor_def split: patch_op.split)
  then show ?case using Cons by simp
qed simp

lemma with_cursors_commutes:
  assumes "applyOp d op = Inr d'" and "\<And>w. w \<in> set ops \<Longrightarrow> raises_cursor w \<Longrightarrow> op_path op \<parallel> op_path w"
  shows "applyOp (with_cursors ops d) op = Inr (with_cursors ops d')"
  using assms
proof (induction ops arbitrary: d d')
  case (Cons w ops)
  have "applyOp (raise_cursor w d) op = Inr (raise_cursor w d')"
  proof (cases "raises_cursor w")
    case True
    then have "op_path op \<parallel> op_path w" using Cons.prems(2) by simp
    then show ?thesis
      using True put_commutes [OF Cons.prems(1)] by (auto simp: raises_cursor_iff raise_cursor_def)
  next
    case False
    then show ?thesis using Cons.prems(1) by (auto simp: raise_cursor_def split: patch_op.split)
  qed
  then show ?case using Cons.IH Cons.prems(2) by simp
qed simp

text \<open>Forward: the plain ops lead from the document with the raised cursors to the end of the batch.\<close>

lemma plain_rerun:
  "foldR applyOp d ops = Inr d' \<Longrightarrow> mints ops \<Longrightarrow> foldR applyOp (with_cursors ops d) (plain_ops ops) = Inr d'"
proof (induction ops arbitrary: d)
  case (Cons op ops)
  from Cons.prems(1) obtain e where e: "applyOp d op = Inr e" "foldR applyOp e ops = Inr d'"
    by (auto simp: result_simps)
  note IH = Cons.IH [OF e(2) mints_Cons [OF Cons.prems(2)]]
  from Cons.prems(2) show ?case
  proof (cases rule: mints_cases)
    case 1
    then show ?thesis using IH raise_cursor_run [OF e(1)] by simp
  next
    case 2
    then show ?thesis using IH with_cursors_commutes [OF e(1) 2(4)] by simp
  qed
qed simp

text \<open>Backward: the inverses of the plain ops lead from the end of the batch to the document it started
  from, with the raised cursors.\<close>

lemma plain_unrun:
  assumes "foldR applyOp d ops = Inr d'" and "recorded_run d ops" and "mints ops" and "wf_json d"
    and "list_all wf_op ops"
  shows "\<exists>e. foldR applyOp d' (invertOps (plain_ops ops)) = Inr e \<and> json_abs e = json_abs (with_cursors ops d)"
  using assms
proof (induction ops arbitrary: d)
  case (Cons op ops)
  from Cons.prems(1) obtain f where f: "applyOp d op = Inr f" "foldR applyOp f ops = Inr d'"
    by (auto simp: result_simps)
  have "wf_json f" using patch.edit_valid [OF f(1)] Cons.prems(4,5) by simp
  then obtain e where e: "foldR applyOp d' (invertOps (plain_ops ops)) = Inr e"
    "json_abs e = json_abs (with_cursors ops f)"
    using Cons.IH [OF f(2)] Cons.prems(2,3,5) f(1) mints_Cons by auto
  from Cons.prems(3) show ?case
  proof (cases rule: mints_cases)
    case 1
    then show ?thesis using e raise_cursor_run [OF f(1)] by simp
  next
    case 2
    have rc: "recorded d op" and wf: "wf_op op" using Cons.prems(2,5) by simp_all
    from patch.edit_invert [OF f(1) rc Cons.prems(4) wf] obtain b
      where b: "applyOp f (invertOp op) = Inr b" "json_abs b = json_abs d" by blast
    have "applyOp (with_cursors ops f) (invertOp op) = Inr (with_cursors ops b)"
      using with_cursors_commutes [OF b(1)] 2(4) by simp
    from patch.edit_respects [OF this e(2) [symmetric]] obtain e'
      where "applyOp e (invertOp op) = Inr e'" "json_abs (with_cursors ops b) = json_abs e'" by blast
    then show ?thesis
      using e(1) 2 with_cursors_abs [OF b(2), of ops] by (simp add: foldR_append)
  qed
qed simp

section \<open>Where the cursors stand\<close>

lemma getAtPath_below_number: "getAtPath d p = Some (JNum n) \<Longrightarrow> q \<noteq> [] \<Longrightarrow> getAtPath d (p @ q) = None"
  by (cases q; cases "hd q") (auto simp: getAtPath_append)

lemma cursor_stands:
  assumes "applyOp d op = Inr d'" and "recorded d op" and "all_keys c" and "getAtPath d c = Some (JNum k)"
    and "raises_cursor op \<or> op_path op \<parallel> c"
  shows "\<exists>k'. getAtPath d' c = Some (JNum k') \<and> k \<le> k'"
proof (cases "op_path op \<parallel> c")
  case True
  then show ?thesis using get_beside [OF assms(1) _ assms(3,4)] by auto
next
  case False
  then obtain b n m where op: "op = OpReplace b (JNum n) (JNum m)" "m < n" and ap: "applyAt d b op = Inr d'"
    using assms(1,5) by (auto simp: raises_cursor_iff applyOp_def)
  have "x = JNum m" if "jsonSameValue x (JNum m)" for x using that by (cases x) simp_all
  then have m: "getAtPath d b = Some (JNum m)"
    using assms(2) op(1) by (cases "getAtPath d b") auto
  consider "b = c" | q where "c = b @ q" "q \<noteq> []" | q where "b = c @ q" "q \<noteq> []"
    using False op(1) unfolding parallel_def prefix_def by auto
  then show ?thesis
  proof cases
    case 1
    then have "getAtPath d' c = Some (JNum n)" using applyAt_readback [OF ap] op(1) by simp
    then show ?thesis using 1 m assms(4) op(2) by auto
  next
    case 2
    then show ?thesis using getAtPath_below_number [OF m] assms(4) by auto
  next
    case 3
    then show ?thesis using applyAt_below_number [OF _ assms(4)] ap by blast
  qed
qed

lemma cursors_stand:
  assumes "foldR applyOp d ops = Inr d'" and "recorded_run d ops" and "all_keys c" and "getAtPath d c = Some (JNum k)"
    and "\<And>op. op \<in> set ops \<Longrightarrow> raises_cursor op \<or> op_path op \<parallel> c"
  shows "\<exists>k'. getAtPath d' c = Some (JNum k') \<and> k \<le> k'"
  using assms(1,2,4,5)
proof (induction ops arbitrary: d k)
  case (Cons op ops)
  from Cons.prems(1) obtain e where e: "applyOp d op = Inr e" "foldR applyOp e ops = Inr d'"
    by (auto simp: result_simps)
  have "recorded d op" "recorded_run e ops" using Cons.prems(2) e(1) by simp_all
  with cursor_stands [OF e(1) _ assms(3) Cons.prems(3)] Cons.prems(4) obtain j
    where "getAtPath e c = Some (JNum j)" "k \<le> j" by auto
  with Cons.IH [OF e(2) \<open>recorded_run e ops\<close>] Cons.prems(4) show ?case by fastforce
qed auto

lemma raised_cursor_stands:
  assumes "foldR applyOp d ops = Inr d'" and "recorded_run d ops" and "mints ops"
    and "OpReplace c (JNum n) (JNum m) \<in> set ops" and "raises_cursor (OpReplace c (JNum n) (JNum m))"
  shows "\<exists>k. getAtPath d' c = Some (JNum k) \<and> n \<le> k"
proof -
  from assms(4) obtain xs ys where ops: "ops = xs @ OpReplace c (JNum n) (JNum m) # ys" by (auto simp: in_set_conv_decomp)
  from assms(1) obtain e f where e: "foldR applyOp d xs = Inr e" "applyOp e (OpReplace c (JNum n) (JNum m)) = Inr f"
    "foldR applyOp f ys = Inr d'"
    unfolding ops by (auto simp: foldR_append result_simps)
  have rc: "recorded_run f ys" using assms(2) e unfolding ops by (auto simp: recorded_along_append)
  have c: "all_keys c" using assms(5) by simp
  have "getAtPath f c = Some (JNum n)"
    using applyAt_readback [of e c "OpReplace c (JNum n) (JNum m)" f] e(2) by (simp add: applyOp_def)
  moreover have "raises_cursor op \<or> op_path op \<parallel> c" if "op \<in> set ys" for op
    using assms(3,5) that unfolding ops mints_def by fastforce
  ultimately show ?thesis using cursors_stand [OF e(3) rc c] by blast
qed

section \<open>The replay of such a batch\<close>

definition settled :: "json \<Rightarrow> patch_op \<Rightarrow> bool" where
  "settled cur op \<longleftrightarrow> plain_path (op_path op) \<or>
     isNumericCursorOp op \<and> all_keys (op_path op) \<and>
     (\<exists>n k. op_value op = Some (JNum n) \<and> getAtPath cur (op_path op) = Some (JNum k) \<and> n \<le> k)"

definition beside :: "patch_op list \<Rightarrow> bool" where
  "beside ops \<longleftrightarrow> (\<forall>op \<in> set ops. \<forall>w \<in> set ops.
     plain_path (op_path op) \<longrightarrow> isNumericCursorOp w \<longrightarrow> op_path op \<parallel> op_path w)"

lemma settled_loop:
  assumes "\<forall>op \<in> set ops. settled cur op" and "beside ops"
  shows "replay_loop False (site_of graphs occs) cur applied ops =
    map_result (\<lambda>d. \<lparr>rp_doc = d, rp_applied = applied @ plain_ops ops, rp_stale = None\<rparr>)
      (foldR applyOp cur (plain_ops ops))"
  using assms
proof (induction ops arbitrary: cur applied)
  case (Cons op ops)
  have beside: "beside ops" using Cons.prems(2) by (simp add: beside_def)
  show ?case
  proof (cases "plain_path (op_path op)")
    case True
    then have op: "site_of graphs occs op = Verbatim" "\<not> isNumericCursorOp op"
      using plain_path_op plain_site plain_not_numeric by blast+
    show ?thesis
    proof (cases "applyOp cur op")
      case (Inl e)
      then show ?thesis using op by (simp add: verdict_of_def applyOwnedOps_def)
    next
      case (Inr cur')
      have "settled cur' w" if "w \<in> set ops" for w
      proof (cases "plain_path (op_path w)")
        case False
        then have w: "isNumericCursorOp w" "all_keys (op_path w)" using Cons.prems(1) that by (auto simp: settled_def)
        then have "op_path op \<parallel> op_path w" using Cons.prems(2) True that by (auto simp: beside_def)
        then show ?thesis
          using Cons.prems(1) that False w get_beside [OF Inr] by (fastforce simp: settled_def)
      qed (simp add: settled_def)
      then show ?thesis
        using Cons.IH [OF _ beside] Inr op by (simp add: verdict_of_def applyOwnedOps_def)
    qed
  next
    case False
    then have num: "isNumericCursorOp op" and
      "\<exists>n k. op_value op = Some (JNum n) \<and> getAtPath cur (op_path op) = Some (JNum k) \<and> n \<le> k"
      using Cons.prems(1) by (auto simp: settled_def)
    then have "verdict_of False (site_of graphs occs op) (getAtPath cur (op_path op)) op = Skip"
      by (auto simp: site_of_def verdict_of_def numeric_verdict_def num_of_def Let_def)
    then show ?thesis using Cons.IH [OF _ beside] Cons.prems(1) num by simp
  qed
qed simp

lemma settled_replay:
  assumes "replayHistoryOps doc ops False = Inr r" and "\<forall>op \<in> set ops. settled doc op" and "beside ops"
  shows "foldR applyOp doc (plain_ops ops) = Inr (rp_doc r)"
  using assms(1)
proof (rule replay_decompose)
  fix final occs
  assume run: "replay_loop False (site_of (survivingGraphs doc ops) occs) doc [] ops = Inr r"
  from run [unfolded settled_loop [OF assms(2,3)]] show ?thesis by (auto simp: result_simps)
qed

text \<open>Undo of a minting batch, then redo.\<close>

lemma mints_numeric:
  assumes "mints ops" and "w \<in> set ops \<or> w \<in> set (invertOps ops)" and "isNumericCursorOp w"
  shows "\<exists>r \<in> set ops. raises_cursor r \<and> op_path r = op_path w"
proof -
  from assms(2) obtain r where r: "r \<in> set ops" "op_path r = op_path w" by (auto simp: invertOps_def)
  have "\<not> plain_path (op_path r)" using plain_not_numeric [of w] assms(3) r(2) by auto
  then show ?thesis using assms(1) r by (auto simp: mints_def)
qed

lemma mints_beside:
  assumes "mints ops"
  shows "beside ops" and "beside (invertOps ops)"
proof -
  have "op_path op \<parallel> op_path w" if "op \<in> set ops \<or> op \<in> set (invertOps ops)" "plain_path (op_path op)"
    "w \<in> set ops \<or> w \<in> set (invertOps ops)" "isNumericCursorOp w" for op w
  proof -
    from mints_numeric [OF assms that(3,4)] obtain r where r: "r \<in> set ops" "raises_cursor r" "op_path r = op_path w"
      by blast
    from that(1) obtain q where q: "q \<in> set ops" "op_path q = op_path op" by (auto simp: invertOps_def)
    then have "\<not> raises_cursor q" using plain_not_numeric [of q] that(2) by simp
    then have "op_path q \<parallel> op_path r" using assms q(1) r(1,2) unfolding mints_def by blast
    then show ?thesis using q(2) r(3) by simp
  qed
  then show "beside ops" "beside (invertOps ops)" unfolding beside_def by blast+
qed

lemma mints_settled:
  assumes "mints ops" and "\<And>c n m. OpReplace c (JNum n) (JNum m) \<in> set ops \<Longrightarrow>
      raises_cursor (OpReplace c (JNum n) (JNum m)) \<Longrightarrow> \<exists>k. getAtPath d c = Some (JNum k) \<and> n \<le> k"
  shows "\<forall>op \<in> set ops. settled d op" and "\<forall>op \<in> set (invertOps ops). settled d op"
proof -
  have both: "settled d op \<and> settled d (invertOp op)" if op: "op \<in> set ops" for op
  proof (cases "raises_cursor op")
    case True
    then obtain c n m where r: "op = OpReplace c (JNum n) (JNum m)" "isAllocationCursor c" "all_keys c" "m < n"
      by (auto simp: raises_cursor_iff)
    then obtain k where "getAtPath d c = Some (JNum k)" "n \<le> k" using assms(2) op True by blast
    then show ?thesis using r by (auto simp: settled_def isNumericCursorOp_def)
  next
    case False
    then show ?thesis using assms(1) op by (auto simp: mints_def settled_def)
  qed
  then show "\<forall>op \<in> set ops. settled d op" "\<forall>op \<in> set (invertOps ops). settled d op"
    by (auto simp: invertOps_def)
qed

lemma plain_invertOps:
  assumes "mints ops"
  shows "plain_ops (invertOps ops) = invertOps (plain_ops ops)"
proof -
  have "isNumericCursorOp (invertOp op) = isNumericCursorOp op" if "op \<in> set ops" for op
    using assms that raises_numeric plain_not_numeric [of op] plain_not_numeric [of "invertOp op"]
    by (auto simp: mints_def)
  then have "filter (\<lambda>op. \<not> isNumericCursorOp (invertOp op)) ops = plain_ops ops" by (intro filter_cong) simp_all
  then show ?thesis by (simp add: invertOps_def filter_map rev_filter [symmetric] comp_def)
qed

lemma get_along:
  assumes "foldR applyOp d ops = Inr d'" and "\<And>op. op \<in> set ops \<Longrightarrow> op_path op \<parallel> c" and "all_keys c"
    and "getAtPath d c = Some v"
  shows "getAtPath d' c = Some v"
  using assms(1,2,4)
proof (induction ops arbitrary: d)
  case (Cons op ops)
  from Cons.prems(1) obtain e where e: "applyOp d op = Inr e" "foldR applyOp e ops = Inr d'"
    by (auto simp: result_simps)
  have "getAtPath e c = Some v" using get_beside [OF e(1) _ assms(3)] Cons.prems(2,3) by simp
  then show ?case using Cons.IH [OF e(2)] Cons.prems(2) by simp
qed simp

lemma minting_replays:
  assumes "foldR applyOp d ops = Inr d'" and "recorded_run d ops" and "mints ops" and "wf_json d" and "list_all wf_op ops"
    and "replayHistoryOps d' (invertOps ops) False = Inr r1" and "replayHistoryOps (rp_doc r1) ops False = Inr r2"
  shows "json_abs (rp_doc r1) = json_abs (with_cursors ops d) \<and> json_abs (rp_doc r2) = json_abs d'"
proof -
  note stand = raised_cursor_stands [OF assms(1-3)]
  have unrun: "foldR applyOp d' (invertOps (plain_ops ops)) = Inr (rp_doc r1)"
    using settled_replay [OF assms(6) mints_settled(2) [OF assms(3) stand] mints_beside(2) [OF assms(3)]]
    by (simp add: plain_invertOps [OF assms(3)])
  then have undone: "json_abs (rp_doc r1) = json_abs (with_cursors ops d)"
    using plain_unrun [OF assms(1-5)] by auto
  have "\<exists>k. getAtPath (rp_doc r1) c = Some (JNum k) \<and> n \<le> k"
    if r: "OpReplace c (JNum n) (JNum m) \<in> set ops" "raises_cursor (OpReplace c (JNum n) (JNum m))" for c n m
  proof -
    from stand [OF r] obtain k where k: "getAtPath d' c = Some (JNum k)" "n \<le> k" by blast
    have "op_path op \<parallel> c" if "op \<in> set (invertOps (plain_ops ops))" for op
      using that assms(3) r raises_numeric unfolding mints_def invertOps_def by fastforce
    then show ?thesis using get_along [OF unrun _ _ k(1)] r(2) k(2) by auto
  qed
  from settled_replay [OF assms(7) mints_settled(1) [OF assms(3) this] mints_beside(1) [OF assms(3)]]
  have "foldR applyOp (rp_doc r1) (plain_ops ops) = Inr (rp_doc r2)" .
  moreover obtain b where "foldR applyOp (rp_doc r1) (plain_ops ops) = Inr b" "json_abs d' = json_abs b"
    using patch.run_respects [OF plain_rerun [OF assms(1,3)] undone [symmetric]] by blast
  ultimately show ?thesis using undone by simp
qed

section \<open>Strict replay\<close>













end
