(* ===== verification/Store.thy ===== *)
theory Store
  imports Transaction CursorWrites
begin

text \<open>
  The document store: class \<open>DocumentStore\<close> of \<open>packages/core/src/commands/store.ts\<close>.

  The store's fields are the record \<open>store\<close>. What the constructor is given is the record \<open>store_env\<close>:
  the commands, the undo bound, the execution context, and (a parameter here) the structural checker
  \<open>checkDocument\<close>. Listeners are part of it too: a listener reacts to a notification by calling the
  store again, so it is a function from what it is told to the calls it makes. A listener that throws
  has made the calls before the throw; the store isolates it.

  \<open>commit\<close> enqueues a notification and only the outermost one drains the queue. The calls that
  listeners make are therefore calls made while \<open>notifying\<close> is set, which enqueue and return:
  \<open>dispatch_core\<close>, \<open>undo_core\<close> and \<open>redo_core\<close> are the operations up to and including the enqueue, and
  \<open>drain\<close> is the loop. Listeners may keep the queue alive forever, so the loop has fuel.
\<close>

section \<open>State\<close>

record invocation =
  iv_command :: string
  iv_params :: foreign
  iv_actor :: "string option"

record tx_record =
  tr_revision :: nat
  tr_command :: string
  tr_params :: json
  tr_actor :: "string option"
  tr_forward :: "patch_op list"
  tr_inverse :: "patch_op list"

datatype event_kind = EvDispatch | EvUndo | EvRedo

record tx_event =
  ev_kind :: event_kind
  ev_record :: tx_record
  ev_revision :: nat
  ev_patch :: "patch_op list"

text \<open>The stacks are oldest first, as the arrays of the code are.\<close>

record store =
  s_doc :: json
  s_revision :: nat
  s_undo :: "tx_record list"
  s_redo :: "tx_record list"
  s_queue :: "(json \<times> tx_event) list"
  s_notifying :: bool

datatype act = ActDispatch invocation | ActUndo | ActRedo | ActClearHistory

record 'c store_env =
  en_commands :: "string \<Rightarrow> 'c command_def option"
  en_max_undo :: nat
  en_context :: 'c
  en_check :: "json \<Rightarrow> diagnostic list"
  en_doc_listeners :: "(json \<Rightarrow> act list) list"
  en_tx_listeners :: "(tx_event \<Rightarrow> act list) list"

definition new_store :: "foreign \<Rightarrow> own_fail + store" where
  "new_store initial =
     map_result (\<lambda>j. \<lparr>s_doc = j, s_revision = 0, s_undo = [], s_redo = [], s_queue = [], s_notifying = False\<rparr>)
       (ownJson (default_limits False) (fst initial) (snd initial))"

definition canUndo :: "store \<Rightarrow> bool" where
  "canUndo s \<longleftrightarrow> s_undo s \<noteq> []"

definition canRedo :: "store \<Rightarrow> bool" where
  "canRedo s \<longleftrightarrow> s_redo s \<noteq> []"

section \<open>Operations\<close>

datatype outcome =
    Rejected "diagnostic list"
  | Unchanged "diagnostic list"
  | Committed json "patch_op list" "patch_op list" "diagnostic list"

text \<open>The first half of \<open>commit\<close>: the document becomes authoritative and the notification is queued.\<close>

definition enqueue :: "json \<Rightarrow> tx_event \<Rightarrow> store \<Rightarrow> store" where
  "enqueue doc e s = s\<lparr>s_doc := doc, s_queue := s_queue s @ [(doc, e)]\<rparr>"

text \<open>\<open>push\<close> and the \<open>shift\<close> beyond the bound.\<close>

definition push_bounded :: "nat \<Rightarrow> 'a \<Rightarrow> 'a list \<Rightarrow> 'a list" where
  "push_bounded n x xs = (let ys = xs @ [x] in if length ys > n then tl ys else ys)"

definition dispatch_commit ::
  "'c store_env \<Rightarrow> string \<Rightarrow> json \<Rightarrow> string option \<Rightarrow> tx \<Rightarrow> diagnostic list \<Rightarrow> store \<Rightarrow> store \<times> outcome" where
  "dispatch_commit env cmd params actor t ds s =
     (let (doc, fwd, bwd) = tx_result t in
      if fwd = [] then (s, Unchanged ds)
      else if hasErrors (en_check env doc) then (s, Rejected (ds @ en_check env doc))
      else
        (let rev = Suc (s_revision s);
             rc = \<lparr>tr_revision = rev, tr_command = cmd, tr_params = params, tr_actor = actor,
                    tr_forward = fwd, tr_inverse = bwd\<rparr>;
             s1 = s\<lparr>s_revision := rev, s_undo := push_bounded (en_max_undo env) rc (s_undo s), s_redo := []\<rparr>
         in (enqueue doc \<lparr>ev_kind = EvDispatch, ev_record = rc, ev_revision = rev, ev_patch = fwd\<rparr> s1,
             Committed doc fwd bwd (ds @ en_check env doc))))"

definition dispatch_core :: "'c store_env \<Rightarrow> invocation \<Rightarrow> store \<Rightarrow> store \<times> outcome" where
  "dispatch_core env iv s =
     (case en_commands env (iv_command iv) of
        None \<Rightarrow> (s, Rejected [error_diag ''command.unknown''])
      | Some cmd \<Rightarrow>
          if \<exists>a. iv_actor iv = Some a \<and> \<not> isValidActorId a
          then (s, Rejected [error_diag ''command.actor.invalid''])
          else (case ownJson (default_limits True) (fst (iv_params iv)) (snd (iv_params iv)) of
              Inl e \<Rightarrow> (s, Rejected [error_diag ''command.params.notJson''])
            | Inr params \<Rightarrow>
                (case executeCommand cmd (s_doc s) params
                        (createTransactionBuilder (s_doc s) (iv_actor iv)) (en_context env) of
                   Inl e \<Rightarrow> (s, Rejected [error_diag ''command.threw''])
                 | Inr (t, ds) \<Rightarrow>
                     if hasErrors ds then (s, Rejected ds)
                     else dispatch_commit env (iv_command iv) params (iv_actor iv) t ds s)))"

text \<open>\<open>undo\<close> and \<open>redo\<close> pop before they replay: when the replay throws, the record is gone.\<close>

datatype step_result = NothingToDo | Threw replay_error | Stepped

definition undo_core :: "store \<Rightarrow> store \<times> step_result" where
  "undo_core s =
     (if s_undo s = [] then (s, NothingToDo)
      else
        (let rc = last (s_undo s); s1 = s\<lparr>s_undo := butlast (s_undo s)\<rparr> in
         case replayHistoryOps (s_doc s) (tr_inverse rc) False of
           Inl e \<Rightarrow> (s1, Threw e)
         | Inr r \<Rightarrow>
             (let rev = Suc (s_revision s);
                  s2 = s1\<lparr>s_redo := s_redo s @ [rc], s_revision := rev\<rparr>
              in (enqueue (rp_doc r) \<lparr>ev_kind = EvUndo, ev_record = rc, ev_revision = rev, ev_patch = rp_applied r\<rparr> s2,
                  Stepped))))"

definition redo_core :: "store \<Rightarrow> store \<times> step_result" where
  "redo_core s =
     (if s_redo s = [] then (s, NothingToDo)
      else
        (let rc = last (s_redo s); s1 = s\<lparr>s_redo := butlast (s_redo s)\<rparr> in
         case replayHistoryOps (s_doc s) (tr_forward rc) False of
           Inl e \<Rightarrow> (s1, Threw e)
         | Inr r \<Rightarrow>
             (let rev = Suc (s_revision s);
                  s2 = s1\<lparr>s_undo := s_undo s @ [rc], s_revision := rev\<rparr>
              in (enqueue (rp_doc r) \<lparr>ev_kind = EvRedo, ev_record = rc, ev_revision = rev, ev_patch = rp_applied r\<rparr> s2,
                  Stepped))))"

definition clearHistory :: "store \<Rightarrow> store" where
  "clearHistory s = s\<lparr>s_undo := [], s_redo := []\<rparr>"

definition historySnapshot ::
  "store \<Rightarrow> nat \<times> (patch_op list \<times> patch_op list) list \<times> (patch_op list \<times> patch_op list) list" where
  "historySnapshot s =
     (let detach = map (\<lambda>rc. (tr_forward rc, tr_inverse rc))
      in (s_revision s, detach (s_undo s), detach (s_redo s)))"

fun run_act :: "'c store_env \<Rightarrow> act \<Rightarrow> store \<Rightarrow> store" where
  "run_act env (ActDispatch iv) s = fst (dispatch_core env iv s)"
| "run_act env ActUndo s = fst (undo_core s)"
| "run_act env ActRedo s = fst (redo_core s)"
| "run_act env ActClearHistory s = clearHistory s"

definition run_acts :: "'c store_env \<Rightarrow> act list \<Rightarrow> store \<Rightarrow> store" where
  "run_acts env acts s = fold (run_act env) acts s"

section \<open>Notification\<close>

text \<open>The log records what the transaction listeners are told: the listener's position and the event.\<close>

type_synonym log = "(nat \<times> tx_event) list"

definition notify_doc :: "'c store_env \<Rightarrow> json \<Rightarrow> store \<Rightarrow> store" where
  "notify_doc env doc s = fold (\<lambda>l. run_acts env (l doc)) (en_doc_listeners env) s"

definition emit :: "'c store_env \<Rightarrow> tx_event \<Rightarrow> store \<times> log \<Rightarrow> store \<times> log" where
  "emit env e sl =
     fold (\<lambda>(i, l) (s, lg). (run_acts env (l e) s, lg @ [(i, e)]))
       (zip [0..<length (en_tx_listeners env)] (en_tx_listeners env)) sl"

text \<open>The signal only fires for a document that is not the one it holds, that is, when an op was applied.\<close>

fun drain :: "nat \<Rightarrow> 'c store_env \<Rightarrow> store \<times> log \<Rightarrow> (store \<times> log) option" where
  "drain 0 env sl = None"
| "drain (Suc n) env (s, lg) =
     (case s_queue s of
        [] \<Rightarrow> Some (s\<lparr>s_notifying := False\<rparr>, lg)
      | (doc, e) # rest \<Rightarrow>
          (let s1 = s\<lparr>s_queue := rest\<rparr>;
               s2 = (if ev_patch e = [] then s1 else notify_doc env doc s1)
           in drain n env (emit env e (s2, lg))))"

text \<open>The second half of \<open>commit\<close>, after any operation called from outside a notification.\<close>

definition settle :: "nat \<Rightarrow> 'c store_env \<Rightarrow> store \<times> log \<Rightarrow> (store \<times> log) option" where
  "settle n env sl =
     (if s_notifying (fst sl) \<or> s_queue (fst sl) = [] then Some sl
      else drain n env ((fst sl)\<lparr>s_notifying := True\<rparr>, snd sl))"

definition perform :: "nat \<Rightarrow> 'c store_env \<Rightarrow> act \<Rightarrow> store \<times> log \<Rightarrow> (store \<times> log) option" where
  "perform n env a sl = settle n env (run_act env a (fst sl), snd sl)"

section \<open>The invariant\<close>

definition record_ok :: "tx_record \<Rightarrow> bool" where
  "record_ok rc \<longleftrightarrow> list_all wf_op (tr_forward rc) \<and> list_all wf_op (tr_inverse rc)"

definition store_ok :: "nat \<Rightarrow> store \<Rightarrow> bool" where
  "store_ok bound s \<longleftrightarrow>
     wf_json (s_doc s) \<and> list_all record_ok (s_undo s) \<and> list_all record_ok (s_redo s) \<and>
     length (s_undo s) + length (s_redo s) \<le> bound"

text \<open>The values commands hand to the transaction builder live in heaps of JavaScript objects.\<close>

definition env_ok :: "'c store_env \<Rightarrow> bool" where
  "env_ok env \<longleftrightarrow> (\<forall>name cmd doc params ctx. en_commands env name = Some cmd \<longrightarrow>
     script_heaps_ok (cd_run cmd doc params ctx))"

text \<open>Running a feed of events: their patches in order.\<close>

definition run_feed :: "json \<Rightarrow> tx_event list \<Rightarrow> patch_error + json" where
  "run_feed = foldR (\<lambda>d e. applyOwnedOps d (ev_patch e))"

text \<open>What an operation does to the queue: it appends events with consecutive revisions whose patches
  lead from the old document to the new one.\<close>

definition extends :: "store \<Rightarrow> store \<Rightarrow> bool" where
  "extends s s' \<longleftrightarrow> s_notifying s' = s_notifying s \<and>
     (\<exists>es. map snd (s_queue s') = map snd (s_queue s) @ es \<and> s_revision s \<le> s_revision s' \<and>
       map ev_revision es = [Suc (s_revision s) ..< Suc (s_revision s')] \<and>
       run_feed (s_doc s) es = Inr (s_doc s'))"

lemma run_feed_append: "run_feed d (es @ fs) = rbind (run_feed d es) (\<lambda>d'. run_feed d' fs)"
  by (simp add: run_feed_def foldR_append)

lemma run_feed_simps [simp]: "run_feed d [] = Inr d"
  "run_feed d (e # es) = rbind (applyOwnedOps d (ev_patch e)) (\<lambda>d'. run_feed d' es)"
  by (simp_all add: run_feed_def)

lemma extends_refl [simp]: "extends s s"
  by (simp add: extends_def)

lemma upt_split: "a \<le> b \<Longrightarrow> b \<le> c \<Longrightarrow> [Suc a ..< Suc b] @ [Suc b ..< Suc c] = [Suc a ..< Suc c]"
  by (metis Suc_le_mono le_Suc_ex upt_add_eq_append)

lemma extends_trans:
  assumes "extends a b" and "extends b c"
  shows "extends a c"
proof -
  from assms obtain es fs where
    "map snd (s_queue b) = map snd (s_queue a) @ es" "s_revision a \<le> s_revision b"
    "map ev_revision es = [Suc (s_revision a) ..< Suc (s_revision b)]" "run_feed (s_doc a) es = Inr (s_doc b)"
    "map snd (s_queue c) = map snd (s_queue b) @ fs" "s_revision b \<le> s_revision c"
    "map ev_revision fs = [Suc (s_revision b) ..< Suc (s_revision c)]" "run_feed (s_doc b) fs = Inr (s_doc c)"
    "s_notifying b = s_notifying a" "s_notifying c = s_notifying b"
    unfolding extends_def by blast
  then have "map snd (s_queue c) = map snd (s_queue a) @ (es @ fs) \<and> s_revision a \<le> s_revision c \<and>
      map ev_revision (es @ fs) = [Suc (s_revision a) ..< Suc (s_revision c)] \<and>
      run_feed (s_doc a) (es @ fs) = Inr (s_doc c) \<and> s_notifying c = s_notifying a"
    using upt_split [of "s_revision a" "s_revision b" "s_revision c"] by (simp add: run_feed_append del: upt_Suc)
  then show ?thesis unfolding extends_def by blast
qed

lemma enqueue_simps [simp]:
  "s_doc (enqueue doc e s) = doc" "s_revision (enqueue doc e s) = s_revision s"
  "s_undo (enqueue doc e s) = s_undo s" "s_redo (enqueue doc e s) = s_redo s"
  "s_queue (enqueue doc e s) = s_queue s @ [(doc, e)]" "s_notifying (enqueue doc e s) = s_notifying s"
  by (simp_all add: enqueue_def)

text \<open>One committed event.\<close>

lemma extends_commit:
  assumes "applyOwnedOps (s_doc s) (ev_patch e) = Inr doc" and "ev_revision e = Suc (s_revision s)"
    and "s_doc s1 = s_doc s" and "s_queue s1 = s_queue s" and "s_revision s1 = Suc (s_revision s)"
    and "s_notifying s1 = s_notifying s"
  shows "extends s (enqueue doc e s1)"
  unfolding extends_def
  by (intro conjI exI [of _ "[e]"]) (use assms in simp_all)

lemma push_bounded_length: "length xs \<le> n \<Longrightarrow> length (push_bounded n x xs) \<le> n"
  by (simp add: push_bounded_def Let_def)

lemma push_bounded_all: "list_all P xs \<Longrightarrow> P x \<Longrightarrow> list_all P (push_bounded n x xs)"
  by (cases xs) (auto simp: push_bounded_def Let_def)

lemma list_all_butlast: "list_all P xs \<Longrightarrow> list_all P (butlast xs)"
  by (auto simp: list_all_iff dest: in_set_butlastD)

lemma list_all_last: "list_all P xs \<Longrightarrow> xs \<noteq> [] \<Longrightarrow> P (last xs)"
  by (simp add: list_all_iff)

section \<open>Each operation keeps the invariant and extends the feed\<close>

lemma dispatch_commit_step:
  assumes "dispatch_commit env cmd params actor t ds s = (s', out)" and "tx_inv (s_doc s) t"
    and "store_ok (en_max_undo env) s"
  shows "store_ok (en_max_undo env) s' \<and> extends s s'"
proof (cases "s' = s")
  case False
  obtain doc fwd bwd where res: "tx_result t = (doc, fwd, bwd)" by (cases "tx_result t") auto
  then have eqs: "doc = tx_working t" "fwd = tx_ops t" "bwd = invertOps (tx_ops t)"
    by (auto simp: tx_result_def)
  have wf: "wf_json doc" "list_all wf_op fwd" "list_all wf_op bwd" "applyOwnedOps (s_doc s) fwd = Inr doc"
    using assms(2) tx_inv_wf eqs by (auto simp: tx_inv_def)
  let ?rev = "Suc (s_revision s)"
  let ?rc = "\<lparr>tr_revision = ?rev, tr_command = cmd, tr_params = params, tr_actor = actor,
      tr_forward = fwd, tr_inverse = bwd\<rparr>"
  let ?s1 = "s\<lparr>s_revision := ?rev, s_undo := push_bounded (en_max_undo env) ?rc (s_undo s), s_redo := []\<rparr>"
  let ?e = "\<lparr>ev_kind = EvDispatch, ev_record = ?rc, ev_revision = ?rev, ev_patch = fwd\<rparr>"
  have s': "s' = enqueue doc ?e ?s1"
    using assms(1) False res by (simp add: dispatch_commit_def Let_def split: if_splits)
  have "extends s s'" unfolding s' by (rule extends_commit) (simp_all add: wf)
  moreover have "store_ok (en_max_undo env) s'"
    using assms(3) wf unfolding s' store_ok_def
    by (simp add: record_ok_def push_bounded_all push_bounded_length)
  ultimately show ?thesis by simp
qed (use assms(3) in simp)

lemma dispatch_step:
  assumes "dispatch_core env iv s = (s', out)" and "env_ok env" and "store_ok (en_max_undo env) s"
  shows "store_ok (en_max_undo env) s' \<and> extends s s'"
proof (cases "s' = s")
  case False
  with assms(1) obtain cmd params t ds where cmd: "en_commands env (iv_command iv) = Some cmd"
    and ex: "executeCommand cmd (s_doc s) params (createTransactionBuilder (s_doc s) (iv_actor iv)) (en_context env) = Inr (t, ds)"
    and dc: "dispatch_commit env (iv_command iv) params (iv_actor iv) t ds s = (s', out)"
    unfolding dispatch_core_def by (auto split: option.splits sum.splits if_splits)
  have "script_heaps_ok (cd_run cmd (s_doc s) params (en_context env))"
    using assms(2) cmd by (simp add: env_ok_def)
  then have "tx_inv (s_doc s) t"
    using executeCommand_inv [OF ex] tx_inv_create assms(3) by (simp add: store_ok_def)
  from dispatch_commit_step [OF dc this assms(3)] show ?thesis .
qed (use assms(3) in simp)

lemma undo_step:
  assumes "undo_core s = (s', out)" and "store_ok n s"
  shows "store_ok n s' \<and> extends s s'"
proof (cases "s_undo s = []")
  case False
  let ?rc = "last (s_undo s)"
  have ok: "record_ok ?rc" and rest: "list_all record_ok (butlast (s_undo s))"
    using assms(2) False by (simp_all add: store_ok_def list_all_last list_all_butlast)
  show ?thesis
  proof (cases "replayHistoryOps (s_doc s) (tr_inverse ?rc) False")
    case (Inl e)
    then have s': "s' = s\<lparr>s_undo := butlast (s_undo s)\<rparr>"
      using assms(1) False by (simp add: undo_core_def Let_def)
    show ?thesis
      using assms(2) rest unfolding s' by (simp add: store_ok_def extends_def) (linarith)
  next
    case (Inr r)
    have app: "applyOwnedOps (s_doc s) (rp_applied r) = Inr (rp_doc r)" "wf_json (rp_doc r)"
      using replay_applies [OF Inr] assms(2) ok by (auto simp: store_ok_def record_ok_def)
    let ?s1 = "s\<lparr>s_undo := butlast (s_undo s), s_redo := s_redo s @ [?rc], s_revision := Suc (s_revision s)\<rparr>"
    let ?e = "\<lparr>ev_kind = EvUndo, ev_record = ?rc, ev_revision = Suc (s_revision s), ev_patch = rp_applied r\<rparr>"
    have s': "s' = enqueue (rp_doc r) ?e ?s1"
      using assms(1) False Inr by (simp add: undo_core_def Let_def)
    have "extends s s'" unfolding s' by (rule extends_commit) (simp_all add: app)
    moreover have "store_ok n s'"
      using assms(2) False ok app unfolding s' store_ok_def
      by (cases "s_undo s" rule: rev_cases) simp_all
    ultimately show ?thesis by simp
  qed
qed (use assms in \<open>simp add: undo_core_def\<close>)

lemma redo_step:
  assumes "redo_core s = (s', out)" and "store_ok n s"
  shows "store_ok n s' \<and> extends s s'"
proof (cases "s_redo s = []")
  case False
  let ?rc = "last (s_redo s)"
  have ok: "record_ok ?rc" and rest: "list_all record_ok (butlast (s_redo s))"
    using assms(2) False by (simp_all add: store_ok_def list_all_last list_all_butlast)
  show ?thesis
  proof (cases "replayHistoryOps (s_doc s) (tr_forward ?rc) False")
    case (Inl e)
    then have s': "s' = s\<lparr>s_redo := butlast (s_redo s)\<rparr>"
      using assms(1) False by (simp add: redo_core_def Let_def)
    show ?thesis
      using assms(2) rest unfolding s' by (simp add: store_ok_def extends_def) (linarith)
  next
    case (Inr r)
    have app: "applyOwnedOps (s_doc s) (rp_applied r) = Inr (rp_doc r)" "wf_json (rp_doc r)"
      using replay_applies [OF Inr] assms(2) ok by (auto simp: store_ok_def record_ok_def)
    let ?s1 = "s\<lparr>s_redo := butlast (s_redo s), s_undo := s_undo s @ [?rc], s_revision := Suc (s_revision s)\<rparr>"
    let ?e = "\<lparr>ev_kind = EvRedo, ev_record = ?rc, ev_revision = Suc (s_revision s), ev_patch = rp_applied r\<rparr>"
    have s': "s' = enqueue (rp_doc r) ?e ?s1"
      using assms(1) False Inr by (simp add: redo_core_def Let_def)
    have "extends s s'" unfolding s' by (rule extends_commit) (simp_all add: app)
    moreover have "store_ok n s'"
      using assms(2) False ok app unfolding s' store_ok_def
      by (cases "s_redo s" rule: rev_cases) simp_all
    ultimately show ?thesis by simp
  qed
qed (use assms in \<open>simp add: redo_core_def\<close>)

lemma run_act_step:
  assumes "env_ok env" and "store_ok (en_max_undo env) s"
  shows "store_ok (en_max_undo env) (run_act env a s) \<and> extends s (run_act env a s)"
proof (cases a)
  case (ActDispatch iv)
  then show ?thesis using dispatch_step [of env iv s] assms by (cases "dispatch_core env iv s") simp
next
  case ActUndo
  then show ?thesis using undo_step [of s] assms by (cases "undo_core s") simp
next
  case ActRedo
  then show ?thesis using redo_step [of s] assms by (cases "redo_core s") simp
next
  case ActClearHistory
  then show ?thesis using assms by (simp add: clearHistory_def store_ok_def extends_def)
qed

text \<open>Everything a notification triggers is a sequence of operations.\<close>

definition good_step :: "nat \<Rightarrow> store \<Rightarrow> store \<Rightarrow> bool" where
  "good_step n s s' \<longleftrightarrow> store_ok n s' \<and> extends s s'"

lemma good_fold:
  assumes "store_ok n s" and "\<And>x s. x \<in> set xs \<Longrightarrow> store_ok n s \<Longrightarrow> good_step n s (f x s)"
  shows "good_step n s (fold f xs s)"
  using assms
proof (induction xs arbitrary: s)
  case (Cons x xs)
  have "good_step n s (f x s)" using Cons.prems by simp
  moreover from this have "good_step n (f x s) (fold f xs (f x s))"
    using Cons.prems(2) by (intro Cons.IH) (simp_all add: good_step_def)
  ultimately show ?case using extends_trans by (auto simp: good_step_def)
qed (simp add: good_step_def)

lemma run_acts_step: "env_ok env \<Longrightarrow> store_ok (en_max_undo env) s \<Longrightarrow> good_step (en_max_undo env) s (run_acts env acts s)"
  unfolding run_acts_def by (rule good_fold) (simp_all add: good_step_def run_act_step)

lemma notify_doc_step: "env_ok env \<Longrightarrow> store_ok (en_max_undo env) s \<Longrightarrow> good_step (en_max_undo env) s (notify_doc env doc s)"
  unfolding notify_doc_def by (rule good_fold) (simp_all add: run_acts_step)

lemma emit_fold:
  assumes "env_ok env" and "store_ok (en_max_undo env) s"
    and "fold (\<lambda>(i, l) (s, lg). (run_acts env (l e) s, lg @ [(i, e)])) ls (s, lg) = (s', lg')"
  shows "good_step (en_max_undo env) s s' \<and> lg' = lg @ map (\<lambda>p. (fst p, e)) ls"
  using assms(2,3)
proof (induction ls arbitrary: s lg)
  case (Cons p ls)
  obtain i l where p: "p = (i, l)" by fastforce
  have st: "good_step (en_max_undo env) s (run_acts env (l e) s)"
    using assms(1) Cons.prems(1) by (rule run_acts_step)
  have "fold (\<lambda>(i, l) (s, lg). (run_acts env (l e) s, lg @ [(i, e)])) ls (run_acts env (l e) s, lg @ [(i, e)]) = (s', lg')"
    using Cons.prems(2) p by simp
  from Cons.IH [OF _ this] st have "good_step (en_max_undo env) (run_acts env (l e) s) s'"
    "lg' = (lg @ [(i, e)]) @ map (\<lambda>p. (fst p, e)) ls" by (simp_all add: good_step_def)
  with st show ?case using p extends_trans by (auto simp: good_step_def)
qed (simp add: good_step_def)

definition told :: "'c store_env \<Rightarrow> tx_event \<Rightarrow> log" where
  "told env e = map (\<lambda>i. (i, e)) [0..<length (en_tx_listeners env)]"

lemma emit_step:
  assumes "env_ok env" and "store_ok (en_max_undo env) s" and "emit env e (s, lg) = (s', lg')"
  shows "good_step (en_max_undo env) s s' \<and> lg' = lg @ told env e"
proof -
  have "map (\<lambda>p. (fst p, e)) (zip [0..<length (en_tx_listeners env)] (en_tx_listeners env)) = told env e"
    by (simp add: told_def map_fst_zip flip: map_map [of "\<lambda>i. (i, e)" fst, unfolded comp_def])
  then show ?thesis using emit_fold [OF assms(1,2) assms(3) [unfolded emit_def]] by simp
qed

section \<open>The drain\<close>

text \<open>\<open>pending base k s\<close>: the queued events carry on from revision \<open>k\<close>, where the document was \<open>base\<close>.\<close>

definition pending :: "json \<Rightarrow> nat \<Rightarrow> store \<Rightarrow> bool" where
  "pending base k s \<longleftrightarrow> k \<le> s_revision s \<and>
     map (ev_revision \<circ> snd) (s_queue s) = [Suc k ..< Suc (s_revision s)] \<and>
     run_feed base (map snd (s_queue s)) = Inr (s_doc s)"

lemma pending_extends:
  assumes "pending base k s" and "extends s s'"
  shows "pending base k s'"
proof -
  from assms(2) obtain es where es: "map snd (s_queue s') = map snd (s_queue s) @ es"
    "s_revision s \<le> s_revision s'" "map ev_revision es = [Suc (s_revision s) ..< Suc (s_revision s')]"
    "run_feed (s_doc s) es = Inr (s_doc s')" unfolding extends_def by blast
  have "map (ev_revision \<circ> snd) (s_queue s') = map (ev_revision \<circ> snd) (s_queue s) @ map ev_revision es"
    using es(1) by (metis map_append map_map)
  then show ?thesis
    using assms(1) es upt_split [of k "s_revision s" "s_revision s'"]
    by (auto simp: pending_def run_feed_append simp del: upt_Suc)
qed

lemma drain_feed:
  assumes "drain n env (s, lg) = Some (s', lg')" and "env_ok env" and "store_ok (en_max_undo env) s"
    and "pending base k s"
  shows "store_ok (en_max_undo env) s' \<and> s_queue s' = [] \<and> \<not> s_notifying s' \<and>
    (\<exists>es. lg' = lg @ concat (map (told env) es) \<and> map ev_revision es = [Suc k ..< Suc (s_revision s')] \<and>
      run_feed base es = Inr (s_doc s') \<and> k \<le> s_revision s')"
  using assms(1,3,4)
proof (induction n arbitrary: s lg base k)
  case (Suc n)
  show ?case
  proof (cases "s_queue s")
    case Nil
    with Suc.prems have "s' = s\<lparr>s_notifying := False\<rparr>" "lg' = lg" by auto
    then show ?thesis using Nil Suc.prems(2,3) by (auto simp: store_ok_def pending_def)
  next
    case (Cons q rest)
    obtain doc e where q: "q = (doc, e)" by fastforce
    let ?s1 = "s\<lparr>s_queue := rest\<rparr>"
    let ?s2 = "if ev_patch e = [] then ?s1 else notify_doc env doc ?s1"
    obtain s3 lg3 where em: "emit env e (?s2, lg) = (s3, lg3)" by fastforce
    have rest: "drain n env (s3, lg3) = Some (s', lg')"
      using Suc.prems(1) Cons q em by (simp add: Let_def)
    have ok1: "store_ok (en_max_undo env) ?s1" using Suc.prems(2) by (simp add: store_ok_def)
    have s2: "good_step (en_max_undo env) ?s1 ?s2"
      using notify_doc_step [OF assms(2) ok1, of doc] ok1 by (simp add: good_step_def)
    have s3: "good_step (en_max_undo env) ?s2 s3" and lg3: "lg3 = lg @ told env e"
      using emit_step [OF assms(2) _ em] s2 by (simp_all add: good_step_def)
    have "k < s_revision s" and rev_e: "ev_revision e = Suc k"
      and revs: "map (ev_revision \<circ> snd) rest = [Suc (Suc k) ..< Suc (s_revision s)]"
    proof -
      have l: "ev_revision e # map (ev_revision \<circ> snd) rest = [Suc k ..< Suc (s_revision s)]"
        using Suc.prems(3) Cons q by (simp add: pending_def del: upt_Suc)
      then show "k < s_revision s" by (cases "k < s_revision s") (simp_all del: upt_Suc)
      with l show "ev_revision e = Suc k"
        "map (ev_revision \<circ> snd) rest = [Suc (Suc k) ..< Suc (s_revision s)]"
        by (simp_all add: upt_conv_Cons del: upt_Suc)
    qed
    moreover obtain base' where base': "applyOwnedOps base (ev_patch e) = Inr base'"
      "run_feed base' (map snd rest) = Inr (s_doc s)"
      using Suc.prems(3) Cons q by (auto simp: pending_def result_simps)
    ultimately have "pending base' (Suc k) ?s1" by (simp add: pending_def)
    then have "pending base' (Suc k) s3"
      using s2 s3 pending_extends extends_trans unfolding good_step_def by blast
    from Suc.IH [OF rest _ this] s3 obtain es where
      "store_ok (en_max_undo env) s'" "s_queue s' = []" "\<not> s_notifying s'"
      "lg' = lg3 @ concat (map (told env) es)" "map ev_revision es = [Suc (Suc k) ..< Suc (s_revision s')]"
      "run_feed base' es = Inr (s_doc s')" "Suc k \<le> s_revision s'"
      by (auto simp: good_step_def)
    then show ?thesis
      using lg3 base'(1) rev_e
      by (intro conjI exI [of _ "e # es"]) (simp_all add: upt_conv_Cons del: upt_Suc)
  qed
qed simp

text \<open>Without reacting listeners the drain ends: one unit of fuel per notification, and one to stop.\<close>

definition quiet :: "'c store_env \<Rightarrow> bool" where
  "quiet env \<longleftrightarrow> (\<forall>l \<in> set (en_doc_listeners env). \<forall>d. l d = []) \<and> (\<forall>l \<in> set (en_tx_listeners env). \<forall>e. l e = [])"

lemma passive_emit:
  assumes "quiet env"
  shows "fst (emit env e (s, lg)) = s"
proof -
  have "fst (fold (\<lambda>(i, l) (s, lg). (run_acts env (l e) s, lg @ [(i, e)])) ls (s, lg)) = s"
    if "\<forall>p \<in> set ls. snd p e = []" for ls :: "(nat \<times> (tx_event \<Rightarrow> act list)) list" and lg
    using that by (induction ls arbitrary: lg) (auto simp: run_acts_def)
  moreover have "\<forall>p \<in> set (zip [0..<length (en_tx_listeners env)] (en_tx_listeners env)). snd p e = []"
    using assms set_zip_rightD by (fastforce simp: quiet_def)
  ultimately show ?thesis by (simp add: emit_def)
qed

lemma passive_notify:
  assumes "quiet env"
  shows "notify_doc env doc s = s"
proof -
  have "fold (\<lambda>l. run_acts env (l doc)) ls s = s" if "\<forall>l \<in> set ls. l doc = []" for ls :: "(json \<Rightarrow> act list) list"
    using that by (induction ls) (simp_all add: run_acts_def)
  then show ?thesis using assms by (simp add: notify_doc_def quiet_def)
qed

lemma passive_drain:
  assumes "quiet env" and "length (s_queue s) < n"
  shows "\<exists>s' lg'. drain n env (s, lg) = Some (s', lg') \<and> s_doc s' = s_doc s"
  using assms(2)
proof (induction n arbitrary: s lg)
  case (Suc n)
  show ?case
  proof (cases "s_queue s")
    case (Cons q rest)
    obtain doc e where q: "q = (doc, e)" by fastforce
    let ?s1 = "s\<lparr>s_queue := rest\<rparr>"
    obtain lg' where "emit env e (?s1, lg) = (?s1, lg')"
      using passive_emit [OF assms(1), of e ?s1 lg] by (metis prod.collapse)
    moreover have "\<exists>s' lg''. drain n env (?s1, lg') = Some (s', lg'') \<and> s_doc s' = s_doc ?s1"
      using Suc.prems Cons by (intro Suc.IH) simp
    ultimately show ?thesis
      using Cons q passive_notify [OF assms(1)] by (simp add: Let_def)
  qed simp
qed simp

lemma one_notification:
  assumes "s_queue s = []"
  shows "length (s_queue (run_act env a s)) \<le> 1"
proof -
  have dc: "length (s_queue (fst (dispatch_commit env cmd params actor t ds s))) \<le> 1" for cmd params actor t ds
    using assms by (simp add: dispatch_commit_def Let_def split: prod.split)
  show ?thesis
    using assms dc
    by (cases a) (simp_all add: dispatch_core_def undo_core_def redo_core_def clearHistory_def Let_def
        split: option.split sum.split)
qed

section \<open>Undo after dispatch\<close>



text \<open>What a committed dispatch leaves: the record of the transaction, and one notification.\<close>

definition committed :: "'c store_env \<Rightarrow> store \<Rightarrow> json \<Rightarrow> tx_record \<Rightarrow> store" where
  "committed env s doc rc =
     s\<lparr>s_doc := doc, s_revision := tr_revision rc, s_undo := push_bounded (en_max_undo env) rc (s_undo s), s_redo := [],
       s_queue := s_queue s @
         [(doc, \<lparr>ev_kind = EvDispatch, ev_record = rc, ev_revision = tr_revision rc, ev_patch = tr_forward rc\<rparr>)]\<rparr>"

lemma dispatch_Committed:
  assumes "dispatch_core env iv s = (s', Committed doc fwd bwd ds)" and "env_ok env" and "wf_json (s_doc s)"
  obtains t rc where "tx_inv (s_doc s) t" and "tx_result t = (doc, fwd, bwd)" and "fwd \<noteq> []"
    and "\<not> hasErrors (en_check env doc)" and "s' = committed env s doc rc"
    and "tr_revision rc = Suc (s_revision s)" and "tr_command rc = iv_command iv" and "tr_actor rc = iv_actor iv"
    and "ownJson (default_limits True) (fst (iv_params iv)) (snd (iv_params iv)) = Inr (tr_params rc)"
    and "tr_forward rc = fwd" and "tr_inverse rc = bwd"
proof -
  from assms(1) obtain cmd params t ds0 where cmd: "en_commands env (iv_command iv) = Some cmd"
    and own: "ownJson (default_limits True) (fst (iv_params iv)) (snd (iv_params iv)) = Inr params"
    and ex: "executeCommand cmd (s_doc s) params (createTransactionBuilder (s_doc s) (iv_actor iv)) (en_context env) = Inr (t, ds0)"
    and dc: "dispatch_commit env (iv_command iv) params (iv_actor iv) t ds0 s = (s', Committed doc fwd bwd ds)"
    unfolding dispatch_core_def by (auto split: option.splits sum.splits if_splits)
  have "script_heaps_ok (cd_run cmd (s_doc s) params (en_context env))"
    using assms(2) cmd by (simp add: env_ok_def)
  then have inv: "tx_inv (s_doc s) t"
    using executeCommand_inv [OF ex] tx_inv_create assms(3) by blast
  obtain d f b where res: "tx_result t = (d, f, b)" by (cases "tx_result t") auto
  show thesis
    using dc res inv own unfolding dispatch_commit_def Let_def
    by (intro that [of t "\<lparr>tr_revision = Suc (s_revision s), tr_command = iv_command iv, tr_params = params,
          tr_actor = iv_actor iv, tr_forward = fwd, tr_inverse = bwd\<rparr>"])
      (auto simp: committed_def enqueue_def split: if_split_asm)
qed


section \<open>Properties\<close>


text \<open>C33: a dispatch is atomic. When it is rejected or changes nothing, the store is exactly as before. When it
  commits, the produced patch is not empty, leads from the old document to the new one, which passed the structural
  check, and its inverse leads back; and the store differs in exactly this: the new document, the next revision, the
  record of the transaction on the undo stack, the emptied redo stack, and one queued notification with the patch.\<close>

theorem dispatch_atomic:
  assumes "env_ok env" and "wf_json (s_doc s)" and "dispatch_core env iv s = (s', out)"
  shows "case out of
      Rejected ds \<Rightarrow> s' = s \<and> hasErrors ds
    | Unchanged ds \<Rightarrow> s' = s
    | Committed doc fwd bwd ds \<Rightarrow> fwd \<noteq> [] \<and> applyOwnedOps (s_doc s) fwd = Inr doc \<and> \<not> hasErrors (en_check env doc) \<and>
        (\<exists>d. applyOwnedOps doc bwd = Inr d \<and> jsonSameValue d (s_doc s)) \<and>
        (\<exists>params. ownJson (default_limits True) (fst (iv_params iv)) (snd (iv_params iv)) = Inr params \<and>
          (let rev = Suc (s_revision s);
               rc = \<lparr>tr_revision = rev, tr_command = iv_command iv, tr_params = params, tr_actor = iv_actor iv,
                 tr_forward = fwd, tr_inverse = bwd\<rparr>
           in s' = s\<lparr>s_doc := doc, s_revision := rev, s_undo := push_bounded (en_max_undo env) rc (s_undo s),
             s_redo := [], s_queue := s_queue s @
               [(doc, \<lparr>ev_kind = EvDispatch, ev_record = rc, ev_revision = rev, ev_patch = fwd\<rparr>)]\<rparr>))"
proof (cases out)
  case (Committed doc fwd bwd ds)
  note run = assms(3) [unfolded Committed]
  from run assms(1,2) show ?thesis
  proof (rule dispatch_Committed)
    fix t rc
    assume t: "tx_inv (s_doc s) t" "tx_result t = (doc, fwd, bwd)" and ne: "fwd \<noteq> []" "\<not> hasErrors (en_check env doc)"
      and s': "s' = committed env s doc rc" and rc: "tr_revision rc = Suc (s_revision s)"
      "tr_command rc = iv_command iv" "tr_actor rc = iv_actor iv"
      "ownJson (default_limits True) (fst (iv_params iv)) (snd (iv_params iv)) = Inr (tr_params rc)"
      "tr_forward rc = fwd" "tr_inverse rc = bwd"
    define rc' where "rc' = \<lparr>tr_revision = Suc (s_revision s), tr_command = iv_command iv, tr_params = tr_params rc,
        tr_actor = iv_actor iv, tr_forward = fwd, tr_inverse = bwd\<rparr>"
    have "rc = rc'" using rc unfolding rc'_def by (cases rc) simp
    then have s': "s' = s\<lparr>s_doc := doc, s_revision := Suc (s_revision s),
        s_undo := push_bounded (en_max_undo env) rc' (s_undo s), s_redo := [], s_queue := s_queue s @
          [(doc, \<lparr>ev_kind = EvDispatch, ev_record = rc', ev_revision = Suc (s_revision s), ev_patch = fwd\<rparr>)]\<rparr>"
      using s' rc unfolding committed_def by simp
    show ?thesis
      unfolding Committed outcome.case Let_def
      by (intro conjI exI [of _ "tr_params rc"] ne tx_inv_exact(1,3) [OF t] rc(4)) (use s' in \<open>simp add: rc'_def\<close>)
  qed
next
  case (Rejected ds)
  have app: "hasErrors ys \<Longrightarrow> hasErrors (xs @ ys)" for xs ys by (simp add: hasErrors_def)
  have "s' = s \<and> hasErrors ds" if "dispatch_commit env cmd params actor t es s = (s', Rejected ds)" for cmd params actor t es
    using that app by (auto simp: dispatch_commit_def Let_def split: prod.split_asm if_split_asm)
  then show ?thesis
    using assms(3) unfolding Rejected dispatch_core_def by (auto split: option.split_asm sum.split_asm if_split_asm)
next
  case (Unchanged ds)
  have "s' = s" if "dispatch_commit env cmd params actor t es s = (s', Unchanged ds)" for cmd params actor t es
    using that by (auto simp: dispatch_commit_def Let_def split: prod.split_asm if_split_asm)
  then show ?thesis
    using assms(3) unfolding Unchanged dispatch_core_def by (auto split: option.split_asm sum.split_asm if_split_asm)
qed

text \<open>C8: every observer sees every commit, once, in commit order. Whatever an operation and the calls of its
  listeners do, all listeners are told the same events; their revisions follow the store's revision
  without a gap, and their patches, applied in order to the document before, give the document after.
  The store comes to rest with an empty queue, well-formed documents and bounded history.\<close>

theorem feed_in_commit_order:
  assumes "env_ok env" and "store_ok (en_max_undo env) s" and "s_queue s = []" and "\<not> s_notifying s"
    and "perform n env a (s, lg) = Some (s', lg')"
  shows "store_ok (en_max_undo env) s' \<and> s_queue s' = [] \<and> \<not> s_notifying s' \<and>
    (\<exists>es. lg' = lg @ concat (map (told env) es) \<and>
      map ev_revision es = [Suc (s_revision s) ..< Suc (s_revision s')] \<and>
      run_feed (s_doc s) es = Inr (s_doc s'))"
proof -
  let ?s1 = "run_act env a s"
  have ok: "store_ok (en_max_undo env) ?s1" and ext: "extends s ?s1"
    using run_act_step [OF assms(1,2)] by blast+
  have pend: "pending (s_doc s) (s_revision s) ?s1"
  proof (rule pending_extends [OF _ ext])
    show "pending (s_doc s) (s_revision s) s" using assms(3) by (simp add: pending_def)
  qed
  have quietly: "\<not> s_notifying ?s1" using ext assms(4) by (simp add: extends_def)
  show ?thesis
  proof (cases "s_queue ?s1 = []")
    case True
    then have "s' = ?s1" "lg' = lg" using assms(5) quietly by (auto simp: perform_def settle_def)
    with True ok quietly pend show ?thesis by (auto simp: pending_def intro!: exI [of _ "[]"])
  next
    case False
    then have d: "drain n env (?s1\<lparr>s_notifying := True\<rparr>, lg) = Some (s', lg')"
      using assms(5) quietly by (simp add: perform_def settle_def)
    have "store_ok (en_max_undo env) (?s1\<lparr>s_notifying := True\<rparr>)"
      "pending (s_doc s) (s_revision s) (?s1\<lparr>s_notifying := True\<rparr>)"
      using ok pend by (simp_all add: store_ok_def pending_def del: upt_Suc)
    from drain_feed [OF d assms(1) this] show ?thesis by blast
  qed
qed

text \<open>C34: with listeners that only listen, every operation returns: two units of fuel are enough for the
  one notification it can queue.\<close>

theorem quiet_operations_return:
  assumes "quiet env" and "s_queue s = []"
  shows "\<exists>s' lg'. perform (Suc (Suc 0)) env a (s, lg) = Some (s', lg') \<and> s_doc s' = s_doc (run_act env a s)"
proof -
  let ?s1 = "run_act env a s"
  have "length (s_queue (?s1\<lparr>s_notifying := True\<rparr>)) < Suc (Suc 0)"
    using one_notification [OF assms(2), of env a] by simp
  from passive_drain [OF assms(1) this, of lg] show ?thesis
    by (simp add: perform_def settle_def)
qed

text \<open>A store with one command and a listener that undoes every dispatch it hears of.\<close>

definition demo_command :: "unit command_def" where
  "demo_command = \<lparr>cd_validate = (\<lambda>doc params ctx. []), cd_run = (\<lambda>doc params ctx. demo_script)\<rparr>"

definition demo_env :: "(tx_event \<Rightarrow> act list) list \<Rightarrow> unit store_env" where
  "demo_env ls = \<lparr>en_commands = (\<lambda>name. if name = ''demo'' then Some demo_command else None), en_max_undo = 200,
     en_context = (), en_check = (\<lambda>doc. []), en_doc_listeners = [], en_tx_listeners = ls\<rparr>"

definition demo_undoer :: "tx_event \<Rightarrow> act list" where
  "demo_undoer e = (if ev_kind e = EvDispatch then [ActUndo] else [])"

definition demo_invocation :: invocation where
  "demo_invocation = \<lparr>iv_command = ''demo'', iv_params = (\<lambda>_. RawArr [], RNull), iv_actor = None\<rparr>"

definition demo_store :: store where
  "demo_store = \<lparr>s_doc = demo_doc, s_revision = 0, s_undo = [], s_redo = [], s_queue = [], s_notifying = False\<rparr>"

definition demo_record :: tx_record where
  "demo_record = \<lparr>tr_revision = 1, tr_command = ''demo'', tr_params = JNull, tr_actor = None,
     tr_forward = [OpReplace [Key ''a''] (JNum 2) (JNum 1), OpRemove [Key ''b''] (JStr ''x'')],
     tr_inverse = [OpAdd [Key ''b''] (JStr ''x''), OpReplace [Key ''a''] (JNum 1) (JNum 2)]\<rparr>"

definition demo_event :: tx_event where
  "demo_event = \<lparr>ev_kind = EvDispatch, ev_record = demo_record, ev_revision = 1, ev_patch = tr_forward demo_record\<rparr>"

definition demo_dispatched :: store where
  "demo_dispatched = \<lparr>s_doc = JObj [(''a'', JNum 2)], s_revision = 1, s_undo = [demo_record], s_redo = [],
     s_queue = [(JObj [(''a'', JNum 2)], demo_event)], s_notifying = False\<rparr>"

lemma demo_params: "ownJson (default_limits True) (\<lambda>_. RawArr []) RNull = Inr JNull"
proof -
  have "own_visit (default_limits True) (\<lambda>_. RawArr []) 64 [] [] (0, 0) RNull = Inr (JNull, (1, 0))"
    using own_visit_complete [of "\<lambda>_. RawArr []" RNull JNull 64 "[]" "default_limits True" "(0, 0)" "[]"]
    by (simp add: heap_defined_def above_def fits_def default_limits_def denotes_denotes_elems_denotes_props.intros)
  moreover have "max_depth (default_limits True) = 64" by (simp add: default_limits_def)
  ultimately show ?thesis by (simp add: ownJson_def)
qed

lemma demo_dispatch:
  "dispatch_core (demo_env ls) demo_invocation demo_store =
   (demo_dispatched, Committed (JObj [(''a'', JNum 2)]) (tr_forward demo_record) (tr_inverse demo_record) [])"
  by (simp add: dispatch_core_def demo_env_def demo_invocation_def demo_store_def demo_params demo_command_def
      executeCommand_def hasErrors_def demo_run dispatch_commit_def tx_result_def enqueue_def push_bounded_def
      demo_dispatched_def demo_record_def demo_event_def Let_def)

lemma demo_replay:
  "replayHistoryOps (JObj [(''a'', JNum 2)]) (tr_inverse demo_record) False =
   Inr \<lparr>rp_doc = JObj [(''a'', JNum 1), (''b'', JStr ''x'')], rp_applied = tr_inverse demo_record, rp_stale = None\<rparr>"
proof -
  have sites: "site_of gs oc (OpAdd [Key ''b''] (JStr ''x'')) = Verbatim"
    "site_of gs oc (OpReplace [Key ''a''] (JNum 1) (JNum 2)) = Verbatim" for gs oc
    by (simp_all add: site_of_def position_eval)
  have "semanticFinal (JObj [(''a'', JNum 2)]) (tr_inverse demo_record) = Inr (JObj [(''a'', JNum 2)])"
    by (simp add: semanticFinal_def demo_record_def is_semantic_op_def key_at_def seg_at_def Let_def)
  then show ?thesis
    unfolding replayHistoryOps_def using sites
    by (simp add: survivingOccurrences_def keys_at_def entries_or_def demo_record_def verdict_of_def applyOp_def proto_key_def)
qed

definition demo_undone :: store where
  "demo_undone = \<lparr>s_doc = JObj [(''a'', JNum 1), (''b'', JStr ''x'')], s_revision = 2, s_undo = [],
     s_redo = [demo_record],
     s_queue = s_queue demo_dispatched @ [(JObj [(''a'', JNum 1), (''b'', JStr ''x'')],
        \<lparr>ev_kind = EvUndo, ev_record = demo_record, ev_revision = 2, ev_patch = tr_inverse demo_record\<rparr>)],
     s_notifying = False\<rparr>"

lemma demo_undo: "undo_core demo_dispatched = (demo_undone, Stepped)"
  by (simp add: undo_core_def demo_dispatched_def demo_replay enqueue_def demo_undone_def Let_def)

lemma demo_ok: "env_ok (demo_env ls)" "store_ok (en_max_undo (demo_env ls)) demo_store"
  by (simp_all add: env_ok_def demo_env_def demo_command_def demo_script_def heap_ok_def
      store_ok_def demo_store_def demo_doc_def proto_key_def)

theorem dispatch_atomic_witness:
  "\<exists>params. ownJson (default_limits True) (\<lambda>_. RawArr []) RNull = Inr params \<and>
     s_undo demo_dispatched = [\<lparr>tr_revision = 1, tr_command = ''demo'', tr_params = params, tr_actor = None,
       tr_forward = tr_forward demo_record, tr_inverse = tr_inverse demo_record\<rparr>] \<and>
     applyOwnedOps (s_doc demo_store) (tr_forward demo_record) = Inr (JObj [(''a'', JNum 2)])"
proof -
  have "wf_json (s_doc demo_store)" using demo_ok(2) by (simp add: store_ok_def)
  note fact = dispatch_atomic [OF demo_ok(1) this demo_dispatch [of "[]"], unfolded outcome.case Let_def]
  from fact obtain params where "ownJson (default_limits True) (\<lambda>_. RawArr []) RNull = Inr params"
    and s': "demo_dispatched = demo_store\<lparr>s_doc := JObj [(''a'', JNum 2)], s_revision := Suc (s_revision demo_store),
      s_undo := push_bounded (en_max_undo (demo_env [])) \<lparr>tr_revision = Suc (s_revision demo_store),
          tr_command = iv_command demo_invocation, tr_params = params, tr_actor = iv_actor demo_invocation,
          tr_forward = tr_forward demo_record, tr_inverse = tr_inverse demo_record\<rparr> (s_undo demo_store),
      s_redo := [], s_queue := s_queue demo_store @ [(JObj [(''a'', JNum 2)], \<lparr>ev_kind = EvDispatch,
        ev_record = \<lparr>tr_revision = Suc (s_revision demo_store), tr_command = iv_command demo_invocation,
          tr_params = params, tr_actor = iv_actor demo_invocation, tr_forward = tr_forward demo_record,
          tr_inverse = tr_inverse demo_record\<rparr>, ev_revision = Suc (s_revision demo_store),
        ev_patch = tr_forward demo_record\<rparr>)]\<rparr>"
    by (auto simp: demo_invocation_def)
  moreover have "s_undo demo_dispatched = [\<lparr>tr_revision = 1, tr_command = ''demo'', tr_params = params, tr_actor = None,
       tr_forward = tr_forward demo_record, tr_inverse = tr_inverse demo_record\<rparr>]"
    by (subst s') (simp add: demo_store_def demo_env_def push_bounded_def demo_invocation_def)
  ultimately show ?thesis using fact by blast
qed












lemma demo_drain:
  "perform 3 (demo_env [demo_undoer, \<lambda>e. []]) (ActDispatch demo_invocation) (demo_store, []) =
   Some (demo_undone\<lparr>s_queue := []\<rparr>,
     [(0, demo_event), (1, demo_event), (0, snd (s_queue demo_undone ! 1)), (1, snd (s_queue demo_undone ! 1))])"
proof -
  let ?env = "demo_env [demo_undoer, \<lambda>e. []]"
  let ?s1 = "demo_dispatched\<lparr>s_notifying := True, s_queue := []\<rparr>"
  have ls: "en_tx_listeners ?env = [demo_undoer, \<lambda>e. []]" "en_doc_listeners ?env = []" by (simp_all add: demo_env_def)
  have undo: "undo_core ?s1 = (demo_undone\<lparr>s_notifying := True, s_queue := [s_queue demo_undone ! 1]\<rparr>, Stepped)"
    by (simp add: undo_core_def demo_dispatched_def demo_replay enqueue_def demo_undone_def Let_def)
  have emit1: "emit ?env demo_event (?s1, []) =
      (demo_undone\<lparr>s_notifying := True, s_queue := [s_queue demo_undone ! 1]\<rparr>, [(0, demo_event), (1, demo_event)])"
    by (simp add: emit_def ls run_acts_def demo_undoer_def demo_event_def undo [unfolded demo_event_def])
  define e2 where "e2 = snd (s_queue demo_undone ! 1)"
  have q2: "s_queue demo_undone ! 1 = (JObj [(''a'', JNum 1), (''b'', JStr ''x'')], e2)"
    and e2: "ev_kind e2 = EvUndo" by (simp_all add: e2_def demo_undone_def demo_dispatched_def)
  have emit2: "emit ?env e2 (s, lg) = (s, lg @ [(0, e2), (1, e2)])" for s lg
    by (simp add: emit_def ls run_acts_def demo_undoer_def e2)
  have nd: "notify_doc ?env d s = s" for d s by (simp add: notify_doc_def ls)
  have "drain 3 ?env (demo_dispatched\<lparr>s_notifying := True\<rparr>, []) =
      drain 2 ?env (emit ?env demo_event (?s1, []))"
    by (simp add: numeral_3_eq_3 demo_dispatched_def nd Let_def numeral_2_eq_2)
  also have "\<dots> = Some (demo_undone\<lparr>s_queue := []\<rparr>, [(0, demo_event), (1, demo_event), (0, e2), (1, e2)])"
    unfolding emit1 q2 by (simp add: numeral_2_eq_2 nd emit2 Let_def demo_undone_def)
  finally show ?thesis
    using demo_dispatch [of "[demo_undoer, \<lambda>e. []]"]
    by (simp add: perform_def settle_def demo_dispatched_def e2_def)
qed

theorem feed_in_commit_order_witness:
  "\<exists>es. map ev_revision es = [1, 2] \<and> run_feed demo_doc es = Inr (JObj [(''a'', JNum 1), (''b'', JStr ''x'')])"
proof -
  have "s_queue demo_store = []" "\<not> s_notifying demo_store" "s_doc demo_store = demo_doc" "s_revision demo_store = 0"
    by (simp_all add: demo_store_def)
  moreover have "[Suc 0 ..< Suc (s_revision (demo_undone\<lparr>s_queue := []\<rparr>))] = [1, 2]"
    by (simp add: demo_undone_def upt_rec)
  moreover have "s_doc (demo_undone\<lparr>s_queue := []\<rparr>) = JObj [(''a'', JNum 1), (''b'', JStr ''x'')]"
    by (simp add: demo_undone_def)
  ultimately show ?thesis
    using feed_in_commit_order [OF demo_ok _ _ demo_drain] by metis
qed

theorem quiet_operations_return_witness:
  "\<exists>s' lg'. perform (Suc (Suc 0)) (demo_env []) (ActDispatch demo_invocation) (demo_store, []) = Some (s', lg') \<and>
     s_doc s' = JObj [(''a'', JNum 2)]"
proof -
  have "quiet (demo_env [])" "s_queue demo_store = []" by (simp_all add: quiet_def demo_env_def demo_store_def)
  from quiet_operations_return [OF this, of "ActDispatch demo_invocation" "[]"] show ?thesis
    by (simp add: demo_dispatch) (simp add: demo_dispatched_def)
qed

end
