(* ===== verification/EditorLayout.thy ===== *)
theory EditorLayout
  imports Json Ids
begin

text \<open>
  The editor split layout: \<open>packages/app/src/editor-layout.ts\<close>.

  The centre region is a tree of editor groups, each an ordered list of tab ids with an active one.
  Every operation works on the tree; the proofs work on the list of groups in reading order, because
  \<open>mapGroups\<close> and \<open>pruneNode\<close> act on that list as map and filter. The layout is encoded as a JSON
  value; \<open>JSON.stringify\<close> and \<open>JSON.parse\<close>, which turn it into text and back, are the platform's.
\<close>

section \<open>Data\<close>

definition MAX_SPLIT_DEPTH :: nat where
  "MAX_SPLIT_DEPTH = 4"

text \<open>The doubles written \<open>0.1\<close> and \<open>0.9\<close>.\<close>

definition SPLIT_RATIO_MIN :: rat where
  "SPLIT_RATIO_MIN = 3602879701896397 / 36028797018963968"

definition SPLIT_RATIO_MAX :: rat where
  "SPLIT_RATIO_MAX = 8106479329266893 / 9007199254740992"

record editor_group =
  eg_id :: string
  eg_tabs :: "string list"
  eg_active :: string

datatype direction = Row | Column

datatype editor_node = Group editor_group | Split direction rat editor_node editor_node

record editor_layout =
  el_root :: editor_node
  el_focused :: string

datatype side = First | Second

definition clampSplitRatio :: "jsnum \<Rightarrow> rat" where
  "clampSplitRatio r =
     (case r of
        Fin q \<Rightarrow> min SPLIT_RATIO_MAX (max SPLIT_RATIO_MIN q)
      | NegZero \<Rightarrow> SPLIT_RATIO_MIN
      | _ \<Rightarrow> 1 / 2)"

definition first_or_empty :: "string list \<Rightarrow> string" where
  "first_or_empty ts = (case ts of [] \<Rightarrow> [] | t # _ \<Rightarrow> t)"

definition singleGroupLayout :: "string list \<Rightarrow> string \<Rightarrow> string \<Rightarrow> editor_layout" where
  "singleGroupLayout tabs active gid =
     \<lparr>el_root = Group \<lparr>eg_id = gid, eg_tabs = tabs,
        eg_active = (if active \<in> set tabs then active else first_or_empty tabs)\<rparr>, el_focused = gid\<rparr>"

definition emptyLayout :: editor_layout where
  "emptyLayout = singleGroupLayout [] [] ''group-1''"

primrec layoutGroups :: "editor_node \<Rightarrow> editor_group list" where
  "layoutGroups (Group g) = [g]"
| "layoutGroups (Split d r a b) = layoutGroups a @ layoutGroups b"

definition findGroup :: "editor_layout \<Rightarrow> string \<Rightarrow> editor_group option" where
  "findGroup l gid = find (\<lambda>g. eg_id g = gid) (layoutGroups (el_root l))"

definition focusedGroup :: "editor_layout \<Rightarrow> editor_group" where
  "focusedGroup l =
     (case findGroup l (el_focused l) of Some g \<Rightarrow> g | None \<Rightarrow> hd (layoutGroups (el_root l)))"

text \<open>The loop of \<open>nextGroupId\<close>; as many steps as there are groups always find a free id.\<close>

definition group_name :: "nat \<Rightarrow> string" where
  "group_name n = ''group-'' @ show_nat n"

primrec first_free :: "nat \<Rightarrow> string list \<Rightarrow> nat \<Rightarrow> string" where
  "first_free 0 used n = group_name n"
| "first_free (Suc k) used n =
     (if group_name n \<in> set used then first_free k used (Suc n) else group_name n)"

definition nextGroupId :: "editor_layout \<Rightarrow> string" where
  "nextGroupId l =
     (let used = map eg_id (layoutGroups (el_root l)) in first_free (length used) used 1)"

primrec splitDepth :: "editor_node \<Rightarrow> nat" where
  "splitDepth (Group g) = 0"
| "splitDepth (Split d r a b) = 1 + max (splitDepth a) (splitDepth b)"

primrec mapGroups :: "(editor_group \<Rightarrow> editor_node) \<Rightarrow> editor_node \<Rightarrow> editor_node" where
  "mapGroups f (Group g) = f g"
| "mapGroups f (Split d r a b) = Split d r (mapGroups f a) (mapGroups f b)"

text \<open>\<open>mapGroups\<close> with a function that updates a captured set.\<close>

primrec mapGroupsWith :: "('s \<Rightarrow> editor_group \<Rightarrow> 's \<times> editor_node) \<Rightarrow> 's \<Rightarrow> editor_node \<Rightarrow> 's \<times> editor_node" where
  "mapGroupsWith f s (Group g) = f s g"
| "mapGroupsWith f s (Split d r a b) =
     (let (s1, a') = mapGroupsWith f s a; (s2, b') = mapGroupsWith f s1 b in (s2, Split d r a' b'))"

fun index_in :: "string list \<Rightarrow> string \<Rightarrow> nat" where
  "index_in [] t = 0"
| "index_in (x # xs) t = (if x = t then 0 else Suc (index_in xs t))"

definition activeAfterRemoval :: "string list \<Rightarrow> string \<Rightarrow> string \<Rightarrow> string" where
  "activeAfterRemoval tabs removed active =
     (let remaining = filter (\<lambda>t. t \<noteq> removed) tabs in
      if active \<noteq> removed then active
      else if remaining = [] then []
      else remaining ! min (index_in tabs removed) (length remaining - 1))"

primrec pruneNode :: "editor_node \<Rightarrow> editor_node option" where
  "pruneNode (Group g) = (if eg_tabs g = [] then None else Some (Group g))"
| "pruneNode (Split d r a b) =
     (case (pruneNode a, pruneNode b) of
        (Some a', Some b') \<Rightarrow> Some (Split d r a' b')
      | (Some a', None) \<Rightarrow> Some a'
      | (None, b') \<Rightarrow> b')"

definition restoreGroupInvariants :: "editor_group \<Rightarrow> editor_group" where
  "restoreGroupInvariants g =
     (if eg_active g \<in> set (eg_tabs g) then g else g\<lparr>eg_active := first_or_empty (eg_tabs g)\<rparr>)"

definition restoreFocus :: "editor_node \<Rightarrow> string \<Rightarrow> editor_layout" where
  "restoreFocus tree focused =
     (let groups = layoutGroups tree in
      \<lparr>el_root = tree,
       el_focused = (if \<exists>g \<in> set groups. eg_id g = focused then focused else eg_id (hd groups))\<rparr>)"

section \<open>Operations\<close>

fun keep_new :: "string list \<Rightarrow> string list \<Rightarrow> string list \<Rightarrow> string list \<times> string list" where
  "keep_new opened seen [] = (seen, [])"
| "keep_new opened seen (t # ts) =
     (if t \<notin> set opened \<or> t \<in> set seen then keep_new opened seen ts
      else (let (seen', ts') = keep_new opened (t # seen) ts in (seen', t # ts')))"

definition repair_group :: "string list \<Rightarrow> string list \<Rightarrow> editor_group \<Rightarrow> string list \<times> editor_node" where
  "repair_group opened seen g =
     (let (seen', ts) = keep_new opened seen (eg_tabs g)
      in (seen', Group (restoreGroupInvariants (g\<lparr>eg_tabs := ts\<rparr>))))"

definition adopt :: "string \<Rightarrow> string list \<Rightarrow> editor_group \<Rightarrow> editor_group" where
  "adopt gid orphans g =
     (if eg_id g = gid
      then restoreGroupInvariants (g\<lparr>eg_tabs := eg_tabs g @ orphans,
             eg_active := (if eg_active g = [] then first_or_empty orphans else eg_active g)\<rparr>)
      else g)"

definition repairEditorLayout :: "editor_layout \<Rightarrow> string list \<Rightarrow> editor_layout" where
  "repairEditorLayout l opened =
     (let (seen, filtered) = mapGroupsWith (repair_group opened) [] (el_root l);
          orphans = filter (\<lambda>t. t \<notin> set seen) opened;
          groups = layoutGroups filtered;
          target = (if \<exists>g \<in> set groups. eg_id g = el_focused l then el_focused l else eg_id (hd groups));
          adopted = (if orphans = [] then filtered
                     else mapGroups (\<lambda>g. Group (adopt target orphans g)) filtered)
      in case pruneNode adopted of
           None \<Rightarrow> emptyLayout
         | Some tree \<Rightarrow> restoreFocus tree (el_focused l))"

definition without_tab :: "string \<Rightarrow> editor_group \<Rightarrow> editor_group" where
  "without_tab tab g =
     (if tab \<in> set (eg_tabs g)
      then g\<lparr>eg_tabs := filter (\<lambda>t. t \<noteq> tab) (eg_tabs g),
             eg_active := activeAfterRemoval (eg_tabs g) tab (eg_active g)\<rparr>
      else g)"

definition tabSource :: "editor_layout \<Rightarrow> string \<Rightarrow> editor_group option" where
  "tabSource l tab = find (\<lambda>g. tab \<in> set (eg_tabs g)) (layoutGroups (el_root l))"

definition new_group :: "string \<Rightarrow> string \<Rightarrow> editor_group" where
  "new_group gid tab = \<lparr>eg_id = gid, eg_tabs = [tab], eg_active = tab\<rparr>"

definition split_at :: "string \<Rightarrow> direction \<Rightarrow> side \<Rightarrow> editor_group \<Rightarrow> editor_group \<Rightarrow> editor_node" where
  "split_at gid dir position created g =
     (if eg_id g = gid
      then Split dir (1 / 2) (Group (if position = First then created else g))
             (Group (if position = First then g else created))
      else Group g)"

definition splitGroup :: "editor_layout \<Rightarrow> string \<Rightarrow> direction \<Rightarrow> string \<Rightarrow> side \<Rightarrow> editor_layout" where
  "splitGroup l gid dir tab position =
     (case (findGroup l gid, tabSource l tab) of
        (Some target, Some source) \<Rightarrow>
          if eg_id source = eg_id target \<and> length (eg_tabs source) = 1 then l
          else
            (let newId = nextGroupId l;
                 withoutTab = mapGroups (\<lambda>g. Group (without_tab tab g)) (el_root l)
             in case pruneNode (mapGroups (split_at gid dir position (new_group newId tab)) withoutTab) of
                  None \<Rightarrow> l
                | Some tree \<Rightarrow> if splitDepth tree > MAX_SPLIT_DEPTH then l else \<lparr>el_root = tree, el_focused = newId\<rparr>)
      | _ \<Rightarrow> l)"

text \<open>\<open>index\<close> is an integer; \<open>None\<close> when it is omitted.\<close>

definition place_tab :: "string \<Rightarrow> string \<Rightarrow> int option \<Rightarrow> editor_group \<Rightarrow> editor_group" where
  "place_tab tab gid index g =
     (let without = filter (\<lambda>t. t \<noteq> tab) (eg_tabs g) in
      if eg_id g = gid then
        (let pos = (case index of
                     None \<Rightarrow> length without
                   | Some i \<Rightarrow> nat (max 0 (min i (int (length without)))))
         in g\<lparr>eg_tabs := take pos without @ tab # drop pos without, eg_active := tab\<rparr>)
      else without_tab tab g)"

definition moveTabToGroup :: "editor_layout \<Rightarrow> string \<Rightarrow> string \<Rightarrow> int option \<Rightarrow> editor_layout" where
  "moveTabToGroup l tab gid index =
     (case (findGroup l gid, tabSource l tab) of
        (Some target, Some source) \<Rightarrow>
          if eg_id source = gid \<and> length (eg_tabs source) = 1 then l
          else (case pruneNode (mapGroups (\<lambda>g. Group (place_tab tab gid index g)) (el_root l)) of
              None \<Rightarrow> l
            | Some tree \<Rightarrow> restoreFocus tree gid)
      | _ \<Rightarrow> l)"

definition setGroupTabOrder :: "editor_layout \<Rightarrow> string \<Rightarrow> string list \<Rightarrow> editor_layout" where
  "setGroupTabOrder l gid order =
     (case findGroup l gid of
        None \<Rightarrow> l
      | Some g \<Rightarrow>
          if length order \<noteq> length (eg_tabs g) then l
          else if \<not> (\<forall>t \<in> set order. t \<in> set (eg_tabs g)) \<or> card (set order) \<noteq> length order then l
          else l\<lparr>el_root := mapGroups (\<lambda>g. Group (if eg_id g = gid then g\<lparr>eg_tabs := order\<rparr> else g)) (el_root l)\<rparr>)"

fun find_index :: "('a \<Rightarrow> bool) \<Rightarrow> 'a list \<Rightarrow> nat option" where
  "find_index P [] = None"
| "find_index P (x # xs) = (if P x then Some 0 else map_option Suc (find_index P xs))"

definition merge_group :: "editor_group \<Rightarrow> editor_group \<Rightarrow> editor_group \<Rightarrow> editor_group" where
  "merge_group source target g =
     (if eg_id g = eg_id target
      then g\<lparr>eg_tabs := eg_tabs g @ eg_tabs source,
             eg_active := (if eg_active source \<noteq> [] then eg_active source else eg_active g)\<rparr>
      else if eg_id g = eg_id source then g\<lparr>eg_tabs := [], eg_active := []\<rparr>
      else g)"

definition dissolveGroup :: "editor_layout \<Rightarrow> string \<Rightarrow> editor_layout" where
  "dissolveGroup l gid =
     (let groups = layoutGroups (el_root l) in
      case find_index (\<lambda>g. eg_id g = gid) groups of
        None \<Rightarrow> l
      | Some i \<Rightarrow>
          if length groups < 2 then l
          else
            (let source = groups ! i; target = groups ! (if i = 0 then 1 else i - 1)
             in case pruneNode (mapGroups (\<lambda>g. Group (merge_group source target g)) (el_root l)) of
                  None \<Rightarrow> l
                | Some tree \<Rightarrow> restoreFocus tree (eg_id target)))"

definition setActiveTab :: "editor_layout \<Rightarrow> string \<Rightarrow> string \<Rightarrow> editor_layout" where
  "setActiveTab l gid tab =
     (case findGroup l gid of
        None \<Rightarrow> l
      | Some g \<Rightarrow>
          if tab \<notin> set (eg_tabs g) then l
          else l\<lparr>el_root := mapGroups (\<lambda>g. Group (if eg_id g = gid then g\<lparr>eg_active := tab\<rparr> else g)) (el_root l)\<rparr>)"

definition focusGroup :: "editor_layout \<Rightarrow> string \<Rightarrow> editor_layout" where
  "focusGroup l gid = (if findGroup l gid = None then l else l\<lparr>el_focused := gid\<rparr>)"

fun set_ratio :: "editor_node \<Rightarrow> side list \<Rightarrow> jsnum \<Rightarrow> editor_node option" where
  "set_ratio (Group g) p ratio = None"
| "set_ratio (Split d r a b) [] ratio = Some (Split d (clampSplitRatio ratio) a b)"
| "set_ratio (Split d r a b) (First # p) ratio = map_option (\<lambda>a'. Split d r a' b) (set_ratio a p ratio)"
| "set_ratio (Split d r a b) (Second # p) ratio = map_option (\<lambda>b'. Split d r a b') (set_ratio b p ratio)"

definition setSplitRatioAt :: "editor_layout \<Rightarrow> side list \<Rightarrow> jsnum \<Rightarrow> editor_layout" where
  "setSplitRatioAt l p ratio =
     (case set_ratio (el_root l) p ratio of None \<Rightarrow> l | Some tree \<Rightarrow> l\<lparr>el_root := tree\<rparr>)"

section \<open>Encoding\<close>

primrec direction_json :: "direction \<Rightarrow> json" where
  "direction_json Row = JStr ''row''"
| "direction_json Column = JStr ''column''"

primrec encode_node :: "editor_node \<Rightarrow> json" where
  "encode_node (Group g) =
     JObj [(''kind'', JStr ''group''), (''id'', JStr (eg_id g)), (''tabIds'', JArr (map JStr (eg_tabs g))),
           (''activeTabId'', JStr (eg_active g))]"
| "encode_node (Split d r a b) =
     JObj [(''kind'', JStr ''split''), (''direction'', direction_json d), (''ratio'', JNum r),
           (''first'', encode_node a), (''second'', encode_node b)]"

definition encodeEditorLayout :: "editor_layout \<Rightarrow> json" where
  "encodeEditorLayout l =
     JObj [(''v'', JNum 1), (''root'', encode_node (el_root l)), (''focusedGroupId'', JStr (el_focused l))]"

fun strings_of :: "json list \<Rightarrow> string list option" where
  "strings_of [] = Some []"
| "strings_of (JStr s # js) = (if s = [] then None else map_option ((#) s) (strings_of js))"
| "strings_of _ = None"

type_synonym seen_ids = "string list \<times> string list"  \<comment> \<open>group ids and tab ids met so far\<close>

definition decode_group :: "(string \<times> json) list \<Rightarrow> seen_ids \<Rightarrow> (editor_node \<times> seen_ids) option" where
  "decode_group row seen =
     (case (map_of row ''id'', map_of row ''tabIds'', map_of row ''activeTabId'') of
        (Some (JStr gid), Some (JArr raw), Some (JStr active)) \<Rightarrow>
          if gid = [] \<or> gid \<in> set (fst seen) then None
          else (case strings_of raw of
              None \<Rightarrow> None
            | Some tabs \<Rightarrow>
                if distinct tabs \<and> set tabs \<inter> set (snd seen) = {}
                then Some (Group (restoreGroupInvariants \<lparr>eg_id = gid, eg_tabs = tabs, eg_active = active\<rparr>),
                           gid # fst seen, rev tabs @ snd seen)
                else None)
      | _ \<Rightarrow> None)"

definition decode_direction :: "json option \<Rightarrow> direction option" where
  "decode_direction v =
     (if v = Some (JStr ''row'') then Some Row
      else if v = Some (JStr ''column'') then Some Column else None)"

definition decode_ratio :: "json option \<Rightarrow> rat option" where
  "decode_ratio v = (case v of Some (JNum r) \<Rightarrow> Some r | _ \<Rightarrow> None)"

function (sequential) decode_node :: "json option \<Rightarrow> nat \<Rightarrow> seen_ids \<Rightarrow> (editor_node \<times> seen_ids) option" where
  "decode_node (Some (JObj row)) depth seen =
     (if map_of row ''kind'' = Some (JStr ''group'') then decode_group row seen
      else if map_of row ''kind'' = Some (JStr ''split'') then
        (if depth \<ge> MAX_SPLIT_DEPTH then None
         else (case (decode_direction (map_of row ''direction''), decode_ratio (map_of row ''ratio'')) of
             (Some d, Some r) \<Rightarrow>
               (case decode_node (map_of row ''first'') (Suc depth) seen of
                  None \<Rightarrow> None
                | Some (a, seen1) \<Rightarrow>
                    (case decode_node (map_of row ''second'') (Suc depth) seen1 of
                       None \<Rightarrow> None
                     | Some (b, seen2) \<Rightarrow> Some (Split d (clampSplitRatio (Fin r)) a b, seen2)))
           | _ \<Rightarrow> None))
      else None)"
| "decode_node _ depth seen = None"
  by pat_completeness auto
termination
proof (relation "measure (\<lambda>(v, depth, seen). case v of None \<Rightarrow> 0 | Some j \<Rightarrow> size j)")
  have smaller: "((map_of row k, x), Some (JObj row), y) \<in> measure (\<lambda>(v, depth, seen). case v of None \<Rightarrow> 0 | Some j \<Rightarrow> size j)"
    for row k and x y :: "nat \<times> seen_ids"
    using size_map_of_json [of row k] by (cases "map_of row k"; cases x; cases y) simp_all
  show "((map_of row ''first'', Suc depth, seen), Some (JObj row), depth, seen)
      \<in> measure (\<lambda>(v, depth, seen). case v of None \<Rightarrow> 0 | Some j \<Rightarrow> size j)" for row depth and seen :: seen_ids
    by (rule smaller)
  show "((map_of row ''second'', Suc depth, seen1), Some (JObj row), depth, seen)
      \<in> measure (\<lambda>(v, depth, seen). case v of None \<Rightarrow> 0 | Some j \<Rightarrow> size j)" for row depth and seen seen1 :: seen_ids
    by (rule smaller)
qed simp_all

definition decodeEditorLayout :: "json \<Rightarrow> editor_layout option" where
  "decodeEditorLayout v =
     (case v of
        JObj env \<Rightarrow>
          if map_of env ''v'' \<noteq> Some (JNum 1) then None
          else (case map_of env ''focusedGroupId'' of
              Some (JStr focused) \<Rightarrow>
                (case decode_node (map_of env ''root'') 0 ([], []) of
                   None \<Rightarrow> None
                 | Some (tree, seen) \<Rightarrow> Some (restoreFocus tree focused))
            | _ \<Rightarrow> None)
      | _ \<Rightarrow> None)"

section \<open>Well-formed layouts\<close>

definition all_tabs :: "editor_group list \<Rightarrow> string list" where
  "all_tabs gs = concat (map eg_tabs gs)"

definition group_ok :: "editor_group \<Rightarrow> bool" where
  "group_ok g \<longleftrightarrow> (if eg_tabs g = [] then eg_active g = [] else eg_active g \<in> set (eg_tabs g))"

definition wf_groups :: "editor_group list \<Rightarrow> bool" where
  "wf_groups gs \<longleftrightarrow> distinct (map eg_id gs) \<and> [] \<notin> eg_id ` set gs \<and> distinct (all_tabs gs) \<and>
     [] \<notin> set (all_tabs gs) \<and> (\<forall>g \<in> set gs. group_ok g)"

primrec ratios_ok :: "editor_node \<Rightarrow> bool" where
  "ratios_ok (Group g) = True"
| "ratios_ok (Split d r a b) = (SPLIT_RATIO_MIN \<le> r \<and> r \<le> SPLIT_RATIO_MAX \<and> ratios_ok a \<and> ratios_ok b)"

fun is_group :: "editor_node \<Rightarrow> bool" where
  "is_group (Group g) = True"
| "is_group (Split d r a b) = False"

definition wf_shape :: "editor_node \<Rightarrow> bool" where
  "wf_shape tree \<longleftrightarrow> splitDepth tree \<le> MAX_SPLIT_DEPTH \<and> ratios_ok tree"

definition no_empty_group :: "editor_node \<Rightarrow> bool" where
  "no_empty_group tree \<longleftrightarrow> is_group tree \<or> (\<forall>g \<in> set (layoutGroups tree). eg_tabs g \<noteq> [])"

definition wf_layout :: "editor_layout \<Rightarrow> bool" where
  "wf_layout l \<longleftrightarrow>
     wf_groups (layoutGroups (el_root l)) \<and> wf_shape (el_root l) \<and> no_empty_group (el_root l) \<and>
     el_focused l \<in> eg_id ` set (layoutGroups (el_root l))"

definition layout_tabs :: "editor_layout \<Rightarrow> string set" where
  "layout_tabs l = set (all_tabs (layoutGroups (el_root l)))"

lemma all_tabs_simps [simp]:
  "all_tabs [] = []" "all_tabs (g # gs) = eg_tabs g @ all_tabs gs" "all_tabs (xs @ ys) = all_tabs xs @ all_tabs ys"
  by (simp_all add: all_tabs_def)

lemma layoutGroups_ne [simp]: "layoutGroups tree \<noteq> []"
  by (induction tree) simp_all

lemma layoutGroups_map: "layoutGroups (mapGroups f tree) = concat (map (\<lambda>g. layoutGroups (f g)) (layoutGroups tree))"
  by (induction tree) simp_all

lemma layoutGroups_map_group [simp]: "layoutGroups (mapGroups (\<lambda>g. Group (h g)) tree) = map h (layoutGroups tree)"
  by (induction tree) simp_all

lemma shape_map_group [simp]:
  "splitDepth (mapGroups (\<lambda>g. Group (h g)) tree) = splitDepth tree"
  "ratios_ok (mapGroups (\<lambda>g. Group (h g)) tree) = ratios_ok tree"
  "is_group (mapGroups (\<lambda>g. Group (h g)) tree) = is_group tree"
  by (induction tree) simp_all

text \<open>Pruning keeps the groups that have tabs, in order.\<close>

lemma prune_groups:
  "filter (\<lambda>g. eg_tabs g \<noteq> []) (layoutGroups tree) =
   (case pruneNode tree of None \<Rightarrow> [] | Some t \<Rightarrow> layoutGroups t)"
proof (induction tree)
  case (Split d r a b)
  then show ?case by (cases "pruneNode a"; cases "pruneNode b") simp_all
qed simp

lemma prune_shape:
  "pruneNode tree = Some t \<Longrightarrow> splitDepth t \<le> splitDepth tree \<and> (ratios_ok tree \<longrightarrow> ratios_ok t)"
proof (induction tree arbitrary: t)
  case (Group g)
  then show ?case by (auto split: if_splits)
next
  case (Split d r a b)
  show ?case
  proof (cases "pruneNode a")
    case None
    with Split.prems have "pruneNode b = Some t" by simp
    from Split.IH(2) [OF this] show ?thesis by auto
  next
    case (Some a')
    note a = Split.IH(1) [OF Some]
    show ?thesis
    proof (cases "pruneNode b")
      case None
      with Some Split.prems have "t = a'" by simp
      with a show ?thesis by auto
    next
      case (Some b')
      with \<open>pruneNode a = Some a'\<close> Split.prems have "t = Split d r a' b'" by simp
      with a Split.IH(2) [OF Some] show ?thesis by auto
    qed
  qed
qed

lemma all_tabs_filter [simp]: "all_tabs (filter (\<lambda>g. eg_tabs g \<noteq> []) gs) = all_tabs gs"
  by (induction gs) simp_all

lemma wf_groups_filter: "wf_groups gs \<Longrightarrow> wf_groups (filter P gs)"
proof (induction gs)
  case (Cons g gs)
  have "set (all_tabs (filter P gs)) \<subseteq> set (all_tabs gs)" by (auto simp: all_tabs_def)
  with Cons show ?case by (auto simp: wf_groups_def)
qed simp

lemma wf_pruned:
  assumes "pruneNode tree = Some t" and "wf_groups (layoutGroups tree)" and "wf_shape tree"
  shows "wf_groups (layoutGroups t)" and "wf_shape t" and "no_empty_group t"
    and "all_tabs (layoutGroups t) = all_tabs (layoutGroups tree)"
    and "layoutGroups t = filter (\<lambda>g. eg_tabs g \<noteq> []) (layoutGroups tree)"
proof -
  show gs: "layoutGroups t = filter (\<lambda>g. eg_tabs g \<noteq> []) (layoutGroups tree)"
    using prune_groups [of tree] assms(1) by simp
  show "wf_groups (layoutGroups t)" unfolding gs by (rule wf_groups_filter [OF assms(2)])
  show "wf_shape t" using prune_shape [OF assms(1)] assms(3) by (auto simp: wf_shape_def)
  show "no_empty_group t" by (simp add: no_empty_group_def gs)
  show "all_tabs (layoutGroups t) = all_tabs (layoutGroups tree)" by (simp add: gs)
qed

lemma wf_restoreFocus:
  assumes "wf_groups (layoutGroups t)" and "wf_shape t" and "no_empty_group t"
  shows "wf_layout (restoreFocus t f)" and "layout_tabs (restoreFocus t f) = set (all_tabs (layoutGroups t))"
  using assms by (auto simp: wf_layout_def restoreFocus_def layout_tabs_def Let_def)

text \<open>With distinct group ids, changing the group of one id changes one element of the list.\<close>

lemma unique_group:
  fixes gs :: "editor_group list"
  assumes "distinct (map eg_id gs)" and "g \<in> set gs"
  obtains xs ys where "gs = xs @ g # ys" and "\<And>h. map (\<lambda>x. if eg_id x = eg_id g then h x else x) gs = xs @ h g # ys"
    and "\<And>h (k :: editor_group \<Rightarrow> editor_group). (\<And>x. eg_id (k x) = eg_id x) \<Longrightarrow>
      concat (map (\<lambda>x. if eg_id x = eg_id g then h x else [x]) (map k gs)) = map k xs @ h (k g) @ map k ys"
proof -
  from split_list [OF assms(2)] obtain xs ys where gs: "gs = xs @ g # ys" by blast
  have xs: "\<forall>x \<in> set xs. eg_id x \<noteq> eg_id g" and ys: "\<forall>x \<in> set ys. eg_id x \<noteq> eg_id g"
    using assms(1) gs by (auto simp: image_iff)
  have same: "map (\<lambda>x. if eg_id x = eg_id g then h x else x) zs = zs" if "\<forall>x \<in> set zs. eg_id x \<noteq> eg_id g" for h zs
    using that by (induction zs) simp_all
  have same': "concat (map (\<lambda>x. if eg_id x = eg_id g then h x else [x]) (map k zs)) = map k zs"
    if "\<forall>x \<in> set zs. eg_id x \<noteq> eg_id g" "\<And>x. eg_id (k x) = eg_id x" for h k zs
    using that by (induction zs) simp_all
  show thesis
  proof (rule that [OF gs])
    show "map (\<lambda>x. if eg_id x = eg_id g then h x else x) gs = xs @ h g # ys" for h
      using gs same [OF xs] same [OF ys] by simp
    show "concat (map (\<lambda>x. if eg_id x = eg_id g then h x else [x]) (map k gs)) = map k xs @ h (k g) @ map k ys"
      if "\<And>x. eg_id (k x) = eg_id x" for h and k :: "editor_group \<Rightarrow> editor_group"
      using gs same' [OF xs that] same' [OF ys that] that by simp
  qed
qed

lemma findGroup_Some:
  assumes "findGroup l gid = Some g"
  shows "g \<in> set (layoutGroups (el_root l))" and "eg_id g = gid"
  using assms by (auto simp: findGroup_def find_Some_iff)

lemma tabSource_Some:
  assumes "tabSource l tab = Some g"
  shows "g \<in> set (layoutGroups (el_root l))" and "tab \<in> set (eg_tabs g)"
  using assms by (auto simp: tabSource_def find_Some_iff)

section \<open>Fresh group ids\<close>

lemma group_name_inj: "group_name m = group_name n \<Longrightarrow> m = n"
  by (simp add: group_name_def show_nat_inj)

lemma first_free_fresh:
  "first_free k used n \<in> set used \<Longrightarrow> group_name ` {n..n + k} \<subseteq> set used"
proof (induction k arbitrary: n)
  case (Suc k)
  from Suc.prems have n: "group_name n \<in> set used" and "first_free k used (Suc n) \<in> set used"
    by (simp_all split: if_splits)
  from Suc.IH [OF this(2)] have "group_name ` {Suc n..Suc n + k} \<subseteq> set used" .
  moreover note n
  moreover have "{n..n + Suc k} = insert n {Suc n..Suc n + k}" by auto
  ultimately show ?case by simp
qed simp

lemma first_free_minimal:
  "\<exists>m \<ge> n. first_free k used n = group_name m \<and> group_name ` {n..<m} \<subseteq> set used"
proof (induction k arbitrary: n)
  case 0
  then show ?case by (auto intro!: exI [of _ n])
next
  case (Suc k)
  show ?case
  proof (cases "group_name n \<in> set used")
    case True
    from Suc.IH [of "Suc n"] obtain m where m: "Suc n \<le> m" "first_free k used (Suc n) = group_name m"
      "group_name ` {Suc n..<m} \<subseteq> set used" by blast
    have "{n..<m} = insert n {Suc n..<m}" using m(1) by auto
    with m True show ?thesis by (intro exI [of _ m]) auto
  qed (auto intro!: exI [of _ n])
qed

lemma nextGroupId_fresh: "nextGroupId l \<notin> eg_id ` set (layoutGroups (el_root l))"
proof
  let ?used = "map eg_id (layoutGroups (el_root l))"
  assume "nextGroupId l \<in> eg_id ` set (layoutGroups (el_root l))"
  then have "first_free (length ?used) ?used 1 \<in> set ?used" by (simp add: nextGroupId_def Let_def)
  from first_free_fresh [OF this] have sub: "group_name ` {1..1 + length ?used} \<subseteq> set ?used" .
  have "inj_on group_name {1..1 + length ?used}" using group_name_inj by (auto simp: inj_on_def)
  then have "card (group_name ` {1..1 + length ?used}) = Suc (length ?used)" by (simp add: card_image)
  moreover have "card (group_name ` {1..1 + length ?used}) \<le> card (set ?used)"
    using sub by (rule card_mono [rotated]) simp
  ultimately show False using card_length [of ?used] by simp
qed

lemma nextGroupId_ne: "nextGroupId l \<noteq> []"
proof -
  let ?used = "map eg_id (layoutGroups (el_root l))"
  obtain m where "first_free (length ?used) ?used 1 = group_name m"
    using first_free_minimal [of 1 "length ?used" ?used] by blast
  then show ?thesis by (simp add: nextGroupId_def Let_def group_name_def)
qed

section \<open>The operations keep layouts well formed\<close>

lemma wf_groups_append:
  "wf_groups (xs @ ys) \<longleftrightarrow> wf_groups xs \<and> wf_groups ys \<and> eg_id ` set xs \<inter> eg_id ` set ys = {} \<and>
     set (all_tabs xs) \<inter> set (all_tabs ys) = {}"
  by (auto simp: wf_groups_def)

lemma wf_groups_Cons:
  "wf_groups (g # ys) \<longleftrightarrow> eg_id g \<noteq> [] \<and> distinct (eg_tabs g) \<and> [] \<notin> set (eg_tabs g) \<and> group_ok g \<and>
     wf_groups ys \<and> eg_id g \<notin> eg_id ` set ys \<and> set (eg_tabs g) \<inter> set (all_tabs ys) = {}"
  by (auto simp: wf_groups_def)

lemma wf_groups_middle: "wf_groups (xs @ g # ys) \<longleftrightarrow> wf_groups (g # xs @ ys)"
proof -
  have "set (all_tabs xs) \<inter> (set (eg_tabs g) \<union> set (all_tabs ys)) = {} \<longleftrightarrow>
      set (all_tabs xs) \<inter> set (eg_tabs g) = {} \<and> set (all_tabs xs) \<inter> set (all_tabs ys) = {}"
    by blast
  moreover have "eg_id ` set xs \<inter> eg_id ` set (g # ys) = {} \<longleftrightarrow>
      eg_id g \<notin> eg_id ` set xs \<and> eg_id ` set xs \<inter> eg_id ` set ys = {}"
    by auto
  ultimately show ?thesis
    unfolding wf_groups_append wf_groups_Cons by (simp add: Int_Un_distrib image_Un) blast
qed

lemma wf_groups_Nil [simp]: "wf_groups []"
  by (simp add: wf_groups_def)

text \<open>Replacing one group by another with the same id.\<close>

lemma wf_groups_replace:
  assumes "wf_groups (xs @ g # ys)" and "eg_id g' = eg_id g" and "group_ok g'" and "distinct (eg_tabs g')"
    and "[] \<notin> set (eg_tabs g')" and "set (eg_tabs g') \<inter> set (all_tabs (xs @ ys)) = {}"
  shows "wf_groups (xs @ g' # ys)"
  using assms by (auto simp: wf_groups_append wf_groups_Cons)

lemma wf_group_of: "wf_groups gs \<Longrightarrow> g \<in> set gs \<Longrightarrow> group_ok g \<and> distinct (eg_tabs g) \<and> [] \<notin> set (eg_tabs g)"
  by (induction gs) (auto simp: wf_groups_Cons)

subsection \<open>Removing a tab\<close>

lemma without_tab_id [simp]: "eg_id (without_tab tab g) = eg_id g"
  by (simp add: without_tab_def)

lemma without_tab_tabs [simp]: "eg_tabs (without_tab tab g) = filter (\<lambda>t. t \<noteq> tab) (eg_tabs g)"
proof (cases "tab \<in> set (eg_tabs g)")
  case False
  then have "filter (\<lambda>t. t \<noteq> tab) (eg_tabs g) = eg_tabs g" by (auto intro!: filter_True)
  with False show ?thesis by (simp add: without_tab_def)
qed (simp add: without_tab_def)

lemma all_tabs_without: "all_tabs (map (without_tab tab) gs) = filter (\<lambda>t. t \<noteq> tab) (all_tabs gs)"
  by (induction gs) simp_all

lemma activeAfterRemoval_ok:
  assumes "active \<in> set tabs"
  shows "if filter (\<lambda>t. t \<noteq> removed) tabs = [] then activeAfterRemoval tabs removed active = []
    else activeAfterRemoval tabs removed active \<in> set (filter (\<lambda>t. t \<noteq> removed) tabs)"
proof (cases "active = removed")
  case True
  let ?r = "filter (\<lambda>t. t \<noteq> removed) tabs"
  have "?r ! min (index_in tabs removed) (length ?r - 1) \<in> set ?r" if "?r \<noteq> []"
    using that by (intro nth_mem) (cases ?r; simp)
  then show ?thesis using True by (simp add: activeAfterRemoval_def Let_def)
next
  case False
  then have "active \<in> set (filter (\<lambda>t. t \<noteq> removed) tabs)" using assms by simp
  moreover from this have "filter (\<lambda>t. t \<noteq> removed) tabs \<noteq> []" by force
  ultimately show ?thesis using False by (simp add: activeAfterRemoval_def)
qed

lemma group_ok_without: "group_ok g \<Longrightarrow> group_ok (without_tab tab g)"
proof (cases "tab \<in> set (eg_tabs g)")
  case True
  assume ok: "group_ok g"
  have "eg_tabs g \<noteq> []" using True by auto
  then have "eg_active g \<in> set (eg_tabs g)" using ok by (simp add: group_ok_def)
  from activeAfterRemoval_ok [OF this, of tab] show ?thesis
    using True by (auto simp: group_ok_def without_tab_def split: if_splits)
qed (simp add: without_tab_def)

lemma wf_groups_without: "wf_groups gs \<Longrightarrow> wf_groups (map (without_tab tab) gs)"
  by (auto simp: wf_groups_def all_tabs_without group_ok_without comp_def)

subsection \<open>Splitting\<close>

lemma splitDepth_ok: "splitDepth t \<le> MAX_SPLIT_DEPTH \<Longrightarrow> ratios_ok t \<Longrightarrow> wf_shape t"
  by (simp add: wf_shape_def)

lemma ratios_map: "ratios_ok tree \<Longrightarrow> (\<And>g. ratios_ok (f g)) \<Longrightarrow> ratios_ok (mapGroups f tree)"
  by (induction tree) simp_all

lemma ratio_bounds: "SPLIT_RATIO_MIN \<le> 1 / 2" "1 / 2 \<le> SPLIT_RATIO_MAX" "SPLIT_RATIO_MIN \<le> SPLIT_RATIO_MAX"
  by (simp_all add: SPLIT_RATIO_MIN_def SPLIT_RATIO_MAX_def)

lemma splitGroup_changes:
  assumes "splitGroup l gid dir tab pos \<noteq> l"
  obtains target source tree where "findGroup l gid = Some target" and "tabSource l tab = Some source"
    and "pruneNode (mapGroups (split_at gid dir pos (new_group (nextGroupId l) tab))
           (mapGroups (\<lambda>g. Group (without_tab tab g)) (el_root l))) = Some tree"
    and "splitDepth tree \<le> MAX_SPLIT_DEPTH"
    and "splitGroup l gid dir tab pos = \<lparr>el_root = tree, el_focused = nextGroupId l\<rparr>"
  using assms by (auto simp: splitGroup_def Let_def split: option.split_asm if_split_asm)

text \<open>The groups after the split, before pruning.\<close>

definition split_result ::
  "string \<Rightarrow> side \<Rightarrow> editor_group \<Rightarrow> editor_group list \<Rightarrow> editor_group \<Rightarrow> editor_group list \<Rightarrow> editor_group list" where
  "split_result tab pos c xs target ys =
     map (without_tab tab) xs @ (if pos = First then [c, without_tab tab target] else [without_tab tab target, c]) @
     map (without_tab tab) ys"

lemma split_groups:
  assumes "gs = layoutGroups (el_root l)" and "distinct (map eg_id gs)" and "findGroup l gid = Some target"
  obtains xs ys where "gs = xs @ target # ys"
    and "layoutGroups (mapGroups (split_at gid dir pos c) (mapGroups (\<lambda>g. Group (without_tab tab g)) (el_root l))) =
      split_result tab pos c xs target ys"
proof -
  have pieces: "layoutGroups (split_at gid dir pos c g) =
      (if eg_id g = eg_id target then (if pos = First then [c, g] else [g, c]) else [g])" for g
    using findGroup_Some(2) [OF assms(3)] by (simp add: split_at_def)
  have mem: "target \<in> set gs" using findGroup_Some(1) [OF assms(3)] assms(1) by simp
  show thesis
  proof (rule unique_group [OF assms(2) mem])
    fix xs ys
    assume gs: "gs = xs @ target # ys"
      and subst: "\<And>h (k :: editor_group \<Rightarrow> editor_group). (\<And>x. eg_id (k x) = eg_id x) \<Longrightarrow>
        concat (map (\<lambda>x. if eg_id x = eg_id target then h x else [x]) (map k gs)) = map k xs @ h (k target) @ map k ys"
    show thesis
      by (rule that [OF gs], unfold layoutGroups_map [of "split_at gid dir pos c"] layoutGroups_map_group pieces
          assms(1) [symmetric] split_result_def) (rule subst [of "without_tab tab" "\<lambda>g. if pos = First then [c, g] else [g, c]"], simp)
  qed
qed

lemma wf_split_groups:
  assumes "wf_groups (xs @ target # ys)" and "tab \<in> set (all_tabs (xs @ target # ys))"
    and "cid \<notin> eg_id ` set (xs @ target # ys)" and "cid \<noteq> []"
  shows "wf_groups (split_result tab pos (new_group cid tab) xs target ys)"
    and "set (all_tabs (split_result tab pos (new_group cid tab) xs target ys)) = set (all_tabs (xs @ target # ys))"
proof -
  let ?w = "without_tab tab" and ?c = "new_group cid tab"
  let ?old = "map ?w xs @ ?w target # map ?w ys"
  have old: "?old = map ?w (xs @ target # ys)" by simp
  have wfw: "wf_groups ?old" unfolding old by (rule wf_groups_without [OF assms(1)])
  have tabs: "set (all_tabs ?old) = set (all_tabs (xs @ target # ys)) - {tab}"
    unfolding old all_tabs_without by auto
  have new: "cid \<notin> eg_id ` set ?old" using assms(3) by auto
  have "tab \<noteq> []" using assms(1,2) by (auto simp: wf_groups_def)
  then have c: "eg_id ?c = cid" "eg_tabs ?c = [tab]" "group_ok ?c" "tab \<noteq> []"
    by (simp_all add: new_group_def group_ok_def)
  have nt: "tab \<notin> set (all_tabs ?old)" using tabs by simp
  have perm: "wf_groups (?c # ?old)"
    using wfw new nt c assms(4) by (simp add: wf_groups_Cons)
  show "wf_groups (split_result tab pos ?c xs target ys)"
    using perm unfolding split_result_def
    by (cases "pos = First") (simp_all add: wf_groups_middle [of _ ?c] wf_groups_middle [of "_ @ [_]" ?c, simplified])
  show "set (all_tabs (split_result tab pos ?c xs target ys)) = set (all_tabs (xs @ target # ys))"
    using tabs assms(2) c(2) unfolding split_result_def by (cases "pos = First") auto
qed

lemma ratios_split_at: "ratios_ok (split_at gid dir pos c g)"
  using ratio_bounds by (simp add: split_at_def)

lemma splitGroup_wf:
  assumes "wf_layout l"
  shows "wf_layout (splitGroup l gid dir tab pos) \<and> layout_tabs (splitGroup l gid dir tab pos) = layout_tabs l"
proof (cases "splitGroup l gid dir tab pos = l")
  case False
  let ?gs = "layoutGroups (el_root l)" and ?c = "new_group (nextGroupId l) tab"
  from False obtain target source tree where target: "findGroup l gid = Some target"
    and source: "tabSource l tab = Some source"
    and pr: "pruneNode (mapGroups (split_at gid dir pos ?c) (mapGroups (\<lambda>g. Group (without_tab tab g)) (el_root l))) = Some tree"
    and depth: "splitDepth tree \<le> MAX_SPLIT_DEPTH"
    and res: "splitGroup l gid dir tab pos = \<lparr>el_root = tree, el_focused = nextGroupId l\<rparr>"
    by (rule splitGroup_changes)
  have wf: "wf_groups ?gs" "ratios_ok (el_root l)" using assms by (simp_all add: wf_layout_def wf_shape_def)
  have tab: "tab \<in> set (all_tabs ?gs)" using tabSource_Some [OF source] by (auto simp: all_tabs_def)
  have dist: "distinct (map eg_id ?gs)" using wf(1) by (simp add: wf_groups_def)
  obtain xs ys where gs: "?gs = xs @ target # ys"
    and split: "layoutGroups (mapGroups (split_at gid dir pos ?c) (mapGroups (\<lambda>g. Group (without_tab tab g)) (el_root l))) =
      split_result tab pos ?c xs target ys"
    using split_groups [OF refl dist target] by blast
  note new = wf_split_groups [OF wf(1) [unfolded gs] tab [unfolded gs] nextGroupId_fresh [of l, unfolded gs]
      nextGroupId_ne [of l], of pos]
  have kept: "layoutGroups tree = filter (\<lambda>g. eg_tabs g \<noteq> []) (split_result tab pos ?c xs target ys)"
    using prune_groups [of "mapGroups (split_at gid dir pos ?c) (mapGroups (\<lambda>g. Group (without_tab tab g)) (el_root l))"] pr split
    by simp
  have "?c \<in> set (split_result tab pos ?c xs target ys)" by (simp add: split_result_def)
  then have "?c \<in> set (layoutGroups tree)" unfolding kept by (simp add: new_group_def)
  then have "nextGroupId l \<in> eg_id ` set (layoutGroups tree)" by (rule rev_image_eqI) (simp add: new_group_def)
  moreover have "wf_groups (layoutGroups tree)" unfolding kept by (rule wf_groups_filter [OF new(1)])
  moreover have "set (all_tabs (layoutGroups tree)) = layout_tabs l"
    unfolding kept all_tabs_filter new(2) by (simp add: layout_tabs_def gs)
  moreover have "ratios_ok tree"
  proof -
    have "ratios_ok (mapGroups (split_at gid dir pos ?c) (mapGroups (\<lambda>g. Group (without_tab tab g)) (el_root l)))"
      using wf(2) ratios_split_at by (intro ratios_map) simp_all
    then show ?thesis using prune_shape [OF pr] by blast
  qed
  moreover have "no_empty_group tree" by (simp add: no_empty_group_def kept)
  ultimately show ?thesis
    unfolding res using depth by (simp add: wf_layout_def wf_shape_def layout_tabs_def)
qed (use assms in simp)

subsection \<open>Moving a tab\<close>

lemma place_tab_id [simp]: "eg_id (place_tab tab gid index g) = eg_id g"
  by (simp add: place_tab_def Let_def)

lemma place_tab_other: "eg_id g \<noteq> gid \<Longrightarrow> place_tab tab gid index g = without_tab tab g"
  by (simp add: place_tab_def)

lemma place_tab_target:
  assumes "eg_id g = gid"
  shows "set (eg_tabs (place_tab tab gid index g)) = insert tab (set (eg_tabs g) - {tab})"
    and "eg_active (place_tab tab gid index g) = tab"
    and "distinct (eg_tabs g) \<Longrightarrow> distinct (eg_tabs (place_tab tab gid index g))"
proof -
  define ts where "ts = filter (\<lambda>t. t \<noteq> tab) (eg_tabs g)"
  define n where "n = (case index of None \<Rightarrow> length ts | Some i \<Rightarrow> nat (max 0 (min i (int (length ts)))))"
  have eq: "place_tab tab gid index g = g\<lparr>eg_tabs := insert_at n tab ts, eg_active := tab\<rparr>"
    using assms by (simp add: place_tab_def insert_at_def Let_def n_def flip: ts_def)
  show "set (eg_tabs (place_tab tab gid index g)) = insert tab (set (eg_tabs g) - {tab})"
    "eg_active (place_tab tab gid index g) = tab"
    unfolding eq by (auto simp: ts_def)
  show "distinct (eg_tabs (place_tab tab gid index g))" if "distinct (eg_tabs g)"
    using that unfolding eq by (simp add: ts_def)
qed

lemma wf_place_tab:
  assumes "wf_groups (xs @ target # ys)" and "eg_id target = gid" and "tab \<in> set (all_tabs (xs @ target # ys))"
  shows "wf_groups (map (place_tab tab gid index) (xs @ target # ys))"
    and "set (all_tabs (map (place_tab tab gid index) (xs @ target # ys))) = set (all_tabs (xs @ target # ys))"
proof -
  let ?w = "without_tab tab" and ?p = "place_tab tab gid index"
  have others: "map ?p zs = map ?w zs" if "gid \<notin> eg_id ` set zs" for zs
    using that place_tab_other by (induction zs) auto
  have ids: "gid \<notin> eg_id ` set xs" "gid \<notin> eg_id ` set ys"
    using assms(1,2) by (auto simp: wf_groups_def)
  have eq: "map ?p (xs @ target # ys) = map ?w xs @ ?p target # map ?w ys"
    by (simp add: others ids)
  have old: "map ?w (xs @ target # ys) = map ?w xs @ ?w target # map ?w ys" by simp
  have wfw: "wf_groups (map ?w xs @ ?w target # map ?w ys)"
    using wf_groups_without [OF assms(1), of tab] by simp
  have t: "distinct (eg_tabs target)" "[] \<notin> set (eg_tabs target)" using assms(1) by (auto simp: wf_groups_def)
  have tab: "tab \<noteq> []" using assms(1,3) by (auto simp: wf_groups_def)
  have rest: "tab \<notin> set (all_tabs (map ?w xs @ map ?w ys))" by (simp add: all_tabs_without)
  note pt = place_tab_target [OF assms(2), of tab index]
  show "wf_groups (map ?p (xs @ target # ys))"
    unfolding eq
  proof (rule wf_groups_replace [OF wfw])
    show "eg_id (?p target) = eg_id (?w target)" by simp
    show "group_ok (?p target)" using pt(1,2) by (auto simp: group_ok_def)
    show "distinct (eg_tabs (?p target))" using pt(3) t(1) .
    show "[] \<notin> set (eg_tabs (?p target))" using pt(1) t(2) tab by auto
    have "set (eg_tabs (?w target)) \<inter> set (all_tabs (map ?w xs @ map ?w ys)) = {}"
      using wfw by (auto simp: wf_groups_middle wf_groups_Cons)
    then show "set (eg_tabs (?p target)) \<inter> set (all_tabs (map ?w xs @ map ?w ys)) = {}"
      using pt(1) rest by auto
  qed
  have "set (all_tabs (map ?p (xs @ target # ys))) = insert tab (set (all_tabs (map ?w (xs @ target # ys))))"
    unfolding eq using pt(1) by auto
  then show "set (all_tabs (map ?p (xs @ target # ys))) = set (all_tabs (xs @ target # ys))"
    unfolding all_tabs_without using assms(3) by auto
qed

lemma moveTabToGroup_wf:
  assumes "wf_layout l"
  shows "wf_layout (moveTabToGroup l tab gid index) \<and> layout_tabs (moveTabToGroup l tab gid index) = layout_tabs l"
proof (cases "moveTabToGroup l tab gid index = l")
  case False
  let ?gs = "layoutGroups (el_root l)"
  from False obtain target source tree where target: "findGroup l gid = Some target"
    and source: "tabSource l tab = Some source"
    and pr: "pruneNode (mapGroups (\<lambda>g. Group (place_tab tab gid index g)) (el_root l)) = Some tree"
    and res: "moveTabToGroup l tab gid index = restoreFocus tree gid"
    by (auto simp: moveTabToGroup_def split: option.split_asm if_split_asm)
  have wf: "wf_groups ?gs" "wf_shape (el_root l)" using assms by (simp_all add: wf_layout_def)
  have tab: "tab \<in> set (all_tabs ?gs)" using tabSource_Some [OF source] by (auto simp: all_tabs_def)
  from split_list [OF findGroup_Some(1) [OF target]] obtain xs ys where gs: "?gs = xs @ target # ys" by blast
  note new = wf_place_tab [OF wf(1) [unfolded gs] findGroup_Some(2) [OF target] tab [unfolded gs], of index]
  have sh: "wf_shape (mapGroups (\<lambda>g. Group (place_tab tab gid index g)) (el_root l))"
    using wf(2) by (simp add: wf_shape_def)
  have wfg: "wf_groups (layoutGroups (mapGroups (\<lambda>g. Group (place_tab tab gid index g)) (el_root l)))"
    using new(1) by (simp add: gs)
  note pruned = wf_pruned [OF pr wfg sh]
  show ?thesis
    unfolding res using wf_restoreFocus [OF pruned(1-3), of gid] pruned(4) new(2) by (simp add: gs layout_tabs_def)
qed (use assms in simp)

end
