(* ===== verification/EditorLayoutLaws.thy ===== *)
theory EditorLayoutLaws
  imports EditorLayout
begin

text \<open>
  The laws of the editor layout: the remaining operations keep it well formed, repair reconciles it with
  the open tabs, and its stored form reads back.
\<close>

subsection \<open>Order, merge, activation, focus and ratios\<close>

text \<open>Updating the one group of an id in place, with the same tabs.\<close>

lemma wf_update_group:
  assumes "wf_layout l" and "findGroup l gid = Some g" and "set (eg_tabs (h g)) = set (eg_tabs g)"
    and "distinct (eg_tabs (h g))" and "eg_id (h g) = gid" and "group_ok (h g)"
  shows "wf_layout (l\<lparr>el_root := mapGroups (\<lambda>x. Group (if eg_id x = gid then h x else x)) (el_root l)\<rparr>) \<and>
    layout_tabs (l\<lparr>el_root := mapGroups (\<lambda>x. Group (if eg_id x = gid then h x else x)) (el_root l)\<rparr>) = layout_tabs l"
proof -
  let ?gs = "layoutGroups (el_root l)"
  let ?tree = "mapGroups (\<lambda>x. Group (if eg_id x = gid then h x else x)) (el_root l)"
  have wf: "wf_groups ?gs" "wf_shape (el_root l)" "no_empty_group (el_root l)" "el_focused l \<in> eg_id ` set ?gs"
    using assms(1) by (simp_all add: wf_layout_def)
  have dist: "distinct (map eg_id ?gs)" using wf(1) by (simp add: wf_groups_def)
  note g = findGroup_Some [OF assms(2)]
  obtain xs ys where gs: "?gs = xs @ g # ys"
    and upd: "map (\<lambda>x. if eg_id x = eg_id g then h x else x) ?gs = xs @ h g # ys"
    by (rule unique_group [OF dist g(1)]) blast
  have map: "layoutGroups ?tree = xs @ h g # ys"
    using upd g(2) by simp
  have gwf: "[] \<notin> set (eg_tabs g)" "set (eg_tabs g) \<inter> set (all_tabs (xs @ ys)) = {}"
    using wf(1) unfolding gs wf_groups_middle wf_groups_Cons by blast+
  have empty: "eg_tabs (h g) = [] \<longleftrightarrow> eg_tabs g = []" using assms(3) by (metis set_empty)
  have "wf_groups (xs @ h g # ys)"
    by (rule wf_groups_replace [OF wf(1) [unfolded gs]]) (use assms(3-6) g(2) gwf in simp_all)
  moreover have "set (all_tabs (xs @ h g # ys)) = layout_tabs l"
    using assms(3) by (simp add: layout_tabs_def gs)
  moreover have "eg_id ` set (xs @ h g # ys) = eg_id ` set ?gs" using assms(5) g(2) by (simp add: gs)
  moreover have "wf_shape ?tree" using wf(2) by (simp add: wf_shape_def)
  moreover have "no_empty_group ?tree" using wf(3) empty by (simp add: no_empty_group_def map gs del: layoutGroups_map_group)
  ultimately show ?thesis using wf(4) map by (simp add: wf_layout_def layout_tabs_def)
qed

lemma group_ok_tabs: "group_ok g \<Longrightarrow> set ts = set (eg_tabs g) \<Longrightarrow> group_ok (g\<lparr>eg_tabs := ts\<rparr>)"
  by (cases ts; cases "eg_tabs g") (simp_all add: group_ok_def)

lemma setGroupTabOrder_wf:
  assumes "wf_layout l"
  shows "wf_layout (setGroupTabOrder l gid order) \<and> layout_tabs (setGroupTabOrder l gid order) = layout_tabs l"
proof (cases "setGroupTabOrder l gid order = l")
  case False
  have "findGroup l gid \<noteq> None"
  proof
    assume "findGroup l gid = None"
    with False show False by (simp add: setGroupTabOrder_def)
  qed
  then obtain g where g: "findGroup l gid = Some g" by blast
  have c: "length order = length (eg_tabs g) \<and> (\<forall>t \<in> set order. t \<in> set (eg_tabs g)) \<and> card (set order) = length order"
    by (rule ccontr) (use False g in \<open>simp add: setGroupTabOrder_def\<close>)
  then have res: "setGroupTabOrder l gid order =
      l\<lparr>el_root := mapGroups (\<lambda>x. Group (if eg_id x = gid then x\<lparr>eg_tabs := order\<rparr> else x)) (el_root l)\<rparr>"
    using g by (simp add: setGroupTabOrder_def)
  have wfg: "wf_groups (layoutGroups (el_root l))" using assms by (simp add: wf_layout_def)
  have ok: "group_ok g" "distinct (eg_tabs g)"
    using wf_group_of [OF wfg findGroup_Some(1) [OF g]] by blast+
  have "card (set (eg_tabs g)) = length (eg_tabs g)" using ok(2) by (rule distinct_card)
  then have card: "card (set order) = card (set (eg_tabs g))" using c by (elim conjE) (simp only:)
  have "set order \<subseteq> set (eg_tabs g)" using c by blast
  from card_subset_eq [OF finite_set this card] have same: "set order = set (eg_tabs g)" .
  have dist: "distinct order" using c card_distinct by blast
  have "group_ok (g\<lparr>eg_tabs := order\<rparr>)" using ok(1) same by (rule group_ok_tabs)
  then have "wf_layout (l\<lparr>el_root := mapGroups (\<lambda>x. Group (if eg_id x = gid then x\<lparr>eg_tabs := order\<rparr> else x)) (el_root l)\<rparr>) \<and>
      layout_tabs (l\<lparr>el_root := mapGroups (\<lambda>x. Group (if eg_id x = gid then x\<lparr>eg_tabs := order\<rparr> else x)) (el_root l)\<rparr>) = layout_tabs l"
    using wf_update_group [OF assms g, of "\<lambda>x. x\<lparr>eg_tabs := order\<rparr>"] same dist findGroup_Some(2) [OF g] by simp
  then show ?thesis unfolding res .
qed (use assms in simp)

lemma setActiveTab_wf:
  assumes "wf_layout l"
  shows "wf_layout (setActiveTab l gid tab) \<and> layout_tabs (setActiveTab l gid tab) = layout_tabs l"
proof (cases "setActiveTab l gid tab = l")
  case False
  then obtain g where g: "findGroup l gid = Some g" and tab: "tab \<in> set (eg_tabs g)"
    and res: "setActiveTab l gid tab =
      l\<lparr>el_root := mapGroups (\<lambda>x. Group (if eg_id x = gid then x\<lparr>eg_active := tab\<rparr> else x)) (el_root l)\<rparr>"
    by (auto simp: setActiveTab_def split: option.split_asm if_split_asm)
  have "distinct (eg_tabs g)"
    using wf_group_of assms findGroup_Some(1) [OF g] by (auto simp: wf_layout_def)
  moreover have "group_ok (g\<lparr>eg_active := tab\<rparr>)" using tab by (auto simp: group_ok_def)
  ultimately show ?thesis
    unfolding res using findGroup_Some(2) [OF g] by (intro wf_update_group [OF assms g]) simp_all
qed (use assms in simp)

lemma focusGroup_wf:
  "wf_layout l \<Longrightarrow> wf_layout (focusGroup l gid) \<and> layout_tabs (focusGroup l gid) = layout_tabs l"
  using findGroup_Some [of l gid] by (auto simp: focusGroup_def wf_layout_def layout_tabs_def)

lemma clampSplitRatio_bounds: "SPLIT_RATIO_MIN \<le> clampSplitRatio r" "clampSplitRatio r \<le> SPLIT_RATIO_MAX"
  using ratio_bounds by (auto simp: clampSplitRatio_def split: jsnum.split)

lemma set_ratio_keeps:
  "set_ratio tree p r = Some t \<Longrightarrow> layoutGroups t = layoutGroups tree \<and> splitDepth t = splitDepth tree \<and>
     is_group t = is_group tree \<and> (ratios_ok tree \<longrightarrow> ratios_ok t)"
proof (induction tree p r arbitrary: t rule: set_ratio.induct)
  case (2 d q a b ratio)
  then show ?case using clampSplitRatio_bounds by auto
qed auto

lemma setSplitRatioAt_wf:
  "wf_layout l \<Longrightarrow> wf_layout (setSplitRatioAt l p r) \<and> layout_tabs (setSplitRatioAt l p r) = layout_tabs l"
  using set_ratio_keeps [of "el_root l" p r]
  by (auto simp: setSplitRatioAt_def wf_layout_def wf_shape_def no_empty_group_def layout_tabs_def split: option.split)

text \<open>Merging: the source empties, the target takes its tabs.\<close>

lemma find_index_Some:
  "find_index P xs = Some i \<Longrightarrow> i < length xs \<and> P (xs ! i)"
  by (induction xs arbitrary: i) (auto split: if_split_asm)

lemma merge_other: "eg_id g \<noteq> eg_id s \<Longrightarrow> eg_id g \<noteq> eg_id t \<Longrightarrow> merge_group s t g = g"
  by (simp add: merge_group_def)

lemma map_merge_other:
  "eg_id s \<notin> eg_id ` set zs \<Longrightarrow> eg_id t \<notin> eg_id ` set zs \<Longrightarrow> map (merge_group s t) zs = zs"
  by (induction zs) (auto simp: merge_other)

lemma merge_id [simp]: "eg_id (merge_group s t g) = eg_id g"
  by (simp add: merge_group_def)

lemma wf_groups_swap: "wf_groups (x # y # zs) \<longleftrightarrow> wf_groups (y # x # zs)"
  using wf_groups_middle [of "[x]" y zs] by simp

lemma wf_merged_pair:
  assumes "wf_groups (s # t # zs)"
  shows "wf_groups (merge_group s t s # merge_group s t t # zs)"
    and "set (all_tabs (merge_group s t s # merge_group s t t # zs)) = set (all_tabs (s # t # zs))"
    and "map (merge_group s t) zs = zs"
proof -
  have ids: "eg_id s \<noteq> eg_id t" "eg_id s \<notin> eg_id ` set zs" "eg_id t \<notin> eg_id ` set zs"
    using assms by (auto simp: wf_groups_Cons)
  have s': "eg_tabs (merge_group s t s) = []" "eg_active (merge_group s t s) = []"
    using ids(1) by (simp_all add: merge_group_def)
  have t': "eg_tabs (merge_group s t t) = eg_tabs t @ eg_tabs s"
    by (simp add: merge_group_def)
  have st: "group_ok s" "group_ok t" using assms by (simp_all add: wf_groups_Cons)
  have ok: "group_ok (merge_group s t t)"
  proof (cases "eg_active s = []")
    case True
    then have "eg_tabs s = []" using assms st(1) by (auto simp: wf_groups_Cons group_ok_def split: if_splits)
    with True st(2) show ?thesis by (simp add: group_ok_def merge_group_def)
  next
    case False
    then have "eg_active s \<in> set (eg_tabs s)" using st(1) by (auto simp: group_ok_def split: if_splits)
    with False show ?thesis by (auto simp: group_ok_def merge_group_def)
  qed
  have parts: "eg_id s \<noteq> []" "eg_id t \<noteq> []" "distinct (eg_tabs s)" "distinct (eg_tabs t)" "[] \<notin> set (eg_tabs s)"
    "[] \<notin> set (eg_tabs t)" "wf_groups zs" "set (eg_tabs s) \<inter> set (eg_tabs t) = {}"
    "set (eg_tabs s) \<inter> set (all_tabs zs) = {}" "set (eg_tabs t) \<inter> set (all_tabs zs) = {}"
    using assms by (auto simp: wf_groups_Cons)
  show "wf_groups (merge_group s t s # merge_group s t t # zs)"
    using parts ids ok s' t' by (auto simp: wf_groups_Cons group_ok_def [of "merge_group s t s"])
  show "set (all_tabs (merge_group s t s # merge_group s t t # zs)) = set (all_tabs (s # t # zs))"
    using s' t' by auto
  show "map (merge_group s t) zs = zs" using ids by (intro map_merge_other)
qed

text \<open>A group and its neighbour in reading order, with the merge applied around them.\<close>

lemma wf_merged_at:
  assumes "wf_groups (pre @ x # y # post)" and "(x, y) = (s, t) \<or> (x, y) = (t, s)"
  shows "wf_groups (map (merge_group s t) (pre @ x # y # post)) \<and>
    set (all_tabs (map (merge_group s t) (pre @ x # y # post))) = set (all_tabs (pre @ x # y # post))"
proof -
  have "wf_groups (x # y # pre @ post)"
    using assms(1) wf_groups_middle [of pre x "y # post"] wf_groups_middle [of "x # pre" y post]
      wf_groups_swap [of y x "pre @ post"] by simp
  then have st: "wf_groups (s # t # pre @ post)" using assms(2) wf_groups_swap by auto
  note pair = wf_merged_pair [OF st]
  let ?m = "merge_group s t"
  have others: "map ?m pre = pre" "map ?m post = post" using pair(3) by simp_all
  have "wf_groups (?m x # ?m y # pre @ post)" using pair(1) assms(2) wf_groups_swap by auto
  then have "wf_groups (pre @ ?m x # ?m y # post)"
    using wf_groups_middle [of pre "?m x" "?m y # post"] wf_groups_middle [of "?m x # pre" "?m y" post]
      wf_groups_swap [of "?m y" "?m x" "pre @ post"] by simp
  moreover have "set (all_tabs (pre @ ?m x # ?m y # post)) = set (all_tabs (pre @ x # y # post))"
    using pair(2) assms(2) by auto
  ultimately show ?thesis by (simp add: others)
qed

lemma two_neighbours:
  assumes "i < length gs" and "2 \<le> length gs"
  shows "\<exists>pre x y post. gs = pre @ x # y # post \<and>
    ((x, y) = (gs ! i, gs ! (if i = 0 then 1 else i - 1)) \<or> (x, y) = (gs ! (if i = 0 then 1 else i - 1), gs ! i))"
proof (cases i)
  case 0
  have "gs = [] @ gs ! 0 # gs ! 1 # drop 2 gs"
    using assms by (cases gs; cases "tl gs") auto
  then show ?thesis
    using 0 by (intro exI [of _ "[]"] exI [of _ "gs ! 0"] exI [of _ "gs ! 1"] exI [of _ "drop 2 gs"]) simp
next
  case (Suc j)
  have "gs = take j gs @ gs ! j # gs ! Suc j # drop (Suc (Suc j)) gs"
    using assms(1) Suc by (metis Cons_nth_drop_Suc Suc_lessD append_take_drop_id)
  then show ?thesis using Suc by (intro exI [of _ "take j gs"] exI) auto
qed

lemma dissolveGroup_wf:
  assumes "wf_layout l"
  shows "wf_layout (dissolveGroup l gid) \<and> layout_tabs (dissolveGroup l gid) = layout_tabs l"
proof (cases "dissolveGroup l gid = l")
  case False
  let ?gs = "layoutGroups (el_root l)"
  obtain i where i: "find_index (\<lambda>g. eg_id g = gid) ?gs = Some i"
    using False by (cases "find_index (\<lambda>g. eg_id g = gid) ?gs") (simp_all add: dissolveGroup_def)
  define s where "s = ?gs ! i"
  define t where "t = ?gs ! (if i = 0 then 1 else i - 1)"
  have len: "\<not> length ?gs < 2" using False i by (auto simp: dissolveGroup_def)
  then have dissolve: "dissolveGroup l gid =
      (case pruneNode (mapGroups (\<lambda>g. Group (merge_group s t g)) (el_root l)) of
         None \<Rightarrow> l | Some tree \<Rightarrow> restoreFocus tree (eg_id t))"
    by (simp only: dissolveGroup_def Let_def i option.case s_def t_def if_False)
  with False obtain tree where pr: "pruneNode (mapGroups (\<lambda>g. Group (merge_group s t g)) (el_root l)) = Some tree"
    and res: "dissolveGroup l gid = restoreFocus tree (eg_id t)"
    by (auto split: option.split_asm)
  have wf: "wf_groups ?gs" "wf_shape (el_root l)" using assms by (simp_all add: wf_layout_def)
  from two_neighbours [of i ?gs] find_index_Some [OF i] len obtain pre x y post where
    gs: "?gs = pre @ x # y # post" and xy: "(x, y) = (s, t) \<or> (x, y) = (t, s)"
    unfolding s_def t_def by auto
  note new = wf_merged_at [OF wf(1) [unfolded gs] xy]
  have sh: "wf_shape (mapGroups (\<lambda>g. Group (merge_group s t g)) (el_root l))"
    using wf(2) by (simp add: wf_shape_def)
  have wfg: "wf_groups (layoutGroups (mapGroups (\<lambda>g. Group (merge_group s t g)) (el_root l)))"
    using new by (simp add: gs)
  note pruned = wf_pruned [OF pr wfg sh]
  show ?thesis
    unfolding res using wf_restoreFocus [OF pruned(1-3), of "eg_id t"] pruned(4) new
    by (simp add: gs layout_tabs_def)
qed (use assms in simp)

section \<open>Repair\<close>

lemma keep_new_spec:
  assumes "keep_new opened seen ts = (seen', ts')"
  shows "distinct ts' \<and> set ts' = (set ts \<inter> set opened) - set seen \<and> set seen' = set seen \<union> set ts'"
  using assms
proof (induction opened seen ts arbitrary: seen' ts' rule: keep_new.induct)
  case (2 opened seen t ts)
  show ?case
  proof (cases "t \<notin> set opened \<or> t \<in> set seen")
    case True
    then have "keep_new opened seen ts = (seen', ts')" using "2.prems" by simp
    from "2.IH"(1) [OF True this] True show ?thesis by auto
  next
    case False
    obtain s1 t1 where k: "keep_new opened (t # seen) ts = (s1, t1)" by fastforce
    then have "seen' = s1" "ts' = t # t1" using 2(3) False by simp_all
    moreover have "distinct t1 \<and> set t1 = (set ts \<inter> set opened) - set (t # seen) \<and> set s1 = set (t # seen) \<union> set t1"
      using "2.IH"(2) [OF False k] .
    ultimately show ?thesis using False by auto
  qed
qed simp

fun repair_list :: "string list \<Rightarrow> string list \<Rightarrow> editor_group list \<Rightarrow> string list \<times> editor_group list" where
  "repair_list opened seen [] = (seen, [])"
| "repair_list opened seen (g # gs) =
     (let (s1, ts) = keep_new opened seen (eg_tabs g); (s2, gs') = repair_list opened s1 gs
      in (s2, restoreGroupInvariants (g\<lparr>eg_tabs := ts\<rparr>) # gs'))"

lemma repair_list_append:
  "repair_list opened seen (xs @ ys) =
   (let (s1, xs') = repair_list opened seen xs; (s2, ys') = repair_list opened s1 ys in (s2, xs' @ ys'))"
  by (induction xs arbitrary: seen) (simp_all add: Let_def split: prod.split)

lemma repair_tree:
  "mapGroupsWith (repair_group opened) seen tree = (seen', tree') \<Longrightarrow>
   repair_list opened seen (layoutGroups tree) = (seen', layoutGroups tree') \<and>
   splitDepth tree' = splitDepth tree \<and> ratios_ok tree' = ratios_ok tree"
proof (induction tree arbitrary: seen seen' tree')
  case (Group g)
  then show ?case by (auto simp: repair_group_def Let_def split: prod.splits)
next
  case (Split d r a b)
  then show ?case by (fastforce simp: repair_list_append Let_def split: prod.splits)
qed

lemma restore_ok: "restoreGroupInvariants g = g' \<Longrightarrow> eg_id g' = eg_id g \<and> eg_tabs g' = eg_tabs g \<and> group_ok g'"
  by (cases "eg_active g \<in> set (eg_tabs g)"; cases "eg_tabs g")
    (auto simp: restoreGroupInvariants_def group_ok_def first_or_empty_def)

lemma restore_keeps:
  "eg_id (restoreGroupInvariants g) = eg_id g" "eg_tabs (restoreGroupInvariants g) = eg_tabs g"
  "group_ok (restoreGroupInvariants g)"
  using restore_ok [OF refl] by blast+

lemma repair_list_spec:
  assumes "repair_list opened seen gs = (seen', gs')"
  shows "map eg_id gs' = map eg_id gs \<and> (\<forall>g \<in> set gs'. group_ok g) \<and> distinct (all_tabs gs') \<and>
    set (all_tabs gs') = (set (all_tabs gs) \<inter> set opened) - set seen \<and> set seen' = set seen \<union> set (all_tabs gs')"
  using assms
proof (induction gs arbitrary: seen seen' gs')
  case (Cons g gs)
  obtain s1 ts where k: "keep_new opened seen (eg_tabs g) = (s1, ts)" by fastforce
  obtain s2 gs2 where r: "repair_list opened s1 gs = (s2, gs2)" by fastforce
  define g' where "g' = restoreGroupInvariants (g\<lparr>eg_tabs := ts\<rparr>)"
  have eqs: "seen' = s2" "gs' = g' # gs2" using Cons.prems k r by (simp_all add: g'_def)
  have g': "eg_id g' = eg_id g" "eg_tabs g' = ts" "group_ok g'"
    using restore_ok [OF g'_def [symmetric]] by simp_all
  note ks = keep_new_spec [OF k] and rs = Cons.IH [OF r]
  show ?case unfolding eqs using ks rs g' by auto
qed simp

definition repairable :: "editor_layout \<Rightarrow> bool" where
  "repairable l \<longleftrightarrow> distinct (map eg_id (layoutGroups (el_root l))) \<and>
     [] \<notin> eg_id ` set (layoutGroups (el_root l)) \<and> wf_shape (el_root l)"

lemma adopt_id [simp]: "eg_id (adopt gid orphans g) = eg_id g"
  by (simp add: adopt_def restore_keeps)

lemma adopt_target:
  "eg_id g = gid \<Longrightarrow> eg_tabs (adopt gid orphans g) = eg_tabs g @ orphans \<and> group_ok (adopt gid orphans g)"
  by (simp add: adopt_def restore_keeps)

lemma adopt_other: "eg_id g \<noteq> gid \<Longrightarrow> adopt gid orphans g = g"
  by (simp add: adopt_def)

lemma wf_adopted:
  assumes "wf_groups gs" and "gid \<in> eg_id ` set gs" and "distinct orphans" and "[] \<notin> set orphans"
    and "set orphans \<inter> set (all_tabs gs) = {}"
  shows "wf_groups (map (adopt gid orphans) gs) \<and>
    set (all_tabs (map (adopt gid orphans) gs)) = set (all_tabs gs) \<union> set orphans"
proof -
  from assms(2) obtain g where g: "g \<in> set gs" "eg_id g = gid" by blast
  from split_list [OF g(1)] obtain xs ys where gs: "gs = xs @ g # ys" by blast
  let ?a = "adopt gid orphans"
  have ids: "gid \<notin> eg_id ` set xs" "gid \<notin> eg_id ` set ys"
    using assms(1) g(2) by (auto simp: gs wf_groups_def)
  have "map ?a zs = zs" if "gid \<notin> eg_id ` set zs" for zs
    using that adopt_other by (induction zs) auto
  then have eq: "map ?a gs = xs @ ?a g # ys" using ids by (simp add: gs)
  note t = adopt_target [OF g(2), of orphans]
  have g_wf: "distinct (eg_tabs g)" "[] \<notin> set (eg_tabs g)" "set (eg_tabs g) \<inter> set (all_tabs (xs @ ys)) = {}"
    using assms(1) by (simp_all add: gs wf_groups_middle wf_groups_Cons)
  have apart: "set orphans \<inter> set (eg_tabs g) = {}" "set orphans \<inter> set (all_tabs (xs @ ys)) = {}"
    using assms(5) by (auto simp: gs)
  have "wf_groups (xs @ ?a g # ys)"
  proof (rule wf_groups_replace [OF assms(1) [unfolded gs]])
    show "distinct (eg_tabs (?a g))" using t g_wf(1) assms(3) apart(1) by auto
    show "[] \<notin> set (eg_tabs (?a g))" using t g_wf(2) assms(4) by simp
    show "set (eg_tabs (?a g)) \<inter> set (all_tabs (xs @ ys)) = {}" using t g_wf(3) apart(2) by auto
  qed (use t in simp_all)
  moreover have "set (all_tabs (xs @ ?a g # ys)) = set (all_tabs gs) \<union> set orphans" using t by (auto simp: gs)
  ultimately show ?thesis by (simp only: eq)
qed

lemma wf_emptyLayout: "wf_layout emptyLayout \<and> layout_tabs emptyLayout = {}"
  by (simp add: emptyLayout_def singleGroupLayout_def first_or_empty_def wf_layout_def wf_groups_def wf_shape_def
      no_empty_group_def layout_tabs_def group_ok_def)

lemma repair_wf:
  assumes "repairable l" and "distinct opened" and "[] \<notin> set opened"
  shows "wf_layout (repairEditorLayout l opened) \<and> layout_tabs (repairEditorLayout l opened) = set opened"
proof -
  obtain seen filtered where f: "mapGroupsWith (repair_group opened) [] (el_root l) = (seen, filtered)" by fastforce
  note tree = repair_tree [OF f]
  note spec = repair_list_spec [OF tree [THEN conjunct1]]
  let ?gs = "layoutGroups filtered"
  have ids: "set (map eg_id ?gs) = eg_id ` set (layoutGroups (el_root l))" using spec by (metis set_map)
  have wf: "wf_groups ?gs"
  proof -
    have "[] \<notin> set (all_tabs ?gs)" using spec assms(3) by auto
    moreover have "[] \<notin> eg_id ` set ?gs" using ids assms(1) by (simp add: repairable_def)
    moreover have "distinct (map eg_id ?gs)" using spec assms(1) by (simp add: repairable_def)
    ultimately show ?thesis using spec by (simp add: wf_groups_def)
  qed
  have seen: "set seen = set (all_tabs ?gs)" "set (all_tabs ?gs) \<subseteq> set opened" using spec by auto
  define orphans where "orphans = filter (\<lambda>t. t \<notin> set seen) opened"
  define target where "target = (if \<exists>g \<in> set ?gs. eg_id g = el_focused l then el_focused l else eg_id (hd ?gs))"
  define adopted where "adopted = (if orphans = [] then filtered else mapGroups (\<lambda>g. Group (adopt target orphans g)) filtered)"
  have repair: "repairEditorLayout l opened =
      (case pruneNode adopted of None \<Rightarrow> emptyLayout | Some tree \<Rightarrow> restoreFocus tree (el_focused l))"
    by (simp add: repairEditorLayout_def f Let_def orphans_def target_def adopted_def)
  have target: "target \<in> eg_id ` set ?gs"
    by (auto simp: target_def intro: rev_image_eqI)
  have orph: "distinct orphans" "[] \<notin> set orphans" "set orphans \<inter> set (all_tabs ?gs) = {}"
    "set (all_tabs ?gs) \<union> set orphans = set opened"
    using assms(2,3) seen by (auto simp: orphans_def)
  have wfa: "wf_groups (layoutGroups adopted) \<and> set (all_tabs (layoutGroups adopted)) = set opened"
  proof (cases "orphans = []")
    case True
    then show ?thesis using wf orph(4) by (simp add: adopted_def)
  next
    case False
    then show ?thesis using wf_adopted [OF wf target orph(1-3)] orph(4) by (simp add: adopted_def)
  qed
  have sh: "wf_shape adopted" using tree assms(1) by (simp add: adopted_def wf_shape_def repairable_def)
  show ?thesis
  proof (cases "pruneNode adopted")
    case None
    then have "all_tabs (filter (\<lambda>g. eg_tabs g \<noteq> []) (layoutGroups adopted)) = []"
      using prune_groups [of adopted] by simp
    then have "set opened = {}" using wfa by (simp only: all_tabs_filter) simp
    then show ?thesis using wf_emptyLayout repair None by simp
  next
    case (Some t)
    note pruned = wf_pruned [OF Some wfa [THEN conjunct1] sh]
    show ?thesis
      using wf_restoreFocus [OF pruned(1-3), of "el_focused l"] pruned(4) wfa repair Some by simp
  qed
qed

section \<open>Encoding and decoding\<close>

definition ids_of :: "editor_node \<Rightarrow> string set" where
  "ids_of t = eg_id ` set (layoutGroups t)"

lemma strings_of_Some: "strings_of js = Some ts \<longleftrightarrow> js = map JStr ts \<and> [] \<notin> set ts"
proof (induction js arbitrary: ts rule: strings_of.induct)
  case (2 s js)
  show ?case
  proof (cases ts)
    case (Cons t ts')
    then show ?thesis using 2 [of ts'] by auto
  qed auto
qed auto

lemma decode_group_spec:
  assumes "decode_group row seen = Some (t, seen')"
  shows "\<exists>g. t = Group g \<and> group_ok g \<and> eg_id g \<noteq> [] \<and> eg_id g \<notin> set (fst seen) \<and> distinct (eg_tabs g) \<and>
    [] \<notin> set (eg_tabs g) \<and> set (eg_tabs g) \<inter> set (snd seen) = {} \<and>
    set (fst seen') = insert (eg_id g) (set (fst seen)) \<and> set (snd seen') = set (eg_tabs g) \<union> set (snd seen)"
proof -
  from assms obtain gid raw active tabs where
    "map_of row ''id'' = Some (JStr gid)" "map_of row ''tabIds'' = Some (JArr raw)"
    "map_of row ''activeTabId'' = Some (JStr active)" and gid: "gid \<noteq> []" "gid \<notin> set (fst seen)"
    and tabs: "strings_of raw = Some tabs" "distinct tabs" "set tabs \<inter> set (snd seen) = {}"
    and t: "t = Group (restoreGroupInvariants \<lparr>eg_id = gid, eg_tabs = tabs, eg_active = active\<rparr>)"
    and s: "seen' = (gid # fst seen, rev tabs @ snd seen)"
    by (auto simp: decode_group_def split: option.splits json.splits if_splits)
  have "[] \<notin> set tabs" using tabs(1) by (simp add: strings_of_Some)
  with restore_ok [OF refl, of "\<lparr>eg_id = gid, eg_tabs = tabs, eg_active = active\<rparr>"] gid tabs t s
  show ?thesis by (intro exI [of _ "restoreGroupInvariants \<lparr>eg_id = gid, eg_tabs = tabs, eg_active = active\<rparr>"]) auto
qed

lemma decode_node_spec:
  "decode_node v depth seen = Some (t, seen') \<Longrightarrow>
   wf_groups (layoutGroups t) \<and> ids_of t \<inter> set (fst seen) = {} \<and> set (all_tabs (layoutGroups t)) \<inter> set (snd seen) = {} \<and>
   set (fst seen') = ids_of t \<union> set (fst seen) \<and> set (snd seen') = set (all_tabs (layoutGroups t)) \<union> set (snd seen) \<and>
   ratios_ok t \<and> (splitDepth t = 0 \<or> splitDepth t + depth \<le> MAX_SPLIT_DEPTH)"
proof (induction v depth seen arbitrary: t seen' rule: decode_node.induct)
  case (1 row depth seen)
  show ?case
  proof (cases "map_of row ''kind'' = Some (JStr ''group'')")
    case True
    with "1.prems" have "decode_group row seen = Some (t, seen')" by simp
    from decode_group_spec [OF this] show ?thesis by (auto simp: ids_of_def wf_groups_Cons)
  next
    case False
    then have split: "map_of row ''kind'' = Some (JStr ''split'')" and depth: "\<not> depth \<ge> MAX_SPLIT_DEPTH"
      using "1.prems" by (auto split: if_splits)
    obtain d r where dr: "decode_direction (map_of row ''direction'') = Some d" "decode_ratio (map_of row ''ratio'') = Some r"
      using "1.prems" False split depth by (auto split: option.splits)
    obtain a s1 where a: "decode_node (map_of row ''first'') (Suc depth) seen = Some (a, s1)"
      using "1.prems" False split depth dr by (auto split: option.splits)
    obtain b s2 where b: "decode_node (map_of row ''second'') (Suc depth) s1 = Some (b, s2)"
      using "1.prems" False split depth dr a by (auto split: option.splits)
    have t: "t = Split d (clampSplitRatio (Fin r)) a b" "seen' = s2"
      using "1.prems" False split depth dr a b by auto
    note A = "1.IH"(1) [OF False split depth refl dr a]
    note B = "1.IH"(2) [OF False split depth refl dr a refl b]
    have groups: "layoutGroups t = layoutGroups a @ layoutGroups b" using t(1) by simp
    have ids: "ids_of t = ids_of a \<union> ids_of b" by (simp add: ids_of_def groups image_Un)
    have apart: "ids_of a \<inter> ids_of b = {}" "set (all_tabs (layoutGroups a)) \<inter> set (all_tabs (layoutGroups b)) = {}"
      using A B by auto
    then have "wf_groups (layoutGroups t)"
      using A B unfolding groups by (simp add: wf_groups_append ids_of_def)
    moreover have "ids_of t \<inter> set (fst seen) = {}" "set (all_tabs (layoutGroups t)) \<inter> set (snd seen) = {}"
      "set (fst seen') = ids_of t \<union> set (fst seen)" "set (snd seen') = set (all_tabs (layoutGroups t)) \<union> set (snd seen)"
      using A B unfolding ids groups t(2) by auto
    moreover have "ratios_ok t" using A B clampSplitRatio_bounds t(1) by simp
    moreover have "splitDepth t + depth \<le> MAX_SPLIT_DEPTH"
      using A B depth t(1) by (auto simp: max_def)
    ultimately show ?thesis by blast
  qed
qed simp_all

lemma decode_repairable:
  assumes "decodeEditorLayout v = Some l"
  shows "wf_groups (layoutGroups (el_root l)) \<and> wf_shape (el_root l) \<and>
    el_focused l \<in> eg_id ` set (layoutGroups (el_root l)) \<and> repairable l"
proof -
  from assms obtain env f tree seen where dec: "decode_node (map_of env ''root'') 0 ([], []) = Some (tree, seen)"
    and l: "l = restoreFocus tree f"
    by (auto simp: decodeEditorLayout_def split: json.splits if_splits option.splits)
  note spec = decode_node_spec [OF dec]
  have "wf_shape tree" using spec by (auto simp: wf_shape_def MAX_SPLIT_DEPTH_def)
  moreover have "wf_groups (layoutGroups tree)" using spec by blast
  ultimately show ?thesis
    unfolding l by (auto simp: restoreFocus_def repairable_def wf_groups_def Let_def)
qed

text \<open>Encoding followed by decoding.\<close>

lemma decode_direction_json [simp]: "decode_direction (Some (direction_json d)) = Some d"
  by (cases d) (simp_all add: decode_direction_def)

lemma restore_same: "group_ok g \<Longrightarrow> restoreGroupInvariants g = g"
  by (cases "eg_tabs g") (auto simp: restoreGroupInvariants_def group_ok_def first_or_empty_def)

lemma clamp_same: "SPLIT_RATIO_MIN \<le> r \<Longrightarrow> r \<le> SPLIT_RATIO_MAX \<Longrightarrow> clampSplitRatio (Fin r) = r"
  by (simp add: clampSplitRatio_def)

lemma decode_encode_node:
  assumes "wf_groups (layoutGroups t)" and "ratios_ok t" and "splitDepth t = 0 \<or> splitDepth t + depth \<le> MAX_SPLIT_DEPTH"
    and "ids_of t \<inter> set (fst seen) = {}" and "set (all_tabs (layoutGroups t)) \<inter> set (snd seen) = {}"
  shows "\<exists>seen'. decode_node (Some (encode_node t)) depth seen = Some (t, seen')"
  using assms
proof (induction t arbitrary: depth seen)
  case (Group g)
  have g: "eg_id g \<noteq> []" "eg_id g \<notin> set (fst seen)" "distinct (eg_tabs g)" "[] \<notin> set (eg_tabs g)"
    "set (eg_tabs g) \<inter> set (snd seen) = {}" "group_ok g"
    using Group.prems by (auto simp: wf_groups_Cons ids_of_def)
  have tabs: "strings_of (map JStr (eg_tabs g)) = Some (eg_tabs g)" using g(4) by (simp add: strings_of_Some)
  have same: "restoreGroupInvariants \<lparr>eg_id = eg_id g, eg_tabs = eg_tabs g, eg_active = eg_active g\<rparr> = g"
    using restore_same [OF g(6)] by (cases g) simp
  show ?case using g tabs same by (simp add: decode_group_def)
next
  case (Split d r a b)
  have parts: "wf_groups (layoutGroups a)" "wf_groups (layoutGroups b)" "ids_of a \<inter> ids_of b = {}"
    "set (all_tabs (layoutGroups a)) \<inter> set (all_tabs (layoutGroups b)) = {}"
    using Split.prems(1) by (simp_all add: wf_groups_append ids_of_def)
  have ids: "ids_of (Split d r a b) = ids_of a \<union> ids_of b" by (simp add: ids_of_def image_Un)
  have depth: "\<not> depth \<ge> MAX_SPLIT_DEPTH" "splitDepth a + Suc depth \<le> MAX_SPLIT_DEPTH" "splitDepth b + Suc depth \<le> MAX_SPLIT_DEPTH"
    using Split.prems(3) by auto
  obtain s1 where s1: "decode_node (Some (encode_node a)) (Suc depth) seen = Some (a, s1)"
    using Split.IH(1) [OF parts(1), of "Suc depth" seen] Split.prems depth ids by auto
  note A = decode_node_spec [OF s1]
  have "ids_of b \<inter> set (fst s1) = {}" "set (all_tabs (layoutGroups b)) \<inter> set (snd s1) = {}"
    using A parts Split.prems(4,5) ids by auto
  then obtain s2 where s2: "decode_node (Some (encode_node b)) (Suc depth) s1 = Some (b, s2)"
    using Split.IH(2) [OF parts(2), of "Suc depth" s1] Split.prems(2) depth by auto
  have "clampSplitRatio (Fin r) = r" using Split.prems(2) by (simp add: clamp_same)
  then show ?case
    using s1 s2 depth(1) by (simp add: decode_ratio_def)
qed

section \<open>Properties\<close>

text \<open>The operations of the layout, for statements about sequences of them.\<close>

datatype layout_op =
    OpSplit string direction string side
  | OpMove string string "int option"
  | OpOrder string "string list"
  | OpDissolve string
  | OpActivate string string
  | OpFocus string
  | OpRatio "side list" jsnum

fun layout_step :: "layout_op \<Rightarrow> editor_layout \<Rightarrow> editor_layout" where
  "layout_step (OpSplit gid d tab pos) l = splitGroup l gid d tab pos"
| "layout_step (OpMove tab gid i) l = moveTabToGroup l tab gid i"
| "layout_step (OpOrder gid order) l = setGroupTabOrder l gid order"
| "layout_step (OpDissolve gid) l = dissolveGroup l gid"
| "layout_step (OpActivate gid tab) l = setActiveTab l gid tab"
| "layout_step (OpFocus gid) l = focusGroup l gid"
| "layout_step (OpRatio p r) l = setSplitRatioAt l p r"

lemma layout_step_wf:
  "wf_layout l \<Longrightarrow> wf_layout (layout_step op l) \<and> layout_tabs (layout_step op l) = layout_tabs l"
  by (cases op) (simp_all add: splitGroup_wf moveTabToGroup_wf setGroupTabOrder_wf dissolveGroup_wf
      setActiveTab_wf focusGroup_wf setSplitRatioAt_wf)

text \<open>C4: no sequence of layout operations loses or duplicates a tab. The groups keep distinct ids and
  hold every open tab exactly once, each group shows one of its own tabs, the focus is on a group of the
  tree, no split has an empty side, the tree is at most four splits deep and every ratio lies between the
  bounds.\<close>

theorem editor_operations_keep_layout:
  assumes "wf_layout l"
  shows "wf_layout (fold layout_step ops l) \<and> layout_tabs (fold layout_step ops l) = layout_tabs l"
  using assms by (induction ops arbitrary: l) (simp_all add: layout_step_wf)

definition demo_layout :: editor_layout where
  "demo_layout = singleGroupLayout [''a'', ''b'', ''c''] ''b'' ''group-1''"

lemma demo_layout_wf: "wf_layout demo_layout" "layout_tabs demo_layout = {''a'', ''b'', ''c''}"
  by (simp_all add: demo_layout_def singleGroupLayout_def wf_layout_def wf_groups_def wf_shape_def
      no_empty_group_def layout_tabs_def group_ok_def)

theorem editor_operations_keep_layout_witness:
  "layout_tabs (fold layout_step [OpSplit ''group-1'' Row ''b'' Second, OpDissolve ''group-1''] demo_layout) = {''a'', ''b'', ''c''}"
  by (simp only: conjunct2 [OF editor_operations_keep_layout [OF demo_layout_wf(1)]] demo_layout_wf(2))

text \<open>C35: repair reconciles any stored tree with the list of open tabs: afterwards the layout is well
  formed and holds exactly the open tabs, whatever tabs the tree named before.\<close>

theorem repair_holds_open_tabs:
  assumes "distinct (map eg_id (layoutGroups (el_root l)))" and "[] \<notin> eg_id ` set (layoutGroups (el_root l))"
    and "wf_shape (el_root l)" and "distinct opened" and "[] \<notin> set opened"
  shows "wf_layout (repairEditorLayout l opened) \<and> layout_tabs (repairEditorLayout l opened) = set opened"
  using repair_wf assms by (simp add: repairable_def)

theorem repair_holds_open_tabs_witness:
  "layout_tabs (repairEditorLayout demo_layout [''b'', ''d'']) = {''b'', ''d''}"
proof -
  have "distinct (map eg_id (layoutGroups (el_root demo_layout)))" "[] \<notin> eg_id ` set (layoutGroups (el_root demo_layout))"
    "wf_shape (el_root demo_layout)"
    using demo_layout_wf(1) by (simp_all add: wf_layout_def wf_groups_def)
  from repair_holds_open_tabs [OF this, of "[''b'', ''d'']"] show ?thesis by simp
qed

text \<open>C36: a stored layout is read back as it was written. Decoding the encoding of a well-formed layout
  gives the layout.\<close>

theorem editor_layout_roundtrip:
  assumes "wf_layout l"
  shows "decodeEditorLayout (encodeEditorLayout l) = Some l"
proof -
  have wf: "wf_groups (layoutGroups (el_root l))" "ratios_ok (el_root l)" "splitDepth (el_root l) \<le> MAX_SPLIT_DEPTH"
    and focus: "el_focused l \<in> eg_id ` set (layoutGroups (el_root l))"
    using assms by (simp_all add: wf_layout_def wf_shape_def)
  obtain seen where "decode_node (Some (encode_node (el_root l))) 0 ([], []) = Some (el_root l, seen)"
    using decode_encode_node [of "el_root l" 0 "([], [])"] wf by auto
  moreover have "restoreFocus (el_root l) (el_focused l) = l"
    using focus by (cases l) (auto simp: restoreFocus_def Let_def)
  ultimately show ?thesis
    by (simp add: decodeEditorLayout_def encodeEditorLayout_def del: decode_node.simps)
qed

theorem editor_layout_roundtrip_witness:
  "decodeEditorLayout (encodeEditorLayout demo_layout) = Some demo_layout"
  by (rule editor_layout_roundtrip [OF demo_layout_wf(1)])

text \<open>C37: whatever text the browser storage holds, what decodes has distinct group and tab ids, bounded
  depth and ratios and a valid focus, and repairing it against the open tabs yields a well-formed layout
  of exactly these tabs.\<close>

theorem decoded_layout_safe:
  assumes "decodeEditorLayout v = Some l" and "distinct opened" and "[] \<notin> set opened"
  shows "wf_groups (layoutGroups (el_root l)) \<and> wf_shape (el_root l) \<and>
    wf_layout (repairEditorLayout l opened) \<and> layout_tabs (repairEditorLayout l opened) = set opened"
  using decode_repairable [OF assms(1)] repair_wf [OF _ assms(2,3)] by blast

theorem decoded_layout_safe_witness:
  "layout_tabs (repairEditorLayout \<lparr>el_root = Group \<lparr>eg_id = ''g'', eg_tabs = [''x''], eg_active = ''x''\<rparr>, el_focused = ''g''\<rparr>
     [''y'']) = {''y''}"
proof -
  have "decodeEditorLayout (JObj [(''v'', JNum 1), (''focusedGroupId'', JStr ''h''),
      (''root'', JObj [(''kind'', JStr ''group''), (''id'', JStr ''g''), (''tabIds'', JArr [JStr ''x'']),
         (''activeTabId'', JStr ''z'')])]) =
    Some \<lparr>el_root = Group \<lparr>eg_id = ''g'', eg_tabs = [''x''], eg_active = ''x''\<rparr>, el_focused = ''g''\<rparr>"
    by (simp add: decodeEditorLayout_def decode_group_def restoreGroupInvariants_def first_or_empty_def
        restoreFocus_def Let_def)
  from decoded_layout_safe [OF this, of "[''y'']"] show ?thesis by simp
qed

text \<open>A new group never takes the id of another one, and gets the smallest free number.\<close>

theorem nextGroupId_fresh_and_least:
  "nextGroupId l \<notin> eg_id ` set (layoutGroups (el_root l)) \<and>
   (\<exists>m \<ge> 1. nextGroupId l = group_name m \<and> group_name ` {1..<m} \<subseteq> eg_id ` set (layoutGroups (el_root l)))"
proof
  show "nextGroupId l \<notin> eg_id ` set (layoutGroups (el_root l))" by (rule nextGroupId_fresh)
  let ?used = "map eg_id (layoutGroups (el_root l))"
  from first_free_minimal [of 1 "length ?used" ?used]
  show "\<exists>m \<ge> 1. nextGroupId l = group_name m \<and> group_name ` {1..<m} \<subseteq> eg_id ` set (layoutGroups (el_root l))"
    by (simp add: nextGroupId_def Let_def)
qed

end
