(* ===== verification/Alloc.thy ===== *)
theory Alloc
  imports Transaction
begin

text \<open>
  Graph id allocation: \<open>packages/core/src/commands/alloc.ts\<close>.

  An allocator reads a cursor of the graph once, mints ids from it and writes the advanced cursor back
  once. The actor-less cursor is the graph's \<open>nextOrdinal\<close>; every actor of a shared session has
  a cursor of its own in \<open>actorCursors\<close>. The theory shows that minted ids are distinct, within an
  allocator and across actors, and that the committed cursor stands above everything minted.
\<close>

section \<open>Cursors of a graph\<close>

record ordinals =
  or_next :: nat
  or_cursors :: "(string \<times> nat) list option"

definition allocationOrdinalOf :: "ordinals \<Rightarrow> string option \<Rightarrow> nat" where
  "allocationOrdinalOf def actor =
     (case actor of None \<Rightarrow> or_next def | Some a \<Rightarrow> actorCursorOf (or_cursors def) a)"

definition predictAllocatedId :: "ordinals \<Rightarrow> string option \<Rightarrow> string \<Rightarrow> alloc_error + string" where
  "predictAllocatedId def actor prefix =
     map_result (\<lambda>n. formatAllocatedId prefix n actor) (guardOrdinal (allocationOrdinalOf def actor))"

section \<open>The allocator\<close>

record allocator =
  al_actor :: "string option"
  al_start :: nat
  al_ordinal :: nat

definition graphAllocator :: "tx \<Rightarrow> ordinals \<Rightarrow> allocator" where
  "graphAllocator t def =
     \<lparr>al_actor = tx_actor t, al_start = allocationOrdinalOf def (tx_actor t),
      al_ordinal = allocationOrdinalOf def (tx_actor t)\<rparr>"

text \<open>\<open>ordinal++\<close> happens before the guard, so a refused mint has advanced the ordinal too.\<close>

definition mint :: "string \<Rightarrow> allocator \<Rightarrow> allocator \<times> (alloc_error + string)" where
  "mint prefix al =
     (al\<lparr>al_ordinal := Suc (al_ordinal al)\<rparr>,
      map_result (\<lambda>n. formatAllocatedId prefix n (al_actor al)) (guardOrdinal (al_ordinal al)))"

definition raw_num :: "nat \<Rightarrow> foreign" where
  "raw_num n = (\<lambda>_. RawArr [], RNum (Fin (of_nat n)))"

definition raw_entry :: "string \<Rightarrow> nat \<Rightarrow> foreign" where
  "raw_entry k n = (\<lambda>_. RawObj [(k, Data (RNum (Fin (of_nat n))))], RRef 0)"

definition commit_cursor :: "string \<Rightarrow> ordinals \<Rightarrow> allocator \<Rightarrow> tx \<Rightarrow> tx_error + tx" where
  "commit_cursor g def al t =
     (if al_ordinal al = al_start al then Inr t
      else (case al_actor al of
          None \<Rightarrow> tx_set [Key ''graphs'', Key g, Key ''nextOrdinal''] (raw_num (al_ordinal al)) t
        | Some a \<Rightarrow>
            if or_cursors def = None
            then tx_set [Key ''graphs'', Key g, Key ''actorCursors''] (raw_entry a (al_ordinal al)) t
            else tx_set [Key ''graphs'', Key g, Key ''actorCursors'', Key a] (raw_num (al_ordinal al)) t))"

definition allocateOne :: "string \<Rightarrow> ordinals \<Rightarrow> string \<Rightarrow> tx \<Rightarrow> tx_error + (tx \<times> string)" where
  "allocateOne g def prefix t =
     (case mint prefix (graphAllocator t def) of
        (al, Inl e) \<Rightarrow> Inl (AllocFailed e)
      | (al, Inr i) \<Rightarrow> map_result (\<lambda>t'. (t', i)) (commit_cursor g def al t))"

text \<open>A command that mints several ids, in order; the first refusal is the command's refusal.\<close>

fun mint_run :: "string list \<Rightarrow> allocator \<Rightarrow> alloc_error + (allocator \<times> string list)" where
  "mint_run [] al = Inr (al, [])"
| "mint_run (p # ps) al =
     (case mint p al of
        (al', Inl e) \<Rightarrow> Inl e
      | (al', Inr i) \<Rightarrow> map_result (\<lambda>(al'', is). (al'', i # is)) (mint_run ps al'))"

section \<open>Minted ids\<close>

definition id_prefix :: "string \<Rightarrow> bool" where
  "id_prefix p \<longleftrightarrow> p \<noteq> [] \<and> list_all is_lower p"

definition ok_actor :: "string option \<Rightarrow> bool" where
  "ok_actor actor \<longleftrightarrow> (\<forall>a. actor = Some a \<longrightarrow> isValidActorId a)"

lemma allocated_prefixes_lower: "p \<in> set allocated_prefixes \<Longrightarrow> id_prefix p"
  by (auto simp: allocated_prefixes_def id_prefix_def is_lower_def)

lemma mint_Inr:
  "mint p al = (al', Inr i) \<longleftrightarrow>
     al' = al\<lparr>al_ordinal := Suc (al_ordinal al)\<rparr> \<and> al_ordinal al < max_safe_nat \<and>
     i = formatAllocatedId p (al_ordinal al) (al_actor al)"
  by (auto simp: mint_def guardOrdinal_def)

lemma mint_run_ids:
  "mint_run ps al = Inr (al', is) \<Longrightarrow>
     al' = al\<lparr>al_ordinal := al_ordinal al + length ps\<rparr> \<and> length is = length ps \<and>
     (ps \<noteq> [] \<longrightarrow> al_ordinal al + length ps \<le> max_safe_nat) \<and>
     (\<forall>k < length ps. is ! k = formatAllocatedId (ps ! k) (al_ordinal al + k) (al_actor al))"
proof (induction ps arbitrary: al "is")
  case (Cons p ps)
  obtain al1 r where m: "mint p al = (al1, r)" by fastforce
  with Cons.prems obtain i js where r: "r = Inr i" and js: "mint_run ps al1 = Inr (al', js)" "is = i # js"
    by (cases r) (auto simp: result_simps)
  from m r have i: "i = formatAllocatedId p (al_ordinal al) (al_actor al)" "al_ordinal al < max_safe_nat"
    and al1: "al1 = al\<lparr>al_ordinal := Suc (al_ordinal al)\<rparr>"
    by (simp_all add: mint_Inr)
  note IH = Cons.IH [OF js(1)]
  have "is ! k = formatAllocatedId ((p # ps) ! k) (al_ordinal al + k) (al_actor al)"
    if "k < length (p # ps)" for k
    using that IH i js(2) al1 by (cases k) auto
  then show ?case
    using IH i js(2) al1 by (cases ps) auto
qed simp

lemma formatAllocatedId_inj:
  assumes "formatAllocatedId p m a = formatAllocatedId q n b"
    and "id_prefix p" "id_prefix q" "m \<le> max_safe_nat" "n \<le> max_safe_nat" "ok_actor a" "ok_actor b"
  shows "p = q \<and> m = n \<and> a = b"
proof -
  have "parseAllocatedId (formatAllocatedId p m a) = Some (p, m, a)"
    using assms(2,4,6) by (intro parse_format_id) (simp_all add: id_prefix_def ok_actor_def)
  moreover have "parseAllocatedId (formatAllocatedId q n b) = Some (q, n, b)"
    using assms(3,5,7) by (intro parse_format_id) (simp_all add: id_prefix_def ok_actor_def)
  ultimately show ?thesis using assms(1) by (metis option.inject prod.inject)
qed

text \<open>An id that was minted carries its ordinal and its actor.\<close>

lemma minted_shape:
  assumes "mint_run ps (graphAllocator t def) = Inr (al, is)" and "i \<in> set is"
  shows "\<exists>p n. p \<in> set ps \<and> i = formatAllocatedId p n (tx_actor t) \<and>
    allocationOrdinalOf def (tx_actor t) \<le> n \<and>
    n < allocationOrdinalOf def (tx_actor t) + length ps \<and> n \<le> max_safe_nat"
proof -
  let ?s = "allocationOrdinalOf def (tx_actor t)"
  have al: "al_ordinal (graphAllocator t def) = ?s" "al_actor (graphAllocator t def) = tx_actor t"
    by (simp_all add: graphAllocator_def)
  note run = mint_run_ids [OF assms(1), THEN conjunct2]
  note len = run [THEN conjunct1]
  from assms(2) obtain k where "k < length is" and i: "i = is ! k"
    unfolding in_set_conv_nth by blast
  then have k: "k < length ps" unfolding len by blast
  have id: "is ! k = formatAllocatedId (ps ! k) (?s + k) (tx_actor t)"
    using run [THEN conjunct2, THEN conjunct2, rule_format, OF k] unfolding al .
  have "ps \<noteq> []" using k by (cases ps) simp_all
  then have b: "?s + length ps \<le> max_safe_nat"
    using run [THEN conjunct2, THEN conjunct1] unfolding al by (rule rev_mp)
  show ?thesis
  proof (intro exI conjI)
    show "ps ! k \<in> set ps" using k by (rule nth_mem)
    show "i = formatAllocatedId (ps ! k) (?s + k) (tx_actor t)" using i id by (rule trans)
    show "?s \<le> ?s + k" by (rule le_add1)
    show "?s + k < ?s + length ps" using k by (rule add_strict_left_mono)
    with b show "?s + k \<le> max_safe_nat" by linarith
  qed
qed

lemma allocateOne_predicted:
  "allocateOne g def prefix t = Inr (t', i) \<Longrightarrow> predictAllocatedId def (tx_actor t) prefix = Inr i"
  by (auto simp: allocateOne_def mint_def graphAllocator_def predictAllocatedId_def result_simps
      split: sum.splits)

section \<open>The committed cursor\<close>

text \<open>The graph of a document holds these cursors.\<close>

definition cursors_json :: "(string \<times> nat) list \<Rightarrow> json" where
  "cursors_json cs = JObj (map (\<lambda>c. (fst c, JNum (of_nat (snd c)))) cs)"

definition holds_ordinals :: "json \<Rightarrow> string \<Rightarrow> ordinals \<Rightarrow> bool" where
  "holds_ordinals doc g def \<longleftrightarrow>
     getAtPath doc [Key ''graphs'', Key g, Key ''nextOrdinal''] = Some (JNum (of_nat (or_next def))) \<and>
     getAtPath doc [Key ''graphs'', Key g, Key ''actorCursors''] = map_option cursors_json (or_cursors def)"

lemma owned_value:
  assumes "heap_defined h" and "denotes h v j" and "json_depth j \<le> 64"
    and "json_nodes j \<le> 4000000" and "json_chars j \<le> 64000000"
  shows "tx_own (h, v) = Inr j"
proof -
  have "own_visit (default_limits False) h 64 [] [] (0, 0) v = Inr (j, json_nodes j, json_chars j)"
    using own_visit_complete [OF assms(1,2,3), of "[]" "default_limits False" "(0, 0)" "[]"] assms(4,5)
    by (simp add: above_def fits_def default_limits_def)
  moreover have "max_depth (default_limits False) = 64" by (simp add: default_limits_def)
  ultimately have "ownJson (default_limits False) h v = Inr j" by (auto simp: ownJson_visit)
  then show ?thesis by (simp add: tx_own_def)
qed

lemma own_raw_num [simp]: "tx_own (raw_num n) = Inr (JNum (of_nat n))"
  by (simp add: raw_num_def owned_value heap_defined_def denotes_denotes_elems_denotes_props.intros)

lemma own_raw_entry:
  assumes "k \<noteq> proto_key" and "length k \<le> 64000000"
  shows "tx_own (raw_entry k n) = Inr (cursors_json [(k, n)])"
proof -
  have "denotes (fst (raw_entry k n)) (RRef 0) (cursors_json [(k, n)])"
    using assms(1)
    by (auto simp: raw_entry_def cursors_json_def intro!: denotes_denotes_elems_denotes_props.intros)
  then show ?thesis
    using assms(2) owned_value [of "fst (raw_entry k n)" "RRef 0" "cursors_json [(k, n)]"]
    by (simp add: raw_entry_def cursors_json_def heap_defined_def)
qed

lemma valid_actor_not_proto: "isValidActorId a \<Longrightarrow> a \<noteq> proto_key"
  by (simp add: isValidActorId_def proto_key_def)

text \<open>A \<open>set\<close> below an existing object succeeds and reads back.\<close>

lemma applyAt_set_prop:
  assumes "getAtPath doc pre = Some (JObj kvs)" and "Key proto_key \<notin> set (pre @ [Key k])"
    and "op = (case map_of kvs k of None \<Rightarrow> OpAdd p v | Some old \<Rightarrow> OpReplace p v old)"
  shows "\<exists>d'. applyAt doc (pre @ [Key k]) op = Inr d' \<and> getAtPath d' pre = Some (JObj (AList.update k v kvs))"
  using assms(1,2)
proof (induction pre arbitrary: doc)
  case Nil
  then show ?case using assms(3) by (auto split: option.splits)
next
  case (Cons s pre)
  then obtain c where c: "child_at doc s = Some c" "getAtPath c pre = Some (JObj kvs)"
    by (auto split: option.splits)
  from Cons.IH [OF c(2)] Cons.prems(2) obtain c' where "applyAt c (pre @ [Key k]) op = Inr c'"
    "getAtPath c' pre = Some (JObj (AList.update k v kvs))" by auto
  with c(1) Cons.prems(2) show ?case
    by (cases doc; cases s) (auto split: if_splits)
qed

lemma tx_set_owned_prop:
  assumes "getAtPath (tx_working t) pre = Some (JObj kvs)" and "Key proto_key \<notin> set (pre @ [Key k])"
  shows "\<exists>t'. tx_set_owned (pre @ [Key k]) v t = Inr t' \<and>
    getAtPath (tx_working t') pre = Some (JObj (AList.update k v kvs)) \<and>
    (\<exists>op. applyAt (tx_working t) (pre @ [Key k]) op = Inr (tx_working t'))"
proof -
  let ?p = "pre @ [Key k]"
  have old: "readAt t ?p = map_of kvs k"
    using assms(1) by (simp add: readAt_getAtPath getAtPath_append split: option.splits)
  let ?op = "case map_of kvs k of None \<Rightarrow> OpAdd ?p v | Some old \<Rightarrow> OpReplace ?p v old"
  from applyAt_set_prop [OF assms refl, of ?p v] obtain d' where
    d': "applyAt (tx_working t) ?p ?op = Inr d'" "getAtPath d' pre = Some (JObj (AList.update k v kvs))"
    by blast
  have "tx_set_owned ?p v t = tx_record ?op t"
    using assms(2) old by (auto simp: tx_set_owned_def tx_own_path_def split: option.splits)
  with d' show ?thesis
    by (cases "map_of kvs k") (auto simp: tx_record_def applyOp_def)
qed

lemma update_cursors_json:
  "AList.update a (JNum (of_nat n)) (map (\<lambda>c. (fst c, JNum (of_nat (snd c)))) cs) =
   map (\<lambda>c. (fst c, JNum (of_nat (snd c)))) (AList.update a n cs)"
  by (induction cs) auto

text \<open>After the commit the document holds the advanced cursor and every other cursor as before.\<close>

definition advanced :: "ordinals \<Rightarrow> string option \<Rightarrow> nat \<Rightarrow> ordinals" where
  "advanced def actor n =
     (case actor of
        None \<Rightarrow> def\<lparr>or_next := n\<rparr>
      | Some a \<Rightarrow> def\<lparr>or_cursors :=
          Some (case or_cursors def of None \<Rightarrow> [(a, n)] | Some cs \<Rightarrow> AList.update a n cs)\<rparr>)"

lemma advanced_ordinals:
  "allocationOrdinalOf (advanced def actor n) b = (if b = actor then n else allocationOrdinalOf def b)"
  by (cases actor; cases b; cases "or_cursors def")
    (auto simp: advanced_def allocationOrdinalOf_def actorCursorOf_def split: option.splits)

lemma commit_cursor_holds:
  assumes "holds_ordinals (tx_working t) g def" and "g \<noteq> proto_key"
    and "al_actor al = actor" and "ok_actor actor" and "\<forall>a. actor = Some a \<longrightarrow> length a \<le> 64000000"
    and "al_start al = allocationOrdinalOf def actor"
  shows "\<exists>t' def'. commit_cursor g def al t = Inr t' \<and> holds_ordinals (tx_working t') g def' \<and>
    (\<forall>b. allocationOrdinalOf def' b =
       (if b = actor then al_ordinal al else allocationOrdinalOf def b))"
proof -
  let ?pre = "[Key ''graphs'', Key g]"
  have pk: "Key proto_key \<notin> set ?pre" using assms(2) by (simp add: proto_key_def)
  have "getAtPath (tx_working t) (?pre @ [Key ''nextOrdinal'']) \<noteq> None"
    using assms(1) by (simp add: holds_ordinals_def)
  then obtain c where c: "getAtPath (tx_working t) ?pre = Some c" and "child_at c (Key ''nextOrdinal'') \<noteq> None"
    unfolding getAtPath_append by (auto split: option.splits)
  then obtain kvs where graph: "getAtPath (tx_working t) ?pre = Some (JObj kvs)"
    by (cases c) auto
  have at: "getAtPath d (?pre @ [Key k]) = map_of ks k" if "getAtPath d ?pre = Some (JObj ks)" for d ks k
    using that unfolding getAtPath_append by (simp split: option.splits)
  have holds: "holds_ordinals d g df \<longleftrightarrow> map_of ks ''nextOrdinal'' = Some (JNum (of_nat (or_next df))) \<and>
      map_of ks ''actorCursors'' = map_option cursors_json (or_cursors df)"
    if "getAtPath d ?pre = Some (JObj ks)" for d ks df
    using at [OF that, of "''nextOrdinal''"] at [OF that, of "''actorCursors''"]
    by (simp add: holds_ordinals_def)
  note base = assms(1) [unfolded holds [OF graph]]
  show ?thesis
  proof (cases "al_ordinal al = al_start al")
    case True
    then show ?thesis using assms by (auto simp: commit_cursor_def)
  next
    case False
    let ?n = "al_ordinal al"
    have committed: "\<exists>t'. commit_cursor g def al t = Inr t' \<and> holds_ordinals (tx_working t') g (advanced def actor ?n)"
    proof (cases actor)
      case None
      from tx_set_owned_prop [OF graph, of "''nextOrdinal''" "JNum (of_nat ?n)"] pk obtain t' where
        t': "tx_set_owned (?pre @ [Key ''nextOrdinal'']) (JNum (of_nat ?n)) t = Inr t'"
        "getAtPath (tx_working t') ?pre = Some (JObj (AList.update ''nextOrdinal'' (JNum (of_nat ?n)) kvs))"
        by (auto simp: proto_key_def)
      then show ?thesis
        using None False assms(3) base
        by (auto simp: commit_cursor_def tx_set_def holds [OF t'(2)] advanced_def)
    next
      case (Some a)
      have a: "a \<noteq> proto_key" "length a \<le> 64000000"
        using Some assms(4,5) valid_actor_not_proto by (auto simp: ok_actor_def)
      show ?thesis
      proof (cases "or_cursors def")
        case None
        from tx_set_owned_prop [OF graph, of "''actorCursors''" "cursors_json [(a, ?n)]"] pk obtain t' where
          t': "tx_set_owned (?pre @ [Key ''actorCursors'']) (cursors_json [(a, ?n)]) t = Inr t'"
          "getAtPath (tx_working t') ?pre = Some (JObj (AList.update ''actorCursors'' (cursors_json [(a, ?n)]) kvs))"
          by (auto simp: proto_key_def)
        then show ?thesis
          using Some None False assms(3) base own_raw_entry [OF a]
          by (auto simp: commit_cursor_def tx_set_def holds [OF t'(2)] advanced_def)
      next
        case (Some cs)
        let ?pre2 = "?pre @ [Key ''actorCursors'']"
        have cur: "getAtPath (tx_working t) ?pre2 = Some (cursors_json cs)"
          using at [OF graph] base Some by simp
        have "Key proto_key \<notin> set (?pre2 @ [Key a])"
          using pk a by (simp add: proto_key_def)
        from tx_set_owned_prop [OF cur [unfolded cursors_json_def] this, of "JNum (of_nat ?n)"] obtain t' where
          t': "tx_set_owned (?pre2 @ [Key a]) (JNum (of_nat ?n)) t = Inr t'"
          "getAtPath (tx_working t') ?pre2 = Some (cursors_json (AList.update a ?n cs))"
          and op: "\<exists>op. applyAt (tx_working t) (?pre2 @ [Key a]) op = Inr (tx_working t')"
          by (auto simp: update_cursors_json cursors_json_def)
        from op obtain op where "applyAt (tx_working t) (?pre @ Key ''actorCursors'' # [Key a]) op = Inr (tx_working t')"
          by auto
        from applyAt_frame [OF this, of "''nextOrdinal''" "[]"]
        have "getAtPath (tx_working t') (?pre @ [Key ''nextOrdinal'']) = getAtPath (tx_working t) (?pre @ [Key ''nextOrdinal''])"
          by simp
        then have "holds_ordinals (tx_working t') g (advanced def actor ?n)"
          using t'(2) assms(1) \<open>actor = Some a\<close> Some by (simp add: holds_ordinals_def advanced_def)
        then show ?thesis
          using t'(1) \<open>actor = Some a\<close> Some False assms(3) by (simp add: commit_cursor_def tx_set_def)
      qed
    qed
    then show ?thesis
      using advanced_ordinals [of def actor ?n] by blast
  qed
qed

section \<open>Properties\<close>

text \<open>C25: ids never collide. The ids one allocator mints are pairwise distinct, the ids two actors mint
  (from any documents, in any order) have none in common, and neither have two allocators of one actor
  when the second starts at or above where the first one stopped.\<close>

theorem minted_ids_never_collide:
  assumes "mint_run ps (graphAllocator t def) = Inr (al, is)" and "list_all id_prefix ps" and "ok_actor (tx_actor t)"
    and "mint_run qs (graphAllocator u def2) = Inr (al2, js)" and "list_all id_prefix qs" and "ok_actor (tx_actor u)"
  shows "distinct is \<and>
    (tx_actor t \<noteq> tx_actor u \<or> al_ordinal al \<le> allocationOrdinalOf def2 (tx_actor u) \<longrightarrow> set is \<inter> set js = {})"
proof
  let ?s = "allocationOrdinalOf def (tx_actor t)"
  have al: "al_ordinal (graphAllocator t def) = ?s" "al_actor (graphAllocator t def) = tx_actor t"
    by (simp_all add: graphAllocator_def)
  note run = mint_run_ids [OF assms(1), unfolded al]
  show "distinct is"
    unfolding distinct_conv_nth
  proof (intro allI impI)
    fix i k assume i: "i < length is" and k: "k < length is" and ne: "i \<noteq> k"
    have lt: "i < length ps" "k < length ps" using i k run by simp_all
    then have max: "?s + length ps \<le> max_safe_nat" using run by (cases ps) simp_all
    have ids: "is ! i = formatAllocatedId (ps ! i) (?s + i) (tx_actor t)"
      "is ! k = formatAllocatedId (ps ! k) (?s + k) (tx_actor t)"
      using run lt by blast+
    show "is ! i \<noteq> is ! k"
    proof
      assume "is ! i = is ! k"
      then have eq: "formatAllocatedId (ps ! i) (?s + i) (tx_actor t) = formatAllocatedId (ps ! k) (?s + k) (tx_actor t)"
        using ids by simp
      have "id_prefix (ps ! i)" "id_prefix (ps ! k)" "?s + i \<le> max_safe_nat" "?s + k \<le> max_safe_nat"
        using lt assms(2) max by (simp_all add: list_all_length)
      from formatAllocatedId_inj [OF eq this assms(3) assms(3)] ne show False by simp
    qed
  qed
  have stop: "al_ordinal al = ?s + length ps" using run by simp
  show "tx_actor t \<noteq> tx_actor u \<or> al_ordinal al \<le> allocationOrdinalOf def2 (tx_actor u) \<longrightarrow> set is \<inter> set js = {}"
  proof (intro impI equals0I)
    fix x assume apart: "tx_actor t \<noteq> tx_actor u \<or> al_ordinal al \<le> allocationOrdinalOf def2 (tx_actor u)"
      and x: "x \<in> set is \<inter> set js"
    from minted_shape [OF assms(1)] x obtain p m where p: "p \<in> set ps" "x = formatAllocatedId p m (tx_actor t)"
      "m < ?s + length ps" "m \<le> max_safe_nat" by blast
    from minted_shape [OF assms(4)] x obtain q n where q: "q \<in> set qs" "x = formatAllocatedId q n (tx_actor u)"
      "allocationOrdinalOf def2 (tx_actor u) \<le> n" "n \<le> max_safe_nat" by blast
    have "id_prefix p" "id_prefix q" using p q assms(2,5) by (auto simp: list_all_iff)
    from formatAllocatedId_inj [OF _ this p(4) q(4) assms(3,6)] p(2) q(2)
    have "m = n" "tx_actor t = tx_actor u" by simp_all
    then show False using apart p(3) q(3) stop by simp
  qed
qed

definition alloc_demo_doc :: json where
  "alloc_demo_doc = JObj [(''graphs'', JObj [(''g0'', JObj [(''nextOrdinal'', JNum 3)])])]"

definition alloc_demo_source :: ordinals where
  "alloc_demo_source = \<lparr>or_next = 3, or_cursors = None\<rparr>"

definition alloc_demo_tx :: tx where
  "alloc_demo_tx = createTransactionBuilder alloc_demo_doc (Some ''a'')"

lemma alloc_demo_mint:
  "mint_run [''n'', ''l''] (graphAllocator alloc_demo_tx alloc_demo_source) =
   Inr (\<lparr>al_actor = Some ''a'', al_start = 0, al_ordinal = 2\<rparr>, [''n0-a'', ''l1-a''])"
proof -
  have "show_nat 0 = ''0''" and "show_nat 1 = ''1''"
    by (subst show_nat.simps, simp add: digit_char_def)+ code_simp+
  then show ?thesis
    by (simp add: mint_def graphAllocator_def alloc_demo_tx_def alloc_demo_source_def guardOrdinal_def max_safe_nat_def
        createTransactionBuilder_def allocationOrdinalOf_def actorCursorOf_def formatAllocatedId_def)
qed

theorem minted_ids_never_collide_witness:
  "distinct [''n0-a'', ''l1-a'']"
proof -
  have "list_all id_prefix [''n'', ''l'']"
    by (simp add: id_prefix_def is_lower_def)
  moreover have "ok_actor (tx_actor alloc_demo_tx)"
    by (simp add: ok_actor_def alloc_demo_tx_def createTransactionBuilder_def isValidActorId_def actor_char_def is_lower_def)
  ultimately show ?thesis
    using minted_ids_never_collide [OF alloc_demo_mint _ _ alloc_demo_mint] by simp
qed

text \<open>minting is never forgotten. When a command mints ids for a graph whose cursors the document
  holds, committing the allocator succeeds, afterwards the acting actor's cursor stands at the start plus
  the number of ids minted, and no other actor's cursor has moved.\<close>

theorem commit_advances_cursor:
  assumes "holds_ordinals (tx_working t) g def" and "g \<noteq> proto_key" and "ok_actor (tx_actor t)"
    and "\<forall>a. tx_actor t = Some a \<longrightarrow> length a \<le> 64000000"
    and "mint_run ps (graphAllocator t def) = Inr (al, is)"
  shows "\<exists>t' def'. commit_cursor g def al t = Inr t' \<and> holds_ordinals (tx_working t') g def' \<and>
    (\<forall>b. allocationOrdinalOf def' b =
       (if b = tx_actor t then allocationOrdinalOf def b + length ps else allocationOrdinalOf def b))"
proof -
  have al: "al_ordinal al = allocationOrdinalOf def (tx_actor t) + length ps"
    "al_actor al = tx_actor t" "al_start al = allocationOrdinalOf def (tx_actor t)"
    using mint_run_ids [OF assms(5)] by (simp_all add: graphAllocator_def)
  from commit_cursor_holds [OF assms(1,2) al(2) assms(3,4) al(3)] obtain t' def'
    where "commit_cursor g def al t = Inr t'" "holds_ordinals (tx_working t') g def'"
      "\<forall>b. allocationOrdinalOf def' b = (if b = tx_actor t then al_ordinal al else allocationOrdinalOf def b)"
    by blast
  then show ?thesis using al(1) by (intro exI [of _ t'] exI [of _ def']) auto
qed

theorem commit_advances_cursor_witness:
  "\<exists>(t' :: tx) def'. holds_ordinals (tx_working t') ''g0'' def' \<and>
    allocationOrdinalOf def' (Some ''a'') = 2 \<and> allocationOrdinalOf def' None = 3"
proof -
  have "holds_ordinals (tx_working alloc_demo_tx) ''g0'' alloc_demo_source"
    by (simp add: holds_ordinals_def alloc_demo_tx_def alloc_demo_doc_def createTransactionBuilder_def alloc_demo_source_def)
  moreover have "''g0'' \<noteq> proto_key" by (simp add: proto_key_def)
  moreover have "ok_actor (tx_actor alloc_demo_tx)"
    by (simp add: ok_actor_def alloc_demo_tx_def createTransactionBuilder_def isValidActorId_def actor_char_def is_lower_def)
  moreover have "tx_actor alloc_demo_tx = Some ''a''" by (simp add: alloc_demo_tx_def createTransactionBuilder_def)
  moreover have "allocationOrdinalOf alloc_demo_source (Some ''a'') = 0" "allocationOrdinalOf alloc_demo_source None = 3"
    by (simp_all add: allocationOrdinalOf_def actorCursorOf_def alloc_demo_source_def)
  moreover obtain t' :: tx and def' where "holds_ordinals (tx_working t') ''g0'' def'"
    and "\<forall>b. allocationOrdinalOf def' b = (if b = Some ''a'' then allocationOrdinalOf alloc_demo_source b + length [''n'', ''l'']
      else allocationOrdinalOf alloc_demo_source b)"
  proof -
    have "\<forall>a. tx_actor alloc_demo_tx = Some a \<longrightarrow> length a \<le> 64000000"
      using calculation(4) by simp
    from commit_advances_cursor [OF calculation(1-3) this alloc_demo_mint, unfolded calculation(4)] that
    show thesis by blast
  qed
  ultimately show ?thesis
    by (intro exI [of _ t'] exI [of _ def']) simp
qed

end
