(* ===== verification/HashLaws.thy ===== *)
theory HashLaws
  imports Hash
begin

text \<open>
  What the canonical text and the hashes of \<open>hash.ts\<close> promise: canonical texts are equal exactly for
  equal values, \<open>fnv1a64\<close> is FNV-1a on 64-bit words, \<open>sha256Hex\<close> is SHA-256 of FIPS 180-4, and the
  normalisation of dynamic state is idempotent and forgets allocation cursors.
\<close>

section \<open>Numbers and delimiters\<close>

definition closes :: "string \<Rightarrow> bool" where
  "closes x \<longleftrightarrow> x = [] \<or> hd x \<in> {CHR '','', CHR '']'', CHR ''}''}"

lemma closes_simps [simp]: "closes []" "closes (CHR '','' # x)" "closes (CHR '']'' # x)" "closes (CHR ''}'' # x)"
  by (simp_all add: closes_def)

lemma closes_no_digit: "closes x \<Longrightarrow> takeWhile is_digit x = []"
  by (cases x) (auto simp: closes_def is_digit_def)

lemma takeWhile_show_nat: "closes x \<Longrightarrow> takeWhile is_digit (show_nat n @ x) = show_nat n"
  using show_nat_digits [of n] by (subst takeWhile_append2) (simp_all add: list_all_iff closes_no_digit)

lemma show_nat_delimited:
  assumes "show_nat m @ x = show_nat n @ y" and "closes x" and "closes y"
  shows "m = n \<and> x = y"
proof -
  have "takeWhile is_digit (show_nat m @ x) = takeWhile is_digit (show_nat n @ y)" using assms(1) by simp
  then have "show_nat m = show_nat n" using assms(2,3) by (simp add: takeWhile_show_nat)
  then show ?thesis using assms(1) show_nat_inj by auto
qed

lemma show_nat_head: "\<exists>c s. show_nat n = c # s \<and> is_digit c"
  using show_nat_ne [of n] show_nat_digits [of n] by (cases "show_nat n") auto

lemma minus_not_digit: "\<not> is_digit (CHR ''-'')"
  by (simp add: is_digit_def)

lemma safe_integer_floor: "is_safe_integer r \<Longrightarrow> of_int \<lfloor>r\<rfloor> = r"
  by (simp add: is_safe_integer_def is_integer_def)

lemma number_text_delimited:
  assumes "is_safe_integer r" and "is_safe_integer s" and eq: "number_text r @ x = number_text s @ y"
    and "closes x" and "closes y"
  shows "r = s \<and> x = y"
proof -
  obtain c u d v where h: "show_nat (nat \<bar>\<lfloor>r\<rfloor>\<bar>) = c # u" "is_digit c" "show_nat (nat \<bar>\<lfloor>s\<rfloor>\<bar>) = d # v" "is_digit d"
    using show_nat_head by metis
  have sign: "r < 0 \<longleftrightarrow> s < 0"
    using eq assms(1,2) h minus_not_digit by (auto simp: number_text_def split: if_splits)
  then have "show_nat (nat \<bar>\<lfloor>r\<rfloor>\<bar>) @ x = show_nat (nat \<bar>\<lfloor>s\<rfloor>\<bar>) @ y"
    using eq assms(1,2) by (auto simp: number_text_def split: if_splits)
  from show_nat_delimited [OF this assms(4,5)] have "\<bar>\<lfloor>r\<rfloor>\<bar> = \<bar>\<lfloor>s\<rfloor>\<bar>" and x: "x = y" by auto
  moreover have "\<lfloor>r\<rfloor> < 0 \<longleftrightarrow> \<lfloor>s\<rfloor> < 0" using sign by simp
  ultimately have "\<lfloor>r\<rfloor> = \<lfloor>s\<rfloor>" by linarith
  then show ?thesis using x assms(1,2) safe_integer_floor by metis
qed

section \<open>Sorted entries\<close>

lemma sort_entries_unique:
  assumes "distinct (map fst xs)" and "distinct (map fst ys)" and "set xs = set ys"
  shows "sort_key fst xs = sort_key fst (ys :: ('k :: linorder \<times> 'v) list)"
proof (rule map_sorted_distinct_set_unique [of fst])
  have "inj_on fst (set xs)" using assms(1) by (simp add: distinct_map)
  then show "inj_on fst (set (sort_key fst xs) \<union> set (sort_key fst ys))" using assms(3) by simp
  have "distinct (sort_key fst xs)" "distinct (sort_key fst ys)" using assms(1,2) by (simp_all add: distinct_map)
  then show "distinct (map fst (sort_key fst xs))" "distinct (map fst (sort_key fst ys))"
    using assms(1,2) by (simp_all add: distinct_map)
qed (simp_all add: assms)

lemma entries_of_map:
  assumes "distinct (map fst kvs)"
  shows "(\<lambda>kv. (fst kv, f (snd kv))) ` set kvs = {(k, t). map_option f (map_of kvs k) = Some t}"
  using assms by (force dest: map_of_in_set intro: map_of_is_SomeI [symmetric])

lemma keys_of_texts: "map fst (map (\<lambda>kv. (fst kv, f (snd kv))) kvs) = map fst kvs"
  by simp

lemma equal_values_equal_text:
  "wf_json a \<Longrightarrow> wf_json b \<Longrightarrow> json_abs a = json_abs b \<Longrightarrow> canonicalJson a = canonicalJson b"
proof (induction a arbitrary: b rule: canonicalJson.induct)
  case (5 xs)
  then obtain ys where b: "b = JArr ys" and len: "length xs = length ys"
    and abs: "\<forall>i < length xs. json_abs (xs ! i) = json_abs (ys ! i)"
    by (cases b) (auto simp: list_eq_iff_nth_eq)
  have "canonicalJson (xs ! i) = canonicalJson (ys ! i)" if "i < length xs" for i
    using that 5 abs len b by (auto simp: list_all_iff)
  then have "map canonicalJson xs = map canonicalJson ys" using len by (simp add: list_eq_iff_nth_eq)
  then show ?case using b by simp
next
  case (6 xs)
  then obtain ys where b: "b = JObj ys" by (cases b) auto
  have abs: "map_option json_abs (map_of xs k) = map_option json_abs (map_of ys k)" for k
    using 6(4) b by (simp add: json_abs_obj obj_abs_def fun_eq_iff del: json_abs.simps(6))
  let ?e = "map (\<lambda>kv. (fst kv, canonicalJson (snd kv)))"
  have same_text: "map_option canonicalJson (map_of xs k) = map_option canonicalJson (map_of ys k)" for k
  proof (cases "map_of xs k")
    case None
    then show ?thesis using abs [of k] by simp
  next
    case (Some v)
    then obtain w where w: "map_of ys k = Some w" "json_abs v = json_abs w" using abs [of k] by (cases "map_of ys k") auto
    then show ?thesis
      using 6(1) [OF map_of_in_set [OF Some], of w] Some 6(2,3) b wf_json_entry by auto
  qed
  have "set (?e xs) = set (?e ys)"
    using 6(2,3) b by (simp add: entries_of_map same_text)
  then have "sort_key fst (?e xs) = sort_key fst (?e ys)"
    using 6(2,3) b by (intro sort_entries_unique) (simp_all add: comp_def)
  then show ?case using b by simp
next
  case 1
  then show ?case by (cases b) simp_all
next
  case (2 x)
  then show ?case by (cases b) simp_all
next
  case (3 r)
  then show ?case by (cases b) simp_all
next
  case (4 s)
  then show ?case by (cases b) simp_all
qed

section \<open>Equal texts\<close>

text \<open>Texts are self-delimiting: a text followed by a closing character can be cut off in one way only.\<close>

definition separable :: "string set \<Rightarrow> string set \<Rightarrow> bool" where
  "separable T U \<longleftrightarrow> (\<forall>t \<in> T. \<forall>u \<in> U. \<forall>x y. closes x \<longrightarrow> closes y \<longrightarrow> t @ x = u @ y \<longrightarrow> t = u \<and> x = y)"

definition opens :: "char \<Rightarrow> string set \<Rightarrow> bool" where
  "opens c T \<longleftrightarrow> (\<forall>t \<in> T. t \<noteq> [] \<and> hd t \<noteq> c)"

lemma separable_subset: "separable T U \<Longrightarrow> T' \<subseteq> T \<Longrightarrow> U' \<subseteq> U \<Longrightarrow> separable T' U'"
  unfolding separable_def by blast

lemma separableD: "separable T U \<Longrightarrow> t \<in> T \<Longrightarrow> u \<in> U \<Longrightarrow> closes x \<Longrightarrow> closes y \<Longrightarrow> t @ x = u @ y \<Longrightarrow> t = u \<and> x = y"
  unfolding separable_def by blast

lemma comma_join_delimited:
  assumes "separable (set ts) (set us)" and "opens c (set ts)" and "opens c (set us)"
    and "comma_join ts @ c # x = comma_join us @ c # y" and "c = CHR '']'' \<or> c = CHR ''}''"
  shows "ts = us \<and> x = y"
  using assms
proof (induction ts arbitrary: us)
  case Nil
  show ?case
  proof (cases us)
    case (Cons u vs)
    then have "u \<noteq> []" "hd u \<noteq> c" using Nil.prems(3) by (simp_all add: opens_def)
    then show ?thesis using Nil.prems(4) Cons by (cases u; cases vs) simp_all
  qed (use Nil.prems(4) in simp)
next
  case (Cons t ts)
  have closing: "closes (c # z)" for z using Cons.prems(5) by auto
  have "t \<noteq> []" "hd t \<noteq> c" using Cons.prems(2) by (simp_all add: opens_def)
  then obtain u vs where us: "us = u # vs"
    using Cons.prems(4) by (cases t; cases us; cases ts) simp_all
  define p where "p = (if ts = [] then c # x else CHR '','' # comma_join ts @ c # x)"
  define q where "q = (if vs = [] then c # y else CHR '','' # comma_join vs @ c # y)"
  have "t @ p = u @ q"
    using Cons.prems(4) us by (cases ts; cases vs) (simp_all add: p_def q_def)
  moreover have "closes p" "closes q" using closing by (simp_all add: p_def q_def)
  ultimately have tu: "t = u" "p = q" using separableD [OF Cons.prems(1), of t u p q] us by simp_all
  have c: "c \<noteq> CHR '',''" using Cons.prems(5) by auto
  show ?case
  proof (cases "ts = []")
    case True
    then show ?thesis using tu us c by (auto simp: p_def q_def split: if_splits)
  next
    case False
    then have rest: "comma_join ts @ c # x = comma_join vs @ c # y"
      using tu c by (auto simp: p_def q_def split: if_splits)
    have "separable (set ts) (set vs)" using Cons.prems(1) by (rule separable_subset) (auto simp: us)
    moreover have "opens c (set ts)" "opens c (set vs)" using Cons.prems(2,3) us by (simp_all add: opens_def)
    ultimately have "ts = vs \<and> x = y" using Cons.IH rest Cons.prems(5) by blast
    then show ?thesis using tu us by simp
  qed
qed

fun safe_numbers :: "json \<Rightarrow> bool" where
  "safe_numbers (JNum r) = is_safe_integer r"
| "safe_numbers (JArr xs) = list_all safe_numbers xs"
| "safe_numbers (JObj kvs) = list_all (\<lambda>kv. safe_numbers (snd kv)) kvs"
| "safe_numbers _ = True"

lemma number_text_head: "is_safe_integer r \<Longrightarrow> \<exists>c s. number_text r = c # s \<and> (is_digit c \<or> c = CHR ''-'')"
  using show_nat_head [of "nat \<bar>\<lfloor>r\<rfloor>\<bar>"] by (auto simp: number_text_def)

lemma canonical_head:
  assumes "safe_numbers a"
  shows "\<exists>c s. canonicalJson a = c # s \<and>
    (case a of JNull \<Rightarrow> c = CHR ''n'' | JBool True \<Rightarrow> c = CHR ''t'' | JBool False \<Rightarrow> c = CHR ''f''
     | JNum _ \<Rightarrow> is_digit c \<or> c = CHR ''-'' | JStr _ \<Rightarrow> c = CHR 0x22 | JArr _ \<Rightarrow> c = CHR ''['' | JObj _ \<Rightarrow> c = CHR ''{'')"
  using assms number_text_head
  by (cases a) (auto simp: stringify_string_def split: bool.splits)

lemma special_not_digit [simp]:
  "\<not> is_digit (CHR ''n'')" "\<not> is_digit (CHR ''t'')" "\<not> is_digit (CHR ''f'')" "\<not> is_digit (CHR 0x22)"
  "\<not> is_digit (CHR ''['')" "\<not> is_digit (CHR ''{'')" "\<not> is_digit (CHR '']'')" "\<not> is_digit (CHR ''}'')"
  "\<not> is_digit (CHR ''-'')"
  by (simp_all add: is_digit_def)

lemma canonical_nonempty: "safe_numbers a \<Longrightarrow> canonicalJson a \<noteq> [] \<and> hd (canonicalJson a) \<noteq> CHR '']''"
  using canonical_head [of a] by (cases a) (auto split: bool.splits)

definition entry_text :: "string \<times> string \<Rightarrow> string" where
  "entry_text e = stringify_string (fst e) @ CHR '':'' # snd e"

lemma canonical_obj:
  "canonicalJson (JObj kvs) =
     CHR ''{'' # comma_join (map entry_text (sort_key fst (map (\<lambda>kv. (fst kv, canonicalJson (snd kv))) kvs))) @ ''}''"
  by (simp add: entry_text_def case_prod_beta' cong: map_cong)

lemma entry_text_inj: "entry_text p @ x = entry_text q @ y \<Longrightarrow> fst p = fst q \<and> snd p @ x = snd q @ y"
  using stringify_string_inj [of "fst p" "CHR '':'' # snd p @ x" "fst q" "CHR '':'' # snd q @ y"]
  by (simp add: entry_text_def)

lemma entry_text_eq: "entry_text p = entry_text q \<Longrightarrow> p = q"
  using entry_text_inj [of p "[]" q "[]"] by (simp add: prod_eq_iff)

text \<open>The two directions together: texts cut off in one way only, and equal texts come from equal values.\<close>

definition text_determines :: "json \<Rightarrow> json \<Rightarrow> bool" where
  "text_determines a b \<longleftrightarrow> (\<forall>x y. closes x \<longrightarrow> closes y \<longrightarrow> canonicalJson a @ x = canonicalJson b @ y \<longrightarrow>
     json_abs a = json_abs b \<and> x = y)"

lemma text_determines_cut:
  "text_determines a b \<Longrightarrow> closes x \<Longrightarrow> closes y \<Longrightarrow> canonicalJson a @ x = canonicalJson b @ y \<Longrightarrow>
   canonicalJson a = canonicalJson b \<and> x = y"
  unfolding text_determines_def by blast

lemma text_determines_arr:
  assumes "\<And>a b. a \<in> set xs \<Longrightarrow> b \<in> set ys \<Longrightarrow> text_determines a b"
    and "list_all safe_numbers xs" and "list_all safe_numbers ys"
  shows "text_determines (JArr xs) (JArr ys)"
  unfolding text_determines_def
proof (intro allI impI)
  fix x y
  assume "closes x" "closes y" and eq: "canonicalJson (JArr xs) @ x = canonicalJson (JArr ys) @ y"
  have "separable (canonicalJson ` set xs) (canonicalJson ` set ys)"
    using assms(1) text_determines_cut unfolding separable_def by blast
  moreover have "opens (CHR '']'') (canonicalJson ` set xs)" "opens (CHR '']'') (canonicalJson ` set ys)"
    using assms(2,3) canonical_nonempty by (auto simp: opens_def list_all_iff)
  ultimately have "map canonicalJson xs = map canonicalJson ys \<and> x = y"
    using eq by (intro comma_join_delimited [where c = "CHR '']''"]) simp_all
  moreover have "json_abs a = json_abs b" if "a \<in> set xs" "b \<in> set ys" "canonicalJson a = canonicalJson b" for a b
    using assms(1) [OF that(1,2)] that(3) closes_simps(1) unfolding text_determines_def by blast
  ultimately show "json_abs (JArr xs) = json_abs (JArr ys) \<and> x = y"
    by (auto simp: list_eq_iff_nth_eq)
qed

lemma option_eqI: "(\<And>t. (x = Some t) = (y = Some t)) \<Longrightarrow> x = y"
  by (cases x; cases y) auto

lemma text_determines_obj:
  assumes "\<And>kv b. kv \<in> set xs \<Longrightarrow> b \<in> snd ` set ys \<Longrightarrow> text_determines (snd kv) b"
    and "wf_json (JObj xs)" and "wf_json (JObj ys)"
  shows "text_determines (JObj xs) (JObj ys)"
  unfolding text_determines_def
proof (intro allI impI)
  let ?e = "map (\<lambda>kv. (fst kv, canonicalJson (snd kv)))"
  fix x y
  assume "closes x" "closes y" and eq: "canonicalJson (JObj xs) @ x = canonicalJson (JObj ys) @ y"
  have sep: "separable (entry_text ` set (?e xs)) (entry_text ` set (?e ys))"
    unfolding separable_def
  proof (intro ballI allI impI)
    fix t u x y
    assume t: "t \<in> entry_text ` set (?e xs)" "u \<in> entry_text ` set (?e ys)" "closes x" "closes y" "t @ x = u @ y"
    then obtain p q where p: "p \<in> set xs" "t = entry_text (fst p, canonicalJson (snd p))"
      and q: "q \<in> set ys" "u = entry_text (fst q, canonicalJson (snd q))"
      by (auto simp del: split_paired_All split_paired_Ex)
    have "fst p = fst q" "canonicalJson (snd p) @ x = canonicalJson (snd q) @ y"
      using entry_text_inj [OF t(5) [unfolded p(2) q(2)]] by simp_all
    moreover have "canonicalJson (snd p) = canonicalJson (snd q) \<and> x = y"
      using text_determines_cut [OF assms(1) [OF p(1)] t(3,4)] q(1) calculation(2) by blast
    ultimately show "t = u \<and> x = y" using p(2) q(2) by simp
  qed
  have "opens (CHR ''}'') (entry_text ` S)" for S by (auto simp: opens_def entry_text_def stringify_string_def)
  moreover have "comma_join (map entry_text (sort_key fst (?e xs))) @ CHR ''}'' # x =
      comma_join (map entry_text (sort_key fst (?e ys))) @ CHR ''}'' # y"
    using eq by (simp only: canonical_obj) simp
  ultimately have "map entry_text (sort_key fst (?e xs)) = map entry_text (sort_key fst (?e ys)) \<and> x = y"
    using sep by (intro comma_join_delimited [where c = "CHR ''}''"]) (simp_all only: set_map set_sort, simp_all)
  then have xy: "x = y" and "map entry_text (sort_key fst (?e xs)) = map entry_text (sort_key fst (?e ys))" by simp_all
  from map_injective [OF this(2)] have "sort_key fst (?e xs) = sort_key fst (?e ys)"
    using entry_text_eq by (simp add: inj_def)
  from arg_cong [OF this, of set] have "set (?e xs) = set (?e ys)" by simp
  then have "(map_option canonicalJson (map_of xs k) = Some t) = (map_option canonicalJson (map_of ys k) = Some t)" for k t
    using assms(2,3) by (simp add: entries_of_map set_eq_iff)
  then have same: "map_option canonicalJson (map_of xs k) = map_option canonicalJson (map_of ys k)" for k
    by (rule option_eqI)
  have "map_option json_abs (map_of xs k) = map_option json_abs (map_of ys k)" for k
  proof (cases "map_of xs k")
    case (Some v)
    then obtain w where w: "map_of ys k = Some w" "canonicalJson v = canonicalJson w"
      using same [of k] by (cases "map_of ys k") auto
    have "text_determines v w"
      using assms(1) [OF map_of_in_set [OF Some], of w] w(1) by (force dest: map_of_in_set)
    then have "json_abs v = json_abs w" using w(2) closes_simps(1) unfolding text_determines_def by blast
    then show ?thesis using Some w by simp
  qed (use same [of k] in simp)
  then show "json_abs (JObj xs) = json_abs (JObj ys) \<and> x = y"
    using xy by (simp add: json_abs_obj obj_abs_def fun_eq_iff del: json_abs.simps(6))
qed

lemma safe_text_determines:
  "safe_numbers a \<Longrightarrow> safe_numbers b \<Longrightarrow> wf_json a \<Longrightarrow> wf_json b \<Longrightarrow> text_determines a b"
proof (induction a arbitrary: b rule: canonicalJson.induct)
  case (5 xs)
  show ?case
  proof (cases "\<exists>ys. b = JArr ys")
    case True
    then show ?thesis using 5 by (auto simp: list_all_iff intro!: text_determines_arr)
  next
    case False
    then show ?thesis
      using canonical_head [of b] 5(3) by (cases b) (auto simp: text_determines_def stringify_string_def)
  qed
next
  case (6 xs)
  show ?case
  proof (cases "\<exists>ys. b = JObj ys")
    case True
    then obtain ys where b: "b = JObj ys" by blast
    show ?thesis
      unfolding b
    proof (rule text_determines_obj)
      fix kv c
      assume kv: "kv \<in> set xs" "c \<in> snd ` set ys"
      show "text_determines (snd kv) c"
        by (rule 6(1) [OF kv(1)]) (use kv 6(2-5) b in \<open>auto simp: list_all_iff\<close>)
    qed (use 6(4,5) b in simp_all)
  next
    case False
    then show ?thesis
      using canonical_head [of b] 6(3) by (cases b) (auto simp: text_determines_def stringify_string_def)
  qed
next
  case 1
  then show ?case using canonical_head [of b]
    by (cases b) (auto simp: text_determines_def stringify_string_def)
next
  case (2 x)
  then show ?case using canonical_head [of b]
    by (cases b; cases x) (auto simp: text_determines_def stringify_string_def)
next
  case (3 r)
  show ?case
  proof (cases "\<exists>s. b = JNum s")
    case True
    then obtain s where "b = JNum s" ..
    then show ?thesis
      unfolding text_determines_def using 3(1,2) by (auto dest: number_text_delimited [rotated 2])
  next
    case False
    then show ?thesis
      using canonical_head [of b] 3(2) number_text_head [of r] 3(1)
      by (cases b) (auto simp: text_determines_def stringify_string_def)
  qed
next
  case (4 s)
  show ?case
  proof (cases "\<exists>t. b = JStr t")
    case True
    then obtain t where "b = JStr t" ..
    then show ?thesis
      unfolding text_determines_def by (auto dest: stringify_string_inj)
  next
    case False
    then show ?thesis
      using canonical_head [of b] 4(2) by (cases b) (auto simp: text_determines_def stringify_string_def)
  qed
qed

text \<open>C28: the canonical text identifies a value. Two equal values, key order aside, print to the same canonical text,
  whatever numbers they hold; and two values whose numbers are safe integers print alike only if they are equal.\<close>

theorem canonicalJson_identifies:
  assumes "wf_json a" and "wf_json b"
  shows "(jsonSameValue a b \<longrightarrow> canonicalJson a = canonicalJson b) \<and>
    (safe_numbers a \<and> safe_numbers b \<longrightarrow> canonicalJson a = canonicalJson b \<longrightarrow> jsonSameValue a b)"
  using safe_text_determines [OF _ _ assms] equal_values_equal_text [OF assms]
    jsonSameValue_abs [OF assms] closes_simps(1)
  unfolding text_determines_def by blast

theorem canonicalJson_identifies_witness:
  "canonicalJson (JObj [(''b'', JNum 1), (''a'', JNum (-2))]) = canonicalJson (JObj [(''a'', JNum (-2)), (''b'', JNum 1)])"
  by (rule canonicalJson_identifies [THEN conjunct1, THEN mp])
    (simp_all add: proto_key_def is_safe_integer_def is_integer_def max_safe_integer_def)

section \<open>Dynamic state\<close>

lemma keep_some_member: "(k, j) \<in> set (keep_some kvs) \<longleftrightarrow> (k, Some j) \<in> set kvs"
  by (force simp: keep_some_def split: option.splits)

lemma keep_some_source:
  assumes "kv \<in> set (keep_some (map f kvs))"
  shows "\<exists>x \<in> set kvs. f x = (fst kv, Some (snd kv))"
proof -
  have "(fst kv, Some (snd kv)) \<in> f ` set kvs"
    using assms keep_some_member [of "fst kv" "snd kv" "map f kvs"] by simp
  then show ?thesis by (rule imageE) (simp, metis)
qed

lemma keep_some_fixed: "(\<And>kv. kv \<in> set kvs \<Longrightarrow> f kv = (fst kv, Some (snd kv))) \<Longrightarrow> keep_some (map f kvs) = kvs"
  by (induction kvs) (simp_all add: keep_some_def)

lemma normalised_entries:
  assumes "\<And>kv. kv \<in> set kvs \<Longrightarrow> (\<forall>w. f kv = (fst kv, Some w) \<longrightarrow> f (fst kv, w) = (fst kv, Some w))"
    and "\<And>kv. fst (f kv) = fst kv" and "non_empty_object (keep_some (map f kvs)) = Some st"
  shows "\<exists>kvs'. st = JObj kvs' \<and> non_empty_object (keep_some (map f kvs')) = Some st"
proof -
  let ?kvs = "keep_some (map f kvs)"
  from assms(3) have st: "st = JObj ?kvs" and ne: "?kvs \<noteq> []" by (simp_all add: non_empty_object_def split: if_splits)
  have "f kv = (fst kv, Some (snd kv))" if kv: "kv \<in> set ?kvs" for kv
  proof -
    obtain x where x: "x \<in> set kvs" "f x = (fst kv, Some (snd kv))"
      using keep_some_source [OF kv] by blast
    then have "fst x = fst kv" using assms(2) [of x] by simp
    then show ?thesis using assms(1) [OF x(1)] x(2) by simp
  qed
  then have "keep_some (map f ?kvs) = ?kvs" by (rule keep_some_fixed)
  then show ?thesis using st ne by (auto simp: non_empty_object_def)
qed

lemma semantic_key [simp]: "fst (semantic_entry kv) = fst kv" "fst (semantic_member kv) = fst kv"
  by (cases kv; simp)+

lemma semantic_fixed:
  "\<forall>st'. semanticDynamicState st = Some st' \<longrightarrow> semanticDynamicState st' = Some st'"
  "\<forall>w. semantic_entry kv = (fst kv, Some w) \<longrightarrow> semantic_entry (fst kv, w) = (fst kv, Some w)"
  "\<forall>w. semantic_member mv = (fst mv, Some w) \<longrightarrow> semantic_member (fst mv, w) = (fst mv, Some w)"
proof (induction st and kv and mv rule: semanticDynamicState_semantic_entry_semantic_member.induct)
  case (1 kvs)
  show ?case
  proof (intro allI impI)
    fix st' assume "semanticDynamicState (JObj kvs) = Some st'"
    then show "semanticDynamicState st' = Some st'"
      using normalised_entries [of kvs semantic_entry st'] 1 by auto
  qed
next
  case (3 key v)
  show ?case
  proof (cases "\<exists>members. key = ''memberState'' \<and> v = JObj members")
    case True
    then obtain members where v: "key = ''memberState''" "v = JObj members" by blast
    show ?thesis
    proof (intro allI impI)
      fix w assume "semantic_entry (key, v) = (fst (key, v), Some w)"
      then have "non_empty_object (keep_some (map semantic_member members)) = Some w" using v by simp
      from normalised_entries [OF _ _ this] 3 v
      show "semantic_entry (fst (key, v), w) = (fst (key, v), Some w)" by auto
    qed
  next
    case False
    then show ?thesis by (auto split: json.splits)
  qed
next
  case (4 member constructs)
  show ?case
  proof (cases constructs)
    case (JObj cs)
    let ?f = "\<lambda>kv. (fst kv, semanticDynamicState (snd kv))"
    show ?thesis
    proof (intro allI impI)
      fix w assume "semantic_member (member, constructs) = (fst (member, constructs), Some w)"
      then have "non_empty_object (keep_some (map ?f cs)) = Some w" using JObj by simp
      from normalised_entries [OF _ _ this] 4 JObj
      show "semantic_member (fst (member, constructs), w) = (fst (member, constructs), Some w)" by auto
    qed
  qed simp_all
qed simp_all

text \<open>The state of a port carries no allocation cursor and no label any more, at any depth of the declared
  positions.\<close>

fun cursor_free :: "json \<Rightarrow> bool" and entry_free :: "string \<times> json \<Rightarrow> bool" and member_free :: "string \<times> json \<Rightarrow> bool" where
  "cursor_free (JObj kvs) = list_all entry_free kvs"
| "cursor_free _ = True"
| "entry_free (key, v) \<longleftrightarrow> key \<noteq> ''seq'' \<and> key \<noteq> ''memberLabels'' \<and>
     (key = ''memberState'' \<longrightarrow> (case v of JObj members \<Rightarrow> list_all member_free members | _ \<Rightarrow> True))"
| "member_free (member, constructs) =
     (case constructs of JObj cs \<Rightarrow> list_all (\<lambda>kv. cursor_free (snd kv)) cs | _ \<Rightarrow> True)"

lemma normal_entries:
  assumes "non_empty_object (keep_some (map f kvs)) = Some st" and "\<And>kv. fst (f kv) = fst kv"
    and "\<And>kv w. kv \<in> set kvs \<Longrightarrow> f kv = (fst kv, Some w) \<Longrightarrow> P (fst kv, w)"
  shows "\<exists>kvs'. st = JObj kvs' \<and> list_all P kvs'"
proof -
  have "P kv" if kv: "kv \<in> set (keep_some (map f kvs))" for kv
  proof -
    obtain x where x: "x \<in> set kvs" "f x = (fst kv, Some (snd kv))"
      using keep_some_source [OF kv] by blast
    then have "fst x = fst kv" using assms(2) [of x] by simp
    then show ?thesis using assms(3) [OF x(1), of "snd kv"] x(2) by simp
  qed
  then show ?thesis using assms(1) by (auto simp: non_empty_object_def list_all_iff split: if_splits)
qed

lemma semantic_cursor_free:
  "\<forall>st'. semanticDynamicState st = Some st' \<longrightarrow> cursor_free st'"
  "\<forall>w. semantic_entry kv = (fst kv, Some w) \<longrightarrow> entry_free (fst kv, w)"
  "\<forall>w. semantic_member mv = (fst mv, Some w) \<longrightarrow> member_free (fst mv, w)"
proof (induction st and kv and mv rule: semanticDynamicState_semantic_entry_semantic_member.induct)
  case (1 kvs)
  then show ?case using normal_entries [of semantic_entry kvs _ entry_free] by fastforce
next
  case (3 key v)
  show ?case
  proof (cases "\<exists>members. key = ''memberState'' \<and> v = JObj members")
    case True
    then show ?thesis using 3 normal_entries [of semantic_member _ _ member_free] by fastforce
  next
    case False
    then show ?thesis by (auto split: json.splits)
  qed
next
  case (4 member constructs)
  show ?case
  proof (cases constructs)
    case (JObj cs)
    then show ?thesis
      using 4 normal_entries [of "\<lambda>kv. (fst kv, semanticDynamicState (snd kv))" cs _ "\<lambda>kv. cursor_free (snd kv)"]
      by fastforce
  qed simp_all
qed simp_all

text \<open>what the hash sees of a port's dynamic state is a normal form. It holds no allocation cursor and
  no label at any declared position, no container emptied by dropping them, and normalising it again
  changes nothing.\<close>

theorem semanticDynamicState_normal_form:
  assumes "semanticDynamicState st = Some st'"
  shows "cursor_free st' \<and> semanticDynamicState st' = Some st' \<and> st' \<noteq> JObj []"
proof -
  have "st' \<noteq> JObj []"
    using assms by (cases st) (auto simp: non_empty_object_def split: if_splits)
  then show ?thesis using assms semantic_fixed(1) semantic_cursor_free(1) by blast
qed

theorem semanticDynamicState_normal_form_witness:
  "cursor_free (JObj [(''selected'', JStr ''x'')])"
proof -
  have "semanticDynamicState (JObj [(''seq'', JNum 4), (''selected'', JStr ''x''),
      (''memberState'', JObj [(''m'', JObj [(''c'', JObj [(''seq'', JNum 2)])])])]) =
    Some (JObj [(''selected'', JStr ''x'')])"
    by (simp add: keep_some_def non_empty_object_def)
  from semanticDynamicState_normal_form [OF this] show ?thesis by blast
qed

end
