(* ===== verification/HashBits.thy ===== *)
theory HashBits
  imports HashLaws
begin

text \<open>
  The hashes of \<open>hash.ts\<close> compute the published word algorithms: \<open>fnv1a64\<close> is FNV-1a on 64-bit words,
  \<open>sha256Hex\<close> is SHA-256 as FIPS 180-4 defines it, with its recursive message schedule.
\<close>

section \<open>Hexadecimal text of fixed width\<close>

primrec hex_digits :: "nat \<Rightarrow> nat \<Rightarrow> string" where
  "hex_digits 0 n = []"
| "hex_digits (Suc k) n = hex_digits k (n div 16) @ [hex_lower (n mod 16)]"

lemma length_hex_digits [simp]: "length (hex_digits k n) = k"
  by (induction k arbitrary: n) simp_all

lemma hex_lower_zero [simp]: "hex_lower 0 = CHR ''0''"
  by code_simp

lemma hex_digits_zero: "hex_digits k 0 = replicate k (CHR ''0'')"
  by (induction k) (simp_all add: replicate_append_same)

lemma padStart_show_hex: "0 < k \<Longrightarrow> n < 16 ^ k \<Longrightarrow> padStart k (CHR ''0'') (show_hex n) = hex_digits k n"
proof (induction k arbitrary: n)
  case (Suc k)
  show ?case
  proof (cases "n < 16")
    case True
    then show ?thesis
      by (subst show_hex.simps) (simp add: padStart_def hex_digits_zero)
  next
    case False
    then have "0 < k" using Suc.prems(2) by (cases k) simp_all
    moreover have "n div 16 < 16 ^ k" using Suc.prems(2) by (simp add: less_mult_imp_div_less mult.commute)
    ultimately have "padStart k (CHR ''0'') (show_hex (n div 16)) = hex_digits k (n div 16)" by (rule Suc.IH)
    then show ?thesis
      using False by (subst show_hex.simps) (simp add: padStart_def flip: append_assoc)
  qed
qed simp

section \<open>FNV-1a\<close>

definition fnv1a_word :: "nat list \<Rightarrow> 64 word" where
  "fnv1a_word bytes = fold (\<lambda>b h. (h XOR of_nat b) * 0x100000001b3) bytes 0xcbf29ce484222325"

text \<open>The bytes of a UTF-16 code unit, low byte first.\<close>

definition unit_bytes :: "16 word \<Rightarrow> nat list" where
  "unit_bytes u = [unat u mod 256, unat u div 256]"

lemma fnv_mask_take: "n AND fnv_mask = take_bit 64 n"
  by (simp add: fnv_mask_def take_bit_eq_mask mask_eq_exp_minus_1)

lemma fnv_step_bound: "fnv_step b h < 2 ^ 64"
  by (simp add: fnv_step_def fnv_mask_take take_bit_eq_mod)

lemma fnv_step_word: "(of_nat (fnv_step b h) :: 64 word) = (of_nat h XOR of_nat b) * 0x100000001b3"
proof -
  have "(of_nat (take_bit 64 n) :: 64 word) = of_nat n" for n
    by (rule word_unat_eq_iff [THEN iffD2]) (simp add: take_bit_eq_mod unat_of_nat)
  then show ?thesis
    by (simp add: fnv_step_def fnv_mask_take fnv_prime_def of_nat_xor_eq)
qed

lemma fnv_unit_bytes: "fnv_unit c h = fold fnv_step (unit_bytes c) h"
proof -
  have "unat c AND 0xff = unat c mod 256"
    using take_bit_eq_mask [of 8 "unat c"] by (simp add: take_bit_eq_mod mask_eq_exp_minus_1)
  moreover have "drop_bit 8 (unat c) = unat c div 256" by (simp add: drop_bit_eq_div)
  ultimately show ?thesis by (simp add: fnv_unit_def unit_bytes_def Let_def)
qed

lemma fold_fnv_unit: "fold fnv_unit s h = fold fnv_step (concat (map unit_bytes s)) h"
  by (induction s arbitrary: h) (simp_all add: fnv_unit_bytes)

lemma fold_fnv_step:
  "h < 2 ^ 64 \<Longrightarrow> fold fnv_step bs h =
    unat (fold (\<lambda>b h. (h XOR of_nat b) * 0x100000001b3) bs (of_nat h :: 64 word))"
proof (induction bs arbitrary: h)
  case Nil
  then show ?case by (simp add: unat_of_nat)
next
  case (Cons b bs)
  show ?case using Cons.IH [OF fnv_step_bound] by (simp add: fnv_step_word)
qed

text \<open>C27: the BigInt arithmetic of the hash, with its final mask, is FNV-1a on 64-bit words over the bytes
  of the UTF-16 code units, printed as exactly sixteen hexadecimal digits.\<close>

theorem fnv1a64_is_fnv1a:
  "fnv1a64 s = hex_digits 16 (unat (fnv1a_word (concat (map unit_bytes s))))"
proof -
  have h: "fold fnv_unit s fnv_basis = unat (fnv1a_word (concat (map unit_bytes s)))"
    using fold_fnv_step [of fnv_basis] by (simp add: fold_fnv_unit fnv1a_word_def fnv_basis_def)
  have "unat (fnv1a_word (concat (map unit_bytes s))) < 16 ^ 16"
    using unsigned_less [of "fnv1a_word (concat (map unit_bytes s))"] by simp
  then show ?thesis unfolding fnv1a64_def h by (simp add: padStart_show_hex)
qed

section \<open>SHA-256 as published\<close>

definition Ch :: "32 word \<Rightarrow> 32 word \<Rightarrow> 32 word \<Rightarrow> 32 word" where
  "Ch x y z = (x AND y) XOR (NOT x AND z)"

definition Maj :: "32 word \<Rightarrow> 32 word \<Rightarrow> 32 word \<Rightarrow> 32 word" where
  "Maj x y z = (x AND y) XOR (x AND z) XOR (y AND z)"

definition Sigma0 :: "32 word \<Rightarrow> 32 word" where
  "Sigma0 x = word_rotr 2 x XOR word_rotr 13 x XOR word_rotr 22 x"

definition Sigma1 :: "32 word \<Rightarrow> 32 word" where
  "Sigma1 x = word_rotr 6 x XOR word_rotr 11 x XOR word_rotr 25 x"

definition sigma0 :: "32 word \<Rightarrow> 32 word" where
  "sigma0 x = word_rotr 7 x XOR word_rotr 18 x XOR drop_bit 3 x"

definition sigma1 :: "32 word \<Rightarrow> 32 word" where
  "sigma1 x = word_rotr 17 x XOR word_rotr 19 x XOR drop_bit 10 x"

fun schedule :: "32 word list \<Rightarrow> nat \<Rightarrow> 32 word" where
  "schedule M t =
     (if t < 16 then M ! t
      else sigma1 (schedule M (t - 2)) + schedule M (t - 7) + sigma0 (schedule M (t - 15)) + schedule M (t - 16))"

declare schedule.simps [simp del]

fun compression_round :: "32 word \<times> 32 word \<Rightarrow> 32 word list \<Rightarrow> 32 word list" where
  "compression_round (k, w) [a, b, c, d, e, f, g, h] =
     (let t1 = h + Sigma1 e + Ch e f g + k + w; t2 = Sigma0 a + Maj a b c
      in [t1 + t2, a, b, c, d + t1, e, f, g])"
| "compression_round _ h = h"

definition compress :: "32 word list \<Rightarrow> 32 word list \<Rightarrow> 32 word list" where
  "compress M h =
     map2 (+) h (fold compression_round (zip (map word_of_int sha256_constants) (map (schedule M) [0..<64])) h)"

text \<open>Padding: a one bit, the fewest zeros that leave room for the length, the length in bits.\<close>

definition padding :: "nat list \<Rightarrow> nat list" where
  "padding bytes =
     bytes @ 0x80 # replicate ((119 - length bytes mod 64) mod 64) 0 @
     map (\<lambda>i. 8 * length bytes div 256 ^ i mod 256) [7, 6, 5, 4, 3, 2, 1, 0]"

definition message_blocks :: "nat list \<Rightarrow> 32 word list list" where
  "message_blocks bytes =
     (let word = (\<lambda>i. of_nat (bytes ! i * 2 ^ 24 + bytes ! (i + 1) * 2 ^ 16 + bytes ! (i + 2) * 2 ^ 8 + bytes ! (i + 3)))
      in map (\<lambda>b. map (\<lambda>j. word (64 * b + 4 * j)) [0..<16]) [0..<length bytes div 64])"

definition sha256 :: "nat list \<Rightarrow> 32 word list" where
  "sha256 bytes = fold compress (message_blocks (padding bytes)) (map word_of_int sha256_initial)"

section \<open>The operators of JavaScript on 32-bit words\<close>

lemma js32_hom [simp]:
  "js32 (js_xor a b) = js32 a XOR js32 b" "js32 (js_or a b) = js32 a OR js32 b" "js32 (js_and a b) = js32 a AND js32 b"
  "js32 (js_not a) = NOT (js32 a)" "js32 (js_ushr a n) = drop_bit n (js32 a)" "js32 (js_shl a n) = push_bit n (js32 a)"
  "js32 (a + b) = js32 a + js32 b"
  by (simp_all add: js_xor_def js_or_def js_and_def js_not_def js_ushr_def js_shl_def js32_def)

lemma js32_rotate [simp]: "0 < n \<Longrightarrow> n < 32 \<Longrightarrow> js32 (rightRotate a n) = word_rotr n (js32 a)"
proof (rule bit_word_eqI)
  fix i assume n: "0 < n" "n < 32" and "i < LENGTH(32)"
  then have i: "i < 32" by simp
  have l: "(LENGTH(32)) = 32" by simp
  show "bit (js32 (rightRotate a n)) i = bit (word_rotr n (js32 a)) i"
  proof (cases "i + n < 32")
    case True
    then show ?thesis
      using n by (auto simp: rightRotate_def bit_word_rotr_iff bit_or_iff bit_drop_bit_eq bit_push_bit_iff add.commute l)
  next
    case False
    then have "(i + n) mod 32 = i + n - 32" using n i by (simp add: mod_if)
    moreover have "\<not> bit (js32 a) (i + n)" using False l bit_imp_le_length [of "js32 a" "i + n"] by auto
    ultimately show ?thesis
      using False n i by (auto simp: rightRotate_def bit_word_rotr_iff bit_or_iff bit_drop_bit_eq bit_push_bit_iff add.commute l)
  qed
qed

definition in_range :: "int \<Rightarrow> bool" where
  "in_range x \<longleftrightarrow> 0 \<le> x \<and> x < 2 ^ 32"

lemma in_range_ushr [simp]: "in_range (js_ushr a n)"
  using unsigned_less [of "drop_bit n (js32 a)"] by (simp add: in_range_def js_ushr_def)

lemma in_range_nat: "in_range x \<Longrightarrow> nat x = unat (js32 x)"
  by (simp add: in_range_def js32_def unat_eq_nat_uint uint_word_of_int)

section \<open>The code computes it\<close>

lemma sha_extend_word:
  assumes "16 \<le> n" and "length w = n" and "\<forall>t < n. js32 (w ! t) = schedule M t"
  shows "js32 (last (sha_extend n w)) = schedule M n"
proof -
  have "js32 (w ! (n - k)) = schedule M (n - k)" if "0 < k" "k \<le> 16" for k
    using that assms(1,3) by simp
  from this [of 2] this [of 7] this [of 15] this [of 16]
  have "js32 (last (sha_extend n w)) =
      schedule M (n - 16) + sigma0 (schedule M (n - 15)) + schedule M (n - 7) + sigma1 (schedule M (n - 2))"
    by (simp add: sha_extend_def Let_def sigma0_def sigma1_def xor.assoc)
  also have "\<dots> = schedule M n"
    using assms(1) unfolding schedule.simps [of M n] by (simp add: add_ac)
  finally show ?thesis .
qed

lemma sha_extend_schedule:
  assumes "length block = 16" and "16 \<le> n"
  shows "length (fold sha_extend [16..<n] block) = n \<and>
    (\<forall>t < n. js32 (fold sha_extend [16..<n] block ! t) = schedule (map js32 block) t)"
  using assms(2)
proof (induction n rule: dec_induct)
  case base
  then show ?case using assms(1) by (subst schedule.simps) simp
next
  case (step n)
  let ?w = "fold sha_extend [16..<n] block"
  have w: "length ?w = n" "\<And>t. t < n \<Longrightarrow> js32 (?w ! t) = schedule (map js32 block) t" using step.IH by blast+
  have "schedule (map js32 block) n = js32 (last (sha_extend n ?w))"
    using sha_extend_word [OF step.hyps(1) w(1), of "map js32 block"] w(2) by simp
  moreover have "sha_extend n ?w = ?w @ [last (sha_extend n ?w)]" by (simp add: sha_extend_def Let_def)
  moreover have "fold sha_extend [16..<Suc n] block = sha_extend n ?w" using step.hyps by simp
  ultimately show ?case using w by (metis length_append_singleton less_antisym nth_append nth_append_length)
qed

lemma sha_round_compress:
  "length h = 8 \<Longrightarrow> map js32 (sha_round kw h) = compression_round (map_prod js32 js32 kw) (map js32 h) \<and> length (sha_round kw h) = 8"
  by (cases "(kw, h)" rule: sha_round.cases)
    (auto simp: Let_def Sigma0_def Sigma1_def Ch_def Maj_def add_ac xor.assoc)

lemma fold_sha_round:
  "length h = 8 \<Longrightarrow> map js32 (fold sha_round kws h) = fold compression_round (map (map_prod js32 js32) kws) (map js32 h) \<and>
    length (fold sha_round kws h) = 8"
  by (induction kws arbitrary: h) (simp_all add: sha_round_compress)

lemma sha_block_compress:
  assumes "length block = 16" and "length h = 8"
  shows "map js32 (sha_block block h) = compress (map js32 block) (map js32 h) \<and> length (sha_block block h) = 8 \<and>
    list_all in_range (sha_block block h)"
proof -
  let ?s = "sha_schedule block"
  have s: "length ?s = 64" "map js32 ?s = map (schedule (map js32 block)) [0..<64]"
    using sha_extend_schedule [OF assms(1), of 64] by (simp_all add: sha_schedule_def list_eq_iff_nth_eq)
  have z: "map (map_prod js32 js32) (zip sha256_constants ?s) = zip (map word_of_int sha256_constants) (map js32 ?s)"
    by (simp add: zip_map_map js32_def [abs_def] map_prod_def case_prod_beta')
  note f = fold_sha_round [OF assms(2), of "zip sha256_constants ?s"]
  have m: "map js32 (map2 (\<lambda>x y. js_ushr (x + y) 0) xs ys) = map2 (+) (map js32 xs) (map js32 ys)" for xs ys
    by (induction xs ys rule: list_induct2') simp_all
  have "map js32 (sha_block block h) = compress (map js32 block) (map js32 h)"
    using f unfolding sha_block_def Let_def m compress_def z s by simp
  moreover have "length (sha_block block h) = 8" "list_all in_range (sha_block block h)"
    using f assms(2) by (auto simp: sha_block_def Let_def list_all_iff)
  ultimately show ?thesis by blast
qed

lemma pad_count:
  fixes n :: nat
  shows "n + 9 \<le> (n + 72) div 64 * 64" and "(n + 72) div 64 * 64 - n - 9 = (119 - n mod 64) mod 64"
proof -
  define q r where qr: "q = n div 64" "r = n mod 64"
  then have n: "n = q * 64 + r" "r < 64" by simp_all
  have d: "(n + 72) div 64 = q + (r + 72) div 64" unfolding n(1) by (simp add: add.assoc)
  consider "r < 56" "(r + 72) div 64 = 1" | "56 \<le> r" "(r + 72) div 64 = 2" using n(2) by linarith
  then show "n + 9 \<le> (n + 72) div 64 * 64" and "(n + 72) div 64 * 64 - n - 9 = (119 - n mod 64) mod 64"
    using n(2) unfolding d qr(2) [symmetric] by (cases; simp add: n(1) mod_if)+
qed

lemma padded_length: "length (sha_padded bytes) = (length bytes + 72) div 64 * 64"
  using pad_count(1) [of "length bytes"] by (simp add: sha_padded_def Let_def be_bytes_def add.commute)

lemma low_bytes:
  "(n :: nat) mod 2 ^ 32 div 2 ^ 24 mod 256 = n div 2 ^ 24 mod 256"
  "n mod 2 ^ 32 div 2 ^ 16 mod 256 = n div 2 ^ 16 mod 256"
  "n mod 2 ^ 32 div 2 ^ 8 mod 256 = n div 2 ^ 8 mod 256"
  "n mod 2 ^ 32 mod 256 = n mod 256"
proof -
  have cut: "n mod (b * c) div b mod 256 = n div b mod 256" if "256 dvd c" "0 < b" for b c :: nat
    using that by (simp add: mod_mult2_eq mod_mod_cancel)
  show "n mod 2 ^ 32 div 2 ^ 24 mod 256 = n div 2 ^ 24 mod 256" using cut [of "2 ^ 8" "2 ^ 24"] by simp
  show "n mod 2 ^ 32 div 2 ^ 16 mod 256 = n div 2 ^ 16 mod 256" using cut [of "2 ^ 16" "2 ^ 16"] by simp
  show "n mod 2 ^ 32 div 2 ^ 8 mod 256 = n div 2 ^ 8 mod 256" using cut [of "2 ^ 24" "2 ^ 8"] by simp
  show "n mod 2 ^ 32 mod 256 = n mod 256" by (simp add: mod_mod_cancel)
qed

lemma be_bytes_pair:
  "be_bytes (n div 2 ^ 32) @ be_bytes (n mod 2 ^ 32) = map (\<lambda>i. n div 256 ^ i mod 256) [7, 6, 5, 4, 3, 2, 1, 0]"
  unfolding be_bytes_def low_bytes by (simp flip: div_mult2_eq)

lemma sha_padded_padding: "sha_padded bytes = padding bytes"
proof -
  have "sha_padded bytes = bytes @ 0x80 # replicate ((length bytes + 72) div 64 * 64 - length bytes - 9) 0 @
      be_bytes (8 * length bytes div 2 ^ 32) @ be_bytes (8 * length bytes mod 2 ^ 32)"
    unfolding sha_padded_def Let_def by (simp only: mult.commute add.assoc) simp
  then show ?thesis unfolding padding_def be_bytes_pair pad_count(2) .
qed

lemma be_words_length: "length bytes = 4 * n \<Longrightarrow> length (be_words bytes) = n"
proof (induction n arbitrary: bytes)
  case (Suc n)
  then have "length bytes = Suc (Suc (Suc (Suc (4 * n))))" by simp
  then obtain a b c d rest where "bytes = a # b # c # d # rest" "length rest = 4 * n"
    by (auto simp: length_Suc_conv)
  then show ?case using Suc.IH by simp
qed simp

lemma be_words_nth:
  assumes "length bytes = 4 * n" and "j < n"
  shows "length (be_words bytes) = n \<and> be_words bytes ! j =
    int (bytes ! (4 * j) * 2 ^ 24 + bytes ! (4 * j + 1) * 2 ^ 16 + bytes ! (4 * j + 2) * 2 ^ 8 + bytes ! (4 * j + 3))"
  using assms
proof (induction n arbitrary: bytes j)
  case (Suc n)
  from Suc.prems(1) obtain a b c d rest where bs: "bytes = a # b # c # d # rest" "length rest = 4 * n"
  proof -
    have "length bytes = Suc (Suc (Suc (Suc (4 * n))))" using Suc.prems(1) by simp
    then show thesis using that by (auto simp: length_Suc_conv)
  qed
  show ?case
  proof (cases j)
    case 0
    have "length (be_words rest) = n"
      using Suc.IH [of rest 0] bs(2) by (cases n) simp_all
    then show ?thesis using 0 bs by (simp add: algebra_simps)
  next
    case (Suc i)
    then have "i < n" using Suc.prems(2) by simp
    from Suc.IH [OF bs(2) this] show ?thesis using Suc bs by (simp add: add.commute [of 3])
  qed
qed simp

definition block_at :: "'a list \<Rightarrow> nat \<Rightarrow> 'a list" where
  "block_at ws b = map (\<lambda>j. ws ! (16 * b + j)) [0..<16]"

lemma block_at_0: "16 \<le> length ws \<Longrightarrow> block_at ws 0 = take 16 ws"
  by (simp add: block_at_def list_eq_iff_nth_eq del: upt_conv_Cons)

lemma block_at_drop: "16 \<le> length ws \<Longrightarrow> block_at (drop 16 ws) b = block_at ws (Suc b)"
  by (simp add: block_at_def add.assoc del: upt_conv_Cons)

lemma sha_blocks_fold:
  "length h = 8 \<Longrightarrow> 16 * n \<le> length ws \<Longrightarrow>
   map js32 (sha_blocks n ws h) = fold compress (map (\<lambda>b. map js32 (block_at ws b)) [0..<n]) (map js32 h) \<and>
   (list_all in_range h \<longrightarrow> list_all in_range (sha_blocks n ws h))"
proof (induction n arbitrary: ws h)
  case (Suc n)
  have len: "16 \<le> length ws" "length (take 16 ws) = 16" "16 * n \<le> length (drop 16 ws)" using Suc.prems(2) by simp_all
  note b = sha_block_compress [OF len(2) Suc.prems(1)]
  have upt: "[0..<Suc n] = 0 # map Suc [0..<n]" by (simp only: map_Suc_upt upt_conv_Cons [OF zero_less_Suc])
  show ?case
    unfolding upt sha_blocks.simps
    using Suc.IH [of "sha_block (take 16 ws) h" "drop 16 ws"] b len by (simp add: block_at_0 block_at_drop comp_def)
qed simp

text \<open>C26: the double arithmetic of the code, with its signed and unsigned 32-bit operators, its padded
  buffer and its schedule built in place, is SHA-256 as FIPS 180-4 defines it, of the bytes given or of the
  UTF-8 encoding of the text given, printed as eight hexadecimal digits per word.\<close>

theorem sha256Hex_is_sha256:
  "sha256Hex i = concat (map (\<lambda>w. hex_digits 8 (unat w)) (sha256 (input_bytes i)))"
proof -
  let ?p = "padding (input_bytes i)" and ?n = "length (padding (input_bytes i)) div 64"
  let ?h = "sha_blocks ?n (be_words ?p) sha256_initial"
  have p: "length ?p = 4 * (16 * ?n)"
    using padded_length [of "input_bytes i"] unfolding sha_padded_padding by simp
  have w: "length (be_words ?p) = 16 * ?n" "\<And>j. j < 16 * ?n \<Longrightarrow> be_words ?p ! j = int (?p ! (4 * j) * 2 ^ 24 + ?p ! (4 * j + 1) * 2 ^ 16 + ?p ! (4 * j + 2) * 2 ^ 8 + ?p ! (4 * j + 3))"
    using be_words_nth [OF p] be_words_length [OF p] by blast+
  have "map js32 (block_at (be_words ?p) b) = map (\<lambda>j. of_nat (?p ! (64 * b + 4 * j) * 2 ^ 24 + ?p ! (64 * b + 4 * j + 1) * 2 ^ 16 +
      ?p ! (64 * b + 4 * j + 2) * 2 ^ 8 + ?p ! (64 * b + 4 * j + 3))) [0..<16]" if "b < ?n" for b
  proof -
    have "js32 (be_words ?p ! (16 * b + j)) = of_nat (?p ! (64 * b + 4 * j) * 2 ^ 24 + ?p ! (64 * b + 4 * j + 1) * 2 ^ 16 +
      ?p ! (64 * b + 4 * j + 2) * 2 ^ 8 + ?p ! (64 * b + 4 * j + 3))" if "j < 16" for j
    proof -
      have "16 * b + j < 16 * ?n" using that \<open>b < ?n\<close> by linarith
      moreover have "4 * (16 * b + j) = 64 * b + 4 * j" by simp
      ultimately show ?thesis using w(2) [of "16 * b + j"] unfolding js32_def by (metis of_int_of_nat_eq)
    qed
    then show ?thesis unfolding block_at_def map_map by (intro map_cong) simp_all
  qed
  then have blocks: "map (\<lambda>b. map js32 (block_at (be_words ?p) b)) [0..<?n] = message_blocks ?p"
    unfolding message_blocks_def Let_def by simp
  have h: "map js32 ?h = sha256 (input_bytes i)" "list_all in_range ?h"
    using sha_blocks_fold [of sha256_initial ?n "be_words ?p"] blocks w(1)
    by (simp_all add: sha256_def sha256_initial_def js32_def in_range_def)
  have "padStart 8 (CHR ''0'') (show_hex (nat x)) = hex_digits 8 (unat (js32 x))" if "in_range x" for x
  proof -
    have "unat (js32 x) < 16 ^ 8" using unsigned_less [of "js32 x"] by simp
    then show ?thesis using that by (simp add: in_range_nat padStart_show_hex)
  qed
  then have "map (\<lambda>part. padStart 8 (CHR ''0'') (show_hex (nat part))) ?h = map (\<lambda>w. hex_digits 8 (unat w)) (map js32 ?h)"
    using h(2) by (simp add: list_all_iff)
  then show ?thesis
    by (simp add: sha256Hex_def sha256Bytes_def Let_def sha_padded_padding h(1))
qed

end
