(* ===== verification/JsonFields.thy ===== *)
theory JsonFields
  imports Json
begin

text \<open>
  Reading the properties of a JSON value whose shape is known. The readers give the value of a property of the
  static type the code relies on, and on values of another type a default the code never reaches.
\<close>

section \<open>Reading properties\<close>

definition field :: "json \<Rightarrow> string \<Rightarrow> json option" where
  "field v k = (case v of JObj kvs \<Rightarrow> map_of kvs k | _ \<Rightarrow> None)"

fun text_of :: "json option \<Rightarrow> string" where
  "text_of (Some (JStr s)) = s"
| "text_of _ = []"

fun number_of :: "json option \<Rightarrow> rat" where
  "number_of (Some (JNum r)) = r"
| "number_of _ = 0"

fun items_of :: "json option \<Rightarrow> json list" where
  "items_of (Some (JArr xs)) = xs"
| "items_of _ = []"

fun entries_of :: "json option \<Rightarrow> (string \<times> json) list" where
  "entries_of (Some (JObj kvs)) = kvs"
| "entries_of _ = []"

definition texts_of :: "json option \<Rightarrow> string list" where
  "texts_of v = map (\<lambda>x. text_of (Some x)) (items_of v)"

end
