(* ===== verification/ImageModel.thy ===== *)
theory ImageModel
  imports JsonFields "HOL-Library.Multiset"
begin

text \<open>
  The image document of \<open>packages/core/src/image-document/model.ts\<close>.

  An image document is JSON, and the code reads it through static types. Here it is a \<open>json\<close> value read
  by own-property access (\<open>field\<close>), and the interfaces of \<open>model.ts\<close> are predicates on values:
  \<open>ts_record\<close> is an interface with its required and optional properties. Excess properties do not matter
  to a static type. Where the code relies on a static type, the readers \<open>text_of\<close>, \<open>number_of\<close> and
  \<open>items_of\<close> give the property's value; on values of another type they give a default the code never
  reaches.
\<close>

section \<open>Constants\<close>

definition IMAGE_DOCUMENT_FORMAT :: string where
  "IMAGE_DOCUMENT_FORMAT = ''dinkster-image''"

definition IMAGE_DOCUMENT_FORMAT_VERSION :: nat where
  "IMAGE_DOCUMENT_FORMAT_VERSION = 2"

definition MAX_IMAGE_DOCUMENT_BYTES :: nat where
  "MAX_IMAGE_DOCUMENT_BYTES = 16 * 1024 * 1024"

definition MAX_IMAGE_LAYERS :: nat where
  "MAX_IMAGE_LAYERS = 4096"

definition MAX_IMAGE_LAYER_DEPTH :: nat where
  "MAX_IMAGE_LAYER_DEPTH = 64"

definition MAX_IMAGE_RESOURCES :: nat where
  "MAX_IMAGE_RESOURCES = 8192"

definition MAX_IMAGE_MASKS_PER_LAYER :: nat where
  "MAX_IMAGE_MASKS_PER_LAYER = 32"

definition MAX_IMAGE_CANVAS_DIMENSION :: rat where
  "MAX_IMAGE_CANVAS_DIMENSION = 16384"

definition MAX_IMAGE_PIXELS :: rat where
  "MAX_IMAGE_PIXELS = 100000000"

definition IMAGE_FIXED_POINT_SCALE :: rat where
  "IMAGE_FIXED_POINT_SCALE = 1000000"

definition IMAGE_OPACITY_MAX :: rat where
  "IMAGE_OPACITY_MAX = 65535"

definition MAX_IMAGE_LINEAR_COMPONENT :: rat where
  "MAX_IMAGE_LINEAR_COMPONENT = 1000 * IMAGE_FIXED_POINT_SCALE"

definition MAX_IMAGE_TRANSLATION :: rat where
  "MAX_IMAGE_TRANSLATION = MAX_IMAGE_CANVAS_DIMENSION * 64 * IMAGE_FIXED_POINT_SCALE"

definition IMAGE_OUTPUT_POLICY_EXTENSION :: string where
  "IMAGE_OUTPUT_POLICY_EXTENSION = ''dinkster.outputPolicy''"

definition IMAGE_OUTPUT_FORMATS :: "string list" where
  "IMAGE_OUTPUT_FORMATS = [''png'', ''jpeg'', ''webp'']"

definition IMAGE_BLEND_MODES :: "string list" where
  "IMAGE_BLEND_MODES =
    [''normal'', ''dissolve'', ''multiply'', ''screen'', ''overlay'', ''darken'', ''lighten'', ''color_dodge'',
     ''color_burn'', ''hard_light'', ''soft_light'', ''difference'', ''exclusion'', ''linear_dodge'',
     ''linear_burn'', ''vivid_light'', ''pin_light'', ''linear_light'', ''hard_mix'', ''subtract'', ''divide'',
     ''grain_extract'', ''grain_merge'', ''hue'', ''saturation'', ''color'', ''luminosity'']"

definition IMAGE_MASK_COMBINE_MODES :: "string list" where
  "IMAGE_MASK_COMBINE_MODES = [''multiply'', ''add'', ''subtract'', ''intersect'']"

definition IMAGE_RASTER_MEDIA_TYPES :: "string list" where
  "IMAGE_RASTER_MEDIA_TYPES = [''image/png'', ''image/jpeg'', ''image/webp'']"

definition IMAGE_ALPHA_MODES :: "string list" where
  "IMAGE_ALPHA_MODES = [''straight'', ''premultiplied'', ''opaque'']"

section \<open>Static types\<close>

definition ts_record :: "(string \<times> (json \<Rightarrow> bool)) list \<Rightarrow> (string \<times> (json \<Rightarrow> bool)) list \<Rightarrow> json \<Rightarrow> bool" where
  "ts_record required optional v =
     (case v of
        JObj kvs \<Rightarrow>
          list_all (\<lambda>(k, P). case map_of kvs k of None \<Rightarrow> False | Some w \<Rightarrow> P w) required \<and>
          list_all (\<lambda>(k, P). case map_of kvs k of None \<Rightarrow> True | Some w \<Rightarrow> P w) optional
      | _ \<Rightarrow> False)"

fun ts_number :: "json \<Rightarrow> bool" where
  "ts_number (JNum _) = True"
| "ts_number _ = False"

fun ts_string :: "json \<Rightarrow> bool" where
  "ts_string (JStr _) = True"
| "ts_string _ = False"

fun ts_boolean :: "json \<Rightarrow> bool" where
  "ts_boolean (JBool _) = True"
| "ts_boolean _ = False"

definition ts_literal :: "json \<Rightarrow> json \<Rightarrow> bool" where
  "ts_literal expected v \<longleftrightarrow> v = expected"

definition ts_one_of :: "string list \<Rightarrow> json \<Rightarrow> bool" where
  "ts_one_of allowed v = (case v of JStr s \<Rightarrow> s \<in> set allowed | _ \<Rightarrow> False)"

definition ts_array :: "(json \<Rightarrow> bool) \<Rightarrow> json \<Rightarrow> bool" where
  "ts_array P v = (case v of JArr xs \<Rightarrow> list_all P xs | _ \<Rightarrow> False)"

definition ts_map :: "(json \<Rightarrow> bool) \<Rightarrow> json \<Rightarrow> bool" where
  "ts_map P v = (case v of JObj kvs \<Rightarrow> list_all (\<lambda>kv. P (snd kv)) kvs | _ \<Rightarrow> False)"

definition ts_any :: "json \<Rightarrow> bool" where
  "ts_any v \<longleftrightarrow> True"

definition ImageCanvas :: "json \<Rightarrow> bool" where
  "ImageCanvas = ts_record
     [(''width'', ts_number), (''height'', ts_number), (''colorSpace'', ts_literal (JStr ''srgb'')),
      (''channelDepth'', ts_literal (JNum 8)),
      (''compositing'', ts_one_of [''premultiplied-alpha'', ''linear-premultiplied-alpha''])]
     [(''color'', ts_record
         [(''primaries'', ts_number), (''transfer'', ts_number), (''range'', ts_number)]
         [(''matrix'', ts_number), (''bit_depth'', ts_number)]),
      (''background'', \<lambda>v. ts_array ts_number v \<and> length (items_of (Some v)) = 4)]"

definition ImageAllocation :: "json \<Rightarrow> bool" where
  "ImageAllocation = ts_record [(''nextOrdinal'', ts_number)] [(''actorCursors'', ts_map ts_number)]"

definition ImageAffineTransform :: "json \<Rightarrow> bool" where
  "ImageAffineTransform = ts_record
     [(''a'', ts_number), (''b'', ts_number), (''c'', ts_number), (''d'', ts_number), (''tx'', ts_number),
      (''ty'', ts_number)]
     [(''components'', ts_record
         [(''x'', ts_number), (''y'', ts_number), (''width'', ts_number), (''height'', ts_number),
          (''rotation'', ts_number), (''flipHorizontal'', ts_boolean), (''flipVertical'', ts_boolean),
          (''sourceWidth'', ts_number), (''sourceHeight'', ts_number)] [])]"

definition ImageSourceRect :: "json \<Rightarrow> bool" where
  "ImageSourceRect = ts_record
     [(''x'', ts_number), (''y'', ts_number), (''width'', ts_number), (''height'', ts_number)] []"

definition ImageLayerBase :: "(string \<times> (json \<Rightarrow> bool)) list" where
  "ImageLayerBase =
     [(''id'', ts_string), (''name'', ts_string), (''visible'', ts_boolean), (''opacity'', ts_number),
      (''transform'', ImageAffineTransform), (''blendMode'', ts_one_of IMAGE_BLEND_MODES),
      (''clipping'', ts_one_of [''none'', ''clip-to-previous'']), (''maskIds'', ts_array ts_string)]"

definition ImageGroupLayer :: "json \<Rightarrow> bool" where
  "ImageGroupLayer = ts_record
     (ImageLayerBase @ [(''kind'', ts_literal (JStr ''group'')), (''childLayerIds'', ts_array ts_string)])
     [(''z_index'', ts_number), (''isolation'', ts_one_of [''isolated'', ''pass-through''])]"

definition ImageRasterLayer :: "json \<Rightarrow> bool" where
  "ImageRasterLayer = ts_record
     (ImageLayerBase @
      [(''kind'', ts_literal (JStr ''raster'')), (''resourceId'', ts_string), (''sourceRect'', ImageSourceRect)])
     [(''z_index'', ts_number)]"

definition ImageLayer :: "json \<Rightarrow> bool" where
  "ImageLayer v \<longleftrightarrow> ImageGroupLayer v \<or> ImageRasterLayer v"

definition ImageRasterMask :: "json \<Rightarrow> bool" where
  "ImageRasterMask = ts_record
     [(''id'', ts_string), (''kind'', ts_literal (JStr ''raster'')), (''ownerLayerId'', ts_string),
      (''enabled'', ts_boolean), (''invert'', ts_boolean), (''opacity'', ts_number),
      (''transform'', ImageAffineTransform), (''combineMode'', ts_one_of IMAGE_MASK_COMBINE_MODES),
      (''channel'', ts_one_of [''alpha'', ''luminance'']), (''resourceId'', ts_string),
      (''sourceRect'', ImageSourceRect)] []"

text \<open>The digest type is a template literal: any text after \<open>blake3:\<close>.\<close>

definition ImageRasterResource :: "json \<Rightarrow> bool" where
  "ImageRasterResource = ts_record
     [(''id'', ts_string), (''kind'', ts_literal (JStr ''raster'')),
      (''digest'', \<lambda>v. \<exists>s. v = JStr s \<and> take 7 s = ''blake3:''), (''byteSize'', ts_number),
      (''mediaType'', ts_one_of IMAGE_RASTER_MEDIA_TYPES), (''width'', ts_number), (''height'', ts_number),
      (''colorSpace'', ts_literal (JStr ''srgb'')), (''channelDepth'', ts_literal (JNum 8)),
      (''alphaMode'', ts_one_of IMAGE_ALPHA_MODES)]
     [(''inline'', ts_string)]"

definition ImageDocument :: "json \<Rightarrow> bool" where
  "ImageDocument = ts_record
     [(''format'', ts_literal (JStr IMAGE_DOCUMENT_FORMAT)), (''formatVersion'', ts_number),
      (''lineage'', ts_string), (''canvas'', ImageCanvas), (''allocation'', ImageAllocation),
      (''rootLayerIds'', ts_array ts_string), (''layers'', ts_map ImageLayer), (''masks'', ts_map ImageRasterMask),
      (''resources'', ts_map ImageRasterResource)]
     [(''extensions'', ts_map ts_any)]"

section \<open>Reading a document\<close>

definition doc_map :: "json \<Rightarrow> string \<Rightarrow> (string \<times> json) list" where
  "doc_map document k = entries_of (field document k)"

definition layers_of :: "json \<Rightarrow> (string \<times> json) list" where
  "layers_of document = doc_map document ''layers''"

definition masks_of :: "json \<Rightarrow> (string \<times> json) list" where
  "masks_of document = doc_map document ''masks''"

definition resources_of :: "json \<Rightarrow> (string \<times> json) list" where
  "resources_of document = doc_map document ''resources''"

definition rootLayerIds :: "json \<Rightarrow> string list" where
  "rootLayerIds document = texts_of (field document ''rootLayerIds'')"

definition layer_kind :: "json \<Rightarrow> string" where
  "layer_kind layer = text_of (field layer ''kind'')"

definition childLayerIds :: "json \<Rightarrow> string list" where
  "childLayerIds layer = texts_of (field layer ''childLayerIds'')"

definition maskIds :: "json \<Rightarrow> string list" where
  "maskIds layer = texts_of (field layer ''maskIds'')"

definition z_index :: "json \<Rightarrow> rat option" where
  "z_index layer = (case field layer ''z_index'' of Some (JNum z) \<Rightarrow> Some z | _ \<Rightarrow> None)"

definition layer_z :: "json \<Rightarrow> string \<Rightarrow> rat option" where
  "layer_z document lid = Option.bind (map_of (layers_of document) lid) z_index"

text \<open>Equal z indexes retain the serialized sibling order: the sort is stable.\<close>

definition orderedImageLayerIds :: "json \<Rightarrow> string list \<Rightarrow> string list" where
  "orderedImageLayerIds document ids =
     map snd (sort_key fst (map (\<lambda>(index, lid).
       ((case layer_z document lid of Some z \<Rightarrow> z | None \<Rightarrow> of_nat index), lid)) (enumerate 0 ids)))"

definition imageOutputPolicyOf :: "json \<Rightarrow> string \<times> rat" where
  "imageOutputPolicyOf document =
     (case Option.bind (field document ''extensions'') (\<lambda>e. field e IMAGE_OUTPUT_POLICY_EXTENSION) of
        Some (JObj policy) \<Rightarrow>
          (case (map_of policy ''format'', map_of policy ''quality'') of
             (Some (JStr format), Some (JNum quality)) \<Rightarrow>
               if format \<in> set IMAGE_OUTPUT_FORMATS \<and> is_safe_integer quality \<and> 0 \<le> quality \<and> quality \<le> 100
               then (format, quality) else (''png'', 90)
           | _ \<Rightarrow> (''png'', 90))
      | _ \<Rightarrow> (''png'', 90))"

section \<open>Basic facts\<close>

lemma field_obj [simp]: "field (JObj kvs) k = map_of kvs k"
  by (simp add: field_def)

lemma field_Some: "field v k = Some w \<longleftrightarrow> (\<exists>kvs. v = JObj kvs \<and> map_of kvs k = Some w)"
  by (cases v) (simp_all add: field_def)

lemma ts_simps [simp]:
  "ts_literal e v \<longleftrightarrow> v = e" "ts_any v"
  by (simp_all add: ts_literal_def ts_any_def)

lemma ts_number_iff: "ts_number v \<longleftrightarrow> (\<exists>r. v = JNum r)"
  by (cases v) simp_all

lemma ts_string_iff: "ts_string v \<longleftrightarrow> (\<exists>s. v = JStr s)"
  by (cases v) simp_all

lemma ts_boolean_iff: "ts_boolean v \<longleftrightarrow> (\<exists>b. v = JBool b)"
  by (cases v) simp_all

lemma mset_orderedImageLayerIds: "mset (orderedImageLayerIds d ids) = mset ids"
proof -
  have "mset (orderedImageLayerIds d ids) = mset (map snd (enumerate 0 ids))"
    by (simp only: orderedImageLayerIds_def mset_map mset_sort)
      (simp add: image_mset.compositionality comp_def case_prod_beta')
  then show ?thesis by (simp only: map_snd_enumerate)
qed

lemma set_orderedImageLayerIds [simp]: "set (orderedImageLayerIds d ids) = set ids"
  using mset_orderedImageLayerIds by (rule mset_eq_setD)

lemma distinct_orderedImageLayerIds [simp]: "distinct (orderedImageLayerIds d ids) = distinct ids"
  using mset_orderedImageLayerIds by (rule mset_eq_imp_distinct_iff)

end
