(* ===== verification/ImageValidate.thy ===== *)
theory ImageValidate
  imports ImageModel Ids
begin

text \<open>
  The shape check of image documents: \<open>packages/core/src/image-document/validate.ts\<close>.

  The checker of the code collects diagnostics, all with the code \<open>image.shape.invalid\<close> and a message that
  starts with the path of the offending value. Here every check returns the list of the paths it reports,
  in the order of the code; a check that returns \<open>true\<close> reports nothing. The rest of the message text is
  not modelled. The BLAKE3 hash is third-party code: \<open>blake3_hex\<close> gives the hexadecimal hash of a byte
  list.
\<close>

type_synonym failures = "string list"

section \<open>The checker\<close>

definition chk :: "bool \<Rightarrow> string \<Rightarrow> failures" where
  "chk ok path = (if ok then [] else [path])"

definition chk_object :: "json option \<Rightarrow> string \<Rightarrow> failures" where
  "chk_object v path = chk (is_object v) path"

definition chk_exactKeys :: "(string \<times> json) list \<Rightarrow> string \<Rightarrow> string list \<Rightarrow> string list \<Rightarrow> failures" where
  "chk_exactKeys kvs path required optional =
     concat (map (\<lambda>key. chk (map_of kvs key \<noteq> None) (path @ ''.'' @ key)) required) @
     concat (map (\<lambda>kv. chk (fst kv \<in> set (required @ optional)) (path @ ''.'' @ fst kv)) kvs)"

definition chk_string :: "bool \<Rightarrow> json option \<Rightarrow> string \<Rightarrow> failures" where
  "chk_string nonEmpty v path =
     (case v of
        Some (JStr s) \<Rightarrow> chk (\<not> (nonEmpty \<and> s = []) \<and> CHR 0x00 \<notin> set s) path
      | _ \<Rightarrow> [path])"

definition chk_integer :: "json option \<Rightarrow> string \<Rightarrow> rat \<Rightarrow> rat \<Rightarrow> failures" where
  "chk_integer v path low high =
     (case v of Some (JNum r) \<Rightarrow> chk (is_safe_integer r \<and> low \<le> r \<and> r \<le> high) path | _ \<Rightarrow> [path])"

definition chk_boolean :: "json option \<Rightarrow> string \<Rightarrow> failures" where
  "chk_boolean v path = (case v of Some (JBool _) \<Rightarrow> [] | _ \<Rightarrow> [path])"

definition chk_array :: "json option \<Rightarrow> string \<Rightarrow> failures" where
  "chk_array v path = (case v of Some (JArr _) \<Rightarrow> [] | _ \<Rightarrow> [path])"

definition chk_literal :: "json option \<Rightarrow> string \<Rightarrow> json \<Rightarrow> failures" where
  "chk_literal v path expected = chk (v = Some expected) path"

definition chk_oneOf :: "json option \<Rightarrow> string \<Rightarrow> string list \<Rightarrow> failures" where
  "chk_oneOf v path allowed =
     (case v of Some (JStr s) \<Rightarrow> chk (s \<in> set allowed) path | _ \<Rightarrow> [path])"

text \<open>\<open>if (checker.object(value, path)) ...\<close>: the rest of a check runs on the properties of an object only.\<close>

definition on_object :: "json option \<Rightarrow> string \<Rightarrow> ((string \<times> json) list \<Rightarrow> failures) \<Rightarrow> failures" where
  "on_object v path rest = (case v of Some (JObj kvs) \<Rightarrow> rest kvs | _ \<Rightarrow> chk_object v path)"

section \<open>Transforms, rectangles, id lists\<close>

definition V1_BLEND_MODES :: "string list" where
  "V1_BLEND_MODES = [''normal'', ''multiply'', ''screen'', ''overlay'', ''darken'', ''lighten'']"

definition check_components :: "(string \<times> json) list \<Rightarrow> string \<Rightarrow> failures" where
  "check_components components path =
     chk_exactKeys components path
       [''x'', ''y'', ''width'', ''height'', ''rotation'', ''flipHorizontal'', ''flipVertical'', ''sourceWidth'',
        ''sourceHeight''] [] @
     concat (map (\<lambda>key. chk (is_number (map_of components key)) (path @ ''.'' @ key))
       [''x'', ''y'', ''width'', ''height'', ''rotation'', ''sourceWidth'', ''sourceHeight'']) @
     concat (map (\<lambda>key. case map_of components key of
         Some (JNum dimension) \<Rightarrow>
           chk (\<not> (dimension \<le> 0 \<or> dimension > MAX_IMAGE_CANVAS_DIMENSION)) (path @ ''.'' @ key)
       | _ \<Rightarrow> []) [''width'', ''height'', ''sourceWidth'', ''sourceHeight'']) @
     chk_boolean (map_of components ''flipHorizontal'') (path @ ''.flipHorizontal'') @
     chk_boolean (map_of components ''flipVertical'') (path @ ''.flipVertical'')"

definition checkTransform :: "json option \<Rightarrow> string \<Rightarrow> nat \<Rightarrow> failures" where
  "checkTransform v path version = on_object v path (\<lambda>kvs.
     chk_exactKeys kvs path [''a'', ''b'', ''c'', ''d'', ''tx'', ''ty''] (if version \<ge> 2 then [''components''] else []) @
     concat (map (\<lambda>key. chk_integer (map_of kvs key) (path @ ''.'' @ key)
       (- MAX_IMAGE_LINEAR_COMPONENT) MAX_IMAGE_LINEAR_COMPONENT) [''a'', ''b'', ''c'', ''d'']) @
     concat (map (\<lambda>key. chk_integer (map_of kvs key) (path @ ''.'' @ key)
       (- MAX_IMAGE_TRANSLATION) MAX_IMAGE_TRANSLATION) [''tx'', ''ty'']) @
     (case map_of kvs ''components'' of
        None \<Rightarrow> []
      | Some components \<Rightarrow>
          on_object (Some components) (path @ ''.components'') (\<lambda>cs. check_components cs (path @ ''.components''))))"

definition checkSourceRect :: "json option \<Rightarrow> string \<Rightarrow> failures" where
  "checkSourceRect v path = on_object v path (\<lambda>kvs.
     chk_exactKeys kvs path [''x'', ''y'', ''width'', ''height''] [] @
     chk_integer (map_of kvs ''x'') (path @ ''.x'') 0 MAX_IMAGE_CANVAS_DIMENSION @
     chk_integer (map_of kvs ''y'') (path @ ''.y'') 0 MAX_IMAGE_CANVAS_DIMENSION @
     chk_integer (map_of kvs ''width'') (path @ ''.width'') 1 MAX_IMAGE_CANVAS_DIMENSION @
     chk_integer (map_of kvs ''height'') (path @ ''.height'') 1 MAX_IMAGE_CANVAS_DIMENSION)"

definition checkIdList :: "json option \<Rightarrow> string \<Rightarrow> nat \<Rightarrow> failures" where
  "checkIdList v path maximum =
     (case v of
        Some (JArr xs) \<Rightarrow>
          chk (length xs \<le> maximum) path @
          concat (map (\<lambda>(index, x). chk_string True (Some x) (path @ ''['' @ show_nat index @ '']'')) (enumerate 0 xs))
      | _ \<Rightarrow> chk_array v path)"

section \<open>Layers, masks, resources\<close>

definition LAYER_BASE_KEYS :: "string list" where
  "LAYER_BASE_KEYS =
     [''id'', ''kind'', ''name'', ''visible'', ''opacity'', ''transform'', ''blendMode'', ''clipping'', ''maskIds'']"

definition checkLayer :: "json option \<Rightarrow> string \<Rightarrow> nat \<Rightarrow> failures" where
  "checkLayer v path version = on_object v path (\<lambda>kvs.
     let kind = map_of kvs ''kind''; isGroup = (kind = Some (JStr ''group''))
     in if \<not> isGroup \<and> kind \<noteq> Some (JStr ''raster'') then [path @ ''.kind'']
        else
          chk_exactKeys kvs path (LAYER_BASE_KEYS @ (if isGroup then [''childLayerIds''] else [''resourceId'', ''sourceRect'']))
            (if version \<ge> 2 then (if isGroup then [''z_index'', ''isolation''] else [''z_index'']) else []) @
          (if map_of kvs ''z_index'' \<noteq> None
           then chk_integer (map_of kvs ''z_index'') (path @ ''.z_index'') (- max_safe_integer) max_safe_integer else []) @
          (if isGroup \<and> map_of kvs ''isolation'' \<noteq> None
           then chk_oneOf (map_of kvs ''isolation'') (path @ ''.isolation'') [''isolated'', ''pass-through''] else []) @
          chk_string True (map_of kvs ''id'') (path @ ''.id'') @
          chk_string False (map_of kvs ''name'') (path @ ''.name'') @
          chk_boolean (map_of kvs ''visible'') (path @ ''.visible'') @
          chk_integer (map_of kvs ''opacity'') (path @ ''.opacity'') 0 IMAGE_OPACITY_MAX @
          checkTransform (map_of kvs ''transform'') (path @ ''.transform'') version @
          chk_oneOf (map_of kvs ''blendMode'') (path @ ''.blendMode'')
            (if version \<ge> 2 then IMAGE_BLEND_MODES else V1_BLEND_MODES) @
          chk_oneOf (map_of kvs ''clipping'') (path @ ''.clipping'') [''none'', ''clip-to-previous''] @
          checkIdList (map_of kvs ''maskIds'') (path @ ''.maskIds'') MAX_IMAGE_MASKS_PER_LAYER @
          (if isGroup then checkIdList (map_of kvs ''childLayerIds'') (path @ ''.childLayerIds'') MAX_IMAGE_LAYERS
           else chk_string True (map_of kvs ''resourceId'') (path @ ''.resourceId'') @
             checkSourceRect (map_of kvs ''sourceRect'') (path @ ''.sourceRect'')))"

definition checkMask :: "json option \<Rightarrow> string \<Rightarrow> nat \<Rightarrow> failures" where
  "checkMask v path version = on_object v path (\<lambda>kvs.
     if map_of kvs ''kind'' \<noteq> Some (JStr ''raster'') then [path @ ''.kind'']
     else
       chk_exactKeys kvs path
         [''id'', ''kind'', ''ownerLayerId'', ''enabled'', ''invert'', ''opacity'', ''transform'', ''combineMode'',
          ''channel'', ''resourceId'', ''sourceRect''] [] @
       chk_string True (map_of kvs ''id'') (path @ ''.id'') @
       chk_string True (map_of kvs ''ownerLayerId'') (path @ ''.ownerLayerId'') @
       chk_boolean (map_of kvs ''enabled'') (path @ ''.enabled'') @
       chk_boolean (map_of kvs ''invert'') (path @ ''.invert'') @
       chk_integer (map_of kvs ''opacity'') (path @ ''.opacity'') 0 IMAGE_OPACITY_MAX @
       checkTransform (map_of kvs ''transform'') (path @ ''.transform'') version @
       chk_oneOf (map_of kvs ''combineMode'') (path @ ''.combineMode'') IMAGE_MASK_COMBINE_MODES @
       chk_oneOf (map_of kvs ''channel'') (path @ ''.channel'') [''alpha'', ''luminance''] @
       chk_string True (map_of kvs ''resourceId'') (path @ ''.resourceId'') @
       checkSourceRect (map_of kvs ''sourceRect'') (path @ ''.sourceRect''))"

text \<open>Base64: the pattern of the code, \<open>atob\<close> and \<open>btoa\<close>. \<open>atob\<close> is only called on text of the pattern.\<close>

definition base64_alphabet :: string where
  "base64_alphabet = ''ABCDEFGHIJKLMNOPQRSTUVWXYZabcdefghijklmnopqrstuvwxyz0123456789+/''"

definition base64_char :: "char \<Rightarrow> bool" where
  "base64_char c \<longleftrightarrow> c \<in> set base64_alphabet"

fun base64_value_from :: "nat \<Rightarrow> string \<Rightarrow> char \<Rightarrow> nat" where
  "base64_value_from n [] c = 0"
| "base64_value_from n (d # ds) c = (if d = c then n else base64_value_from (Suc n) ds c)"

definition base64_value :: "char \<Rightarrow> nat" where
  "base64_value c = base64_value_from 0 base64_alphabet c"

fun strict_base64 :: "string \<Rightarrow> bool" where
  "strict_base64 [] = True"
| "strict_base64 (a # b # c # d # rest) =
     (base64_char a \<and> base64_char b \<and>
      (if rest = [] then (base64_char c \<and> (base64_char d \<or> d = CHR ''='')) \<or> (c = CHR ''='' \<and> d = CHR ''='')
       else base64_char c \<and> base64_char d \<and> strict_base64 rest))"
| "strict_base64 _ = False"

fun atob :: "string \<Rightarrow> nat list" where
  "atob (a # b # c # d # rest) =
     (let va = base64_value a; vb = base64_value b; vc = base64_value c; vd = base64_value d;
          x = va * 4 + vb div 16; y = vb mod 16 * 16 + vc div 4; z = vc mod 4 * 64 + vd
      in if c = CHR ''='' then [x] else if d = CHR ''='' then [x, y] else x # y # z # atob rest)"
| "atob _ = []"

fun btoa :: "nat list \<Rightarrow> string" where
  "btoa [] = []"
| "btoa [x] = [base64_alphabet ! (x div 4), base64_alphabet ! (x mod 4 * 16), CHR ''='', CHR ''='']"
| "btoa [x, y] =
     [base64_alphabet ! (x div 4), base64_alphabet ! (x mod 4 * 16 + y div 16), base64_alphabet ! (y mod 16 * 4), CHR ''='']"
| "btoa (x # y # z # rest) =
     base64_alphabet ! (x div 4) # base64_alphabet ! (x mod 4 * 16 + y div 16) #
     base64_alphabet ! (y mod 16 * 4 + z div 64) # base64_alphabet ! (z mod 64) # btoa rest"

definition check_inline :: "(nat list \<Rightarrow> string) \<Rightarrow> string \<Rightarrow> (string \<times> json) list \<Rightarrow> string \<Rightarrow> failures" where
  "check_inline blake3_hex inline kvs path =
     (if length inline > 5464 \<or> \<not> strict_base64 inline then [path]
      else
        (let decoded = atob inline
         in if length decoded > 4096 \<or> map_of kvs ''byteSize'' \<noteq> Some (JNum (of_nat (length decoded))) \<or> btoa decoded \<noteq> inline
            then [path]
            else chk (map_of kvs ''digest'' = Some (JStr (''blake3:'' @ blake3_hex decoded))) path))"

definition digest_pattern :: "string \<Rightarrow> bool" where
  "digest_pattern s \<longleftrightarrow> take 7 s = ''blake3:'' \<and> length s = 71 \<and>
     list_all (\<lambda>c. is_digit c \<or> c \<in> set ''abcdef'') (drop 7 s)"

definition check_pixels :: "(string \<times> json) list \<Rightarrow> string \<Rightarrow> failures" where
  "check_pixels kvs path =
     (let width = chk_integer (map_of kvs ''width'') (path @ ''.width'') 1 MAX_IMAGE_CANVAS_DIMENSION;
          height = chk_integer (map_of kvs ''height'') (path @ ''.height'') 1 MAX_IMAGE_CANVAS_DIMENSION
      in width @ height @
         (if width = [] \<and> height = [] then
            chk (number_of (map_of kvs ''width'') * number_of (map_of kvs ''height'') \<le> MAX_IMAGE_PIXELS) path
          else []))"

definition checkResource :: "(nat list \<Rightarrow> string) \<Rightarrow> json option \<Rightarrow> string \<Rightarrow> nat \<Rightarrow> failures" where
  "checkResource blake3_hex v path version = on_object v path (\<lambda>kvs.
     if map_of kvs ''kind'' \<noteq> Some (JStr ''raster'') then [path @ ''.kind'']
     else
       chk_exactKeys kvs path
         [''id'', ''kind'', ''digest'', ''byteSize'', ''mediaType'', ''width'', ''height'', ''colorSpace'',
          ''channelDepth'', ''alphaMode''] (if version \<ge> 2 then [''inline''] else []) @
       (case map_of kvs ''inline'' of
          None \<Rightarrow> []
        | Some inline \<Rightarrow>
            chk_string False (Some inline) (path @ ''.inline'') @
            (if chk_string False (Some inline) (path @ ''.inline'') = []
             then check_inline blake3_hex (text_of (Some inline)) kvs (path @ ''.inline'') else [])) @
       chk_string True (map_of kvs ''id'') (path @ ''.id'') @
       chk_string True (map_of kvs ''digest'') (path @ ''.digest'') @
       (if chk_string True (map_of kvs ''digest'') (path @ ''.digest'') = []
        then chk (digest_pattern (text_of (map_of kvs ''digest''))) (path @ ''.digest'') else []) @
       chk_integer (map_of kvs ''byteSize'') (path @ ''.byteSize'') 1 max_safe_integer @
       chk_oneOf (map_of kvs ''mediaType'') (path @ ''.mediaType'') IMAGE_RASTER_MEDIA_TYPES @
       check_pixels kvs path @
       chk_literal (map_of kvs ''colorSpace'') (path @ ''.colorSpace'') (JStr ''srgb'') @
       chk_literal (map_of kvs ''channelDepth'') (path @ ''.channelDepth'') (JNum 8) @
       chk_oneOf (map_of kvs ''alphaMode'') (path @ ''.alphaMode'') IMAGE_ALPHA_MODES)"

definition checkRecord :: "json option \<Rightarrow> string \<Rightarrow> nat \<Rightarrow> (json option \<Rightarrow> string \<Rightarrow> failures) \<Rightarrow> failures" where
  "checkRecord v path maximum checkEntry = on_object v path (\<lambda>kvs.
     chk (length kvs \<le> maximum) path @
     concat (map (\<lambda>(key, entry).
       (let bad = chk_string True (Some (JStr key)) (path @ '' key'')
        in if bad \<noteq> [] then bad else checkEntry (Some entry) (path @ ''['' @ stringify_string key @ '']''))) kvs))"

section \<open>The document\<close>

definition check_canvas :: "(string \<times> json) list \<Rightarrow> nat \<Rightarrow> failures" where
  "check_canvas canvas version =
     chk_exactKeys canvas ''$.canvas'' [''width'', ''height'', ''colorSpace'', ''channelDepth'', ''compositing'']
       (if version \<ge> 2 then [''color'', ''background''] else []) @
     (case map_of canvas ''color'' of
        None \<Rightarrow> []
      | Some color \<Rightarrow> on_object (Some color) ''$.canvas.color'' (\<lambda>kvs.
          chk_exactKeys kvs ''$.canvas.color'' [''primaries'', ''transfer'', ''range''] [''matrix'', ''bit_depth''] @
          concat (map (\<lambda>kv. chk_integer (Some (snd kv)) (''$.canvas.color.'' @ fst kv) 0 max_safe_integer) kvs))) @
     (case map_of canvas ''background'' of
        None \<Rightarrow> []
      | Some (JArr xs) \<Rightarrow>
          chk (length xs = 4) ''$.canvas.background'' @
          concat (map (\<lambda>(index, x). chk_integer (Some x) (''$.canvas.background['' @ show_nat index @ '']'') 0 65535)
            (enumerate 0 xs))
      | Some background \<Rightarrow> chk_array (Some background) ''$.canvas.background'') @
     check_pixels canvas ''$.canvas'' @
     chk_literal (map_of canvas ''colorSpace'') ''$.canvas.colorSpace'' (JStr ''srgb'') @
     chk_literal (map_of canvas ''channelDepth'') ''$.canvas.channelDepth'' (JNum 8) @
     (if version \<ge> 2
      then chk_oneOf (map_of canvas ''compositing'') ''$.canvas.compositing'' [''premultiplied-alpha'', ''linear-premultiplied-alpha'']
      else chk_literal (map_of canvas ''compositing'') ''$.canvas.compositing'' (JStr ''premultiplied-alpha''))"

definition check_allocation :: "(string \<times> json) list \<Rightarrow> failures" where
  "check_allocation allocation =
     chk_exactKeys allocation ''$.allocation'' [''nextOrdinal''] [''actorCursors''] @
     chk_integer (map_of allocation ''nextOrdinal'') ''$.allocation.nextOrdinal'' 0 max_safe_integer @
     (case map_of allocation ''actorCursors'' of
        None \<Rightarrow> []
      | Some cursors \<Rightarrow> on_object (Some cursors) ''$.allocation.actorCursors'' (\<lambda>kvs.
          concat (map (\<lambda>(actor, cursor).
            (let path = ''$.allocation.actorCursors['' @ stringify_string actor @ '']''
             in chk (isValidActorId actor) path @ chk_integer (Some cursor) path 0 max_safe_integer)) kvs)))"

definition validateImageDocumentShape :: "(nat list \<Rightarrow> string) \<Rightarrow> json \<Rightarrow> nat \<Rightarrow> failures" where
  "validateImageDocumentShape blake3_hex v version = on_object (Some v) ''$'' (\<lambda>kvs.
     chk_exactKeys kvs ''$''
       [''format'', ''formatVersion'', ''lineage'', ''canvas'', ''allocation'', ''rootLayerIds'', ''layers'', ''masks'',
        ''resources''] [''extensions''] @
     chk_literal (map_of kvs ''format'') ''$.format'' (JStr IMAGE_DOCUMENT_FORMAT) @
     chk_literal (map_of kvs ''formatVersion'') ''$.formatVersion'' (JNum (of_nat version)) @
     chk_string True (map_of kvs ''lineage'') ''$.lineage'' @
     on_object (map_of kvs ''canvas'') ''$.canvas'' (\<lambda>canvas. check_canvas canvas version) @
     on_object (map_of kvs ''allocation'') ''$.allocation'' check_allocation @
     checkIdList (map_of kvs ''rootLayerIds'') ''$.rootLayerIds'' MAX_IMAGE_LAYERS @
     checkRecord (map_of kvs ''layers'') ''$.layers'' MAX_IMAGE_LAYERS (\<lambda>entry path. checkLayer entry path version) @
     checkRecord (map_of kvs ''masks'') ''$.masks'' (MAX_IMAGE_LAYERS * MAX_IMAGE_MASKS_PER_LAYER)
       (\<lambda>entry path. checkMask entry path version) @
     checkRecord (map_of kvs ''resources'') ''$.resources'' MAX_IMAGE_RESOURCES
       (\<lambda>entry path. checkResource blake3_hex entry path version) @
     (if map_of kvs ''extensions'' \<noteq> None then chk_object (map_of kvs ''extensions'') ''$.extensions'' else []))"

section \<open>What a check that reports nothing establishes\<close>

lemma chk_Nil [simp]: "chk ok path = [] \<longleftrightarrow> ok"
  by (simp add: chk_def)

lemma chk_object_Nil [simp]: "chk_object v path = [] \<longleftrightarrow> is_object v"
  by (simp add: chk_object_def)

definition only_keys :: "(string \<times> json) list \<Rightarrow> string list \<Rightarrow> bool" where
  "only_keys kvs ks \<longleftrightarrow> fst ` set kvs \<subseteq> set ks"

lemma chk_exactKeys_Nil [simp]:
  "chk_exactKeys kvs path required optional = [] \<longleftrightarrow>
     (\<forall>k \<in> set required. map_of kvs k \<noteq> None) \<and> only_keys kvs (required @ optional)"
  by (auto simp: chk_exactKeys_def only_keys_def)

lemma chk_string_Nil [simp]:
  "chk_string ne v path = [] \<longleftrightarrow> (\<exists>s. v = Some (JStr s) \<and> (ne \<longrightarrow> s \<noteq> []) \<and> CHR 0x00 \<notin> set s)"
  by (auto simp: chk_string_def split: option.splits json.splits)

lemma chk_integer_Nil [simp]:
  "chk_integer v path low high = [] \<longleftrightarrow> (\<exists>r. v = Some (JNum r) \<and> is_safe_integer r \<and> low \<le> r \<and> r \<le> high)"
  by (auto simp: chk_integer_def split: option.splits json.splits)

lemma chk_boolean_Nil [simp]: "chk_boolean v path = [] \<longleftrightarrow> (\<exists>b. v = Some (JBool b))"
  by (auto simp: chk_boolean_def split: option.splits json.splits)

lemma chk_array_Nil [simp]: "chk_array v path = [] \<longleftrightarrow> (\<exists>xs. v = Some (JArr xs))"
  by (auto simp: chk_array_def split: option.splits json.splits)

lemma chk_literal_Nil [simp]: "chk_literal v path e = [] \<longleftrightarrow> v = Some e"
  by (simp add: chk_literal_def)

lemma chk_oneOf_Nil [simp]: "chk_oneOf v path allowed = [] \<longleftrightarrow> (\<exists>s. v = Some (JStr s) \<and> s \<in> set allowed)"
  by (auto simp: chk_oneOf_def split: option.splits json.splits)

lemma on_object_Nil [simp]: "on_object v path rest = [] \<longleftrightarrow> (\<exists>kvs. v = Some (JObj kvs) \<and> rest kvs = [])"
  by (auto simp: on_object_def split: option.splits json.splits)

lemma concat_enumerate_Nil:
  assumes "\<And>i x. g i x = [] \<longleftrightarrow> Q x"
  shows "concat (map (\<lambda>(i, x). g i x) (enumerate n xs)) = [] \<longleftrightarrow> (\<forall>x \<in> set xs. Q x)"
  by (induction xs arbitrary: n) (auto simp: assms)

lemma checkIdList_Nil [simp]:
  "checkIdList v path maximum = [] \<longleftrightarrow>
     (\<exists>xs. v = Some (JArr xs) \<and> length xs \<le> maximum \<and>
        (\<forall>x \<in> set xs. \<exists>s. x = JStr s \<and> s \<noteq> [] \<and> CHR 0x00 \<notin> set s))"
proof (cases "\<exists>xs. v = Some (JArr xs)")
  case True
  then obtain xs where v: "v = Some (JArr xs)" by blast
  have "concat (map (\<lambda>(index, x). chk_string True (Some x) (path @ ''['' @ show_nat index @ '']'')) (enumerate 0 xs)) = [] \<longleftrightarrow>
      (\<forall>x \<in> set xs. \<exists>s. x = JStr s \<and> s \<noteq> [] \<and> CHR 0x00 \<notin> set s)"
    by (rule concat_enumerate_Nil) simp
  then show ?thesis by (simp only: checkIdList_def v option.case json.case append_is_Nil_conv) simp
qed (auto simp: checkIdList_def chk_array_def split: option.splits json.splits)

lemma checkRecord_Nil:
  "checkRecord v path maximum f = [] \<longleftrightarrow>
     (\<exists>kvs. v = Some (JObj kvs) \<and> length kvs \<le> maximum \<and>
        (\<forall>kv \<in> set kvs. fst kv \<noteq> [] \<and> CHR 0x00 \<notin> set (fst kv) \<and>
           f (Some (snd kv)) (path @ ''['' @ stringify_string (fst kv) @ '']'') = []))"
proof -
  have entry: "(case kv of (key, entry) \<Rightarrow> let bad = chk_string True (Some (JStr key)) (path @ '' key'')
        in if bad \<noteq> [] then bad else f (Some entry) (path @ ''['' @ stringify_string key @ '']'')) = [] \<longleftrightarrow>
      fst kv \<noteq> [] \<and> CHR 0x00 \<notin> set (fst kv) \<and> f (Some (snd kv)) (path @ ''['' @ stringify_string (fst kv) @ '']'') = []" for kv
    by (cases kv) (auto simp: Let_def)
  show ?thesis
    unfolding checkRecord_def on_object_Nil append_is_Nil_conv concat_eq_Nil_conv chk_Nil set_map ball_simps entry by blast
qed

lemma ts_record_obj [simp]:
  "ts_record required optional (JObj kvs) \<longleftrightarrow>
     list_all (\<lambda>(k, P). case map_of kvs k of None \<Rightarrow> False | Some w \<Rightarrow> P w) required \<and>
     list_all (\<lambda>(k, P). case map_of kvs k of None \<Rightarrow> True | Some w \<Rightarrow> P w) optional"
  by (simp add: ts_record_def)

lemma optional_Nil [simp]:
  "(case x of None \<Rightarrow> [] | Some c \<Rightarrow> g c) = [] \<longleftrightarrow> (\<forall>c. x = Some c \<longrightarrow> g c = [])"
  by (cases x) simp_all

lemma check_components_type:
  "check_components cs path = [] \<Longrightarrow> ts_record
     [(''x'', ts_number), (''y'', ts_number), (''width'', ts_number), (''height'', ts_number),
      (''rotation'', ts_number), (''flipHorizontal'', ts_boolean), (''flipVertical'', ts_boolean),
      (''sourceWidth'', ts_number), (''sourceHeight'', ts_number)] [] (JObj cs)"
  by (clarsimp simp: check_components_def is_number_iff)

lemma transform_type:
  assumes "checkTransform (Some v) path version = []"
  shows "ImageAffineTransform v"
proof -
  from assms obtain kvs where v: "v = JObj kvs"
    and ints: "\<forall>k \<in> {''a'', ''b'', ''c'', ''d'', ''tx'', ''ty''}. \<exists>r. map_of kvs k = Some (JNum r)"
    and comps: "\<forall>c. map_of kvs ''components'' = Some c \<longrightarrow> (\<exists>cs. c = JObj cs \<and> check_components cs (path @ ''.components'') = [])"
    by (clarsimp simp: checkTransform_def)
  show ?thesis
    unfolding v ImageAffineTransform_def
    using ints comps check_components_type by (cases "map_of kvs ''components''") auto
qed

lemma rect_type: "checkSourceRect (Some v) path = [] \<Longrightarrow> ImageSourceRect v"
  by (clarsimp simp: checkSourceRect_def ImageSourceRect_def)

end
