(* ===== verification/ImageTypes.thy ===== *)
theory ImageTypes
  imports ImageValidate
begin

text \<open>
  A value the shape check accepts has the static type \<open>ImageDocument\<close> of \<open>model.ts\<close>: the cast after the
  check is sound. The theory also collects the readings of an accepted document that the rest of the
  image document code relies on.
\<close>

lemmas check_Nil = chk_Nil chk_object_Nil chk_exactKeys_Nil chk_string_Nil chk_integer_Nil chk_boolean_Nil
  chk_array_Nil chk_literal_Nil chk_oneOf_Nil checkIdList_Nil

declare check_Nil [simp del]

lemma id_list_type: "checkIdList (Some v) path n = [] \<Longrightarrow> ts_array ts_string v"
  by (fastforce simp: ts_array_def list_all_iff check_Nil)

text \<open>A property that passes a check is there.\<close>

lemma typed_rect: "checkSourceRect x p = [] \<Longrightarrow> \<exists>v. x = Some v \<and> ImageSourceRect v"
  using rect_type by (cases x) (auto simp: checkSourceRect_def)

lemma typed_transform: "checkTransform x p n = [] \<Longrightarrow> \<exists>v. x = Some v \<and> ImageAffineTransform v"
  using transform_type by (cases x) (auto simp: checkTransform_def)

lemma typed_ids: "checkIdList x p n = [] \<Longrightarrow> \<exists>v. x = Some v \<and> ts_array ts_string v"
  using id_list_type by (cases x) (auto simp: checkIdList_Nil)

lemma typed_string: "chk_string ne x p = [] \<Longrightarrow> \<exists>s. x = Some (JStr s)"
  by (auto simp: chk_string_Nil)

lemma typed_number: "chk_integer x p l h = [] \<Longrightarrow> \<exists>r. x = Some (JNum r)"
  by (auto simp: chk_integer_Nil)

lemma typed_boolean: "chk_boolean x p = [] \<Longrightarrow> \<exists>b. x = Some (JBool b)"
  by (simp add: chk_boolean_Nil)

lemma typed_one_of: "chk_oneOf x p allowed = [] \<Longrightarrow> \<exists>s. x = Some (JStr s) \<and> s \<in> set allowed"
  by (simp add: chk_oneOf_Nil)

lemmas typed = typed_rect typed_transform typed_ids typed_string typed_number typed_boolean typed_one_of

lemma blend_modes_subset: "set V1_BLEND_MODES \<subseteq> set IMAGE_BLEND_MODES"
  by (simp add: V1_BLEND_MODES_def IMAGE_BLEND_MODES_def)

lemma ts_one_of_JStr [simp]: "ts_one_of allowed (JStr s) \<longleftrightarrow> s \<in> set allowed"
  by (simp add: ts_one_of_def)

text \<open>The properties all layers share, as the check reads them.\<close>

lemma layer_base_type:
  assumes "chk_string True (map_of kvs ''id'') p1 = []" and "chk_string False (map_of kvs ''name'') p2 = []"
    and "chk_boolean (map_of kvs ''visible'') p3 = []"
    and "chk_integer (map_of kvs ''opacity'') p4 0 IMAGE_OPACITY_MAX = []"
    and "checkTransform (map_of kvs ''transform'') p5 version = []"
    and "chk_oneOf (map_of kvs ''blendMode'') p6 (if version \<ge> 2 then IMAGE_BLEND_MODES else V1_BLEND_MODES) = []"
    and "chk_oneOf (map_of kvs ''clipping'') p7 [''none'', ''clip-to-previous''] = []"
    and "checkIdList (map_of kvs ''maskIds'') p8 n = []"
  shows "list_all (\<lambda>(k, P). case map_of kvs k of None \<Rightarrow> False | Some w \<Rightarrow> P w) ImageLayerBase"
proof -
  obtain t where t: "map_of kvs ''transform'' = Some t" "ImageAffineTransform t"
    using typed_transform [OF assms(5)] by blast
  obtain b where b: "map_of kvs ''blendMode'' = Some (JStr b)" "b \<in> set IMAGE_BLEND_MODES"
    using assms(6) blend_modes_subset by (auto simp: check_Nil split: if_splits)
  obtain m where m: "map_of kvs ''maskIds'' = Some m" "ts_array ts_string m"
    using typed_ids [OF assms(8)] by blast
  obtain c where c: "map_of kvs ''clipping'' = Some (JStr c)" "c \<in> {''none'', ''clip-to-previous''}"
    using assms(7) by (auto simp: check_Nil)
  show ?thesis
    unfolding ImageLayerBase_def using assms(1-4) t b m c by (auto simp: check_Nil)
qed

lemma layer_type:
  assumes "checkLayer (Some v) path version = []"
  shows "ImageLayer v"
proof -
  from assms obtain kvs where v: "v = JObj kvs" by (auto simp: checkLayer_def)
  have kind: "\<not> (map_of kvs ''kind'' \<noteq> Some (JStr ''group'') \<and> map_of kvs ''kind'' \<noteq> Some (JStr ''raster''))"
  proof
    assume "map_of kvs ''kind'' \<noteq> Some (JStr ''group'') \<and> map_of kvs ''kind'' \<noteq> Some (JStr ''raster'')"
    then show False using assms by (simp add: v checkLayer_def on_object_def)
  qed
  note c = assms [unfolded v checkLayer_def on_object_def option.case json.case Let_def if_not_P [OF kind] append_is_Nil_conv]
  have base: "list_all (\<lambda>(k, P). case map_of kvs k of None \<Rightarrow> False | Some w \<Rightarrow> P w) ImageLayerBase"
    by (rule layer_base_type; insert c; elim conjE; assumption)
  have z: "ts_number z" if "map_of kvs ''z_index'' = Some z" for z
  proof -
    have "chk_integer (map_of kvs ''z_index'') (path @ ''.z_index'') (- max_safe_integer) max_safe_integer = []"
      using c that by simp
    then show ?thesis using that by (auto simp: chk_integer_Nil)
  qed
  show ?thesis
  proof (cases "map_of kvs ''kind'' = Some (JStr ''group'')")
    case True
    then have ids: "checkIdList (map_of kvs ''childLayerIds'') (path @ ''.childLayerIds'') MAX_IMAGE_LAYERS = []"
      using c by simp
    then obtain ch where ch: "map_of kvs ''childLayerIds'' = Some ch" "ts_array ts_string ch"
      using typed_ids by blast
    have i: "ts_one_of [''isolated'', ''pass-through''] i" if "map_of kvs ''isolation'' = Some i" for i
    proof -
      have "chk_oneOf (map_of kvs ''isolation'') (path @ ''.isolation'') [''isolated'', ''pass-through''] = []"
        using c that True by simp
      then show ?thesis using that by (auto simp: chk_oneOf_Nil)
    qed
    have "ImageGroupLayer v"
      unfolding v ImageGroupLayer_def using base True ch z i by (auto split: option.split)
    then show ?thesis by (simp add: ImageLayer_def)
  next
    case False
    then have kind: "map_of kvs ''kind'' = Some (JStr ''raster'')" using kind by blast
    have "chk_string True (map_of kvs ''resourceId'') (path @ ''.resourceId'') = []"
      and r: "checkSourceRect (map_of kvs ''sourceRect'') (path @ ''.sourceRect'') = []"
      using c False kind by simp_all
    then obtain rid where rid: "map_of kvs ''resourceId'' = Some (JStr rid)" using typed_string by blast
    obtain rect where rect: "map_of kvs ''sourceRect'' = Some rect" "ImageSourceRect rect"
      using typed_rect [OF r] by blast
    have "ImageRasterLayer v"
      unfolding v ImageRasterLayer_def using base kind rid rect z by (auto split: option.split)
    then show ?thesis by (simp add: ImageLayer_def)
  qed
qed

lemma mask_type:
  assumes "checkMask (Some v) path version = []"
  shows "ImageRasterMask v"
proof -
  from assms obtain kvs where v: "v = JObj kvs" by (auto simp: checkMask_def)
  have kind: "\<not> (map_of kvs ''kind'' \<noteq> Some (JStr ''raster''))"
    by (rule notI) (use assms in \<open>simp add: v checkMask_def on_object_def\<close>)
  note c = assms [unfolded v checkMask_def on_object_def option.case json.case if_not_P [OF kind] append_is_Nil_conv]
  obtain ident where ident: "map_of kvs ''id'' = Some (JStr ident)" using c typed_string by blast
  obtain owner where owner: "map_of kvs ''ownerLayerId'' = Some (JStr owner)" using c typed_string by blast
  obtain e where e: "map_of kvs ''enabled'' = Some (JBool e)" using c typed_boolean by blast
  obtain i where i: "map_of kvs ''invert'' = Some (JBool i)" using c typed_boolean by blast
  obtain a where a: "map_of kvs ''opacity'' = Some (JNum a)" using c typed_number by blast
  obtain t where t: "map_of kvs ''transform'' = Some t" "ImageAffineTransform t" using c typed_transform by blast
  obtain m where m: "map_of kvs ''combineMode'' = Some (JStr m)" "m \<in> set IMAGE_MASK_COMBINE_MODES" using c typed_one_of by blast
  obtain ch where ch: "map_of kvs ''channel'' = Some (JStr ch)" "ch \<in> set [''alpha'', ''luminance'']" using c typed_one_of by blast
  obtain r where r: "map_of kvs ''resourceId'' = Some (JStr r)" using c typed_string by blast
  obtain s where s: "map_of kvs ''sourceRect'' = Some s" "ImageSourceRect s" using c typed_rect by blast
  show ?thesis
    unfolding v ImageRasterMask_def using kind ident owner e i a t m ch r s by simp
qed

lemma pixels_fields:
  assumes "check_pixels kvs path = []"
  shows "\<exists>w h. map_of kvs ''width'' = Some (JNum w) \<and> map_of kvs ''height'' = Some (JNum h) \<and>
    is_safe_integer w \<and> is_safe_integer h \<and> 1 \<le> w \<and> w \<le> MAX_IMAGE_CANVAS_DIMENSION \<and> 1 \<le> h \<and>
    h \<le> MAX_IMAGE_CANVAS_DIMENSION \<and> w * h \<le> MAX_IMAGE_PIXELS"
  using assms by (auto simp: check_pixels_def Let_def chk_Nil chk_integer_Nil split: if_splits)

lemma resource_type:
  assumes "checkResource blake (Some v) path version = []"
  shows "ImageRasterResource v"
proof -
  from assms obtain kvs where v: "v = JObj kvs" by (auto simp: checkResource_def)
  have kind: "\<not> (map_of kvs ''kind'' \<noteq> Some (JStr ''raster''))"
    by (rule notI) (use assms in \<open>simp add: v checkResource_def on_object_def\<close>)
  note c = assms [unfolded v checkResource_def on_object_def option.case json.case if_not_P [OF kind] append_is_Nil_conv optional_Nil]
  obtain ident where ident: "map_of kvs ''id'' = Some (JStr ident)" using c typed_string by blast
  obtain d where d: "map_of kvs ''digest'' = Some (JStr d)" using c typed_string by blast
  have ds: "chk_string True (map_of kvs ''digest'') (path @ ''.digest'') = []" using c by blast
  have "(if chk_string True (map_of kvs ''digest'') (path @ ''.digest'') = []
      then chk (digest_pattern (text_of (map_of kvs ''digest''))) (path @ ''.digest'') else []) = []" using c by blast
  then have "chk (digest_pattern (text_of (map_of kvs ''digest''))) (path @ ''.digest'') = []" unfolding if_P [OF ds] .
  then have d': "take 7 d = ''blake3:''" using d by (simp add: chk_Nil digest_pattern_def)
  obtain b where b: "map_of kvs ''byteSize'' = Some (JNum b)" using c typed_number by blast
  obtain m where m: "map_of kvs ''mediaType'' = Some (JStr m)" "m \<in> set IMAGE_RASTER_MEDIA_TYPES" using c typed_one_of by blast
  obtain w h where wh: "map_of kvs ''width'' = Some (JNum w)" "map_of kvs ''height'' = Some (JNum h)"
    using c pixels_fields by blast
  have s: "map_of kvs ''colorSpace'' = Some (JStr ''srgb'')" "map_of kvs ''channelDepth'' = Some (JNum 8)"
    using c by (simp_all add: chk_literal_Nil)
  obtain a where a: "map_of kvs ''alphaMode'' = Some (JStr a)" "a \<in> set IMAGE_ALPHA_MODES" using c typed_one_of by blast
  have inline: "ts_string i" if "map_of kvs ''inline'' = Some i" for i using c that typed_string by fastforce
  show ?thesis
    unfolding v ImageRasterResource_def using kind ident d d' b m wh s a inline by (simp split: option.split)
qed

lemma record_type:
  assumes "checkRecord x path n f = []" and "\<And>v p. f (Some v) p = [] \<Longrightarrow> P v"
  shows "\<exists>v. x = Some v \<and> ts_map P v"
proof -
  from assms(1) obtain kvs where "x = Some (JObj kvs)" "\<And>kv. kv \<in> set kvs \<Longrightarrow>
      f (Some (snd kv)) (path @ ''['' @ stringify_string (fst kv) @ '']'') = []"
    unfolding checkRecord_Nil by blast
  then show ?thesis using assms(2) by (auto simp: ts_map_def list_all_iff simp del: split_paired_All)
qed

lemma canvas_type:
  assumes "check_canvas kvs version = []"
  shows "ImageCanvas (JObj kvs)"
proof -
  note c = assms [unfolded check_canvas_def append_is_Nil_conv]
  obtain w h where wh: "map_of kvs ''width'' = Some (JNum w)" "map_of kvs ''height'' = Some (JNum h)"
    using c pixels_fields by blast
  have s: "map_of kvs ''colorSpace'' = Some (JStr ''srgb'')" "map_of kvs ''channelDepth'' = Some (JNum 8)"
    using c by (simp_all add: chk_literal_Nil)
  have "\<exists>m. map_of kvs ''compositing'' = Some (JStr m) \<and> m \<in> set [''premultiplied-alpha'', ''linear-premultiplied-alpha'']"
    using c by (cases "version \<ge> 2") (simp_all add: chk_literal_Nil chk_oneOf_Nil)
  then obtain m where m: "map_of kvs ''compositing'' = Some (JStr m)" "m \<in> set [''premultiplied-alpha'', ''linear-premultiplied-alpha'']"
    by blast
  have color: "ts_record [(''primaries'', ts_number), (''transfer'', ts_number), (''range'', ts_number)]
      [(''matrix'', ts_number), (''bit_depth'', ts_number)] v" if "map_of kvs ''color'' = Some v" for v
  proof -
    from c that obtain cs where cs: "v = JObj cs" "chk_exactKeys cs ''$.canvas.color'' [''primaries'', ''transfer'', ''range''] [''matrix'', ''bit_depth''] = []"
      "concat (map (\<lambda>kv. chk_integer (Some (snd kv)) (''$.canvas.color.'' @ fst kv) 0 max_safe_integer) cs) = []"
      by auto
    have "ts_number w" if "map_of cs k = Some w" for k w
      using cs(3) map_of_in_set [OF that] by (fastforce simp: chk_integer_Nil)
    then show ?thesis using cs(1,2) by (auto simp: chk_exactKeys_Nil split: option.split)
  qed
  have background: "ts_array ts_number v \<and> length (items_of (Some v)) = 4" if "map_of kvs ''background'' = Some v" for v
  proof (cases v)
    case (JArr xs)
    have "concat (map (\<lambda>(index, x). chk_integer (Some x) (''$.canvas.background['' @ show_nat index @ '']'') 0 65535) (enumerate 0 xs)) = [] \<longleftrightarrow>
        (\<forall>x \<in> set xs. \<exists>r. Some x = Some (JNum r) \<and> is_safe_integer r \<and> 0 \<le> r \<and> r \<le> 65535)"
      by (rule concat_enumerate_Nil) (simp add: chk_integer_Nil)
    then show ?thesis using c that JArr by (auto simp: ts_array_def list_all_iff chk_Nil)
  qed (use c that in \<open>simp_all add: chk_array_Nil\<close>)
  show ?thesis
    unfolding ImageCanvas_def using wh s m color background by (simp split: option.split)
qed

lemma allocation_type:
  assumes "check_allocation kvs = []"
  shows "ImageAllocation (JObj kvs)"
proof -
  note c = assms [unfolded check_allocation_def append_is_Nil_conv optional_Nil]
  have "ts_map ts_number v" if "map_of kvs ''actorCursors'' = Some v" for v
  proof -
    from c that obtain cs where cs: "v = JObj cs" "\<forall>x \<in> set cs. (case x of (actor, cursor) \<Rightarrow>
        (let path = ''$.allocation.actorCursors['' @ stringify_string actor @ '']''
         in chk (isValidActorId actor) path @ chk_integer (Some cursor) path 0 max_safe_integer)) = []"
      unfolding concat_eq_Nil_conv on_object_Nil set_map ball_simps by blast
    have "ts_number (snd kv)" if "kv \<in> set cs" for kv
      using bspec [OF cs(2) that] typed_number by (cases kv) (fastforce simp: Let_def)
    then show ?thesis using cs(1) by (simp add: ts_map_def list_all_iff)
  qed
  moreover obtain r where "map_of kvs ''nextOrdinal'' = Some (JNum r)" using c typed_number by blast
  ultimately show ?thesis by (simp add: ImageAllocation_def split: option.split)
qed

lemma document_type:
  assumes "validateImageDocumentShape blake v version = []"
  shows "ImageDocument v"
proof -
  from assms obtain kvs where v: "v = JObj kvs" by (auto simp: validateImageDocumentShape_def)
  note c = assms [unfolded v validateImageDocumentShape_def on_object_def [of "Some (JObj kvs)"] option.case json.case append_is_Nil_conv]
  have f: "map_of kvs ''format'' = Some (JStr IMAGE_DOCUMENT_FORMAT)" "map_of kvs ''formatVersion'' = Some (JNum (of_nat version))"
    using c by (simp_all add: chk_literal_Nil)
  obtain l where l: "map_of kvs ''lineage'' = Some (JStr l)" using c typed_string by blast
  obtain cv where cv: "map_of kvs ''canvas'' = Some (JObj cv)" "ImageCanvas (JObj cv)" using c canvas_type by auto
  obtain al where al: "map_of kvs ''allocation'' = Some (JObj al)" "ImageAllocation (JObj al)" using c allocation_type by auto
  obtain r where r: "map_of kvs ''rootLayerIds'' = Some r" "ts_array ts_string r" using c typed_ids by blast
  obtain ls where ls: "map_of kvs ''layers'' = Some ls" "ts_map ImageLayer ls"
    using c record_type [where P = ImageLayer] layer_type by blast
  obtain ms where ms: "map_of kvs ''masks'' = Some ms" "ts_map ImageRasterMask ms"
    using c record_type [where P = ImageRasterMask] mask_type by blast
  obtain rs where rs: "map_of kvs ''resources'' = Some rs" "ts_map ImageRasterResource rs"
    using c record_type [where P = ImageRasterResource] resource_type by blast
  have ext: "ts_map ts_any e" if "map_of kvs ''extensions'' = Some e" for e
    using c that by (auto simp: chk_object_Nil is_object_iff ts_map_def list_all_iff)
  show ?thesis
    unfolding v ImageDocument_def using f l cv al r ls ms rs ext by (simp split: option.split)
qed

text \<open>Bounds an accepted document satisfies beyond its type.\<close>

lemma document_canvas_pixels:
  assumes "validateImageDocumentShape blake v version = []"
  shows "\<exists>kvs cv w h. v = JObj kvs \<and> map_of kvs ''canvas'' = Some (JObj cv) \<and> map_of cv ''width'' = Some (JNum w) \<and>
    map_of cv ''height'' = Some (JNum h) \<and> is_safe_integer w \<and> is_safe_integer h \<and> 1 \<le> w \<and> 1 \<le> h \<and> w * h \<le> MAX_IMAGE_PIXELS"
proof -
  from assms obtain kvs where v: "v = JObj kvs" by (auto simp: validateImageDocumentShape_def)
  note c = assms [unfolded v validateImageDocumentShape_def on_object_def [of "Some (JObj kvs)"] option.case json.case append_is_Nil_conv]
  obtain cv where cv: "map_of kvs ''canvas'' = Some (JObj cv)" "check_canvas cv version = []" using c by auto
  then show ?thesis using v pixels_fields [of cv "''$.canvas''"] by (auto simp: check_canvas_def)
qed

end
