(* ===== verification/ImageInvariants.thy ===== *)
theory ImageInvariants
  imports ImageTypes Transaction
begin

text \<open>
  The cross-reference check of image documents: \<open>packages/core/src/image-document/invariants.ts\<close>.

  It runs on documents the shape check has accepted. Every check returns the diagnostics it pushes, in the
  order of the code; a diagnostic is its severity and code, the text is not modelled.

  The tree walk recurses at most 65 levels deep, since it stops below depth 64: \<open>visit n\<close> is the walk at
  depth \<open>65 - n\<close>, and \<open>visit 0\<close> is the depth the code reports.
\<close>

section \<open>Identities and allocation\<close>

definition checkMapIdentity :: "(string \<times> json) list \<Rightarrow> diagnostic list" where
  "checkMapIdentity rec_map =
     concat (map (\<lambda>(key, v). if text_of (field v ''id'') \<noteq> key then [error_diag ''image.id.keyMismatch''] else []) rec_map)"

definition number_nat :: "json option \<Rightarrow> nat" where
  "number_nat v = nat \<lfloor>number_of v\<rfloor>"

definition nextOrdinal :: "json \<Rightarrow> nat" where
  "nextOrdinal document = number_nat (Option.bind (field document ''allocation'') (\<lambda>a. field a ''nextOrdinal''))"

definition actorCursors :: "json \<Rightarrow> (string \<times> nat) list option" where
  "actorCursors document =
     (case Option.bind (field document ''allocation'') (\<lambda>a. field a ''actorCursors'') of
        Some (JObj kvs) \<Rightarrow> Some (map (\<lambda>kv. (fst kv, number_nat (Some (snd kv)))) kvs)
      | _ \<Rightarrow> None)"

definition allocation_cursor :: "json \<Rightarrow> string option \<Rightarrow> nat" where
  "allocation_cursor document actor =
     (case actor of None \<Rightarrow> nextOrdinal document | Some a \<Rightarrow> actorCursorOf (actorCursors document) a)"

definition coordinate :: "string option \<Rightarrow> nat \<Rightarrow> string" where
  "coordinate actor ordinal = (case actor of None \<Rightarrow> [] | Some a \<Rightarrow> a) @ [CHR 0x00] @ show_nat ordinal"

fun check_ids :: "json \<Rightarrow> (string \<times> string) list \<Rightarrow> string list \<Rightarrow> diagnostic list" where
  "check_ids document [] seen = []"
| "check_ids document ((ident, prefix) # rest) seen =
     (case parseAllocatedId ident of
        None \<Rightarrow> error_diag ''image.id.invalid'' # check_ids document rest seen
      | Some (p, ordinal, actor) \<Rightarrow>
          if p \<noteq> prefix then error_diag ''image.id.invalid'' # check_ids document rest seen
          else
            (if ordinal \<ge> allocation_cursor document actor then [error_diag ''image.id.aboveCursor''] else []) @
            (if coordinate actor ordinal \<in> set seen
             then error_diag ''image.id.reusedOrdinal'' # check_ids document rest seen
             else check_ids document rest (coordinate actor ordinal # seen)))"

definition prefixed_ids :: "json \<Rightarrow> (string \<times> string) list" where
  "prefixed_ids document =
     map (\<lambda>kv. (fst kv, ''l'')) (layers_of document) @ map (\<lambda>kv. (fst kv, ''m'')) (masks_of document) @
     map (\<lambda>kv. (fst kv, ''r'')) (resources_of document)"

definition checkAllocatedIds :: "json \<Rightarrow> diagnostic list" where
  "checkAllocatedIds document = check_ids document (prefixed_ids document) []"

section \<open>The layer tree\<close>

definition getLayer :: "json \<Rightarrow> string \<Rightarrow> json option" where
  "getLayer document ident = map_of (layers_of document) ident"

definition is_group_layer :: "json \<Rightarrow> bool" where
  "is_group_layer layer \<longleftrightarrow> layer_kind layer = ''group''"

type_synonym counts = "string \<Rightarrow> nat"

definition countParent :: "json \<Rightarrow> string \<Rightarrow> counts \<times> diagnostic list \<Rightarrow> counts \<times> diagnostic list" where
  "countParent document ident st =
     (case st of (counts, ds) \<Rightarrow>
        if getLayer document ident = None then (counts, ds @ [error_diag ''image.layer.dangling''])
        else (counts(ident := Suc (counts ident)), ds))"

fun count_ids :: "json \<Rightarrow> string list \<Rightarrow> string list \<Rightarrow> counts \<times> diagnostic list \<Rightarrow> counts \<times> diagnostic list" where
  "count_ids document seen [] st = st"
| "count_ids document seen (ident # ids) (counts, ds) =
     count_ids document (ident # seen) ids
       (countParent document ident
         (counts, ds @ (if ident \<in> set seen then [error_diag ''image.layer.duplicateChild''] else [])))"

definition check_clipping :: "json \<Rightarrow> string list \<Rightarrow> diagnostic list" where
  "check_clipping document ids =
     (case orderedImageLayerIds document ids of
        [] \<Rightarrow> []
      | first # _ \<Rightarrow>
          if Option.bind (getLayer document first) (\<lambda>l. field l ''clipping'') = Some (JStr ''clip-to-previous'')
          then [error_diag ''image.layer.clippingTarget''] else [])"

definition countList :: "json \<Rightarrow> string list \<Rightarrow> counts \<times> diagnostic list \<Rightarrow> counts \<times> diagnostic list" where
  "countList document ids st =
     (case count_ids document [] ids st of (counts, ds) \<Rightarrow> (counts, ds @ check_clipping document ids))"

definition parent_lists :: "json \<Rightarrow> string list list" where
  "parent_lists document =
     rootLayerIds document # map (\<lambda>kv. childLayerIds (snd kv)) (filter (\<lambda>kv. is_group_layer (snd kv)) (layers_of document))"

definition count_all :: "json \<Rightarrow> counts \<times> diagnostic list" where
  "count_all document = fold (countList document) (parent_lists document) (\<lambda>_. 0, [])"

datatype mark = Visiting | Visited

record walk =
  wk_state :: "string \<Rightarrow> mark option"
  wk_rooted :: "string list"
  wk_diags :: "diagnostic list"

definition visit_layer ::
  "(string \<Rightarrow> walk \<Rightarrow> walk) option \<Rightarrow> json \<Rightarrow> bool \<Rightarrow> string \<Rightarrow> walk \<Rightarrow> walk" where
  "visit_layer deeper document fromRoot ident w =
     (case getLayer document ident of
        None \<Rightarrow> w
      | Some layer \<Rightarrow>
          if wk_state w ident = Some Visiting then w\<lparr>wk_diags := wk_diags w @ [error_diag ''image.layer.cycle'']\<rparr>
          else if wk_state w ident = Some Visited then
            (if fromRoot then w\<lparr>wk_rooted := ident # wk_rooted w\<rparr> else w)
          else
            (let w1 = w\<lparr>wk_state := (wk_state w)(ident \<mapsto> Visiting)\<rparr>;
                 w2 = (if fromRoot then w1\<lparr>wk_rooted := ident # wk_rooted w1\<rparr> else w1)
             in case deeper of
                  None \<Rightarrow>
                    w2\<lparr>wk_diags := wk_diags w2 @ [error_diag ''image.layer.depth''],
                       wk_state := (wk_state w2)(ident \<mapsto> Visited)\<rparr>
                | Some visit_child \<Rightarrow>
                    (let w3 = (if is_group_layer layer then fold visit_child (childLayerIds layer) w2 else w2)
                     in w3\<lparr>wk_state := (wk_state w3)(ident \<mapsto> Visited)\<rparr>)))"

primrec visit :: "nat \<Rightarrow> json \<Rightarrow> bool \<Rightarrow> string \<Rightarrow> walk \<Rightarrow> walk" where
  "visit 0 document fromRoot = visit_layer None document fromRoot"
| "visit (Suc n) document fromRoot = visit_layer (Some (visit n document fromRoot)) document fromRoot"

definition visit_rest :: "json \<Rightarrow> string \<Rightarrow> walk \<Rightarrow> walk" where
  "visit_rest document ident w =
     (let w1 = (if ident \<notin> set (wk_rooted w) then w\<lparr>wk_diags := wk_diags w @ [error_diag ''image.layer.unreachable'']\<rparr> else w)
      in if wk_state w1 ident = None then visit MAX_IMAGE_LAYER_DEPTH document False ident w1 else w1)"

definition walk_roots :: "json \<Rightarrow> walk" where
  "walk_roots document =
     fold (visit MAX_IMAGE_LAYER_DEPTH document True) (rootLayerIds document)
       \<lparr>wk_state = (\<lambda>_. None), wk_rooted = [], wk_diags = []\<rparr>"

definition checkLayerTree :: "json \<Rightarrow> diagnostic list" where
  "checkLayerTree document =
     (let (counts, ds) = count_all document;
          parents = concat (map (\<lambda>kv. if counts (fst kv) \<noteq> 1 then [error_diag ''image.layer.parentCount''] else [])
            (layers_of document));
          w = fold (visit_rest document) (map fst (layers_of document)) (walk_roots document)
      in ds @ parents @ wk_diags w)"

section \<open>Masks and resources\<close>

definition rectFits :: "json \<Rightarrow> json \<Rightarrow> bool" where
  "rectFits rect resource \<longleftrightarrow>
     number_of (field rect ''x'') + number_of (field rect ''width'') \<le> number_of (field resource ''width'') \<and>
     number_of (field rect ''y'') + number_of (field rect ''height'') \<le> number_of (field resource ''height'')"

definition checkResourceReference :: "json \<Rightarrow> json \<Rightarrow> diagnostic list" where
  "checkResourceReference document v =
     (case map_of (resources_of document) (text_of (field v ''resourceId'')) of
        None \<Rightarrow> [error_diag ''image.resource.dangling'']
      | Some resource \<Rightarrow>
          if rectFits (case field v ''sourceRect'' of Some r \<Rightarrow> r | None \<Rightarrow> JNull) resource then []
          else [error_diag ''image.resource.sourceRect''])"

fun check_mask_ids ::
  "json \<Rightarrow> json \<Rightarrow> string list \<Rightarrow> string list \<Rightarrow> counts \<times> diagnostic list \<Rightarrow> counts \<times> diagnostic list" where
  "check_mask_ids document layer seen [] st = st"
| "check_mask_ids document layer seen (maskId # rest) (owners, ds) =
     (let ds1 = ds @ (if maskId \<in> set seen then [error_diag ''image.mask.duplicate''] else [])
      in case map_of (masks_of document) maskId of
           None \<Rightarrow> check_mask_ids document layer (maskId # seen) rest (owners, ds1 @ [error_diag ''image.mask.dangling''])
         | Some msk \<Rightarrow>
             check_mask_ids document layer (maskId # seen) rest
               (owners(maskId := Suc (owners maskId)),
                ds1 @ (if text_of (field msk ''ownerLayerId'') \<noteq> text_of (field layer ''id'')
                       then [error_diag ''image.mask.ownerMismatch''] else [])))"

definition check_layer_refs :: "json \<Rightarrow> string \<times> json \<Rightarrow> counts \<times> diagnostic list \<Rightarrow> counts \<times> diagnostic list" where
  "check_layer_refs document kv st =
     (case check_mask_ids document (snd kv) [] (maskIds (snd kv)) st of (owners, ds) \<Rightarrow>
        (owners, ds @ (if layer_kind (snd kv) = ''raster'' then checkResourceReference document (snd kv) else [])))"

definition check_mask_refs :: "json \<Rightarrow> counts \<Rightarrow> json \<Rightarrow> diagnostic list" where
  "check_mask_refs document owners msk =
     (if owners (text_of (field msk ''id'')) \<noteq> 1 then [error_diag ''image.mask.ownerCount''] else []) @
     (if getLayer document (text_of (field msk ''ownerLayerId'')) = None
      then [error_diag ''image.mask.danglingOwner''] else []) @
     checkResourceReference document msk"

definition check_alpha :: "json \<Rightarrow> diagnostic list" where
  "check_alpha resource =
     (if field resource ''mediaType'' = Some (JStr ''image/jpeg'') \<and> field resource ''alphaMode'' \<noteq> Some (JStr ''opaque'')
      then [error_diag ''image.resource.alphaMode''] else [])"

definition checkMasksAndResources :: "json \<Rightarrow> diagnostic list" where
  "checkMasksAndResources document =
     (let (owners, ds) = fold (check_layer_refs document) (layers_of document) (\<lambda>_. 0, [])
      in ds @ concat (map (\<lambda>kv. check_mask_refs document owners (snd kv)) (masks_of document)) @
         concat (map (\<lambda>kv. check_alpha (snd kv)) (resources_of document)))"

definition checkImageDocument :: "json \<Rightarrow> diagnostic list" where
  "checkImageDocument document =
     checkMapIdentity (layers_of document) @ checkMapIdentity (masks_of document) @
     checkMapIdentity (resources_of document) @ checkAllocatedIds document @ checkLayerTree document @
     checkMasksAndResources document"

end
