(* ===== verification/ImageTree.thy ===== *)
theory ImageTree
  imports ImageInvariants
begin

text \<open>
  What a document without diagnostics looks like: the layers form a forest. Every layer is reached from
  the root list along exactly one path, of at most 64 layers, so there is no cycle, no shared layer and no
  unreachable one.
\<close>

section \<open>Paths\<close>

definition children :: "json \<Rightarrow> string \<Rightarrow> string list" where
  "children d x = (case getLayer d x of Some l \<Rightarrow> if is_group_layer l then childLayerIds l else [] | None \<Rightarrow> [])"

text \<open>A path from the root list, root first.\<close>

inductive layer_path :: "json \<Rightarrow> string list \<Rightarrow> bool" for d :: json where
  path_root: "x \<in> set (rootLayerIds d) \<Longrightarrow> layer_path d [x]"
| path_child: "layer_path d p \<Longrightarrow> c \<in> set (children d (last p)) \<Longrightarrow> layer_path d (p @ [c])"

lemma layer_path_snocE [consumes 1, case_names root child]:
  assumes "layer_path d (p @ [c])"
  obtains "p = []" and "c \<in> set (rootLayerIds d)" | "layer_path d p" and "c \<in> set (children d (last p))"
  using assms by (cases rule: layer_path.cases) auto

lemma layer_path_ne: "layer_path d p \<Longrightarrow> p \<noteq> []"
  by (induction rule: layer_path.induct) simp_all

section \<open>Counting parents\<close>

definition in_layers :: "json \<Rightarrow> string \<Rightarrow> bool" where
  "in_layers d x \<longleftrightarrow> getLayer d x \<noteq> None"

lemma count_ids_spec:
  "count_ids d seen ids (c, ds) = (c', ds') \<Longrightarrow>
   \<exists>e. ds' = ds @ e \<and> (e = [] \<longrightarrow> distinct ids \<and> set ids \<inter> set seen = {} \<and> (\<forall>x \<in> set ids. in_layers d x) \<and>
     (\<forall>x. c' x = c x + count_list ids x))"
proof (induction ids arbitrary: seen c ds)
  case (Cons i ids)
  let ?dup = "if i \<in> set seen then [error_diag ''image.layer.duplicateChild''] else []"
  show ?case
  proof (cases "getLayer d i = None")
    case True
    then obtain e where "ds' = (ds @ ?dup @ [error_diag ''image.layer.dangling'']) @ e"
      using Cons.IH [of "i # seen" c "ds @ ?dup @ [error_diag ''image.layer.dangling'']"] Cons.prems
      by (auto simp: countParent_def)
    then show ?thesis by (intro exI [of _ "?dup @ [error_diag ''image.layer.dangling''] @ e"]) simp
  next
    case False
    then obtain l where "getLayer d i = Some l" by auto
    then have "count_ids d (i # seen) ids (c(i := Suc (c i)), ds @ ?dup) = (c', ds')"
      using Cons.prems by (simp add: countParent_def)
    from Cons.IH [OF this] obtain e where e: "ds' = (ds @ ?dup) @ e" "e = [] \<longrightarrow> distinct ids \<and> set ids \<inter> set (i # seen) = {} \<and>
        (\<forall>x \<in> set ids. in_layers d x) \<and> (\<forall>x. c' x = (c(i := Suc (c i))) x + count_list ids x)" by blast
    then show ?thesis
      using False by (intro exI [of _ "?dup @ e"]) (auto simp: in_layers_def)
  qed
qed simp

lemma countList_spec:
  "countList d ids (c, ds) = (c', ds') \<Longrightarrow>
   \<exists>e. ds' = ds @ e \<and> (e = [] \<longrightarrow> distinct ids \<and> (\<forall>x \<in> set ids. in_layers d x) \<and> (\<forall>x. c' x = c x + count_list ids x))"
  using count_ids_spec [of d "[]" ids c ds] by (fastforce simp: countList_def split: prod.splits)

lemma fold_countList:
  "fold (countList d) ls (c, ds) = (c', ds') \<Longrightarrow>
   \<exists>e. ds' = ds @ e \<and> (e = [] \<longrightarrow> (\<forall>ids \<in> set ls. distinct ids \<and> (\<forall>x \<in> set ids. in_layers d x)) \<and>
     (\<forall>x. c' x = c x + (\<Sum>ids \<leftarrow> ls. count_list ids x)))"
proof (induction ls arbitrary: c ds)
  case (Cons ids ls)
  obtain c1 ds1 where s: "countList d ids (c, ds) = (c1, ds1)" by (cases "countList d ids (c, ds)")
  obtain e1 where e1: "ds1 = ds @ e1" "e1 = [] \<longrightarrow> distinct ids \<and> (\<forall>x \<in> set ids. in_layers d x) \<and> (\<forall>x. c1 x = c x + count_list ids x)"
    using countList_spec [OF s] by blast
  obtain e2 where e2: "ds' = ds1 @ e2" "e2 = [] \<longrightarrow> (\<forall>ids \<in> set ls. distinct ids \<and> (\<forall>x \<in> set ids. in_layers d x)) \<and>
     (\<forall>x. c' x = c1 x + (\<Sum>ids \<leftarrow> ls. count_list ids x))"
    using Cons.IH [of c1 ds1] Cons.prems s by auto
  show ?case using e1 e2 by (intro exI [of _ "e1 @ e2"]) auto
qed simp

section \<open>The walk\<close>

text \<open>Walking from the roots marks only layers it has put on the rooted list.\<close>

definition marks_rooted :: "walk \<Rightarrow> bool" where
  "marks_rooted w \<longleftrightarrow> (\<forall>x. wk_state w x \<noteq> None \<longrightarrow> x \<in> set (wk_rooted w))"

definition short_path :: "json \<Rightarrow> string \<Rightarrow> bool" where
  "short_path d x \<longleftrightarrow> (\<exists>p. layer_path d p \<and> last p = x \<and> length p \<le> MAX_IMAGE_LAYER_DEPTH)"

text \<open>A step of the walk extends the diagnostics; if it adds none, what it roots has a short path.\<close>

definition walk_step :: "json \<Rightarrow> walk \<Rightarrow> walk \<Rightarrow> bool" where
  "walk_step d w w' \<longleftrightarrow> set (wk_rooted w) \<subseteq> set (wk_rooted w') \<and> (\<exists>e. wk_diags w' = wk_diags w @ e \<and>
     (marks_rooted w \<longrightarrow> marks_rooted w' \<and>
       (e = [] \<longrightarrow> (\<forall>x \<in> set (wk_rooted w'). x \<in> set (wk_rooted w) \<or> short_path d x))))"

lemma walk_step_refl: "walk_step d w w"
  by (simp add: walk_step_def)

lemma walk_step_trans: "walk_step d w1 w2 \<Longrightarrow> walk_step d w2 w3 \<Longrightarrow> walk_step d w1 w3"
proof -
  assume a: "walk_step d w1 w2" "walk_step d w2 w3"
  from a(1) obtain e1 where e1: "wk_diags w2 = wk_diags w1 @ e1" "marks_rooted w1 \<longrightarrow> marks_rooted w2 \<and>
      (e1 = [] \<longrightarrow> (\<forall>x \<in> set (wk_rooted w2). x \<in> set (wk_rooted w1) \<or> short_path d x))" unfolding walk_step_def by blast
  from a(2) obtain e2 where e2: "wk_diags w3 = wk_diags w2 @ e2" "marks_rooted w2 \<longrightarrow> marks_rooted w3 \<and>
      (e2 = [] \<longrightarrow> (\<forall>x \<in> set (wk_rooted w3). x \<in> set (wk_rooted w2) \<or> short_path d x))" unfolding walk_step_def by blast
  have "set (wk_rooted w1) \<subseteq> set (wk_rooted w3)" using a unfolding walk_step_def by blast
  then show "walk_step d w1 w3"
    unfolding walk_step_def using e1 e2 by (intro conjI exI [of _ "e1 @ e2"]) auto
qed

lemma fold_walk_step: "(\<And>x w. x \<in> set xs \<Longrightarrow> walk_step d w (f x w)) \<Longrightarrow> walk_step d w (fold f xs w)"
  by (induction xs arbitrary: w) (auto intro: walk_step_refl walk_step_trans)

lemma visit_layer_step:
  assumes p: "layer_path d (p @ [x])" and len: "Suc (length p) \<le> MAX_IMAGE_LAYER_DEPTH \<or> deeper = None"
    and deeper: "\<And>f c w. deeper = Some f \<Longrightarrow> c \<in> set (children d x) \<Longrightarrow> walk_step d w (f c w)"
  shows "walk_step d w (visit_layer deeper d True x w)"
proof (cases "getLayer d x")
  case None
  then show ?thesis by (simp add: visit_layer_def walk_step_refl)
next
  case (Some layer)
  show ?thesis
  proof (cases "wk_state w x")
    case None
    define w2 where "w2 = w\<lparr>wk_state := (wk_state w)(x \<mapsto> Visiting), wk_rooted := x # wk_rooted w\<rparr>"
    have marks: "marks_rooted w \<longrightarrow> marks_rooted w2" by (auto simp: marks_rooted_def w2_def)
    show ?thesis
    proof (cases deeper)
      case None
      have "visit_layer deeper d True x w =
          w2\<lparr>wk_diags := wk_diags w2 @ [error_diag ''image.layer.depth''], wk_state := (wk_state w2)(x \<mapsto> Visited)\<rparr>"
        using Some \<open>wk_state w x = None\<close> None by (simp add: visit_layer_def w2_def Let_def)
      then show ?thesis by (auto simp: walk_step_def marks_rooted_def w2_def)
    next
      case (Some f)
      define w3 where "w3 = (if is_group_layer layer then fold f (childLayerIds layer) w2 else w2)"
      have v: "visit_layer deeper d True x w = w3\<lparr>wk_state := (wk_state w3)(x \<mapsto> Visited)\<rparr>"
        using Some \<open>getLayer d x = Some layer\<close> \<open>wk_state w x = None\<close> by (simp add: visit_layer_def w2_def w3_def Let_def)
      have "short_path d x"
        unfolding short_path_def using p len Some by (intro exI [of _ "p @ [x]"]) simp
      then have s2: "walk_step d w w2" using marks by (auto simp: walk_step_def w2_def)
      have "children d x = (if is_group_layer layer then childLayerIds layer else [])"
        using \<open>getLayer d x = Some layer\<close> by (simp add: children_def)
      then have s3: "walk_step d w2 w3"
        unfolding w3_def using deeper [OF Some] by (auto intro!: fold_walk_step walk_step_refl)
      then have "x \<in> set (wk_rooted w3)" by (auto simp: walk_step_def w2_def)
      then have "walk_step d w3 (w3\<lparr>wk_state := (wk_state w3)(x \<mapsto> Visited)\<rparr>)"
        by (auto simp: walk_step_def marks_rooted_def)
      then show ?thesis unfolding v using s2 s3 by (blast intro: walk_step_trans)
    qed
  next
    case (Some m)
    then have "marks_rooted w \<longrightarrow> x \<in> set (wk_rooted w)" by (auto simp: marks_rooted_def)
    then show ?thesis
      using Some \<open>getLayer d x = Some layer\<close> by (cases m) (auto simp: visit_layer_def walk_step_def marks_rooted_def)
  qed
qed

lemma visit_step: "layer_path d (p @ [x]) \<Longrightarrow> length p + n = MAX_IMAGE_LAYER_DEPTH \<Longrightarrow> walk_step d w (visit n d True x w)"
proof (induction n arbitrary: p x w)
  case 0
  then show ?case unfolding visit.simps by (intro visit_layer_step) simp_all
next
  case (Suc n)
  have "walk_step d w (visit n d True c w)" if "c \<in> set (children d x)" for c w
    using Suc.IH [of "p @ [x]" c w] Suc.prems path_child [of d "p @ [x]" c] that by simp
  then show ?case
    unfolding visit.simps using Suc.prems by (intro visit_layer_step) auto
qed

text \<open>The second walk never touches the rooted list.\<close>

lemma visit_layer_rest:
  assumes "\<And>f c w. deeper = Some f \<Longrightarrow> wk_rooted (f c w) = wk_rooted w \<and> (\<exists>e. wk_diags (f c w) = wk_diags w @ e)"
  shows "wk_rooted (visit_layer deeper d False x w) = wk_rooted w \<and> (\<exists>e. wk_diags (visit_layer deeper d False x w) = wk_diags w @ e)"
proof -
  have fold: "wk_rooted (fold f xs w) = wk_rooted w \<and> (\<exists>e. wk_diags (fold f xs w) = wk_diags w @ e)" if "deeper = Some f" for f xs w
    using assms [OF that] by (induction xs arbitrary: w) (auto, metis append.assoc)
  show ?thesis
  proof (cases "getLayer d x")
    case (Some layer)
    show ?thesis
    proof (cases "wk_state w x")
      case None
      let ?w = "w\<lparr>wk_state := (wk_state w)(x \<mapsto> Visiting)\<rparr>"
      show ?thesis
        using Some None fold [of _ "childLayerIds layer" ?w]
        by (cases deeper) (auto simp: visit_layer_def Let_def)
    next
      case (Some m)
      then show ?thesis using \<open>getLayer d x = Some layer\<close> by (cases m) (simp_all add: visit_layer_def)
    qed
  qed (simp add: visit_layer_def)
qed

lemma visit_rest_diags:
  "wk_rooted (visit n d False x w) = wk_rooted w \<and> (\<exists>e. wk_diags (visit n d False x w) = wk_diags w @ e)"
proof (induction n arbitrary: x w)
  case 0
  then show ?case unfolding visit.simps by (rule visit_layer_rest) simp
next
  case (Suc n)
  show ?case unfolding visit.simps by (rule visit_layer_rest) (use Suc in auto)
qed

lemma fold_visit_rest:
  "wk_rooted (fold (visit_rest d) xs w) = wk_rooted w \<and>
   (\<exists>e. wk_diags (fold (visit_rest d) xs w) = wk_diags w @ e \<and> (e = [] \<longrightarrow> set xs \<subseteq> set (wk_rooted w)))"
proof (induction xs arbitrary: w)
  case (Cons x xs)
  let ?w = "visit_rest d x w"
  have w: "wk_rooted ?w = wk_rooted w" using visit_rest_diags by (simp add: visit_rest_def Let_def)
  have "\<exists>e. wk_diags ?w = wk_diags w @ e \<and> (e = [] \<longrightarrow> x \<in> set (wk_rooted w))"
  proof (cases "x \<in> set (wk_rooted w)")
    case True
    then show ?thesis using visit_rest_diags [of MAX_IMAGE_LAYER_DEPTH d x w] by (simp add: visit_rest_def Let_def)
  next
    case False
    let ?u = "w\<lparr>wk_diags := wk_diags w @ [error_diag ''image.layer.unreachable'']\<rparr>"
    obtain e where "wk_diags (visit MAX_IMAGE_LAYER_DEPTH d False x ?u) = wk_diags ?u @ e"
      using visit_rest_diags [of MAX_IMAGE_LAYER_DEPTH d x ?u] by blast
    then show ?thesis using False by (simp add: visit_rest_def Let_def)
  qed
  then obtain e where "wk_diags ?w = wk_diags w @ e" "e = [] \<longrightarrow> x \<in> set (wk_rooted w)" by blast
  moreover obtain e2 where "wk_diags (fold (visit_rest d) xs ?w) = wk_diags ?w @ e2" "e2 = [] \<longrightarrow> set xs \<subseteq> set (wk_rooted ?w)"
    using Cons.IH by blast
  ultimately show ?case using Cons.IH [of ?w] w by (auto intro!: exI [of _ "e @ e2"])
qed simp

section \<open>A clean document\<close>

text \<open>The facts the tree check establishes when it pushes no diagnostic.\<close>

definition parent_count :: "json \<Rightarrow> string \<Rightarrow> nat" where
  "parent_count d x = (\<Sum>ids \<leftarrow> parent_lists d. count_list ids x)"

definition tree_clean :: "json \<Rightarrow> bool" where
  "tree_clean d \<longleftrightarrow> (\<forall>ids \<in> set (parent_lists d). distinct ids \<and> (\<forall>x \<in> set ids. in_layers d x)) \<and>
     (\<forall>x. in_layers d x \<longrightarrow> parent_count d x = 1 \<and> short_path d x)"

lemma in_layers_key: "in_layers d x \<longleftrightarrow> x \<in> fst ` set (layers_of d)"
  by (simp add: in_layers_def getLayer_def map_of_eq_None_iff)

lemma checkLayerTree_clean:
  assumes "checkLayerTree d = []"
  shows "tree_clean d"
proof -
  obtain c ds where c: "count_all d = (c, ds)" by (cases "count_all d")
  let ?w0 = "\<lparr>wk_state = (\<lambda>_. None), wk_rooted = [], wk_diags = []\<rparr>"
  let ?keys = "map fst (layers_of d)"
  from assms c have ds: "ds = []" and one: "\<forall>kv \<in> set (layers_of d). c (fst kv) = 1"
    and w: "wk_diags (fold (visit_rest d) ?keys (walk_roots d)) = []"
    by (auto simp: checkLayerTree_def Let_def split: if_splits)
  have lists: "\<forall>ids \<in> set (parent_lists d). distinct ids \<and> (\<forall>x \<in> set ids. in_layers d x)"
    and counts: "\<forall>x. c x = parent_count d x"
    using fold_countList [OF c [unfolded count_all_def]] ds by (auto simp: parent_count_def)
  obtain e where e: "wk_diags (walk_roots d) @ e = []" "e = [] \<longrightarrow> set ?keys \<subseteq> set (wk_rooted (walk_roots d))"
    using fold_visit_rest [of d ?keys "walk_roots d"] w by metis
  then have rooted: "set ?keys \<subseteq> set (wk_rooted (walk_roots d))" and diags: "wk_diags (walk_roots d) = []" by simp_all
  have "walk_step d ?w0 (walk_roots d)"
    unfolding walk_roots_def
  proof (rule fold_walk_step)
    fix x w assume "x \<in> set (rootLayerIds d)"
    then show "walk_step d w (visit MAX_IMAGE_LAYER_DEPTH d True x w)"
      using visit_step [of d "[]" x MAX_IMAGE_LAYER_DEPTH w] path_root by simp
  qed
  then have "short_path d x" if "x \<in> set ?keys" for x
    using that rooted diags by (auto simp: walk_step_def marks_rooted_def)
  then show ?thesis
    using lists counts one by (auto simp: tree_clean_def in_layers_key)
qed

section \<open>Unique paths\<close>

lemma sum_list_two:
  fixes f :: "'a \<Rightarrow> nat"
  assumes "i < length xs" "j < length xs" "i < j"
  shows "f (xs ! i) + f (xs ! j) \<le> sum_list (map f xs)"
  using assms
proof (induction xs arbitrary: i j)
  case (Cons x xs)
  from Cons.prems obtain j' where j: "j = Suc j'" "j' < length xs" by (cases j) auto
  show ?case
  proof (cases i)
    case 0
    have "f (xs ! j') \<le> sum_list (map f xs)" using j(2) by (simp add: member_le_sum_list)
    then show ?thesis using 0 j by simp
  next
    case (Suc i')
    then show ?thesis using Cons.IH [of i' j'] Cons.prems j by simp
  qed
qed simp

lemma count_list_pos: "x \<in> set xs \<Longrightarrow> 1 \<le> count_list xs x"
  by (induction xs) auto

lemma one_parent_list:
  assumes "tree_clean d" and "in_layers d x" and "i < length (parent_lists d)" and "j < length (parent_lists d)"
    and "x \<in> set (parent_lists d ! i)" and "x \<in> set (parent_lists d ! j)"
  shows "i = j"
proof (rule ccontr)
  assume "i \<noteq> j"
  then consider "i < j" | "j < i" by linarith
  then have "count_list (parent_lists d ! i) x + count_list (parent_lists d ! j) x \<le> parent_count d x"
    using sum_list_two [of i "parent_lists d" j "\<lambda>ids. count_list ids x"]
      sum_list_two [of j "parent_lists d" i "\<lambda>ids. count_list ids x"] assms(3,4)
    by cases (simp_all add: parent_count_def)
  moreover have "parent_count d x = 1" using assms(1,2) by (simp add: tree_clean_def)
  ultimately show False using count_list_pos [OF assms(5)] count_list_pos [OF assms(6)] by linarith
qed

text \<open>The children of a layer are one of the parent lists after the first.\<close>

lemma children_list:
  assumes "c \<in> set (children d a)"
  shows "\<exists>k l. k < length (filter (\<lambda>kv. is_group_layer (snd kv)) (layers_of d)) \<and>
    filter (\<lambda>kv. is_group_layer (snd kv)) (layers_of d) ! k = (a, l) \<and> parent_lists d ! Suc k = children d a"
proof -
  from assms obtain l where l: "getLayer d a = Some l" "is_group_layer l" "children d a = childLayerIds l"
    by (cases "getLayer d a") (auto simp: children_def split: if_splits)
  then have "(a, l) \<in> set (filter (\<lambda>kv. is_group_layer (snd kv)) (layers_of d))"
    by (auto simp: getLayer_def dest: map_of_in_set)
  then obtain k where "k < length (filter (\<lambda>kv. is_group_layer (snd kv)) (layers_of d))"
    "filter (\<lambda>kv. is_group_layer (snd kv)) (layers_of d) ! k = (a, l)"
    unfolding in_set_conv_nth by blast
  then show ?thesis using l(3) by (auto simp: parent_lists_def)
qed

lemma child_in_layers: "tree_clean d \<Longrightarrow> c \<in> set (children d a) \<Longrightarrow> in_layers d c"
  using children_list [of c d a] unfolding tree_clean_def
  by (metis (no_types, lifting) Suc_less_eq length_Cons length_map nth_mem parent_lists_def)

lemma root_in_layers: "tree_clean d \<Longrightarrow> x \<in> set (rootLayerIds d) \<Longrightarrow> in_layers d x"
  by (auto simp: tree_clean_def parent_lists_def)

lemma one_parent:
  assumes "tree_clean d" and "c \<in> set (children d a)" and "c \<in> set (children d b)"
  shows "a = b"
proof -
  obtain i l where i: "i < length (filter (\<lambda>kv. is_group_layer (snd kv)) (layers_of d))"
    "filter (\<lambda>kv. is_group_layer (snd kv)) (layers_of d) ! i = (a, l)" "parent_lists d ! Suc i = children d a"
    using children_list [OF assms(2)] by blast
  obtain j m where j: "j < length (filter (\<lambda>kv. is_group_layer (snd kv)) (layers_of d))"
    "filter (\<lambda>kv. is_group_layer (snd kv)) (layers_of d) ! j = (b, m)" "parent_lists d ! Suc j = children d b"
    using children_list [OF assms(3)] by blast
  have "Suc i = Suc j"
    using one_parent_list [OF assms(1) child_in_layers [OF assms(1,2)], of "Suc i" "Suc j"] assms(2,3) i j
    by (simp add: parent_lists_def)
  then show ?thesis using i(2) j(2) by simp
qed

lemma root_no_parent:
  assumes "tree_clean d" and "c \<in> set (children d a)"
  shows "c \<notin> set (rootLayerIds d)"
proof
  assume root: "c \<in> set (rootLayerIds d)"
  obtain i l where i: "i < length (filter (\<lambda>kv. is_group_layer (snd kv)) (layers_of d))" "parent_lists d ! Suc i = children d a"
    using children_list [OF assms(2)] by blast
  show False
    using one_parent_list [OF assms(1) child_in_layers [OF assms], of "Suc i" 0] assms(2) i root
    by (simp add: parent_lists_def)
qed

lemma unique_path:
  "tree_clean d \<Longrightarrow> layer_path d p \<Longrightarrow> layer_path d q \<Longrightarrow> last p = last q \<Longrightarrow> p = q"
proof (induction p arbitrary: q rule: rev_induct)
  case (snoc x p)
  obtain q' y where q: "q = q' @ [y]" using layer_path_ne [OF snoc.prems(3)] by (cases q rule: rev_cases) simp_all
  have xy: "x = y" using snoc.prems(4) q by simp
  show ?case
    using snoc.prems(2)
  proof (cases rule: layer_path_snocE)
    case outer: root
    from snoc.prems(3) [unfolded q] show ?thesis
    proof (cases rule: layer_path_snocE)
      case root
      then show ?thesis using outer xy q by simp
    next
      case child
      then show ?thesis using root_no_parent [OF snoc.prems(1)] outer child xy by blast
    qed
  next
    case outer: child
    from snoc.prems(3) [unfolded q] show ?thesis
    proof (cases rule: layer_path_snocE)
      case root
      then show ?thesis using root_no_parent [OF snoc.prems(1)] root outer xy by blast
    next
      case inner: child
      have "last p = last q'" using one_parent [OF snoc.prems(1) outer(2)] inner(2) xy by blast
      then have "p = q'" using snoc.IH [OF snoc.prems(1) outer(1) inner(1)] by simp
      then show ?thesis using q xy by simp
    qed
  qed
qed (use layer_path_ne in blast)

text \<open>Nothing is reached from below itself.\<close>

lemma short_path_of: "tree_clean d \<Longrightarrow> in_layers d x \<Longrightarrow> \<exists>p. layer_path d p \<and> last p = x \<and> length p \<le> MAX_IMAGE_LAYER_DEPTH"
  by (auto simp: tree_clean_def short_path_def)

inductive descends :: "json \<Rightarrow> string \<Rightarrow> string \<Rightarrow> bool" for d :: json and a :: string where
  descends_refl: "descends d a a"
| descends_child: "descends d a b \<Longrightarrow> c \<in> set (children d b) \<Longrightarrow> descends d a c"

lemma descends_path:
  assumes "descends d a b" and "layer_path d p" and "last p = a"
  shows "\<exists>r. layer_path d (p @ r) \<and> last (p @ r) = b \<and> (a \<noteq> b \<longrightarrow> r \<noteq> [])"
  using assms
proof (induction rule: descends.induct)
  case descends_refl
  then show ?case by (intro exI [of _ "[]"]) simp
next
  case (descends_child b c)
  then obtain r where r: "layer_path d (p @ r)" "last (p @ r) = b" by blast
  then have "layer_path d ((p @ r) @ [c])" using descends_child(2) by (intro path_child) simp_all
  then show ?case by (intro exI [of _ "r @ [c]"]) simp
qed

lemma parent_not_below:
  assumes "tree_clean d" and "in_layers d a" and "x \<in> set (children d a)"
  shows "\<not> descends d x a"
proof
  assume desc: "descends d x a"
  obtain p where p: "layer_path d p" "last p = a" using short_path_of [OF assms(1,2)] by blast
  have px: "layer_path d (p @ [x])" using path_child [OF p(1)] p(2) assms(3) by simp
  have "last (p @ [x]) = x" by simp
  from descends_path [OF desc px this] obtain r where r: "layer_path d ((p @ [x]) @ r)" "last ((p @ [x]) @ r) = a"
    by blast
  have "p = (p @ [x]) @ r" by (rule unique_path [OF assms(1) p(1) r(1)]) (simp only: p(2) r(2))
  from arg_cong [OF this, of length] show False by simp
qed

lemma descends_in_layers: "tree_clean d \<Longrightarrow> descends d a b \<Longrightarrow> in_layers d a \<Longrightarrow> in_layers d b"
  by (rotate_tac 1, induction rule: descends.induct) (simp_all add: child_in_layers)

lemma sibling_not_below:
  assumes "tree_clean d" and "descends d x y" and "x \<noteq> y"
  shows "\<exists>b. descends d x b \<and> y \<in> set (children d b)"
  using assms(2,3) by (cases rule: descends.cases) auto

lemma root_not_below:
  assumes "tree_clean d" and "descends d x y" and "y \<in> set (rootLayerIds d)"
  shows "x = y"
  using sibling_not_below [OF assms(1,2)] root_no_parent [OF assms(1)] assms(3) by blast

end
