(* ===== verification/ImageClean.thy ===== *)
theory ImageClean
  imports ImageTree
begin

text \<open>
  What else a document without diagnostics satisfies: ids are allocated ids below their cursor, no two of
  them share a coordinate, every mask is listed once and by the layer it names, and every resource that is
  named exists and covers the rectangle it is named with.
\<close>

section \<open>Ids\<close>

lemma check_ids_clean:
  "check_ids d ids seen = [] \<Longrightarrow>
   (\<forall>(x, p) \<in> set ids. \<exists>n a. parseAllocatedId x = Some (p, n, a) \<and> n < allocation_cursor d a \<and> coordinate a n \<notin> set seen) \<and>
   distinct (map (\<lambda>(x, p). case parseAllocatedId x of Some (_, n, a) \<Rightarrow> coordinate a n | None \<Rightarrow> []) ids)"
proof (induction ids arbitrary: seen)
  case (Cons xp rest)
  obtain ident prefix where xp: "xp = (ident, prefix)" by (cases xp)
  obtain n a where pa: "parseAllocatedId ident = Some (prefix, n, a)"
    using Cons.prems xp by (auto split: option.splits prod.splits if_splits)
  have n: "n < allocation_cursor d a" "coordinate a n \<notin> set seen" and "check_ids d rest (coordinate a n # seen) = []"
    using Cons.prems xp pa by (simp_all split: if_split_asm)
  from Cons.IH [OF this(3)] have rest: "\<forall>(x, p) \<in> set rest. \<exists>n' a'. parseAllocatedId x = Some (p, n', a') \<and>
      n' < allocation_cursor d a' \<and> coordinate a' n' \<notin> set (coordinate a n # seen)"
    and dist: "distinct (map (\<lambda>(x, p). case parseAllocatedId x of Some (_, n, a) \<Rightarrow> coordinate a n | None \<Rightarrow> []) rest)"
    by simp_all
  have "coordinate a n \<notin> (\<lambda>(x, p). case parseAllocatedId x of Some (_, n, a) \<Rightarrow> coordinate a n | None \<Rightarrow> []) ` set rest"
    using rest by fastforce
  then show ?case using pa n rest dist xp by auto
qed simp

definition ids_clean :: "json \<Rightarrow> bool" where
  "ids_clean d \<longleftrightarrow> (\<forall>(x, p) \<in> set (prefixed_ids d). \<exists>n a. parseAllocatedId x = Some (p, n, a) \<and> n < allocation_cursor d a)"

section \<open>Masks\<close>

definition mask_owner :: "json \<Rightarrow> string" where
  "mask_owner m = text_of (field m ''ownerLayerId'')"

lemma check_mask_ids_spec:
  "check_mask_ids d l seen ms (c, ds) = (c', ds') \<Longrightarrow>
   \<exists>e. ds' = ds @ e \<and> (e = [] \<longrightarrow> distinct ms \<and> set ms \<inter> set seen = {} \<and> (\<forall>x. c' x = c x + count_list ms x) \<and>
     (\<forall>x \<in> set ms. \<exists>m. map_of (masks_of d) x = Some m \<and> mask_owner m = text_of (field l ''id'')))"
proof (induction ms arbitrary: seen c ds)
  case (Cons i ms)
  let ?dup = "if i \<in> set seen then [error_diag ''image.mask.duplicate''] else []"
  show ?case
  proof (cases "map_of (masks_of d) i")
    case None
    then have "check_mask_ids d l (i # seen) ms (c, ds @ ?dup @ [error_diag ''image.mask.dangling'']) = (c', ds')"
      using Cons.prems by (simp add: Let_def)
    from Cons.IH [OF this] obtain e where "ds' = (ds @ ?dup @ [error_diag ''image.mask.dangling'']) @ e" by blast
    then show ?thesis by (intro exI [of _ "?dup @ [error_diag ''image.mask.dangling''] @ e"]) simp
  next
    case (Some m)
    let ?own = "if text_of (field m ''ownerLayerId'') \<noteq> text_of (field l ''id'') then [error_diag ''image.mask.ownerMismatch''] else []"
    have "check_mask_ids d l (i # seen) ms (c(i := Suc (c i)), (ds @ ?dup) @ ?own) = (c', ds')"
      using Cons.prems Some by (simp add: Let_def)
    from Cons.IH [OF this] obtain e where e: "ds' = ((ds @ ?dup) @ ?own) @ e" "e = [] \<longrightarrow> distinct ms \<and> set ms \<inter> set (i # seen) = {} \<and>
        (\<forall>x. c' x = (c(i := Suc (c i))) x + count_list ms x) \<and>
        (\<forall>x \<in> set ms. \<exists>m. map_of (masks_of d) x = Some m \<and> mask_owner m = text_of (field l ''id''))" by blast
    then show ?thesis
      using Some by (intro exI [of _ "?dup @ ?own @ e"]) (auto simp: mask_owner_def)
  qed
qed simp

text \<open>A resource reference that holds.\<close>

definition resource_ok :: "json \<Rightarrow> json \<Rightarrow> bool" where
  "resource_ok d v \<longleftrightarrow> (\<exists>r. map_of (resources_of d) (text_of (field v ''resourceId'')) = Some r \<and>
     rectFits (case field v ''sourceRect'' of Some rect \<Rightarrow> rect | None \<Rightarrow> JNull) r)"

lemma checkResourceReference_Nil [simp]: "checkResourceReference d v = [] \<longleftrightarrow> resource_ok d v"
  by (auto simp: checkResourceReference_def resource_ok_def split: option.splits)

definition layer_refs_ok :: "json \<Rightarrow> json \<Rightarrow> bool" where
  "layer_refs_ok d l \<longleftrightarrow> distinct (maskIds l) \<and>
     (\<forall>x \<in> set (maskIds l). \<exists>m. map_of (masks_of d) x = Some m \<and> mask_owner m = text_of (field l ''id'')) \<and>
     (layer_kind l = ''raster'' \<longrightarrow> resource_ok d l)"

lemma fold_check_layer_refs:
  "fold (check_layer_refs d) kvs (c, ds) = (c', ds') \<Longrightarrow>
   \<exists>e. ds' = ds @ e \<and> (e = [] \<longrightarrow> (\<forall>kv \<in> set kvs. layer_refs_ok d (snd kv)) \<and>
     (\<forall>x. c' x = c x + (\<Sum>kv \<leftarrow> kvs. count_list (maskIds (snd kv)) x)))"
proof (induction kvs arbitrary: c ds)
  case (Cons kv kvs)
  obtain c1 ds1 where s: "check_mask_ids d (snd kv) [] (maskIds (snd kv)) (c, ds) = (c1, ds1)"
    by (cases "check_mask_ids d (snd kv) [] (maskIds (snd kv)) (c, ds)")
  let ?ref = "if layer_kind (snd kv) = ''raster'' then checkResourceReference d (snd kv) else []"
  from check_mask_ids_spec [OF s] obtain e1 where e1: "ds1 = ds @ e1" "e1 = [] \<longrightarrow> distinct (maskIds (snd kv)) \<and>
      (\<forall>x. c1 x = c x + count_list (maskIds (snd kv)) x) \<and>
      (\<forall>x \<in> set (maskIds (snd kv)). \<exists>m. map_of (masks_of d) x = Some m \<and> mask_owner m = text_of (field (snd kv) ''id''))"
    by blast
  have "check_layer_refs d kv (c, ds) = (c1, ds1 @ ?ref)" by (simp add: check_layer_refs_def s)
  then have "fold (check_layer_refs d) kvs (c1, ds1 @ ?ref) = (c', ds')" using Cons.prems by simp
  from Cons.IH [OF this] obtain e2 where e2: "ds' = (ds1 @ ?ref) @ e2" "e2 = [] \<longrightarrow> (\<forall>kv \<in> set kvs. layer_refs_ok d (snd kv)) \<and>
      (\<forall>x. c' x = c1 x + (\<Sum>kv \<leftarrow> kvs. count_list (maskIds (snd kv)) x))" by blast
  show ?case
    using e1 e2 by (intro exI [of _ "e1 @ ?ref @ e2"]) (auto simp: layer_refs_ok_def split: if_splits)
qed simp

definition refs_clean :: "json \<Rightarrow> bool" where
  "refs_clean d \<longleftrightarrow> (\<forall>kv \<in> set (layers_of d). layer_refs_ok d (snd kv)) \<and>
     (\<forall>kv \<in> set (masks_of d). (\<Sum>l \<leftarrow> layers_of d. count_list (maskIds (snd l)) (text_of (field (snd kv) ''id''))) = 1 \<and>
        in_layers d (mask_owner (snd kv)) \<and> resource_ok d (snd kv))"

lemma checkMasksAndResources_clean:
  assumes "checkMasksAndResources d = []"
  shows "refs_clean d"
proof -
  obtain c ds where c: "fold (check_layer_refs d) (layers_of d) (\<lambda>_. 0, []) = (c, ds)"
    by (cases "fold (check_layer_refs d) (layers_of d) (\<lambda>_. 0, [])")
  from assms c have ds: "ds = []" and masks: "\<forall>kv \<in> set (masks_of d). check_mask_refs d c (snd kv) = []"
    by (auto simp: checkMasksAndResources_def)
  from fold_check_layer_refs [OF c] ds have l: "\<forall>kv \<in> set (layers_of d). layer_refs_ok d (snd kv)"
    and counts: "\<forall>x. c x = (\<Sum>kv \<leftarrow> layers_of d. count_list (maskIds (snd kv)) x)" by auto
  have "c (text_of (field (snd kv) ''id'')) = 1 \<and> in_layers d (mask_owner (snd kv)) \<and> resource_ok d (snd kv)"
    if "kv \<in> set (masks_of d)" for kv
    using bspec [OF masks that] by (auto simp: check_mask_refs_def in_layers_def mask_owner_def split: if_splits)
  then show ?thesis using l counts by (simp add: refs_clean_def)
qed

section \<open>All together\<close>

definition own_ids :: "(string \<times> json) list \<Rightarrow> bool" where
  "own_ids kvs \<longleftrightarrow> (\<forall>kv \<in> set kvs. text_of (field (snd kv) ''id'') = fst kv)"

lemma checkMapIdentity_Nil: "checkMapIdentity kvs = [] \<longleftrightarrow> own_ids kvs"
  by (force simp: checkMapIdentity_def own_ids_def split: if_splits)

definition clean :: "json \<Rightarrow> bool" where
  "clean d \<longleftrightarrow> own_ids (layers_of d) \<and> own_ids (masks_of d) \<and> own_ids (resources_of d) \<and> ids_clean d \<and>
     tree_clean d \<and> refs_clean d"

lemma checkImageDocument_clean: "checkImageDocument d = [] \<Longrightarrow> clean d"
  using checkLayerTree_clean checkMasksAndResources_clean check_ids_clean [of d "prefixed_ids d" "[]"]
  by (fastforce simp: checkImageDocument_def clean_def checkMapIdentity_Nil ids_clean_def checkAllocatedIds_def)

end
