(* ===== verification/Reown.thy ===== *)
theory Reown
  imports OwnJson
begin

text \<open>
  JSON that is already owned, handed to \<open>ownJson\<close> again: an owned tree laid out in a heap, children
  before their parent. \<open>reown\<close> is \<open>ownJson\<close> on it; it gives back the tree or refuses it for its size.
\<close>

fun store_json :: "json \<Rightarrow> rawobj list \<Rightarrow> rawval \<times> rawobj list"
  and store_elems :: "json list \<Rightarrow> rawobj list \<Rightarrow> rawval list \<times> rawobj list"
  and store_props :: "(string \<times> json) list \<Rightarrow> rawobj list \<Rightarrow> (string \<times> rawprop) list \<times> rawobj list" where
  "store_json JNull hs = (RNull, hs)"
| "store_json (JBool b) hs = (RBool b, hs)"
| "store_json (JNum r) hs = (RNum (Fin r), hs)"
| "store_json (JStr s) hs = (RStr s, hs)"
| "store_json (JArr xs) hs =
     (let (vs, hs') = store_elems xs hs in (RRef (length hs'), hs' @ [RawArr (map (\<lambda>v. Some (Data v)) vs)]))"
| "store_json (JObj kvs) hs =
     (let (ps, hs') = store_props kvs hs in (RRef (length hs'), hs' @ [RawObj ps]))"
| "store_elems [] hs = ([], hs)"
| "store_elems (x # xs) hs =
     (let (v, hs1) = store_json x hs; (vs, hs2) = store_elems xs hs1 in (v # vs, hs2))"
| "store_props [] hs = ([], hs)"
| "store_props ((k, x) # kvs) hs =
     (let (v, hs1) = store_json x hs; (ps, hs2) = store_props kvs hs1 in ((k, Data v) # ps, hs2))"

definition heap_of :: "rawobj list \<Rightarrow> heap" where
  "heap_of hs a = (if a < length hs then hs ! a else RawArr [])"

definition foreign_of_json :: "json \<Rightarrow> heap \<times> rawval" where
  "foreign_of_json j = (let (v, hs) = store_json j [] in (heap_of hs, v))"

definition reown :: "own_limits \<Rightarrow> json \<Rightarrow> own_fail + json" where
  "reown lm j = ownJson lm (fst (foreign_of_json j)) (snd (foreign_of_json j))"

section \<open>The layout denotes the tree\<close>

definition agrees :: "heap \<Rightarrow> rawobj list \<Rightarrow> bool" where
  "agrees h hs \<longleftrightarrow> (\<forall>a < length hs. h a = hs ! a)"

lemma agrees_append: "agrees h (hs @ t) \<longleftrightarrow> agrees h hs \<and> (\<forall>a < length t. h (length hs + a) = t ! a)"
proof -
  have "(\<forall>a < length (hs @ t). h a = (hs @ t) ! a) \<longleftrightarrow>
      (\<forall>a < length hs. h a = hs ! a) \<and> (\<forall>a < length t. h (length hs + a) = t ! a)"
    by (auto simp: nth_append) (metis add_diff_inverse_nat nat_add_left_cancel_less)
  then show ?thesis by (simp add: agrees_def)
qed

lemma agrees_prefix: "agrees h hs' \<Longrightarrow> hs' = hs @ t \<Longrightarrow> agrees h hs"
  by (simp add: agrees_append)

lemma agrees_heap_of: "agrees (heap_of hs) hs"
  by (simp add: agrees_def heap_of_def)

text \<open>Cells of a stored tree: own keys are distinct and hold a value.\<close>

definition cell_ok :: "rawobj \<Rightarrow> bool" where
  "cell_ok c \<longleftrightarrow> (case c of RawObj ps \<Rightarrow> distinct (map fst ps) \<and> (\<forall>p \<in> set ps. snd p \<noteq> Data RUndef) | _ \<Rightarrow> True)"

lemma cell_ok_simps [simp]:
  "cell_ok (RawArr es)" "cell_ok (RawExotic n)"
  "cell_ok (RawObj ps) \<longleftrightarrow> distinct (map fst ps) \<and> (\<forall>p \<in> set ps. snd p \<noteq> Data RUndef)"
  by (simp_all add: cell_ok_def)

lemma store_spec:
  "store_json j hs = (v, hs') \<Longrightarrow> wf_json j \<Longrightarrow> list_all cell_ok hs \<Longrightarrow>
     (\<exists>t. hs' = hs @ t) \<and> list_all cell_ok hs' \<and> v \<noteq> RUndef \<and> (\<forall>h. agrees h hs' \<longrightarrow> denotes h v j)"
  "store_elems js hs = (vs, hs') \<Longrightarrow> list_all wf_json js \<Longrightarrow> list_all cell_ok hs \<Longrightarrow>
     (\<exists>t. hs' = hs @ t) \<and> list_all cell_ok hs' \<and>
     (\<forall>h. agrees h hs' \<longrightarrow> denotes_elems h (map (\<lambda>v. Some (Data v)) vs) js)"
  "store_props kvs hs = (ps, hs') \<Longrightarrow> list_all (\<lambda>kv. wf_json (snd kv)) kvs \<Longrightarrow> proto_key \<notin> set (map fst kvs) \<Longrightarrow> list_all cell_ok hs \<Longrightarrow>
     (\<exists>t. hs' = hs @ t) \<and> list_all cell_ok hs' \<and> map fst ps = map fst kvs \<and> (\<forall>p \<in> set ps. snd p \<noteq> Data RUndef) \<and>
     (\<forall>h. agrees h hs' \<longrightarrow> denotes_props h ps kvs)"
proof (induction j hs and js hs and kvs hs arbitrary: v hs' and vs hs' and ps hs'
    rule: store_json_store_elems_store_props.induct)
  case (5 xs hs)
  obtain vs hs1 where s: "store_elems xs hs = (vs, hs1)" by (cases "store_elems xs hs")
  then have v: "v = RRef (length hs1)" "hs' = hs1 @ [RawArr (map (\<lambda>v. Some (Data v)) vs)]" using 5(2) by auto
  have ih: "(\<exists>t. hs1 = hs @ t) \<and> list_all cell_ok hs1 \<and>
     (\<forall>h. agrees h hs1 \<longrightarrow> denotes_elems h (map (\<lambda>v. Some (Data v)) vs) xs)"
    by (rule 5(1) [OF s]) (use 5(3,4) in simp_all)
  show ?case
    unfolding v agrees_append using ih by (auto intro!: den_arr)
next
  case (6 kvs hs)
  obtain ps hs1 where s: "store_props kvs hs = (ps, hs1)" by (cases "store_props kvs hs")
  then have v: "v = RRef (length hs1)" "hs' = hs1 @ [RawObj ps]" using 6(2) by auto
  have ih: "(\<exists>t. hs1 = hs @ t) \<and> list_all cell_ok hs1 \<and> map fst ps = map fst kvs \<and> (\<forall>p \<in> set ps. snd p \<noteq> Data RUndef) \<and>
     (\<forall>h. agrees h hs1 \<longrightarrow> denotes_props h ps kvs)"
    by (rule 6(1) [OF s]) (use 6(3,4) in simp_all)
  have "cell_ok (RawObj ps)" using ih 6(3) by simp
  then show ?case
    unfolding v agrees_append using ih by (auto intro!: den_obj)
next
  case (8 x xs hs)
  obtain v1 hs1 where s1: "store_json x hs = (v1, hs1)" by (cases "store_json x hs")
  obtain vs1 hs2 where s2: "store_elems xs hs1 = (vs1, hs2)" by (cases "store_elems xs hs1")
  have r: "vs = v1 # vs1" "hs' = hs2" using 8(3) s1 s2 by auto
  have ih1: "(\<exists>t. hs1 = hs @ t) \<and> list_all cell_ok hs1 \<and> v1 \<noteq> RUndef \<and> (\<forall>h. agrees h hs1 \<longrightarrow> denotes h v1 x)"
    by (rule 8(1) [OF s1]) (use 8(4,5) in simp_all)
  have ih2: "(\<exists>t. hs2 = hs1 @ t) \<and> list_all cell_ok hs2 \<and>
     (\<forall>h. agrees h hs2 \<longrightarrow> denotes_elems h (map (\<lambda>v. Some (Data v)) vs1) xs)"
    by (rule 8(2) [OF s1 [symmetric] refl s2]) (use 8(4) ih1 in simp_all)
  have den: "denotes_elems h (map (\<lambda>v. Some (Data v)) vs) (x # xs)" if h: "agrees h hs2" for h
  proof -
    have "agrees h hs1" using agrees_prefix [OF h] ih2 by blast
    then show ?thesis using ih1 ih2 h unfolding r by (simp add: den_elems_cons)
  qed
  then show ?case using ih1 ih2 unfolding r by (metis append.assoc)
next
  case (10 k x kvs hs)
  obtain v1 hs1 where s1: "store_json x hs = (v1, hs1)" by (cases "store_json x hs")
  obtain ps1 hs2 where s2: "store_props kvs hs1 = (ps1, hs2)" by (cases "store_props kvs hs1")
  have r: "ps = (k, Data v1) # ps1" "hs' = hs2" using 10(3) s1 s2 by auto
  have ih1: "(\<exists>t. hs1 = hs @ t) \<and> list_all cell_ok hs1 \<and> v1 \<noteq> RUndef \<and> (\<forall>h. agrees h hs1 \<longrightarrow> denotes h v1 x)"
    by (rule 10(1) [OF s1]) (use 10(4,6) in simp_all)
  have ih2: "(\<exists>t. hs2 = hs1 @ t) \<and> list_all cell_ok hs2 \<and> map fst ps1 = map fst kvs \<and> (\<forall>p \<in> set ps1. snd p \<noteq> Data RUndef) \<and>
     (\<forall>h. agrees h hs2 \<longrightarrow> denotes_props h ps1 kvs)"
    by (rule 10(2) [OF s1 [symmetric] refl s2]) (use 10(4,5) ih1 in simp_all)
  have "k \<noteq> proto_key" using 10(5) by auto
  then have den: "denotes_props h ps ((k, x) # kvs)" if h: "agrees h hs2" for h
  proof -
    have "agrees h hs1" using agrees_prefix [OF h] ih2 by blast
    then show ?thesis using ih1 ih2 h \<open>k \<noteq> proto_key\<close> unfolding r by (simp add: den_props_cons)
  qed
  have "map fst ps = map fst ((k, x) # kvs)" "\<forall>p \<in> set ps. snd p \<noteq> Data RUndef" using ih1 ih2 unfolding r by auto
  then show ?case using den ih1 ih2 unfolding r by (metis append.assoc)
qed (auto intro: den_elems_nil den_props_nil)

lemma foreign_of_json_denotes:
  assumes "wf_json j"
  shows "denotes (fst (foreign_of_json j)) (snd (foreign_of_json j)) j" and "heap_ok (fst (foreign_of_json j))"
    and "heap_defined (fst (foreign_of_json j))"
proof -
  obtain v hs where s: "store_json j [] = (v, hs)" by (cases "store_json j []")
  note spec = store_spec(1) [OF s assms]
  show "denotes (fst (foreign_of_json j)) (snd (foreign_of_json j)) j"
    using spec agrees_heap_of by (simp add: foreign_of_json_def s)
  have "cell_ok (heap_of hs a)" for a
    using spec by (auto simp: heap_of_def list_all_length)
  then have cell: "cell_ok (fst (foreign_of_json j) a)" for a by (simp add: foreign_of_json_def s)
  have "distinct (map fst ps) \<and> (\<forall>p \<in> set ps. snd p \<noteq> Data RUndef)" if "fst (foreign_of_json j) a = RawObj ps" for a ps
    using cell [of a] that by simp
  then show "heap_ok (fst (foreign_of_json j))" "heap_defined (fst (foreign_of_json j))"
    unfolding heap_ok_def heap_defined_def by blast+
qed

text \<open>Owning owned JSON again changes nothing; it can only be refused for its size.\<close>

definition in_budget :: "own_limits \<Rightarrow> json \<Rightarrow> bool" where
  "in_budget lm j \<longleftrightarrow> json_depth j \<le> max_depth lm \<and> json_nodes j \<le> max_nodes lm \<and> json_chars j \<le> max_chars lm"

lemma reown_iff:
  assumes "wf_json j"
  shows "reown lm j = Inr j' \<longleftrightarrow> j' = j \<and> in_budget lm j"
proof
  note f = foreign_of_json_denotes [OF assms]
  assume "reown lm j = Inr j'"
  then obtain c where "own_visit lm (fst (foreign_of_json j)) (max_depth lm) [] [] (0, 0) (snd (foreign_of_json j)) = Inr (j', c)"
    by (auto simp: reown_def ownJson_visit)
  from own_visit_sound [OF f(2) this] have v: "denotes (fst (foreign_of_json j)) (snd (foreign_of_json j)) j'" "in_budget lm j'"
    by (auto simp: visit_sound_def in_budget_def)
  then have "j' = j" using denotes_functional(1) [OF v(1)] f(1) by simp
  then show "j' = j \<and> in_budget lm j" using v(2) by simp
next
  note f = foreign_of_json_denotes [OF assms]
  assume "j' = j \<and> in_budget lm j"
  then show "reown lm j = Inr j'"
    using own_visit_complete [OF f(3,1), of "max_depth lm" "[]" lm "(0, 0)" "[]"]
    by (simp add: reown_def ownJson_visit above_def fits_def in_budget_def)
qed

end
