(* ===== verification/ImageLoad.thy ===== *)
theory ImageLoad
  imports ImageClean Reown Hash
begin

text \<open>
  Loading image documents: \<open>packages/core/src/image-document/migrate.ts\<close>.

  The result is the document, if there is one, and the diagnostics. The options exist so that tests can
  exercise longer migration chains; \<open>default_load\<close> is the call without options.
\<close>

section \<open>Migration\<close>

record migration_step =
  ms_from :: nat
  ms_migrate :: "(string \<times> json) list \<Rightarrow> (string \<times> json) list \<times> diagnostic list"

definition IMAGE_DOCUMENT_MIGRATIONS :: "migration_step list" where
  "IMAGE_DOCUMENT_MIGRATIONS = [\<lparr>ms_from = 1, ms_migrate = (\<lambda>document. (document, []))\<rparr>]"

type_synonym load_result = "json option \<times> diagnostic list"

primrec migrate_loop ::
  "migration_step list \<Rightarrow> nat \<Rightarrow> nat \<Rightarrow> (string \<times> json) list \<Rightarrow> diagnostic list \<Rightarrow> load_result" where
  "migrate_loop steps 0 current document ds = (Some (JObj document), ds)"
| "migrate_loop steps (Suc n) current document ds =
     (case map_of (rev (map (\<lambda>s. (ms_from s, s)) steps)) current of
        None \<Rightarrow> (None, ds @ [error_diag ''image.version.gap''])
      | Some step \<Rightarrow>
          (let (document1, ds1) = ms_migrate step document
           in if hasErrors ds1 then (None, ds @ ds1)
              else migrate_loop steps n (Suc current)
                (AList.update ''formatVersion'' (JNum (of_nat (Suc current))) document1) (ds @ ds1)))"

definition migrateImageDocumentJson ::
  "migration_step list \<Rightarrow> nat \<Rightarrow> (string \<times> json) list \<Rightarrow> load_result" where
  "migrateImageDocumentJson migrations targetVersion raw =
     (case map_of raw ''formatVersion'' of
        Some (JNum version) \<Rightarrow>
          if \<not> is_safe_integer version \<or> version < 1 then (None, [error_diag ''image.version.invalid''])
          else if version > of_nat targetVersion then (None, [error_diag ''image.version.future''])
          else (let current = nat \<lfloor>version\<rfloor> in migrate_loop migrations (targetVersion - current) current raw [])
      | _ \<Rightarrow> (None, [error_diag ''image.version.invalid'']))"

section \<open>Loading\<close>

record load_options =
  lo_migrations :: "migration_step list"
  lo_target :: nat
  lo_max_bytes :: "jsnum option"

definition default_load :: load_options where
  "default_load = \<lparr>lo_migrations = IMAGE_DOCUMENT_MIGRATIONS, lo_target = IMAGE_DOCUMENT_FORMAT_VERSION, lo_max_bytes = None\<rparr>"

definition maximum_bytes :: "jsnum option \<Rightarrow> nat" where
  "maximum_bytes requested =
     (case requested of
        Some (Fin r) \<Rightarrow>
          if is_safe_integer r \<and> r > 0 then min (nat \<lfloor>r\<rfloor>) MAX_IMAGE_DOCUMENT_BYTES else MAX_IMAGE_DOCUMENT_BYTES
      | _ \<Rightarrow> MAX_IMAGE_DOCUMENT_BYTES)"

definition MAX_IMAGE_JSON_NODES :: nat where
  "MAX_IMAGE_JSON_NODES = 1000000"

definition image_limits :: "nat \<Rightarrow> own_limits" where
  "image_limits maximumBytes =
     \<lparr>max_depth = 64, max_nodes = MAX_IMAGE_JSON_NODES, max_chars = maximumBytes, reject_undefined = False\<rparr>"

definition encoded_bytes :: "json \<Rightarrow> nat" where
  "encoded_bytes j = length (utf8 (units (canonicalJson j)))"

definition shape_diags :: "failures \<Rightarrow> diagnostic list" where
  "shape_diags fs = map (\<lambda>_. error_diag ''image.shape.invalid'') fs"

definition load_migrated :: "(nat list \<Rightarrow> string) \<Rightarrow> load_options \<Rightarrow> json \<Rightarrow> diagnostic list \<Rightarrow> load_result" where
  "load_migrated blake3_hex opts document ds =
     (case reown (image_limits (maximum_bytes (lo_max_bytes opts))) document of
        Inl e \<Rightarrow> (None, ds @ [error_diag ''image.notJson''])
      | Inr owned \<Rightarrow>
          if encoded_bytes owned > maximum_bytes (lo_max_bytes opts)
          then (None, ds @ [error_diag ''image.size.exceeded''])
          else
            (let shape = shape_diags (validateImageDocumentShape blake3_hex owned (lo_target opts))
             in if hasErrors shape then (None, ds @ shape)
                else
                  (let invariants = checkImageDocument owned
                   in if hasErrors invariants then (None, ds @ shape @ invariants)
                      else (Some owned, ds @ shape @ invariants))))"

definition loadImageDocument :: "(nat list \<Rightarrow> string) \<Rightarrow> load_options \<Rightarrow> foreign \<Rightarrow> load_result" where
  "loadImageDocument blake3_hex opts input =
     (case ownJson (image_limits (maximum_bytes (lo_max_bytes opts))) (fst input) (snd input) of
        Inl e \<Rightarrow> (None, [error_diag ''image.notJson''])
      | Inr (JObj raw) \<Rightarrow>
          if map_of raw ''format'' \<noteq> Some (JStr IMAGE_DOCUMENT_FORMAT) then (None, [error_diag ''image.format.unknown''])
          else
            (let source = (if map_of raw ''formatVersion'' = Some (JNum 1)
                           then shape_diags (validateImageDocumentShape blake3_hex (JObj raw) 1) else [])
             in if hasErrors source then (None, source)
                else
                  (case migrateImageDocumentJson (lo_migrations opts) (lo_target opts) raw of
                     (None, ds) \<Rightarrow> (None, ds)
                   | (Some document, ds) \<Rightarrow> load_migrated blake3_hex opts document ds))
      | Inr _ \<Rightarrow> (None, [error_diag ''image.format.unknown'']))"

section \<open>All diagnostics of the checks are errors\<close>

definition all_errors :: "diagnostic list \<Rightarrow> bool" where
  "all_errors ds \<longleftrightarrow> list_all (\<lambda>d. dg_severity d = SevError) ds"

lemma all_errors_simps [simp]:
  "all_errors []" "all_errors (x # xs) \<longleftrightarrow> dg_severity x = SevError \<and> all_errors xs"
  "all_errors (xs @ ys) \<longleftrightarrow> all_errors xs \<and> all_errors ys" "dg_severity (error_diag c) = SevError"
  by (simp_all add: all_errors_def error_diag_def)

lemma all_errors_concat: "(\<And>x. x \<in> set xs \<Longrightarrow> all_errors (f x)) \<Longrightarrow> all_errors (concat (map f xs))"
  by (induction xs) simp_all

lemma all_errors_none: "all_errors ds \<Longrightarrow> \<not> hasErrors ds \<Longrightarrow> ds = []"
  by (cases ds) (simp_all add: hasErrors_def)

lemma all_errors_ids: "all_errors (check_ids d ids seen)"
  by (induction d ids seen rule: check_ids.induct) (auto split: option.splits)

lemma all_errors_count_ids: "all_errors (snd st) \<Longrightarrow> all_errors (snd (count_ids d seen ids st))"
  by (induction d seen ids st rule: count_ids.induct) (auto simp: countParent_def)

lemma all_errors_fold: "(\<And>x st. x \<in> set xs \<Longrightarrow> all_errors (g st) \<Longrightarrow> all_errors (g (f x st))) \<Longrightarrow> all_errors (g st) \<Longrightarrow> all_errors (g (fold f xs st))"
  by (induction xs arbitrary: st) simp_all

lemma all_errors_countList: "all_errors (snd st) \<Longrightarrow> all_errors (snd (countList d ids st))"
  using all_errors_count_ids [of st d "[]" ids]
  by (auto simp: countList_def check_clipping_def split: prod.splits list.splits)

lemma all_errors_visit: "all_errors (wk_diags w) \<Longrightarrow> all_errors (wk_diags (visit n d r x w))"
proof (induction n arbitrary: x w)
  case 0
  then show ?case by (auto simp: visit_layer_def Let_def split: option.splits mark.splits)
next
  case (Suc n)
  have "all_errors (wk_diags (fold (visit n d r) xs w))" if "all_errors (wk_diags w)" for xs w
    using that Suc.IH by (intro all_errors_fold [of xs wk_diags]) auto
  then show ?case using Suc.prems by (auto simp: visit_layer_def Let_def split: option.splits mark.splits)
qed

lemma all_errors_tree: "all_errors (checkLayerTree d)"
proof -
  have c: "all_errors (snd (count_all d))"
    unfolding count_all_def by (rule all_errors_fold [of _ snd]) (simp_all add: all_errors_countList)
  have "all_errors (wk_diags (visit_rest d x w))" if "all_errors (wk_diags w)" for x w
    using that by (auto simp: visit_rest_def Let_def intro!: all_errors_visit)
  moreover have "all_errors (wk_diags (walk_roots d))"
    unfolding walk_roots_def by (rule all_errors_fold [of _ wk_diags]) (simp_all add: all_errors_visit)
  ultimately have "all_errors (wk_diags (fold (visit_rest d) xs (walk_roots d)))" for xs
    by (intro all_errors_fold [of _ wk_diags])
  then show ?thesis using c by (auto simp: checkLayerTree_def Let_def intro!: all_errors_concat split: prod.splits)
qed

lemma all_errors_mask_ids: "all_errors ds \<Longrightarrow> all_errors (snd (check_mask_ids d l seen ms (owners, ds)))"
proof (induction ms arbitrary: seen owners ds)
  case Nil
  then show ?case by simp
next
  case (Cons x ms)
  show ?case
  proof (cases "map_of (masks_of d) x")
    case None
    then show ?thesis using Cons.prems by (simp add: Let_def Cons.IH)
  next
    case (Some v)
    then show ?thesis using Cons.prems by (simp add: Let_def Cons.IH)
  qed
qed

lemma all_errors_refs: "all_errors (checkMasksAndResources d)"
proof -
  have r: "all_errors (checkResourceReference d v)" for v by (auto simp: checkResourceReference_def split: option.splits)
  have "all_errors (snd (check_layer_refs d kv st))" if "all_errors (snd st)" for kv st
    using all_errors_mask_ids [OF that, of d "snd kv" "[]" "maskIds (snd kv)" "fst st"] r
    by (auto simp: check_layer_refs_def split: prod.splits)
  then have "all_errors (snd (fold (check_layer_refs d) xs (\<lambda>_. 0, [])))" for xs
    by (intro all_errors_fold [of _ snd]) simp_all
  then have f: "all_errors ds" if "fold (check_layer_refs d) (layers_of d) (\<lambda>_. 0, []) = (owners, ds)" for owners ds
    using that by (metis snd_conv)
  show ?thesis
    using r by (auto simp: checkMasksAndResources_def check_mask_refs_def check_alpha_def dest: f intro!: all_errors_concat split: prod.splits)
qed

lemma checkImageDocument_none: "\<not> hasErrors (checkImageDocument d) \<Longrightarrow> checkImageDocument d = []"
proof (rule all_errors_none)
  show "all_errors (checkImageDocument d)"
    using all_errors_ids all_errors_tree all_errors_refs
    by (auto simp: checkImageDocument_def checkMapIdentity_def checkAllocatedIds_def intro!: all_errors_concat)
qed

lemma shape_diags_none [simp]: "hasErrors (shape_diags fs) \<longleftrightarrow> fs \<noteq> []"
  by (cases fs) (simp_all add: shape_diags_def hasErrors_def)

section \<open>What loading establishes\<close>

text \<open>A document that loads as it is.\<close>

definition loads :: "(nat list \<Rightarrow> string) \<Rightarrow> json \<Rightarrow> bool" where
  "loads blake d \<longleftrightarrow> wf_json d \<and> in_budget (image_limits MAX_IMAGE_DOCUMENT_BYTES) d \<and>
     encoded_bytes d \<le> MAX_IMAGE_DOCUMENT_BYTES \<and>
     validateImageDocumentShape blake d IMAGE_DOCUMENT_FORMAT_VERSION = [] \<and> checkImageDocument d = []"

lemma default_load_simps [simp]:
  "lo_target default_load = IMAGE_DOCUMENT_FORMAT_VERSION" "lo_migrations default_load = IMAGE_DOCUMENT_MIGRATIONS"
  "maximum_bytes (lo_max_bytes default_load) = MAX_IMAGE_DOCUMENT_BYTES"
  by (simp_all add: default_load_def maximum_bytes_def)

lemma load_migrated_Some:
  assumes "load_migrated blake default_load j ds = (Some d, ds')" and "wf_json j"
  shows "d = j \<and> loads blake d"
proof -
  from assms(1) obtain owned where o: "reown (image_limits MAX_IMAGE_DOCUMENT_BYTES) j = Inr owned" "d = owned"
    "\<not> encoded_bytes owned > MAX_IMAGE_DOCUMENT_BYTES"
    "validateImageDocumentShape blake owned IMAGE_DOCUMENT_FORMAT_VERSION = []" "\<not> hasErrors (checkImageDocument owned)"
    by (auto simp: load_migrated_def Let_def split: sum.splits if_splits)
  then show ?thesis using reown_iff [OF assms(2)] checkImageDocument_none assms(2) by (auto simp: loads_def)
qed

end
