(* ===== verification/ImageLoaded.thy ===== *)
theory ImageLoaded
  imports ImageLoad
begin

text \<open>
  What loading an image document establishes, and a document that loads.
\<close>

section \<open>Loaded documents\<close>

lemma no_errors [simp]: "\<not> hasErrors []" "shape_diags [] = []"
  by (simp_all add: hasErrors_def shape_diags_def)

lemma map_update_same: "map_of kvs k = Some v \<Longrightarrow> AList.update k v kvs = kvs"
  by (induction kvs) auto

lemma shape_version:
  assumes "validateImageDocumentShape blake d version = []"
  shows "\<exists>kvs. d = JObj kvs \<and> map_of kvs ''format'' = Some (JStr IMAGE_DOCUMENT_FORMAT) \<and>
    map_of kvs ''formatVersion'' = Some (JNum (of_nat version))"
proof -
  from assms obtain kvs where v: "d = JObj kvs" by (auto simp: validateImageDocumentShape_def)
  note c = assms [unfolded v validateImageDocumentShape_def on_object_def [of "Some (JObj kvs)"] option.case json.case append_is_Nil_conv]
  show ?thesis using v c by (simp add: chk_literal_Nil)
qed

text \<open>A migration from version 1 or 2 sets the version and reports nothing.\<close>

lemma migrate_versions:
  "migrateImageDocumentJson IMAGE_DOCUMENT_MIGRATIONS 2 raw = (Some d, ds) \<Longrightarrow>
     ds = [] \<and> d = JObj (AList.update ''formatVersion'' (JNum 2) raw)"
  "map_of raw ''formatVersion'' = Some (JNum 2) \<Longrightarrow>
     migrateImageDocumentJson IMAGE_DOCUMENT_MIGRATIONS 2 raw = (Some (JObj raw), [])"
proof -
  assume m: "migrateImageDocumentJson IMAGE_DOCUMENT_MIGRATIONS 2 raw = (Some d, ds)"
  then obtain r where r: "map_of raw ''formatVersion'' = Some (JNum r)" "is_safe_integer r" "1 \<le> r" "r \<le> 2"
    by (auto simp: migrateImageDocumentJson_def split: option.splits json.splits if_splits)
  have "r = of_int \<lfloor>r\<rfloor>" using r(2) by (auto simp: is_safe_integer_def is_integer_def)
  then obtain k where k: "r = of_int k" by blast
  then have "k = 1 \<or> k = 2" using r(3,4) by auto
  then show "ds = [] \<and> d = JObj (AList.update ''formatVersion'' (JNum 2) raw)"
  proof
    assume "k = 1"
    then show ?thesis using m r k
      by (simp add: migrateImageDocumentJson_def Let_def numeral_2_eq_2 IMAGE_DOCUMENT_MIGRATIONS_def)
  next
    assume "k = 2"
    then show ?thesis using m r k by (simp add: migrateImageDocumentJson_def Let_def map_update_same)
  qed
next
  assume "map_of raw ''formatVersion'' = Some (JNum 2)"
  then show "migrateImageDocumentJson IMAGE_DOCUMENT_MIGRATIONS 2 raw = (Some (JObj raw), [])"
    by (simp add: migrateImageDocumentJson_def Let_def is_safe_integer_def is_integer_def max_safe_integer_def)
qed

lemma load_Some:
  assumes "heap_ok h" and "loadImageDocument blake default_load (h, v) = (Some d, ds)"
  shows "ds = [] \<and> loads blake d \<and> (\<exists>raw. ownJson (image_limits MAX_IMAGE_DOCUMENT_BYTES) h v = Inr (JObj raw) \<and>
    d = JObj (AList.update ''formatVersion'' (JNum 2) raw))"
proof -
  from assms(2) obtain raw document ds1 where own: "ownJson (image_limits MAX_IMAGE_DOCUMENT_BYTES) h v = Inr (JObj raw)"
    and mig: "migrateImageDocumentJson IMAGE_DOCUMENT_MIGRATIONS 2 raw = (Some document, ds1)"
    and l: "load_migrated blake default_load document ds1 = (Some d, ds)"
    by (auto simp: loadImageDocument_def Let_def IMAGE_DOCUMENT_FORMAT_VERSION_def split: sum.splits json.splits if_splits option.splits prod.splits)
  have doc: "ds1 = []" "document = JObj (AList.update ''formatVersion'' (JNum 2) raw)"
    using migrate_versions(1) [OF mig] by simp_all
  from own obtain c where "own_visit (image_limits MAX_IMAGE_DOCUMENT_BYTES) h (max_depth (image_limits MAX_IMAGE_DOCUMENT_BYTES)) [] [] (0, 0) v = Inr (JObj raw, c)"
    by (auto simp: ownJson_visit)
  from own_visit_sound [OF assms(1) this] have "wf_json (JObj raw)" by (simp add: visit_sound_def)
  then have "wf_json document"
    unfolding doc by (intro wf_json_intros) (simp_all add: proto_key_def)
  from load_migrated_Some [OF l this] have d: "d = document" "loads blake d" by blast+
  then have "ds = []" using l doc unfolding load_migrated_def loads_def
    by (auto simp: Let_def split: sum.splits if_splits)
  then show ?thesis using d doc own by blast
qed

lemma load_again:
  assumes "loads blake d"
  shows "loadImageDocument blake default_load (foreign_of_json d) = (Some d, [])"
proof -
  from assms have w: "wf_json d" "in_budget (image_limits MAX_IMAGE_DOCUMENT_BYTES) d"
    "validateImageDocumentShape blake d IMAGE_DOCUMENT_FORMAT_VERSION = []"
    by (simp_all add: loads_def)
  from shape_version [OF w(3)] obtain kvs where kvs: "d = JObj kvs" "map_of kvs ''format'' = Some (JStr IMAGE_DOCUMENT_FORMAT)"
    "map_of kvs ''formatVersion'' = Some (JNum 2)" by (auto simp: IMAGE_DOCUMENT_FORMAT_VERSION_def)
  have re: "reown (image_limits MAX_IMAGE_DOCUMENT_BYTES) d = Inr d"
    using reown_iff [OF w(1)] w(2) by simp
  then have own: "ownJson (image_limits MAX_IMAGE_DOCUMENT_BYTES) (fst (foreign_of_json d)) (snd (foreign_of_json d)) = Inr (JObj kvs)"
    unfolding reown_def using kvs(1) by simp
  have "load_migrated blake default_load d [] = (Some d, [])"
    using re assms by (simp add: load_migrated_def loads_def)
  then show ?thesis
    using own kvs migrate_versions(2) [OF kvs(3)]
    by (simp add: loadImageDocument_def IMAGE_DOCUMENT_FORMAT_VERSION_def)
qed

lemma loads_clean: "loads blake d \<Longrightarrow> ImageDocument d \<and> clean d"
  using document_type checkImageDocument_clean unfolding loads_def by blast

section \<open>A document that loads\<close>

definition demo_transform :: json where
  "demo_transform = JObj [(''a'', JNum 1000000), (''b'', JNum 0), (''c'', JNum 0), (''d'', JNum 1000000), (''tx'', JNum 0), (''ty'', JNum 0)]"

definition demo_rect :: json where
  "demo_rect = JObj [(''x'', JNum 0), (''y'', JNum 0), (''width'', JNum 8), (''height'', JNum 8)]"

definition demo_digest :: string where
  "demo_digest = ''blake3:'' @ replicate 64 CHR ''0''"

definition demo_resource :: json where
  "demo_resource = JObj [(''id'', JStr ''r0''), (''kind'', JStr ''raster''), (''digest'', JStr demo_digest), (''byteSize'', JNum 100),
     (''mediaType'', JStr ''image/png''), (''width'', JNum 8), (''height'', JNum 8), (''colorSpace'', JStr ''srgb''),
     (''channelDepth'', JNum 8), (''alphaMode'', JStr ''straight'')]"

definition demo_layer :: "char \<Rightarrow> json" where
  "demo_layer c = JObj [(''id'', JStr ''l1''), (''kind'', JStr ''raster''), (''name'', JStr [c]), (''visible'', JBool True),
     (''opacity'', JNum 65535), (''transform'', demo_transform), (''blendMode'', JStr ''normal''), (''clipping'', JStr ''none''),
     (''maskIds'', JArr []), (''resourceId'', JStr ''r0''), (''sourceRect'', demo_rect)]"

definition demo_group :: json where
  "demo_group = JObj [(''id'', JStr ''l2''), (''kind'', JStr ''group''), (''name'', JStr ''g''), (''visible'', JBool True),
     (''opacity'', JNum 65535), (''transform'', demo_transform), (''blendMode'', JStr ''normal''), (''clipping'', JStr ''none''),
     (''maskIds'', JArr []), (''childLayerIds'', JArr [JStr ''l1''])]"

definition demo_canvas :: json where
  "demo_canvas = JObj [(''width'', JNum 64), (''height'', JNum 64), (''colorSpace'', JStr ''srgb''), (''channelDepth'', JNum 8),
     (''compositing'', JStr ''premultiplied-alpha'')]"

definition demo_image :: "char \<Rightarrow> json" where
  "demo_image c = JObj [(''format'', JStr ''dinkster-image''), (''formatVersion'', JNum 2), (''lineage'', JStr ''x''),
     (''canvas'', demo_canvas), (''allocation'', JObj [(''nextOrdinal'', JNum 3)]), (''rootLayerIds'', JArr [JStr ''l2'']),
     (''layers'', JObj [(''l1'', demo_layer c), (''l2'', demo_group)]), (''masks'', JObj []), (''resources'', JObj [(''r0'', demo_resource)])]"

lemmas demo_defs = demo_image_def demo_canvas_def demo_group_def demo_layer_def demo_resource_def demo_digest_def
  demo_rect_def demo_transform_def

lemma demo_maps: "layers_of (demo_image c) = [(''l1'', demo_layer c), (''l2'', demo_group)]" "masks_of (demo_image c) = []"
  "resources_of (demo_image c) = [(''r0'', demo_resource)]" "rootLayerIds (demo_image c) = [''l2'']" "nextOrdinal (demo_image c) = 3"
  by (simp_all add: demo_image_def layers_of_def masks_of_def resources_of_def doc_map_def rootLayerIds_def texts_of_def
    nextOrdinal_def number_nat_def)

lemma demo_fields: "field (demo_layer c) ''id'' = Some (JStr ''l1'')" "field demo_group ''id'' = Some (JStr ''l2'')"
  "field demo_resource ''id'' = Some (JStr ''r0'')" "layer_kind (demo_layer c) = ''raster''" "layer_kind demo_group = ''group''"
  "childLayerIds demo_group = [''l1'']" "maskIds (demo_layer c) = []" "maskIds demo_group = []"
  "field (demo_layer c) ''clipping'' = Some (JStr ''none'')" "field demo_group ''clipping'' = Some (JStr ''none'')"
  "z_index (demo_layer c) = None" "z_index demo_group = None"
  by (simp_all add: demo_layer_def demo_group_def demo_resource_def layer_kind_def childLayerIds_def maskIds_def
    texts_of_def z_index_def)

paragraph \<open>Its shape\<close>

lemmas image_constants = MAX_IMAGE_LAYERS_def MAX_IMAGE_LAYER_DEPTH_def MAX_IMAGE_RESOURCES_def
  MAX_IMAGE_MASKS_PER_LAYER_def MAX_IMAGE_CANVAS_DIMENSION_def MAX_IMAGE_PIXELS_def IMAGE_FIXED_POINT_SCALE_def
  IMAGE_OPACITY_MAX_def MAX_IMAGE_LINEAR_COMPONENT_def MAX_IMAGE_TRANSLATION_def max_safe_integer_def is_safe_integer_def
  IMAGE_BLEND_MODES_def IMAGE_MASK_COMBINE_MODES_def IMAGE_RASTER_MEDIA_TYPES_def IMAGE_ALPHA_MODES_def
  LAYER_BASE_KEYS_def only_keys_def

lemma list_all_replicate: "list_all P (replicate n x) \<longleftrightarrow> n = 0 \<or> P x"
  by (auto simp: list_all_iff)

lemma demo_rect_shape: "checkSourceRect (Some demo_rect) p = []"
  by (simp add: demo_rect_def checkSourceRect_def check_Nil image_constants)

lemma demo_transform_shape: "checkTransform (Some demo_transform) p 2 = []"
  by (simp add: demo_transform_def checkTransform_def check_Nil image_constants)

lemma demo_layer_shape: "c \<noteq> CHR 0x00 \<Longrightarrow> checkLayer (Some (demo_layer c)) p 2 = []" "checkLayer (Some demo_group) p 2 = []"
  by (simp_all add: demo_layer_def demo_group_def checkLayer_def check_Nil image_constants demo_rect_shape
    demo_transform_shape exI [of _ True])

lemma demo_resource_shape: "checkResource blake (Some demo_resource) p 2 = []"
  by (simp add: list_all_replicate is_digit_def demo_resource_def demo_digest_def digest_pattern_def check_pixels_def
    Let_def checkResource_def check_Nil image_constants)

lemma demo_shape: "c \<noteq> CHR 0x00 \<Longrightarrow> validateImageDocumentShape blake (demo_image c) IMAGE_DOCUMENT_FORMAT_VERSION = []"
  by (simp add: demo_image_def demo_canvas_def validateImageDocumentShape_def check_canvas_def check_allocation_def
    checkRecord_Nil demo_layer_shape demo_resource_shape check_pixels_def Let_def check_Nil image_constants
    IMAGE_DOCUMENT_FORMAT_VERSION_def IMAGE_DOCUMENT_FORMAT_def)

paragraph \<open>Its references\<close>

lemma digit_chars: "digit_char 0 = CHR ''0''" "digit_char 1 = CHR ''1''" "digit_char 2 = CHR ''2''"
  "digit_char (Suc 0) = CHR ''1''"
  by code_simp+

lemma demo_ids: "parseAllocatedId ''l1'' = Some (''l'', 1, None)" "parseAllocatedId ''l2'' = Some (''l'', 2, None)"
  "parseAllocatedId ''r0'' = Some (''r'', 0, None)"
  by (simp_all add: parseAllocatedId_def is_digit_def read_nat_def is_lower_def max_safe_nat_def show_nat.simps Let_def
    digit_chars)

lemma demo_coordinates: "coordinate None 0 = [CHR 0x00, CHR ''0'']" "coordinate None (Suc 0) = [CHR 0x00, CHR ''1'']"
  "coordinate None 2 = [CHR 0x00, CHR ''2'']"
  by (simp_all add: coordinate_def show_nat.simps digit_chars)

lemma demo_allocated: "checkAllocatedIds (demo_image c) = []"
  unfolding checkAllocatedIds_def prefixed_ids_def demo_maps
  by (simp add: demo_ids allocation_cursor_def demo_coordinates demo_maps)

lemma demo_order: "orderedImageLayerIds (demo_image c) [x] = [x]"
  by (simp add: orderedImageLayerIds_def)

lemma demo_counts: "count_all (demo_image c) = (\<lambda>x. if x = ''l1'' \<or> x = ''l2'' then 1 else 0, [])"
  by (simp add: count_all_def parent_lists_def demo_maps demo_fields is_group_layer_def countList_def countParent_def
    getLayer_def check_clipping_def demo_order fun_eq_iff)

lemma demo_walk: "wk_diags (fold (visit_rest (demo_image c)) [''l1'', ''l2''] (walk_roots (demo_image c))) = []"
  by (simp add: walk_roots_def demo_maps demo_fields MAX_IMAGE_LAYER_DEPTH_def numeral_eq_Suc visit_layer_def
    getLayer_def is_group_layer_def visit_rest_def)

lemma demo_refs: "checkMasksAndResources (demo_image c) = []"
proof -
  have "rectFits demo_rect demo_resource" "field (demo_layer c) ''sourceRect'' = Some demo_rect"
    "field (demo_layer c) ''resourceId'' = Some (JStr ''r0'')" "check_alpha demo_resource = []"
    by (simp_all add: rectFits_def demo_rect_def demo_resource_def demo_layer_def check_alpha_def)
  then show ?thesis
    by (simp add: checkMasksAndResources_def check_layer_refs_def demo_maps demo_fields checkResourceReference_def)
qed

lemma demo_invariants: "checkImageDocument (demo_image c) = []"
  using demo_walk
  by (simp add: checkImageDocument_def checkMapIdentity_def demo_maps demo_fields demo_allocated demo_refs
    checkLayerTree_def demo_counts)

paragraph \<open>Its size\<close>

lemma of_char_bounds [simp]: "(of_char c :: nat) < 2048" "(of_char c :: nat) < 55296" "(of_char c :: nat) < 65536"
  by (rule less_trans [OF of_char_lt], simp)+

lemma unit_char: "unat (of_char c :: 16 word) = of_char c"
proof -
  have "(of_char c :: 16 word) = of_nat (of_char c)"
    by (simp add: of_nat_of_char)
  then show ?thesis by (simp add: unat_of_nat)
qed

lemma no_surrogate: "\<not> high_surrogate (of_char c)" "\<not> low_surrogate (of_char c)"
proof -
  have "(of_char c :: nat) < 56320" by (rule less_trans [OF of_char_lt]) simp
  then show "\<not> high_surrogate (of_char c)" "\<not> low_surrogate (of_char c)"
    by (simp_all add: high_surrogate_def low_surrogate_def word_le_nat_alt word_less_nat_alt unit_char not_le)
qed

lemma code_points_units: "code_points (units s) = map of_char s"
proof (induction s rule: induct_list012)
  case (3 c d s)
  then show ?case by (simp add: units_def no_surrogate unit_char)
qed (simp_all add: units_def no_surrogate unit_char)

lemma utf8_char_bound: "length (utf8_code (of_char c)) \<le> 2"
  by (simp add: utf8_code_def)

lemma utf8_bound: "length (utf8 (units s)) \<le> 2 * length s"
  unfolding utf8_def code_points_units
proof (induction s)
  case (Cons c s)
  then show ?case using utf8_char_bound [of c] by simp
qed simp
lemma json_escape_length: "length (json_escape c) \<le> 6"
  by (simp add: json_escape_def Let_def)

lemma stringify_string_length: "length (stringify_string s) \<le> 6 * length s + 2"
proof (induction s)
  case (Cons c s)
  then show ?case using json_escape_length [of c] by (simp add: stringify_string_def)
qed (simp add: stringify_string_def)

lemma quoted_bound:
  "6 * length s + 2 + n \<le> m \<Longrightarrow> length (stringify_string s) + n \<le> m"
  "6 * length s + 2 \<le> m \<Longrightarrow> length (stringify_string s) \<le> m"
  "2 * (6 * length s + 2) + n \<le> m \<Longrightarrow> 2 * length (stringify_string s) + n \<le> m"
  using stringify_string_length [of s] by simp_all

lemma bound_add: "length x \<le> k \<Longrightarrow> k + n \<le> m \<Longrightarrow> length x + n \<le> (m :: nat)"
  by simp

lemmas text_eval = number_text_def is_safe_integer_def max_safe_integer_def show_nat.simps quoted_bound

lemma demo_transform_text: "length (canonicalJson demo_transform) \<le> 200"
  by (simp add: demo_transform_def text_eval)

lemma demo_rect_text: "length (canonicalJson demo_rect) \<le> 200"
  by (simp add: demo_rect_def text_eval)

lemma demo_canvas_text: "length (canonicalJson demo_canvas) \<le> 800"
  by (simp add: demo_canvas_def text_eval)

lemma demo_layer_text: "length (canonicalJson (demo_layer c)) \<le> 2000"
  by (simp add: demo_layer_def text_eval bound_add [OF demo_transform_text] bound_add [OF demo_rect_text])

lemma demo_group_text: "length (canonicalJson demo_group) \<le> 2000"
  by (simp add: demo_group_def text_eval bound_add [OF demo_transform_text])

lemma demo_resource_text: "length (canonicalJson demo_resource) \<le> 2000"
  by (simp add: demo_resource_def demo_digest_def text_eval)

lemma demo_text: "length (canonicalJson (demo_image c)) \<le> 20000"
  by (simp add: demo_image_def text_eval bound_add [OF demo_canvas_text] bound_add [OF demo_layer_text]
    bound_add [OF demo_group_text] bound_add [OF demo_resource_text])

lemma demo_loads: "c \<noteq> CHR 0x00 \<Longrightarrow> loads blake (demo_image c)"
proof -
  assume c: "c \<noteq> CHR 0x00"
  have "wf_json (demo_image c)" by (simp add: demo_defs proto_key_def)
  moreover have "in_budget (image_limits MAX_IMAGE_DOCUMENT_BYTES) (demo_image c)"
    by (simp add: demo_defs in_budget_def image_limits_def MAX_IMAGE_DOCUMENT_BYTES_def MAX_IMAGE_JSON_NODES_def)
  moreover have "encoded_bytes (demo_image c) \<le> MAX_IMAGE_DOCUMENT_BYTES"
    using demo_text [of c] utf8_bound [of "canonicalJson (demo_image c)"] by (simp add: encoded_bytes_def MAX_IMAGE_DOCUMENT_BYTES_def)
  ultimately show ?thesis by (simp add: loads_def demo_shape [OF c] demo_invariants)
qed

lemma demo_loaded: "c \<noteq> CHR 0x00 \<Longrightarrow> loadImageDocument (\<lambda>_. []) default_load (foreign_of_json (demo_image c)) = (Some (demo_image c), [])"
  by (rule load_again [OF demo_loads])

lemma demo_heap: "c \<noteq> CHR 0x00 \<Longrightarrow> heap_ok (fst (foreign_of_json (demo_image c)))"
  using demo_loads [of c] by (simp add: loads_def foreign_of_json_denotes)

section \<open>Properties\<close>

text \<open>C15: whatever foreign value loads, the result is the owned value at the current format version, it has
  the static type the code casts it to, and it is clean: the ids are its own and below the allocation cursors, every
  reference resolves, every mask has one owner. Loading it reports nothing.\<close>

theorem loaded_image_typed:
  assumes "heap_ok h" and "loadImageDocument blake default_load (h, v) = (Some d, ds)"
  shows "ImageDocument d \<and> clean d \<and> ds = [] \<and> encoded_bytes d \<le> MAX_IMAGE_DOCUMENT_BYTES \<and>
    (\<exists>raw. ownJson (image_limits MAX_IMAGE_DOCUMENT_BYTES) h v = Inr (JObj raw) \<and>
      d = JObj (AList.update ''formatVersion'' (JNum 2) raw))"
proof -
  note l = load_Some [OF assms]
  then have "ImageDocument d \<and> clean d" using loads_clean by blast
  then show ?thesis using l by (simp add: loads_def)
qed

theorem loaded_image_typed_witness: "ImageDocument (demo_image CHR ''a'') \<and> clean (demo_image CHR ''a'')"
  using loaded_image_typed [OF demo_heap, of "CHR ''a''" "\<lambda>_. []" "snd (foreign_of_json (demo_image CHR ''a''))"] demo_loaded by simp

text \<open>C16: in a loaded document every layer hangs in the tree: there is exactly one path to it from the root
  list, of at most 64 layers, and no layer is below one of its own children.\<close>

theorem loaded_layers_form_tree:
  assumes "heap_ok h" and "loadImageDocument blake default_load (h, v) = (Some d, ds)"
    and "getLayer d x \<noteq> None"
  shows "(\<exists>p. layer_path d p \<and> last p = x \<and> length p \<le> 64 \<and> (\<forall>q. layer_path d q \<and> last q = x \<longrightarrow> q = p)) \<and>
    (\<forall>c. c \<in> set (children d x) \<longrightarrow> \<not> descends d c x)"
proof -
  have t: "tree_clean d" using load_Some [OF assms(1,2)] loads_clean unfolding clean_def by blast
  have x: "in_layers d x" using assms(3) by (simp add: in_layers_def)
  from short_path_of [OF t x] obtain p where "layer_path d p" "last p = x" "length p \<le> 64"
    by (auto simp: MAX_IMAGE_LAYER_DEPTH_def)
  then show ?thesis using unique_path [OF t] parent_not_below [OF t x] by metis
qed

theorem loaded_layers_form_tree_witness: "\<exists>p. layer_path (demo_image CHR ''a'') p \<and> last p = ''l1''"
proof -
  have "getLayer (demo_image CHR ''a'') ''l1'' \<noteq> None" by (simp add: getLayer_def demo_maps)
  from loaded_layers_form_tree [OF demo_heap [of "CHR ''a''"] _ this, of "\<lambda>_. []" "snd (foreign_of_json (demo_image CHR ''a''))" "[]"]
    demo_loaded [of "CHR ''a''"]
  show ?thesis by auto
qed

text \<open>C38: loading is idempotent: a loaded document, serialised and loaded again, loads as itself.\<close>

theorem reload_unchanged:
  assumes "heap_ok h" and "loadImageDocument blake default_load (h, v) = (Some d, ds)"
  shows "loadImageDocument blake default_load (foreign_of_json d) = (Some d, [])"
  using load_Some [OF assms] load_again by blast

theorem reload_unchanged_witness:
  "loadImageDocument (\<lambda>_. []) default_load (foreign_of_json (demo_image CHR ''a'')) = (Some (demo_image CHR ''a''), [])"
  using reload_unchanged [OF demo_heap, of "CHR ''a''" "\<lambda>_. []" "snd (foreign_of_json (demo_image CHR ''a''))"] demo_loaded by simp

end
