(* ===== verification/ImageCommands.thy ===== *)
theory ImageCommands
  imports ImageLoaded Patch
begin

text \<open>
  Commands on image documents: \<open>packages/core/src/image-document/commands.ts\<close>.

  A command plans: it decodes a foreign invocation, computes the patches from the current document, applies
  them and loads the result; nothing is changed. The patches of each command are a function of the document and
  the command's parameters, \<open>None\<close> where the code returns \<open>undefined\<close>.

  The planner runs on the store's current document, which always loads: where the code reads a layer, mask or
  resource that must be there (a non-null assertion), the readers here give a default that is not reached.
  \<open>own\<close> on a value of a patch is \<open>reown\<close>: it gives the value back or throws for its size. A throw in the
  middle of building the patches is found after they are built, \<open>own_patches\<close>; either way the command is
  invalid and nothing else happens.
\<close>

section \<open>Invocations\<close>

record image_invocation =
  ii_command :: string
  ii_params :: "(string \<times> json) list"
  ii_actor :: "string option"

definition exactKeys :: "json option \<Rightarrow> string list \<Rightarrow> string list \<Rightarrow> bool" where
  "exactKeys v required optional =
     (case v of
        Some (JObj kvs) \<Rightarrow>
          list_all (\<lambda>k. map_of kvs k \<noteq> None) required \<and>
          list_all (\<lambda>kv. fst kv \<in> set (required @ optional)) kvs
      | _ \<Rightarrow> False)"

definition has_number :: "(string \<times> json) list \<Rightarrow> string \<Rightarrow> bool" where
  "has_number params k = (case map_of params k of Some v \<Rightarrow> ts_number v | None \<Rightarrow> False)"

definition has_string :: "(string \<times> json) list \<Rightarrow> string \<Rightarrow> bool" where
  "has_string params k = (case map_of params k of Some v \<Rightarrow> ts_string v | None \<Rightarrow> False)"

definition has_parent :: "(string \<times> json) list \<Rightarrow> bool" where
  "has_parent params \<longleftrightarrow> has_string params ''parentId'' \<or> map_of params ''parentId'' = Some JNull"

definition decode_params :: "string \<Rightarrow> (string \<times> json) list \<Rightarrow> (string \<times> json) list option" where
  "decode_params command params =
     (let exact = exactKeys (Some (JObj params)); keep = (\<lambda>ok. if ok then Some params else None)
      in if command = ''image.canvas.crop'' then
           keep (exact [''x'', ''y'', ''width'', ''height''] [] \<and>
             list_all (has_number params) [''x'', ''y'', ''width'', ''height''])
         else if command = ''image.canvas.resize'' then
           keep (exact [''width'', ''height''] [] \<and> has_number params ''width'' \<and> has_number params ''height'')
         else if command = ''image.canvas.update'' then
           keep (exact [''width'', ''height''] [''compositing''] \<and>
             has_number params ''width'' \<and> has_number params ''height'')
         else if command = ''image.output.update'' then
           keep (exact [''format'', ''quality''] [] \<and> has_string params ''format'' \<and> has_number params ''quality'')
         else if command = ''image.layer.group'' then
           (case map_of params ''layerIds'' of
              Some (JArr ids) \<Rightarrow>
                if exact [''layerIds'', ''name''] [] \<and> has_string params ''name'' \<and> list_all ts_string ids
                then Some [(''layerIds'', JArr ids), (''name'', JStr (text_of (map_of params ''name'')))] else None
            | _ \<Rightarrow> None)
         else if command = ''image.layer.update'' then
           keep (exact [''layerId'']
               [''name'', ''visible'', ''opacity'', ''blendMode'', ''clipping'', ''transform'', ''z_index'', ''isolation''] \<and>
             has_string params ''layerId'' \<and> length params \<noteq> 1)
         else if command = ''image.layer.addRaster'' then
           keep (exact [''parentId'', ''index'', ''name'', ''resource'', ''sourceRect''] [] \<and> has_parent params \<and>
             has_number params ''index'' \<and> has_string params ''name'' \<and>
             is_object (map_of params ''resource'') \<and> is_object (map_of params ''sourceRect''))
         else if command = ''image.layer.move'' then
           keep (exact [''layerId'', ''parentId'', ''index''] [] \<and> has_string params ''layerId'' \<and> has_parent params \<and>
             has_number params ''index'')
         else if command = ''image.layer.remove'' then
           (if exact [''layerId''] [] \<and> has_string params ''layerId''
            then Some [(''layerId'', JStr (text_of (map_of params ''layerId'')))] else None)
         else if command = ''image.mask.update'' then
           keep (exact [''maskId''] [''enabled'', ''invert'', ''opacity'', ''transform'', ''combineMode'', ''channel''] \<and>
             has_string params ''maskId'' \<and> length params \<noteq> 1)
         else if command = ''image.mask.addRaster'' then
           keep (exact [''ownerLayerId'', ''index'', ''resource'', ''sourceRect''] [] \<and>
             has_string params ''ownerLayerId'' \<and> has_number params ''index'' \<and>
             is_object (map_of params ''resource'') \<and> is_object (map_of params ''sourceRect''))
         else if command = ''image.mask.remove'' then
           (if exact [''maskId''] [] \<and> has_string params ''maskId''
            then Some [(''maskId'', JStr (text_of (map_of params ''maskId'')))] else None)
         else None)"

definition decodeInvocation :: "foreign \<Rightarrow> image_invocation option" where
  "decodeInvocation v =
     (case ownJson (default_limits True) (fst v) (snd v) of
        Inr (JObj kvs) \<Rightarrow>
          if \<not> exactKeys (Some (JObj kvs)) [''command'', ''params''] [''actor''] then None
          else
            (case (map_of kvs ''command'', map_of kvs ''params'') of
               (Some (JStr command), Some (JObj params)) \<Rightarrow>
                 (case map_of kvs ''actor'' of
                    None \<Rightarrow>
                      map_option (\<lambda>p. \<lparr>ii_command = command, ii_params = p, ii_actor = None\<rparr>) (decode_params command params)
                  | Some (JStr a) \<Rightarrow>
                      if isValidActorId a
                      then map_option (\<lambda>p. \<lparr>ii_command = command, ii_params = p, ii_actor = Some a\<rparr>) (decode_params command params)
                      else None
                  | Some _ \<Rightarrow> None)
             | _ \<Rightarrow> None)
      | _ \<Rightarrow> None)"

section \<open>Building patches\<close>

definition present :: "json option \<Rightarrow> json" where
  "present v = (case v of Some x \<Rightarrow> x | None \<Rightarrow> JNull)"

definition id_list :: "string list \<Rightarrow> json" where
  "id_list ids = JArr (map JStr ids)"

definition spread :: "json \<Rightarrow> (string \<times> json) list \<Rightarrow> json" where
  "spread v changes = JObj (fold (\<lambda>kv. AList.update (fst kv) (snd kv)) changes (entries_of (Some v)))"

definition set_order :: "string list \<Rightarrow> string list" where
  "set_order xs = rev (remdups (rev xs))"

definition splice :: "nat \<Rightarrow> nat \<Rightarrow> string \<Rightarrow> string list \<Rightarrow> string list" where
  "splice index deleted item xs = take index xs @ [item] @ drop (index + deleted) xs"

definition indexOf :: "string \<Rightarrow> string list \<Rightarrow> nat" where
  "indexOf x xs = length (takeWhile (\<lambda>y. y \<noteq> x) xs)"

type_synonym layer_parent = "string option \<times> string list"

definition layerParent :: "json \<Rightarrow> string \<Rightarrow> layer_parent option" where
  "layerParent document layerId =
     (if layerId \<in> set (rootLayerIds document) then Some (None, orderedImageLayerIds document (rootLayerIds document))
      else
        (case find (\<lambda>kv. is_group_layer (snd kv) \<and> layerId \<in> set (childLayerIds (snd kv))) (layers_of document) of
           None \<Rightarrow> None
         | Some (_, layer) \<Rightarrow>
             Some (Some (text_of (field layer ''id'')), orderedImageLayerIds document (childLayerIds layer))))"

definition parentChildren :: "json \<Rightarrow> string option \<Rightarrow> string list option" where
  "parentChildren document parentId =
     (case parentId of
        None \<Rightarrow> Some (orderedImageLayerIds document (rootLayerIds document))
      | Some p \<Rightarrow>
          (case getLayer document p of
             None \<Rightarrow> None
           | Some parent \<Rightarrow>
               if is_group_layer parent then Some (orderedImageLayerIds document (childLayerIds parent)) else None))"

definition order_patch :: "json \<Rightarrow> nat \<times> string \<Rightarrow> patch_op list" where
  "order_patch document ix =
     (case ix of (index, ident) \<Rightarrow>
        (case layer_z document ident of
           None \<Rightarrow> [OpAdd [Key ''layers'', Key ident, Key ''z_index''] (JNum (of_nat index))]
         | Some z \<Rightarrow>
             if z = of_nat index then []
             else [OpReplace [Key ''layers'', Key ident, Key ''z_index''] (JNum (of_nat index)) (JNum z)]))"

definition layerOrderPatches :: "json \<Rightarrow> string list \<Rightarrow> patch_op list" where
  "layerOrderPatches document ids =
     (if list_ex (\<lambda>ident. layer_z document ident \<noteq> None) ids
      then concat (map (order_patch document) (enumerate 0 ids)) else [])"

definition parentListPatches :: "json \<Rightarrow> string option \<Rightarrow> string list \<Rightarrow> patch_op list" where
  "parentListPatches document parentId ids =
     (let previous =
        (case Option.bind parentId (getLayer document) of
           Some parent \<Rightarrow>
             if is_group_layer parent then present (field parent ''childLayerIds'') else present (field document ''rootLayerIds'')
         | None \<Rightarrow> present (field document ''rootLayerIds''))
      in OpReplace (case parentId of None \<Rightarrow> [Key ''rootLayerIds''] | Some p \<Rightarrow> [Key ''layers'', Key p, Key ''childLayerIds''])
           (id_list ids) previous # layerOrderPatches document ids)"

definition resourceInput :: "json \<Rightarrow> string \<Rightarrow> json" where
  "resourceInput v ident = spread v [(''id'', JStr ident)]"

definition allocateIds :: "json \<Rightarrow> string option \<Rightarrow> string list \<Rightarrow> string list \<times> patch_op" where
  "allocateIds document actor prefixes =
     (let ordinal = allocation_cursor document actor;
          ids = map (\<lambda>(index, prefix). formatAllocatedId prefix (ordinal + index) actor) (enumerate 0 prefixes);
          advanced = JNum (of_nat (ordinal + length prefixes))
      in case actor of
           None \<Rightarrow> (ids, OpReplace [Key ''allocation'', Key ''nextOrdinal''] advanced (JNum (of_nat ordinal)))
         | Some a \<Rightarrow>
             (case field (present (field document ''allocation'')) ''actorCursors'' of
                None \<Rightarrow> (ids, OpAdd [Key ''allocation'', Key ''actorCursors''] (JObj [(a, advanced)]))
              | Some cursors \<Rightarrow>
                  (ids, OpReplace [Key ''allocation'', Key ''actorCursors''] (spread cursors [(a, advanced)]) cursors)))"

definition resourceId :: "json \<Rightarrow> string" where
  "resourceId v = text_of (field v ''resourceId'')"

definition referencedResources :: "json \<Rightarrow> string list \<Rightarrow> string list \<Rightarrow> string list" where
  "referencedResources document excludedLayers excludedMasks =
     map (\<lambda>kv. resourceId (snd kv))
       (filter (\<lambda>kv. text_of (field (snd kv) ''id'') \<notin> set excludedLayers \<and> layer_kind (snd kv) = ''raster'')
         (layers_of document)) @
     map (\<lambda>kv. resourceId (snd kv))
       (filter (\<lambda>kv. text_of (field (snd kv) ''id'') \<notin> set excludedMasks \<and>
           text_of (field (snd kv) ''ownerLayerId'') \<notin> set excludedLayers) (masks_of document))"

text \<open>\<open>descendantIds\<close> visits recursively; here the pending visits are a list, in the order of the recursion.\<close>

definition all_children :: "json \<Rightarrow> string set" where
  "all_children document = set (concat (map (\<lambda>kv. childLayerIds (snd kv)) (layers_of document)))"

lemma all_children_finite [simp]: "finite (all_children d)"
  by (simp add: all_children_def)

lemma children_all: "set (children d x) \<subseteq> all_children d"
proof (cases "map_of (layers_of d) x")
  case (Some l)
  then have "(x, l) \<in> set (layers_of d)" by (rule map_of_SomeD)
  then have "set (childLayerIds l) \<subseteq> all_children d" by (force simp: all_children_def)
  then show ?thesis using Some by (auto simp: children_def getLayer_def)
qed (simp add: children_def getLayer_def)

function descend :: "json \<Rightarrow> string list \<Rightarrow> string list \<Rightarrow> string list" where
  "descend document [] result = result"
| "descend document (ident # pending) result =
     (if ident \<in> set result then descend document pending result
      else descend document (children document ident @ pending) (result @ [ident]))"
  by pat_completeness auto

definition unvisited :: "json \<Rightarrow> string list \<Rightarrow> string list \<Rightarrow> nat" where
  "unvisited document pending result = card ((set pending \<union> all_children document) - set result)"

lemma unvisited_seen: "x \<in> set result \<Longrightarrow> unvisited d (x # pending) result = unvisited d pending result"
  unfolding unvisited_def by (rule arg_cong [of _ _ card]) auto

lemma unvisited_new: "x \<notin> set result \<Longrightarrow> unvisited d (children d x @ pending) (result @ [x]) < unvisited d (x # pending) result"
  unfolding unvisited_def using children_all [of d x] by (intro psubset_card_mono) auto

termination descend
  by (relation "measures [\<lambda>(d, pending, result). unvisited d pending result, \<lambda>(d, pending, result). length pending]")
    (simp_all add: unvisited_seen unvisited_new)

definition descendantIds :: "json \<Rightarrow> string \<Rightarrow> string list" where
  "descendantIds document rootId = descend document [rootId] []"

text \<open>\<open>Number\<close> of a BigInt: the nearest of the integers with 53 significant bits, the even one on a tie (magnitudes
  from \<open>2 ^ 1024\<close> on, which become infinite, do not arise from products of safe integers).\<close>

definition Number_of_BigInt :: "int \<Rightarrow> int" where
  "Number_of_BigInt x =
     (let e = bit_length (nat \<bar>x\<bar>) - 53 in sgn x * (round_even (of_int \<bar>x\<bar> / 2 ^ e) * 2 ^ e))"

definition divideRoundEven :: "int \<Rightarrow> int \<Rightarrow> int" where
  "divideRoundEven numerator denominator =
     (let negative = numerator < 0;
          absolute = (if negative then - numerator else numerator);
          quotient = absolute div denominator;
          remainder = absolute mod denominator;
          doubled = remainder * 2;
          rounded = (if doubled > denominator \<or> (doubled = denominator \<and> quotient mod 2 = 1) then quotient + 1 else quotient)
      in Number_of_BigInt (if negative then - rounded else rounded))"

definition rootTransformPatches :: "json \<Rightarrow> (json \<Rightarrow> json) \<Rightarrow> patch_op list" where
  "rootTransformPatches document transform =
     map (\<lambda>ident. let previous = present (Option.bind (getLayer document ident) (\<lambda>l. field l ''transform''))
          in OpReplace [Key ''layers'', Key ident, Key ''transform''] (transform previous) previous)
       (rootLayerIds document)"

section \<open>The commands\<close>

record created_ids =
  cr_layer :: "string option"
  cr_mask :: "string option"
  cr_resource :: "string option"

type_synonym planned = "patch_op list \<times> created_ids option"

definition identity_transform :: json where
  "identity_transform = JObj [(''a'', JNum 1000000), (''b'', JNum 0), (''c'', JNum 0), (''d'', JNum 1000000),
     (''tx'', JNum 0), (''ty'', JNum 0)]"

definition parent_param :: "json option \<Rightarrow> string option" where
  "parent_param v = (case v of Some (JStr p) \<Rightarrow> Some p | _ \<Rightarrow> None)"

definition canvas_of :: "json \<Rightarrow> json" where
  "canvas_of document = present (field document ''canvas'')"

definition without_key :: "string \<Rightarrow> (string \<times> json) list \<Rightarrow> (string \<times> json) list" where
  "without_key k kvs = filter (\<lambda>kv. fst kv \<noteq> k) kvs"

definition shift_transform :: "rat \<Rightarrow> rat \<Rightarrow> json \<Rightarrow> json" where
  "shift_transform x y t =
     spread (JObj (without_key ''components'' (entries_of (Some t))))
       [(''tx'', JNum (number_of (field t ''tx'') - x * IMAGE_FIXED_POINT_SCALE)),
        (''ty'', JNum (number_of (field t ''ty'') - y * IMAGE_FIXED_POINT_SCALE))]"

definition canvas_crop :: "json \<Rightarrow> (string \<times> json) list \<Rightarrow> planned option" where
  "canvas_crop document params =
     (let x = number_of (map_of params ''x''); y = number_of (map_of params ''y'');
          width = number_of (map_of params ''width''); height = number_of (map_of params ''height'');
          canvas = canvas_of document
      in if \<not> list_all is_safe_integer [x, y, width, height] \<or> x < 0 \<or> y < 0 \<or> width < 1 \<or> height < 1 \<or>
            x + width > number_of (field canvas ''width'') \<or> y + height > number_of (field canvas ''height'')
         then None
         else Some (OpReplace [Key ''canvas''] (spread canvas [(''width'', JNum width), (''height'', JNum height)]) canvas #
                rootTransformPatches document (shift_transform x y), None))"

definition scale_component :: "json \<Rightarrow> string \<Rightarrow> rat \<Rightarrow> rat \<Rightarrow> string \<times> json" where
  "scale_component t key new old =
     (key, JNum (of_int (divideRoundEven (\<lfloor>number_of (field t key)\<rfloor> * \<lfloor>new\<rfloor>) \<lfloor>old\<rfloor>)))"

definition scale_transform :: "rat \<Rightarrow> rat \<Rightarrow> rat \<Rightarrow> rat \<Rightarrow> json \<Rightarrow> json" where
  "scale_transform width height oldWidth oldHeight t =
     JObj [scale_component t ''a'' width oldWidth, scale_component t ''b'' height oldHeight,
           scale_component t ''c'' width oldWidth, scale_component t ''d'' height oldHeight,
           scale_component t ''tx'' width oldWidth, scale_component t ''ty'' height oldHeight]"

definition canvas_resize :: "json \<Rightarrow> (string \<times> json) list \<Rightarrow> planned option" where
  "canvas_resize document params =
     (let width = number_of (map_of params ''width''); height = number_of (map_of params ''height'');
          canvas = canvas_of document
      in if \<not> list_all is_safe_integer [width, height] \<or> width < 1 \<or> height < 1 then None
         else Some (OpReplace [Key ''canvas''] (spread canvas [(''width'', JNum width), (''height'', JNum height)]) canvas #
                rootTransformPatches document
                  (scale_transform width height (number_of (field canvas ''width'')) (number_of (field canvas ''height''))),
                None))"

definition canvas_update :: "json \<Rightarrow> (string \<times> json) list \<Rightarrow> planned option" where
  "canvas_update document params =
     Some ([OpReplace [Key ''canvas''] (spread (canvas_of document) params) (canvas_of document)], None)"

definition output_update :: "json \<Rightarrow> (string \<times> json) list \<Rightarrow> planned option" where
  "output_update document params =
     (let format = text_of (map_of params ''format''); quality = number_of (map_of params ''quality'');
          policy = JObj [(''format'', JStr format), (''quality'', JNum quality)]
      in if format \<notin> set IMAGE_OUTPUT_FORMATS \<or> \<not> is_safe_integer quality \<or> quality < 0 \<or> quality > 100 then None
         else
           (case field document ''extensions'' of
              None \<Rightarrow> Some ([OpAdd [Key ''extensions''] (JObj [(IMAGE_OUTPUT_POLICY_EXTENSION, policy)])], None)
            | Some extensions \<Rightarrow>
                (case field extensions IMAGE_OUTPUT_POLICY_EXTENSION of
                   None \<Rightarrow> Some ([OpAdd [Key ''extensions'', Key IMAGE_OUTPUT_POLICY_EXTENSION] policy], None)
                 | Some previous \<Rightarrow>
                     Some ([OpReplace [Key ''extensions'', Key IMAGE_OUTPUT_POLICY_EXTENSION] policy previous], None))))"

definition new_group :: "string \<Rightarrow> string \<Rightarrow> string list \<Rightarrow> json" where
  "new_group layerId name ids =
     JObj [(''id'', JStr layerId), (''kind'', JStr ''group''), (''name'', JStr name), (''visible'', JBool True),
           (''opacity'', JNum 65535), (''transform'', identity_transform), (''blendMode'', JStr ''normal''),
           (''clipping'', JStr ''none''), (''maskIds'', JArr []), (''childLayerIds'', id_list ids)]"

definition contiguous_at :: "nat \<Rightarrow> string list \<Rightarrow> string list \<Rightarrow> bool" where
  "contiguous_at index selected siblings \<longleftrightarrow> take (length selected) (drop index siblings) = selected"

definition layer_group :: "json \<Rightarrow> string option \<Rightarrow> (string \<times> json) list \<Rightarrow> planned option" where
  "layer_group document actor params =
     (let layerIds = texts_of (map_of params ''layerIds''); name = text_of (map_of params ''name'')
      in if layerIds = [] \<or> \<not> distinct layerIds then None
         else
           (case layerParent document (hd layerIds) of
              None \<Rightarrow> None
            | Some (parentId, siblings) \<Rightarrow>
                if \<not> list_all (\<lambda>ident. map_option fst (layerParent document ident) = Some parentId) layerIds then None
                else
                  (let selected = filter (\<lambda>ident. ident \<in> set layerIds) siblings;
                       index = indexOf (hd selected) siblings
                   in if \<not> contiguous_at index selected siblings then None
                      else
                        (let (ids, cursor_patch) = allocateIds document actor [''l'']; layerId = ids ! 0
                         in Some
                              (cursor_patch # OpAdd [Key ''layers'', Key layerId] (new_group layerId name selected) #
                               parentListPatches document parentId (splice index (length selected) layerId siblings) @
                               layerOrderPatches document selected,
                               Some \<lparr>cr_layer = Some layerId, cr_mask = None, cr_resource = None\<rparr>)))))"

definition layer_update :: "json \<Rightarrow> (string \<times> json) list \<Rightarrow> planned option" where
  "layer_update document params =
     (case getLayer document (text_of (map_of params ''layerId'')) of
        None \<Rightarrow> None
      | Some layer \<Rightarrow>
          Some ([OpReplace [Key ''layers'', Key (text_of (field layer ''id''))]
                  (spread layer (without_key ''layerId'' params)) layer], None))"

definition new_raster_layer :: "string \<Rightarrow> string \<Rightarrow> string \<Rightarrow> json \<Rightarrow> json" where
  "new_raster_layer layerId name resource sourceRect =
     JObj [(''id'', JStr layerId), (''kind'', JStr ''raster''), (''name'', JStr name), (''visible'', JBool True),
           (''opacity'', JNum 65535), (''transform'', identity_transform), (''blendMode'', JStr ''normal''),
           (''clipping'', JStr ''none''), (''maskIds'', JArr []), (''resourceId'', JStr resource),
           (''sourceRect'', sourceRect)]"

definition index_within :: "rat \<Rightarrow> nat \<Rightarrow> bool" where
  "index_within index upper \<longleftrightarrow> is_safe_integer index \<and> 0 \<le> index \<and> index \<le> of_nat upper"

definition add_raster_layer :: "json \<Rightarrow> string option \<Rightarrow> (string \<times> json) list \<Rightarrow> planned option" where
  "add_raster_layer document actor params =
     (let parentId = parent_param (map_of params ''parentId''); index = number_of (map_of params ''index'')
      in case parentChildren document parentId of
           None \<Rightarrow> None
         | Some siblings \<Rightarrow>
             if \<not> index_within index (length siblings) then None
             else
               (let (ids, cursor_patch) = allocateIds document actor [''r'', ''l''];
                    resource = ids ! 0; layerId = ids ! 1
                in Some
                     (cursor_patch #
                      OpAdd [Key ''resources'', Key resource] (resourceInput (present (map_of params ''resource'')) resource) #
                      OpAdd [Key ''layers'', Key layerId]
                        (new_raster_layer layerId (text_of (map_of params ''name'')) resource (present (map_of params ''sourceRect''))) #
                      parentListPatches document parentId (splice (index_of index) 0 layerId siblings),
                      Some \<lparr>cr_layer = Some layerId, cr_mask = None, cr_resource = Some resource\<rparr>)))"

definition layer_move :: "json \<Rightarrow> (string \<times> json) list \<Rightarrow> planned option" where
  "layer_move document params =
     (let layerId = text_of (map_of params ''layerId''); parentId = parent_param (map_of params ''parentId'');
          index = number_of (map_of params ''index'')
      in case (layerParent document layerId, parentChildren document parentId) of
           (Some (sourceId, siblings), Some destination) \<Rightarrow>
             if \<not> is_safe_integer index then None
             else
               (let sourceChildren = filter (\<lambda>ident. ident \<noteq> layerId) siblings;
                    destinationChildren = (if sourceId = parentId then sourceChildren else destination)
                in if \<not> index_within index (length destinationChildren) then None
                   else
                     (let moved = splice (index_of index) 0 layerId destinationChildren
                      in if sourceId = parentId then Some (parentListPatches document sourceId moved, None)
                         else Some (parentListPatches document sourceId sourceChildren @
                                parentListPatches document parentId moved, None)))
         | _ \<Rightarrow> None)"

definition drop_unreferenced :: "json \<Rightarrow> string list \<Rightarrow> string list \<Rightarrow> patch_op list" where
  "drop_unreferenced document candidates referenced =
     map (\<lambda>ident. OpRemove [Key ''resources'', Key ident] (present (map_of (resources_of document) ident)))
       (filter (\<lambda>ident. ident \<notin> set referenced) candidates)"

definition layer_remove :: "json \<Rightarrow> (string \<times> json) list \<Rightarrow> planned option" where
  "layer_remove document params =
     (let layerId = text_of (map_of params ''layerId'')
      in case (getLayer document layerId, layerParent document layerId) of
           (Some layer, Some (parentId, siblings)) \<Rightarrow>
             (let ident = text_of (field layer ''id'');
                  removedLayers = descendantIds document ident;
                  layer_at = (\<lambda>i. present (getLayer document i));
                  mask_at = (\<lambda>i. present (map_of (masks_of document) i));
                  removedMasks = set_order (concat (map (\<lambda>i. maskIds (layer_at i)) removedLayers));
                  referenced = referencedResources document removedLayers removedMasks;
                  removedResources = set_order
                    (map (\<lambda>i. resourceId (layer_at i)) (filter (\<lambda>i. layer_kind (layer_at i) = ''raster'') removedLayers) @
                     map (\<lambda>i. resourceId (mask_at i)) removedMasks)
              in Some
                   (parentListPatches document parentId (filter (\<lambda>i. i \<noteq> ident) siblings) @
                    map (\<lambda>i. OpRemove [Key ''masks'', Key i] (mask_at i)) removedMasks @
                    map (\<lambda>i. OpRemove [Key ''layers'', Key i] (layer_at i)) removedLayers @
                    drop_unreferenced document removedResources referenced, None))
         | _ \<Rightarrow> None)"

definition mask_update :: "json \<Rightarrow> (string \<times> json) list \<Rightarrow> planned option" where
  "mask_update document params =
     (case map_of (masks_of document) (text_of (map_of params ''maskId'')) of
        None \<Rightarrow> None
      | Some msk \<Rightarrow>
          Some ([OpReplace [Key ''masks'', Key (text_of (field msk ''id''))] (spread msk (without_key ''maskId'' params)) msk], None))"

definition new_raster_mask :: "string \<Rightarrow> string \<Rightarrow> string \<Rightarrow> json \<Rightarrow> json" where
  "new_raster_mask maskId owner resource sourceRect =
     JObj [(''id'', JStr maskId), (''kind'', JStr ''raster''), (''ownerLayerId'', JStr owner), (''enabled'', JBool True),
           (''invert'', JBool False), (''opacity'', JNum 65535), (''transform'', identity_transform),
           (''combineMode'', JStr ''multiply''), (''channel'', JStr ''alpha''), (''resourceId'', JStr resource),
           (''sourceRect'', sourceRect)]"

definition set_masks :: "json \<Rightarrow> json \<Rightarrow> string list \<Rightarrow> patch_op" where
  "set_masks document owner ids =
     OpReplace [Key ''layers'', Key (text_of (field owner ''id''))] (spread owner [(''maskIds'', id_list ids)]) owner"

definition add_raster_mask :: "json \<Rightarrow> string option \<Rightarrow> (string \<times> json) list \<Rightarrow> planned option" where
  "add_raster_mask document actor params =
     (let index = number_of (map_of params ''index'')
      in case getLayer document (text_of (map_of params ''ownerLayerId'')) of
           None \<Rightarrow> None
         | Some owner \<Rightarrow>
             if \<not> index_within index (length (maskIds owner)) then None
             else
               (let (ids, cursor_patch) = allocateIds document actor [''r'', ''m''];
                    resource = ids ! 0; maskId = ids ! 1
                in Some
                     ([cursor_patch,
                       OpAdd [Key ''resources'', Key resource] (resourceInput (present (map_of params ''resource'')) resource),
                       OpAdd [Key ''masks'', Key maskId]
                         (new_raster_mask maskId (text_of (field owner ''id'')) resource (present (map_of params ''sourceRect''))),
                       set_masks document owner (splice (index_of index) 0 maskId (maskIds owner))],
                      Some \<lparr>cr_layer = None, cr_mask = Some maskId, cr_resource = Some resource\<rparr>)))"

definition mask_remove :: "json \<Rightarrow> (string \<times> json) list \<Rightarrow> planned option" where
  "mask_remove document params =
     (case map_of (masks_of document) (text_of (map_of params ''maskId'')) of
        None \<Rightarrow> None
      | Some msk \<Rightarrow>
          (case getLayer document (text_of (field msk ''ownerLayerId'')) of
             None \<Rightarrow> None
           | Some owner \<Rightarrow>
               (let maskId = text_of (field msk ''id'')
                in Some
                     (set_masks document owner (filter (\<lambda>i. i \<noteq> maskId) (maskIds owner)) #
                      OpRemove [Key ''masks'', Key maskId] msk #
                      drop_unreferenced document [resourceId msk] (referencedResources document [] [maskId]), None))))"

definition commandPatches :: "json \<Rightarrow> image_invocation \<Rightarrow> planned option" where
  "commandPatches document invocation =
     (let command = ii_command invocation; params = ii_params invocation; actor = ii_actor invocation
      in if command = ''image.canvas.crop'' then canvas_crop document params
         else if command = ''image.canvas.resize'' then canvas_resize document params
         else if command = ''image.canvas.update'' then canvas_update document params
         else if command = ''image.output.update'' then output_update document params
         else if command = ''image.layer.group'' then layer_group document actor params
         else if command = ''image.layer.update'' then layer_update document params
         else if command = ''image.layer.addRaster'' then add_raster_layer document actor params
         else if command = ''image.layer.move'' then layer_move document params
         else if command = ''image.layer.remove'' then layer_remove document params
         else if command = ''image.mask.update'' then mask_update document params
         else if command = ''image.mask.addRaster'' then add_raster_mask document actor params
         else if command = ''image.mask.remove'' then mask_remove document params
         else None)"

section \<open>Planning\<close>

record command_plan =
  pl_invocation :: image_invocation
  pl_document :: json
  pl_forward :: "patch_op list"
  pl_redo :: "patch_op list"
  pl_inverse :: "patch_op list"
  pl_created :: "created_ids option"

fun own_patch :: "patch_op \<Rightarrow> bool" where
  "own_patch (OpAdd p v) = is_ok (reown (default_limits True) v)"
| "own_patch (OpReplace p v old) = is_ok (reown (default_limits True) v)"
| "own_patch (OpRemove p old) = True"

definition own_patches :: "patch_op list \<Rightarrow> bool" where
  "own_patches patches = list_all own_patch patches"

definition failure :: "string \<Rightarrow> diagnostic list + command_plan" where
  "failure code = Inl [error_diag code]"

definition is_allocation_op :: "patch_op \<Rightarrow> bool" where
  "is_allocation_op op = (case op_path op of s # _ \<Rightarrow> s = Key ''allocation'' | [] \<Rightarrow> False)"

definition planImageDocumentCommand ::
  "(nat list \<Rightarrow> string) \<Rightarrow> json \<Rightarrow> foreign \<Rightarrow> diagnostic list + command_plan" where
  "planImageDocumentCommand blake3_hex document v =
     (case decodeInvocation v of
        None \<Rightarrow> failure ''image.command.invalid''
      | Some invocation \<Rightarrow>
          (case commandPatches document invocation of
             None \<Rightarrow> failure ''image.command.refused''
           | Some (patches, created) \<Rightarrow>
               if \<not> own_patches patches then failure ''image.command.invalid''
               else
                 (case applyOwnedOps document patches of
                    Inl e \<Rightarrow> failure ''image.command.refused''
                  | Inr candidate \<Rightarrow>
                      (case loadImageDocument blake3_hex default_load (foreign_of_json candidate) of
                         (None, ds) \<Rightarrow> Inl ds
                       | (Some loaded, ds) \<Rightarrow>
                           (let redo = filter (\<lambda>op. \<not> is_allocation_op op) patches
                            in Inr \<lparr>pl_invocation = invocation, pl_document = loaded, pl_forward = patches, pl_redo = redo,
                                    pl_inverse = invertOps redo, pl_created = created\<rparr>)))))"

end
