(* ===== verification/ImageScale.thy ===== *)
theory ImageScale
  imports ImageCommands
begin

text \<open>Scaling on resize: \<open>divideRoundEven\<close> is the nearest integer to the quotient, the even one on a tie.\<close>

definition nearest_even :: "int \<Rightarrow> int \<Rightarrow> int \<Rightarrow> bool" where
  "nearest_even n d q \<longleftrightarrow> 2 * \<bar>q * d - n\<bar> \<le> d \<and> (2 * \<bar>q * d - n\<bar> = d \<longrightarrow> even q)"

lemma nearest_even_neg: "nearest_even (- n) d (- q) \<longleftrightarrow> nearest_even n d q"
proof -
  have "- q * d - - n = - (q * d - n)" by simp
  then have "\<bar>- q * d - - n\<bar> = \<bar>q * d - n\<bar>" by (simp only: abs_minus_cancel)
  then show ?thesis by (simp add: nearest_even_def)
qed

lemma nearest_even_division:
  assumes "0 < d" and "q = (if m * 2 > d \<or> (m * 2 = d \<and> k mod 2 = 1) then k + 1 else k)" and "0 \<le> m" and "m < d"
  shows "nearest_even (k * d + m) d (q :: int)"
proof (cases "m * 2 > d \<or> (m * 2 = d \<and> k mod 2 = 1)")
  case True
  then have q: "q = k + 1" using assms(2) by simp
  then have "\<bar>q * d - (k * d + m)\<bar> = d - m" using assms(4) by (simp add: distrib_right)
  moreover have "2 * (d - m) = d \<longrightarrow> even q" using True q by presburger
  moreover have "2 * (d - m) \<le> d" using True by presburger
  ultimately show ?thesis unfolding nearest_even_def by simp
next
  case False
  then have q: "q = k" using assms(2) by simp
  then have "\<bar>q * d - (k * d + m)\<bar> = m" using assms(3) by simp
  moreover have "2 * m = d \<longrightarrow> even q" using False q by presburger
  moreover have "2 * m \<le> d" using False by presburger
  ultimately show ?thesis unfolding nearest_even_def by simp
qed

text \<open>The quotient before its conversion to a number.\<close>

definition round_quotient :: "int \<Rightarrow> int \<Rightarrow> int" where
  "round_quotient n d =
     (let q = \<bar>n\<bar> div d; m = \<bar>n\<bar> mod d; r = (if m * 2 > d \<or> (m * 2 = d \<and> q mod 2 = 1) then q + 1 else q)
      in if n < 0 then - r else r)"

lemma divideRoundEven_quotient: "divideRoundEven n d = Number_of_BigInt (round_quotient n d)"
proof -
  have "(if n < 0 then - n else n) = \<bar>n\<bar>" by simp
  then show ?thesis unfolding divideRoundEven_def round_quotient_def Let_def by (simp only:)
qed

lemma round_quotient_nearest:
  assumes "0 < d"
  shows "nearest_even n d (round_quotient n d)"
proof -
  define a where "a = \<bar>n\<bar>"
  define q where "q = (if a mod d * 2 > d \<or> (a mod d * 2 = d \<and> a div d mod 2 = 1) then a div d + 1 else a div d)"
  have "nearest_even (a div d * d + a mod d) d q"
    using nearest_even_division [OF assms q_def] assms by simp
  then have n: "nearest_even a d q" by simp
  have "round_quotient n d = (if n < 0 then - q else q)" by (simp add: round_quotient_def Let_def q_def a_def)
  then show ?thesis using n nearest_even_neg [of a d q] by (auto simp: a_def)
qed

lemma half_sums:
  fixes a b c d :: int
  assumes "2 * a \<le> d" and "2 * b \<le> d" and "c \<le> a + b"
  shows "c \<le> d" and "c = d \<Longrightarrow> 2 * a = d \<and> 2 * b = d"
  using assms by linarith+

lemma two_halves:
  fixes x y n d :: int
  assumes "2 * \<bar>x - n\<bar> \<le> d" and "2 * \<bar>y - n\<bar> \<le> d"
  shows "\<bar>x - y\<bar> \<le> d" and "\<bar>x - y\<bar> = d \<Longrightarrow> 2 * \<bar>x - n\<bar> = d \<and> 2 * \<bar>y - n\<bar> = d"
proof -
  have "\<bar>x - y\<bar> \<le> \<bar>x - n\<bar> + \<bar>y - n\<bar>" using abs_triangle_ineq4 [of "x - n" "y - n"] by simp
  note h = half_sums [OF assms this]
  show "\<bar>x - y\<bar> \<le> d" by (rule h(1))
  show "\<bar>x - y\<bar> = d \<Longrightarrow> 2 * \<bar>x - n\<bar> = d \<and> 2 * \<bar>y - n\<bar> = d" by (rule h(2))
qed

lemma nearest_even_unique:
  assumes "0 < d" and "nearest_even n d p" and "nearest_even n d q"
  shows "p = q"
proof (rule ccontr)
  assume ne: "p \<noteq> q"
  have h: "2 * \<bar>p * d - n\<bar> \<le> d" "2 * \<bar>q * d - n\<bar> \<le> d" using assms(2,3) by (simp_all add: nearest_even_def)
  note b = two_halves [OF this]
  have e: "\<bar>p * d - q * d\<bar> = \<bar>p - q\<bar> * d" using assms(1) by (simp add: abs_mult left_diff_distrib [symmetric])
  have "\<bar>p - q\<bar> \<le> 1" using b(1) e assms(1) mult_le_cancel_right [of "\<bar>p - q\<bar>" d 1] by simp
  then have one: "\<bar>p - q\<bar> = 1" using ne by linarith
  then have "\<bar>p * d - q * d\<bar> = d" using e by simp
  note tie = b(2) [OF this]
  have "even p" "even q" using assms(2,3) tie unfolding nearest_even_def by blast+
  then show False using one by presburger
qed

section \<open>Conversion to a number\<close>

lemma bit_length_bounds: "n < 2 ^ bit_length n \<and> (0 < n \<longrightarrow> 2 ^ bit_length n \<le> 2 * n)"
proof (induction n rule: bit_length.induct)
  case (1 n)
  show ?case
  proof (cases "n = 0")
    case False
    then have "n div 2 < 2 ^ bit_length (n div 2)" "0 < n div 2 \<longrightarrow> 2 ^ bit_length (n div 2) \<le> 2 * (n div 2)"
      using 1 by blast+
    moreover have "bit_length n = Suc (bit_length (n div 2))" using False by (simp add: bit_length.simps [of n])
    moreover have "bit_length 0 = 0" by (simp add: bit_length.simps)
    ultimately show ?thesis using False by (cases "n div 2 = 0") auto
  qed (simp add: bit_length.simps)
qed

lemma bit_length_le: "n \<le> 2 ^ k \<Longrightarrow> bit_length n \<le> Suc k"
proof (rule ccontr)
  assume n: "n \<le> 2 ^ k" and "\<not> bit_length n \<le> Suc k"
  then have "(2 :: nat) ^ Suc (Suc k) \<le> 2 ^ bit_length n" by (intro power_increasing) simp_all
  moreover have "2 ^ bit_length n \<le> 2 * n" if "0 < n" using bit_length_bounds that by blast
  ultimately show False using n \<open>\<not> bit_length n \<le> Suc k\<close> by (cases "n = 0") (auto simp: bit_length.simps)
qed

lemma round_even_close: "2 * \<bar>of_int (round_even r) - r\<bar> \<le> 1"
proof -
  have "of_int \<lfloor>r\<rfloor> \<le> r" "r < of_int \<lfloor>r\<rfloor> + 1" by linarith+
  then show ?thesis unfolding round_even_def Let_def by (auto split: if_splits)
qed

lemma round_even_int [simp]: "round_even (of_int k) = k"
  by (simp add: round_even_def Let_def)

lemma Number_error: "2 ^ 53 * \<bar>Number_of_BigInt x - x\<bar> \<le> \<bar>x\<bar>"
proof -
  define a e where ae: "a = \<bar>x\<bar>" "e = bit_length (nat \<bar>x\<bar>) - 53"
  define y where "y = round_even (of_int a / 2 ^ e)"
  have "Number_of_BigInt x = sgn x * (y * 2 ^ e)" by (simp add: Number_of_BigInt_def Let_def ae y_def)
  moreover have "x = sgn x * a" by (simp add: ae sgn_if)
  ultimately have "Number_of_BigInt x - x = sgn x * (y * 2 ^ e - a)" by (simp add: right_diff_distrib)
  then have diff: "\<bar>Number_of_BigInt x - x\<bar> \<le> \<bar>y * 2 ^ e - a\<bar>" by (simp add: abs_mult sgn_if)
  show ?thesis
  proof (cases "e = 0")
    case True
    then have "y = a" by (simp add: y_def)
    then show ?thesis using diff True ae(1) by simp
  next
    case False
    have "2 * \<bar>of_int y - of_int a / 2 ^ e\<bar> \<le> (1 :: rat)" unfolding y_def by (rule round_even_close)
    then have "2 * \<bar>of_int y - of_int a / 2 ^ e\<bar> * 2 ^ e \<le> (1 :: rat) * 2 ^ e" by (rule mult_right_mono) simp
    then have "2 * (\<bar>of_int y - of_int a / 2 ^ e\<bar> * 2 ^ e) \<le> (2 ^ e :: rat)" by (simp only: mult.assoc mult_1_left)
    moreover have "\<bar>of_int y - of_int a / 2 ^ e\<bar> * 2 ^ e = \<bar>of_int y * 2 ^ e - (of_int a :: rat)\<bar>"
    proof -
      have "(of_int y - of_int a / 2 ^ e) * 2 ^ e = of_int y * 2 ^ e - (of_int a :: rat)"
        by (simp add: left_diff_distrib)
      then show ?thesis by (metis abs_mult abs_of_nonneg zero_le_numeral zero_le_power)
    qed
    ultimately have "2 * \<bar>of_int y * 2 ^ e - of_int a\<bar> \<le> (2 ^ e :: rat)" by (simp only:)
    then have "of_int (2 * \<bar>y * 2 ^ e - a\<bar>) \<le> (of_int (2 ^ e) :: rat)" by simp
    then have near: "2 * \<bar>y * 2 ^ e - a\<bar> \<le> 2 ^ e" unfolding of_int_le_iff .
    have e: "bit_length (nat \<bar>x\<bar>) = e + 53" using False ae(2) by simp
    then have "0 < nat \<bar>x\<bar>" by (cases "nat \<bar>x\<bar> = 0") (auto simp: bit_length.simps)
    then have "2 ^ (e + 53) \<le> 2 * nat \<bar>x\<bar>" using bit_length_bounds [of "nat \<bar>x\<bar>"] e by simp
    then have "int (2 ^ (e + 53)) \<le> int (2 * nat \<bar>x\<bar>)" by (simp only: of_nat_le_iff)
    then have "2 ^ e * 2 ^ 53 \<le> 2 * a" by (simp add: ae(1) power_add)
    then show ?thesis using near diff unfolding ae(1) by simp
  qed
qed

lemma Number_exact:
  assumes "\<bar>x\<bar> \<le> 2 ^ 53"
  shows "Number_of_BigInt x = x"
proof (cases "\<bar>x\<bar> = 2 ^ 53")
  case True
  then have n: "nat \<bar>x\<bar> = 2 ^ 53" by simp
  define k where "k = bit_length (nat \<bar>x\<bar>)"
  have "(2 :: nat) ^ 53 < 2 ^ k" "(2 :: nat) ^ k \<le> 2 ^ 54"
    using bit_length_bounds [of "nat \<bar>x\<bar>"] unfolding k_def n by simp_all
  then have "53 < k" "k \<le> 54"
    using power_less_imp_less_exp [of "2 :: nat" 53 k] power_le_imp_le_exp [of "2 :: nat" k 54] by auto
  then have one: "k - 53 = 1" by simp
  have "Number_of_BigInt x = sgn x * (round_even (of_int (2 ^ 53) / 2) * 2)"
    unfolding Number_of_BigInt_def Let_def k_def [symmetric] one unfolding True by simp
  also have "of_int (2 ^ 53) / 2 = (of_int (2 ^ 52) :: rat)" by simp
  also have "sgn x * (round_even (of_int (2 ^ 52)) * 2) = sgn x * \<bar>x\<bar>" unfolding round_even_int True by simp
  finally show ?thesis by (simp add: sgn_mult_abs)
next
  case False
  then have "\<bar>x\<bar> < 2 ^ 53" using assms by simp
  with Number_error [of x] have "2 ^ 53 * \<bar>Number_of_BigInt x - x\<bar> < 2 ^ 53 * 1" by linarith
  then show ?thesis unfolding mult_less_cancel_left_pos [OF zero_less_power [OF zero_less_numeral]] by simp
qed

lemma nearest_even_bound:
  assumes "0 < d" and "nearest_even n d q" and "\<bar>n\<bar> \<le> 2 ^ 53 * d"
  shows "\<bar>q\<bar> \<le> 2 ^ 53"
proof (rule ccontr)
  assume "\<not> \<bar>q\<bar> \<le> 2 ^ 53"
  then have "(2 ^ 53 + 1) * d \<le> \<bar>q\<bar> * d" using assms(1) by (intro mult_right_mono) simp_all
  moreover have "\<bar>q\<bar> * d = \<bar>q * d\<bar>" using assms(1) by (simp add: abs_mult)
  moreover have "2 * \<bar>q * d - n\<bar> \<le> d" using assms(2) by (simp add: nearest_even_def)
  moreover have "\<bar>q * d\<bar> \<le> \<bar>n\<bar> + \<bar>q * d - n\<bar>" by linarith
  ultimately have "(2 ^ 53 + 1) * d \<le> 2 ^ 53 * d + \<bar>q * d - n\<bar>" "2 * \<bar>q * d - n\<bar> \<le> d" using assms(3) by linarith+
  then show False using assms(1) by (simp add: distrib_right)
qed

text \<open>C39: scaling rounds correctly. For a positive denominator and a quotient of at most \<open>2 ^ 53\<close>, \<open>divideRoundEven\<close>
  gives exactly the integer within a half of the quotient, and of two integers at a half the even one: scaling a
  transform on a canvas resize is off by at most half a unit, without drift to either side. For larger quotients
  the same integer loses at most one part in \<open>2 ^ 53\<close> to its conversion to a number.\<close>

theorem divideRoundEven_exact:
  assumes "0 < d"
  shows "(\<bar>n\<bar> \<le> 2 ^ 53 * d \<longrightarrow>
      (divideRoundEven n d = p \<longleftrightarrow> 2 * \<bar>p * d - n\<bar> \<le> d \<and> (2 * \<bar>p * d - n\<bar> = d \<longrightarrow> even p))) \<and>
    (\<exists>q. 2 * \<bar>q * d - n\<bar> \<le> d \<and> (2 * \<bar>q * d - n\<bar> = d \<longrightarrow> even q) \<and>
      2 ^ 53 * \<bar>divideRoundEven n d - q\<bar> \<le> \<bar>q\<bar>)"
proof (intro conjI impI)
  note q = round_quotient_nearest [OF assms, of n]
  {
    assume n: "\<bar>n\<bar> \<le> 2 ^ 53 * d"
    have "divideRoundEven n d = round_quotient n d"
      using Number_exact [OF nearest_even_bound [OF assms q n]] by (simp add: divideRoundEven_quotient)
    then show "divideRoundEven n d = p \<longleftrightarrow> 2 * \<bar>p * d - n\<bar> \<le> d \<and> (2 * \<bar>p * d - n\<bar> = d \<longrightarrow> even p)"
      using q nearest_even_unique [OF assms q, of p] unfolding nearest_even_def by metis
  }
  show "\<exists>q. 2 * \<bar>q * d - n\<bar> \<le> d \<and> (2 * \<bar>q * d - n\<bar> = d \<longrightarrow> even q) \<and>
      2 ^ 53 * \<bar>divideRoundEven n d - q\<bar> \<le> \<bar>q\<bar>"
    using q Number_error [of "round_quotient n d"] unfolding divideRoundEven_quotient nearest_even_def by blast
qed

theorem divideRoundEven_exact_witness: "divideRoundEven 5 2 = 2 \<and> divideRoundEven (- 7) 2 = - 4"
  using divideRoundEven_exact [of 2 5 2] divideRoundEven_exact [of 2 "- 7" "- 4"] by simp

end
