(* ===== verification/ImagePlan.thy ===== *)
theory ImagePlan
  imports ImageCommands
begin

text \<open>
  What every command's patches have in common: the old values they record are the document's, ops that
  need an old value are apart from every op before them, all values are well formed, and all paths start at a
  member of the document other than its format. Hence the patches are undone by their inverse.
\<close>

section \<open>Patches that read the document they start from\<close>

fun apart :: "path \<Rightarrow> path \<Rightarrow> bool" where
  "apart (Key a # p) (Key b # q) \<longleftrightarrow> (if a = b then apart p q else True)"
| "apart _ _ \<longleftrightarrow> False"

fun is_add :: "patch_op \<Rightarrow> bool" where
  "is_add (OpAdd p v) = True"
| "is_add _ = False"

fun steady :: "patch_op list \<Rightarrow> bool" where
  "steady [] \<longleftrightarrow> True"
| "steady (x # xs) \<longleftrightarrow> list_all (\<lambda>y. is_add y \<or> apart (op_path x) (op_path y)) xs \<and> steady xs"

fun reads :: "json \<Rightarrow> patch_op \<Rightarrow> bool" where
  "reads d (OpAdd p v) \<longleftrightarrow> True"
| "reads d (OpRemove p old) \<longleftrightarrow> getAtPath d p = Some old"
| "reads d (OpReplace p v old) \<longleftrightarrow> getAtPath d p = Some old"

lemma steady_append [simp]:
  "steady (xs @ ys) \<longleftrightarrow> steady xs \<and> steady ys \<and>
     list_all (\<lambda>x. list_all (\<lambda>y. is_add y \<or> apart (op_path x) (op_path y)) ys) xs"
  by (induction xs) auto

lemma apart_split: "apart p q \<Longrightarrow> \<exists>pre a b r s. p = pre @ Key a # r \<and> q = pre @ Key b # s \<and> a \<noteq> b"
proof (induction p q rule: apart.induct)
  case (1 a p b q)
  show ?case
  proof (cases "a = b")
    case True
    with 1 obtain pre x y r s where "p = pre @ Key x # r" "q = pre @ Key y # s" "x \<noteq> y" by auto
    then show ?thesis using True by (metis append_Cons)
  qed (metis append_Nil)
qed simp_all

lemma applyOp_apart: "applyOp d x = Inr d' \<Longrightarrow> apart (op_path x) q \<Longrightarrow> getAtPath d' q = getAtPath d q"
  using apart_split [of "op_path x" q] applyAt_frame unfolding applyOp_def by metis

lemma applyOwnedOps_apart:
  "applyOwnedOps d ops = Inr d' \<Longrightarrow> list_all (\<lambda>x. apart (op_path x) q) ops \<Longrightarrow> getAtPath d' q = getAtPath d q"
proof (induction ops arbitrary: d)
  case (Cons x xs)
  then obtain d1 where d1: "applyOp d x = Inr d1" "applyOwnedOps d1 xs = Inr d'" by (auto simp: result_simps)
  then show ?case using Cons applyOp_apart [OF d1(1)] by simp
qed simp

lemma reads_apart: "reads d y \<Longrightarrow> is_add y \<or> apart (op_path x) (op_path y) \<Longrightarrow> applyOp d x = Inr d1 \<Longrightarrow> reads d1 y"
  using applyOp_apart by (cases y) auto

lemma reads_recorded: "reads d x \<Longrightarrow> wf_json d \<Longrightarrow> recorded d x"
  by (cases x) (auto simp: jsonSameValue_abs dest: getAtPath_wf)

lemma steady_recorded:
  assumes "list_all (reads d) ops" and "steady ops" and "applyOwnedOps d ops = Inr d'" and "wf_json d" and "list_all wf_op ops"
  shows "recorded_run d ops"
  using assms
proof (induction ops arbitrary: d)
  case (Cons x xs)
  then obtain d1 where d1: "applyOp d x = Inr d1" "applyOwnedOps d1 xs = Inr d'" by (auto simp: result_simps)
  have "list_all (reads d1) xs"
    using Cons.prems(1,2) reads_apart [OF _ _ d1(1)] by (auto simp: list_all_iff)
  then show ?case
    using Cons.IH [OF _ _ d1(2)] Cons.prems reads_recorded applyOp_wf [OF d1(1)] d1(1) by simp
qed simp

section \<open>Sound patches\<close>

definition doc_op :: "patch_op \<Rightarrow> bool" where
  "doc_op op \<longleftrightarrow> (\<exists>k p. op_path op = Key k # p \<and> k \<noteq> ''formatVersion'' \<and> k \<noteq> proto_key)"

definition sound_ops :: "json \<Rightarrow> patch_op list \<Rightarrow> bool" where
  "sound_ops d ops \<longleftrightarrow> list_all (reads d) ops \<and> steady ops \<and> list_all wf_op ops \<and> list_all doc_op ops"

lemma field_path: "field d k = getAtPath d [Key k]"
  by (cases d) (simp_all add: field_def split: option.splits)

lemma doc_ops_version:
  assumes "list_all doc_op ops" and "applyOwnedOps d ops = Inr d'"
  shows "field d' ''formatVersion'' = field d ''formatVersion''"
proof -
  have "apart (op_path x) [Key ''formatVersion'']" if "doc_op x" for x using that by (auto simp: doc_op_def)
  then have "getAtPath d' [Key ''formatVersion''] = getAtPath d [Key ''formatVersion'']"
    using assms(1) by (intro applyOwnedOps_apart [OF assms(2)]) (auto simp: list_all_iff)
  then show ?thesis by (simp add: field_path)
qed

text \<open>Loading the result of such patches gives that result: the migration has nothing to do.\<close>

lemma doc_ops_loaded:
  assumes "list_all wf_op ops" and "list_all doc_op ops" and "loads blake d" and "applyOwnedOps d ops = Inr d'"
    and "loadImageDocument blake default_load (foreign_of_json d') = (Some e, ds)"
  shows "e = d' \<and> loads blake e"
proof -
  have wf: "wf_json d" and v: "validateImageDocumentShape blake d IMAGE_DOCUMENT_FORMAT_VERSION = []"
    using assms(3) by (simp_all add: loads_def)
  have wf': "wf_json d'"
    using patch.run_valid [OF assms(4) [unfolded applyOwnedOps_def]] wf assms(1) by simp
  from load_Some [of "fst (foreign_of_json d')" blake "snd (foreign_of_json d')" e ds] assms(5) foreign_of_json_denotes(2) [OF wf']
  obtain raw where l: "loads blake e" "ownJson (image_limits MAX_IMAGE_DOCUMENT_BYTES) (fst (foreign_of_json d')) (snd (foreign_of_json d')) = Inr (JObj raw)"
    "e = JObj (AList.update ''formatVersion'' (JNum 2) raw)" by auto
  have raw: "d' = JObj raw" using l(2) reown_iff [OF wf'] by (simp add: reown_def)
  have "field d ''formatVersion'' = Some (JNum 2)"
    using shape_version [OF v] by (auto simp: IMAGE_DOCUMENT_FORMAT_VERSION_def)
  then have "map_of raw ''formatVersion'' = Some (JNum 2)"
    using doc_ops_version [OF assms(2,4)] raw by simp
  then have "e = d'" using l(3) raw by (simp add: map_update_same)
  then show ?thesis using l(1) by simp
qed

end
