(* ===== verification/ImageReads.thy ===== *)
theory ImageReads
  imports ImagePlan
begin

text \<open>
  Reading a document that loads: where its parts are, and that the patches built from them record them.
\<close>

section \<open>Where the parts are\<close>

lemma child_field [simp]: "child_at d (Key k) = field d k"
  by (cases d) (simp_all add: field_def)

lemma map_path: "getAtPath d (Key k # Key x # p) = (case map_of (doc_map d k) x of None \<Rightarrow> None | Some v \<Rightarrow> getAtPath v p)"
proof (cases "field d k")
  case (Some v)
  then show ?thesis by (cases v) (simp_all add: doc_map_def field_def [of JNull] field_def [of "JBool _"] field_def [of "JNum _"]
      field_def [of "JStr _"] field_def [of "JArr _"] split: option.splits)
qed (simp add: doc_map_def)

lemma at_layer: "getLayer d x = Some l \<Longrightarrow> getAtPath d (Key ''layers'' # Key x # p) = getAtPath l p"
  by (simp del: getAtPath.simps add: map_path getLayer_def layers_of_def)

lemma at_mask: "map_of (masks_of d) x = Some m \<Longrightarrow> getAtPath d (Key ''masks'' # Key x # p) = getAtPath m p"
  by (simp del: getAtPath.simps add: map_path masks_of_def)

lemma at_resource: "map_of (resources_of d) x = Some r \<Longrightarrow> getAtPath d (Key ''resources'' # Key x # p) = getAtPath r p"
  by (simp del: getAtPath.simps add: map_path resources_of_def)

lemma loads_facts:
  assumes "loads blake d"
  shows loads_wf: "wf_json d" and loads_typed: "ImageDocument d" and loads_clean': "clean d"
    and loads_shape: "validateImageDocumentShape blake d IMAGE_DOCUMENT_FORMAT_VERSION = []"
  using assms loads_clean by (auto simp: loads_def)

lemma ts_record_field: "ts_record required optional v \<Longrightarrow> (k, P) \<in> set required \<Longrightarrow> \<exists>w. field v k = Some w \<and> P w"
  by (cases v) (auto simp: ts_record_def list_all_iff split: option.splits)

lemma ts_array_ex: "ts_array P v \<Longrightarrow> \<exists>xs. v = JArr xs"
  by (cases v) (simp_all add: ts_array_def)

lemma ts_record_ex: "ts_record required optional v \<Longrightarrow> \<exists>kvs. v = JObj kvs"
  by (cases v) (simp_all add: ts_record_def)

lemma typed_field: "ImageDocument d \<Longrightarrow> (k, P) \<in> set
    [(''canvas'', ImageCanvas), (''rootLayerIds'', ts_array ts_string), (''layers'', ts_map ImageLayer),
     (''masks'', ts_map ImageRasterMask), (''resources'', ts_map ImageRasterResource)] \<Longrightarrow> \<exists>w. field d k = Some w \<and> P w"
  unfolding ImageDocument_def by (erule ts_record_field) auto

lemma ts_map_entry: "ts_map P w \<Longrightarrow> kv \<in> set (entries_of (Some w)) \<Longrightarrow> P (snd kv)"
  by (cases w) (simp_all add: ts_map_def list_all_iff)

lemma typed_map_entry:
  "\<exists>w. field d k = Some w \<and> ts_map P w \<Longrightarrow> kv \<in> set (doc_map d k) \<Longrightarrow> P (snd kv)"
  unfolding doc_map_def by (metis ts_map_entry)

lemma typed_canvas: "ImageDocument d \<Longrightarrow> \<exists>cv. field d ''canvas'' = Some (JObj cv) \<and> ImageCanvas (JObj cv)"
  using typed_field [of d "''canvas''" ImageCanvas] ts_record_ex unfolding ImageCanvas_def by fastforce

lemma typed_roots: "ImageDocument d \<Longrightarrow> \<exists>xs. field d ''rootLayerIds'' = Some (JArr xs)"
  using typed_field [of d "''rootLayerIds''" "ts_array ts_string"] ts_array_ex by fastforce

lemma typed_layers: "ImageDocument d \<Longrightarrow> kv \<in> set (layers_of d) \<Longrightarrow> ImageLayer (snd kv)"
  unfolding layers_of_def by (rule typed_map_entry [OF typed_field]) auto

lemma typed_masks: "ImageDocument d \<Longrightarrow> kv \<in> set (masks_of d) \<Longrightarrow> ImageRasterMask (snd kv)"
  unfolding masks_of_def by (rule typed_map_entry [OF typed_field]) auto

lemma typed_resources: "ImageDocument d \<Longrightarrow> kv \<in> set (resources_of d) \<Longrightarrow> ImageRasterResource (snd kv)"
  unfolding resources_of_def by (rule typed_map_entry [OF typed_field]) auto

lemma layer_entry: "getLayer d x = Some l \<Longrightarrow> (x, l) \<in> set (layers_of d)"
  by (simp add: getLayer_def map_of_SomeD)

lemma layer_typed: "loads blake d \<Longrightarrow> getLayer d x = Some l \<Longrightarrow> ImageLayer l"
  using typed_layers [OF loads_typed] layer_entry by fastforce

lemma own_id: "own_ids kvs \<Longrightarrow> map_of kvs x = Some v \<Longrightarrow> text_of (field v ''id'') = x"
  using map_of_SomeD [of kvs x v] by (force simp: own_ids_def)

lemma layer_id: "loads blake d \<Longrightarrow> getLayer d x = Some l \<Longrightarrow> text_of (field l ''id'') = x"
  using loads_clean' own_id by (fastforce simp: clean_def getLayer_def)

lemma mask_id: "loads blake d \<Longrightarrow> map_of (masks_of d) x = Some m \<Longrightarrow> text_of (field m ''id'') = x"
  using loads_clean' own_id by (fastforce simp: clean_def)

lemma group_children:
  assumes "ImageLayer l" and "is_group_layer l"
  shows "\<exists>xs. field l ''childLayerIds'' = Some (JArr xs)"
proof -
  have "\<not> ImageRasterLayer l"
    using assms(2) ts_record_field [of _ _ l "''kind''" "ts_literal (JStr ''raster'')"]
    by (auto simp: ImageRasterLayer_def is_group_layer_def layer_kind_def)
  then have "ImageGroupLayer l" using assms(1) by (simp add: ImageLayer_def)
  from ts_record_field [OF this [unfolded ImageGroupLayer_def], of "''childLayerIds''" "ts_array ts_string"] show ?thesis
    using ts_array_ex by fastforce
qed

lemma layer_transform:
  assumes "ImageLayer l"
  shows "\<exists>kvs. field l ''transform'' = Some (JObj kvs)"
proof -
  have m: "(''transform'', ImageAffineTransform) \<in> set (ImageLayerBase @ more)" for more by (simp add: ImageLayerBase_def)
  have "\<exists>w. field l ''transform'' = Some w \<and> ImageAffineTransform w"
    using assms ts_record_field [OF _ m] unfolding ImageLayer_def ImageGroupLayer_def ImageRasterLayer_def by metis
  then show ?thesis using ts_record_ex unfolding ImageAffineTransform_def by blast
qed

lemma layer_wf: "loads blake d \<Longrightarrow> getLayer d x = Some l \<Longrightarrow> wf_json l"
  using getAtPath_wf [of d "[Key ''layers'', Key x]" l] loads_wf at_layer [of d x l "[]"] by simp

lemma mask_wf: "loads blake d \<Longrightarrow> map_of (masks_of d) x = Some m \<Longrightarrow> wf_json m"
  using getAtPath_wf [of d "[Key ''masks'', Key x]" m] loads_wf at_mask [of d x m "[]"] by simp

section \<open>Well-formed values\<close>

lemma wf_id_list [simp]: "wf_json (id_list ids)"
  by (simp add: id_list_def list_all_iff)

definition wf_changes :: "(string \<times> json) list \<Rightarrow> bool" where
  "wf_changes kvs \<longleftrightarrow> list_all (\<lambda>kv. fst kv \<noteq> proto_key \<and> wf_json (snd kv)) kvs"

lemma wf_spread: "wf_json v \<Longrightarrow> wf_changes changes \<Longrightarrow> wf_json (spread v changes)"
proof -
  assume v: "wf_json v" and c: "wf_changes changes"
  have "wf_json (JObj (fold (\<lambda>kv. AList.update (fst kv) (snd kv)) changes kvs))" if "wf_json (JObj kvs)" for kvs
    using c that by (induction changes arbitrary: kvs) (simp_all add: wf_changes_def wf_json_update del: wf_json.simps)
  then show "wf_json (spread v changes)" using v by (cases v) (simp_all add: spread_def)
qed

lemma wf_changes_simps [simp]:
  "wf_changes []" "wf_changes (kv # kvs) \<longleftrightarrow> fst kv \<noteq> proto_key \<and> wf_json (snd kv) \<and> wf_changes kvs"
  by (simp_all add: wf_changes_def)

lemma wf_params: "wf_json (JObj params) \<Longrightarrow> wf_changes params"
  by (force simp: wf_changes_def list_all_iff)

lemma wf_without: "wf_changes params \<Longrightarrow> wf_changes (without_key k params)"
  by (auto simp: wf_changes_def without_key_def list_all_iff)

lemma wf_param: "wf_json (JObj params) \<Longrightarrow> map_of params k = Some v \<Longrightarrow> wf_json v"
  by (rule wf_json_entry)

lemma wf_present: "wf_json (JObj params) \<Longrightarrow> wf_json (present (map_of params k))"
  using wf_json_entry by (cases "map_of params k") (auto simp: present_def)

end
