(* ===== verification/ImageSound.thy ===== *)
theory ImageSound
  imports ImageReads
begin

text \<open>
  The patches of every image command are sound: lists of children, allocation and z order first, then one lemma
  per command.
\<close>

lemma sound_simps [simp]:
  "sound_ops d []"
  "sound_ops d (x # xs) \<longleftrightarrow> reads d x \<and> wf_op x \<and> doc_op x \<and>
     list_all (\<lambda>y. is_add y \<or> apart (op_path x) (op_path y)) xs \<and> sound_ops d xs"
  "sound_ops d (xs @ ys) \<longleftrightarrow> sound_ops d xs \<and> sound_ops d ys \<and>
     list_all (\<lambda>x. list_all (\<lambda>y. is_add y \<or> apart (op_path x) (op_path y)) ys) xs"
  by (auto simp: sound_ops_def)

lemma doc_op_simp [simp]: "op_path x = Key k # p \<Longrightarrow> doc_op x \<longleftrightarrow> k \<noteq> ''formatVersion'' \<and> k \<noteq> proto_key"
  by (auto simp: doc_op_def)

section \<open>Parents and children\<close>

definition parent_list :: "json \<Rightarrow> string option \<Rightarrow> string list" where
  "parent_list d p = (case p of None \<Rightarrow> rootLayerIds d | Some x \<Rightarrow> children d x)"

definition parent_ok :: "json \<Rightarrow> string option \<Rightarrow> bool" where
  "parent_ok d p \<longleftrightarrow> (\<forall>x. p = Some x \<longrightarrow> (\<exists>l. getLayer d x = Some l \<and> is_group_layer l))"

definition siblings_of :: "json \<Rightarrow> string option \<Rightarrow> string list \<Rightarrow> bool" where
  "siblings_of d p xs \<longleftrightarrow> parent_ok d p \<and> set xs = set (parent_list d p) \<and> distinct xs \<and> (\<forall>x \<in> set xs. in_layers d x)"

lemma loads_tree: "loads blake d \<Longrightarrow> tree_clean d"
  using loads_clean' by (auto simp: clean_def)

lemma layers_distinct:
  assumes "loads blake d"
  shows "distinct (map fst (layers_of d))"
proof (cases "field d ''layers''")
  case (Some v)
  then have "wf_json v" using getAtPath_wf [of d "[Key ''layers'']" v] loads_wf [OF assms] by simp
  then show ?thesis using Some by (cases v) (simp_all add: layers_of_def doc_map_def)
qed (simp add: layers_of_def doc_map_def)

lemma clean_list: "tree_clean d \<Longrightarrow> ids \<in> set (parent_lists d) \<Longrightarrow> distinct ids \<and> (\<forall>x \<in> set ids. in_layers d x)"
  by (simp add: tree_clean_def)

lemma root_siblings: "loads blake d \<Longrightarrow> siblings_of d None (orderedImageLayerIds d (rootLayerIds d))"
  using clean_list [OF loads_tree, of blake d "rootLayerIds d"] by (simp add: siblings_of_def parent_ok_def parent_list_def parent_lists_def)

lemma group_siblings:
  assumes "loads blake d" and "getLayer d p = Some l" and "is_group_layer l"
  shows "siblings_of d (Some p) (orderedImageLayerIds d (childLayerIds l))"
proof -
  have "(p, l) \<in> set (layers_of d)" using assms(2) by (simp add: layer_entry)
  then have "childLayerIds l \<in> set (parent_lists d)"
    using assms(3) unfolding parent_lists_def by force
  then show ?thesis
    using clean_list [OF loads_tree [OF assms(1)]] assms(2,3)
    by (auto simp: siblings_of_def parent_ok_def parent_list_def children_def)
qed

lemma layerParent_siblings:
  assumes "loads blake d" and "layerParent d x = Some (p, xs)"
  shows "siblings_of d p xs \<and> x \<in> set xs"
proof (cases "x \<in> set (rootLayerIds d)")
  case True
  then show ?thesis using assms root_siblings by (auto simp: layerParent_def)
next
  case False
  with assms(2) obtain k l where f: "find (\<lambda>kv. is_group_layer (snd kv) \<and> x \<in> set (childLayerIds (snd kv))) (layers_of d) = Some (k, l)"
    and p: "p = Some (text_of (field l ''id''))" "xs = orderedImageLayerIds d (childLayerIds l)"
    by (auto simp: layerParent_def split: option.splits prod.splits)
  then have kl: "(k, l) \<in> set (layers_of d)" "is_group_layer l" "x \<in> set (childLayerIds l)"
    by (metis (no_types, lifting) find_Some_iff nth_mem snd_conv)+
  then have "getLayer d k = Some l" using layers_distinct [OF assms(1)] by (simp add: getLayer_def)
  then show ?thesis using group_siblings [OF assms(1)] layer_id [OF assms(1)] kl p by simp
qed

lemma parentChildren_siblings:
  "loads blake d \<Longrightarrow> parentChildren d p = Some xs \<Longrightarrow> siblings_of d p xs"
  using root_siblings group_siblings by (auto simp: parentChildren_def split: option.splits if_splits)

lemma parent_unique:
  assumes "loads blake d" and "x \<in> set (parent_list d p)" and "x \<in> set (parent_list d q)"
  shows "p = q"
  using assms(2,3) one_parent [OF loads_tree [OF assms(1)]] root_no_parent [OF loads_tree [OF assms(1)]]
  by (cases p; cases q) (auto simp: parent_list_def)

section \<open>Child lists and z order\<close>

definition z_path :: "string \<Rightarrow> path" where
  "z_path x = [Key ''layers'', Key x, Key ''z_index'']"

definition list_path :: "string option \<Rightarrow> path" where
  "list_path p = (case p of None \<Rightarrow> [Key ''rootLayerIds''] | Some x \<Rightarrow> [Key ''layers'', Key x, Key ''childLayerIds''])"

lemma order_patch_op:
  assumes "x \<in> set (order_patch d (n, i))"
  shows "op_path x = z_path i \<and> (is_add x \<or> in_layers d i) \<and> reads d x \<and> wf_op x \<and> doc_op x"
proof -
  have z: "getAtPath d (z_path i) = Some (JNum z)" "in_layers d i" if lz: "layer_z d i = Some z" for z
  proof -
    from lz obtain l where l: "getLayer d i = Some l" "z_index l = Some z"
      by (auto simp: layer_z_def getLayer_def bind_eq_Some_conv)
    then have "field l ''z_index'' = Some (JNum z)"
      by (auto simp: z_index_def split: option.splits json.splits)
    then show "getAtPath d (z_path i) = Some (JNum z)" "in_layers d i"
      using at_layer [OF l(1), of "[Key ''z_index'']"] l(1) by (simp_all add: z_path_def in_layers_def)
  qed
  show ?thesis
  proof (cases "layer_z d i")
    case None
    then show ?thesis using assms by (simp add: order_patch_def z_path_def proto_key_def)
  next
    case (Some w)
    then show ?thesis using assms z [OF Some] unfolding order_patch_def
      by (auto simp: z_path_def [symmetric] simp del: getAtPath.simps split: if_splits) (simp_all add: z_path_def proto_key_def)
  qed
qed

lemma order_patches_op:
  assumes "x \<in> set (concat (map (order_patch d) (enumerate n ids)))"
  shows "\<exists>i \<in> set ids. op_path x = z_path i \<and> (is_add x \<or> in_layers d i) \<and> reads d x \<and> wf_op x \<and> doc_op x"
  using assms
proof (induction ids arbitrary: n)
  case (Cons i ids)
  then show ?case using order_patch_op [of x d n i] Cons.IH [of "Suc n"] by auto
qed simp

lemma z_apart [simp]: "apart (z_path i) (z_path j) \<longleftrightarrow> i \<noteq> j" "apart (z_path i) (list_path p)" "apart (list_path p) (z_path i)"
  by (auto simp: z_path_def list_path_def split: option.splits)

lemma list_apart: "p \<noteq> q \<Longrightarrow> apart (list_path p) (list_path q)"
  by (cases p; cases q) (auto simp: list_path_def)

lemma order_patches_steady: "distinct ids \<Longrightarrow> steady (concat (map (order_patch d) (enumerate n ids)))"
proof (induction ids arbitrary: n)
  case (Cons i ids)
  have "steady (order_patch d (n, i))" by (auto simp: order_patch_def split: option.splits)
  moreover have "apart (op_path x) (op_path y)"
    if "x \<in> set (order_patch d (n, i))" "y \<in> set (concat (map (order_patch d) (enumerate (Suc n) ids)))" for x y
    using order_patch_op [OF that(1)] order_patches_op [OF that(2)] Cons.prems by auto
  ultimately show ?case using Cons by (auto simp: list_all_iff)
qed simp

lemma orders_op:
  "x \<in> set (layerOrderPatches d ids) \<Longrightarrow>
     \<exists>i \<in> set ids. op_path x = z_path i \<and> (is_add x \<or> in_layers d i) \<and> reads d x \<and> wf_op x \<and> doc_op x"
  unfolding layerOrderPatches_def using order_patches_op [of x d 0 ids] by (metis empty_iff list.set(1))

lemma orders_sound: "distinct ids \<Longrightarrow> sound_ops d (layerOrderPatches d ids)"
proof -
  assume "distinct ids"
  then have "steady (layerOrderPatches d ids)" by (simp add: layerOrderPatches_def order_patches_steady)
  then show "sound_ops d (layerOrderPatches d ids)" using orders_op unfolding sound_ops_def list_all_iff by blast
qed

lemma list_path_read:
  assumes "loads blake d" and "parent_ok d p"
  shows "\<exists>xs. getAtPath d (list_path p) = Some (JArr xs) \<and> wf_json (JArr xs) \<and>
    parentListPatches d p ids = OpReplace (list_path p) (id_list ids) (JArr xs) # layerOrderPatches d ids"
proof -
  obtain xs where xs: "getAtPath d (list_path p) = Some (JArr xs)"
    "parentListPatches d p ids = OpReplace (list_path p) (id_list ids) (JArr xs) # layerOrderPatches d ids"
  proof (cases p)
    case None
    obtain xs where "field d ''rootLayerIds'' = Some (JArr xs)" using typed_roots [OF loads_typed [OF assms(1)]] by blast
    then show ?thesis using that [of xs] None by (simp add: list_path_def parentListPatches_def present_def)
  next
    case (Some x)
    then obtain l where l: "getLayer d x = Some l" "is_group_layer l" using assms(2) by (auto simp: parent_ok_def)
    obtain xs where f: "field l ''childLayerIds'' = Some (JArr xs)"
      using group_children [OF layer_typed [OF assms(1) l(1)] l(2)] by blast
    then have "getAtPath d (list_path p) = Some (JArr xs)"
      using at_layer [OF l(1), of "[Key ''childLayerIds'']"] Some by (simp add: list_path_def)
    then show ?thesis using that [of xs] Some l f by (simp add: list_path_def parentListPatches_def present_def del: getAtPath.simps)
  qed
  then show ?thesis using getAtPath_wf [OF xs(1) loads_wf [OF assms(1)]] by blast
qed

lemma list_patches_op:
  "loads blake d \<Longrightarrow> parent_ok d p \<Longrightarrow> x \<in> set (parentListPatches d p ids) \<Longrightarrow>
     op_path x = list_path p \<or> (\<exists>i \<in> set ids. op_path x = z_path i \<and> (is_add x \<or> in_layers d i))"
  using list_path_read [of blake d p ids] orders_op by fastforce

lemma list_patches_sound:
  assumes "loads blake d" and "parent_ok d p" and "distinct ids"
  shows "sound_ops d (parentListPatches d p ids)"
proof -
  obtain xs where xs: "getAtPath d (list_path p) = Some (JArr xs)" "wf_json (JArr xs)"
    "parentListPatches d p ids = OpReplace (list_path p) (id_list ids) (JArr xs) # layerOrderPatches d ids"
    using list_path_read [OF assms(1,2)] by blast
  have "doc_op (OpReplace (list_path p) (id_list ids) (JArr xs))"
    by (cases p) (simp_all add: list_path_def proto_key_def)
  then show ?thesis
    unfolding xs(3) using xs(1,2) orders_sound [OF assms(3)] orders_op [of _ d ids]
    by (fastforce simp: list_all_iff simp del: wf_json.simps getAtPath.simps)
qed

end
