(* ===== verification/ImagePlanned.thy ===== *)
theory ImagePlanned
  imports ImageSound
begin

text \<open>
  The patches of every image command are sound, and what planning a command establishes.
\<close>

declare wf_json.simps(2) [simp del]

section \<open>Allocation\<close>

lemma loads_next:
  assumes "loads blake d"
  shows "\<exists>al. field d ''allocation'' = Some (JObj al) \<and> map_of al ''nextOrdinal'' = Some (JNum (of_nat (nextOrdinal d)))"
proof -
  note v = loads_shape [OF assms]
  from v obtain kvs where d: "d = JObj kvs" by (auto simp: validateImageDocumentShape_def)
  note c = v [unfolded d validateImageDocumentShape_def on_object_def [of "Some (JObj kvs)"] option.case json.case append_is_Nil_conv]
  then obtain al where al: "map_of kvs ''allocation'' = Some (JObj al)" "check_allocation al = []" by auto
  then have "chk_integer (map_of al ''nextOrdinal'') ''$.allocation.nextOrdinal'' 0 max_safe_integer = []"
    unfolding check_allocation_def append_is_Nil_conv by blast
  then obtain r where r: "map_of al ''nextOrdinal'' = Some (JNum r)" "is_safe_integer r" "0 \<le> r"
    by (auto simp: chk_integer_Nil)
  then have "of_nat (nat \<lfloor>r\<rfloor>) = r" using is_integer_nat_floor by (simp add: is_safe_integer_def)
  then show ?thesis using d al(1) r(1) by (simp add: nextOrdinal_def number_nat_def)
qed

definition cursor_op :: "patch_op \<Rightarrow> bool" where
  "cursor_op op \<longleftrightarrow> (\<exists>k. op_path op = [Key ''allocation'', Key k])"

lemma cursor_op_sound:
  assumes l: "loads blake d" and al: "allocateIds d actor prefixes = (ids, op)"
    and actor: "\<forall>a. actor = Some a \<longrightarrow> isValidActorId a"
  shows "reads d op \<and> wf_op op \<and> doc_op op \<and> cursor_op op"
proof -
  obtain alloc where f: "field d ''allocation'' = Some (JObj alloc)" "map_of alloc ''nextOrdinal'' = Some (JNum (of_nat (nextOrdinal d)))"
    using loads_next [OF l] by blast
  have w: "wf_json (JObj alloc)" using getAtPath_wf [of d "[Key ''allocation'']"] f(1) loads_wf [OF l] by simp
  show ?thesis
  proof (cases actor)
    case None
    then have op: "op = OpReplace [Key ''allocation'', Key ''nextOrdinal''] (JNum (of_nat (nextOrdinal d + length prefixes)))
        (JNum (of_nat (nextOrdinal d)))"
      using al by (auto simp: allocateIds_def allocation_cursor_def Let_def)
    show ?thesis unfolding op using f by (simp add: cursor_op_def proto_key_def)
  next
    case (Some a)
    then have a: "a \<noteq> proto_key" using actor by (simp add: isValidActorId_def proto_key_def)
    show ?thesis
    proof (cases "map_of alloc ''actorCursors''")
      case None
      then obtain v where op: "op = OpAdd [Key ''allocation'', Key ''actorCursors''] (JObj [(a, JNum v)])"
        using al Some f by (auto simp: allocateIds_def present_def Let_def)
      show ?thesis unfolding op using a by (simp add: cursor_op_def proto_key_def wf_json.simps(2))
    next
      case c: (Some cursors)
      then obtain v where op: "op = OpReplace [Key ''allocation'', Key ''actorCursors''] (spread cursors [(a, JNum v)]) cursors"
        using al Some f by (auto simp: allocateIds_def present_def Let_def)
      have "wf_json cursors" using wf_json_entry [OF w c] .
      then show ?thesis unfolding op using f c a wf_spread by (simp add: cursor_op_def proto_key_def)
    qed
  qed
qed

lemma cursor_apart [simp]:
  "cursor_op x \<Longrightarrow> k \<noteq> ''allocation'' \<Longrightarrow> apart (op_path x) (Key k # p)"
  "cursor_op x \<Longrightarrow> apart (op_path x) (z_path i)" "cursor_op x \<Longrightarrow> apart (op_path x) (list_path q)"
  by (auto simp: cursor_op_def z_path_def list_path_def split: option.splits)

text \<open>An added entry was not there before.\<close>

lemma added_fresh:
  assumes "applyOwnedOps d (pre @ OpAdd [Key k, Key x] v # post) = Inr d'"
    and "list_all (\<lambda>y. apart (op_path y) [Key k, Key x]) pre"
  shows "getAtPath d [Key k, Key x] = None"
proof -
  from assms(1) obtain d1 d2 where d1: "applyOwnedOps d pre = Inr d1" "applyOp d1 (OpAdd [Key k, Key x] v) = Inr d2"
    by (auto simp: applyOwnedOps_append result_simps)
  then have "getAtPath d1 [Key k, Key x] = None"
    by (cases d1) (auto simp: applyOp_def result_simps field_def split: option.splits if_splits json.splits)
  then show ?thesis using applyOwnedOps_apart [OF d1(1) assms(2)] by simp
qed

lemma fresh_layer: "getAtPath d [Key ''layers'', Key x] = None \<Longrightarrow> \<not> in_layers d x"
  using at_layer [of d x _ "[]"] by (cases "getLayer d x") (auto simp: in_layers_def simp del: getAtPath.simps(2))

section \<open>Sound commands\<close>

definition command_ok :: "json \<Rightarrow> string option \<Rightarrow> (string \<times> json) list \<Rightarrow> bool" where
  "command_ok d actor params \<longleftrightarrow> wf_json (JObj params) \<and> (\<forall>a. actor = Some a \<longrightarrow> isValidActorId a)"

lemma canvas_read:
  assumes "loads blake d"
  shows "getAtPath d [Key ''canvas''] = Some (canvas_of d)" and "wf_json (canvas_of d)"
proof -
  obtain cv where "field d ''canvas'' = Some (JObj cv)" using typed_canvas [OF loads_typed [OF assms]] by blast
  then show g: "getAtPath d [Key ''canvas''] = Some (canvas_of d)" by (simp add: canvas_of_def present_def)
  show "wf_json (canvas_of d)" using getAtPath_wf [OF g loads_wf [OF assms]] .
qed

lemma transforms_sound:
  assumes "loads blake d" and "\<And>t. wf_json t \<Longrightarrow> wf_json (f t)"
  shows "sound_ops d (rootTransformPatches d f) \<and> (\<forall>x \<in> set (rootTransformPatches d f). \<exists>i. op_path x = [Key ''layers'', Key i, Key ''transform''])"
proof -
  have one: "reads d (OpReplace [Key ''layers'', Key i, Key ''transform''] (f old) old) \<and> wf_json (f old) \<and> wf_json old"
    if i: "i \<in> set (rootLayerIds d)" and old: "old = present (Option.bind (getLayer d i) (\<lambda>l. field l ''transform''))" for i old
  proof -
    obtain l where l: "getLayer d i = Some l"
      using root_in_layers [OF loads_tree [OF assms(1)] i] by (auto simp: in_layers_def)
    obtain kvs where t: "field l ''transform'' = Some (JObj kvs)" using layer_transform [OF layer_typed [OF assms(1) l]] by blast
    have o: "old = JObj kvs" using old l t by (simp add: present_def)
    have r: "getAtPath d [Key ''layers'', Key i, Key ''transform''] = Some old"
      using at_layer [OF l, of "[Key ''transform'']"] t o by simp
    then show ?thesis using getAtPath_wf [OF r loads_wf [OF assms(1)]] assms(2) by simp
  qed
  have d: "distinct (rootLayerIds d)" using root_siblings [OF assms(1)] by (simp add: siblings_of_def)
  have "sound_ops d (map (\<lambda>i. let old = present (Option.bind (getLayer d i) (\<lambda>l. field l ''transform''))
      in OpReplace [Key ''layers'', Key i, Key ''transform''] (f old) old) is)" if "distinct is" "set is \<subseteq> set (rootLayerIds d)" for "is"
    using that
  proof (induction "is")
    case (Cons i "is")
    have "list_all (\<lambda>y. apart [Key ''layers'', Key i, Key ''transform''] (op_path y))
        (map (\<lambda>i. let old = present (Option.bind (getLayer d i) (\<lambda>l. field l ''transform''))
          in OpReplace [Key ''layers'', Key i, Key ''transform''] (f old) old) is)"
      using Cons.prems(1) by (auto simp: list_all_iff Let_def)
    then show ?case using Cons one [OF _ refl, of i] by (auto simp: Let_def proto_key_def list_all_iff simp del: getAtPath.simps)
  qed simp
  then show ?thesis using d by (auto simp: rootTransformPatches_def Let_def)
qed

lemma canvas_op_sound:
  assumes "loads blake d" and "wf_changes changes"
  shows "sound_ops d [OpReplace [Key ''canvas''] (spread (canvas_of d) changes) (canvas_of d)]"
  using canvas_read [OF assms(1)] wf_spread [OF _ assms(2)] by (simp add: proto_key_def del: getAtPath.simps)

lemma canvas_transforms_sound:
  assumes "loads blake d" and "wf_changes changes" and "\<And>t. wf_json t \<Longrightarrow> wf_json (f t)"
  shows "sound_ops d (OpReplace [Key ''canvas''] (spread (canvas_of d) changes) (canvas_of d) # rootTransformPatches d f)"
proof -
  note t = transforms_sound [OF assms(1), of f, OF assms(3)]
  have "apart [Key ''canvas''] (op_path y)" if "y \<in> set (rootTransformPatches d f)" for y
    using t that by fastforce
  then show ?thesis using canvas_op_sound [OF assms(1,2)] t by (simp add: list_all_iff del: getAtPath.simps)
qed

lemma wf_without_obj: "wf_json (JObj kvs) \<Longrightarrow> wf_json (JObj (without_key k kvs))"
  by (simp add: wf_json.simps(2) without_key_def list_all_iff distinct_map_filter) blast

lemma wf_shift: "wf_json t \<Longrightarrow> wf_json (shift_transform x y t)"
proof -
  assume t: "wf_json t"
  have "wf_json (JObj (entries_of (Some t)))" using t by (cases t) (simp_all add: wf_json.simps(2))
  from wf_without_obj [OF this] show "wf_json (shift_transform x y t)"
    unfolding shift_transform_def by (rule wf_spread) (simp add: proto_key_def)
qed

lemma wf_scale: "wf_json (scale_transform w h ow oh t)"
  by (simp add: scale_transform_def scale_component_def wf_json.simps(2) proto_key_def)

lemma canvas_crop_sound: "loads blake d \<Longrightarrow> canvas_crop d params = Some (ops, c) \<Longrightarrow> sound_ops d ops"
  using canvas_transforms_sound [OF _ _ wf_shift]
  by (auto simp: canvas_crop_def Let_def proto_key_def simp del: sound_simps split: if_splits)

lemma canvas_resize_sound: "loads blake d \<Longrightarrow> canvas_resize d params = Some (ops, c) \<Longrightarrow> sound_ops d ops"
  using canvas_transforms_sound [OF _ _ wf_scale]
  by (auto simp: canvas_resize_def Let_def proto_key_def simp del: sound_simps split: if_splits)

lemma canvas_update_sound:
  "loads blake d \<Longrightarrow> command_ok d actor params \<Longrightarrow> canvas_update d params = Some (ops, c) \<Longrightarrow> sound_ops d ops"
  using canvas_op_sound [OF _ wf_params] by (auto simp: canvas_update_def command_ok_def simp del: sound_simps)

lemma output_update_sound:
  assumes "loads blake d" and "output_update d params = Some (ops, c)"
  shows "sound_ops d ops"
proof -
  let ?e = "IMAGE_OUTPUT_POLICY_EXTENSION"
  obtain f q where op: "(field d ''extensions'' = None \<and> ops = [OpAdd [Key ''extensions''] (JObj [(?e, JObj [(''format'', JStr f), (''quality'', JNum q)])])]) \<or>
      (\<exists>ex. field d ''extensions'' = Some ex \<and>
        (ops = [OpAdd [Key ''extensions'', Key ?e] (JObj [(''format'', JStr f), (''quality'', JNum q)])] \<or>
         (\<exists>old. field ex ?e = Some old \<and> ops = [OpReplace [Key ''extensions'', Key ?e] (JObj [(''format'', JStr f), (''quality'', JNum q)]) old])))"
    using assms(2) by (auto simp: output_update_def Let_def split: if_splits option.splits)
  have "wf_json old" if "field d ''extensions'' = Some ex" "field ex ?e = Some old" for ex old
    using getAtPath_wf [of d "[Key ''extensions'', Key ?e]"] that loads_wf [OF assms(1)] by simp
  then show ?thesis using op by (auto simp: wf_json.simps(2) proto_key_def IMAGE_OUTPUT_POLICY_EXTENSION_def)
qed

lemma layer_update_sound:
  assumes "loads blake d" and "command_ok d actor params" and "layer_update d params = Some (ops, c)"
  shows "sound_ops d ops"
proof -
  obtain l where l: "getLayer d (text_of (map_of params ''layerId'')) = Some l"
    and ops: "ops = [OpReplace [Key ''layers'', Key (text_of (field l ''id''))] (spread l (without_key ''layerId'' params)) l]"
    using assms(3) by (auto simp: layer_update_def split: option.splits)
  have "wf_json (spread l (without_key ''layerId'' params))"
    using wf_spread [OF layer_wf [OF assms(1) l] wf_without [OF wf_params]] assms(2) by (simp add: command_ok_def)
  then show ?thesis
    using ops at_layer [OF l, of "[]"] layer_id [OF assms(1) l] layer_wf [OF assms(1) l]
    by (simp add: proto_key_def del: getAtPath.simps(2))
qed

lemma mask_update_sound:
  assumes "loads blake d" and "command_ok d actor params" and "mask_update d params = Some (ops, c)"
  shows "sound_ops d ops"
proof -
  obtain m where m: "map_of (masks_of d) (text_of (map_of params ''maskId'')) = Some m"
    and ops: "ops = [OpReplace [Key ''masks'', Key (text_of (field m ''id''))] (spread m (without_key ''maskId'' params)) m]"
    using assms(3) by (auto simp: mask_update_def split: option.splits)
  have "wf_json (spread m (without_key ''maskId'' params))"
    using wf_spread [OF mask_wf [OF assms(1) m] wf_without [OF wf_params]] assms(2) by (simp add: command_ok_def)
  then show ?thesis
    using ops at_mask [OF m, of "[]"] mask_id [OF assms(1) m] mask_wf [OF assms(1) m]
    by (simp add: proto_key_def del: getAtPath.simps(2))
qed

paragraph \<open>Commands that change the tree\<close>

lemma other_apart [simp]:
  "k \<noteq> ''layers'' \<Longrightarrow> apart (Key k # p) (z_path i)" "k \<noteq> ''layers'' \<Longrightarrow> apart (z_path i) (Key k # p)"
  "k \<noteq> ''layers'' \<Longrightarrow> k \<noteq> ''rootLayerIds'' \<Longrightarrow> apart (Key k # p) (list_path q)"
  "k \<noteq> ''layers'' \<Longrightarrow> k \<noteq> ''rootLayerIds'' \<Longrightarrow> apart (list_path q) (Key k # p)"
  by (auto simp: z_path_def list_path_def split: option.splits)

lemma layer_apart:
  "i \<noteq> x \<Longrightarrow> apart [Key ''layers'', Key x] (z_path i) \<and> apart (z_path i) [Key ''layers'', Key x]"
  "q \<noteq> Some x \<Longrightarrow> apart [Key ''layers'', Key x] (list_path q) \<and> apart (list_path q) [Key ''layers'', Key x]"
  by (cases q; auto simp: z_path_def list_path_def)+

lemma parent_in_layers: "parent_ok d (Some x) \<Longrightarrow> in_layers d x"
  by (auto simp: parent_ok_def in_layers_def)

lemma new_layer_apart:
  assumes "loads blake d" and "parent_ok d p" and "\<not> in_layers d n"
  shows "y \<in> set (parentListPatches d p ids) \<Longrightarrow> is_add y \<or> apart [Key ''layers'', Key n] (op_path y)"
    and "y \<in> set (layerOrderPatches d ids) \<Longrightarrow> is_add y \<or> apart [Key ''layers'', Key n] (op_path y)"
proof -
  assume "y \<in> set (parentListPatches d p ids)"
  from list_patches_op [OF assms(1,2) this] show "is_add y \<or> apart [Key ''layers'', Key n] (op_path y)"
    using layer_apart parent_in_layers assms(2,3) by metis
next
  assume "y \<in> set (layerOrderPatches d ids)"
  from orders_op [OF this] show "is_add y \<or> apart [Key ''layers'', Key n] (op_path y)"
    using layer_apart(1) assms(3) by metis
qed

lemma list_patches_other:
  assumes "loads blake d" and "parent_ok d p" and "y \<in> set (parentListPatches d p ids)"
  shows "k \<noteq> ''layers'' \<Longrightarrow> k \<noteq> ''rootLayerIds'' \<Longrightarrow> apart (Key k # q) (op_path y)"
    and "cursor_op x \<Longrightarrow> apart (op_path x) (op_path y)"
  using list_patches_op [OF assms] by auto

lemma distinct_splice:
  assumes "distinct xs" and "x \<notin> set xs"
  shows "distinct (splice i n x xs)"
  using assms set_take_disj_set_drop_if_distinct [OF assms(1), of i "i + n"]
  by (auto simp: splice_def dest: in_set_takeD in_set_dropD)

lemma wf_new_layer: "wf_json r \<Longrightarrow> wf_json (new_raster_layer l n res r)" "wf_json (new_group l n ids)"
    "wf_json r \<Longrightarrow> wf_json (new_raster_mask m ow res r)"
  by (simp_all add: new_raster_layer_def new_group_def new_raster_mask_def identity_transform_def wf_json.simps(2) proto_key_def)

lemma wf_resource: "wf_json r \<Longrightarrow> wf_json (resourceInput r i)"
  unfolding resourceInput_def by (rule wf_spread) (simp_all add: proto_key_def)

lemma layer_move_sound:
  assumes l: "loads blake d" and m: "layer_move d params = Some (ops, c)"
  shows "sound_ops d ops"
proof -
  define x where "x = text_of (map_of params ''layerId'')"
  define p where "p = parent_param (map_of params ''parentId'')"
  from m obtain s sib dest i where s: "layerParent d x = Some (s, sib)" "parentChildren d p = Some dest"
    and ops: "(s = p \<and> ops = parentListPatches d s (splice i 0 x (filter (\<lambda>j. j \<noteq> x) sib))) \<or>
      (s \<noteq> p \<and> ops = parentListPatches d s (filter (\<lambda>j. j \<noteq> x) sib) @ parentListPatches d p (splice i 0 x dest))"
    by (auto simp: layer_move_def x_def p_def Let_def split: option.splits prod.splits if_splits)
  note src = layerParent_siblings [OF l s(1)] and dst = parentChildren_siblings [OF l s(2)]
  have dx: "distinct (splice i 0 x (filter (\<lambda>j. j \<noteq> x) sib))" "distinct (filter (\<lambda>j. j \<noteq> x) sib)"
    using src by (auto simp: siblings_of_def intro!: distinct_splice)
  have ok: "parent_ok d s" "parent_ok d p" using src dst by (simp_all add: siblings_of_def)
  show ?thesis
  proof (cases "s = p")
    case True
    then show ?thesis using ops list_patches_sound [OF l ok(1) dx(1)] by auto
  next
    case False
    have x: "x \<notin> set dest" using parent_unique [OF l, of x s p] src dst False by (auto simp: siblings_of_def)
    have dd: "distinct (splice i 0 x dest)" using x dst by (auto simp: siblings_of_def intro!: distinct_splice)
    have disj: "j \<noteq> k" if "j \<in> set (filter (\<lambda>j. j \<noteq> x) sib)" "k \<in> set (splice i 0 x dest)" for j k
      using that parent_unique [OF l, of j s p] src dst False
      by (auto simp: siblings_of_def splice_def dest: in_set_takeD in_set_dropD)
    have "apart (op_path a) (op_path b)"
      if "a \<in> set (parentListPatches d s (filter (\<lambda>j. j \<noteq> x) sib))" "b \<in> set (parentListPatches d p (splice i 0 x dest))" for a b
      using list_patches_op [OF l ok(1) that(1)] list_patches_op [OF l ok(2) that(2)] disj list_apart [OF False] by fastforce
    then show ?thesis
      using ops False list_patches_sound [OF l ok(1) dx(2)] list_patches_sound [OF l ok(2) dd] by (auto simp: list_all_iff)
  qed
qed

lemma add_raster_layer_sound:
  assumes l: "loads blake d" and ok: "command_ok d actor params"
    and m: "add_raster_layer d actor params = Some (ops, c)" and run: "applyOwnedOps d ops = Inr d'"
  shows "sound_ops d ops"
proof -
  define p where "p = parent_param (map_of params ''parentId'')"
  define i where "i = index_of (number_of (map_of params ''index''))"
  obtain ids cp where al: "allocateIds d actor [''r'', ''l''] = (ids, cp)" by (rule prod.exhaust)
  define r where "r = ids ! 0"
  define x where "x = ids ! 1"
  define v where "v = resourceInput (present (map_of params ''resource'')) r"
  define w where "w = new_raster_layer x (text_of (map_of params ''name'')) r (present (map_of params ''sourceRect''))"
  from m obtain sib where sib: "parentChildren d p = Some sib"
    and ops: "ops = cp # OpAdd [Key ''resources'', Key r] v # OpAdd [Key ''layers'', Key x] w # parentListPatches d p (splice i 0 x sib)"
    unfolding add_raster_layer_def Let_def al p_def [symmetric] prod.case r_def [symmetric] x_def [symmetric] v_def [symmetric]
      w_def [symmetric] i_def [symmetric]
    by (auto split: option.splits if_splits)
  have cp: "reads d cp \<and> wf_op cp \<and> doc_op cp \<and> cursor_op cp"
    using cursor_op_sound [OF l al] ok unfolding command_ok_def by blast
  have "list_all (\<lambda>y. apart (op_path y) [Key ''layers'', Key x]) [cp, OpAdd [Key ''resources'', Key r] v]"
    using cp by simp
  then have fresh: "\<not> in_layers d x"
    using added_fresh [of d "[cp, OpAdd [Key ''resources'', Key r] v]" "''layers''" x w "parentListPatches d p (splice i 0 x sib)" d'] run ops
      fresh_layer by simp
  note s = parentChildren_siblings [OF l sib]
  then have "x \<notin> set sib" using fresh by (auto simp: siblings_of_def)
  then have "sound_ops d (parentListPatches d p (splice i 0 x sib))"
    using s list_patches_sound [OF l] distinct_splice by (simp add: siblings_of_def)
  moreover have "wf_json v" "wf_json w"
    unfolding v_def w_def using wf_resource wf_new_layer(1) wf_present ok by (auto simp: command_ok_def)
  moreover have pok: "parent_ok d p" using s by (simp add: siblings_of_def)
  have "apart (op_path cp) (op_path y) \<and> apart [Key ''resources'', Key r] (op_path y) \<and>
      (is_add y \<or> apart [Key ''layers'', Key x] (op_path y))" if "y \<in> set (parentListPatches d p (splice i 0 x sib))" for y
    using list_patches_other [OF l pok that] new_layer_apart(1) [OF l pok fresh that] cp by simp
  ultimately show ?thesis using cp unfolding ops by (simp add: list_all_iff proto_key_def)
qed

lemma layer_group_sound:
  assumes l: "loads blake d" and ok: "command_ok d actor params"
    and m: "layer_group d actor params = Some (ops, c)" and run: "applyOwnedOps d ops = Inr d'"
  shows "sound_ops d ops"
proof -
  define ids where "ids = texts_of (map_of params ''layerIds'')"
  obtain made cp where al: "allocateIds d actor [''l''] = (made, cp)" by (rule prod.exhaust)
  define x where "x = made ! 0"
  from m obtain p sib where sib: "layerParent d (hd ids) = Some (p, sib)"
    unfolding layer_group_def ids_def [symmetric] Let_def by (auto split: option.splits if_splits)
  define sel where "sel = filter (\<lambda>j. j \<in> set ids) sib"
  define n where "n = indexOf (hd sel) sib"
  define new where "new = splice n (length sel) x sib"
  define w where "w = new_group x (text_of (map_of params ''name'')) sel"
  from m have ct': "contiguous_at n sel sib"
    and ops': "ops = cp # OpAdd [Key ''layers'', Key x] w # parentListPatches d p new @ layerOrderPatches d sel"
    unfolding layer_group_def Let_def ids_def [symmetric] sib al option.case prod.case x_def [symmetric] sel_def [symmetric]
      n_def [symmetric] new_def [symmetric] w_def [symmetric]
    by (auto split: if_splits)
  have cp: "reads d cp \<and> wf_op cp \<and> doc_op cp \<and> cursor_op cp"
    using cursor_op_sound [OF l al] ok unfolding command_ok_def by blast
  then have "list_all (\<lambda>y. apart (op_path y) [Key ''layers'', Key x]) [cp]" by simp
  then have fresh: "\<not> in_layers d x"
    using added_fresh [of d "[cp]" "''layers''" x w _ d'] run ops' fresh_layer by simp
  note s = layerParent_siblings [OF l sib]
  then have x: "x \<notin> set sib" "distinct sib" using fresh by (auto simp: siblings_of_def)
  have pok: "parent_ok d p" using s by (simp add: siblings_of_def)
  have sel: "distinct sel" "set sel \<subseteq> set sib" using x(2) by (auto simp: sel_def)
  have new: "distinct new" using x by (simp add: new_def distinct_splice)
  have "set sel \<inter> set new = {}"
  proof -
    have split: "sib = take n sib @ sel @ drop (n + length sel) sib"
      using ct' append_take_drop_id [of "length sel" "drop n sib"] append_take_drop_id [of n sib]
      by (simp add: contiguous_at_def add.commute)
    then have "distinct (take n sib @ sel @ drop (n + length sel) sib)" using x(2) by simp
    then show ?thesis using x(1) sel(2) by (auto simp: new_def splice_def)
  qed
  then have between: "apart (op_path a) (op_path b)" if "a \<in> set (parentListPatches d p new)" "b \<in> set (layerOrderPatches d sel)" for a b
    using list_patches_op [OF l _ that(1)] orders_op [OF that(2)] s by (fastforce simp: siblings_of_def)
  have "sound_ops d (parentListPatches d p new)" "sound_ops d (layerOrderPatches d sel)"
    using s list_patches_sound [OF l _ new] orders_sound [OF sel(1)] by (simp_all add: siblings_of_def)
  moreover have "wf_json w" unfolding w_def by (rule wf_new_layer(2))
  moreover have "apart (op_path cp) (op_path y) \<and> (is_add y \<or> apart [Key ''layers'', Key x] (op_path y))"
    if "y \<in> set (parentListPatches d p new) \<union> set (layerOrderPatches d sel)" for y
  proof (cases "y \<in> set (parentListPatches d p new)")
    case True
    then show ?thesis using list_patches_other(2) [OF l pok True] new_layer_apart(1) [OF l pok fresh True] cp by simp
  next
    case False
    with that have y: "y \<in> set (layerOrderPatches d sel)" by simp
    from orders_op [OF y] obtain i where "op_path y = z_path i" by blast
    then show ?thesis using new_layer_apart(2) [OF l pok fresh y] cp by simp
  qed
  ultimately show ?thesis using cp between unfolding ops' by (simp add: list_all_iff proto_key_def)
qed

paragraph \<open>Masks\<close>

lemma set_masks_sound:
  assumes "loads blake d" and "getLayer d x = Some owner"
  shows "op_path (set_masks d owner ids) = [Key ''layers'', Key x] \<and> reads d (set_masks d owner ids) \<and>
    wf_op (set_masks d owner ids) \<and> doc_op (set_masks d owner ids)"
proof -
  have "wf_json (spread owner [(''maskIds'', id_list ids)])"
    by (rule wf_spread [OF layer_wf [OF assms]]) (simp add: proto_key_def)
  then show ?thesis
    using at_layer [OF assms(2), of "[]"] layer_id [OF assms] layer_wf [OF assms]
    by (simp add: set_masks_def proto_key_def del: getAtPath.simps(2))
qed

lemma add_raster_mask_sound:
  assumes l: "loads blake d" and ok: "command_ok d actor params"
    and m: "add_raster_mask d actor params = Some (ops, c)"
  shows "sound_ops d ops"
proof -
  define i where "i = index_of (number_of (map_of params ''index''))"
  define o_id where "o_id = text_of (map_of params ''ownerLayerId'')"
  obtain ids cp where al: "allocateIds d actor [''r'', ''m''] = (ids, cp)" by (rule prod.exhaust)
  define r where "r = ids ! 0"
  define x where "x = ids ! 1"
  define v where "v = resourceInput (present (map_of params ''resource'')) r"
  define w where "w = (\<lambda>owner. new_raster_mask x (text_of (field owner ''id'')) r (present (map_of params ''sourceRect'')))"
  from m obtain owner where ow: "getLayer d o_id = Some owner"
    and ops: "ops = [cp, OpAdd [Key ''resources'', Key r] v, OpAdd [Key ''masks'', Key x] (w owner),
      set_masks d owner (splice i 0 x (maskIds owner))]"
    unfolding add_raster_mask_def Let_def al prod.case r_def [symmetric] x_def [symmetric] v_def [symmetric]
      o_id_def [symmetric] i_def [symmetric] w_def
    by (auto split: option.splits if_splits)
  have cp: "reads d cp \<and> wf_op cp \<and> doc_op cp \<and> cursor_op cp"
    using cursor_op_sound [OF l al] ok unfolding command_ok_def by blast
  have "wf_json v" "wf_json (w owner)"
    unfolding v_def w_def using wf_resource wf_new_layer(3) wf_present ok by (auto simp: command_ok_def)
  then show ?thesis
    unfolding ops using cp set_masks_sound [OF l ow, of "splice i 0 x (maskIds owner)"] by (simp add: proto_key_def)
qed

definition has_resource :: "json \<Rightarrow> string \<Rightarrow> bool" where
  "has_resource d r \<longleftrightarrow> map_of (resources_of d) r \<noteq> None"

lemma drop_sound:
  assumes l: "loads blake d" and "distinct rs" and "\<forall>r \<in> set rs. has_resource d r"
  shows "sound_ops d (drop_unreferenced d rs used) \<and>
    (\<forall>y \<in> set (drop_unreferenced d rs used). \<exists>r. op_path y = [Key ''resources'', Key r])"
  using assms(2,3)
proof (induction rs)
  case Nil
  then show ?case by (simp add: drop_unreferenced_def)
next
  case (Cons r rs)
  obtain v where v: "map_of (resources_of d) r = Some v" using Cons.prems by (auto simp: has_resource_def)
  have g: "getAtPath d [Key ''resources'', Key r] = Some v" using at_resource [OF v, of "[]"] by simp
  have "wf_json v" using getAtPath_wf [OF g loads_wf [OF l]] .
  then show ?case using Cons g v
    by (auto simp: drop_unreferenced_def list_all_iff present_def proto_key_def simp del: getAtPath.simps(2))
qed

lemma refs_facts:
  assumes "loads blake d"
  shows mask_resource: "map_of (masks_of d) x = Some m \<Longrightarrow> has_resource d (resourceId m)"
    and layer_resource: "getLayer d x = Some lay \<Longrightarrow> layer_kind lay = ''raster'' \<Longrightarrow> has_resource d (resourceId lay)"
    and layer_masks: "getLayer d x = Some lay \<Longrightarrow> i \<in> set (maskIds lay) \<Longrightarrow> \<exists>m. map_of (masks_of d) i = Some m"
proof -
  have r: "refs_clean d" using loads_clean' [OF assms] by (auto simp: clean_def)
  have res: "has_resource d (resourceId v)" if "resource_ok d v" for v
    using that by (auto simp: resource_ok_def has_resource_def resourceId_def)
  show "has_resource d (resourceId m)" if "map_of (masks_of d) x = Some m"
    using r map_of_SomeD [OF that] res by (fastforce simp: refs_clean_def)
  show "has_resource d (resourceId lay)" if "getLayer d x = Some lay" "layer_kind lay = ''raster''"
    using r layer_entry [OF that(1)] that(2) res by (fastforce simp: refs_clean_def layer_refs_ok_def)
  show "\<exists>m. map_of (masks_of d) i = Some m" if "getLayer d x = Some lay" "i \<in> set (maskIds lay)"
    using r layer_entry [OF that(1)] that(2) by (fastforce simp: refs_clean_def layer_refs_ok_def)
qed

lemma mask_remove_sound:
  assumes l: "loads blake d" and m: "mask_remove d params = Some (ops, c)"
  shows "sound_ops d ops"
proof -
  from m obtain k owner used where k: "map_of (masks_of d) (text_of (map_of params ''maskId'')) = Some k"
    and ow: "getLayer d (text_of (field k ''ownerLayerId'')) = Some owner"
    and ops: "ops = set_masks d owner (filter (\<lambda>i. i \<noteq> text_of (field k ''id'')) (maskIds owner)) #
      OpRemove [Key ''masks'', Key (text_of (field k ''id''))] k # drop_unreferenced d [resourceId k] used"
    by (auto simp: mask_remove_def Let_def split: option.splits)
  have dr: "sound_ops d (drop_unreferenced d [resourceId k] used)"
      "\<And>y. y \<in> set (drop_unreferenced d [resourceId k] used) \<Longrightarrow> \<exists>r. op_path y = [Key ''resources'', Key r]"
    using drop_sound [OF l, of "[resourceId k]" used] mask_resource [OF l k] by auto
  have "apart [Key ''layers'', Key a] (op_path y) \<and> apart [Key ''masks'', Key b] (op_path y)"
    if "y \<in> set (drop_unreferenced d [resourceId k] used)" for y a b
    using dr(2) [OF that] by auto
  then show ?thesis
    unfolding ops using dr(1) set_masks_sound [OF l ow] mask_id [OF l k] mask_wf [OF l k] at_mask [OF k, of "[]"]
    by (simp add: list_all_iff proto_key_def del: getAtPath.simps(2))
qed

paragraph \<open>Removing a layer\<close>

lemma descends_trans: "descends d b c \<Longrightarrow> descends d a b \<Longrightarrow> descends d a c"
  by (induction rule: descends.induct) (auto intro: descends_child)

lemma descend_below: "y \<in> set (descend d pending result) \<Longrightarrow> y \<in> set result \<or> (\<exists>p \<in> set pending. descends d p y)"
proof (induction d pending result rule: descend.induct)
  case (2 d x pending result)
  show ?case
  proof (cases "x \<in> set result")
    case True
    then show ?thesis using 2 by auto
  next
    case False
    then consider "y \<in> set (result @ [x])" | p where "p \<in> set (children d x @ pending)" "descends d p y" using 2 by auto
    then show ?thesis
      using descends_refl descends_child [OF descends_refl] descends_trans by cases fastforce+
  qed
qed simp

lemma descend_distinct: "distinct result \<Longrightarrow> distinct (descend d pending result)"
  by (induction d pending result rule: descend.induct) simp_all

lemma descendantIds_facts:
  "distinct (descendantIds d x)" "y \<in> set (descendantIds d x) \<Longrightarrow> descends d x y"
  using descend_distinct [of "[]" d "[x]"] descend_below [of y d "[x]" "[]"] by (auto simp: descendantIds_def)

lemma set_order_facts [simp]: "distinct (set_order xs)" "set (set_order xs) = set xs"
  by (simp_all add: set_order_def)

text \<open>Neither the parent of a removed layer nor its other children are removed with it.\<close>

lemma kept_layers:
  assumes l: "loads blake d" and s: "siblings_of d p sib" and x: "x \<in> set sib" and y: "descends d x y"
  shows "p \<noteq> Some y" and "z \<in> set sib \<Longrightarrow> z \<noteq> x \<Longrightarrow> z \<noteq> y"
proof -
  note t = loads_tree [OF l]
  have mem: "set sib = set (parent_list d p)" using s by (simp add: siblings_of_def)
  have up: False if "p = Some q" "descends d x q" for q
  proof -
    have "in_layers d q" using s that(1) parent_in_layers by (auto simp: siblings_of_def)
    then show False using parent_not_below [OF t, of q x] that x mem by (simp add: parent_list_def)
  qed
  show "p \<noteq> Some y" using up y by blast
  assume z: "z \<in> set sib" "z \<noteq> x"
  show "z \<noteq> y"
  proof
    assume "z = y"
    then obtain b where b: "descends d x b" "z \<in> set (children d b)"
      using sibling_not_below [OF t y] z(2) by auto
    then have "z \<in> set (parent_list d (Some b))" by (simp add: parent_list_def)
    then have "p = Some b" using parent_unique [OF l] z(1) mem by blast
    then show False using up b(1) by blast
  qed
qed

lemma removes_sound:
  assumes "distinct xs" and "k \<noteq> ''formatVersion''" and "k \<noteq> proto_key"
    and "\<And>x. x \<in> set xs \<Longrightarrow> getAtPath d [Key k, Key x] = Some (f x)" and "wf_json d"
  shows "sound_ops d (map (\<lambda>x. OpRemove [Key k, Key x] (f x)) xs)"
  using assms(1,4)
proof (induction xs)
  case (Cons x xs)
  have "wf_json (f x)" using getAtPath_wf [OF Cons.prems(2) assms(5)] by simp
  then show ?case using Cons assms(2,3) by (auto simp: list_all_iff simp del: getAtPath.simps(2))
qed simp

lemma layer_remove_sound:
  assumes l: "loads blake d" and m: "layer_remove d params = Some (ops, c)"
  shows "sound_ops d ops"
proof -
  define x where "x = text_of (map_of params ''layerId'')"
  define ls where "ls = descendantIds d x"
  define layer_at where "layer_at = (\<lambda>i. present (getLayer d i))"
  define mask_at where "mask_at = (\<lambda>i. present (map_of (masks_of d) i))"
  define ms where "ms = set_order (concat (map (\<lambda>i. maskIds (layer_at i)) ls))"
  define rs where "rs = set_order (map (\<lambda>i. resourceId (layer_at i)) (filter (\<lambda>i. layer_kind (layer_at i) = ''raster'') ls) @
    map (\<lambda>i. resourceId (mask_at i)) ms)"
  define used where "used = referencedResources d ls ms"
  from m obtain lay p sib where lay: "getLayer d x = Some lay" and par: "layerParent d x = Some (p, sib)"
    by (auto simp: layer_remove_def x_def Let_def split: option.splits)
  note ident = layer_id [OF l lay]
  from m have ops: "ops = parentListPatches d p (filter (\<lambda>i. i \<noteq> x) sib) @ map (\<lambda>i. OpRemove [Key ''masks'', Key i] (mask_at i)) ms @
      map (\<lambda>i. OpRemove [Key ''layers'', Key i] (layer_at i)) ls @ drop_unreferenced d rs used"
    unfolding layer_remove_def Let_def x_def [symmetric] lay par option.case prod.case ident ls_def [symmetric] layer_at_def [symmetric]
      mask_at_def [symmetric] ms_def [symmetric] rs_def [symmetric] used_def [symmetric] by simp
  note s = layerParent_siblings [OF l par]
  have pok: "parent_ok d p" using s by (simp add: siblings_of_def)
  have ly: "\<exists>v. getLayer d i = Some v" if "i \<in> set ls" for i
    using descends_in_layers [OF loads_tree [OF l] descendantIds_facts(2)] that lay
    by (auto simp: ls_def in_layers_def)
  have mk: "\<exists>v. map_of (masks_of d) i = Some v" if "i \<in> set ms" for i
    using that ly layer_masks [OF l] by (fastforce simp: ms_def layer_at_def present_def)
  have "\<forall>r \<in> set rs. has_resource d r"
    using ly mk layer_resource [OF l] mask_resource [OF l] by (fastforce simp: rs_def layer_at_def mask_at_def present_def)
  then have dr: "sound_ops d (drop_unreferenced d rs used)"
    "\<And>y. y \<in> set (drop_unreferenced d rs used) \<Longrightarrow> \<exists>r. op_path y = [Key ''resources'', Key r]"
    using drop_sound [OF l, of rs used] by (auto simp: rs_def)
  have so: "sound_ops d (map (\<lambda>i. OpRemove [Key ''masks'', Key i] (mask_at i)) ms)"
    "sound_ops d (map (\<lambda>i. OpRemove [Key ''layers'', Key i] (layer_at i)) ls)"
    using mk ly at_mask [of d _ _ "[]"] at_layer [of d _ _ "[]"] descendantIds_facts(1)
    by (fastforce simp: ms_def ls_def mask_at_def layer_at_def present_def proto_key_def simp del: getAtPath.simps(2)
        intro!: removes_sound loads_wf [OF l])+
  have pl: "sound_ops d (parentListPatches d p (filter (\<lambda>i. i \<noteq> x) sib))"
    using s list_patches_sound [OF l pok] by (simp add: siblings_of_def)
  have keep: "apart (op_path y) [Key ''layers'', Key i]"
    if y: "y \<in> set (parentListPatches d p (filter (\<lambda>i. i \<noteq> x) sib))" and i: "i \<in> set ls" for y i
  proof -
    have below: "descends d x i" using descendantIds_facts(2) i by (simp add: ls_def)
    consider "op_path y = list_path p" | z where "z \<in> set sib" "z \<noteq> x" "op_path y = z_path z"
      using list_patches_op [OF l pok y] by auto
    then show ?thesis
    proof cases
      case 1
      then show ?thesis using layer_apart(2) kept_layers(1) [OF l _ _ below] s by auto
    next
      case 2
      then show ?thesis using layer_apart(1) [of z i] kept_layers(2) [OF l _ _ below] s by auto
    qed
  qed
  have other: "apart (op_path y) (Key k # q)"
    if "y \<in> set (parentListPatches d p (filter (\<lambda>i. i \<noteq> x) sib))" "k \<noteq> ''layers''" "k \<noteq> ''rootLayerIds''" for y k q
    using list_patches_op [OF l pok that(1)] that(2,3) by auto
  have first: "apart (op_path y) (op_path z)" if y: "y \<in> set (parentListPatches d p (filter (\<lambda>i. i \<noteq> x) sib))"
    and z: "z \<in> set (drop_unreferenced d rs used)" for y z
    using dr(2) [OF z] other [OF y] by fastforce
  have rest: "apart [Key ''masks'', Key i] (op_path z) \<and> apart [Key ''layers'', Key j] (op_path z)"
    if "z \<in> set (drop_unreferenced d rs used)" for z i j
    using dr(2) [OF that] by auto
  show ?thesis
    unfolding ops using pl so dr(1) keep other first rest by (simp add: list_all_iff ball_Un)
qed

end
