(* ===== verification/ImagePlanLaws.thy ===== *)
theory ImagePlanLaws
  imports ImagePlanned
begin

text \<open>
  What a plan promises: its forward patches lead to its document, which loads; its inverse leads back to
  the document it started from with the allocation cursors of the plan, and its redo patches forward again.
\<close>

section \<open>Every command is sound\<close>

lemma some_if: "(if b then x else y) = Some r \<Longrightarrow> x = Some r \<or> y = Some r"
  by (cases b) simp_all

lemma commandPatches_cases:
  assumes "commandPatches d ivn = Some r"
  shows "canvas_crop d (ii_params ivn) = Some r \<or> canvas_resize d (ii_params ivn) = Some r \<or>
    canvas_update d (ii_params ivn) = Some r \<or> output_update d (ii_params ivn) = Some r \<or>
    layer_group d (ii_actor ivn) (ii_params ivn) = Some r \<or> layer_update d (ii_params ivn) = Some r \<or>
    add_raster_layer d (ii_actor ivn) (ii_params ivn) = Some r \<or> layer_move d (ii_params ivn) = Some r \<or>
    layer_remove d (ii_params ivn) = Some r \<or> mask_update d (ii_params ivn) = Some r \<or>
    add_raster_mask d (ii_actor ivn) (ii_params ivn) = Some r \<or> mask_remove d (ii_params ivn) = Some r"
  using assms unfolding commandPatches_def Let_def by (blast dest: some_if)

lemma commandPatches_sound:
  assumes "loads blake d" and "command_ok d (ii_actor ivn) (ii_params ivn)"
    and "commandPatches d ivn = Some (ops, c)" and "applyOwnedOps d ops = Inr d'"
  shows "sound_ops d ops"
  using commandPatches_cases [OF assms(3)]
  by (elim disjE)
    (erule canvas_crop_sound [OF assms(1)] canvas_resize_sound [OF assms(1)] canvas_update_sound [OF assms(1,2)]
      output_update_sound [OF assms(1)] layer_group_sound [OF assms(1,2) _ assms(4)] layer_update_sound [OF assms(1,2)]
      add_raster_layer_sound [OF assms(1,2) _ assms(4)] layer_move_sound [OF assms(1)] layer_remove_sound [OF assms(1)]
      mask_update_sound [OF assms(1,2)] add_raster_mask_sound [OF assms(1,2)] mask_remove_sound [OF assms(1)])+

lemma decode_params_wf:
  assumes "wf_json (JObj params)" and "decode_params command params = Some p"
  shows "wf_json (JObj p)"
proof -
  have "wf_json (JArr ids)" if "map_of params ''layerIds'' = Some (JArr ids)" for ids
    using wf_json_entry [OF assms(1) that] .
  then show ?thesis
    using assms unfolding decode_params_def Let_def
    by (auto simp: wf_json.simps(2) [of "[_]"] wf_json.simps(2) [of "[_, _]"] proto_key_def split: if_splits option.splits json.splits)
qed

lemma decodeInvocation_ok:
  assumes "heap_ok (fst v)" and "decodeInvocation v = Some ivn"
  shows "command_ok d (ii_actor ivn) (ii_params ivn)"
proof -
  from assms(2) obtain kvs where own: "ownJson (default_limits True) (fst v) (snd v) = Inr (JObj kvs)"
    by (auto simp: decodeInvocation_def split: sum.splits json.splits)
  then have wf: "wf_json (JObj kvs)"
    using own_visit_sound [OF assms(1)] by (auto simp: ownJson_visit visit_sound_def)
  from assms(2) own obtain command params p where k: "map_of kvs ''params'' = Some (JObj params)"
    and p: "decode_params command params = Some p" "ii_params ivn = p"
    and a: "\<forall>x. ii_actor ivn = Some x \<longrightarrow> isValidActorId x"
    by (auto simp: decodeInvocation_def split: option.splits json.splits if_splits)
  have "wf_json (JObj p)" using decode_params_wf [OF wf_json_entry [OF wf k] p(1)] .
  then show ?thesis using p(2) a by (simp add: command_ok_def)
qed

section \<open>Only the first patch moves a cursor\<close>

definition no_cursor :: "patch_op list \<Rightarrow> bool" where
  "no_cursor ops \<longleftrightarrow> list_all (\<lambda>op. \<not> is_allocation_op op) ops"

lemma no_cursor_simps [simp]:
  "no_cursor []" "no_cursor (x # xs) \<longleftrightarrow> \<not> is_allocation_op x \<and> no_cursor xs"
  "no_cursor (xs @ ys) \<longleftrightarrow> no_cursor xs \<and> no_cursor ys"
  by (simp_all add: no_cursor_def)

lemma allocation_op_simps [simp]:
  "is_allocation_op (OpAdd (k # p) v) \<longleftrightarrow> k = Key ''allocation''"
  "is_allocation_op (OpReplace (k # p) v old) \<longleftrightarrow> k = Key ''allocation''"
  "is_allocation_op (OpRemove (k # p) old) \<longleftrightarrow> k = Key ''allocation''"
  by (simp_all add: is_allocation_op_def)

lemma no_cursor_map [simp]: "no_cursor (map f xs) \<longleftrightarrow> (\<forall>x \<in> set xs. \<not> is_allocation_op (f x))"
  by (simp add: no_cursor_def list_all_iff)

lemma no_cursor_lists [simp]:
  "no_cursor (layerOrderPatches d ids)" "no_cursor (parentListPatches d p ids)"
  "no_cursor (rootTransformPatches d f)" "no_cursor (drop_unreferenced d rs used)"
proof -
  show o: "no_cursor (layerOrderPatches d ids)" for ids
    using orders_op [of _ d ids] by (fastforce simp: no_cursor_def list_all_iff is_allocation_op_def z_path_def)
  show "no_cursor (parentListPatches d p ids)"
    using o by (simp add: parentListPatches_def Let_def is_allocation_op_def split: option.splits)
  show "no_cursor (rootTransformPatches d f)" "no_cursor (drop_unreferenced d rs used)"
    by (simp_all add: rootTransformPatches_def drop_unreferenced_def Let_def)
qed

lemma set_masks_no_cursor [simp]: "\<not> is_allocation_op (set_masks d ow ids)"
  by (simp add: set_masks_def)

lemma layer_group_tail: "layer_group d actor params = Some (ops, c) \<Longrightarrow> no_cursor (tl ops)"
  unfolding layer_group_def Let_def by (auto split: option.splits prod.splits if_splits)

lemma add_raster_layer_tail: "add_raster_layer d actor params = Some (ops, c) \<Longrightarrow> no_cursor (tl ops)"
  unfolding add_raster_layer_def Let_def by (auto split: option.splits prod.splits if_splits)

lemma add_raster_mask_tail: "add_raster_mask d actor params = Some (ops, c) \<Longrightarrow> no_cursor (tl ops)"
  unfolding add_raster_mask_def Let_def by (auto split: option.splits prod.splits if_splits)

lemma quiet_commands:
  "canvas_crop d params = Some (ops, c) \<Longrightarrow> no_cursor ops" "canvas_resize d params = Some (ops, c) \<Longrightarrow> no_cursor ops"
  "canvas_update d params = Some (ops, c) \<Longrightarrow> no_cursor ops" "output_update d params = Some (ops, c) \<Longrightarrow> no_cursor ops"
  "layer_update d params = Some (ops, c) \<Longrightarrow> no_cursor ops" "layer_move d params = Some (ops, c) \<Longrightarrow> no_cursor ops"
  "layer_remove d params = Some (ops, c) \<Longrightarrow> no_cursor ops" "mask_update d params = Some (ops, c) \<Longrightarrow> no_cursor ops"
  "mask_remove d params = Some (ops, c) \<Longrightarrow> no_cursor ops"
  by (auto simp: canvas_crop_def canvas_resize_def canvas_update_def output_update_def layer_update_def layer_move_def
      layer_remove_def mask_update_def mask_remove_def Let_def split: option.splits prod.splits if_splits)

lemma commandPatches_tail: "commandPatches d ivn = Some (ops, c) \<Longrightarrow> no_cursor (tl ops)"
proof -
  assume a: "commandPatches d ivn = Some (ops, c)"
  have tl: "no_cursor ops \<Longrightarrow> no_cursor (tl ops)" by (cases ops) simp_all
  show ?thesis
    using commandPatches_cases [OF a]
    by (elim disjE) (erule layer_group_tail add_raster_layer_tail add_raster_mask_tail quiet_commands [THEN tl])+
qed

section \<open>Plans\<close>

lemma plan_parts:
  assumes "planImageDocumentCommand blake d v = Inr pl"
  shows "\<exists>ivn ops c nxt ds. decodeInvocation v = Some ivn \<and> commandPatches d ivn = Some (ops, c) \<and> applyOwnedOps d ops = Inr nxt \<and>
    loadImageDocument blake default_load (foreign_of_json nxt) = (Some (pl_document pl), ds) \<and>
    pl = \<lparr>pl_invocation = ivn, pl_document = pl_document pl, pl_forward = ops,
      pl_redo = filter (\<lambda>op. \<not> is_allocation_op op) ops, pl_inverse = invertOps (filter (\<lambda>op. \<not> is_allocation_op op) ops),
      pl_created = c\<rparr>"
  using assms unfolding planImageDocumentCommand_def failure_def Let_def
  by (auto split: option.splits prod.splits if_splits sum.splits)

definition with_allocation :: "json \<Rightarrow> json \<Rightarrow> json" where
  "with_allocation d e = spread d [(''allocation'', present (field e ''allocation''))]"

text \<open>What follows the cursor patch: it runs from the document with the plan's cursors.\<close>

lemma plan_redo_run:
  assumes l: "loads blake d" and so: "sound_ops d ops" and tl: "no_cursor (tl ops)" and run: "applyOwnedOps d ops = Inr nxt"
    and ln: "loads blake nxt"
  defines "redo \<equiv> filter (\<lambda>op. \<not> is_allocation_op op) ops"
  shows "applyOwnedOps (with_allocation d nxt) redo = Inr nxt \<and> recorded_run (with_allocation d nxt) redo \<and>
    wf_json (with_allocation d nxt) \<and> list_all wf_op redo"
proof -
  obtain kvs a where d: "d = JObj kvs" "map_of kvs ''allocation'' = Some a"
    using loads_next [OF l] by (auto simp: field_Some)
  have rec: "recorded_run d ops"
    using steady_recorded [OF _ _ run loads_wf [OF l]] so by (simp add: sound_ops_def)
  have wfs: "list_all wf_op ops" using so by (simp add: sound_ops_def)
  have apart: "list_all (\<lambda>x. apart (op_path x) [Key ''allocation'']) xs" if "no_cursor xs" "set xs \<subseteq> set ops" for xs
  proof -
    have "apart (op_path x) [Key ''allocation'']" if x: "x \<in> set xs" for x
    proof -
      have "doc_op x" "\<not> is_allocation_op x"
        using so x \<open>no_cursor xs\<close> \<open>set xs \<subseteq> set ops\<close> by (auto simp: sound_ops_def no_cursor_def list_all_iff)
      then show ?thesis by (auto simp: doc_op_def is_allocation_op_def)
    qed
    then show ?thesis by (simp add: list_all_iff)
  qed
  show ?thesis
  proof (cases "no_cursor ops")
    case True
    then have redo: "redo = ops" unfolding redo_def by (induction ops) simp_all
    have "field nxt ''allocation'' = Some a"
      using applyOwnedOps_apart [OF run apart [OF True]] d by (simp add: field_def split: json.splits option.splits)
    then have "with_allocation d nxt = d"
      using d by (simp add: with_allocation_def spread_def present_def map_update_same)
    then show ?thesis using run rec redo loads_wf [OF l] wfs by simp
  next
    case False
    then obtain cp rest where ops: "ops = cp # rest" "is_allocation_op cp" "no_cursor rest" using tl by (cases ops) auto
    then have redo: "redo = rest" unfolding redo_def no_cursor_def by (simp add: list_all_iff filter_id_conv)
    from run ops obtain d1 where d1: "applyOp d cp = Inr d1" "applyOwnedOps d1 rest = Inr nxt" by (auto simp: result_simps)
    obtain p where p: "op_path cp = Key ''allocation'' # p" using ops(2) by (auto simp: is_allocation_op_def split: list.splits)
    have "set rest \<subseteq> set ops" using ops by auto
    then have same: "field nxt ''allocation'' = field d1 ''allocation''"
      using applyOwnedOps_apart [OF d1(2) apart [OF ops(3)]] by (simp split: option.splits)
    then have "field d1 ''allocation'' \<noteq> None" using loads_next [OF ln] by auto
    then obtain b where b: "d1 = JObj (AList.update ''allocation'' b kvs)"
      using d1(1) d p by (cases cp; cases p) (auto simp: applyOp_def result_simps split: if_splits)
    have "field nxt ''allocation'' = Some b" using same b by simp
    then have "with_allocation d nxt = d1" using d b by (simp add: with_allocation_def spread_def present_def)
    moreover have "wf_json d1" using applyOp_wf [OF d1(1) loads_wf [OF l]] wfs ops by simp
    ultimately show ?thesis using d1 rec redo wfs ops by simp
  qed
qed

lemma plan_spec:
  assumes l: "loads blake d" and h: "heap_ok (fst v)" and pl: "planImageDocumentCommand blake d v = Inr pl"
  shows "applyOwnedOps d (pl_forward pl) = Inr (pl_document pl) \<and> loads blake (pl_document pl) \<and>
    applyOwnedOps (with_allocation d (pl_document pl)) (pl_redo pl) = Inr (pl_document pl) \<and>
    recorded_run (with_allocation d (pl_document pl)) (pl_redo pl) \<and> wf_json (with_allocation d (pl_document pl)) \<and>
    list_all wf_op (pl_redo pl) \<and> list_all doc_op (pl_redo pl) \<and> pl_inverse pl = invertOps (pl_redo pl)"
proof -
  obtain ivn ops c nxt ds where p: "decodeInvocation v = Some ivn" "commandPatches d ivn = Some (ops, c)"
    "applyOwnedOps d ops = Inr nxt" "loadImageDocument blake default_load (foreign_of_json nxt) = (Some (pl_document pl), ds)"
    "pl_forward pl = ops" "pl_redo pl = filter (\<lambda>op. \<not> is_allocation_op op) ops"
    "pl_inverse pl = invertOps (filter (\<lambda>op. \<not> is_allocation_op op) ops)"
    using plan_parts [OF pl] by (metis command_plan.select_convs)
  have so: "sound_ops d ops" using commandPatches_sound [OF l decodeInvocation_ok [OF h p(1)] p(2,3)] .
  then have "list_all wf_op ops" "list_all doc_op ops" by (simp_all add: sound_ops_def)
  from doc_ops_loaded [OF this l p(3,4)] have n: "pl_document pl = nxt" "loads blake nxt" by auto
  have "list_all doc_op (pl_redo pl)" using so p(6) by (auto simp: sound_ops_def list_all_iff)
  then show ?thesis
    using plan_redo_run [OF l so commandPatches_tail [OF p(2)] p(3) n(2)] p n by simp
qed

end
