(* ===== verification/ImageStore.thy ===== *)
theory ImageStore
  imports ImagePlanLaws
begin

text \<open>
  The image document store and its local session: \<open>packages/core/src/image-document/store.ts\<close> and
  \<open>session.ts\<close>.

  A method takes the store to the next one and gives its result and the transaction it committed, if any; a
  thrown error is an \<open>Inl\<close>. Every method that commits takes the clock's reading. Transactions are handed to the
  listeners; what a listener throws is caught, and listeners that call back into the store are not modelled.
\<close>

section \<open>The store\<close>

record image_history =
  ih_invocation :: image_invocation
  ih_forward :: "patch_op list"
  ih_inverse :: "patch_op list"
  ih_resources :: "string set"

datatype image_origin = Invoked image_invocation | ImageUndo | ImageRedo

record image_transaction =
  it_revision :: nat
  it_invocation :: image_origin
  it_forward :: "patch_op list"
  it_inverse :: "patch_op list"
  it_timestamp :: rat

record image_store =
  im_current :: json
  im_revision :: nat
  im_undo :: "image_history list"
  im_redo :: "image_history list"
  im_max_undo :: nat

text \<open>The stacks are lists, the top first.\<close>

datatype store_error = BadMaxUndo | InvalidInitial | ReplayFailed patch_error | ReplayViolation

definition resourceDigests :: "json \<Rightarrow> string set" where
  "resourceDigests document = set (map (\<lambda>kv. text_of (field (snd kv) ''digest'')) (resources_of document))"

definition changedResources :: "json \<Rightarrow> json \<Rightarrow> string set" where
  "changedResources before after =
     (resourceDigests before - resourceDigests after) \<union> (resourceDigests after - resourceDigests before)"

definition new_image_store :: "(nat list \<Rightarrow> string) \<Rightarrow> jsnum \<Rightarrow> foreign \<Rightarrow> store_error + image_store" where
  "new_image_store blake3_hex maxUndo initial =
     (case maxUndo of
        Fin n \<Rightarrow>
          if \<not> is_safe_integer n \<or> n < 0 then Inl BadMaxUndo
          else
            (case loadImageDocument blake3_hex default_load initial of
               (None, ds) \<Rightarrow> Inl InvalidInitial
             | (Some loaded, ds) \<Rightarrow>
                 Inr \<lparr>im_current = loaded, im_revision = 0, im_undo = [], im_redo = [], im_max_undo = nat \<lfloor>n\<rfloor>\<rparr>)
      | NegZero \<Rightarrow>
          (case loadImageDocument blake3_hex default_load initial of
             (None, ds) \<Rightarrow> Inl InvalidInitial
           | (Some loaded, ds) \<Rightarrow>
               Inr \<lparr>im_current = loaded, im_revision = 0, im_undo = [], im_redo = [], im_max_undo = 0\<rparr>)
      | _ \<Rightarrow> Inl BadMaxUndo)"

definition im_can_undo :: "image_store \<Rightarrow> bool" where
  "im_can_undo st \<longleftrightarrow> length (im_undo st) > 0"

definition im_can_redo :: "image_store \<Rightarrow> bool" where
  "im_can_redo st \<longleftrightarrow> length (im_redo st) > 0"

definition im_commit ::
  "rat \<Rightarrow> image_origin \<Rightarrow> patch_op list \<Rightarrow> patch_op list \<Rightarrow> image_store \<Rightarrow> image_store \<times> image_transaction" where
  "im_commit clock origin forward inverted st =
     (let st1 = st\<lparr>im_revision := Suc (im_revision st)\<rparr>
      in (st1, \<lparr>it_revision = im_revision st1, it_invocation = origin, it_forward = forward, it_inverse = inverted,
                it_timestamp = clock\<rparr>))"

definition drop_oldest :: "nat \<Rightarrow> 'a list \<Rightarrow> 'a list" where
  "drop_oldest limit stack = (if length stack > limit then butlast stack else stack)"

definition im_dispatch ::
  "(nat list \<Rightarrow> string) \<Rightarrow> rat \<Rightarrow> foreign \<Rightarrow> image_store \<Rightarrow>
     (diagnostic list + image_transaction \<times> created_ids option) \<times> image_store" where
  "im_dispatch blake3_hex clock v st =
     (case planImageDocumentCommand blake3_hex (im_current st) v of
        Inl ds \<Rightarrow> (Inl ds, st)
      | Inr plan \<Rightarrow>
          (let entry = \<lparr>ih_invocation = pl_invocation plan, ih_forward = pl_redo plan, ih_inverse = pl_inverse plan,
                        ih_resources = changedResources (im_current st) (pl_document plan)\<rparr>;
               st1 = st\<lparr>im_current := pl_document plan, im_undo := drop_oldest (im_max_undo st) (entry # im_undo st),
                        im_redo := []\<rparr>;
               (st2, transaction) = im_commit clock (Invoked (pl_invocation plan)) (pl_forward plan) (pl_inverse plan) st1
           in (Inr (transaction, pl_created plan), st2)))"

definition im_replay :: "(nat list \<Rightarrow> string) \<Rightarrow> patch_op list \<Rightarrow> image_store \<Rightarrow> store_error + json" where
  "im_replay blake3_hex operations st =
     (case applyOwnedOps (im_current st) operations of
        Inl e \<Rightarrow> Inl (ReplayFailed e)
      | Inr candidate \<Rightarrow>
          (case loadImageDocument blake3_hex default_load (foreign_of_json candidate) of
             (None, ds) \<Rightarrow> Inl ReplayViolation
           | (Some loaded, ds) \<Rightarrow> Inr loaded))"

definition im_undo_step ::
  "(nat list \<Rightarrow> string) \<Rightarrow> rat \<Rightarrow> image_store \<Rightarrow> store_error + image_transaction option \<times> image_store" where
  "im_undo_step blake3_hex clock st =
     (case im_undo st of
        [] \<Rightarrow> Inr (None, st)
      | entry # rest \<Rightarrow>
          rbind (im_replay blake3_hex (ih_inverse entry) st) (\<lambda>document.
            (let st1 = st\<lparr>im_undo := rest, im_current := document, im_redo := entry # im_redo st\<rparr>;
                 (st2, transaction) = im_commit clock ImageUndo (ih_inverse entry) (ih_forward entry) st1
             in Inr (Some transaction, st2))))"

definition im_redo_step ::
  "(nat list \<Rightarrow> string) \<Rightarrow> rat \<Rightarrow> image_store \<Rightarrow> store_error + image_transaction option \<times> image_store" where
  "im_redo_step blake3_hex clock st =
     (case im_redo st of
        [] \<Rightarrow> Inr (None, st)
      | entry # rest \<Rightarrow>
          rbind (im_replay blake3_hex (ih_forward entry) st) (\<lambda>document.
            (let st1 = st\<lparr>im_redo := rest, im_current := document, im_undo := entry # im_undo st\<rparr>;
                 (st2, transaction) = im_commit clock ImageRedo (ih_forward entry) (ih_inverse entry) st1
             in Inr (Some transaction, st2))))"

definition im_clear_history :: "image_store \<Rightarrow> image_store" where
  "im_clear_history st = st\<lparr>im_undo := [], im_redo := []\<rparr>"

definition retainedResourceDigests :: "image_store \<Rightarrow> string set" where
  "retainedResourceDigests st =
     resourceDigests (im_current st) \<union> \<Union> (set (map ih_resources (im_undo st @ im_redo st)))"

section \<open>The session\<close>

datatype wire_patch = WireSet bool path json | WireRemove path   \<comment> \<open>\<open>True\<close> for add, \<open>False\<close> for replace\<close>

fun wire_op :: "patch_op \<Rightarrow> wire_patch" where
  "wire_op (OpAdd p v) = WireSet True p v"
| "wire_op (OpReplace p v old) = WireSet False p v"
| "wire_op (OpRemove p old) = WireRemove p"

definition wirePatch :: "patch_op list \<Rightarrow> wire_patch list" where
  "wirePatch operations = map wire_op operations"

record session_op =
  so_opId :: string
  so_actorId :: string
  so_baseRevision :: nat
  so_revision :: nat
  so_patch :: "wire_patch list"
  so_timestamp :: rat
  so_origin :: string

record image_session =
  se_store :: image_store
  se_actorId :: string
  se_opCounter :: nat

fun origin_name :: "image_origin \<Rightarrow> string" where
  "origin_name (Invoked ivn) = ii_command ivn"
| "origin_name ImageUndo = ''image.undo''"
| "origin_name ImageRedo = ''image.redo''"

definition new_image_session ::
  "(nat list \<Rightarrow> string) \<Rightarrow> string option \<Rightarrow> jsnum option \<Rightarrow> foreign \<Rightarrow> store_error option + image_session" where
  "new_image_session blake3_hex actorId maxUndo initial =
     (let actor = (case actorId of None \<Rightarrow> ''local'' | Some a \<Rightarrow> a)
      in if \<not> isValidActorId actor then Inl None
         else
           (case new_image_store blake3_hex (case maxUndo of None \<Rightarrow> Fin 200 | Some n \<Rightarrow> n) initial of
              Inl e \<Rightarrow> Inl (Some e)
            | Inr st \<Rightarrow> Inr \<lparr>se_store = st, se_actorId = actor, se_opCounter = 0\<rparr>))"

definition publish :: "image_transaction \<Rightarrow> image_session \<Rightarrow> session_op \<times> image_session" where
  "publish transaction se =
     (let se1 = se\<lparr>se_opCounter := Suc (se_opCounter se)\<rparr>
      in (\<lparr>so_opId = se_actorId se1 @ ''#'' @ show_nat (se_opCounter se1), so_actorId = se_actorId se1,
           so_baseRevision = it_revision transaction - 1, so_revision = it_revision transaction,
           so_patch = wirePatch (it_forward transaction), so_timestamp = it_timestamp transaction,
           so_origin = origin_name (it_invocation transaction)\<rparr>, se1))"

definition publish_all :: "image_transaction option \<Rightarrow> image_session \<Rightarrow> session_op list \<times> image_session" where
  "publish_all transaction se =
     (case transaction of None \<Rightarrow> ([], se) | Some t \<Rightarrow> (case publish t se of (op, se1) \<Rightarrow> ([op], se1)))"

text \<open>The calls of a session's client, and what it sees of each.\<close>

datatype image_action = DispatchImage foreign | UndoImage | RedoImage | ClearImage

definition store_action ::
  "(nat list \<Rightarrow> string) \<Rightarrow> rat \<Rightarrow> image_action \<Rightarrow> image_store \<Rightarrow> image_transaction option \<times> image_store" where
  "store_action blake3_hex clock action st =
     (case action of
        DispatchImage v \<Rightarrow>
          (case im_dispatch blake3_hex clock v st of
             (Inl ds, st1) \<Rightarrow> (None, st1)
           | (Inr (t, c), st1) \<Rightarrow> (Some t, st1))
      | UndoImage \<Rightarrow> (case im_undo_step blake3_hex clock st of Inl e \<Rightarrow> (None, st) | Inr r \<Rightarrow> r)
      | RedoImage \<Rightarrow> (case im_redo_step blake3_hex clock st of Inl e \<Rightarrow> (None, st) | Inr r \<Rightarrow> r)
      | ClearImage \<Rightarrow> (None, im_clear_history st))"

definition session_action ::
  "(nat list \<Rightarrow> string) \<Rightarrow> rat \<Rightarrow> image_action \<Rightarrow> image_session \<Rightarrow> session_op list \<times> image_session" where
  "session_action blake3_hex clock action se =
     (case store_action blake3_hex clock action (se_store se) of
        (t, st) \<Rightarrow> publish_all t (se\<lparr>se_store := st\<rparr>))"

fun session_run ::
  "(nat list \<Rightarrow> string) \<Rightarrow> (rat \<times> image_action) list \<Rightarrow> image_session \<Rightarrow> session_op list \<times> image_session" where
  "session_run blake3_hex [] se = ([], se)"
| "session_run blake3_hex ((clock, action) # actions) se =
     (case session_action blake3_hex clock action se of
        (ops, se1) \<Rightarrow> (case session_run blake3_hex actions se1 of (ops', se2) \<Rightarrow> (ops @ ops', se2)))"

end
