(* ===== verification/Collab.thy ===== *)
theory Collab
  imports ImageStore
begin

text \<open>
  The collaboration protocol's validators, \<open>packages/core/src/commands/collab-protocol.ts\<close>, and the wire form of
  patches, \<open>toWirePatch\<close> of \<open>commands/session.ts\<close>.

  Messages are JSON values: they come off the wire. A validator gives the first fault it finds, \<open>None\<close> for
  the code's \<open>null\<close>; the texts of the faults are not modelled. After its validation a server operation is read
  through the readers below.
\<close>

definition COLLAB_PROTOCOL_VERSION :: rat where
  "COLLAB_PROTOCOL_VERSION = 1"

datatype collab_fault =
    PatchNotAnArray | PatchOpNotAnObject | UnknownPatchOp | EmptyPatchPath | ForbiddenPathSegment | BadPathSegment | PatchNeedsValue
  | NotAnEnvelope | BadOpId | BadActorId | BadBaseRevision | BadRevision | RevisionNotNext | BadTimestamp
  | NotADescriptor | VersionUnsupported | SessionMismatch | KindMismatch | BadSnapshotRevision

definition isValidCollabRevision :: "json option \<Rightarrow> bool" where
  "isValidCollabRevision v = (case v of Some (JNum r) \<Rightarrow> is_safe_integer r \<and> r \<ge> 0 | _ \<Rightarrow> False)"

definition revision_of :: "json option \<Rightarrow> nat" where
  "revision_of v = nat \<lfloor>number_of v\<rfloor>"

definition WIRE_PATCH_OPS :: "string list" where
  "WIRE_PATCH_OPS = [''add'', ''remove'', ''replace'']"

definition FORBIDDEN_SEGMENTS :: "string list" where
  "FORBIDDEN_SEGMENTS = [''__proto__'', ''constructor'', ''prototype'']"

section \<open>Validators\<close>

fun first_fault :: "('a \<Rightarrow> collab_fault option) \<Rightarrow> 'a list \<Rightarrow> collab_fault option" where
  "first_fault f [] = None"
| "first_fault f (x # xs) = (case f x of Some e \<Rightarrow> Some e | None \<Rightarrow> first_fault f xs)"

fun segment_fault :: "json \<Rightarrow> collab_fault option" where
  "segment_fault (JStr s) = (if s \<in> set FORBIDDEN_SEGMENTS then Some ForbiddenPathSegment else None)"
| "segment_fault (JNum r) = (if \<not> is_safe_integer r \<or> r < 0 then Some BadPathSegment else None)"
| "segment_fault _ = Some BadPathSegment"

definition wire_op_fault :: "json \<Rightarrow> collab_fault option" where
  "wire_op_fault raw =
     (if \<not> is_object (Some raw) then Some PatchOpNotAnObject
      else if \<not> (\<exists>k \<in> set WIRE_PATCH_OPS. field raw ''op'' = Some (JStr k)) then Some UnknownPatchOp
      else
        (case field raw ''path'' of
           Some (JArr (s # ss)) \<Rightarrow>
             (case first_fault segment_fault (s # ss) of
                Some e \<Rightarrow> Some e
              | None \<Rightarrow>
                  if field raw ''op'' \<noteq> Some (JStr ''remove'') \<and> field raw ''value'' = None then Some PatchNeedsValue else None)
         | _ \<Rightarrow> Some EmptyPatchPath))"

definition validateCollabWirePatchShape :: "json option \<Rightarrow> collab_fault option" where
  "validateCollabWirePatchShape patch =
     (case patch of Some (JArr ops) \<Rightarrow> first_fault wire_op_fault ops | _ \<Rightarrow> Some PatchNotAnArray)"

definition valid_actor :: "json option \<Rightarrow> bool" where
  "valid_actor v = (case v of Some (JStr a) \<Rightarrow> isValidActorId a | _ \<Rightarrow> False)"

fun is_container :: "json \<Rightarrow> bool" where
  "is_container (JArr _) = True"
| "is_container (JObj _) = True"
| "is_container _ = False"

definition validateCollabServerOp :: "json \<Rightarrow> collab_fault option" where
  "validateCollabServerOp raw =
     (if \<not> is_container raw then Some NotAnEnvelope
      else if (case field raw ''opId'' of Some (JStr i) \<Rightarrow> i = [] | _ \<Rightarrow> True) then Some BadOpId
      else if \<not> valid_actor (field raw ''actorId'') then Some BadActorId
      else if \<not> isValidCollabRevision (field raw ''baseRevision'') then Some BadBaseRevision
      else if \<not> isValidCollabRevision (field raw ''revision'') \<or> number_of (field raw ''revision'') < 1 then Some BadRevision
      else if number_of (field raw ''baseRevision'') \<noteq> number_of (field raw ''revision'') - 1 then Some RevisionNotNext
      else if (case field raw ''timestamp'' of Some (JNum _) \<Rightarrow> False | _ \<Rightarrow> True) then Some BadTimestamp
      else validateCollabWirePatchShape (field raw ''patch''))"

definition validateCollabDescriptor :: "json \<Rightarrow> string \<Rightarrow> string \<Rightarrow> collab_fault option" where
  "validateCollabDescriptor raw sessionId documentKind =
     (if \<not> is_container raw then Some NotADescriptor
      else if field raw ''protocolVersion'' \<noteq> Some (JNum COLLAB_PROTOCOL_VERSION) then Some VersionUnsupported
      else if field raw ''sessionId'' \<noteq> Some (JStr sessionId) then Some SessionMismatch
      else if (case field raw ''documentKind'' of None \<Rightarrow> JStr ''workflow'' | Some JNull \<Rightarrow> JStr ''workflow'' | Some k \<Rightarrow> k) \<noteq>
          JStr documentKind then Some KindMismatch
      else if \<not> isValidCollabRevision (field raw ''revision'') then Some BadRevision
      else if \<not> isValidCollabRevision (field raw ''snapshotRevision'') \<or>
          number_of (field raw ''snapshotRevision'') > number_of (field raw ''revision'') then Some BadSnapshotRevision
      else None)"

section \<open>Server operations and wire patches\<close>

definition op_opId :: "json \<Rightarrow> string" where
  "op_opId op = text_of (field op ''opId'')"

definition op_actorId :: "json \<Rightarrow> string" where
  "op_actorId op = text_of (field op ''actorId'')"

definition op_base :: "json \<Rightarrow> nat" where
  "op_base op = revision_of (field op ''baseRevision'')"

definition op_revision :: "json \<Rightarrow> nat" where
  "op_revision op = revision_of (field op ''revision'')"

definition op_patch :: "json \<Rightarrow> json" where
  "op_patch op = present (field op ''patch'')"

fun seg_json :: "seg \<Rightarrow> json" where
  "seg_json (Key k) = JStr k"
| "seg_json (Idx i) = JNum i"

definition path_json :: "path \<Rightarrow> json" where
  "path_json p = JArr (map seg_json p)"

fun wire_object :: "patch_op \<Rightarrow> json" where
  "wire_object (OpAdd p v) = JObj [(''op'', JStr ''add''), (''path'', path_json p), (''value'', v)]"
| "wire_object (OpReplace p v old) = JObj [(''op'', JStr ''replace''), (''path'', path_json p), (''value'', v)]"
| "wire_object (OpRemove p old) = JObj [(''op'', JStr ''remove''), (''path'', path_json p)]"

definition toWirePatch :: "patch_op list \<Rightarrow> json" where
  "toWirePatch ops = JArr (map wire_object ops)"

end
