(* ===== verification/SharedImage.thy ===== *)
theory SharedImage
  imports Collab
begin

text \<open>
  The collaborative session of an image document: \<open>packages/core/src/image-document/shared-session.ts\<close>.

  The session keeps the document the server has confirmed and shows the document with its own pending edits on
  top. The class is single-threaded but asynchronous: its two loops, the pump that posts pending edits and the
  sync that catches up, stop at every \<open>await\<close>. Here each loop has a program counter, and one step of the
  session is a call of its client, an event of the connection, or the continuation of a loop at an \<open>await\<close>
  with the reply it gets; the environment picks the steps in any order, and a continuation the loops do not
  wait for changes nothing. What the session asks of its connection and tells its observers is recorded in
  order in \<open>sh_out\<close>. Observers do not call back into the session, and the events of a connection it has
  unsubscribed from are ignored by the status check the code has as well. \<open>sh_checkpoints\<close> and \<open>sh_snapshotReads\<close> are the
  checkpoints, and the snapshot reads after a refused one, that are under way beside the loops.

  History records are shared between the stacks and the pending entries and changed in place: they are cells
  of a store here, and entries and stacks hold their numbers. The stacks are in the order of the code's
  arrays, the top last. Entries have a number as well, for the pump that holds on to its head entry while it
  waits.
\<close>

section \<open>State\<close>

datatype shared_status = ShLive | ShCatchingUp | ShClosed | ShError

record history_record =
  hr_forward :: "patch_op list"
  hr_inverse :: "patch_op list"

record attempt =
  at_opId :: string
  at_baseRevision :: nat
  at_patch :: json

datatype intention = IntendCommand image_invocation | IntendPatch "patch_op list"

record entry =
  en_ref :: nat
  en_opId :: string
  en_intention :: intention
  en_origin :: string
  en_predicted :: json
  en_attempts :: "attempt list"
  en_record :: "nat option"

text \<open>Where the loops wait; \<open>PumpPosting\<close> tells whether the attempt was new.\<close>

datatype pump_pc =
    PumpIdle | PumpStarting | PumpPosting nat attempt bool | PumpPutting | PumpFetching | PumpWaiting | PumpEnding

datatype sync_pc = SyncIdle | SyncFetching | SyncPaging | SyncWaiting | SyncCaught | SyncEnding

datatype call =
    PostOp string nat json
  | PutSnapshot nat json
  | FetchSnapshot
  | FetchOps nat
  | SendPresence json
  | CloseConnection
  | NotifyOp json string
  | NotifyConflict string
  | NotifyError
  | NotifyPresence string "json option"

record shared =
  sh_actorId :: string
  sh_sessionId :: string
  sh_opNonce :: string
  sh_maxUndo :: nat
  sh_status :: shared_status
  sh_confirmed :: json
  sh_confirmedRevision :: nat
  sh_optimistic :: json
  sh_pending :: "entry list"
  sh_undo :: "nat list"
  sh_redo :: "nat list"
  sh_records :: "nat \<Rightarrow> history_record"
  sh_next :: nat
  sh_retained :: "string set"
  sh_opCounter :: nat
  sh_pump :: pump_pc
  sh_sync :: sync_pc
  sh_syncTarget :: rat
  sh_resync :: bool
  sh_connected :: bool
  sh_lastSnapshot :: nat
  sh_checkpoints :: "nat list"
  sh_snapshotReads :: nat
  sh_out :: "call list"

definition syncing :: "shared \<Rightarrow> bool" where
  "syncing s \<longleftrightarrow> sh_sync s \<noteq> SyncIdle"

definition is_down :: "shared \<Rightarrow> bool" where
  "is_down s \<longleftrightarrow> sh_status s = ShClosed \<or> sh_status s = ShError"

definition shared_revision :: "shared \<Rightarrow> nat" where
  "shared_revision s = sh_confirmedRevision s + length (sh_pending s)"

definition tell :: "call \<Rightarrow> shared \<Rightarrow> shared" where
  "tell c s = s\<lparr>sh_out := sh_out s @ [c]\<rparr>"

section \<open>Documents\<close>

definition loadedDocument :: "(nat list \<Rightarrow> string) \<Rightarrow> foreign \<Rightarrow> json option" where
  "loadedDocument blake3_hex v = fst (loadImageDocument blake3_hex default_load v)"

definition applyWire :: "(nat list \<Rightarrow> string) \<Rightarrow> json \<Rightarrow> json \<Rightarrow> json option" where
  "applyWire blake3_hex document patch =
     (case applyOps document (fst (foreign_of_json patch)) (snd (foreign_of_json patch)) of
        Inl e \<Rightarrow> None
      | Inr nxt \<Rightarrow> loadedDocument blake3_hex (foreign_of_json nxt))"

definition still_there :: "json \<Rightarrow> patch_op \<Rightarrow> bool" where
  "still_there current operation =
     (case (operation, getAtPath current (op_path operation)) of
        (OpAdd p v, found) \<Rightarrow> found = None
      | (OpReplace p v old, Some x) \<Rightarrow> jsonSameValue x old
      | (OpRemove p old, Some x) \<Rightarrow> jsonSameValue x old
      | _ \<Rightarrow> False)"

fun image_history_loop :: "json \<Rightarrow> patch_op list \<Rightarrow> patch_op list \<Rightarrow> (json \<times> patch_op list \<times> patch_op option) option" where
  "image_history_loop current applied [] = Some (current, applied, None)"
| "image_history_loop current applied (operation # operations) =
     (if \<not> still_there current operation then Some (current, applied, Some operation)
      else
        (case applyOwnedOps current [operation] of
           Inl e \<Rightarrow> None
         | Inr nxt \<Rightarrow> image_history_loop nxt (applied @ [operation]) operations))"

definition replayImageHistory ::
  "(nat list \<Rightarrow> string) \<Rightarrow> json \<Rightarrow> patch_op list \<Rightarrow> (json \<times> patch_op list \<times> patch_op option) option" where
  "replayImageHistory blake3_hex document operations =
     (case image_history_loop document [] operations of
        None \<Rightarrow> None
      | Some (current, applied, stale) \<Rightarrow>
          map_option (\<lambda>d. (d, applied, stale)) (loadedDocument blake3_hex (foreign_of_json current)))"

text \<open>The invocation as the object it was decoded to.\<close>

definition invocation_json :: "image_invocation \<Rightarrow> json" where
  "invocation_json v =
     JObj ([(''command'', JStr (ii_command v)), (''params'', JObj (ii_params v))] @
       (case ii_actor v of None \<Rightarrow> [] | Some a \<Rightarrow> [(''actor'', JStr a)]))"

section \<open>Helpers of the class\<close>

definition mintOpId :: "shared \<Rightarrow> string \<times> shared" where
  "mintOpId s =
     (let s1 = s\<lparr>sh_opCounter := Suc (sh_opCounter s)\<rparr>
      in (sh_actorId s1 @ ''#'' @ sh_opNonce s1 @ ''#'' @ show_nat (sh_opCounter s1), s1))"

definition new_record :: "history_record \<Rightarrow> shared \<Rightarrow> nat \<times> shared" where
  "new_record r s = (sh_next s, s\<lparr>sh_records := (sh_records s)(sh_next s := r), sh_next := Suc (sh_next s)\<rparr>)"

definition removeHistory :: "nat \<Rightarrow> shared \<Rightarrow> shared" where
  "removeHistory record s = s\<lparr>sh_undo := remove1 record (sh_undo s), sh_redo := remove1 record (sh_redo s)\<rparr>"

definition drop_record :: "nat option \<Rightarrow> shared \<Rightarrow> shared" where
  "drop_record record s = (case record of None \<Rightarrow> s | Some r \<Rightarrow> removeHistory r s)"

definition retainedAdd :: "string set \<Rightarrow> shared \<Rightarrow> shared" where
  "retainedAdd digests s = s\<lparr>sh_retained := sh_retained s \<union> digests\<rparr>"

definition fail_session :: "shared \<Rightarrow> shared" where
  "fail_session s =
     (if is_down s then s else tell NotifyError (s\<lparr>sh_status := ShError, sh_connected := False\<rparr>))"

definition pump :: "shared \<Rightarrow> shared" where
  "pump s =
     (if sh_pump s \<noteq> PumpIdle \<or> syncing s \<or> sh_status s \<noteq> ShLive then s else s\<lparr>sh_pump := PumpStarting\<rparr>)"

definition close_session :: "shared \<Rightarrow> shared" where
  "close_session s =
     (let s1 = (if sh_connected s \<and> sh_pending s = [] \<and> sh_confirmedRevision s > sh_lastSnapshot s
                then tell (PutSnapshot (sh_confirmedRevision s) (sh_confirmed s)) s else s)
      in (tell CloseConnection s1)\<lparr>sh_connected := False, sh_status := ShClosed\<rparr>)"

section \<open>Edits of the client\<close>

definition enqueue_entry :: "intention \<Rightarrow> patch_op list \<Rightarrow> string \<Rightarrow> nat option \<Rightarrow> shared \<Rightarrow> shared" where
  "enqueue_entry intent forward origin record s =
     (let (opId, s1) = mintOpId s;
          e = \<lparr>en_ref = sh_next s1, en_opId = opId, en_intention = intent, en_origin = origin,
               en_predicted = toWirePatch forward, en_attempts = [], en_record = record\<rparr>
      in pump (s1\<lparr>sh_pending := sh_pending s1 @ [e], sh_next := Suc (sh_next s1)\<rparr>))"

definition shared_dispatch ::
  "(nat list \<Rightarrow> string) \<Rightarrow> rat \<Rightarrow> json \<Rightarrow> shared \<Rightarrow>
     (diagnostic list + image_transaction \<times> created_ids option) \<times> shared" where
  "shared_dispatch blake3_hex clock invocation s =
     (if is_down s then (Inl [error_diag ''image.session.unavailable''], s)
      else
        (case planImageDocumentCommand blake3_hex (sh_optimistic s)
            (foreign_of_json (spread invocation [(''actor'', JStr (sh_actorId s))])) of
           Inl ds \<Rightarrow> (Inl ds, s)
         | Inr plan \<Rightarrow>
             (let (record, s1) = new_record \<lparr>hr_forward = pl_redo plan, hr_inverse = pl_inverse plan\<rparr> s;
                  s2 = retainedAdd (changedResources (sh_optimistic s1) (pl_document plan)) s1;
                  undo = sh_undo s2 @ [record];
                  s3 = s2\<lparr>sh_optimistic := pl_document plan,
                          sh_undo := (if length undo > sh_maxUndo s2 then tl undo else undo), sh_redo := []\<rparr>;
                  s4 = enqueue_entry (IntendCommand (pl_invocation plan)) (pl_forward plan)
                         (ii_command (pl_invocation plan)) (Some record) s3
              in (Inr (\<lparr>it_revision = shared_revision s4, it_invocation = Invoked (pl_invocation plan),
                        it_forward = pl_forward plan, it_inverse = pl_inverse plan, it_timestamp = clock\<rparr>,
                       pl_created plan), s4))))"

text \<open>\<open>undo\<close> is the direction \<open>True\<close>. The record is popped before anything is checked.\<close>

definition stack_of :: "bool \<Rightarrow> shared \<Rightarrow> nat list" where
  "stack_of undo s = (if undo then sh_undo s else sh_redo s)"

definition pop_stack :: "bool \<Rightarrow> shared \<Rightarrow> shared" where
  "pop_stack undo s = (if undo then s\<lparr>sh_undo := butlast (sh_undo s)\<rparr> else s\<lparr>sh_redo := butlast (sh_redo s)\<rparr>)"

definition push_stack :: "bool \<Rightarrow> nat \<Rightarrow> shared \<Rightarrow> shared" where
  "push_stack undo r s = (if undo then s\<lparr>sh_undo := sh_undo s @ [r]\<rparr> else s\<lparr>sh_redo := sh_redo s @ [r]\<rparr>)"

definition replay_history :: "(nat list \<Rightarrow> string) \<Rightarrow> bool \<Rightarrow> shared \<Rightarrow> bool \<times> shared" where
  "replay_history blake3_hex undo s =
     (if stack_of undo s = [] then (False, s)
      else
        (let record = last (stack_of undo s);
             s1 = pop_stack undo s;
             operations = (if undo then hr_inverse (sh_records s1 record) else hr_forward (sh_records s1 record));
             origin = (if undo then ''image.undo'' else ''image.redo'')
         in case replayImageHistory blake3_hex (sh_optimistic s1) operations of
              Some (nxt, applied, None) \<Rightarrow>
                (True, enqueue_entry (IntendPatch operations) applied origin (Some record)
                   (push_stack (\<not> undo) record (s1\<lparr>sh_optimistic := nxt\<rparr>)))
            | _ \<Rightarrow> (False, tell (NotifyConflict origin) s1)))"

definition shared_clear_history :: "shared \<Rightarrow> shared" where
  "shared_clear_history s = s\<lparr>sh_undo := [], sh_redo := [], sh_retained := {}\<rparr>"

definition shared_retained :: "shared \<Rightarrow> string set" where
  "shared_retained s = resourceDigests (sh_optimistic s) \<union> sh_retained s"

section \<open>Rebasing\<close>

definition set_record :: "nat option \<Rightarrow> history_record \<Rightarrow> shared \<Rightarrow> shared" where
  "set_record record r s =
     (case record of None \<Rightarrow> s | Some n \<Rightarrow> s\<lparr>sh_records := (sh_records s)(n := r)\<rparr>)"

text \<open>The intention of an entry on a new ground: its patches, the next ground and the state with the record updated.\<close>

definition reapply :: "(nat list \<Rightarrow> string) \<Rightarrow> json \<Rightarrow> entry \<Rightarrow> shared \<Rightarrow> (patch_op list \<times> json \<times> shared) option" where
  "reapply blake3_hex cursor e s =
     (case en_intention e of
        IntendCommand invocation \<Rightarrow>
          (case planImageDocumentCommand blake3_hex cursor (foreign_of_json (invocation_json invocation)) of
             Inl ds \<Rightarrow> None
           | Inr plan \<Rightarrow>
               Some (pl_forward plan, pl_document plan,
                 set_record (en_record e) \<lparr>hr_forward = pl_redo plan, hr_inverse = pl_inverse plan\<rparr> s))
      | IntendPatch operations \<Rightarrow>
          (case replayImageHistory blake3_hex cursor operations of
             Some (nxt, applied, None) \<Rightarrow> Some (applied, nxt, s)
           | _ \<Rightarrow> None))"

fun rebase_entries :: "(nat list \<Rightarrow> string) \<Rightarrow> entry list \<Rightarrow> json \<Rightarrow> shared \<Rightarrow> entry list \<times> json \<times> shared" where
  "rebase_entries blake3_hex [] cursor s = ([], cursor, s)"
| "rebase_entries blake3_hex (e # es) cursor s =
     (case reapply blake3_hex cursor e s of
        None \<Rightarrow> rebase_entries blake3_hex es cursor (tell (NotifyConflict (en_origin e)) (drop_record (en_record e) s))
      | Some (patch, nxt, s1) \<Rightarrow>
          (let (opId, s2) = mintOpId s1;
               e' = e\<lparr>en_opId := opId, en_predicted := toWirePatch patch,
                      en_attempts := filter (\<lambda>a. at_baseRevision a \<ge> sh_confirmedRevision s) (en_attempts e)\<rparr>;
               (survivors, cursor', s3) = rebase_entries blake3_hex es nxt s2
           in (e' # survivors, cursor', s3)))"

definition rebase :: "(nat list \<Rightarrow> string) \<Rightarrow> shared \<Rightarrow> shared" where
  "rebase blake3_hex s =
     (let (survivors, cursor, s1) = rebase_entries blake3_hex (sh_pending s) (sh_confirmed s) s
      in s1\<lparr>sh_pending := survivors, sh_optimistic := cursor\<rparr>)"

section \<open>Operations from the server\<close>

definition is_attempt :: "json \<Rightarrow> attempt \<Rightarrow> bool" where
  "is_attempt operation a \<longleftrightarrow> at_opId a = op_opId operation \<and> at_baseRevision a = op_base operation \<and>
     jsonSameValue (at_patch a) (op_patch operation)"

definition confirms :: "json \<Rightarrow> entry \<Rightarrow> bool" where
  "confirms operation e \<longleftrightarrow> list_ex (is_attempt operation) (en_attempts e)"

definition pending_index :: "json \<Rightarrow> entry list \<Rightarrow> nat" where
  "pending_index operation es = length (takeWhile (\<lambda>e. \<not> confirms operation e) es)"

text \<open>\<open>False\<close> tells of a throw. The confirmed document has moved when a known operation id comes with another payload.\<close>

definition ingestOrdered :: "(nat list \<Rightarrow> string) \<Rightarrow> json \<Rightarrow> shared \<Rightarrow> bool \<times> shared" where
  "ingestOrdered blake3_hex operation s =
     (if op_revision operation \<noteq> sh_confirmedRevision s + 1 then (False, s)
      else
        (case applyWire blake3_hex (sh_confirmed s) (op_patch operation) of
           None \<Rightarrow> (False, s)
         | Some document \<Rightarrow>
             (let s1 = s\<lparr>sh_confirmed := document, sh_confirmedRevision := op_revision operation\<rparr>;
                  i = pending_index operation (sh_pending s1)
              in if i < length (sh_pending s1) then
                   (let e = sh_pending s1 ! i;
                        s2 = s1\<lparr>sh_pending := take i (sh_pending s1) @ drop (Suc i) (sh_pending s1)\<rparr>;
                        s3 = (if i \<noteq> 0 then drop_record (en_record e) s2 else s2)
                    in (True, tell (NotifyOp operation (en_origin e)) (rebase blake3_hex s3)))
                 else if op_actorId operation = sh_actorId s1 \<and>
                     list_ex (\<lambda>e. list_ex (\<lambda>a. at_opId a = op_opId operation) (en_attempts e)) (sh_pending s1) then (False, s1)
                 else (True, tell (NotifyOp operation ''remote'') (rebase blake3_hex s1)))))"

section \<open>Catching up\<close>

text \<open>The head of the sync loop, up to its next \<open>await\<close>.\<close>

definition sync_loop :: "shared \<Rightarrow> shared" where
  "sync_loop s =
     (if sh_status s \<noteq> ShCatchingUp then s\<lparr>sh_sync := SyncEnding\<rparr>
      else if sh_resync s then tell FetchSnapshot (s\<lparr>sh_resync := False, sh_sync := SyncFetching\<rparr>)
      else if of_nat (sh_confirmedRevision s) \<ge> sh_syncTarget s then s\<lparr>sh_sync := SyncEnding\<rparr>
      else tell (FetchOps (sh_confirmedRevision s)) (s\<lparr>sh_sync := SyncPaging\<rparr>))"

definition startSync :: "shared \<Rightarrow> shared" where
  "startSync s = (if syncing s \<or> is_down s then s else sync_loop (s\<lparr>sh_status := ShCatchingUp\<rparr>))"

definition requestCatchUp :: "rat \<Rightarrow> shared \<Rightarrow> shared" where
  "requestCatchUp target s = startSync (if target > sh_syncTarget s then s\<lparr>sh_syncTarget := target\<rparr> else s)"

definition requestResync :: "shared \<Rightarrow> shared" where
  "requestResync s = startSync ((tell (NotifyConflict ''resync'') s)\<lparr>sh_resync := True\<rparr>)"

type_synonym snapshot_reply = "(json \<times> json) option"   \<comment> \<open>revision and document, \<open>None\<close> when the promise rejects\<close>

definition is_ambiguous :: "nat \<Rightarrow> entry \<Rightarrow> bool" where
  "is_ambiguous revision e \<longleftrightarrow> list_ex (\<lambda>a. at_baseRevision a < revision) (en_attempts e)"

definition take_snapshot :: "(nat list \<Rightarrow> string) \<Rightarrow> nat \<Rightarrow> json \<Rightarrow> shared \<Rightarrow> shared" where
  "take_snapshot blake3_hex revision document s =
     (let s1 = s\<lparr>sh_syncTarget := max (sh_syncTarget s) (max (of_nat (sh_confirmedRevision s)) (of_nat revision))\<rparr>;
          ambiguous = filter (is_ambiguous revision) (sh_pending s1);
          s2 = fold (\<lambda>e t. tell (NotifyConflict (en_origin e)) (drop_record (en_record e) t)) ambiguous s1;
          s3 = s2\<lparr>sh_confirmed := document, sh_confirmedRevision := revision,
                  sh_lastSnapshot := max (sh_lastSnapshot s2) revision,
                  sh_pending := filter (\<lambda>e. \<not> is_ambiguous revision e) (sh_pending s2), sh_undo := [], sh_redo := []\<rparr>
      in rebase blake3_hex s3)"

definition sync_snapshot :: "(nat list \<Rightarrow> string) \<Rightarrow> snapshot_reply \<Rightarrow> shared \<Rightarrow> shared" where
  "sync_snapshot blake3_hex reply s =
     (if sh_sync s \<noteq> SyncFetching then s
      else
        (case reply of
           None \<Rightarrow> s\<lparr>sh_sync := SyncCaught\<rparr>
         | Some (revision, raw) \<Rightarrow>
             if \<not> isValidCollabRevision (Some revision) then s\<lparr>sh_sync := SyncCaught\<rparr>
             else
               (case loadedDocument blake3_hex (foreign_of_json raw) of
                  None \<Rightarrow> s\<lparr>sh_sync := SyncCaught\<rparr>
                | Some document \<Rightarrow> sync_loop (take_snapshot blake3_hex (revision_of (Some revision)) document s))))"

datatype page = PageOps "json list" | PageResync

datatype page_end = PageDone bool | PageGap | PageThrew

text \<open>One page of operations; \<open>PageDone\<close> tells whether any was ingested.\<close>

fun ingest_page :: "(nat list \<Rightarrow> string) \<Rightarrow> json list \<Rightarrow> bool \<Rightarrow> shared \<Rightarrow> page_end \<times> shared" where
  "ingest_page blake3_hex [] progressed s = (PageDone progressed, s)"
| "ingest_page blake3_hex (operation # operations) progressed s =
     (if validateCollabServerOp operation \<noteq> None then (PageThrew, s)
      else if op_revision operation \<le> sh_confirmedRevision s then ingest_page blake3_hex operations progressed s
      else if op_revision operation \<noteq> sh_confirmedRevision s + 1 then (PageGap, s\<lparr>sh_resync := True\<rparr>)
      else
        (case ingestOrdered blake3_hex operation s of
           (False, s1) \<Rightarrow> (PageThrew, s1)
         | (True, s1) \<Rightarrow> ingest_page blake3_hex operations True s1))"

definition sync_page :: "(nat list \<Rightarrow> string) \<Rightarrow> page option \<Rightarrow> shared \<Rightarrow> shared" where
  "sync_page blake3_hex reply s =
     (if sh_sync s \<noteq> SyncPaging then s
      else
        (case reply of
           None \<Rightarrow> s\<lparr>sh_sync := SyncCaught\<rparr>
         | Some PageResync \<Rightarrow> sync_loop (s\<lparr>sh_resync := True\<rparr>)
         | Some (PageOps ops) \<Rightarrow>
             (case ingest_page blake3_hex ops False s of
                (PageThrew, s1) \<Rightarrow> s1\<lparr>sh_sync := SyncCaught\<rparr>
              | (PageGap, s1) \<Rightarrow> sync_loop s1
              | (PageDone progressed, s1) \<Rightarrow>
                  if \<not> progressed \<and> \<not> sh_resync s1 \<and> of_nat (sh_confirmedRevision s1) < sh_syncTarget s1
                  then s1\<lparr>sh_sync := SyncWaiting\<rparr> else sync_loop s1)))"

definition sync_retry :: "shared \<Rightarrow> shared" where
  "sync_retry s = (if sh_sync s = SyncWaiting then sync_loop s else s)"

definition sync_caught :: "shared \<Rightarrow> shared" where
  "sync_caught s = (if sh_sync s = SyncCaught then (fail_session s)\<lparr>sh_sync := SyncEnding\<rparr> else s)"

definition sync_end :: "shared \<Rightarrow> shared" where
  "sync_end s =
     (if sh_sync s \<noteq> SyncEnding then s
      else
        (let s1 = s\<lparr>sh_sync := SyncIdle\<rparr>;
             s2 = (if sh_status s1 = ShCatchingUp then s1\<lparr>sh_status := ShLive\<rparr> else s1)
         in if sh_status s2 = ShLive \<and> (sh_resync s2 \<or> of_nat (sh_confirmedRevision s2) < sh_syncTarget s2)
            then startSync s2 else pump s2))"

section \<open>Server operations and the pump\<close>

definition checkpoint :: "shared \<Rightarrow> shared" where
  "checkpoint s =
     (if sh_confirmedRevision s - sh_lastSnapshot s \<ge> 128 \<and> sh_pending s = []
      then tell (PutSnapshot (sh_confirmedRevision s) (sh_confirmed s))
             (s\<lparr>sh_checkpoints := sh_checkpoints s @ [sh_confirmedRevision s]\<rparr>)
      else s)"

definition handleServerOp :: "(nat list \<Rightarrow> string) \<Rightarrow> json \<Rightarrow> shared \<Rightarrow> shared" where
  "handleServerOp blake3_hex operation s =
     (if op_revision operation \<le> sh_confirmedRevision s then s
      else if op_revision operation > sh_confirmedRevision s + 1 then requestCatchUp (of_nat (op_revision operation)) s
      else
        (case ingestOrdered blake3_hex operation s of
           (False, s1) \<Rightarrow> requestResync s1
         | (True, s1) \<Rightarrow> checkpoint (pump s1)))"

definition pump_loop :: "shared \<Rightarrow> shared" where
  "pump_loop s =
     (case sh_pending s of
        e # es \<Rightarrow>
          if \<not> syncing s \<and> sh_status s = ShLive then
            (let a = \<lparr>at_opId = en_opId e, at_baseRevision = sh_confirmedRevision s, at_patch = en_predicted e\<rparr>;
                 fresh = (\<not> list_ex (\<lambda>b. at_opId b = at_opId a) (en_attempts e));
                 e' = (if fresh then e\<lparr>en_attempts := en_attempts e @ [a]\<rparr> else e)
             in tell (PostOp (at_opId a) (at_baseRevision a) (at_patch a))
                  (s\<lparr>sh_pending := e' # es, sh_pump := PumpPosting (en_ref e) a fresh\<rparr>))
          else s\<lparr>sh_pump := PumpEnding\<rparr>
      | [] \<Rightarrow> s\<lparr>sh_pump := PumpEnding\<rparr>)"

datatype post_reply = PostAccepted json | PostStaleBase rat | PostSnapshotRequired | PostUnsupported | PostRefused

datatype put_reply = PutOk | PutConflict | PutFailed

definition pump_start :: "shared \<Rightarrow> shared" where
  "pump_start s = (if sh_pump s = PumpStarting then pump_loop s else s)"

definition retract :: "nat \<Rightarrow> attempt \<Rightarrow> shared \<Rightarrow> shared" where
  "retract ref a s =
     s\<lparr>sh_pending := map (\<lambda>e. if en_ref e = ref then e\<lparr>en_attempts := filter (\<lambda>b. at_opId b \<noteq> at_opId a) (en_attempts e)\<rparr> else e)
         (sh_pending s)\<rparr>"

definition is_echo :: "json \<Rightarrow> attempt \<Rightarrow> shared \<Rightarrow> bool" where
  "is_echo operation a s \<longleftrightarrow> op_actorId operation = sh_actorId s \<and> is_attempt operation a"

definition pump_posted :: "(nat list \<Rightarrow> string) \<Rightarrow> post_reply \<Rightarrow> shared \<Rightarrow> shared" where
  "pump_posted blake3_hex reply s =
     (case sh_pump s of
        PumpPosting ref a fresh \<Rightarrow>
          if sh_status s \<noteq> ShLive then s\<lparr>sh_pump := PumpEnding\<rparr>
          else
            (case reply of
               PostAccepted operation \<Rightarrow>
                 if validateCollabServerOp operation \<noteq> None \<or> \<not> is_echo operation a s
                 then (requestResync s)\<lparr>sh_pump := PumpEnding\<rparr>
                 else pump_loop (handleServerOp blake3_hex operation s)
             | PostStaleBase revision \<Rightarrow>
                 (requestCatchUp revision (if fresh then retract ref a s else s))\<lparr>sh_pump := PumpEnding\<rparr>
             | PostSnapshotRequired \<Rightarrow>
                 tell (PutSnapshot (sh_confirmedRevision s) (sh_confirmed s)) (s\<lparr>sh_pump := PumpPutting\<rparr>)
             | PostUnsupported \<Rightarrow> (fail_session s)\<lparr>sh_pump := PumpEnding\<rparr>
             | PostRefused \<Rightarrow> s\<lparr>sh_pump := PumpWaiting\<rparr>)
      | _ \<Rightarrow> s)"

definition pump_put :: "put_reply \<Rightarrow> shared \<Rightarrow> shared" where
  "pump_put reply s =
     (if sh_pump s \<noteq> PumpPutting then s
      else
        (case reply of
           PutFailed \<Rightarrow> s\<lparr>sh_pump := PumpWaiting\<rparr>
         | PutOk \<Rightarrow> pump_loop (s\<lparr>sh_lastSnapshot := sh_confirmedRevision s\<rparr>)
         | PutConflict \<Rightarrow> tell FetchSnapshot (s\<lparr>sh_pump := PumpFetching\<rparr>)))"

definition note_snapshot :: "snapshot_reply \<Rightarrow> shared \<Rightarrow> shared" where
  "note_snapshot reply s =
     (case reply of
        Some (revision, raw) \<Rightarrow>
          if isValidCollabRevision (Some revision)
          then s\<lparr>sh_lastSnapshot := max (sh_lastSnapshot s) (revision_of (Some revision))\<rparr> else s
      | None \<Rightarrow> s)"

definition pump_fetched :: "snapshot_reply \<Rightarrow> shared \<Rightarrow> shared" where
  "pump_fetched reply s =
     (if sh_pump s \<noteq> PumpFetching then s else (note_snapshot reply s)\<lparr>sh_pump := PumpWaiting\<rparr>)"

definition pump_retry :: "shared \<Rightarrow> shared" where
  "pump_retry s = (if sh_pump s = PumpWaiting then pump_loop s else s)"

definition pump_end :: "shared \<Rightarrow> shared" where
  "pump_end s =
     (if sh_pump s \<noteq> PumpEnding then s
      else
        (let s1 = s\<lparr>sh_pump := PumpIdle\<rparr>
         in if sh_pending s1 \<noteq> [] \<and> \<not> syncing s1 \<and> sh_status s1 = ShLive then pump s1 else s1))"

definition checkpoint_put :: "nat \<Rightarrow> put_reply \<Rightarrow> shared \<Rightarrow> shared" where
  "checkpoint_put revision reply s =
     (if revision \<notin> set (sh_checkpoints s) then s
      else
        (let s1 = s\<lparr>sh_checkpoints := remove1 revision (sh_checkpoints s)\<rparr>
         in case reply of
              PutOk \<Rightarrow> s1\<lparr>sh_lastSnapshot := max (sh_lastSnapshot s1) revision\<rparr>
            | PutConflict \<Rightarrow> tell FetchSnapshot (s1\<lparr>sh_snapshotReads := Suc (sh_snapshotReads s1)\<rparr>)
            | PutFailed \<Rightarrow> s1))"

definition checkpoint_fetched :: "snapshot_reply \<Rightarrow> shared \<Rightarrow> shared" where
  "checkpoint_fetched reply s =
     (case sh_snapshotReads s of
        0 \<Rightarrow> s
      | Suc n \<Rightarrow> note_snapshot reply (s\<lparr>sh_snapshotReads := n\<rparr>))"

section \<open>Events of the connection, and one step\<close>

datatype conn_event =
    Connected json
  | Disconnected
  | SessionClosed
  | PresenceArrived json "json option"
  | OpArrived json
  | DenialArrived

definition handleEvent :: "(nat list \<Rightarrow> string) \<Rightarrow> conn_event \<Rightarrow> shared \<Rightarrow> shared" where
  "handleEvent blake3_hex event s =
     (if is_down s then s
      else
        (case event of
           Connected descriptor \<Rightarrow>
             if validateCollabDescriptor descriptor (sh_sessionId s) ''image'' \<noteq> None then fail_session s
             else
               (let s1 = s\<lparr>sh_connected := True,
                           sh_lastSnapshot := max (sh_lastSnapshot s) (revision_of (field descriptor ''snapshotRevision''))\<rparr>
                in if revision_of (field descriptor ''revision'') > sh_confirmedRevision s1
                   then requestCatchUp (of_nat (revision_of (field descriptor ''revision''))) s1 else s1)
         | Disconnected \<Rightarrow> s\<lparr>sh_connected := False\<rparr>
         | SessionClosed \<Rightarrow> close_session (s\<lparr>sh_connected := False\<rparr>)
         | PresenceArrived actor payload \<Rightarrow>
             if valid_actor (Some actor) then tell (NotifyPresence (text_of (Some actor)) payload) s else s
         | OpArrived operation \<Rightarrow>
             if validateCollabServerOp operation \<noteq> None then requestResync s else handleServerOp blake3_hex operation s
         | DenialArrived \<Rightarrow> s))"

datatype shared_event =
    ClientDispatch rat json | ClientUndo | ClientRedo | ClientClear | ClientClose | ClientPresence json
  | FromConnection conn_event
  | PumpStarts | PumpPosted post_reply | PumpPut put_reply | PumpFetched snapshot_reply | PumpRetries | PumpEnds
  | SyncSnapshot snapshot_reply | SyncPage "page option" | SyncRetries | SyncCatches | SyncEnds
  | CheckpointPut nat put_reply | CheckpointFetched snapshot_reply

definition shared_step :: "(nat list \<Rightarrow> string) \<Rightarrow> shared_event \<Rightarrow> shared \<Rightarrow> shared" where
  "shared_step blake3_hex ev s =
     (case ev of
        ClientDispatch clock invocation \<Rightarrow> snd (shared_dispatch blake3_hex clock invocation s)
      | ClientUndo \<Rightarrow> snd (replay_history blake3_hex True s)
      | ClientRedo \<Rightarrow> snd (replay_history blake3_hex False s)
      | ClientClear \<Rightarrow> shared_clear_history s
      | ClientClose \<Rightarrow> close_session s
      | ClientPresence payload \<Rightarrow> tell (SendPresence payload) s
      | FromConnection e \<Rightarrow> handleEvent blake3_hex e s
      | PumpStarts \<Rightarrow> pump_start s
      | PumpPosted reply \<Rightarrow> pump_posted blake3_hex reply s
      | PumpPut reply \<Rightarrow> pump_put reply s
      | PumpFetched reply \<Rightarrow> pump_fetched reply s
      | PumpRetries \<Rightarrow> pump_retry s
      | PumpEnds \<Rightarrow> pump_end s
      | SyncSnapshot reply \<Rightarrow> sync_snapshot blake3_hex reply s
      | SyncPage reply \<Rightarrow> sync_page blake3_hex reply s
      | SyncRetries \<Rightarrow> sync_retry s
      | SyncCatches \<Rightarrow> sync_caught s
      | SyncEnds \<Rightarrow> sync_end s
      | CheckpointPut revision reply \<Rightarrow> checkpoint_put revision reply s
      | CheckpointFetched reply \<Rightarrow> checkpoint_fetched reply s)"

definition shared_run :: "(nat list \<Rightarrow> string) \<Rightarrow> shared_event list \<Rightarrow> shared \<Rightarrow> shared" where
  "shared_run blake3_hex events s = fold (shared_step blake3_hex) events s"

section \<open>Opening a session\<close>

datatype shared_error = SharedBadActor | SharedBadRevision | SharedBadMaxUndo | SharedBadSnapshot | SharedWrongKind | SharedFetchFailed

definition new_shared ::
  "(nat list \<Rightarrow> string) \<Rightarrow> string \<Rightarrow> string \<Rightarrow> string \<Rightarrow> jsnum option \<Rightarrow> json \<Rightarrow> json \<Rightarrow> shared_error + shared" where
  "new_shared blake3_hex actorId sessionId nonce maxUndo snapshot revision =
     (let maximum = (case maxUndo of None \<Rightarrow> Fin 200 | Some n \<Rightarrow> n)
      in if \<not> isValidActorId actorId then Inl SharedBadActor
         else if \<not> isValidCollabRevision (Some revision) then Inl SharedBadRevision
         else if \<not> (case maximum of Fin n \<Rightarrow> is_safe_integer n \<and> n \<ge> 0 | NegZero \<Rightarrow> True | _ \<Rightarrow> False) then Inl SharedBadMaxUndo
         else
           (case loadedDocument blake3_hex (foreign_of_json snapshot) of
              None \<Rightarrow> Inl SharedBadSnapshot
            | Some d \<Rightarrow>
                Inr \<lparr>sh_actorId = actorId, sh_sessionId = sessionId, sh_opNonce = nonce,
                     sh_maxUndo = (case maximum of Fin n \<Rightarrow> nat \<lfloor>n\<rfloor> | _ \<Rightarrow> 0), sh_status = ShLive,
                     sh_confirmed = d, sh_confirmedRevision = revision_of (Some revision), sh_optimistic = d,
                     sh_pending = [], sh_undo = [], sh_redo = [],
                     sh_records = (\<lambda>_. \<lparr>hr_forward = [], hr_inverse = []\<rparr>), sh_next = 0, sh_retained = {}, sh_opCounter = 0,
                     sh_pump = PumpIdle, sh_sync = SyncIdle, sh_syncTarget = 0, sh_resync = False, sh_connected = False,
                     sh_lastSnapshot = revision_of (Some revision), sh_checkpoints = [], sh_snapshotReads = 0, sh_out = []\<rparr>))"

definition connect_shared ::
  "(nat list \<Rightarrow> string) \<Rightarrow> string \<Rightarrow> string \<Rightarrow> string \<Rightarrow> jsnum option \<Rightarrow> string option \<Rightarrow> snapshot_reply \<Rightarrow> shared_error + shared" where
  "connect_shared blake3_hex actorId sessionId nonce maxUndo documentKind reply =
     (if (case documentKind of None \<Rightarrow> ''workflow'' | Some k \<Rightarrow> k) \<noteq> ''image'' then Inl SharedWrongKind
      else
        (case reply of
           None \<Rightarrow> Inl SharedFetchFailed
         | Some (revision, raw) \<Rightarrow>
             if \<not> isValidCollabRevision (Some revision) then Inl SharedBadRevision
             else
               (case loadedDocument blake3_hex (foreign_of_json raw) of
                  None \<Rightarrow> Inl SharedBadSnapshot
                | Some d \<Rightarrow> new_shared blake3_hex actorId sessionId nonce maxUndo d revision)))"

end
