(* ===== verification/ImageStoreLaws.thy ===== *)
theory ImageStoreLaws
  imports ImageStore
begin

text \<open>
  Laws of the planner, the store and the session: what a plan promises, undo and redo, and that the operations a
  session publishes are the whole history of its document.
\<close>

section \<open>Plans\<close>

lemma invert_recorded:
  assumes "recorded_run e ops" and "applyOwnedOps e ops = Inr d" and "wf_json e" and "list_all wf_op ops"
  shows "\<exists>d1 d2. applyOwnedOps d (invertOps ops) = Inr d1 \<and> applyOwnedOps d1 ops = Inr d2 \<and>
    json_abs d1 = json_abs e \<and> json_abs d2 = json_abs d \<and> jsonSameValue d1 e \<and> jsonSameValue d2 d"
proof -
  from patch.run_invert_rerun [OF assms(2) [unfolded applyOwnedOps_def] assms(1,3,4) refl] obtain d1 d2
    where d: "applyOwnedOps d (invertOps ops) = Inr d1" "applyOwnedOps d1 ops = Inr d2"
      "json_abs d1 = json_abs e" "json_abs d2 = json_abs d"
    by (auto simp: applyOwnedOps_def invertOps_def)
  have wf: "wf_json d" using patch.run_valid [OF assms(2) [unfolded applyOwnedOps_def]] assms(3,4) by simp
  then have w1: "wf_json d1" using patch.run_valid [OF d(1) [unfolded applyOwnedOps_def]] assms(4) by simp
  then have "wf_json d2" using patch.run_valid [OF d(2) [unfolded applyOwnedOps_def]] assms(4) by simp
  then show ?thesis using d wf w1 assms(3) jsonSameValue_abs by blast
qed

section \<open>The store\<close>

definition replayable :: "patch_op list \<Rightarrow> bool" where
  "replayable ops \<longleftrightarrow> list_all wf_op ops \<and> list_all doc_op ops"

lemma replayable_invert [simp]: "replayable (invertOps ops) \<longleftrightarrow> replayable ops"
  by (auto simp: replayable_def invertOps_def list_all_iff doc_op_def)

definition im_ok :: "(nat list \<Rightarrow> string) \<Rightarrow> image_store \<Rightarrow> bool" where
  "im_ok blake st \<longleftrightarrow> loads blake (im_current st) \<and> length (im_undo st) + length (im_redo st) \<le> im_max_undo st \<and>
     (\<forall>h \<in> set (im_undo st @ im_redo st). replayable (ih_forward h) \<and> replayable (ih_inverse h))"

text \<open>A transaction leads from one document to the next.\<close>

definition leads :: "(nat list \<Rightarrow> string) \<Rightarrow> image_store \<Rightarrow> image_transaction option \<Rightarrow> image_store \<Rightarrow> bool" where
  "leads blake st t st' \<longleftrightarrow> im_ok blake st' \<and>
     (case t of
        None \<Rightarrow> im_current st' = im_current st \<and> im_revision st' = im_revision st
      | Some tr \<Rightarrow> applyOwnedOps (im_current st) (it_forward tr) = Inr (im_current st') \<and>
          im_revision st' = Suc (im_revision st) \<and> it_revision tr = im_revision st')"

lemma plan_replayable:
  assumes "loads blake d" and "heap_ok (fst v)" and "planImageDocumentCommand blake d v = Inr pl"
  shows "replayable (pl_redo pl) \<and> replayable (pl_inverse pl)"
  using plan_spec [OF assms] by (simp add: replayable_def [of "pl_redo pl"])

lemma dispatch_leads:
  assumes "im_ok blake st" and "heap_ok (fst v)"
  shows "case im_dispatch blake clock v st of (Inl ds, st') \<Rightarrow> st' = st | (Inr (t, c), st') \<Rightarrow> leads blake st (Some t) st'"
proof (cases "planImageDocumentCommand blake (im_current st) v")
  case (Inr pl)
  have l: "loads blake (im_current st)" using assms(1) by (simp add: im_ok_def)
  have "length (drop_oldest (im_max_undo st) (e # im_undo st)) \<le> im_max_undo st" for e
    using assms(1) by (auto simp: drop_oldest_def im_ok_def)
  moreover have "set (drop_oldest (im_max_undo st) (e # im_undo st)) \<subseteq> set (e # im_undo st)" for e
    by (auto simp: drop_oldest_def dest: in_set_butlastD split: if_splits)
  ultimately show ?thesis
    using plan_spec [OF l assms(2) Inr] plan_replayable [OF l assms(2) Inr] assms(1) Inr
    by (fastforce simp: im_dispatch_def im_commit_def Let_def leads_def im_ok_def)
qed (simp add: im_dispatch_def)

lemma replay_Inr:
  assumes "im_ok blake st" and "replayable ops" and "im_replay blake ops st = Inr d"
  shows "applyOwnedOps (im_current st) ops = Inr d \<and> loads blake d"
proof -
  from assms(3) obtain c ds where c: "applyOwnedOps (im_current st) ops = Inr c"
    "loadImageDocument blake default_load (foreign_of_json c) = (Some d, ds)"
    by (auto simp: im_replay_def split: sum.splits prod.splits option.splits)
  show ?thesis
    using doc_ops_loaded [of ops blake "im_current st" c d ds] assms(1,2) c by (auto simp: im_ok_def replayable_def)
qed

lemma undo_leads:
  assumes "im_ok blake st" and "im_undo_step blake clock st = Inr (t, st')"
  shows "leads blake st t st'"
proof (cases "im_undo st")
  case Nil
  then show ?thesis using assms by (simp add: im_undo_step_def leads_def)
next
  case (Cons h rest)
  then have "replayable (ih_inverse h)" using assms(1) by (simp add: im_ok_def)
  then show ?thesis
    using assms Cons replay_Inr [OF assms(1)] by (fastforce simp: im_undo_step_def result_simps im_commit_def leads_def im_ok_def Let_def)
qed

lemma redo_leads:
  assumes "im_ok blake st" and "im_redo_step blake clock st = Inr (t, st')"
  shows "leads blake st t st'"
proof (cases "im_redo st")
  case Nil
  then show ?thesis using assms by (simp add: im_redo_step_def leads_def)
next
  case (Cons h rest)
  then have "replayable (ih_forward h)" using assms(1) by (simp add: im_ok_def)
  then show ?thesis
    using assms Cons replay_Inr [OF assms(1)] by (fastforce simp: im_redo_step_def result_simps im_commit_def leads_def im_ok_def Let_def)
qed

fun action_ok :: "image_action \<Rightarrow> bool" where
  "action_ok (DispatchImage v) \<longleftrightarrow> heap_ok (fst v)"
| "action_ok _ \<longleftrightarrow> True"

lemma action_leads:
  assumes "im_ok blake st" and "action_ok a" and "store_action blake clock a st = (t, st')"
  shows "leads blake st t st'"
proof (cases a)
  case (DispatchImage v)
  then show ?thesis
    using dispatch_leads [OF assms(1), of v clock] assms by (auto simp: store_action_def leads_def split: prod.splits sum.splits)
next
  case UndoImage
  then show ?thesis using assms undo_leads [OF assms(1)] by (auto simp: store_action_def leads_def split: sum.splits)
next
  case RedoImage
  then show ?thesis using assms redo_leads [OF assms(1)] by (auto simp: store_action_def leads_def split: sum.splits)
next
  case ClearImage
  then show ?thesis using assms by (auto simp: store_action_def leads_def im_clear_history_def im_ok_def)
qed

section \<open>Sessions\<close>

text \<open>The patch a wire patch stands for; the old value is not on the wire.\<close>

fun unwire :: "wire_patch \<Rightarrow> patch_op" where
  "unwire (WireSet True p v) = OpAdd p v"
| "unwire (WireSet False p v) = OpReplace p v JNull"
| "unwire (WireRemove p) = OpRemove p JNull"

lemma apply_unwire: "result_option (applyOp d (unwire (wire_op op))) = result_option (applyOp d op)"
proof -
  have "result_option (applyAt d p (OpReplace q v old)) = result_option (applyAt d p (OpReplace q v JNull)) \<and>
      result_option (applyAt d p (OpRemove q old)) = result_option (applyAt d p (OpRemove q JNull))" for q v old p
  proof (induction p arbitrary: d)
    case (Cons s p)
    show ?case
      by (cases s; cases d)
        (auto simp: Cons.IH [THEN conjunct1] Cons.IH [THEN conjunct2] split: option.splits)
  qed simp
  then show ?thesis by (cases op) (simp_all add: applyOp_def, metis+)
qed

lemma apply_unwire_all: "applyOwnedOps d ops = Inr d' \<Longrightarrow> applyOwnedOps d (map unwire (wirePatch ops)) = Inr d'"
proof (induction ops arbitrary: d)
  case (Cons op ops)
  then obtain d1 where d1: "applyOp d op = Inr d1" "applyOwnedOps d1 ops = Inr d'" by (auto simp: result_simps)
  then have "applyOp d (unwire (wire_op op)) = Inr d1"
    using apply_unwire [of d op] by (metis result_option_Some_iff)
  then show ?case using Cons.IH [OF d1(2)] by (simp add: wirePatch_def)
qed (simp add: wirePatch_def)

definition numbered :: "image_session \<Rightarrow> session_op list \<Rightarrow> bool" where
  "numbered se ops \<longleftrightarrow> (\<forall>i < length ops.
     so_opId (ops ! i) = se_actorId se @ ''#'' @ show_nat (se_opCounter se + i + 1) \<and>
     so_revision (ops ! i) = im_revision (se_store se) + i + 1 \<and> so_baseRevision (ops ! i) = im_revision (se_store se) + i)"

lemma session_action_feed:
  assumes "im_ok blake (se_store se)" and "action_ok a" and "session_action blake clock a se = (ops, se')"
  shows "im_ok blake (se_store se') \<and>
    applyOwnedOps (im_current (se_store se)) (concat (map (\<lambda>op. map unwire (so_patch op)) ops)) = Inr (im_current (se_store se')) \<and>
    numbered se ops \<and> im_revision (se_store se') = im_revision (se_store se) + length ops \<and>
    se_opCounter se' = se_opCounter se + length ops \<and> se_actorId se' = se_actorId se"
proof -
  obtain t st' where a: "store_action blake clock a (se_store se) = (t, st')" by (rule prod.exhaust)
  note l = action_leads [OF assms(1,2) a]
  show ?thesis
  proof (cases t)
    case None
    then show ?thesis using l a assms(3) by (auto simp: session_action_def publish_all_def leads_def numbered_def)
  next
    case (Some tr)
    then show ?thesis
      using l a assms(3) apply_unwire_all by (auto simp: session_action_def publish_all_def publish_def Let_def leads_def numbered_def)
  qed
qed

lemma numbered_append:
  assumes "numbered se xs" and "numbered se' ys" and "se_actorId se' = se_actorId se"
    and "se_opCounter se' = se_opCounter se + length xs" and "im_revision (se_store se') = im_revision (se_store se) + length xs"
  shows "numbered se (xs @ ys)"
proof -
  have "so_opId ((xs @ ys) ! i) = se_actorId se @ ''#'' @ show_nat (se_opCounter se + i + 1) \<and>
     so_revision ((xs @ ys) ! i) = im_revision (se_store se) + i + 1 \<and>
     so_baseRevision ((xs @ ys) ! i) = im_revision (se_store se) + i" if "i < length (xs @ ys)" for i
  proof (cases "i < length xs")
    case True
    then show ?thesis using assms(1) by (simp add: numbered_def nth_append)
  next
    case False
    then obtain j where j: "i = length xs + j" using le_Suc_ex not_less by blast
    then have "j < length ys" using that by simp
    then show ?thesis using assms(2-) j by (simp add: numbered_def nth_append add.assoc)
  qed
  then show ?thesis by (simp only: numbered_def) blast
qed

lemma session_run_feed:
  assumes "im_ok blake (se_store se)" and "list_all (\<lambda>ca. action_ok (snd ca)) actions"
    and "session_run blake actions se = (ops, se')"
  shows "im_ok blake (se_store se') \<and>
    applyOwnedOps (im_current (se_store se)) (concat (map (\<lambda>op. map unwire (so_patch op)) ops)) = Inr (im_current (se_store se')) \<and>
    numbered se ops \<and> im_revision (se_store se') = im_revision (se_store se) + length ops \<and>
    se_opCounter se' = se_opCounter se + length ops \<and> se_actorId se' = se_actorId se"
  using assms
proof (induction actions arbitrary: se ops)
  case Nil
  then show ?case by (simp add: numbered_def)
next
  case (Cons ca actions)
  obtain clock a where ca: "ca = (clock, a)" by (cases ca)
  obtain ops1 se1 where s: "session_action blake clock a se = (ops1, se1)" by (rule prod.exhaust)
  obtain ops2 where r: "session_run blake actions se1 = (ops2, se')" "ops = ops1 @ ops2"
    using Cons.prems(3) s ca by (auto split: prod.splits)
  have "action_ok a" using Cons.prems(2) ca by simp
  note f = session_action_feed [OF Cons.prems(1) this s]
  have "list_all (\<lambda>ca. action_ok (snd ca)) actions" using Cons.prems(2) by simp
  note g = Cons.IH [OF _ this r(1)]
  show ?case using f g r(2) numbered_append [of se ops1 se1 ops2] by (simp add: applyOwnedOps_append)
qed

section \<open>A rename, undone\<close>

text \<open>Renaming the raster layer of the sample document.\<close>

definition rename_params :: "char \<Rightarrow> (string \<times> json) list" where
  "rename_params c = [(''layerId'', JStr ''l1''), (''name'', JStr [c])]"

definition rename_invocation :: "char \<Rightarrow> json" where
  "rename_invocation c = JObj [(''command'', JStr ''image.layer.update''), (''params'', JObj (rename_params c))]"

definition rename_ops :: "char \<Rightarrow> char \<Rightarrow> patch_op list" where
  "rename_ops a b = [OpReplace [Key ''layers'', Key ''l1''] (demo_layer b) (demo_layer a)]"

lemma rename_heap: "heap_ok (fst (foreign_of_json (rename_invocation c)))"
  by (rule foreign_of_json_denotes) (simp add: rename_invocation_def rename_params_def proto_key_def wf_json.simps(2))

lemma rename_decoded:
  "decodeInvocation (foreign_of_json (rename_invocation c)) =
     Some \<lparr>ii_command = ''image.layer.update'', ii_params = rename_params c, ii_actor = None\<rparr>"
proof -
  have wf: "wf_json (rename_invocation c)"
    by (simp add: rename_invocation_def rename_params_def proto_key_def wf_json.simps(2))
  have "in_budget (default_limits True) (rename_invocation c)"
    by (simp add: rename_invocation_def rename_params_def in_budget_def default_limits_def)
  then have own: "ownJson (default_limits True) (fst (foreign_of_json (rename_invocation c))) (snd (foreign_of_json (rename_invocation c))) =
      Inr (rename_invocation c)"
    using reown_iff [OF wf] by (simp add: reown_def)
  have "decode_params ''image.layer.update'' (rename_params c) = Some (rename_params c)"
    by (simp add: decode_params_def rename_params_def exactKeys_def has_string_def)
  then show ?thesis
    unfolding decodeInvocation_def own by (simp add: rename_invocation_def exactKeys_def)
qed

lemma rename_patches:
  "commandPatches (demo_image a) \<lparr>ii_command = ''image.layer.update'', ii_params = rename_params b, ii_actor = None\<rparr> =
     Some (rename_ops a b, None)"
proof -
  have "getLayer (demo_image a) ''l1'' = Some (demo_layer a)" by (simp add: getLayer_def demo_maps)
  moreover have "spread (demo_layer a) [(''name'', JStr [b])] = demo_layer b" by (simp add: spread_def demo_layer_def)
  ultimately show ?thesis
    by (simp add: commandPatches_def layer_update_def rename_params_def without_key_def demo_fields rename_ops_def)
qed

lemma rename_applied: "applyOwnedOps (demo_image a) (rename_ops a b) = Inr (demo_image b)"
  by (simp add: rename_ops_def applyOp_def demo_image_def proto_key_def)

lemma rename_owned: "own_patches (rename_ops a b)"
proof -
  have "wf_json (demo_layer b)" by (simp add: demo_defs proto_key_def wf_json.simps(2))
  moreover have "in_budget (default_limits True) (demo_layer b)" by (simp add: demo_defs in_budget_def default_limits_def)
  ultimately have "reown (default_limits True) (demo_layer b) = Inr (demo_layer b)" using reown_iff by blast
  then show ?thesis by (simp add: own_patches_def rename_ops_def)
qed

lemma rename_inverse [simp]: "invertOps (rename_ops a b) = rename_ops b a"
  by (simp add: rename_ops_def)

lemma rename_plan:
  assumes "b \<noteq> CHR 0x00"
  shows "planImageDocumentCommand blake (demo_image a) (foreign_of_json (rename_invocation b)) =
    Inr \<lparr>pl_invocation = \<lparr>ii_command = ''image.layer.update'', ii_params = rename_params b, ii_actor = None\<rparr>,
      pl_document = demo_image b, pl_forward = rename_ops a b, pl_redo = rename_ops a b, pl_inverse = rename_ops b a,
      pl_created = None\<rparr>"
proof -
  have "loadImageDocument blake default_load (foreign_of_json (demo_image b)) = (Some (demo_image b), [])"
    by (rule load_again [OF demo_loads [OF assms]])
  moreover have "filter (\<lambda>op. \<not> is_allocation_op op) (rename_ops a b) = rename_ops a b"
    by (simp add: rename_ops_def)
  ultimately show ?thesis
    by (simp add: planImageDocumentCommand_def rename_decoded rename_patches rename_owned rename_applied Let_def)
qed

definition demo_store :: image_store where
  "demo_store = \<lparr>im_current = demo_image CHR ''a'', im_revision = 0, im_undo = [], im_redo = [], im_max_undo = 200\<rparr>"

definition demo_session :: image_session where
  "demo_session = \<lparr>se_store = demo_store, se_actorId = ''local'', se_opCounter = 0\<rparr>"

lemma demo_session_new: "new_image_session blake None None (foreign_of_json (demo_image CHR ''a'')) = Inr demo_session"
proof -
  have "loadImageDocument blake default_load (foreign_of_json (demo_image CHR ''a'')) = (Some (demo_image CHR ''a''), [])"
    by (rule load_again [OF demo_loads]) simp
  moreover have "isValidActorId ''local''"
    by (simp add: isValidActorId_def actor_char_def is_lower_def)
  ultimately show ?thesis
    by (simp add: new_image_session_def new_image_store_def is_safe_integer_def max_safe_integer_def demo_session_def demo_store_def)
qed

lemma new_session_ok:
  assumes "heap_ok (fst v)" and "new_image_session blake actor maxUndo v = Inr se"
  shows "im_ok blake (se_store se) \<and> im_revision (se_store se) = 0 \<and> se_opCounter se = 0"
proof -
  from assms(2) obtain st mu where st: "new_image_store blake mu v = Inr st" "st = se_store se" "se_opCounter se = 0"
    by (auto simp: new_image_session_def Let_def split: if_splits sum.splits)
  have "\<exists>d ds. loadImageDocument blake default_load v = (Some d, ds) \<and> im_current st = d \<and> im_undo st = [] \<and>
      im_redo st = [] \<and> im_revision st = 0"
    using st(1) by (auto simp: new_image_store_def split: jsnum.splits if_splits option.splits prod.splits)
  then show ?thesis using st(2,3) load_Some [of "fst v" blake "snd v"] assms(1) by (auto simp: im_ok_def)
qed

section \<open>Properties\<close>

text \<open>C3: a plan made on a document that loads keeps its promises. Its forward patches apply to the
  document and give exactly the plan's document, which loads; its inverse applies to the plan's document and gives the
  starting document back, except that the allocation cursors stay where the plan moved them; and its redo patches lead
  from there to the plan's document again.\<close>

theorem image_plan_reversible:
  assumes "loads blake d" and "heap_ok (fst v)" and "planImageDocumentCommand blake d v = Inr pl"
  shows "applyOwnedOps d (pl_forward pl) = Inr (pl_document pl) \<and> loads blake (pl_document pl) \<and>
    (\<exists>d1 d2. applyOwnedOps (pl_document pl) (pl_inverse pl) = Inr d1 \<and>
       jsonSameValue d1 (with_allocation d (pl_document pl)) \<and>
       applyOwnedOps d1 (pl_redo pl) = Inr d2 \<and> jsonSameValue d2 (pl_document pl))"
  using plan_spec [OF assms] invert_recorded [of "with_allocation d (pl_document pl)" "pl_redo pl" "pl_document pl"]
  by auto

theorem image_plan_reversible_witness:
  "applyOwnedOps (demo_image CHR ''a'') (rename_ops CHR ''a'' CHR ''b'') = Inr (demo_image CHR ''b'')"
  using image_plan_reversible [OF demo_loads rename_heap rename_plan, of "CHR ''a''" "CHR ''b''"] by simp

text \<open>C9: the operations a session publishes are its whole history. Whatever its client calls, in any order,
  including undos and redos that fail, the current document loads, the two history stacks together stay within the
  limit, the published operations carry the revisions 1, 2, 3, \<dots> and consecutive operation ids, and their patches, in
  order and without the old values, lead from the initial document to exactly the current one.\<close>

theorem image_session_feed:
  assumes "heap_ok (fst v)" and "new_image_session blake actor maxUndo v = Inr se"
    and "list_all (\<lambda>ca. action_ok (snd ca)) actions" and "session_run blake actions se = (ops, se')"
  shows "loads blake (im_current (se_store se')) \<and>
    length (im_undo (se_store se')) + length (im_redo (se_store se')) \<le> im_max_undo (se_store se') \<and>
    applyOwnedOps (im_current (se_store se)) (concat (map (\<lambda>op. map unwire (so_patch op)) ops)) =
      Inr (im_current (se_store se')) \<and>
    im_revision (se_store se') = length ops \<and>
    (\<forall>i < length ops. so_revision (ops ! i) = i + 1 \<and> so_baseRevision (ops ! i) = i \<and>
       so_opId (ops ! i) = se_actorId se @ ''#'' @ show_nat (i + 1))"
proof -
  have z: "im_ok blake (se_store se)" "im_revision (se_store se) = 0" "se_opCounter se = 0"
    using new_session_ok [OF assms(1,2)] by simp_all
  note f = session_run_feed [OF z(1) assms(3,4), unfolded numbered_def z(2,3) add_0]
  have "loads blake (im_current (se_store se')) \<and>
      length (im_undo (se_store se')) + length (im_redo (se_store se')) \<le> im_max_undo (se_store se')"
    using f unfolding im_ok_def by blast
  then show ?thesis using f by blast
qed

definition demo_actions :: "(rat \<times> image_action) list" where
  "demo_actions = [(10, DispatchImage (foreign_of_json (rename_invocation CHR ''b''))), (11, UndoImage), (12, RedoImage), (13, RedoImage)]"

lemma image_demo_replay:
  assumes "c \<noteq> CHR 0x00" and "im_current st = demo_image a"
  shows "im_replay blake (rename_ops a c) st = Inr (demo_image c)"
  using assms load_again [OF demo_loads [OF assms(1)]] by (simp add: im_replay_def rename_applied)

definition rename_entry :: "char \<Rightarrow> char \<Rightarrow> image_history" where
  "rename_entry a b =
     \<lparr>ih_invocation = \<lparr>ii_command = ''image.layer.update'', ii_params = rename_params b, ii_actor = None\<rparr>,
      ih_forward = rename_ops a b, ih_inverse = rename_ops b a, ih_resources = changedResources (demo_image a) (demo_image b)\<rparr>"

lemma rename_dispatch:
  assumes "b \<noteq> CHR 0x00" and "im_current st = demo_image a" and "im_undo st = []" and "0 < im_max_undo st"
  shows "\<exists>t st'. store_action blake clock (DispatchImage (foreign_of_json (rename_invocation b))) st = (Some t, st') \<and>
    im_current st' = demo_image b \<and> im_undo st' = [rename_entry a b] \<and> im_redo st' = []"
  using assms
  by (simp add: store_action_def im_dispatch_def rename_plan im_commit_def Let_def drop_oldest_def rename_entry_def)

lemma rename_undo:
  assumes "a \<noteq> CHR 0x00" and "im_current st = demo_image b" and "im_undo st = [rename_entry a b]" and "im_redo st = []"
  shows "\<exists>t st'. store_action blake clock UndoImage st = (Some t, st') \<and>
    im_current st' = demo_image a \<and> im_undo st' = [] \<and> im_redo st' = [rename_entry a b]"
  using assms by (simp add: store_action_def im_undo_step_def im_commit_def Let_def rename_entry_def image_demo_replay)

lemma rename_redo:
  assumes "b \<noteq> CHR 0x00" and "im_current st = demo_image a" and "im_redo st = [rename_entry a b]"
  shows "\<exists>t st'. store_action blake clock RedoImage st = (Some t, st') \<and>
    im_current st' = demo_image b \<and> im_redo st' = []"
  using assms by (simp add: store_action_def im_redo_step_def im_commit_def Let_def rename_entry_def image_demo_replay)

lemma session_action_Some:
  "store_action blake clock a (se_store se) = (Some t, st') \<Longrightarrow>
     \<exists>op se'. session_action blake clock a se = ([op], se') \<and> se_store se' = st'"
  by (simp add: session_action_def publish_all_def publish_def Let_def)

lemma image_demo_run:
  "\<exists>ops se'. session_run blake demo_actions demo_session = (ops, se') \<and> length ops = 3 \<and>
     im_current (se_store se') = demo_image CHR ''b''"
proof -
  obtain op1 se1 where s1: "session_action blake 10 (DispatchImage (foreign_of_json (rename_invocation CHR ''b''))) demo_session = ([op1], se1)"
    "im_current (se_store se1) = demo_image CHR ''b''" "im_undo (se_store se1) = [rename_entry CHR ''a'' CHR ''b'']"
    "im_redo (se_store se1) = []"
    using rename_dispatch [of "CHR ''b''" "se_store demo_session" "CHR ''a''" blake 10] session_action_Some
    by (fastforce simp: demo_session_def demo_store_def)
  obtain op2 se2 where s2: "session_action blake 11 UndoImage se1 = ([op2], se2)"
    "im_current (se_store se2) = demo_image CHR ''a''" "im_redo (se_store se2) = [rename_entry CHR ''a'' CHR ''b'']"
    using rename_undo [OF _ s1(2-), of blake 11] session_action_Some by fastforce
  obtain op3 se3 where s3: "session_action blake 12 RedoImage se2 = ([op3], se3)"
    "im_current (se_store se3) = demo_image CHR ''b''" "im_redo (se_store se3) = []"
    using rename_redo [OF _ s2(2-), of blake 12] session_action_Some by fastforce
  have "session_action blake 13 RedoImage se3 = ([], se3)"
    using s3(3) by (simp add: session_action_def store_action_def im_redo_step_def publish_all_def)
  then show ?thesis using s1(1) s2(1) s3(1,2) by (simp add: demo_actions_def)
qed

theorem image_session_feed_witness:
  "\<exists>ops :: session_op list. length ops = 3 \<and> im_revision (se_store (snd (session_run (\<lambda>_. []) demo_actions demo_session))) = 3 \<and>
     applyOwnedOps (demo_image CHR ''a'') (concat (map (\<lambda>op. map unwire (so_patch op)) ops)) = Inr (demo_image CHR ''b'')"
proof -
  obtain ops se' where r: "session_run (\<lambda>_. []) demo_actions demo_session = (ops, se')" "length ops = 3"
    "im_current (se_store se') = demo_image CHR ''b''" using image_demo_run by blast
  have "list_all (\<lambda>ca. action_ok (snd ca)) demo_actions" by (simp add: demo_actions_def rename_heap)
  from image_session_feed [OF demo_heap demo_session_new this r(1)] r(2,3)
  have "im_revision (se_store se') = 3 \<and>
      applyOwnedOps (demo_image CHR ''a'') (concat (map (\<lambda>op. map unwire (so_patch op)) ops)) = Inr (demo_image CHR ''b'')"
    by (simp add: demo_session_def demo_store_def)
  then show ?thesis unfolding r(1) snd_conv using r(2) by blast
qed

text \<open>A replay either applies its operations or finds that the document they lead to does not load.\<close>

lemma replay_outcome:
  assumes "im_ok blake st" and "replayable ops" and "applyOwnedOps (im_current st) ops = Inr d"
  shows "im_replay blake ops st =
    (if fst (loadImageDocument blake default_load (foreign_of_json d)) = None then Inl ReplayViolation else Inr d)"
  using replay_Inr [OF assms(1,2)] assms(3)
  by (cases "im_replay blake ops st") (auto simp: im_replay_def split: prod.splits option.splits)

lemma undo_outcome:
  assumes "im_ok blake st" and "im_undo st = h # rest" and "applyOwnedOps (im_current st) (ih_inverse h) = Inr d"
  shows "if fst (loadImageDocument blake default_load (foreign_of_json d)) = None
    then im_undo_step blake clock st = Inl ReplayViolation
    else \<exists>t st'. im_undo_step blake clock st = Inr (Some t, st') \<and> im_current st' = d \<and> im_redo st' = h # im_redo st"
proof -
  have "replayable (ih_inverse h)" using assms(1,2) by (simp add: im_ok_def)
  from replay_outcome [OF assms(1) this assms(3)] show ?thesis
    using assms(2) by (simp add: im_undo_step_def im_commit_def Let_def)
qed

lemma redo_outcome:
  assumes "im_ok blake st" and "im_redo st = h # rest" and "applyOwnedOps (im_current st) (ih_forward h) = Inr d"
  shows "if fst (loadImageDocument blake default_load (foreign_of_json d)) = None
    then im_redo_step blake clock st = Inl ReplayViolation
    else \<exists>t st'. im_redo_step blake clock st = Inr (Some t, st') \<and> im_current st' = d"
proof -
  have "replayable (ih_forward h)" using assms(1,2) by (simp add: im_ok_def)
  from replay_outcome [OF assms(1) this assms(3)] show ?thesis
    using assms(2) by (simp add: im_redo_step_def im_commit_def Let_def)
qed

lemma undo_redo_outcome:
  assumes ok: "im_ok blake st" and undo: "im_undo st = h # rest"
    and d1: "applyOwnedOps (im_current st) (ih_inverse h) = Inr d1" and d2: "applyOwnedOps d1 (ih_forward h) = Inr d2"
  shows "if fst (loadImageDocument blake default_load (foreign_of_json d1)) = None
    then im_undo_step blake clock1 st = Inl ReplayViolation
    else \<exists>t1 st2. im_undo_step blake clock1 st = Inr (Some t1, st2) \<and> im_current st2 = d1 \<and>
      (if fst (loadImageDocument blake default_load (foreign_of_json d2)) = None
       then im_redo_step blake clock2 st2 = Inl ReplayViolation
       else \<exists>t2 st3. im_redo_step blake clock2 st2 = Inr (Some t2, st3) \<and> im_current st3 = d2)"
proof (cases "fst (loadImageDocument blake default_load (foreign_of_json d1)) = None")
  case True
  show ?thesis using undo_outcome [OF ok undo d1, of clock1] unfolding if_P [OF True] .
next
  case False
  from undo_outcome [OF ok undo d1, of clock1, unfolded if_not_P [OF False]] obtain t1 st2 where
    s: "im_undo_step blake clock1 st = Inr (Some t1, st2)" "im_current st2 = d1" "im_redo st2 = h # im_redo st" by blast
  have "im_ok blake st2" using undo_leads [OF ok s(1)] by (auto simp: leads_def)
  from redo_outcome [OF this s(3), of d2 clock2] show ?thesis
    unfolding if_not_P [OF False] using s(1,2) d2 by (intro exI conjI) simp_all
qed

text \<open>C10: undo takes back what a dispatch did, and redo does it again. After a dispatch by a store that keeps
  history, the recorded inverse leads back to the document before the dispatch, the same value, with the allocation
  cursors of the one after, and the recorded redo leads on to the dispatched document. Undo arrives at the first
  exactly if it loads and throws otherwise; redo then arrives at the second exactly if it loads.\<close>

theorem image_undo_redo:
  assumes "im_ok blake st" and "0 < im_max_undo st" and "heap_ok (fst v)" and "im_dispatch blake clock v st = (Inr (t, c), st1)"
  shows "\<exists>before after.
    jsonSameValue before (with_allocation (im_current st) (im_current st1)) \<and> jsonSameValue after (im_current st1) \<and>
    (if fst (loadImageDocument blake default_load (foreign_of_json before)) = None
     then im_undo_step blake clock1 st1 = Inl ReplayViolation
     else \<exists>t1 st2. im_undo_step blake clock1 st1 = Inr (Some t1, st2) \<and> im_current st2 = before \<and>
       (if fst (loadImageDocument blake default_load (foreign_of_json after)) = None
        then im_redo_step blake clock2 st2 = Inl ReplayViolation
        else \<exists>t2 st3. im_redo_step blake clock2 st2 = Inr (Some t2, st3) \<and> im_current st3 = after))"
proof -
  have l: "loads blake (im_current st)" using assms(1) by (simp add: im_ok_def)
  from assms(4) obtain pl where pl: "planImageDocumentCommand blake (im_current st) v = Inr pl"
    by (auto simp: im_dispatch_def split: sum.splits)
  define h where "h = \<lparr>ih_invocation = pl_invocation pl, ih_forward = pl_redo pl, ih_inverse = pl_inverse pl,
    ih_resources = changedResources (im_current st) (pl_document pl)\<rparr>"
  have "\<exists>rest. drop_oldest (im_max_undo st) (h # im_undo st) = h # rest"
    using assms(2) by (cases "im_undo st") (auto simp: drop_oldest_def)
  then obtain rest where st1: "im_current st1 = pl_document pl" "im_undo st1 = h # rest"
    using assms(4) pl by (auto simp: im_dispatch_def im_commit_def Let_def h_def)
  from plan_spec [OF l assms(3) pl] invert_recorded obtain d1 d2 where
    d1: "applyOwnedOps (pl_document pl) (pl_inverse pl) = Inr d1" and
    d2: "applyOwnedOps d1 (pl_redo pl) = Inr d2" and
    same: "jsonSameValue d1 (with_allocation (im_current st) (pl_document pl))" "jsonSameValue d2 (pl_document pl)"
    by (metis (no_types, lifting))
  have ok1: "im_ok blake st1" using dispatch_leads [OF assms(1,3), of clock] assms(4) by (simp add: leads_def)
  have "applyOwnedOps (im_current st1) (ih_inverse h) = Inr d1" using d1 st1(1) by (simp add: h_def)
  from undo_redo_outcome [OF ok1 st1(2) this, of d2 clock1 clock2] d2 same st1(1) show ?thesis
    by (intro exI [of _ d1] exI [of _ d2] conjI) (simp_all add: h_def)
qed

theorem image_undo_redo_witness:
  "\<exists>st1 before. snd (im_dispatch (\<lambda>_. []) 0 (foreign_of_json (rename_invocation CHR ''b'')) demo_store) = st1 \<and>
     jsonSameValue before (with_allocation (demo_image CHR ''a'') (demo_image CHR ''b'')) \<and>
     (\<exists>t1 st2. im_undo_step (\<lambda>_. []) 1 st1 = Inr (Some t1, st2) \<and> im_current st2 = before)"
proof -
  have ok: "im_ok (\<lambda>_. []) demo_store" using demo_loads by (simp add: im_ok_def demo_store_def)
  obtain t st1 where d: "im_dispatch (\<lambda>_. []) 0 (foreign_of_json (rename_invocation CHR ''b'')) demo_store = (Inr (t, None), st1)"
    and c: "im_current st1 = demo_image CHR ''b''"
    and u: "\<exists>t1 st2. im_undo_step (\<lambda>_. []) 1 st1 = Inr (t1, st2)"
    by (simp add: im_dispatch_def rename_plan demo_store_def im_commit_def Let_def drop_oldest_def im_undo_step_def image_demo_replay)
  have "0 < im_max_undo demo_store" by (simp add: demo_store_def)
  from image_undo_redo [OF ok this rename_heap d, of 1 1] obtain before where
    b: "jsonSameValue before (with_allocation (im_current demo_store) (im_current st1))" and
    s: "if fst (loadImageDocument (\<lambda>_. []) default_load (foreign_of_json before)) = None
      then im_undo_step (\<lambda>_. []) 1 st1 = Inl ReplayViolation
      else \<exists>t1 st2. im_undo_step (\<lambda>_. []) 1 st1 = Inr (Some t1, st2) \<and> im_current st2 = before"
    by (auto split: if_splits)
  from s u have "\<exists>t1 st2. im_undo_step (\<lambda>_. []) 1 st1 = Inr (Some t1, st2) \<and> im_current st2 = before"
    by (auto split: if_splits)
  with b c d show ?thesis by (auto simp: demo_store_def)
qed

end
