(* ===== verification/SharedIntents.thy ===== *)
theory SharedIntents
  imports SharedImage ImageStoreLaws
begin

text \<open>
  What a pending edit of a shared session stands for: the intention planned again is the same plan, the wire
  form of a patch is read back as the patch, and an edit kept as patches replays to a document that loads.
\<close>

section \<open>An invocation decoded again\<close>

lemma same_entries_mset:
  assumes "set a = set b" and "distinct (map fst a)" and "distinct (map fst b)"
  shows "mset a = mset b"
  using assms by (simp add: set_eq_iff_mset_eq_distinct distinct_map)

lemma same_entries_sum:
  assumes "set a = set b" and "distinct (map fst a)" and "distinct (map fst b)"
  shows "sum_list (map f a) = (sum_list (map f b) :: nat)"
  using same_entries_mset [OF assms] by (metis mset_map sum_mset_sum_list)

lemma same_entries_budget:
  assumes "set a = set b" and "distinct (map fst a)" and "distinct (map fst b)"
  shows "json_nodes (JObj a) = json_nodes (JObj b)" and "json_chars (JObj a) = json_chars (JObj b)"
    and "json_depth (JObj a) = json_depth (JObj b)"
  using same_entries_sum [OF assms] assms(1) by simp_all

lemma entries_by_keys:
  assumes "distinct (map fst kvs)" and "fst ` set kvs \<subseteq> fst ` set base"
    and "\<And>k v. (k, v) \<in> set base \<Longrightarrow> map_of kvs k = Some v"
  shows "set kvs = set base"
proof
  show "set base \<subseteq> set kvs" using assms(3) map_of_SomeD by fast
  show "set kvs \<subseteq> set base"
  proof
    fix kv assume kv: "kv \<in> set kvs"
    then have "fst kv \<in> fst ` set base" using assms(2) by blast
    then obtain w where w: "(fst kv, w) \<in> set base" by force
    have "map_of kvs (fst kv) = Some (snd kv)" using kv assms(1) by simp
    then show "kv \<in> set base" using w assms(3) [OF w] by (cases kv) simp
  qed
qed

lemma exactKeys_keys: "exactKeys (Some (JObj kvs)) req opt \<Longrightarrow> fst ` set kvs \<subseteq> set (req @ opt)"
  by (force simp: exactKeys_def list_all_iff)

lemma has_string_Some: "has_string kvs k \<Longrightarrow> \<exists>s. map_of kvs k = Some (JStr s)"
  by (auto simp: has_string_def split: option.splits elim: ts_string.elims)

lemma rebuilt_params:
  assumes "decode_params command params = Some p" and "p \<noteq> params"
  shows "(command = ''image.layer.group'' \<and> (\<exists>ids. map_of params ''layerIds'' = Some (JArr ids) \<and>
        exactKeys (Some (JObj params)) [''layerIds'', ''name''] [] \<and> has_string params ''name'' \<and> list_all ts_string ids \<and>
        p = [(''layerIds'', JArr ids), (''name'', JStr (text_of (map_of params ''name'')))])) \<or>
      (command = ''image.layer.remove'' \<and> exactKeys (Some (JObj params)) [''layerId''] [] \<and>
        has_string params ''layerId'' \<and> p = [(''layerId'', JStr (text_of (map_of params ''layerId'')))]) \<or>
      (command = ''image.mask.remove'' \<and> exactKeys (Some (JObj params)) [''maskId''] [] \<and>
        has_string params ''maskId'' \<and> p = [(''maskId'', JStr (text_of (map_of params ''maskId'')))])"
proof -
  consider "command = ''image.layer.group''" | "command = ''image.layer.remove''" | "command = ''image.mask.remove''"
    | "command \<noteq> ''image.layer.group''" "command \<noteq> ''image.layer.remove''" "command \<noteq> ''image.mask.remove''" by blast
  then show ?thesis
  proof cases
    case 4
    have keep: "(if b then Some params else z) = Some p \<Longrightarrow> z = Some p" for b z using assms(2) by (cases b) simp_all
    show ?thesis
      using assms(1) 4 assms(2) unfolding decode_params_def Let_def
      by (simp only: if_False simp_thms) (blast dest: some_if)
  qed (use assms in \<open>simp_all add: decode_params_def split: if_splits option.splits json.splits\<close>)
qed

lemma decode_params_again:
  assumes "distinct (map fst params)" and "decode_params command params = Some p"
  shows "set p = set params \<and> distinct (map fst p) \<and> decode_params command p = Some p"
proof (cases "p = params")
  case False
  have one: "set params = {(k, JStr s)}" if "exactKeys (Some (JObj params)) [k] []" "map_of params k = Some (JStr s)" for k s
    using exactKeys_keys [OF that(1)] that(2) entries_by_keys [OF assms(1), of "[(k, JStr s)]"] by auto
  from rebuilt_params [OF assms(2) False] show ?thesis
  proof (elim disjE exE conjE)
    fix ids
    assume c: "command = ''image.layer.group''" and i: "map_of params ''layerIds'' = Some (JArr ids)"
      and x: "exactKeys (Some (JObj params)) [''layerIds'', ''name''] []" and n: "has_string params ''name''"
      and t: "list_all ts_string ids" and p: "p = [(''layerIds'', JArr ids), (''name'', JStr (text_of (map_of params ''name'')))]"
    obtain s where s: "map_of params ''name'' = Some (JStr s)" using has_string_Some [OF n] by blast
    have "set params = set [(''layerIds'', JArr ids), (''name'', JStr s)]"
      using exactKeys_keys [OF x] i s by (intro entries_by_keys [OF assms(1)]) auto
    then show ?thesis using c p s t by (simp add: decode_params_def exactKeys_def has_string_def)
  next
    assume c: "command = ''image.layer.remove''" and x: "exactKeys (Some (JObj params)) [''layerId''] []"
      and n: "has_string params ''layerId''" and p: "p = [(''layerId'', JStr (text_of (map_of params ''layerId'')))]"
    obtain s where s: "map_of params ''layerId'' = Some (JStr s)" using has_string_Some [OF n] by blast
    show ?thesis using c p s one [OF x s] by (simp add: decode_params_def exactKeys_def has_string_def)
  next
    assume c: "command = ''image.mask.remove''" and x: "exactKeys (Some (JObj params)) [''maskId''] []"
      and n: "has_string params ''maskId''" and p: "p = [(''maskId'', JStr (text_of (map_of params ''maskId'')))]"
    obtain s where s: "map_of params ''maskId'' = Some (JStr s)" using has_string_Some [OF n] by blast
    show ?thesis using c p s one [OF x s] by (simp add: decode_params_def exactKeys_def has_string_def)
  qed
qed (use assms in simp)

lemma own_budget:
  assumes "heap_ok h" and "ownJson lm h v = Inr j"
  shows "wf_json j \<and> in_budget lm j"
proof -
  obtain c where "own_visit lm h (max_depth lm) [] [] (0, 0) v = Inr (j, c)" using assms(2) by (auto simp: ownJson_visit)
  from own_visit_sound [OF assms(1) this] show ?thesis unfolding visit_sound_def in_budget_def fst_conv snd_conv by linarith
qed

lemma decode_again:
  assumes h: "heap_ok (fst v)" and dec: "decodeInvocation v = Some ivn"
  shows "decodeInvocation (foreign_of_json (invocation_json ivn)) = Some ivn" and "wf_json (invocation_json ivn)"
proof -
  from dec obtain kvs where own: "ownJson (default_limits True) (fst v) (snd v) = Inr (JObj kvs)"
    by (auto simp: decodeInvocation_def split: sum.splits json.splits)
  have wf: "wf_json (JObj kvs)" and bd: "in_budget (default_limits True) (JObj kvs)" using own_budget [OF h own] by auto
  from dec own obtain command params p where keys: "exactKeys (Some (JObj kvs)) [''command'', ''params''] [''actor'']"
    and c: "map_of kvs ''command'' = Some (JStr command)" and ps: "map_of kvs ''params'' = Some (JObj params)"
    and p: "decode_params command params = Some p" "ii_command ivn = command" "ii_params ivn = p"
    and a: "case map_of kvs ''actor'' of None \<Rightarrow> ii_actor ivn = None
      | Some j \<Rightarrow> \<exists>x. j = JStr x \<and> isValidActorId x \<and> ii_actor ivn = Some x"
    by (auto simp: decodeInvocation_def split: option.splits json.splits if_splits)
  have dp: "distinct (map fst params)" using wf_json_entry [OF wf ps] by (simp add: wf_json.simps(2))
  note again = decode_params_again [OF dp p(1)]
  define base where "base = [(''command'', JStr command), (''params'', JObj params)] @
    (case ii_actor ivn of None \<Rightarrow> [] | Some x \<Rightarrow> [(''actor'', JStr x)])"
  have dk: "distinct (map fst kvs)" using wf by (simp add: wf_json.simps(2))
  have "set kvs = set base"
  proof (rule entries_by_keys [OF dk])
    have "fst ` set kvs \<subseteq> {''command'', ''params'', ''actor''}" using exactKeys_keys [OF keys] by simp
    moreover have "''actor'' \<notin> fst ` set kvs" if "ii_actor ivn = None"
      using a that by (simp add: map_of_eq_None_iff [symmetric] split: option.splits)
    ultimately show "fst ` set kvs \<subseteq> fst ` set base" by (cases "ii_actor ivn") (force simp: base_def)+
    show "map_of kvs k = Some v" if "(k, v) \<in> set base" for k v
      using that c ps a by (auto simp: base_def split: option.splits)
  qed
  moreover have db: "distinct (map fst base)" by (auto simp: base_def split: option.splits)
  ultimately have "in_budget (default_limits True) (JObj base)"
    using bd same_entries_budget [of kvs base] dk unfolding in_budget_def by simp
  moreover have "json_nodes (JObj p) = json_nodes (JObj params)" "json_chars (JObj p) = json_chars (JObj params)"
    "json_depth (JObj p) = json_depth (JObj params)"
    using same_entries_budget [of p params] again dp by simp_all
  ultimately have bi: "in_budget (default_limits True) (invocation_json ivn)"
    using p by (auto simp: in_budget_def base_def invocation_json_def split: option.splits
        simp del: json_depth.simps(2) json_nodes.simps(2) json_chars.simps(2)
        simp add: json_depth.simps(2) [of "_ # _"] json_nodes.simps(2) [of "_ # _"] json_chars.simps(2) [of "_ # _"])
  have "wf_json (JObj p)" using decode_params_wf [OF wf_json_entry [OF wf ps] p(1)] .
  then show wi: "wf_json (invocation_json ivn)"
    using p by (auto simp: invocation_json_def proto_key_def wf_json.simps(2) [of "_ # _"] split: option.splits)
  have "ownJson (default_limits True) (fst (foreign_of_json (invocation_json ivn))) (snd (foreign_of_json (invocation_json ivn))) =
      Inr (invocation_json ivn)"
    using reown_iff [OF wi] bi by (simp add: reown_def)
  then show "decodeInvocation (foreign_of_json (invocation_json ivn)) = Some ivn"
    using p again a unfolding decodeInvocation_def
    by (cases "map_of kvs ''actor''") (auto simp: invocation_json_def exactKeys_def)
qed

lemma plan_decoded:
  "decodeInvocation v = decodeInvocation w \<Longrightarrow>
     planImageDocumentCommand blake d v = planImageDocumentCommand blake d w"
  by (simp add: planImageDocumentCommand_def)

lemma plan_again:
  assumes "heap_ok (fst v)" and "planImageDocumentCommand blake d v = Inr pl"
  shows "planImageDocumentCommand blake d (foreign_of_json (invocation_json (pl_invocation pl))) = Inr pl"
    and "wf_json (invocation_json (pl_invocation pl))"
proof -
  obtain ivn where i: "decodeInvocation v = Some ivn" "pl_invocation pl = ivn"
    using plan_parts [OF assms(2)] by (metis command_plan.select_convs(1))
  note a = decode_again [OF assms(1) i(1)]
  show "wf_json (invocation_json (pl_invocation pl))" using a(2) i(2) by simp
  have "planImageDocumentCommand blake d (foreign_of_json (invocation_json ivn)) = planImageDocumentCommand blake d v"
    by (rule plan_decoded) (simp add: a(1) i(1))
  then show "planImageDocumentCommand blake d (foreign_of_json (invocation_json (pl_invocation pl))) = Inr pl"
    using assms(2) i(2) by simp
qed

lemma plan_forward_wf:
  assumes "loads blake d" and "heap_ok (fst v)" and "planImageDocumentCommand blake d v = Inr pl"
  shows "list_all wf_op (pl_forward pl)"
proof -
  obtain ivn c where p: "decodeInvocation v = Some ivn" "commandPatches d ivn = Some (pl_forward pl, c)"
    using plan_parts [OF assms(3)] by (metis command_plan.select_convs(3))
  have "applyOwnedOps d (pl_forward pl) = Inr (pl_document pl)" using plan_spec [OF assms] by blast
  from commandPatches_sound [OF assms(1) decodeInvocation_ok [OF assms(2) p(1)] p(2) this] show ?thesis by (simp add: sound_ops_def)
qed

section \<open>Patches on the wire\<close>

lemma segs_of_path [simp]: "segs_of_json (map seg_json p) = Some p"
proof (induction p)
  case (Cons s p)
  then show ?case by (cases s) simp_all
qed simp

lemma decode_wire [simp]: "decodeOwnedOp (wire_object op) i = Inr (unwire (wire_op op))"
  by (cases op) (simp_all add: decodeOwnedOp_def decode_path_def path_json_def)

lemma apply_wire_batch: "apply_batch d i (map wire_object ops) = applyOwnedOps d (map unwire (wirePatch ops))"
  by (induction ops arbitrary: d i) (simp_all add: wirePatch_def)

lemma wf_wire: "wf_op op \<Longrightarrow> wf_json (wire_object op)"
proof -
  have "wf_json (path_json p)" for p
  proof -
    have "wf_json (seg_json s)" for s by (cases s) simp_all
    then show ?thesis by (simp add: path_json_def list_all_iff)
  qed
  then show "wf_op op \<Longrightarrow> wf_json (wire_object op)" by (cases op) (simp_all add: wf_json.simps(2) proto_key_def)
qed

lemma wf_toWirePatch: "list_all wf_op ops \<Longrightarrow> wf_json (toWirePatch ops)"
  using wf_wire by (auto simp: toWirePatch_def list_all_iff)

text \<open>A patch that fits the budget of one message does on the server's side what it did on this.\<close>

lemma applyWire_own:
  assumes "applyOwnedOps d ops = Inr x" and "loads blake x" and "list_all wf_op ops"
    and "in_budget (default_limits True) (toWirePatch ops)"
  shows "applyWire blake d (toWirePatch ops) = Some x"
proof -
  have "reown (default_limits True) (toWirePatch ops) = Inr (toWirePatch ops)"
    using reown_iff [OF wf_toWirePatch [OF assms(3)]] assms(4) by simp
  then have "applyOps d (fst (foreign_of_json (toWirePatch ops))) (snd (foreign_of_json (toWirePatch ops))) = Inr x"
    using apply_unwire_all [OF assms(1)] unfolding reown_def
    by (simp add: applyOps_def toWirePatch_def apply_wire_batch)
  then show ?thesis using load_again [OF assms(2)] by (simp add: applyWire_def loadedDocument_def)
qed

lemma loadedDocument_loads:
  "heap_ok (fst v) \<Longrightarrow> loadedDocument blake v = Some d \<Longrightarrow> loads blake d"
  using load_Some [of "fst v" blake "snd v" d] by (cases "loadImageDocument blake default_load v") (auto simp: loadedDocument_def)

lemma loadedDocument_again: "loads blake d \<Longrightarrow> loadedDocument blake (foreign_of_json d) = Some d"
  by (simp add: loadedDocument_def load_again)

lemma applyWire_loads:
  assumes "loads blake d" and "heap_ok (fst (foreign_of_json patch))" and "applyWire blake d patch = Some x"
  shows "loads blake x"
proof -
  from assms(3) obtain nxt where n: "applyOps d (fst (foreign_of_json patch)) (snd (foreign_of_json patch)) = Inr nxt"
    "loadedDocument blake (foreign_of_json nxt) = Some x" by (auto simp: applyWire_def split: sum.splits)
  then obtain batch where b: "ownJson (default_limits True) (fst (foreign_of_json patch)) (snd (foreign_of_json patch)) = Inr (JArr batch)"
    "apply_batch d 0 batch = Inr nxt" by (auto simp: applyOps_def split: sum.splits json.splits)
  have wb: "list_all wf_json batch" using own_budget [OF assms(2) b(1)] by simp
  from apply_batch_decodes [OF b(2)] obtain ops where ops: "length ops = length batch"
    "\<forall>k < length batch. decodeOwnedOp (batch ! k) k = Inr (ops ! k)" "applyOwnedOps d ops = Inr nxt" by auto
  have "list_all wf_op ops" using ops(1,2) wb decodeOwnedOp_wf by (metis list_all_length)
  then have "wf_json nxt" using patch.run_valid [OF ops(3) [unfolded applyOwnedOps_def]] loads_wf [OF assms(1)] by simp
  then show ?thesis using loadedDocument_loads [OF _ n(2)] foreign_of_json_denotes(2) by blast
qed

section \<open>History kept as patches\<close>

lemma history_loop_done:
  "image_history_loop d applied ops = Some (c, applied', None) \<Longrightarrow> applied' = applied @ ops \<and> applyOwnedOps d ops = Inr c"
proof (induction ops arbitrary: d applied)
  case (Cons op ops)
  then obtain d1 where d1: "applyOp d op = Inr d1" "image_history_loop d1 (applied @ [op]) ops = Some (c, applied', None)"
    by (auto simp: result_simps split: if_splits sum.splits)
  then show ?case using Cons.IH [OF d1(2)] by simp
qed simp

lemma replayImageHistory_done:
  assumes "loads blake d" and "replayable ops" and "replayImageHistory blake d ops = Some (x, applied, None)"
  shows "applied = ops \<and> applyOwnedOps d ops = Inr x \<and> loads blake x"
proof -
  from assms(3) obtain c where c: "image_history_loop d [] ops = Some (c, applied, None)"
    "loadedDocument blake (foreign_of_json c) = Some x" by (auto simp: replayImageHistory_def split: option.splits)
  from history_loop_done [OF c(1)] have r: "applied = ops" "applyOwnedOps d ops = Inr c" by simp_all
  obtain ds where "loadImageDocument blake default_load (foreign_of_json c) = (Some x, ds)"
    using c(2) by (cases "loadImageDocument blake default_load (foreign_of_json c)") (simp add: loadedDocument_def)
  then show ?thesis using doc_ops_loaded [of ops blake d c x ds] assms(1,2) r unfolding replayable_def by blast
qed

end
