(* ===== verification/SharedGround.thy ===== *)
theory SharedGround
  imports SharedIntents
begin

text \<open>
  The confirmed document of a shared session moves only when the session takes an operation that follows it or a
  snapshot. So a property of the document and its revision that honest operations and snapshots keep is kept
  by every step of the session.
\<close>

section \<open>Steps that leave the confirmed document alone\<close>

definition ground :: "shared \<Rightarrow> json \<times> nat" where
  "ground s = (sh_confirmed s, sh_confirmedRevision s)"

lemma ground_helpers [simp]:
  "ground (tell c s) = ground s" "ground (snd (mintOpId s)) = ground s" "ground (snd (new_record r s)) = ground s"
  "ground (drop_record x s) = ground s" "ground (set_record x h s) = ground s" "ground (retainedAdd ds s) = ground s"
  "ground (fail_session s) = ground s" "ground (pump s) = ground s" "ground (close_session s) = ground s"
  "ground (sync_loop s) = ground s" "ground (startSync s) = ground s" "ground (requestCatchUp t s) = ground s"
  "ground (requestResync s) = ground s" "ground (checkpoint s) = ground s" "ground (pump_loop s) = ground s"
  "ground (retract n a s) = ground s" "ground (note_snapshot sn s) = ground s" "ground (shared_clear_history s) = ground s"
  "ground (pop_stack b s) = ground s" "ground (push_stack b n s) = ground s"
proof -
  show t: "ground (tell c s) = ground s" for c s by (simp add: ground_def tell_def)
  show "ground (snd (mintOpId s)) = ground s" "ground (snd (new_record r s)) = ground s"
    "ground (drop_record x s) = ground s" "ground (set_record x h s) = ground s" "ground (retainedAdd ds s) = ground s"
    "ground (retract n a s) = ground s" "ground (shared_clear_history s) = ground s"
    "ground (pop_stack b s) = ground s" "ground (push_stack b n s) = ground s" "ground (pump s) = ground s"
    by (simp_all add: ground_def mintOpId_def new_record_def drop_record_def removeHistory_def set_record_def retainedAdd_def
        retract_def shared_clear_history_def pop_stack_def push_stack_def pump_def split: option.splits)
  show "ground (fail_session s) = ground s" "ground (close_session s) = ground s" "ground (checkpoint s) = ground s"
    by (simp_all add: ground_def fail_session_def close_session_def checkpoint_def tell_def Let_def)
  show l: "ground (sync_loop s) = ground s" for s by (simp add: ground_def sync_loop_def tell_def)
  show st: "ground (startSync s) = ground s" for s
    using l [of "s\<lparr>sh_status := ShCatchingUp\<rparr>"] by (simp add: startSync_def) (simp add: ground_def)
  show "ground (requestCatchUp t s) = ground s" "ground (requestResync s) = ground s"
    by (simp_all add: requestCatchUp_def requestResync_def st) (simp_all add: ground_def tell_def)
  show "ground (pump_loop s) = ground s" by (simp add: ground_def pump_loop_def tell_def Let_def split: list.splits)
  show "ground (note_snapshot sn s) = ground s" by (simp add: ground_def note_snapshot_def split: option.splits prod.splits)
qed

lemma ground_updates [simp]:
  "ground (s\<lparr>sh_pump := p\<rparr>) = ground s" "ground (s\<lparr>sh_sync := y\<rparr>) = ground s" "ground (s\<lparr>sh_status := st\<rparr>) = ground s"
  "ground (s\<lparr>sh_resync := b\<rparr>) = ground s" "ground (s\<lparr>sh_pending := es\<rparr>) = ground s" "ground (s\<lparr>sh_optimistic := d\<rparr>) = ground s"
  "ground (s\<lparr>sh_lastSnapshot := n\<rparr>) = ground s" "ground (s\<lparr>sh_connected := c\<rparr>) = ground s" "ground (s\<lparr>sh_undo := u\<rparr>) = ground s"
  "ground (s\<lparr>sh_redo := u\<rparr>) = ground s" "ground (s\<lparr>sh_next := n\<rparr>) = ground s" "ground (s\<lparr>sh_checkpoints := ns\<rparr>) = ground s"
  "ground (s\<lparr>sh_snapshotReads := n\<rparr>) = ground s" "ground (s\<lparr>sh_syncTarget := t\<rparr>) = ground s"
  by (simp_all add: ground_def)

lemma ground_enqueue [simp]: "ground (enqueue_entry i ops og r s) = ground s"
proof -
  have "ground t = ground s" if "mintOpId s = (n, t)" for n t using ground_helpers(2) [of s] that by simp
  then show ?thesis by (auto simp: enqueue_entry_def Let_def split: prod.splits)
qed

lemma ground_rebase_entries: "rebase_entries blake es d s = (es', d', s') \<Longrightarrow> ground s' = ground s"
proof (induction es arbitrary: d s es' d' s')
  case (Cons e es)
  show ?case
  proof (cases "reapply blake d e s")
    case None
    then show ?thesis using Cons.IH Cons.prems by fastforce
  next
    case (Some r)
    obtain ops x s1 where r: "r = (ops, x, s1)" by (cases r)
    have "ground s1 = ground s"
      using Some r by (auto simp: reapply_def split: intention.splits sum.splits option.splits prod.splits)
    moreover obtain opId s2 where m: "mintOpId s1 = (opId, s2)" by (rule prod.exhaust)
    moreover have "ground s2 = ground s1" using ground_helpers(2) [of s1] m by simp
    ultimately show ?thesis using Cons.prems Some r Cons.IH by (auto simp: Let_def split: prod.splits)
  qed
qed simp

lemma ground_rebase [simp]: "ground (rebase blake s) = ground s"
  using ground_rebase_entries by (auto simp: rebase_def Let_def split: prod.splits)

lemma ground_dispatch [simp]: "ground (snd (shared_dispatch blake clock v s)) = ground s"
proof -
  have "ground s' = ground s" if "new_record r s = (n, s')" for n r s' using ground_helpers(3) [of r s] that by simp
  then show ?thesis by (auto simp: shared_dispatch_def Let_def split: sum.splits prod.splits)
qed

lemma ground_replay_history [simp]: "ground (snd (replay_history blake b s)) = ground s"
  by (simp add: replay_history_def Let_def split: option.splits prod.splits)

text \<open>Taking an operation moves the confirmed document by its patch, or leaves the session as it is.\<close>

lemma ingest_ground:
  assumes "ingestOrdered blake operation s = (b, t)"
  shows "(t = s \<and> \<not> b) \<or> (\<exists>x. op_revision operation = Suc (sh_confirmedRevision s) \<and>
    applyWire blake (sh_confirmed s) (op_patch operation) = Some x \<and> ground t = (x, Suc (sh_confirmedRevision s)))"
proof (cases "op_revision operation = Suc (sh_confirmedRevision s) \<and> applyWire blake (sh_confirmed s) (op_patch operation) \<noteq> None")
  case True
  then obtain x where x: "op_revision operation = Suc (sh_confirmedRevision s)"
    "applyWire blake (sh_confirmed s) (op_patch operation) = Some x" by auto
  have "ground (s\<lparr>sh_confirmed := x, sh_confirmedRevision := Suc (sh_confirmedRevision s)\<rparr>) = (x, Suc (sh_confirmedRevision s))"
    by (simp add: ground_def)
  then have "ground t = (x, Suc (sh_confirmedRevision s))"
    using assms x unfolding ingestOrdered_def Let_def by (auto split: if_splits)
  then show ?thesis using x by blast
next
  case False
  then show ?thesis using assms by (auto simp: ingestOrdered_def split: if_splits)
qed

section \<open>Properties of the confirmed document\<close>

text \<open>What the messages of an event must satisfy: each operation, and each snapshot the session may take.\<close>

fun event_ok :: "(json \<Rightarrow> bool) \<Rightarrow> (json \<Rightarrow> json \<Rightarrow> bool) \<Rightarrow> shared_event \<Rightarrow> bool" where
  "event_ok op_ok snap_ok (FromConnection (OpArrived operation)) \<longleftrightarrow> op_ok operation"
| "event_ok op_ok snap_ok (PumpPosted (PostAccepted operation)) \<longleftrightarrow> op_ok operation"
| "event_ok op_ok snap_ok (SyncPage (Some (PageOps ops))) \<longleftrightarrow> list_all op_ok ops"
| "event_ok op_ok snap_ok (SyncSnapshot (Some (revision, raw))) \<longleftrightarrow> snap_ok revision raw"
| "event_ok op_ok snap_ok _ \<longleftrightarrow> True"

locale confirmed_property =
  fixes blake :: "nat list \<Rightarrow> string"
    and good :: "json \<Rightarrow> nat \<Rightarrow> bool"
    and op_ok :: "json \<Rightarrow> bool"
    and snap_ok :: "json \<Rightarrow> json \<Rightarrow> bool"
  assumes good_next: "good d r \<Longrightarrow> op_ok operation \<Longrightarrow> op_revision operation = Suc r \<Longrightarrow>
      applyWire blake d (op_patch operation) = Some x \<Longrightarrow> good x (Suc r)"
    and good_snapshot: "snap_ok revision raw \<Longrightarrow> loadedDocument blake (foreign_of_json raw) = Some d \<Longrightarrow>
      good d (revision_of (Some revision))"
begin

definition holds :: "shared \<Rightarrow> bool" where
  "holds s \<longleftrightarrow> case_prod good (ground s)"

lemma holds_ground: "ground t = ground s \<Longrightarrow> holds s \<Longrightarrow> holds t"
  by (simp add: holds_def)

lemma holds_admin [simp]:
  "holds (s\<lparr>sh_sync := y\<rparr>) \<longleftrightarrow> holds s" "holds (s\<lparr>sh_pump := p\<rparr>) \<longleftrightarrow> holds s" "holds (s\<lparr>sh_resync := b\<rparr>) \<longleftrightarrow> holds s"
  "holds (sync_loop s) \<longleftrightarrow> holds s" "holds (requestResync s) \<longleftrightarrow> holds s" "holds (requestCatchUp c s) \<longleftrightarrow> holds s"
  "holds (pump s) \<longleftrightarrow> holds s" "holds (checkpoint s) \<longleftrightarrow> holds s" "holds (pump_loop s) \<longleftrightarrow> holds s"
  by (simp_all add: holds_def)

lemma holds_ingest:
  assumes "holds s" and "op_ok operation" and "ingestOrdered blake operation s = (b, t)"
  shows "holds t"
  using ingest_ground [OF assms(3)]
proof (elim disjE exE conjE)
  fix x
  assume x: "op_revision operation = Suc (sh_confirmedRevision s)" "applyWire blake (sh_confirmed s) (op_patch operation) = Some x"
    and g: "ground t = (x, Suc (sh_confirmedRevision s))"
  have "good x (Suc (sh_confirmedRevision s))" using good_next [OF _ assms(2) x] assms(1) by (simp add: holds_def ground_def)
  then show ?thesis using g by (simp add: holds_def)
qed (use assms(1) in simp)

lemma holds_handle:
  assumes "holds s" and "op_ok operation"
  shows "holds (handleServerOp blake operation s)"
proof (cases "ingestOrdered blake operation s")
  case (Pair b t)
  then show ?thesis using assms holds_ingest [OF assms Pair] by (cases b) (simp_all add: handleServerOp_def)
qed

lemma holds_page: "holds s \<Longrightarrow> list_all op_ok ops \<Longrightarrow> ingest_page blake ops b s = (e, t) \<Longrightarrow> holds t"
proof (induction ops arbitrary: b s)
  case (Cons x xs)
  obtain c u where i: "ingestOrdered blake x s = (c, u)" by (rule prod.exhaust)
  then have "holds u" using holds_ingest [OF Cons.prems(1) _ i] Cons.prems(2) by simp
  then show ?case using Cons.IH [of u] Cons.IH [of s] Cons.prems i by (cases c) (auto split: if_splits)
qed simp

lemma holds_take: "good d r \<Longrightarrow> holds (take_snapshot blake r d s)"
  by (simp add: holds_def take_snapshot_def Let_def) (simp add: ground_def)

lemma holds_step:
  assumes "holds s" and "event_ok op_ok snap_ok ev"
  shows "holds (shared_step blake ev s)"
proof -
  note keep = holds_ground [OF _ assms(1)]
  show ?thesis
  proof (cases ev)
    case (FromConnection e)
    then show ?thesis using assms keep holds_handle [OF assms(1)]
      by (cases e) (auto simp: shared_step_def handleEvent_def Let_def intro!: keep)
  next
    case (PumpPosted r)
    show ?thesis
    proof (cases "\<exists>x. r = PostAccepted x")
      case True
      then obtain x where x: "r = PostAccepted x" "op_ok x" using PumpPosted assms(2) by auto
      then show ?thesis
        using PumpPosted holds_handle [OF assms(1) x(2)] keep
        by (auto simp: shared_step_def pump_posted_def intro!: keep split: pump_pc.splits)
    next
      case False
      then show ?thesis using PumpPosted
        by (cases r) (auto simp: shared_step_def pump_posted_def intro!: keep split: pump_pc.splits)
    qed
  next
    case (SyncSnapshot r)
    then show ?thesis using assms keep holds_take good_snapshot
      by (auto simp: shared_step_def sync_snapshot_def split: option.splits)
  next
    case (SyncPage r)
    have "holds t" if "ingest_page blake ops False s = (e, t)" "r = Some (PageOps ops)" for ops e t
      using holds_page [OF assms(1) _ that(1)] that(2) SyncPage assms(2) by simp
    then show ?thesis using SyncPage keep
      by (auto simp: shared_step_def sync_page_def split: option.splits page.splits prod.splits page_end.splits)
  qed (auto simp: shared_step_def pump_start_def pump_put_def pump_fetched_def pump_retry_def pump_end_def sync_retry_def
      sync_caught_def sync_end_def checkpoint_put_def checkpoint_fetched_def Let_def intro!: keep split: put_reply.splits nat.splits)
qed

lemma holds_run: "holds s \<Longrightarrow> list_all (event_ok op_ok snap_ok) events \<Longrightarrow> holds (shared_run blake events s)"
  unfolding shared_run_def by (induction events arbitrary: s) (simp_all add: holds_step)

end

end
