(* ===== verification/SharedView.thy ===== *)
theory SharedView
  imports SharedGround
begin

text \<open>
  What a shared session shows: its pending edits, each planned on the one before, on top of the confirmed
  document. The view can be behind only while the session has asked for a snapshot, or is down.
\<close>

section \<open>Pending edits on a document\<close>

definition intends :: "(nat list \<Rightarrow> string) \<Rightarrow> json \<Rightarrow> intention \<Rightarrow> patch_op list \<Rightarrow> json \<Rightarrow> bool" where
  "intends blake d i ops x \<longleftrightarrow>
     (case i of
        IntendCommand v \<Rightarrow>
          (\<exists>pl. planImageDocumentCommand blake d (foreign_of_json (invocation_json v)) = Inr pl \<and> pl_forward pl = ops \<and> pl_document pl = x)
      | IntendPatch q \<Rightarrow> replayImageHistory blake d q = Some (x, ops, None))"

fun chain :: "(nat list \<Rightarrow> string) \<Rightarrow> json \<Rightarrow> (intention \<times> json) list \<Rightarrow> json \<Rightarrow> bool" where
  "chain blake d [] x \<longleftrightarrow> x = d"
| "chain blake d ((i, w) # es) x \<longleftrightarrow> (\<exists>ops y. intends blake d i ops y \<and> w = toWirePatch ops \<and> chain blake y es x)"

lemma chain_append: "chain blake d (xs @ [(i, w)]) x \<longleftrightarrow> (\<exists>y ops. chain blake d xs y \<and> intends blake y i ops x \<and> w = toWirePatch ops)"
proof (induction xs arbitrary: d)
  case (Cons e xs)
  obtain j v where e: "e = (j, v)" by (cases e)
  show ?case unfolding e append_Cons chain.simps Cons.IH by blast
qed simp

definition edit :: "entry \<Rightarrow> intention \<times> json" where
  "edit e = (en_intention e, en_predicted e)"

definition intention_ok :: "intention \<Rightarrow> bool" where
  "intention_ok i \<longleftrightarrow> (case i of IntendCommand v \<Rightarrow> wf_json (invocation_json v) | IntendPatch q \<Rightarrow> replayable q)"

definition record_ok :: "history_record \<Rightarrow> bool" where
  "record_ok h \<longleftrightarrow> replayable (hr_forward h) \<and> replayable (hr_inverse h)"

lemma intends_applies:
  assumes "loads blake d" and "intention_ok i" and "intends blake d i ops x"
  shows "applyOwnedOps d ops = Inr x \<and> loads blake x"
proof (cases i)
  case (IntendCommand v)
  then have "heap_ok (fst (foreign_of_json (invocation_json v)))"
    using assms(2) foreign_of_json_denotes(2) by (simp add: intention_ok_def)
  then show ?thesis using plan_spec [OF assms(1)] assms(3) IntendCommand by (fastforce simp: intends_def)
next
  case (IntendPatch q)
  then show ?thesis using replayImageHistory_done [OF assms(1), of q] assms(2,3) by (simp add: intends_def intention_ok_def)
qed

lemma chain_loads: "chain blake d es x \<Longrightarrow> loads blake d \<Longrightarrow> list_all (\<lambda>e. intention_ok (fst e)) es \<Longrightarrow> loads blake x"
proof (induction es arbitrary: d)
  case (Cons e es)
  then obtain ops y where y: "intends blake d (fst e) ops y" "chain blake y es x" by (cases e) auto
  then have "loads blake y" using intends_applies [OF Cons.prems(2) _ y(1)] Cons.prems(3) by simp
  then show ?case using Cons.IH [OF y(2)] Cons.prems(3) by simp
qed simp

section \<open>The invariant\<close>

definition is_clean :: "shared \<Rightarrow> bool" where
  "is_clean s \<longleftrightarrow> \<not> sh_resync s \<and> sh_sync s \<notin> {SyncFetching, SyncCaught} \<and> \<not> is_down s"

definition view :: "shared \<Rightarrow> json \<times> (intention \<times> json) list \<times> json" where
  "view s = (sh_confirmed s, map edit (sh_pending s), sh_optimistic s)"

definition viewed :: "(nat list \<Rightarrow> string) \<Rightarrow> shared \<Rightarrow> bool" where
  "viewed blake s \<longleftrightarrow> chain blake (sh_confirmed s) (map edit (sh_pending s)) (sh_optimistic s)"

definition sound :: "(nat list \<Rightarrow> string) \<Rightarrow> shared \<Rightarrow> bool" where
  "sound blake s \<longleftrightarrow> loads blake (sh_confirmed s) \<and> loads blake (sh_optimistic s) \<and>
     list_all (\<lambda>e. intention_ok (en_intention e)) (sh_pending s) \<and> (\<forall>n. record_ok (sh_records s n))"

definition sh_ok :: "(nat list \<Rightarrow> string) \<Rightarrow> shared \<Rightarrow> bool" where
  "sh_ok blake s \<longleftrightarrow> sound blake s \<and> (is_clean s \<longrightarrow> viewed blake s)"

definition keeps :: "shared \<Rightarrow> shared \<Rightarrow> bool" where
  "keeps s t \<longleftrightarrow> view t = view s \<and> sh_records t = sh_records s \<and> (is_clean t \<longrightarrow> is_clean s)"

lemma keeps_refl [simp]: "keeps s s"
  by (simp add: keeps_def)

lemma keeps_trans: "keeps s t \<Longrightarrow> keeps t u \<Longrightarrow> keeps s u"
  by (simp add: keeps_def)

lemma intentions_edit: "list_all (\<lambda>e. P (en_intention e)) es \<longleftrightarrow> list_all (\<lambda>p. P (fst p)) (map edit es)"
  by (simp add: list_all_iff edit_def)

lemma keeps_sound:
  assumes "keeps s t" and "sound blake s"
  shows "sound blake t"
  using assms unfolding sound_def keeps_def view_def intentions_edit by simp

lemma keeps_ok: "keeps s t \<Longrightarrow> sh_ok blake s \<Longrightarrow> sh_ok blake t"
  using keeps_sound by (auto simp: sh_ok_def keeps_def view_def viewed_def)

section \<open>Steps that keep the view\<close>

named_theorems keeping

lemmas keeps_defs = keeps_def view_def is_clean_def is_down_def edit_def

lemma keeps_tell [keeping]: "keeps s (tell c s)"
  by (simp add: keeps_defs tell_def)

lemma keeps_pump [keeping]: "keeps s (pump s)"
  by (simp add: keeps_defs pump_def)

lemma keeps_fail [keeping]: "keeps s (fail_session s)"
  by (simp add: keeps_defs fail_session_def tell_def)

lemma keeps_close [keeping]: "keeps s (close_session s)"
  by (simp add: keeps_defs close_session_def tell_def Let_def)

lemma keeps_checkpoint [keeping]: "keeps s (checkpoint s)"
  by (simp add: keeps_defs checkpoint_def tell_def)

lemma keeps_sync_loop: "sh_sync s \<notin> {SyncFetching, SyncCaught} \<Longrightarrow> keeps s (sync_loop s)"
  by (simp add: keeps_defs sync_loop_def tell_def)

lemma keeps_startSync [keeping]: "keeps s (startSync s)"
  by (auto simp: keeps_defs startSync_def sync_loop_def tell_def syncing_def)

lemma keeps_requestCatchUp [keeping]: "keeps s (requestCatchUp c s)"
  using keeps_startSync [of "s\<lparr>sh_syncTarget := c\<rparr>"] keeps_startSync [of s] by (auto simp: requestCatchUp_def keeps_defs)

lemma requestResync_dirty: "\<not> is_clean (requestResync s)"
  by (auto simp: requestResync_def is_clean_def startSync_def sync_loop_def tell_def syncing_def is_down_def)

lemma requestResync_view: "view (requestResync s) = view s" "sh_records (requestResync s) = sh_records s"
  by (auto simp: requestResync_def view_def startSync_def sync_loop_def tell_def)

lemma keeps_requestResync [keeping]: "keeps s (requestResync s)"
  using requestResync_dirty requestResync_view by (simp add: keeps_def)

lemma keeps_pump_loop [keeping]: "keeps s (pump_loop s)"
  by (auto simp: keeps_defs pump_loop_def tell_def Let_def split: list.splits)

lemma keeps_retract [keeping]: "keeps s (retract n a s)"
  by (auto simp: keeps_defs retract_def)

lemma keeps_note [keeping]: "keeps s (note_snapshot r s)"
  by (simp add: keeps_defs note_snapshot_def split: option.splits prod.splits)

lemma keeps_clear [keeping]: "keeps s (shared_clear_history s)"
  by (simp add: keeps_defs shared_clear_history_def)

lemma keeps_pop [keeping]: "keeps s (pop_stack b s)"
  by (simp add: keeps_defs pop_stack_def)

lemma keeps_push [keeping]: "keeps s (push_stack b n s)"
  by (simp add: keeps_defs push_stack_def)

lemma keeps_drop [keeping]: "keeps s (drop_record r s)"
  by (simp add: keeps_defs drop_record_def removeHistory_def split: option.splits)

lemma keeps_mint [keeping]: "keeps s (snd (mintOpId s))"
  by (simp add: keeps_defs mintOpId_def)

lemma keeps_retained [keeping]: "keeps s (retainedAdd ds s)"
  by (simp add: keeps_defs retainedAdd_def)

lemma keeps_updates [keeping]:
  "keeps s (s\<lparr>sh_pump := p\<rparr>)" "keeps s (s\<lparr>sh_connected := b\<rparr>)" "keeps s (s\<lparr>sh_lastSnapshot := n\<rparr>)"
  "keeps s (s\<lparr>sh_checkpoints := ns\<rparr>)" "keeps s (s\<lparr>sh_snapshotReads := n\<rparr>)" "keeps s (s\<lparr>sh_resync := True\<rparr>)"
  "keeps s (s\<lparr>sh_sync := SyncCaught\<rparr>)"
  by (simp_all add: keeps_defs)

lemma keeps_pump_start [keeping]: "keeps s (pump_start s)"
  by (simp add: pump_start_def keeping)

lemma keeps_pump_put [keeping]: "keeps s (pump_put r s)"
  using keeps_trans [OF keeps_updates(3) keeps_pump_loop, of s "sh_confirmedRevision s"]
    keeps_trans [OF keeps_updates(1) keeps_tell, of s FetchSnapshot PumpFetching]
  by (cases r) (simp_all add: pump_put_def keeping)

lemma keeps_pump_fetched [keeping]: "keeps s (pump_fetched r s)"
  using keeps_trans [OF keeps_note keeps_updates(1)] by (simp add: pump_fetched_def)

lemma keeps_pump_retry [keeping]: "keeps s (pump_retry s)"
  by (simp add: pump_retry_def keeping)

lemma keeps_pump_end [keeping]: "keeps s (pump_end s)"
  using keeps_trans [OF keeps_updates(1) keeps_pump] by (simp add: pump_end_def Let_def keeping)

lemma keeps_sync_retry [keeping]: "keeps s (sync_retry s)"
  by (simp add: sync_retry_def keeps_sync_loop)

lemma keeps_sync_caught [keeping]: "keeps s (sync_caught s)"
  by (auto simp: sync_caught_def keeps_defs fail_session_def tell_def)

lemma keeps_sync_end [keeping]: "keeps s (sync_end s)"
proof (cases "sh_sync s = SyncEnding")
  case True
  define t where "t = (if sh_status s = ShCatchingUp then s\<lparr>sh_sync := SyncIdle, sh_status := ShLive\<rparr> else s\<lparr>sh_sync := SyncIdle\<rparr>)"
  have "keeps s t" using True by (auto simp: t_def keeps_defs)
  moreover have "sync_end s = startSync t \<or> sync_end s = pump t" using True by (auto simp: sync_end_def t_def Let_def)
  ultimately show ?thesis using keeps_startSync keeps_pump keeps_trans by metis
qed (simp add: sync_end_def)

lemma keeps_checkpoint_put [keeping]: "keeps s (checkpoint_put n r s)"
  by (simp add: checkpoint_put_def Let_def keeps_defs tell_def split: put_reply.splits)

lemma keeps_checkpoint_fetched [keeping]: "keeps s (checkpoint_fetched r s)"
  using keeps_trans [OF keeps_updates(5) keeps_note] by (simp add: checkpoint_fetched_def split: nat.splits)

end
