(* ===== verification/SharedSteps.thy ===== *)
theory SharedSteps
  imports SharedView
begin

text \<open>Every step of a shared session keeps its invariant: its documents load, and a clean session shows its edits.\<close>

section \<open>Rebasing gives a view\<close>

definition control :: "shared \<Rightarrow> shared_status \<times> sync_pc \<times> bool \<times> pump_pc" where
  "control s = (sh_status s, sh_sync s, sh_resync s, sh_pump s)"

lemma clean_control: "control t = control s \<Longrightarrow> is_clean t = is_clean s"
  by (simp add: control_def is_clean_def is_down_def)

lemma plan_heap: "intention_ok (IntendCommand v) \<Longrightarrow> heap_ok (fst (foreign_of_json (invocation_json v)))"
  using foreign_of_json_denotes(2) by (simp add: intention_ok_def)

lemma reapply_Some:
  assumes "reapply blake d e s = Some (ops, x, t)" and "loads blake d" and "intention_ok (en_intention e)"
    and "\<forall>n. record_ok (sh_records s n)"
  shows "intends blake d (en_intention e) ops x \<and> control t = control s \<and> (\<forall>n. record_ok (sh_records t n)) \<and>
    sh_confirmedRevision t = sh_confirmedRevision s"
proof (cases "en_intention e")
  case (IntendCommand v)
  then obtain pl where pl: "planImageDocumentCommand blake d (foreign_of_json (invocation_json v)) = Inr pl" "ops = pl_forward pl"
    "x = pl_document pl" "t = set_record (en_record e) \<lparr>hr_forward = pl_redo pl, hr_inverse = pl_inverse pl\<rparr> s"
    using assms(1) by (auto simp: reapply_def split: sum.splits)
  have "replayable (pl_redo pl) \<and> replayable (pl_inverse pl)"
    using plan_replayable [OF assms(2) plan_heap pl(1)] assms(3) IntendCommand by simp
  then show ?thesis
    using pl IntendCommand assms(4) by (simp add: intends_def set_record_def control_def record_ok_def split: option.splits)
next
  case (IntendPatch q)
  then show ?thesis using assms by (auto simp: reapply_def intends_def split: option.splits)
qed

lemma rebase_entries_view:
  assumes "rebase_entries blake es d s = (es', d', t)" and "loads blake d"
    and "list_all (\<lambda>e. intention_ok (en_intention e)) es" and "\<forall>n. record_ok (sh_records s n)"
  shows "chain blake d (map edit es') d' \<and> list_all (\<lambda>e. intention_ok (en_intention e)) es' \<and>
    (\<forall>n. record_ok (sh_records t n)) \<and> control t = control s"
  using assms
proof (induction es arbitrary: d s es' d' t)
  case (Cons e es)
  show ?case
  proof (cases "reapply blake d e s")
    case None
    define u where "u = tell (NotifyConflict (en_origin e)) (drop_record (en_record e) s)"
    have u: "\<forall>n. record_ok (sh_records u n)" "control u = control s"
      using Cons.prems(4) by (simp_all add: u_def tell_def drop_record_def removeHistory_def control_def split: option.splits)
    have "rebase_entries blake es d u = (es', d', t)" using Cons.prems(1) None u_def by simp
    from Cons.IH [OF this Cons.prems(2) _ u(1)] u(2) Cons.prems(3) show ?thesis by simp
  next
    case (Some r)
    obtain ops x s1 where r: "reapply blake d e s = Some (ops, x, s1)" using Some by (cases r) simp
    have ok: "intention_ok (en_intention e)" using Cons.prems(3) by simp
    note a = reapply_Some [OF r Cons.prems(2) ok Cons.prems(4)]
    obtain opId s2 where m: "mintOpId s1 = (opId, s2)" by (rule prod.exhaust)
    have s2: "\<forall>n. record_ok (sh_records s2 n)" "control s2 = control s"
      using m a by (auto simp: mintOpId_def Let_def control_def)
    obtain es2 where es2: "rebase_entries blake es x s2 = (es2, d', t)" "edit (hd es') = (en_intention e, toWirePatch ops)"
      "es' = hd es' # es2" "en_intention (hd es') = en_intention e"
      using Cons.prems(1) r m by (auto simp: edit_def Let_def split: prod.splits)
    have "loads blake x" using intends_applies [OF Cons.prems(2) ok] a by blast
    from Cons.IH [OF es2(1) this _ s2(1)] Cons.prems(3) s2(2)
    have ih: "chain blake x (map edit es2) d' \<and> list_all (\<lambda>e. intention_ok (en_intention e)) es2 \<and>
        (\<forall>n. record_ok (sh_records t n)) \<and> control t = control s" by simp
    have "map edit es' = (en_intention e, toWirePatch ops) # map edit es2" using es2(2,3) by (metis list.simps(9))
    moreover have "list_all (\<lambda>e. intention_ok (en_intention e)) es'" using es2(3,4) ih ok by (metis list.pred_inject(2))
    ultimately show ?thesis using a ih by auto
  qed
qed simp

lemma rebase_ok:
  assumes "loads blake (sh_confirmed s)" and "list_all (\<lambda>e. intention_ok (en_intention e)) (sh_pending s)"
    and "\<forall>n. record_ok (sh_records s n)"
  shows "sound blake (rebase blake s) \<and> viewed blake (rebase blake s) \<and> control (rebase blake s) = control s"
proof -
  obtain es' d' t where r: "rebase_entries blake (sh_pending s) (sh_confirmed s) s = (es', d', t)" by (rule prod_cases3)
  note v = rebase_entries_view [OF r assms]
  have g: "sh_confirmed t = sh_confirmed s" using ground_rebase_entries [OF r] by (simp add: ground_def)
  have "loads blake d'" using chain_loads [of blake "sh_confirmed s" "map edit es'" d'] v assms(1) intentions_edit by blast
  then show ?thesis using r v g assms(1) by (simp add: rebase_def sound_def viewed_def control_def)
qed

lemma ok_view: "view t = view s \<Longrightarrow> sh_records t = sh_records s \<Longrightarrow> sound blake s \<Longrightarrow> viewed blake s \<Longrightarrow> sh_ok blake t"
  unfolding sh_ok_def sound_def viewed_def view_def intentions_edit by simp

section \<open>Taking operations\<close>

lemma drop_intentions: "list_all P xs \<Longrightarrow> list_all P (take i xs @ drop j xs)"
  by (auto simp: list_all_iff dest: in_set_takeD in_set_dropD)

lemma ingest_ok:
  assumes so: "sound blake s" and h: "heap_ok (fst (foreign_of_json (op_patch operation)))"
    and i: "ingestOrdered blake operation s = (b, t)"
  shows "sound blake t \<and> control t = control s \<and> (b \<longrightarrow> viewed blake t)"
proof (cases "op_revision operation = sh_confirmedRevision s + 1 \<and> applyWire blake (sh_confirmed s) (op_patch operation) \<noteq> None")
  case False
  then have "t = s \<and> \<not> b" using i by (auto simp: ingestOrdered_def split: if_splits)
  then show ?thesis using so by simp
next
  case True
  then obtain x where x: "applyWire blake (sh_confirmed s) (op_patch operation) = Some x" by auto
  have l: "loads blake x" using applyWire_loads [OF _ h x] so by (simp add: sound_def)
  have reb: "sound blake (tell c (rebase blake u)) \<and> control (tell c (rebase blake u)) = control s \<and> viewed blake (tell c (rebase blake u))"
    if "sh_confirmed u = x" "list_all (\<lambda>e. intention_ok (en_intention e)) (sh_pending u)" "sh_records u = sh_records s"
      "control u = control s" for u c
    using rebase_ok [of blake u] that l so by (simp add: sound_def viewed_def control_def tell_def)
  define u where "u = s\<lparr>sh_confirmed := x, sh_confirmedRevision := op_revision operation\<rparr>"
  define k where "k = pending_index operation (sh_pending s)"
  define e where "e = sh_pending s ! k"
  define u2 where "u2 = u\<lparr>sh_pending := take k (sh_pending s) @ drop (Suc k) (sh_pending s)\<rparr>"
  have cases: "t = tell (NotifyOp operation (en_origin e)) (rebase blake (if k \<noteq> 0 then drop_record (en_record e) u2 else u2)) \<or>
      (t = u \<and> \<not> b) \<or> t = tell (NotifyOp operation ''remote'') (rebase blake u)"
    using i True x by (auto simp: ingestOrdered_def Let_def u_def u2_def e_def k_def split: if_splits)
  have p: "list_all (\<lambda>e. intention_ok (en_intention e)) (sh_pending s)" using so by (simp add: sound_def)
  have u: "sh_confirmed u = x" "sh_pending u = sh_pending s" "sh_records u = sh_records s" "control u = control s" "sound blake u"
    using so l by (simp_all add: u_def control_def sound_def)
  have u2: "sh_confirmed u2 = x" "sh_records u2 = sh_records s" "control u2 = control s"
    "list_all (\<lambda>e. intention_ok (en_intention e)) (sh_pending u2)"
    using u drop_intentions [OF p] by (simp_all add: u2_def control_def)
  have "sh_confirmed (drop_record r u2) = x \<and> sh_records (drop_record r u2) = sh_records s \<and> control (drop_record r u2) = control s \<and>
      sh_pending (drop_record r u2) = sh_pending u2" for r
    using u2 by (simp add: drop_record_def removeHistory_def control_def split: option.splits)
  then show ?thesis using cases u u2 p reb by (elim disjE) (simp_all split: if_splits)
qed

lemma handle_ok:
  assumes "sh_ok blake s" and "heap_ok (fst (foreign_of_json (op_patch operation)))"
  shows "sh_ok blake (handleServerOp blake operation s)"
proof -
  obtain b t where i: "ingestOrdered blake operation s = (b, t)" by (rule prod.exhaust)
  have r: "sound blake t \<and> control t = control s \<and> (b \<longrightarrow> viewed blake t)"
    using ingest_ok [OF _ assms(2) i] assms(1) by (simp add: sh_ok_def)
  have "sh_ok blake (requestResync t)"
    using r keeps_sound [OF keeps_requestResync] requestResync_dirty by (simp add: sh_ok_def)
  moreover have "sh_ok blake (checkpoint (pump t))" if b
    using keeps_ok [OF keeps_trans [OF keeps_pump keeps_checkpoint]] r that by (simp add: sh_ok_def)
  moreover have "sh_ok blake (requestCatchUp c s)" for c using keeps_ok [OF keeps_requestCatchUp assms(1)] .
  ultimately show ?thesis using assms(1) i by (cases b) (simp_all add: handleServerOp_def)
qed

lemma some_pair: "(if p then x else y) = (z :: 'a) \<Longrightarrow> x = z \<or> y = z"
  by (cases p) simp_all

lemma page_cases:
  assumes "ingest_page blake (x # xs) b s = (e, t)" and "ingestOrdered blake x s = (c, u)"
  shows "(e = PageThrew \<and> t = s) \<or> ingest_page blake xs b s = (e, t) \<or> (e = PageGap \<and> t = s\<lparr>sh_resync := True\<rparr>) \<or>
    (e = PageThrew \<and> t = u) \<or> (c \<and> ingest_page blake xs True u = (e, t))"
  using assms(1) unfolding ingest_page.simps assms(2) prod.case
  by (cases c) (drule some_pair, elim disjE, simp, drule some_pair, elim disjE, simp, drule some_pair, elim disjE, simp, simp)+

lemma page_ok:
  assumes "sh_ok blake s" and "list_all (\<lambda>x. heap_ok (fst (foreign_of_json (op_patch x)))) ops"
    and "ingest_page blake ops b s = (e, t)"
  shows "sound blake t \<and> sh_sync t = sh_sync s \<and> (e \<noteq> PageThrew \<longrightarrow> sh_ok blake t)"
  using assms
proof (induction ops arbitrary: b s)
  case (Cons x xs)
  obtain c u where i: "ingestOrdered blake x s = (c, u)" by (rule prod.exhaust)
  have r: "sound blake u \<and> control u = control s \<and> (c \<longrightarrow> viewed blake u)"
    using ingest_ok [OF _ _ i] Cons.prems(1,2) by (simp add: sh_ok_def)
  then have u: "sh_sync u = sh_sync s" "c \<Longrightarrow> sh_ok blake u" by (simp_all add: control_def sh_ok_def)
  have g: "sh_ok blake (s\<lparr>sh_resync := True\<rparr>)" using keeps_ok [OF keeps_updates(6) Cons.prems(1)] .
  have "list_all (\<lambda>x. heap_ok (fst (foreign_of_json (op_patch x)))) xs" using Cons.prems(2) by simp
  note ih = Cons.IH [OF _ this]
  consider "e = PageThrew" "t = s" | "ingest_page blake xs b s = (e, t)"
    | "e = PageGap" "t = s\<lparr>sh_resync := True\<rparr>" | "e = PageThrew" "t = u" | "c" "ingest_page blake xs True u = (e, t)"
    using page_cases [OF Cons.prems(3) i] by blast
  then show ?case
  proof cases
    case 1
    then show ?thesis using Cons.prems(1) by (simp add: sh_ok_def)
  next
    case 3
    then show ?thesis using g by (simp add: sh_ok_def)
  next
    case 4
    then show ?thesis using r u by simp
  next
    case 2
    then show ?thesis using ih [OF Cons.prems(1)] by blast
  next
    case 5
    then show ?thesis using ih [OF u(2)] u(1) by simp
  qed
qed (simp add: sh_ok_def)

section \<open>Edits of the client\<close>

lemma enqueue_ok:
  assumes "loads blake (sh_confirmed s)" and "loads blake x" and "list_all (\<lambda>e. intention_ok (en_intention e)) (sh_pending s)"
    and "\<forall>n. record_ok (sh_records s n)" and "intention_ok i" and "intends blake d i ops x" and "sh_optimistic s = x"
    and "is_clean s \<longrightarrow> chain blake (sh_confirmed s) (map edit (sh_pending s)) d"
  shows "sh_ok blake (enqueue_entry i ops og r s)"
proof -
  obtain opId s1 where m: "mintOpId s = (opId, s1)" by (rule prod.exhaust)
  define t where "t = s1\<lparr>sh_pending := sh_pending s1 @ [\<lparr>en_ref = sh_next s1, en_opId = opId, en_intention = i, en_origin = og,
      en_predicted = toWirePatch ops, en_attempts = [], en_record = r\<rparr>], sh_next := Suc (sh_next s1)\<rparr>"
  have s1: "view s1 = view s" "sh_records s1 = sh_records s" "control s1 = control s" "sh_pending s1 = sh_pending s"
    using m by (auto simp: mintOpId_def Let_def view_def control_def)
  have t: "sh_confirmed t = sh_confirmed s" "sh_optimistic t = x" "map edit (sh_pending t) = map edit (sh_pending s) @ [(i, toWirePatch ops)]"
    "list_all (\<lambda>e. intention_ok (en_intention e)) (sh_pending t)" "sh_records t = sh_records s" "control t = control s"
    using s1 assms(3,5,7) by (simp_all add: t_def view_def edit_def control_def)
  have "sh_ok blake t"
    using assms t clean_control [OF t(6)] by (auto simp: sh_ok_def sound_def viewed_def chain_append)
  moreover have "enqueue_entry i ops og r s = pump t" by (simp add: enqueue_entry_def m t_def Let_def)
  ultimately show ?thesis using keeps_ok [OF keeps_pump] by simp
qed

text \<open>The state a planned command leaves before it is queued.\<close>

definition planned_state :: "command_plan \<Rightarrow> shared \<Rightarrow> shared" where
  "planned_state pl s =
     (let undo = sh_undo s @ [sh_next s]
      in s\<lparr>sh_records := (sh_records s)(sh_next s := \<lparr>hr_forward = pl_redo pl, hr_inverse = pl_inverse pl\<rparr>),
           sh_next := Suc (sh_next s), sh_retained := sh_retained s \<union> changedResources (sh_optimistic s) (pl_document pl),
           sh_optimistic := pl_document pl, sh_undo := (if length undo > sh_maxUndo s then tl undo else undo), sh_redo := []\<rparr>)"

lemma planned_state_simps [simp]:
  "sh_confirmed (planned_state pl s) = sh_confirmed s" "sh_optimistic (planned_state pl s) = pl_document pl"
  "sh_pending (planned_state pl s) = sh_pending s" "control (planned_state pl s) = control s"
  "sh_confirmedRevision (planned_state pl s) = sh_confirmedRevision s"
  "sh_records (planned_state pl s) = (sh_records s)(sh_next s := \<lparr>hr_forward = pl_redo pl, hr_inverse = pl_inverse pl\<rparr>)"
  by (simp_all add: planned_state_def control_def Let_def)

lemma dispatch_planned:
  assumes "\<not> is_down s" and "planImageDocumentCommand blake (sh_optimistic s)
      (foreign_of_json (spread v [(''actor'', JStr (sh_actorId s))])) = Inr pl"
  shows "snd (shared_dispatch blake clock v s) =
    enqueue_entry (IntendCommand (pl_invocation pl)) (pl_forward pl) (ii_command (pl_invocation pl)) (Some (sh_next s)) (planned_state pl s)"
  using assms by (simp add: shared_dispatch_def new_record_def retainedAdd_def Let_def planned_state_def)

lemma dispatch_ok:
  assumes "sh_ok blake s" and "wf_json v"
  shows "sh_ok blake (snd (shared_dispatch blake clock v s))"
proof (cases "\<exists>pl. \<not> is_down s \<and> planImageDocumentCommand blake (sh_optimistic s)
      (foreign_of_json (spread v [(''actor'', JStr (sh_actorId s))])) = Inr pl")
  case False
  then show ?thesis using assms(1) by (auto simp: shared_dispatch_def split: sum.splits)
next
  case True
  then obtain pl where up: "\<not> is_down s" and pl: "planImageDocumentCommand blake (sh_optimistic s)
      (foreign_of_json (spread v [(''actor'', JStr (sh_actorId s))])) = Inr pl" by blast
  have so: "sound blake s" using assms(1) by (simp add: sh_ok_def)
  then have l: "loads blake (sh_optimistic s)" by (simp add: sound_def)
  have "wf_json (spread v [(''actor'', JStr (sh_actorId s))])" using wf_spread [OF assms(2)] by (simp add: proto_key_def)
  then have h: "heap_ok (fst (foreign_of_json (spread v [(''actor'', JStr (sh_actorId s))])))" by (rule foreign_of_json_denotes(2))
  note again = plan_again [OF h pl]
  have rp: "record_ok \<lparr>hr_forward = pl_redo pl, hr_inverse = pl_inverse pl\<rparr>"
    using plan_replayable [OF l h pl] by (simp add: record_ok_def)
  have ld: "loads blake (pl_document pl)" using plan_spec [OF l h pl] by blast
  let ?t = "planned_state pl s"
  have rs: "\<forall>n. record_ok (sh_records ?t n)" using so rp by (simp add: sound_def)
  have "sh_ok blake (enqueue_entry (IntendCommand (pl_invocation pl)) (pl_forward pl) og r ?t)" for og r
  proof (rule enqueue_ok)
    show "intends blake (sh_optimistic s) (IntendCommand (pl_invocation pl)) (pl_forward pl) (pl_document pl)"
      using again(1) by (simp add: intends_def)
    show "is_clean ?t \<longrightarrow> chain blake (sh_confirmed ?t) (map edit (sh_pending ?t)) (sh_optimistic s)"
      using assms(1) clean_control [of ?t s] by (simp add: sh_ok_def viewed_def)
    show "\<forall>n. record_ok (sh_records ?t n)" by (rule rs)
  qed (use so ld again(2) in \<open>simp_all add: sound_def intention_ok_def\<close>)
  then show ?thesis using dispatch_planned [OF up pl] by simp
qed

lemma replay_history_ok:
  assumes "sh_ok blake s"
  shows "sh_ok blake (snd (replay_history blake b s))"
proof (cases "stack_of b s = []")
  case False
  define n where "n = last (stack_of b s)"
  define ops where "ops = (if b then hr_inverse (sh_records s n) else hr_forward (sh_records s n))"
  define p where "p = pop_stack b s"
  have so: "sound blake s" using assms by (simp add: sh_ok_def)
  have p: "sh_ok blake p" "sh_optimistic p = sh_optimistic s" "sh_records p = sh_records s"
    using keeps_ok [OF keeps_pop assms] by (simp_all add: p_def pop_stack_def)
  have oe: "(if b then hr_inverse (sh_records p n) else hr_forward (sh_records p n)) = ops" using p(3) by (simp add: ops_def)
  have rp: "replayable ops" using so by (simp add: ops_def sound_def record_ok_def)
  show ?thesis
  proof (cases "\<exists>x applied. replayImageHistory blake (sh_optimistic s) ops = Some (x, applied, None)")
    case True
    then obtain x applied where x: "replayImageHistory blake (sh_optimistic s) ops = Some (x, applied, None)" by blast
    have r: "applied = ops" "loads blake x"
      using replayImageHistory_done [OF _ rp x] so by (simp_all add: sound_def)
    define t where "t = push_stack (\<not> b) n (p\<lparr>sh_optimistic := x\<rparr>)"
    have t: "sh_confirmed t = sh_confirmed p" "sh_optimistic t = x" "sh_pending t = sh_pending p" "control t = control p"
      "sh_records t = sh_records p" by (simp_all add: t_def push_stack_def control_def)
    have "sh_ok blake (enqueue_entry (IntendPatch ops) ops og rr t)" for og rr
    proof (rule enqueue_ok)
      show "intends blake (sh_optimistic s) (IntendPatch ops) ops x" using x r(1) by (simp add: intends_def)
      show "is_clean t \<longrightarrow> chain blake (sh_confirmed t) (map edit (sh_pending t)) (sh_optimistic s)"
        using p clean_control [OF t(4)] t by (simp add: sh_ok_def viewed_def)
    qed (use t p r rp in \<open>simp_all add: sh_ok_def sound_def intention_ok_def\<close>)
    moreover have "snd (replay_history blake b s) =
        enqueue_entry (IntendPatch ops) applied (if b then ''image.undo'' else ''image.redo'') (Some n) t"
      using False x p(2) unfolding replay_history_def Let_def n_def [symmetric] p_def [symmetric] oe by (simp add: t_def)
    ultimately show ?thesis using r(1) by simp
  next
    case no: False
    have "snd (replay_history blake b s) = tell (NotifyConflict (if b then ''image.undo'' else ''image.redo'')) p"
      using False no p(2) unfolding replay_history_def Let_def n_def [symmetric] p_def [symmetric] oe
      by (auto split: option.splits prod.splits)
    then show ?thesis using keeps_ok [OF keeps_tell p(1)] by simp
  qed
qed (use assms in \<open>simp add: replay_history_def\<close>)

section \<open>Catching up\<close>

lemma sync_page_ok:
  assumes "sh_ok blake s" and "\<And>ops. r = Some (PageOps ops) \<Longrightarrow> list_all (\<lambda>x. heap_ok (fst (foreign_of_json (op_patch x)))) ops"
  shows "sh_ok blake (sync_page blake r s)"
proof (cases "sh_sync s = SyncPaging")
  case True
  have loop: "sh_ok blake (sync_loop t)" if "sh_ok blake t" "sh_sync t = SyncPaging" for t
    using keeps_ok [OF keeps_sync_loop that(1)] that(2) by simp
  show ?thesis
  proof (cases r)
    case None
    then show ?thesis using True keeps_ok [OF keeps_updates(7) assms(1)] by (simp add: sync_page_def)
  next
    case (Some pg)
    show ?thesis
    proof (cases pg)
      case PageResync
      then show ?thesis using True Some loop [OF keeps_ok [OF keeps_updates(6) assms(1)]] by (simp add: sync_page_def)
    next
      case (PageOps ops)
      obtain e t where i: "ingest_page blake ops False s = (e, t)" by (rule prod.exhaust)
      have "list_all (\<lambda>x. heap_ok (fst (foreign_of_json (op_patch x)))) ops" using assms(2) Some PageOps by simp
      note pg = page_ok [OF assms(1) this i]
      have "sh_ok blake (t\<lparr>sh_sync := SyncCaught\<rparr>)" using pg by (simp add: sh_ok_def sound_def is_clean_def)
      moreover have "sh_ok blake (t\<lparr>sh_sync := SyncWaiting\<rparr>)" if "sh_ok blake t"
        using keeps_ok [OF _ that, of "t\<lparr>sh_sync := SyncWaiting\<rparr>"] pg True by (simp add: keeps_defs)
      moreover have "sh_ok blake (sync_loop t)" if "sh_ok blake t" using loop [OF that] pg True by simp
      ultimately show ?thesis using True Some PageOps i pg by (cases e) (simp_all add: sync_page_def)
    qed
  qed
qed (use assms(1) in \<open>simp add: sync_page_def\<close>)

lemma ambiguous_fold:
  "sh_records (fold (\<lambda>e t. tell (NotifyConflict (en_origin e)) (drop_record (en_record e) t)) es s) = sh_records s \<and>
   sh_pending (fold (\<lambda>e t. tell (NotifyConflict (en_origin e)) (drop_record (en_record e) t)) es s) = sh_pending s"
proof (induction es arbitrary: s)
  case (Cons e es)
  have "sh_records (tell c (drop_record r s)) = sh_records s \<and> sh_pending (tell c (drop_record r s)) = sh_pending s" for c r
    by (simp add: tell_def drop_record_def removeHistory_def split: option.splits)
  then show ?case using Cons.IH by simp
qed simp

lemma take_snapshot_ok:
  assumes "sound blake s" and "loads blake d"
  shows "sound blake (take_snapshot blake r d s) \<and> viewed blake (take_snapshot blake r d s)"
proof -
  have "list_all (\<lambda>e. intention_ok (en_intention e)) (filter p (sh_pending s))" for p
    using assms(1) by (auto simp: sound_def list_all_iff)
  then show ?thesis
    unfolding take_snapshot_def Let_def
    using assms by (intro conjI; intro rebase_ok [THEN conjunct1] rebase_ok [THEN conjunct2, THEN conjunct1])
      (simp_all add: ambiguous_fold sound_def)
qed

lemma sync_snapshot_ok:
  assumes "sh_ok blake s" and "\<And>rev raw. r = Some (rev, raw) \<Longrightarrow> heap_ok (fst (foreign_of_json raw))"
  shows "sh_ok blake (sync_snapshot blake r s)"
proof -
  have c: "sh_ok blake (s\<lparr>sh_sync := SyncCaught\<rparr>)" using keeps_ok [OF keeps_updates(7) assms(1)] .
  have v: "sh_ok blake (sync_loop t)" if "sound blake t \<and> viewed blake t" for t
  proof -
    have "view (sync_loop t) = view t \<and> sh_records (sync_loop t) = sh_records t" by (simp add: sync_loop_def view_def tell_def)
    then show ?thesis using ok_view [of "sync_loop t" t] that by simp
  qed
  have "sh_ok blake (sync_loop (take_snapshot blake n d s))" if "loadedDocument blake (foreign_of_json raw) = Some d" "r = Some (rev, raw)" for n d raw rev
    using v [OF take_snapshot_ok] loadedDocument_loads [OF assms(2) [OF that(2)] that(1)] assms(1) by (simp add: sh_ok_def)
  then show ?thesis using c assms(1) unfolding sync_snapshot_def
    by (cases r) (simp_all split: option.splits prod.splits)
qed

section \<open>Every step\<close>

definition message_ok :: "shared_event \<Rightarrow> bool" where
  "message_ok ev \<longleftrightarrow>
     event_ok (\<lambda>x. heap_ok (fst (foreign_of_json (op_patch x)))) (\<lambda>r raw. heap_ok (fst (foreign_of_json raw))) ev \<and>
     (case ev of ClientDispatch clock v \<Rightarrow> wf_json v | _ \<Rightarrow> True)"

lemma handleEvent_ok:
  assumes "sh_ok blake s" and "\<And>x. e = OpArrived x \<Longrightarrow> heap_ok (fst (foreign_of_json (op_patch x)))"
  shows "sh_ok blake (handleEvent blake e s)"
proof (cases e)
  case (Connected j)
  have "keeps s (s\<lparr>sh_connected := True, sh_lastSnapshot := n\<rparr>)" for n by (simp add: keeps_defs)
  then have u: "sh_ok blake (s\<lparr>sh_connected := True, sh_lastSnapshot := n\<rparr>)" for n using keeps_ok assms(1) by blast
  show ?thesis
    using Connected assms(1) keeps_ok [OF keeps_fail assms(1)] u keeps_ok [OF keeps_requestCatchUp u]
    by (simp add: handleEvent_def Let_def)
next
  case SessionClosed
  then show ?thesis using assms(1) keeps_ok [OF keeps_close keeps_ok [OF keeps_updates(2) assms(1)]] by (simp add: handleEvent_def)
next
  case Disconnected
  then show ?thesis using assms(1) keeps_ok [OF keeps_updates(2) assms(1)] by (simp add: handleEvent_def)
next
  case (OpArrived x)
  then show ?thesis
    using assms handle_ok [OF assms(1), of x] keeps_ok [OF keeps_requestResync assms(1)] by (simp add: handleEvent_def)
qed (use assms(1) keeps_ok [OF keeps_tell assms(1)] in \<open>simp_all add: handleEvent_def\<close>)

lemma pump_posted_ok:
  assumes "sh_ok blake s" and "\<And>x. r = PostAccepted x \<Longrightarrow> heap_ok (fst (foreign_of_json (op_patch x)))"
  shows "sh_ok blake (pump_posted blake r s)"
proof -
  note k = keeps_ok [OF _ assms(1)]
  have e: "sh_ok blake (t\<lparr>sh_pump := p\<rparr>)" if "sh_ok blake t" for t p using keeps_ok [OF keeps_updates(1) that] .
  have "sh_ok blake (pump_loop (handleServerOp blake x s))" if "r = PostAccepted x" for x
    using keeps_ok [OF keeps_pump_loop handle_ok [OF assms(1) assms(2) [OF that]]] .
  moreover have "sh_ok blake (tell c (s\<lparr>sh_pump := p\<rparr>))" for c p using keeps_ok [OF keeps_tell e [OF assms(1)]] .
  moreover have "sh_ok blake (requestCatchUp c (retract n a s))" for c n a using k [OF keeps_trans [OF keeps_retract keeps_requestCatchUp]] .
  ultimately show ?thesis
    using assms(1) e k [OF keeps_requestResync] k [OF keeps_requestCatchUp] k [OF keeps_fail]
    by (simp add: pump_posted_def split: pump_pc.splits post_reply.splits)
qed

lemma step_ok:
  assumes "sh_ok blake s" and "message_ok ev"
  shows "sh_ok blake (shared_step blake ev s)"
proof -
  note k = keeping [THEN keeps_ok, OF assms(1)]
  have m: "event_ok (\<lambda>x. heap_ok (fst (foreign_of_json (op_patch x)))) (\<lambda>r raw. heap_ok (fst (foreign_of_json raw))) ev"
    using assms(2) by (simp add: message_ok_def)
  show ?thesis
  proof (cases ev)
    case (ClientDispatch clock v)
    then show ?thesis using assms(2) dispatch_ok [OF assms(1)] by (simp add: shared_step_def message_ok_def)
  next
    case (FromConnection e)
    then have "heap_ok (fst (foreign_of_json (op_patch x)))" if "e = OpArrived x" for x using m that by simp
    then show ?thesis using FromConnection handleEvent_ok [OF assms(1)] by (simp add: shared_step_def)
  next
    case (PumpPosted r)
    then have "heap_ok (fst (foreign_of_json (op_patch x)))" if "r = PostAccepted x" for x using m that by simp
    then show ?thesis using PumpPosted pump_posted_ok [OF assms(1)] by (simp add: shared_step_def)
  next
    case (SyncSnapshot r)
    then have "heap_ok (fst (foreign_of_json raw))" if "r = Some (rev, raw)" for rev raw using m that by simp
    then show ?thesis using SyncSnapshot sync_snapshot_ok [OF assms(1)] by (simp add: shared_step_def)
  next
    case (SyncPage r)
    then have "list_all (\<lambda>x. heap_ok (fst (foreign_of_json (op_patch x)))) ops" if "r = Some (PageOps ops)" for ops using m that by simp
    then show ?thesis using SyncPage sync_page_ok [OF assms(1)] by (simp add: shared_step_def)
  qed (use assms(1) replay_history_ok [OF assms(1)] k in \<open>simp_all add: shared_step_def\<close>)
qed

lemma run_ok: "sh_ok blake s \<Longrightarrow> list_all message_ok events \<Longrightarrow> sh_ok blake (shared_run blake events s)"
  unfolding shared_run_def by (induction events arbitrary: s) (simp_all add: step_ok)

lemma new_shared_ok:
  assumes "heap_ok (fst (foreign_of_json snapshot))" and "new_shared blake actor session nonce maxUndo snapshot revision = Inr s"
  shows "sh_ok blake s \<and> loadedDocument blake (foreign_of_json snapshot) = Some (sh_confirmed s) \<and>
    sh_confirmedRevision s = revision_of (Some revision)"
proof -
  from assms(2) have d: "loadedDocument blake (foreign_of_json snapshot) = Some (sh_confirmed s)" "sh_optimistic s = sh_confirmed s"
    "sh_pending s = []" "sh_records s = (\<lambda>_. \<lparr>hr_forward = [], hr_inverse = []\<rparr>)" "sh_confirmedRevision s = revision_of (Some revision)"
    unfolding new_shared_def Let_def by (auto split: if_split_asm option.split_asm)
  then show ?thesis
    using loadedDocument_loads [OF assms(1) d(1)] by (simp add: sh_ok_def sound_def viewed_def record_ok_def replayable_def)
qed

end
