(* ===== verification/SharedImageLaws.thy ===== *)
theory SharedImageLaws
  imports SharedSteps
begin

text \<open>
  What a shared session promises: it converges to the server's document, it shows its pending edits on top of it,
  and a server that accepts its posts confirms every edit without changing what is shown.
\<close>

section \<open>The confirmed document\<close>

text \<open>The server's documents: its patches, one per revision, applied in order.\<close>

primrec server_doc :: "(nat list \<Rightarrow> string) \<Rightarrow> json \<Rightarrow> (nat \<Rightarrow> json) \<Rightarrow> nat \<Rightarrow> json option" where
  "server_doc blake base feed 0 = Some base"
| "server_doc blake base feed (Suc n) = Option.bind (server_doc blake base feed n) (\<lambda>d. applyWire blake d (feed (Suc n)))"

definition op_of_feed :: "(nat \<Rightarrow> json) \<Rightarrow> json \<Rightarrow> bool" where
  "op_of_feed feed operation \<longleftrightarrow> op_patch operation = feed (op_revision operation)"

definition snapshot_of_feed :: "(nat list \<Rightarrow> string) \<Rightarrow> json \<Rightarrow> (nat \<Rightarrow> json) \<Rightarrow> json \<Rightarrow> json \<Rightarrow> bool" where
  "snapshot_of_feed blake base feed revision raw \<longleftrightarrow>
     loadedDocument blake (foreign_of_json raw) = server_doc blake base feed (revision_of (Some revision))"

interpretation loading: confirmed_property blake "\<lambda>d r. loads blake d" "\<lambda>x. heap_ok (fst (foreign_of_json (op_patch x)))"
    "\<lambda>r raw. heap_ok (fst (foreign_of_json raw))" for blake
  using applyWire_loads loadedDocument_loads by unfold_locales blast+

interpretation following: confirmed_property blake "\<lambda>d r. server_doc blake base feed r = Some d" "op_of_feed feed"
    "snapshot_of_feed blake base feed" for blake base feed
  by unfold_locales (simp_all add: op_of_feed_def snapshot_of_feed_def)

section \<open>The pending edits on top\<close>

fun apply_pending :: "json \<Rightarrow> entry list \<Rightarrow> json option" where
  "apply_pending d [] = Some d"
| "apply_pending d (e # es) =
     Option.bind (result_option (apply_batch d 0 (items_of (Some (en_predicted e))))) (\<lambda>x. apply_pending x es)"

lemma chain_edits: "chain blake d (map edit (e # es)) x \<longleftrightarrow>
    (\<exists>ops y. intends blake d (en_intention e) ops y \<and> en_predicted e = toWirePatch ops \<and> chain blake y (map edit es) x)"
  unfolding list.map edit_def [of e] chain.simps by (rule refl)

lemma chain_pending:
  "chain blake d (map edit es) x \<Longrightarrow> loads blake d \<Longrightarrow> list_all (\<lambda>e. intention_ok (en_intention e)) es \<Longrightarrow>
     apply_pending d es = Some x"
proof (induction es arbitrary: d)
  case (Cons e es)
  then obtain ops y where y: "intends blake d (en_intention e) ops y" "en_predicted e = toWirePatch ops"
    "chain blake y (map edit es) x" unfolding chain_edits by blast
  then have a: "applyOwnedOps d ops = Inr y" "loads blake y" using intends_applies [OF Cons.prems(2) _ y(1)] Cons.prems(3) by auto
  have "apply_batch d 0 (items_of (Some (en_predicted e))) = Inr y"
    using apply_unwire_all [OF a(1)] y(2) by (simp add: toWirePatch_def apply_wire_batch)
  then show ?case using Cons.IH [OF y(3) a(2)] Cons.prems(3) by simp
qed simp

section \<open>A server that accepts\<close>

definition echo_of :: "shared \<Rightarrow> json" where
  "echo_of s =
     (case sh_pump s of
        PumpPosting ref a fresh \<Rightarrow>
          JObj [(''opId'', JStr (at_opId a)), (''actorId'', JStr (sh_actorId s)), (''baseRevision'', JNum (of_nat (at_baseRevision a))),
                (''revision'', JNum (of_nat (at_baseRevision a + 1))), (''patch'', at_patch a), (''timestamp'', JNum 0)]
      | _ \<Rightarrow> JNull)"

definition accept :: "(nat list \<Rightarrow> string) \<Rightarrow> shared \<Rightarrow> shared" where
  "accept blake s = shared_step blake (PumpPosted (PostAccepted (echo_of s))) s"

text \<open>A patch the protocol can carry: of its shape, and within the budget of one value.\<close>

definition deliverable :: "json \<Rightarrow> bool" where
  "deliverable p \<longleftrightarrow> validateCollabWirePatchShape (Some p) = None \<and> in_budget (default_limits True) p"

definition conflicts :: "shared \<Rightarrow> call list" where
  "conflicts s = filter (\<lambda>c. case c of NotifyConflict origin \<Rightarrow> True | _ \<Rightarrow> False) (sh_out s)"

definition next_attempt :: "shared \<Rightarrow> entry \<Rightarrow> attempt" where
  "next_attempt s e = \<lparr>at_opId = en_opId e, at_baseRevision = sh_confirmedRevision s, at_patch = en_predicted e\<rparr>"

definition draining :: "(nat list \<Rightarrow> string) \<Rightarrow> shared \<Rightarrow> bool" where
  "draining blake s \<longleftrightarrow> sh_status s = ShLive \<and> sh_sync s = SyncIdle \<and> isValidActorId (sh_actorId s) \<and>
     (case sh_pending s of
        [] \<Rightarrow> sh_pump s = PumpEnding
      | e # es \<Rightarrow> sh_pump s = PumpPosting (en_ref e) (next_attempt s e) True \<and> en_attempts e = [next_attempt s e] \<and>
          list_all (\<lambda>f. en_attempts f = []) es) \<and>
     list_all (\<lambda>e. en_opId e \<noteq> [] \<and> intention_ok (en_intention e)) (sh_pending s) \<and>
     loads blake (sh_confirmed s) \<and> viewed blake s"

lemma intends_reapply:
  assumes "intends blake d (en_intention e) ops x"
  shows "\<exists>r. reapply blake d e s = Some (ops, x, s\<lparr>sh_records := r\<rparr>)"
proof (cases "en_intention e")
  case (IntendCommand v)
  then show ?thesis using assms by (cases "en_record e") (auto simp: intends_def reapply_def set_record_def intro: exI [of _ "sh_records s"])
next
  case (IntendPatch q)
  then show ?thesis using assms by (auto simp: intends_def reapply_def intro: exI [of _ "sh_records s"])
qed

lemma mint_nonempty: "mintOpId s = (i, t) \<Longrightarrow> i \<noteq> [] \<and> t = s\<lparr>sh_opCounter := Suc (sh_opCounter s)\<rparr>"
  by (auto simp: mintOpId_def Let_def)

text \<open>Entries that are planned again on the documents they were planned on stay as they are.\<close>

lemma rebase_same:
  assumes "chain blake d (map edit es) x" and "list_all (\<lambda>f. en_attempts f = []) es"
  shows "\<exists>es' r n. rebase_entries blake es d s = (es', x, s\<lparr>sh_records := r, sh_opCounter := n\<rparr>) \<and> map edit es' = map edit es \<and>
    list_all (\<lambda>f. en_attempts f = [] \<and> en_opId f \<noteq> []) es'"
  using assms
proof (induction es arbitrary: d s)
  case Nil
  show ?case by (rule exI [of _ "[]"], rule exI [of _ "sh_records s"], rule exI [of _ "sh_opCounter s"]) (use Nil in simp)
next
  case (Cons e es)
  then obtain ops y where y: "intends blake d (en_intention e) ops y" "en_predicted e = toWirePatch ops"
    "chain blake y (map edit es) x" unfolding chain_edits by blast
  obtain r where r: "reapply blake d e s = Some (ops, y, s\<lparr>sh_records := r\<rparr>)" using intends_reapply [OF y(1)] by blast
  obtain i s2 where m: "mintOpId (s\<lparr>sh_records := r\<rparr>) = (i, s2)" by (rule prod.exhaust)
  note mi = mint_nonempty [OF m]
  obtain es' r' n where ih: "rebase_entries blake es y s2 = (es', x, s2\<lparr>sh_records := r', sh_opCounter := n\<rparr>)"
    "map edit es' = map edit es" "list_all (\<lambda>f. en_attempts f = [] \<and> en_opId f \<noteq> []) es'"
    using Cons.IH [OF y(3), of s2] Cons.prems(2) by force
  define e' where "e' = e\<lparr>en_opId := i, en_predicted := toWirePatch ops, en_attempts := []\<rparr>"
  have "rebase_entries blake (e # es) d s = (e' # es', x, s\<lparr>sh_records := r', sh_opCounter := n\<rparr>)"
    using r m ih(1) mi Cons.prems(2) by (simp add: e'_def)
  moreover have "map edit (e' # es') = map edit (e # es)" using ih(2) y(2) by (simp add: edit_def [of e'] edit_def [of e]) (simp add: e'_def)
  moreover have "list_all (\<lambda>f. en_attempts f = [] \<and> en_opId f \<noteq> []) (e' # es')" using ih(3) mi by (simp add: e'_def)
  ultimately show ?case by blast
qed

lemma echo_valid:
  assumes "sh_pump s = PumpPosting ref a b" and "isValidActorId (sh_actorId s)" and "at_opId a \<noteq> []"
    and "of_nat (at_baseRevision a + 1) \<le> max_safe_integer" and "validateCollabWirePatchShape (Some (at_patch a)) = None"
  shows "validateCollabServerOp (echo_of s) = None" and "op_revision (echo_of s) = at_baseRevision a + 1"
    and "op_patch (echo_of s) = at_patch a" and "op_opId (echo_of s) = at_opId a" and "op_base (echo_of s) = at_baseRevision a"
    and "op_actorId (echo_of s) = sh_actorId s"
proof -
  have n: "nat \<lfloor>1 + (of_nat m :: rat)\<rfloor> = Suc m" for m by (metis Suc_eq_plus1_left floor_of_nat nat_int of_nat_Suc)
  have "\<bar>of_nat (at_baseRevision a)\<bar> \<le> max_safe_integer" "\<bar>1 + of_nat (at_baseRevision a)\<bar> \<le> max_safe_integer"
    using assms(4) by simp_all
  moreover have "is_integer (1 + of_nat (at_baseRevision a))" by (metis is_integer_of_nat of_nat_Suc)
  ultimately show "validateCollabServerOp (echo_of s) = None"
    using assms by (simp add: validateCollabServerOp_def echo_of_def field_def valid_actor_def isValidCollabRevision_def is_safe_integer_def)
  show "op_revision (echo_of s) = at_baseRevision a + 1" "op_patch (echo_of s) = at_patch a" "op_opId (echo_of s) = at_opId a"
    "op_base (echo_of s) = at_baseRevision a" "op_actorId (echo_of s) = sh_actorId s"
    using assms(1) n by (simp_all add: echo_of_def op_revision_def op_patch_def op_opId_def op_base_def op_actorId_def revision_of_def
        field_def present_def)
qed

lemma pump_loop_posts:
  assumes "sh_status s = ShLive" and "sh_sync s = SyncIdle" and "list_all (\<lambda>f. en_attempts f = [] \<and> en_opId f \<noteq> []) (sh_pending s)"
    and "isValidActorId (sh_actorId s)" and "list_all (\<lambda>e. intention_ok (en_intention e)) (sh_pending s)"
    and "loads blake (sh_confirmed s)" and "viewed blake s"
  shows "draining blake (pump_loop s) \<and> view (pump_loop s) = view s \<and> conflicts (pump_loop s) = conflicts s \<and>
    sh_confirmedRevision (pump_loop s) = sh_confirmedRevision s"
proof -
  have v: "view (pump_loop s) = view s" using keeps_pump_loop by (simp add: keeps_def)
  have g: "ground (pump_loop s) = ground s" by simp
  have "draining blake (pump_loop s)"
  proof (cases "sh_pending s")
    case Nil
    then show ?thesis using assms by (simp add: pump_loop_def draining_def viewed_def)
  next
    case (Cons e es)
    define e' where "e' = e\<lparr>en_attempts := [next_attempt s e]\<rparr>"
    have l: "pump_loop s = tell (PostOp (en_opId e) (sh_confirmedRevision s) (en_predicted e))
        (s\<lparr>sh_pending := e' # es, sh_pump := PumpPosting (en_ref e) (next_attempt s e) True\<rparr>)"
      using Cons assms(1-3) by (simp add: pump_loop_def syncing_def Let_def e'_def next_attempt_def)
    have "viewed blake (pump_loop s)" using v assms(7) by (simp add: view_def viewed_def)
    then show ?thesis
      using assms Cons unfolding draining_def l by (simp add: tell_def e'_def next_attempt_def) (auto simp: list_all_iff)
  qed
  moreover have "conflicts (pump_loop s) = conflicts s" by (simp add: pump_loop_def conflicts_def tell_def Let_def split: list.splits)
  ultimately show ?thesis using v g by (simp add: ground_def)
qed

lemma intends_wf:
  assumes "loads blake d" and "intention_ok i" and "intends blake d i ops x"
  shows "list_all wf_op ops"
proof (cases i)
  case (IntendCommand v)
  then show ?thesis using plan_forward_wf [OF assms(1) plan_heap] assms(2,3) by (auto simp: intends_def)
next
  case (IntendPatch q)
  then show ?thesis
    using replayImageHistory_done [OF assms(1), of q] assms(2,3) by (simp add: intends_def intention_ok_def replayable_def)
qed

lemma accept_step:
  assumes d: "draining blake s" and p: "sh_pending s = e # es" and del: "deliverable (en_predicted e)"
    and top: "of_nat (Suc (sh_confirmedRevision s)) \<le> max_safe_integer"
  shows "draining blake (accept blake s) \<and> map edit (sh_pending (accept blake s)) = map edit es \<and>
    sh_optimistic (accept blake s) = sh_optimistic s \<and> sh_confirmedRevision (accept blake s) = Suc (sh_confirmedRevision s) \<and>
    conflicts (accept blake s) = conflicts s"
proof -
  let ?op = "echo_of s" and ?a = "next_attempt s e"
  from d p have s: "sh_status s = ShLive" "sh_sync s = SyncIdle" "isValidActorId (sh_actorId s)" "loads blake (sh_confirmed s)"
    and pu: "sh_pump s = PumpPosting (en_ref e) ?a True" "en_attempts e = [?a]" "list_all (\<lambda>f. en_attempts f = []) es"
    and io: "en_opId e \<noteq> []" "intention_ok (en_intention e)" "list_all (\<lambda>e. intention_ok (en_intention e)) es"
    and vw: "chain blake (sh_confirmed s) (map edit (e # es)) (sh_optimistic s)"
    by (auto simp: draining_def viewed_def list_all_iff)
  from vw obtain ops y where y: "intends blake (sh_confirmed s) (en_intention e) ops y" "en_predicted e = toWirePatch ops"
    "chain blake y (map edit es) (sh_optimistic s)" unfolding chain_edits by blast
  have a: "at_opId ?a = en_opId e" "at_baseRevision ?a = sh_confirmedRevision s" "at_patch ?a = en_predicted e"
    by (simp_all add: next_attempt_def)
  note ev = echo_valid [OF pu(1) s(3), unfolded a, OF io(1)]
  have echo: "validateCollabServerOp ?op = None" "op_revision ?op = Suc (sh_confirmedRevision s)" "op_patch ?op = en_predicted e"
    "op_opId ?op = en_opId e" "op_base ?op = sh_confirmedRevision s" "op_actorId ?op = sh_actorId s"
    using ev top del by (simp_all add: deliverable_def)
  note ap = intends_applies [OF s(4) io(2) y(1)]
  have wf: "list_all wf_op ops" using intends_wf [OF s(4) io(2) y(1)] .
  have wire: "applyWire blake (sh_confirmed s) (en_predicted e) = Some y"
    using applyWire_own [of "sh_confirmed s" ops y blake] ap del y(2) wf by (simp add: deliverable_def)
  have att: "is_attempt ?op ?a" using echo jsonSameValue_refl [OF wf_toWirePatch [OF wf]] y(2) by (simp add: is_attempt_def a)
  define u where "u = s\<lparr>sh_confirmed := y, sh_confirmedRevision := Suc (sh_confirmedRevision s), sh_pending := es\<rparr>"
  obtain es' r n where rb: "rebase_entries blake es y u = (es', sh_optimistic s, u\<lparr>sh_records := r, sh_opCounter := n\<rparr>)"
    "map edit es' = map edit es" "list_all (\<lambda>f. en_attempts f = [] \<and> en_opId f \<noteq> []) es'"
    using rebase_same [OF y(3) pu(3), of u] by blast
  define t where "t = tell (NotifyOp ?op (en_origin e)) (u\<lparr>sh_records := r, sh_opCounter := n, sh_pending := es', sh_optimistic := sh_optimistic s\<rparr>)"
  have "rebase blake u = u\<lparr>sh_records := r, sh_opCounter := n, sh_pending := es', sh_optimistic := sh_optimistic s\<rparr>"
    using rb(1) by (simp add: rebase_def u_def)
  moreover have "pending_index ?op (e # es) = 0" using att pu(2) by (simp add: pending_index_def confirms_def)
  ultimately have "ingestOrdered blake ?op s = (True, t)"
    using echo wire p by (simp add: ingestOrdered_def Let_def t_def u_def)
  then have h: "handleServerOp blake ?op s = checkpoint (pump t)" using echo by (simp add: handleServerOp_def)
  have "pump t = t" using pu(1) by (simp add: pump_def t_def u_def tell_def)
  then have acc: "accept blake s = pump_loop (checkpoint t)"
    using h pu(1) s(1) echo att by (simp add: accept_def shared_step_def pump_posted_def is_echo_def)
  have c: "sh_status (checkpoint t) = ShLive" "sh_sync (checkpoint t) = SyncIdle" "sh_pending (checkpoint t) = es'"
    "sh_actorId (checkpoint t) = sh_actorId s" "sh_confirmed (checkpoint t) = y" "sh_optimistic (checkpoint t) = sh_optimistic s"
    "sh_confirmedRevision (checkpoint t) = Suc (sh_confirmedRevision s)" "conflicts (checkpoint t) = conflicts s"
    using s by (simp_all add: checkpoint_def t_def u_def tell_def conflicts_def)
  have "list_all (\<lambda>e. intention_ok (en_intention e)) es'" using io(3) rb(2) unfolding intentions_edit by simp
  note post = pump_loop_posts [of "checkpoint t" blake, unfolded c viewed_def rb(2), OF refl refl rb(3) s(3) this _ y(3)]
  show ?thesis using post ap unfolding acc view_def c rb(2) by simp
qed

primrec accepts :: "(nat list \<Rightarrow> string) \<Rightarrow> nat \<Rightarrow> shared \<Rightarrow> shared" where
  "accepts blake 0 s = s"
| "accepts blake (Suc n) s = accepts blake n (accept blake s)"

lemma accepts_all:
  assumes "draining blake s" and "list_all (\<lambda>p. deliverable (snd p)) (map edit (sh_pending s))"
    and "of_nat (sh_confirmedRevision s + length (sh_pending s)) \<le> max_safe_integer"
    and "t = accepts blake (length (sh_pending s)) s"
  shows "draining blake t \<and> sh_pending t = [] \<and> sh_optimistic t = sh_optimistic s \<and>
    sh_confirmedRevision t = sh_confirmedRevision s + length (sh_pending s) \<and> conflicts t = conflicts s"
  using assms
proof (induction "length (sh_pending s)" arbitrary: s)
  case 0
  then show ?case by simp
next
  case (Suc n)
  let ?u = "accept blake s"
  obtain e es where p: "sh_pending s = e # es" using Suc.hyps(2) by (cases "sh_pending s") simp_all
  have del: "deliverable (en_predicted e)" using Suc.prems(2) unfolding p by (simp add: edit_def)
  have top: "of_nat (Suc (sh_confirmedRevision s)) \<le> max_safe_integer" using Suc.prems(3) unfolding p by simp
  note a = accept_step [OF Suc.prems(1) p del top]
  have n: "n = length es" using Suc.hyps(2) p by simp
  have len: "length (sh_pending ?u) = n" unfolding n using a by (metis length_map)
  have t: "t = accepts blake (length (sh_pending ?u)) ?u" using Suc.prems(4) unfolding len p by (simp add: n)
  have rev: "of_nat (sh_confirmedRevision ?u + length (sh_pending ?u)) \<le> max_safe_integer"
    using Suc.prems(3) a unfolding len p n by (simp add: algebra_simps)
  have "list_all (\<lambda>p. deliverable (snd p)) (map edit (sh_pending ?u))" using Suc.prems(2) a unfolding p by simp
  from Suc.hyps(1) [OF len [symmetric] _ this rev t] a show ?case unfolding len p n by simp
qed

section \<open>A burst of edits\<close>

fun is_edit :: "shared_event \<Rightarrow> bool" where
  "is_edit (ClientDispatch clock v) \<longleftrightarrow> wf_json v"
| "is_edit ClientUndo \<longleftrightarrow> True"
| "is_edit ClientRedo \<longleftrightarrow> True"
| "is_edit ClientClear \<longleftrightarrow> True"
| "is_edit (ClientPresence payload) \<longleftrightarrow> True"
| "is_edit _ \<longleftrightarrow> False"

definition queued :: "shared \<Rightarrow> bool" where
  "queued s \<longleftrightarrow> sh_status s = ShLive \<and> sh_sync s = SyncIdle \<and> \<not> sh_resync s \<and> isValidActorId (sh_actorId s) \<and>
     sh_pump s = (if sh_pending s = [] then PumpIdle else PumpStarting) \<and>
     list_all (\<lambda>f. en_attempts f = [] \<and> en_opId f \<noteq> []) (sh_pending s)"

lemma queued_enqueue:
  assumes "queued s"
  shows "queued (enqueue_entry i ops og r s)"
proof -
  obtain opId t where m: "mintOpId s = (opId, t)" by (rule prod.exhaust)
  show ?thesis
    using assms mint_nonempty [OF m] by (simp add: enqueue_entry_def m Let_def queued_def pump_def syncing_def split: if_splits)
qed

lemma queued_dispatch: "queued s \<Longrightarrow> queued (snd (shared_dispatch blake clock v s))"
  by (auto simp: shared_dispatch_def Let_def new_record_def retainedAdd_def queued_def [of "_ \<lparr>sh_redo := _\<rparr>"]
      split: sum.splits intro!: queued_enqueue) (simp_all add: queued_def)

lemma queued_helpers [simp]:
  "queued (tell c s) \<longleftrightarrow> queued s" "queued (pop_stack b s) \<longleftrightarrow> queued s" "queued (push_stack b n s) \<longleftrightarrow> queued s"
  "queued (s\<lparr>sh_optimistic := x\<rparr>) \<longleftrightarrow> queued s" "queued (shared_clear_history s) \<longleftrightarrow> queued s"
  by (simp_all add: queued_def tell_def pop_stack_def push_stack_def shared_clear_history_def)

lemma queued_replay: "queued s \<Longrightarrow> queued (snd (replay_history blake b s))"
  by (auto simp: replay_history_def Let_def queued_enqueue split: option.splits)

lemma queued_edits: "queued s \<Longrightarrow> list_all is_edit edits \<Longrightarrow> queued (shared_run blake edits s)"
  unfolding shared_run_def
proof (induction edits arbitrary: s)
  case (Cons ev edits)
  have "queued (shared_step blake ev s)"
    using Cons.prems queued_dispatch [OF Cons.prems(1)] queued_replay [OF Cons.prems(1)] by (cases ev) (simp_all add: shared_step_def)
  then show ?case using Cons.IH Cons.prems(2) by simp
qed simp

lemma edits_ok: "list_all is_edit edits \<Longrightarrow> list_all message_ok edits"
proof -
  have "is_edit ev \<Longrightarrow> message_ok ev" for ev by (cases ev) (simp_all add: message_ok_def)
  then show "list_all is_edit edits \<Longrightarrow> list_all message_ok edits" by (auto simp: list_all_iff)
qed

lemma queued_new: "new_shared blake actor session nonce maxUndo snapshot revision = Inr s \<Longrightarrow> queued s"
  unfolding new_shared_def Let_def by (auto simp: queued_def split: if_split_asm option.split_asm)

lemma queued_draining:
  assumes "queued s" and "sh_ok blake s" and "sh_pending s \<noteq> []"
  shows "draining blake (shared_step blake PumpStarts s) \<and> view (shared_step blake PumpStarts s) = view s \<and>
    conflicts (shared_step blake PumpStarts s) = conflicts s \<and>
    sh_confirmedRevision (shared_step blake PumpStarts s) = sh_confirmedRevision s"
proof -
  have "viewed blake s" using assms by (simp add: sh_ok_def queued_def is_clean_def is_down_def)
  then show ?thesis
    using assms pump_loop_posts [of s blake] by (simp add: shared_step_def pump_start_def queued_def sh_ok_def sound_def)
qed

section \<open>A rename in a shared session\<close>

definition demo_shared :: shared where
  "demo_shared = \<lparr>sh_actorId = ''local'', sh_sessionId = ''s'', sh_opNonce = ''n'', sh_maxUndo = 200, sh_status = ShLive,
     sh_confirmed = demo_image CHR ''a'', sh_confirmedRevision = 0, sh_optimistic = demo_image CHR ''a'',
     sh_pending = [], sh_undo = [], sh_redo = [],
     sh_records = (\<lambda>_. \<lparr>hr_forward = [], hr_inverse = []\<rparr>), sh_next = 0, sh_retained = {}, sh_opCounter = 0,
     sh_pump = PumpIdle, sh_sync = SyncIdle, sh_syncTarget = 0, sh_resync = False, sh_connected = False,
     sh_lastSnapshot = 0, sh_checkpoints = [], sh_snapshotReads = 0, sh_out = []\<rparr>"

lemma demo_shared_new:
  "new_shared blake ''local'' ''s'' ''n'' None (demo_image CHR ''a'') (JNum 0) = Inr demo_shared"
proof -
  have "loadedDocument blake (foreign_of_json (demo_image CHR ''a'')) = Some (demo_image CHR ''a'')"
    by (rule loadedDocument_again [OF demo_loads]) simp
  moreover have "isValidActorId ''local''" by (simp add: isValidActorId_def actor_char_def is_lower_def)
  ultimately show ?thesis
    by (simp add: new_shared_def isValidCollabRevision_def is_safe_integer_def max_safe_integer_def revision_of_def demo_shared_def)
qed

lemma demo_image_heap: "heap_ok (fst (foreign_of_json (demo_image CHR ''a'')))"
  using loads_wf [OF demo_loads] foreign_of_json_denotes(2) by blast

definition shared_invocation :: "char \<Rightarrow> image_invocation" where
  "shared_invocation b = \<lparr>ii_command = ''image.layer.update'', ii_params = rename_params b, ii_actor = Some ''local''\<rparr>"

lemma rename_stamped: "spread (rename_invocation b) [(''actor'', JStr ''local'')] = invocation_json (shared_invocation b)"
  by (simp add: spread_def rename_invocation_def invocation_json_def shared_invocation_def)

lemma rename_stamped_wf: "wf_json (rename_invocation b)" "wf_json (invocation_json (shared_invocation b))"
  by (simp_all add: rename_invocation_def rename_params_def invocation_json_def shared_invocation_def proto_key_def wf_json.simps(2))

lemma rename_stamped_decoded: "decodeInvocation (foreign_of_json (invocation_json (shared_invocation b))) = Some (shared_invocation b)"
proof -
  have "in_budget (default_limits True) (invocation_json (shared_invocation b))"
    by (simp add: invocation_json_def shared_invocation_def rename_params_def in_budget_def default_limits_def)
  then have own: "ownJson (default_limits True) (fst (foreign_of_json (invocation_json (shared_invocation b))))
      (snd (foreign_of_json (invocation_json (shared_invocation b)))) = Inr (invocation_json (shared_invocation b))"
    using reown_iff [OF rename_stamped_wf(2)] by (simp add: reown_def)
  have "decode_params ''image.layer.update'' (rename_params b) = Some (rename_params b)"
    by (simp add: decode_params_def rename_params_def exactKeys_def has_string_def)
  moreover have "isValidActorId ''local''" by (simp add: isValidActorId_def actor_char_def is_lower_def)
  ultimately show ?thesis
    unfolding decodeInvocation_def own by (simp add: invocation_json_def shared_invocation_def exactKeys_def)
qed

lemma rename_stamped_plan:
  assumes "b \<noteq> CHR 0x00"
  shows "\<exists>pl. planImageDocumentCommand blake (demo_image a) (foreign_of_json (spread (rename_invocation b) [(''actor'', JStr ''local'')])) = Inr pl \<and>
    pl_document pl = demo_image b \<and> pl_forward pl = rename_ops a b"
proof -
  have "commandPatches (demo_image a) (shared_invocation b) = Some (rename_ops a b, None)"
    using rename_patches [of a b] by (simp add: commandPatches_def shared_invocation_def)
  moreover have "loadImageDocument blake default_load (foreign_of_json (demo_image b)) = (Some (demo_image b), [])"
    by (rule load_again [OF demo_loads [OF assms]])
  ultimately show ?thesis
    by (simp add: rename_stamped planImageDocumentCommand_def rename_stamped_decoded rename_owned rename_applied Let_def)
qed

lemma rename_deliverable: "deliverable (toWirePatch (rename_ops a b))"
  by (simp add: deliverable_def toWirePatch_def rename_ops_def path_json_def validateCollabWirePatchShape_def wire_op_fault_def
      WIRE_PATCH_OPS_def FORBIDDEN_SEGMENTS_def field_def in_budget_def default_limits_def demo_defs)

lemma enqueue_fields:
  "\<exists>e. sh_pending (enqueue_entry i ops og r s) = sh_pending s @ [e] \<and> en_predicted e = toWirePatch ops \<and>
     sh_optimistic (enqueue_entry i ops og r s) = sh_optimistic s \<and> sh_confirmedRevision (enqueue_entry i ops og r s) = sh_confirmedRevision s"
  by (simp add: enqueue_entry_def mintOpId_def pump_def Let_def)

lemma dispatch_fields:
  assumes "\<not> is_down s" and "planImageDocumentCommand blake (sh_optimistic s) (foreign_of_json (spread v [(''actor'', JStr (sh_actorId s))])) = Inr pl"
  shows "\<exists>e. sh_pending (snd (shared_dispatch blake clock v s)) = sh_pending s @ [e] \<and> en_predicted e = toWirePatch (pl_forward pl) \<and>
    sh_optimistic (snd (shared_dispatch blake clock v s)) = pl_document pl \<and>
    sh_confirmedRevision (snd (shared_dispatch blake clock v s)) = sh_confirmedRevision s"
  unfolding dispatch_planned [OF assms]
  using enqueue_fields [of "IntendCommand (pl_invocation pl)" "pl_forward pl" "ii_command (pl_invocation pl)" "Some (sh_next s)" "planned_state pl s"]
  by simp

lemma demo_burst:
  "\<exists>e. sh_pending (shared_run blake [ClientDispatch 0 (rename_invocation CHR ''b'')] demo_shared) = [e] \<and>
     en_predicted e = toWirePatch (rename_ops CHR ''a'' CHR ''b'') \<and>
     sh_optimistic (shared_run blake [ClientDispatch 0 (rename_invocation CHR ''b'')] demo_shared) = demo_image CHR ''b'' \<and>
     sh_confirmedRevision (shared_run blake [ClientDispatch 0 (rename_invocation CHR ''b'')] demo_shared) = 0"
proof -
  obtain pl where pl: "planImageDocumentCommand blake (demo_image CHR ''a'')
      (foreign_of_json (spread (rename_invocation CHR ''b'') [(''actor'', JStr ''local'')])) = Inr pl"
    "pl_document pl = demo_image CHR ''b''" "pl_forward pl = rename_ops CHR ''a'' CHR ''b''" 
    using rename_stamped_plan [of "CHR ''b''" blake "CHR ''a''"] by auto
  have d: "\<not> is_down demo_shared" "sh_optimistic demo_shared = demo_image CHR ''a''" "sh_actorId demo_shared = ''local''"
    "sh_pending demo_shared = []" "sh_confirmedRevision demo_shared = 0" by (simp_all add: demo_shared_def is_down_def)
  have r: "shared_run blake [ClientDispatch 0 (rename_invocation CHR ''b'')] demo_shared =
      snd (shared_dispatch blake 0 (rename_invocation CHR ''b'') demo_shared)" by (simp add: shared_run_def shared_step_def)
  show ?thesis
    using dispatch_fields [OF d(1), of blake "rename_invocation CHR ''b''" pl 0] pl unfolding r d(2-) by simp
qed

definition demo_server_op :: json where
  "demo_server_op = JObj [(''opId'', JStr ''x''), (''actorId'', JStr ''other''), (''baseRevision'', JNum 0), (''revision'', JNum 1),
     (''patch'', toWirePatch (rename_ops CHR ''a'' CHR ''b'')), (''timestamp'', JNum 0)]"

lemma demo_server_op: "validateCollabServerOp demo_server_op = None" "op_revision demo_server_op = 1"
  "op_patch demo_server_op = toWirePatch (rename_ops CHR ''a'' CHR ''b'')" "op_actorId demo_server_op = ''other''"
proof -
  have "isValidActorId ''other''" by (simp add: isValidActorId_def actor_char_def is_lower_def)
  then show "validateCollabServerOp demo_server_op = None"
    using rename_deliverable [of "CHR ''a''" "CHR ''b''"]
    by (simp add: demo_server_op_def validateCollabServerOp_def field_def valid_actor_def isValidCollabRevision_def is_safe_integer_def
        max_safe_integer_def deliverable_def)
  show "op_revision demo_server_op = 1" "op_patch demo_server_op = toWirePatch (rename_ops CHR ''a'' CHR ''b'')"
    "op_actorId demo_server_op = ''other''"
    by (simp_all add: demo_server_op_def op_revision_def op_patch_def op_actorId_def field_def present_def revision_of_def)
qed

lemma demo_arrival:
  "sh_confirmedRevision (shared_run blake [FromConnection (OpArrived demo_server_op)] demo_shared) = 1 \<and>
   sh_confirmed (shared_run blake [FromConnection (OpArrived demo_server_op)] demo_shared) = demo_image CHR ''b''"
proof -
  have w: "applyWire blake (demo_image CHR ''a'') (toWirePatch (rename_ops CHR ''a'' CHR ''b'')) = Some (demo_image CHR ''b'')"
  proof (rule applyWire_own [OF rename_applied])
    show "loads blake (demo_image CHR ''b'')" by (rule demo_loads) simp
    show "list_all wf_op (rename_ops CHR ''a'' CHR ''b'')" by (simp add: rename_ops_def demo_defs proto_key_def wf_json.simps(2))
    show "in_budget (default_limits True) (toWirePatch (rename_ops CHR ''a'' CHR ''b''))" using rename_deliverable by (simp add: deliverable_def)
  qed
  have d: "sh_confirmed demo_shared = demo_image CHR ''a''" "sh_confirmedRevision demo_shared = 0" "sh_pending demo_shared = []"
    "\<not> is_down demo_shared" by (simp_all add: demo_shared_def is_down_def)
  obtain t where t: "ingestOrdered blake demo_server_op demo_shared = (True, t)" "ground t = (demo_image CHR ''b'', 1)"
  proof -
    define u where "u = demo_shared\<lparr>sh_confirmed := demo_image CHR ''b'', sh_confirmedRevision := 1\<rparr>"
    have "ingestOrdered blake demo_server_op demo_shared = (True, tell (NotifyOp demo_server_op ''remote'') (rebase blake u))"
      using d w by (simp add: ingestOrdered_def Let_def demo_server_op u_def pending_index_def)
    moreover have "ground u = (demo_image CHR ''b'', 1)" by (simp add: u_def ground_def)
    ultimately show ?thesis using that by simp
  qed
  have "shared_run blake [FromConnection (OpArrived demo_server_op)] demo_shared = checkpoint (pump t)"
    using t(1) d by (simp add: shared_run_def shared_step_def handleEvent_def demo_server_op handleServerOp_def)
  moreover have "ground (checkpoint (pump t)) = (demo_image CHR ''b'', 1)" using t(2) by simp
  ultimately show ?thesis by (simp add: ground_def)
qed

section \<open>A snapshot that is overtaken\<close>

text \<open>When the server asks for a snapshot, the pump puts the confirmed document; the reply marks the revision that is
  confirmed when it comes. If an operation arrives in between, the mark is one the session has not stored.\<close>

lemma snapshot_mark_overtakes:
  assumes "sh_pump s = PumpPosting ref a b" and "sh_status s = ShLive" and "sound blake s"
    and "heap_ok (fst (foreign_of_json (op_patch operation)))"
    and "ingestOrdered blake operation (pump_posted blake PostSnapshotRequired s) = (True, t)"
  shows "sh_out (pump_posted blake PostSnapshotRequired s) = sh_out s @ [PutSnapshot (sh_confirmedRevision s) (sh_confirmed s)] \<and>
    sh_lastSnapshot (pump_put PutOk t) = sh_confirmedRevision s + 1"
proof -
  define u where "u = pump_posted blake PostSnapshotRequired s"
  have u: "u = tell (PutSnapshot (sh_confirmedRevision s) (sh_confirmed s)) (s\<lparr>sh_pump := PumpPutting\<rparr>)"
    using assms(1,2) by (simp add: u_def pump_posted_def)
  have "keeps s u" unfolding u using keeps_trans [OF keeps_updates(1) keeps_tell] .
  then have "sound blake u" using keeps_sound assms(3) by blast
  note i = ingest_ok [OF this assms(4) assms(5) [folded u_def]]
  have "sh_confirmedRevision t = Suc (sh_confirmedRevision u)"
    using ingest_ground [OF assms(5) [folded u_def]] by (auto simp: ground_def)
  moreover have "sh_pump t = PumpPutting" using i by (simp add: control_def u tell_def)
  moreover have "sh_lastSnapshot (pump_loop v) = sh_lastSnapshot v" for v
    by (simp add: pump_loop_def tell_def Let_def split: list.splits)
  ultimately show ?thesis by (simp add: u_def [symmetric] u tell_def pump_put_def)
qed

section \<open>Properties\<close>

text \<open>C5: sessions converge. Whatever edits, replies, events and failures a session sees, in any order, as long as
  the operations and snapshots that reach it are the server's, its confirmed document is the server's document
  of its confirmed revision. So two sessions at the same revision have the same confirmed document, whatever
  path each took.\<close>

theorem shared_sessions_converge:
  assumes "new_shared blake actor session nonce maxUndo snapshot revision = Inr s"
    and "snapshot_of_feed blake base feed revision snapshot"
    and "heap_ok (fst (foreign_of_json snapshot))"
    and "list_all (event_ok (op_of_feed feed) (snapshot_of_feed blake base feed)) events"
  shows "server_doc blake base feed (sh_confirmedRevision (shared_run blake events s)) = Some (sh_confirmed (shared_run blake events s))"
proof -
  have "following.holds blake base feed s"
    using new_shared_ok [OF assms(3,1)] assms(2) by (simp add: following.holds_def ground_def snapshot_of_feed_def)
  from following.holds_run [OF this assms(4)] show ?thesis by (simp add: following.holds_def ground_def)
qed

theorem shared_sessions_converge_witness:
  "\<exists>s. s = shared_run (\<lambda>_. []) [FromConnection (OpArrived demo_server_op)] demo_shared \<and>
      sh_confirmedRevision s = 1 \<and> sh_confirmed s = demo_image CHR ''b'' \<and>
      server_doc (\<lambda>_. []) (demo_image CHR ''a'') (\<lambda>n. toWirePatch (rename_ops CHR ''a'' CHR ''b'')) 1 = Some (sh_confirmed s)"
proof -
  let ?feed = "\<lambda>n :: nat. toWirePatch (rename_ops CHR ''a'' CHR ''b'')"
  have "loadedDocument (\<lambda>_. []) (foreign_of_json (demo_image CHR ''a'')) = Some (demo_image CHR ''a'')"
    by (rule loadedDocument_again [OF demo_loads]) simp
  then have "snapshot_of_feed (\<lambda>_. []) (demo_image CHR ''a'') ?feed (JNum 0) (demo_image CHR ''a'')"
    by (simp add: snapshot_of_feed_def revision_of_def)
  note c = shared_sessions_converge [OF demo_shared_new this demo_image_heap, of "[FromConnection (OpArrived demo_server_op)]"]
  have "op_of_feed ?feed demo_server_op" using demo_server_op(2,3) by (simp add: op_of_feed_def)
  then show ?thesis using c demo_arrival [of "\<lambda>_. []"] by simp
qed

text \<open>C1: what a session shows. After any run, with any operations and snapshots, both documents of the session
  load; and unless the session waits for a snapshot or is down, the shown document is the confirmed one with the
  pending edits' patches, as they go to the server, applied in order.\<close>

theorem shared_view_is_pending_on_confirmed:
  assumes "new_shared blake actor session nonce maxUndo snapshot revision = Inr s0"
    and "heap_ok (fst (foreign_of_json snapshot))" and "list_all message_ok events" and "s = shared_run blake events s0"
  shows "loads blake (sh_confirmed s) \<and> loads blake (sh_optimistic s) \<and>
    (is_clean s \<longrightarrow> apply_pending (sh_confirmed s) (sh_pending s) = Some (sh_optimistic s))"
proof -
  have ok: "sh_ok blake s" using run_ok [OF new_shared_ok [OF assms(2,1), THEN conjunct1] assms(3)] assms(4) by simp
  then show ?thesis
    using chain_pending [of blake "sh_confirmed s" "sh_pending s" "sh_optimistic s"] by (simp add: sh_ok_def sound_def viewed_def)
qed

theorem shared_view_is_pending_on_confirmed_witness:
  "\<exists>s. s = shared_run (\<lambda>_. []) [ClientDispatch 0 (rename_invocation CHR ''b'')] demo_shared \<and> sh_pending s \<noteq> [] \<and>
     loads (\<lambda>_. []) (sh_optimistic s)"
proof -
  have "list_all message_ok [ClientDispatch 0 (rename_invocation CHR ''b'')]" by (simp add: message_ok_def rename_stamped_wf)
  from shared_view_is_pending_on_confirmed [OF demo_shared_new demo_image_heap this refl] demo_burst [of "\<lambda>_. []"]
  show ?thesis by fastforce
qed

text \<open>C6: edits get confirmed. After any burst of edits, undos and redos, a server that accepts what the pump posts
  empties the queue with exactly as many replies as there are pending edits: the confirmed document is then the one
  the session showed after the burst, what it shows never changed, the revision has advanced by one per edit, the
  session is live, and no conflict was reported. The patches must fit the protocol's messages and the revisions the
  safe integers.\<close>

theorem burst_gets_confirmed:
  assumes "new_shared blake actor session nonce maxUndo snapshot revision = Inr s0"
    and "heap_ok (fst (foreign_of_json snapshot))" and "list_all is_edit edits" and "s = shared_run blake edits s0"
    and "sh_pending s \<noteq> []" and "list_all (\<lambda>e. deliverable (en_predicted e)) (sh_pending s)"
    and "of_nat (sh_confirmedRevision s + length (sh_pending s)) \<le> max_safe_integer"
    and "t = accepts blake (length (sh_pending s)) (shared_step blake PumpStarts s)"
  shows "sh_pending t = [] \<and> sh_confirmed t = sh_optimistic s \<and> sh_optimistic t = sh_optimistic s \<and>
    sh_confirmedRevision t = sh_confirmedRevision s + length (sh_pending s) \<and> sh_status t = ShLive \<and> conflicts t = conflicts s"
proof -
  let ?p = "shared_step blake PumpStarts s"
  have "sh_ok blake s" using run_ok [OF new_shared_ok [OF assms(2,1), THEN conjunct1] edits_ok [OF assms(3)]] assms(4) by simp
  note q = queued_draining [OF _ this assms(5)]
  have "queued s" using queued_edits [OF queued_new [OF assms(1)] assms(3)] assms(4) by simp
  note q = q [OF this]
  have v: "map edit (sh_pending ?p) = map edit (sh_pending s)" "sh_optimistic ?p = sh_optimistic s" using q by (simp_all add: view_def)
  then have len: "length (sh_pending ?p) = length (sh_pending s)" by (metis length_map)
  have "list_all (\<lambda>p. deliverable (snd p)) (map edit (sh_pending ?p))" using assms(6) v(1) by (simp add: list_all_iff edit_def)
  from accepts_all [OF conjunct1 [OF q] this _ assms(8) [folded len]] q assms(7) len v(2)
  have a: "draining blake t \<and> sh_pending t = [] \<and> sh_optimistic t = sh_optimistic s \<and>
      sh_confirmedRevision t = sh_confirmedRevision s + length (sh_pending s) \<and> conflicts t = conflicts s" by simp
  have "viewed blake t" "sh_status t = ShLive" using a unfolding draining_def by blast+
  then have "sh_optimistic t = sh_confirmed t" using a by (simp add: viewed_def)
  then show ?thesis using a \<open>sh_status t = ShLive\<close> by metis
qed

theorem burst_gets_confirmed_witness:
  "\<exists>s t. s = shared_run (\<lambda>_. []) [ClientDispatch 0 (rename_invocation CHR ''b'')] demo_shared \<and>
     t = accepts (\<lambda>_. []) 1 (shared_step (\<lambda>_. []) PumpStarts s) \<and>
     sh_confirmed t = demo_image CHR ''b'' \<and> sh_confirmedRevision t = 1 \<and> sh_pending t = []"
proof -
  define s where "s = shared_run (\<lambda>_. []) [ClientDispatch 0 (rename_invocation CHR ''b'')] demo_shared"
  obtain e where e: "sh_pending s = [e]" "en_predicted e = toWirePatch (rename_ops CHR ''a'' CHR ''b'')"
    "sh_optimistic s = demo_image CHR ''b''" "sh_confirmedRevision s = 0" using demo_burst [of "\<lambda>_. []"] s_def by blast
  have "list_all is_edit [ClientDispatch 0 (rename_invocation CHR ''b'')]" by (simp add: rename_stamped_wf)
  from burst_gets_confirmed [OF demo_shared_new demo_image_heap this s_def _ _ _ refl] e rename_deliverable
  have "sh_confirmed (accepts (\<lambda>_. []) 1 (shared_step (\<lambda>_. []) PumpStarts s)) = demo_image CHR ''b'' \<and>
      sh_confirmedRevision (accepts (\<lambda>_. []) 1 (shared_step (\<lambda>_. []) PumpStarts s)) = 1 \<and>
      sh_pending (accepts (\<lambda>_. []) 1 (shared_step (\<lambda>_. []) PumpStarts s)) = []"
    by (simp add: max_safe_integer_def)
  then show ?thesis using s_def by blast
qed

end
