(* ===== verification/Workflow.thy ===== *)
theory Workflow
  imports JsonFields Hash Transaction
begin

text \<open>
  The workflow document of \<open>packages/core/src/format/document.ts\<close>, as far as its invariants read it, and the
  boundary addressing of \<open>packages/core/src/compile/crossing.ts\<close>.

  Interfaces are records, discriminated unions are datatypes; properties that only the user interface reads are
  left out. The records of a graph keyed by id are association lists in property order. They are plain objects,
  so an indexed read \<open>m[k]\<close> also finds the members of \<open>Object.prototype\<close>: \<open>read_key\<close> tells an own property from an
  inherited one. What the code does with an inherited member, usually a function, is written out: it is defined
  and truthy, its properties are undefined, and reading a property of those throws.
\<close>

section \<open>Reading properties by index\<close>

datatype 'a slot = Absent | Inherited | Own 'a

definition object_prototype_names :: "string list" where
  "object_prototype_names =
     [''constructor'', ''__defineGetter__'', ''__defineSetter__'', ''hasOwnProperty'', ''__lookupGetter__'',
      ''__lookupSetter__'', ''isPrototypeOf'', ''propertyIsEnumerable'', ''toString'', ''valueOf'', ''__proto__'',
      ''toLocaleString'']"

definition read_key :: "(string \<times> 'a) list \<Rightarrow> string \<Rightarrow> 'a slot" where
  "read_key m k =
     (case map_of m k of
        Some v \<Rightarrow> Own v
      | None \<Rightarrow> if k \<in> set object_prototype_names then Inherited else Absent)"

text \<open>\<open>m?.[k]\<close>\<close>

definition opt_read :: "(string \<times> 'a) list option \<Rightarrow> string \<Rightarrow> 'a slot" where
  "opt_read m k = (case m of None \<Rightarrow> Absent | Some kvs \<Rightarrow> read_key kvs k)"

definition defined :: "'a slot \<Rightarrow> bool" where
  "defined s \<longleftrightarrow> s \<noteq> Absent"

datatype js_error = TypeError

section \<open>Dynamic interface state\<close>

datatype port_state = PortState
  (ps_members: "string list option")
  (ps_memberLabels: "(string \<times> string) list option")
  (ps_seq: "rat option")
  (ps_selected: "string option")
  (ps_options: "json list option")
  (ps_memberState: "(string \<times> (string \<times> port_state) list) list option")

type_synonym dyn_scope = "(string \<times> port_state) list"

datatype resolution = Opaque | Missing | Resolved "(string \<times> string list) list"

definition isFamilyState :: "port_state \<Rightarrow> bool" where
  "isFamilyState s \<longleftrightarrow> ps_members s \<noteq> None \<or> ps_seq s \<noteq> None \<or> ps_memberState s \<noteq> None"

definition starts_with :: "string \<Rightarrow> string \<Rightarrow> bool" where
  "starts_with s p \<longleftrightarrow> take (length p) s = p"

definition under :: "string \<Rightarrow> string \<Rightarrow> bool" where
  "under port con = starts_with port (con @ [dot])"

definition includes_member :: "port_state \<Rightarrow> string \<Rightarrow> bool" where
  "includes_member s member = (case ps_members s of None \<Rightarrow> False | Some ms \<Rightarrow> member \<in> set ms)"

text \<open>\<open>state.memberState?.[member]\<close>; only the entries of a scope are read, and an inherited member has none.\<close>

definition member_scope :: "port_state \<Rightarrow> string \<Rightarrow> dyn_scope" where
  "member_scope s member = (case opt_read (ps_memberState s) member of Own scope \<Rightarrow> scope | _ \<Rightarrow> [])"

text \<open>\<open>suffix.split('.')[0]\<close> of what follows \<open>con + '.'\<close>\<close>

definition first_segment :: "string \<Rightarrow> string \<Rightarrow> string" where
  "first_segment port con = takeWhile (\<lambda>c. c \<noteq> dot) (drop (Suc (length con)) port)"

definition longest_first :: "dyn_scope \<Rightarrow> dyn_scope" where
  "longest_first = sort_key (\<lambda>kv. - int (length (fst kv)))"

fun resolve_members :: "string \<Rightarrow> bool \<Rightarrow> dyn_scope \<Rightarrow> string list \<Rightarrow> resolution option" where
  "resolve_members port first scope [] = None"
| "resolve_members port first scope (member # rest) =
     (case longest_first (filter (\<lambda>kv. isFamilyState (snd kv) \<and> (port = fst kv \<or> under port (fst kv))) scope) of
        [] \<Rightarrow> Some (if first then Opaque else Missing)
      | (con, state) # _ \<Rightarrow>
          if \<not> includes_member state member then Some Missing
          else resolve_members port False (member_scope state member) rest)"

fun flat_references :: "string \<Rightarrow> dyn_scope \<Rightarrow> (string \<times> string list) list option" where
  "flat_references port [] = Some []"
| "flat_references port ((con, state) # rest) =
     (let member = first_segment port con in
      if member = [] then flat_references port rest
      else if \<not> includes_member state member then None
      else map_option ((#) (con, [member])) (flat_references port rest))"

text \<open>The walk through \<open>memberState\<close> goes into a strictly smaller scope each time.\<close>

definition scope_size :: "dyn_scope \<Rightarrow> nat" where
  "scope_size scope = (\<Sum>kv \<leftarrow> scope. Suc (size (snd kv)))"

definition family_candidates :: "string \<Rightarrow> dyn_scope \<Rightarrow> dyn_scope" where
  "family_candidates port scope =
     longest_first (filter (\<lambda>kv. isFamilyState (snd kv) \<and> under port (fst kv) \<and> first_segment port (fst kv) \<noteq> []) scope)"

lemma scope_size_member: "(c, s) \<in> set scope \<Longrightarrow> size s < scope_size scope"
  unfolding scope_size_def by (induction scope) auto

lemma scope_size_le: "scope_size scope \<le> size_list (size_prod (\<lambda>_. 0) size) scope"
  by (induction scope) (auto simp: scope_size_def size_prod_simp)

lemma size_prod_member: "(k, v) \<in> set kvs \<Longrightarrow> f v \<le> size_list (size_prod (\<lambda>_. 0) f) kvs"
  unfolding size_prod_simp by (induction kvs) force+

lemma member_scope_size: "scope_size (member_scope s member) < size s"
proof (cases s)
  case (PortState a b c d e f)
  show ?thesis
  proof (cases "opt_read f member")
    case (Own scope)
    then obtain m where m: "f = Some m" "(member, scope) \<in> set m"
      by (auto simp: opt_read_def read_key_def split: option.splits if_splits dest: map_of_in_set)
    have "scope_size scope \<le> size_list (size_prod (\<lambda>_. 0) size) scope" by (rule scope_size_le)
    also have "\<dots> \<le> size_list (size_prod (\<lambda>_. 0) (size_list (size_prod (\<lambda>_. 0) size))) m"
      by (rule size_prod_member [OF m(2)])
    finally show ?thesis using m Own PortState by (simp add: member_scope_def)
  qed (simp_all add: member_scope_def PortState scope_size_def)
qed

function structural_address ::
  "string \<Rightarrow> string list \<Rightarrow> dyn_scope \<Rightarrow> (string \<times> string list) option" where
  "structural_address port members scope =
     (case family_candidates port scope of
        [] \<Rightarrow> Some (port, members)
      | (con, state) # _ \<Rightarrow>
          (let member = first_segment port con in
           if \<not> includes_member state member then None
           else structural_address (con @ drop (length con + length member + 1) port)
                  (members @ [member]) (member_scope state member)))"
  by pat_completeness auto

termination
proof (relation "measure (\<lambda>(port, members, scope). scope_size scope)", goal_cases)
  case (2 port members scope kv rest con state member)
  have "set (family_candidates port scope) \<subseteq> set scope"
    by (auto simp: family_candidates_def longest_first_def)
  then have "(con, state) \<in> set scope" using 2 by auto
  then show ?case
    using scope_size_member member_scope_size [of state member] by (fastforce intro: less_trans)
qed simp

declare structural_address.simps [simp del]

definition resolveDynamicAddress :: "string \<Rightarrow> string list option \<Rightarrow> dyn_scope option \<Rightarrow> resolution" where
  "resolveDynamicAddress port members dynamic =
     (let scope = (case dynamic of None \<Rightarrow> [] | Some d \<Rightarrow> d) in
      case members of
        Some ms \<Rightarrow>
          (case resolve_members port True scope ms of Some r \<Rightarrow> r | None \<Rightarrow> Resolved [(port, ms)])
      | None \<Rightarrow>
          (case flat_references port
             (sort_key (\<lambda>kv. length (fst kv)) (filter (\<lambda>kv. isFamilyState (snd kv) \<and> under port (fst kv)) scope)) of
             None \<Rightarrow> Missing
           | Some flat \<Rightarrow>
               (case structural_address port [] scope of
                  None \<Rightarrow> Missing
                | Some (p, path) \<Rightarrow>
                    (let references = flat @ (if path \<noteq> [] then [(p, path)] else [])
                     in if references = [] then Opaque else Resolved references))))"

section \<open>Boundaries\<close>

datatype port_kind = PortKind | FamilyKind | SlotKind | DynamicComboKind

text \<open>A port binding: its kind, node, port, member path, attached reroute and selected slots.\<close>

datatype boundary_binding =
    PortBinding port_kind string string "string list option" "string option" "string list option"
  | WidgetTapBinding string string
  | ValueSourceBinding string json
  | UnboundBinding json

fun isNodeBoundaryBinding :: "boundary_binding \<Rightarrow> bool" where
  "isNodeBoundaryBinding (PortBinding k n p ms r sl) = True"
| "isNodeBoundaryBinding (WidgetTapBinding n t) = True"
| "isNodeBoundaryBinding _ = False"

fun isSubtreeBinding :: "boundary_binding \<Rightarrow> bool" where
  "isSubtreeBinding (PortBinding k n p ms r sl) = (k = SlotKind \<or> k = DynamicComboKind)"
| "isSubtreeBinding _ = False"

fun isForwardingBinding :: "boundary_binding \<Rightarrow> bool" where
  "isForwardingBinding (PortBinding k n p ms r sl) = (k = FamilyKind \<or> k = SlotKind \<or> k = DynamicComboKind)"
| "isForwardingBinding _ = False"

record boundary_item =
  bi_id :: string
  bi_binds :: boundary_binding
  bi_alsoBinds :: "boundary_binding list option"
  bi_promoted :: "bool option"

definition all_binds :: "boundary_item \<Rightarrow> boundary_binding list" where
  "all_binds item = bi_binds item # (case bi_alsoBinds item of None \<Rightarrow> [] | Some bs \<Rightarrow> bs)"

fun jsonStringify :: "json \<Rightarrow> string" where
  "jsonStringify JNull = ''null''"
| "jsonStringify (JBool b) = (if b then ''true'' else ''false'')"
| "jsonStringify (JNum r) = number_text r"
| "jsonStringify (JStr s) = stringify_string s"
| "jsonStringify (JArr xs) = ''['' @ comma_join (map jsonStringify xs) @ '']''"
| "jsonStringify (JObj kvs) =
     ''{'' @ comma_join (map (\<lambda>kv. stringify_string (fst kv) @ '':'' @ jsonStringify (snd kv)) kvs) @ ''}''"

fun kind_text :: "port_kind \<Rightarrow> string" where
  "kind_text PortKind = ''port''"
| "kind_text FamilyKind = ''family''"
| "kind_text SlotKind = ''slot''"
| "kind_text DynamicComboKind = ''dynamicCombo''"

definition json_texts :: "string list \<Rightarrow> json" where
  "json_texts ss = JArr (map JStr ss)"

fun boundaryBindingIdentity :: "boundary_binding \<Rightarrow> json" where
  "boundaryBindingIdentity (UnboundBinding type) = JArr [JStr ''unbound'', type]"
| "boundaryBindingIdentity (ValueSourceBinding vs type) = JArr [JStr ''valueSource'', JStr vs, type]"
| "boundaryBindingIdentity (WidgetTapBinding node tap) = JArr [JStr ''widgetTap'', JStr node, JStr tap]"
| "boundaryBindingIdentity (PortBinding kind node port members viaReroute slots) =
     JArr ([JStr (kind_text kind), JStr node, JStr port, json_texts (members_of members),
            (case slots of None \<Rightarrow> JNull | Some ss \<Rightarrow> json_texts (sort ss))] @
           (case viaReroute of None \<Rightarrow> [] | Some r \<Rightarrow> [JStr r]))"

definition boundaryBindingKey :: "boundary_binding \<Rightarrow> string" where
  "boundaryBindingKey binding = jsonStringify (boundaryBindingIdentity binding)"

section \<open>Graphs\<close>

record node_data =
  nd_id :: string
  nd_type :: string
  nd_values :: "(string \<times> json) list"
  nd_dynamic :: "dyn_scope option"
  nd_region :: "json option"

record link_data =
  ln_id :: string
  ln_from :: endpoint
  ln_to :: endpoint

record net_data =
  nt_id :: string
  nt_name :: string
  nt_source :: portref
  nt_sinks :: "portref list"

datatype selector_policy = FixedPolicy string | RandomPolicy

record selector_data =
  sl_id :: string
  sl_candidates :: "string list"
  sl_policy :: selector_policy

text \<open>Reroutes and value sources are given by the ids they carry, candidates and views by theirs.\<close>

record graph_def =
  gd_id :: string
  gd_nodes :: "(string \<times> node_data) list"
  gd_links :: "(string \<times> link_data) list"
  gd_nets :: "(string \<times> net_data) list"
  gd_reroutes :: "(string \<times> string) list"
  gd_valueSources :: "(string \<times> string) list option"
  gd_selectors :: "(string \<times> selector_data) list option"
  gd_boundary :: "(boundary_item list \<times> boundary_item list) option"
  gd_nextOrdinal :: nat
  gd_actorCursors :: "(string \<times> nat) list option"

record graph_view =
  gv_nodes :: "string list"
  gv_reroutes :: "string list option"
  gv_valueSources :: "string list option"
  gv_selectors :: "string list option"
  gv_collapsedNets :: "string list option"
  gv_guideNets :: "string list option"

section \<open>Occurrence topologies\<close>

record route_leg =
  rl_graph :: string
  rl_boundaryId :: string
  rl_binding :: boundary_binding

datatype parent_delivery =
    ParentLink string string
  | ParentNetSink string string portref

datatype suppressed_delivery =
    SuppressedLink string
  | SuppressedNetSink string portref
  | SuppressedLeg parent_delivery "route_leg list"

text \<open>A boundary endpoint: the occurrence, the address (port and members) and the route.\<close>

datatype occurrence_endpoint =
    BodyEnd endpoint
  | BoundaryEnd occurrence string "string list option" "route_leg list"

record occurrence_link =
  ol_id :: string
  ol_from :: occurrence_endpoint
  ol_to :: occurrence_endpoint

record occurrence_topology =
  ot_owner :: occurrence
  ot_bodyGraph :: string
  ot_links :: "(string \<times> occurrence_link) list"
  ot_suppressed :: "suppressed_delivery list option"
  ot_nextOrdinal :: nat
  ot_actorCursors :: "(string \<times> nat) list option"

record workflow_document =
  wd_root :: string
  wd_graphs :: "(string \<times> graph_def) list"
  wd_topologies :: "(string \<times> occurrence_topology) list option"
  wd_view :: "(string \<times> graph_view) list"

section \<open>Addressing through boundaries\<close>

datatype match_failure = NoItem | AmbiguousItem

definition item_matches :: "string \<Rightarrow> string list option \<Rightarrow> boundary_item \<Rightarrow> bool" where
  "item_matches port members i \<longleftrightarrow>
     (if isForwardingBinding (bi_binds i) then port = bi_id i \<or> under port (bi_id i)
      else port = bi_id i \<and> members = None)"

definition matchBoundaryItem ::
  "boundary_item list \<Rightarrow> string \<Rightarrow> string list option \<Rightarrow> match_failure + boundary_item" where
  "matchBoundaryItem items port members =
     (case filter (item_matches port members) items of
        [item] \<Rightarrow> Inr item
      | [] \<Rightarrow> Inl NoItem
      | _ \<Rightarrow> Inl AmbiguousItem)"

text \<open>A subtree crossing: boundary id, target node, construct path and the members crossed to reach it.\<close>

record subtree_crossing =
  sx_boundaryId :: string
  sx_targetNode :: string
  sx_constructPath :: string
  sx_hopMembers :: "string list"

definition translate_subtree :: "subtree_crossing \<Rightarrow> string \<Rightarrow> string list option \<Rightarrow> portref option" where
  "translate_subtree crossing port members =
     (let boundaryId = sx_boundaryId crossing;
          rest = (if port = boundaryId then Some []
                  else if under port boundaryId then Some (drop (length boundaryId) port) else None);
          path = sx_hopMembers crossing @ members_of members
      in case rest of
           None \<Rightarrow> None
         | Some r \<Rightarrow>
             Some \<lparr>pr_node = sx_targetNode crossing, pr_port = sx_constructPath crossing @ r,
                   pr_members = (if path \<noteq> [] then Some path else None)\<rparr>)"

end
