(* ===== verification/Search.thy ===== *)
theory Search
  imports Prelude
begin

text \<open>
  The coloured depth-first walk that \<open>packages/core/src/invariants.ts\<close> uses twice: over the definition references
  of a document and over the driver chains of a graph.

  A key is not yet seen, on the current path, or finished. Reaching a key of the current path reports a cycle; one
  of the two walks also closes the key then, so that it is reported once. The recursion of the code over the
  successors of a key is the inner call here, the loop over the keys of a list the outer one. It ends because
  every inner call puts one more key of the successor table on the path.
\<close>

section \<open>The walk\<close>

datatype colour = OnPath | Finished

type_synonym 'd walk_state = "(string \<Rightarrow> colour option) \<times> 'd list"

definition finish :: "string \<Rightarrow> 'd walk_state \<Rightarrow> 'd walk_state" where
  "finish k st = ((fst st)(k \<mapsto> Finished), snd st)"

definition enter :: "string \<Rightarrow> 'd walk_state \<Rightarrow> 'd walk_state" where
  "enter k st = ((fst st)(k \<mapsto> OnPath), snd st)"

definition report_cycle :: "(string \<Rightarrow> 'd) \<Rightarrow> bool \<Rightarrow> string \<Rightarrow> 'd walk_state \<Rightarrow> 'd walk_state" where
  "report_cycle report close k st = (if close then (fst st)(k \<mapsto> Finished) else fst st, snd st @ [report k])"

definition unseen :: "(string \<times> string list) list \<Rightarrow> 'd walk_state \<Rightarrow> nat" where
  "unseen succs st = card (fst ` set succs - dom (fst st))"

function explore ::
  "(string \<Rightarrow> 'd) \<Rightarrow> bool \<Rightarrow> (string \<times> string list) list \<Rightarrow> string list \<Rightarrow> 'd walk_state \<Rightarrow> 'd walk_state" where
  "explore report close succs [] st = st"
| "explore report close succs (k # ks) st =
     explore report close succs ks
       (case fst st k of
          Some Finished \<Rightarrow> st
        | Some OnPath \<Rightarrow> report_cycle report close k st
        | None \<Rightarrow>
            (case map_of succs k of
               None \<Rightarrow> finish k st
             | Some out \<Rightarrow> finish k (explore report close succs out (enter k st))))"
  by pat_completeness auto

text \<open>Keys are never forgotten, so the keys not yet seen get fewer.\<close>

lemma seen_report: "dom (fst (report_cycle report close k st)) \<supseteq> dom (fst st)"
  by (auto simp: report_cycle_def)

lemma seen_finish: "dom (fst (finish k st)) = insert k (dom (fst st))"
  by (simp add: finish_def)

lemma seen_enter: "dom (fst (enter k st)) = insert k (dom (fst st))"
  by (simp add: enter_def)

lemma explore_seen_dom:
  "explore_dom (report, close, succs, ks, st) \<Longrightarrow> dom (fst st) \<subseteq> dom (fst (explore report close succs ks st))"
proof (induction report close succs ks st rule: explore.pinduct)
  case (2 report close succs k ks st)
  show ?case
  proof (cases "fst st k")
    case None
    show ?thesis
    proof (cases "map_of succs k")
      case None
      then show ?thesis using 2 \<open>fst st k = None\<close> by (auto simp: explore.psimps seen_finish)
    next
      case (Some out)
      then show ?thesis
        using 2 \<open>fst st k = None\<close> by (fastforce simp: explore.psimps seen_finish seen_enter)
    qed
  next
    case (Some c)
    then show ?thesis
      using 2 seen_report [of st report close k] by (cases c) (fastforce simp: explore.psimps)+
  qed
qed (simp add: explore.psimps)

lemma unseen_mono: "dom (fst st) \<subseteq> dom (fst st') \<Longrightarrow> unseen succs st' \<le> unseen succs st"
  unfolding unseen_def by (intro card_mono) auto

lemma unseen_enter: "map_of succs k = Some out \<Longrightarrow> fst st k = None \<Longrightarrow> unseen succs (enter k st) < unseen succs st"
  unfolding unseen_def seen_enter by (intro psubset_card_mono) (force dest: map_of_in_set)+

termination explore
proof (relation "measures [\<lambda>(report, close, succs, ks, st). unseen succs st, \<lambda>(report, close, succs, ks, st). length ks]",
    goal_cases)
  case (2 report close succs k ks st out)
  then show ?case by (simp add: unseen_enter)
next
  case (3 report close succs k ks st)
  let ?st = "case fst st k of
      None \<Rightarrow> (case map_of succs k of None \<Rightarrow> finish k st
        | Some out \<Rightarrow> finish k (explore report close succs out (enter k st)))
    | Some OnPath \<Rightarrow> report_cycle report close k st | Some Finished \<Rightarrow> st"
  have "dom (fst st) \<subseteq> dom (fst ?st)"
  proof (cases "fst st k")
    case None
    then show ?thesis
    proof (cases "map_of succs k")
      case (Some out)
      from 3 [OF \<open>fst st k = None\<close> this] have "dom (fst (enter k st)) \<subseteq> dom (fst (explore report close succs out (enter k st)))"
        by (rule explore_seen_dom)
      then show ?thesis using None Some by (auto simp: seen_finish seen_enter)
    qed (auto simp: seen_finish)
  next
    case (Some c)
    then show ?thesis using seen_report [of st report close k] by (cases c) auto
  qed
  then have "unseen succs ?st \<le> unseen succs st" by (rule unseen_mono)
  from le_imp_less_or_eq [OF this] show ?case by auto
qed simp

section \<open>Reports and cycles\<close>

definition edges :: "(string \<times> string list) list \<Rightarrow> (string \<times> string) set" where
  "edges succs = {(a, b). \<exists>out. map_of succs a = Some out \<and> b \<in> set out}"

definition finished :: "'d walk_state \<Rightarrow> string set" where
  "finished st = {k. fst st k = Some Finished}"

definition on_path :: "'d walk_state \<Rightarrow> string set" where
  "on_path st = {k. fst st k = Some OnPath}"

text \<open>The keys that are finished without a report lead to finished keys and lie on no cycle.\<close>

definition settled :: "(string \<times> string list) list \<Rightarrow> 'd walk_state \<Rightarrow> bool" where
  "settled succs st \<longleftrightarrow>
     edges succs `` finished st \<subseteq> finished st \<and> (\<forall>a \<in> finished st. (a, a) \<notin> (edges succs)\<^sup>+)"

lemma state_simps [simp]:
  "finished (finish k st) = insert k (finished st)" "on_path (finish k st) = on_path st - {k}"
  "finished (enter k st) = finished st - {k}" "on_path (enter k st) = insert k (on_path st)"
  "snd (finish k st) = snd st" "snd (enter k st) = snd st" "snd (report_cycle report close k st) = snd st @ [report k]"
  by (auto simp: finished_def on_path_def finish_def enter_def report_cycle_def)

lemma on_path_report: "on_path (report_cycle report close k st) \<subseteq> on_path st"
  by (auto simp: on_path_def report_cycle_def)

lemma closed_trancl: "(a, b) \<in> r\<^sup>+ \<Longrightarrow> r `` S \<subseteq> S \<Longrightarrow> a \<in> S \<Longrightarrow> b \<in> S"
  by (induction rule: trancl_induct) auto

lemma settled_insert:
  assumes "settled succs st" and "edges succs `` {k} \<subseteq> finished st" and "k \<notin> finished st"
  shows "settled succs (finish k st)"
proof -
  have closed: "edges succs `` finished st \<subseteq> finished st" using assms(1) by (simp add: settled_def)
  have "(k, k) \<notin> (edges succs)\<^sup>+"
  proof
    assume "(k, k) \<in> (edges succs)\<^sup>+"
    then obtain b where "(k, b) \<in> edges succs" "b = k \<or> (b, k) \<in> (edges succs)\<^sup>+" by (auto dest: tranclD rtranclD)
    then show False using assms(2,3) closed_trancl [OF _ closed] by blast
  qed
  then show ?thesis using assms by (auto simp: settled_def)
qed

lemma explore_reports: "\<exists>ds. snd (explore report close succs ks st) = snd st @ ds"
proof (induction report close succs ks st rule: explore.induct)
  case (2 report close succs k ks st)
  let ?st = "case fst st k of
      None \<Rightarrow> (case map_of succs k of None \<Rightarrow> finish k st
        | Some out \<Rightarrow> finish k (explore report close succs out (enter k st)))
    | Some OnPath \<Rightarrow> report_cycle report close k st | Some Finished \<Rightarrow> st"
  have "\<exists>ds. snd ?st = snd st @ ds" using 2(1) by (auto split: option.splits colour.splits)
  then show ?case using 2(2) by fastforce
qed simp

lemma explore_silent:
  "settled succs st \<Longrightarrow> snd (explore report close succs ks st) = snd st \<Longrightarrow>
   settled succs (explore report close succs ks st) \<and> set ks \<subseteq> finished (explore report close succs ks st) \<and>
   finished st \<subseteq> finished (explore report close succs ks st) \<and> on_path (explore report close succs ks st) = on_path st"
proof (induction report close succs ks st rule: explore.induct)
  case (2 report close succs k ks st)
  define st1 where "st1 = (case fst st k of
      None \<Rightarrow> (case map_of succs k of None \<Rightarrow> finish k st
        | Some out \<Rightarrow> finish k (explore report close succs out (enter k st)))
    | Some OnPath \<Rightarrow> report_cycle report close k st | Some Finished \<Rightarrow> st)"
  have run: "explore report close succs (k # ks) st = explore report close succs ks st1" by (simp add: st1_def)
  obtain d2 where d2: "snd (explore report close succs ks st1) = snd st1 @ d2" using explore_reports by blast
  have "snd st1 = snd st \<and> settled succs st1 \<and> k \<in> finished st1 \<and> finished st \<subseteq> finished st1 \<and> on_path st1 = on_path st"
  proof (cases "fst st k")
    case None
    show ?thesis
    proof (cases "map_of succs k")
      case None
      then show ?thesis
        using \<open>fst st k = None\<close> "2.prems" settled_insert [of succs st k]
        by (auto simp: st1_def finish_def finished_def on_path_def edges_def)
    next
      case (Some out)
      let ?in = "explore report close succs out (enter k st)"
      have st1: "st1 = finish k ?in" using None Some by (simp add: st1_def)
      obtain d1 where d1: "snd ?in = snd st @ d1" using explore_reports [of report close succs out "enter k st"] by auto
      have "d1 = []" using d1 d2 "2.prems"(2) run st1 by simp
      moreover have "settled succs (enter k st)"
        using "2.prems"(1) None by (auto simp: settled_def finished_def enter_def)
      ultimately have inner: "settled succs ?in" "set out \<subseteq> finished ?in" "finished (enter k st) \<subseteq> finished ?in"
          "on_path ?in = on_path (enter k st)"
        using "2.IH"(1) [OF None Some] d1 by auto
      have "k \<in> on_path ?in" using inner(4) by simp
      then have "k \<notin> finished ?in" by (simp add: finished_def on_path_def)
      then have "settled succs st1"
        unfolding st1 using inner(1,2) Some by (intro settled_insert) (auto simp: edges_def)
      moreover have "k \<notin> on_path st" "k \<notin> finished st" using None by (simp_all add: on_path_def finished_def)
      ultimately show ?thesis using st1 d1 \<open>d1 = []\<close> inner by auto
    qed
  next
    case (Some c)
    then show ?thesis
      using d2 "2.prems" run by (cases c) (auto simp: st1_def finished_def)
  qed
  then show ?case
    using "2.IH"(2) [folded st1_def] "2.prems" run d2 by auto
qed simp

lemma explore_on_path: "on_path (explore report close succs ks st) \<subseteq> on_path st"
proof (induction report close succs ks st rule: explore.induct)
  case (2 report close succs k ks st)
  let ?st = "case fst st k of
      None \<Rightarrow> (case map_of succs k of None \<Rightarrow> finish k st
        | Some out \<Rightarrow> finish k (explore report close succs out (enter k st)))
    | Some OnPath \<Rightarrow> report_cycle report close k st | Some Finished \<Rightarrow> st"
  have "on_path ?st \<subseteq> on_path st"
    using 2(1) on_path_report by (fastforce split: option.splits colour.splits)
  then show ?case using 2(2) by simp
qed simp

lemma explore_report_cycle:
  "\<forall>p \<in> on_path st. \<forall>k \<in> set ks. (p, k) \<in> (edges succs)\<^sup>+ \<Longrightarrow>
   snd (explore report close succs ks st) \<noteq> snd st \<Longrightarrow> \<exists>k. (k, k) \<in> (edges succs)\<^sup>+"
proof (induction report close succs ks st rule: explore.induct)
  case (2 report close succs k ks st)
  define st1 where "st1 = (case fst st k of
      None \<Rightarrow> (case map_of succs k of None \<Rightarrow> finish k st
        | Some out \<Rightarrow> finish k (explore report close succs out (enter k st)))
    | Some OnPath \<Rightarrow> report_cycle report close k st | Some Finished \<Rightarrow> st)"
  have run: "explore report close succs (k # ks) st = explore report close succs ks st1" by (simp add: st1_def)
  have path: "on_path st1 \<subseteq> on_path st"
    using explore_on_path [of report close succs _ "enter k st"] on_path_report [of report close k st]
    by (fastforce simp: st1_def split: option.splits colour.splits)
  show ?case
  proof (cases "snd st1 = snd st")
    case True
    then show ?thesis using "2.IH"(2) [folded st1_def] "2.prems" path run by auto
  next
    case False
    show ?thesis
    proof (cases "fst st k")
      case None
      then obtain out where out: "map_of succs k = Some out" "snd (explore report close succs out (enter k st)) \<noteq> snd (enter k st)"
        using False by (auto simp: st1_def split: option.splits)
      have "(p, b) \<in> (edges succs)\<^sup>+" if "p \<in> on_path (enter k st)" "b \<in> set out" for p b
      proof -
        have "(k, b) \<in> edges succs" using out(1) that(2) by (auto simp: edges_def)
        then show ?thesis using that(1) "2.prems"(1) by (auto intro: trancl_into_trancl)
      qed
      then show ?thesis using "2.IH"(1) [OF None out(1)] out(2) by blast
    next
      case (Some c)
      then show ?thesis using False "2.prems"(1) by (cases c) (auto simp: st1_def on_path_def)
    qed
  qed
qed simp

text \<open>From scratch: nothing is reported just in case no key that the roots reach lies on a cycle.\<close>

definition walk_from :: "(string \<Rightarrow> 'd) \<Rightarrow> bool \<Rightarrow> (string \<times> string list) list \<Rightarrow> string list \<Rightarrow> 'd list" where
  "walk_from report close succs roots = snd (explore report close succs roots (\<lambda>_. None, []))"

lemma walk_from_silent:
  assumes "walk_from report close succs roots = []" and "r \<in> set roots" and "(r, k) \<in> (edges succs)\<^sup>*"
  shows "(k, k) \<notin> (edges succs)\<^sup>+"
proof -
  let ?st = "explore report close succs roots (\<lambda>_. None, [])"
  have "settled succs ((\<lambda>_. None, []) :: 'a walk_state)" by (simp add: settled_def finished_def)
  then have st: "settled succs ?st" "set roots \<subseteq> finished ?st"
    using explore_silent [of succs "(\<lambda>_. None, [])" report close roots] assms(1) by (auto simp: walk_from_def)
  from assms(3) have "k \<in> finished ?st"
    using st assms(2) by (induction rule: rtrancl_induct) (auto simp: settled_def)
  then show ?thesis using st(1) by (simp add: settled_def)
qed

lemma walk_from_acyclic:
  assumes "acyclic (edges succs)"
  shows "walk_from report close succs roots = []"
proof (rule ccontr)
  assume "walk_from report close succs roots \<noteq> []"
  then have "\<exists>k. (k, k) \<in> (edges succs)\<^sup>+"
    using explore_report_cycle [of "(\<lambda>_. None, [])" roots succs report close]
    by (simp add: walk_from_def on_path_def)
  then show False using assms by (simp add: acyclic_def)
qed

text \<open>When the roots cover every key with successors, nothing is reported just in case there is no cycle.\<close>

locale covered_walk =
  fixes succs :: "(string \<times> string list) list" and roots :: "string list"
  assumes roots_cover: "map_of succs k = Some out \<Longrightarrow> out \<noteq> [] \<Longrightarrow> (k, k) \<in> (edges succs)\<^sup>+ \<Longrightarrow> k \<in> set roots"
begin

lemma silent_iff_acyclic: "walk_from report close succs roots = [] \<longleftrightarrow> acyclic (edges succs)"
proof
  assume silent: "walk_from report close succs roots = []"
  show "acyclic (edges succs)"
    unfolding acyclic_def
  proof (intro allI notI)
    fix k
    assume cycle: "(k, k) \<in> (edges succs)\<^sup>+"
    then obtain b where "(k, b) \<in> edges succs" by (blast dest: tranclD)
    then obtain out where "map_of succs k = Some out" "out \<noteq> []" by (fastforce simp: edges_def)
    then have "k \<in> set roots" using roots_cover cycle by blast
    then show False using walk_from_silent [OF silent] cycle by blast
  qed
qed (rule walk_from_acyclic)

end

end
