(* ===== verification/GraphCheck.thy ===== *)
theory GraphCheck
  imports Workflow Search
begin

text \<open>
  The invariants of one graph definition: \<open>checkGraphDef\<close> and \<open>checkRegion\<close> of \<open>packages/core/src/invariants.ts\<close>.

  A diagnostic is its severity and code. The checks are loops over the members of the graph that push
  diagnostics and fill the sets and maps of \<open>topo\<close>: the ids seen so far, the inputs, reroutes and selector
  candidates that have a driver. What a map holds only for messages is left out. A check throws where it
  reads a property of what an inherited member does not have.
\<close>

section \<open>Collecting diagnostics\<close>

fun gather :: "('a \<Rightarrow> 'e + 'b list) \<Rightarrow> 'a list \<Rightarrow> 'e + 'b list" where
  "gather f [] = Inr []"
| "gather f (x # xs) = rbind (f x) (\<lambda>ys. map_result ((@) ys) (gather f xs))"

definition warning_diag :: "string \<Rightarrow> diagnostic" where
  "warning_diag code = \<lparr>dg_severity = SevWarning, dg_code = code\<rparr>"

definition report_if :: "bool \<Rightarrow> string \<Rightarrow> diagnostic list" where
  "report_if b code = (if b then [error_diag code] else [])"

text \<open>The elements of a JavaScript set made from a list, in insertion order.\<close>

definition js_set :: "'a list \<Rightarrow> 'a list" where
  "js_set xs = rev (remdups (rev xs))"

definition subgraphDefIdOf :: "string \<Rightarrow> string option" where
  "subgraphDefIdOf nodeType = (if starts_with nodeType ''#'' then Some (drop 1 nodeType) else None)"

section \<open>Regions\<close>

definition non_empty_text :: "json \<Rightarrow> bool" where
  "non_empty_text v = (case v of JStr s \<Rightarrow> s \<noteq> [] | _ \<Rightarrow> False)"

definition region_fields :: "string list" where
  "region_fields = [''kind'', ''elementPorts'', ''statePorts'', ''outputRoles'', ''continueOutput'', ''binding'',
     ''maxIterations'', ''cachePolicy'']"

text \<open>The problems are given by their fields.\<close>

fun port_problems :: "string \<Rightarrow> nat \<Rightarrow> string list \<Rightarrow> json list \<Rightarrow> string list" where
  "port_problems name index seen [] = []"
| "port_problems name index seen (v # vs) =
     (case v of
        JStr s \<Rightarrow>
          if s = [] \<or> s \<in> set seen
          then (name @ ''['' @ show_nat index @ '']'') # port_problems name (Suc index) seen vs
          else port_problems name (Suc index) (s # seen) vs
      | _ \<Rightarrow> (name @ ''['' @ show_nat index @ '']'') # port_problems name (Suc index) seen vs)"

definition ports_problems :: "json \<Rightarrow> string \<Rightarrow> string list" where
  "ports_problems region f =
     (case field region f of
        None \<Rightarrow> []
      | Some (JArr vs) \<Rightarrow> port_problems (''.'' @ f) 0 [] vs
      | Some _ \<Rightarrow> [''.'' @ f])"

definition role_problems :: "string \<times> json \<Rightarrow> string list" where
  "role_problems = (\<lambda>(ident, role).
     (if ident = [] then [''.outputRoles''] else []) @
     (case role of
        JObj role_kvs \<Rightarrow>
          (let kind = map_of role_kvs ''kind'' in
           if kind \<in> {Some (JStr ''gather''), Some (JStr ''compact''), Some (JStr ''flatten''), Some (JStr ''last'')}
           then (if \<exists>f \<in> set role_kvs. fst f \<noteq> ''kind'' then [''.outputRoles.'' @ ident] else [])
           else if kind = Some (JStr ''state'')
           then (if \<exists>f \<in> set role_kvs. fst f \<noteq> ''kind'' \<and> fst f \<noteq> ''statePort'' then [''.outputRoles.'' @ ident] else []) @
             (case map_of role_kvs ''statePort'' of
                Some v \<Rightarrow> if non_empty_text v then [] else [''.outputRoles.'' @ ident @ ''.statePort'']
              | None \<Rightarrow> [''.outputRoles.'' @ ident @ ''.statePort''])
           else [''.outputRoles.'' @ ident @ ''.kind''])
      | _ \<Rightarrow> [''.outputRoles.'' @ ident]))"

definition one_of :: "json option \<Rightarrow> string list \<Rightarrow> bool" where
  "one_of v names \<longleftrightarrow> v \<in> (\<lambda>s. Some (JStr s)) ` set names"

definition regionContractShapeProblems :: "json \<Rightarrow> string list" where
  "regionContractShapeProblems region =
     (case region of
        JObj kvs \<Rightarrow>
          map (\<lambda>kv. ''.'' @ fst kv) (filter (\<lambda>kv. fst kv \<notin> set region_fields) kvs) @
          (if one_of (field region ''kind'') [''map'', ''fold'', ''while''] then [] else [''.kind'']) @
          ports_problems region ''elementPorts'' @ ports_problems region ''statePorts'' @
          (case field region ''outputRoles'' of
             None \<Rightarrow> []
           | Some (JObj roles) \<Rightarrow> concat (map role_problems roles)
           | Some _ \<Rightarrow> [''.outputRoles'']) @
          (case field region ''continueOutput'' of
             None \<Rightarrow> [] | Some v \<Rightarrow> if non_empty_text v then [] else [''.continueOutput'']) @
          (if field region ''binding'' = None \<or> one_of (field region ''binding'') [''zip'', ''cross'', ''broadcast'']
           then [] else [''.binding'']) @
          (case field region ''maxIterations'' of
             None \<Rightarrow> []
           | Some (JNum r) \<Rightarrow> if is_safe_integer r \<and> r \<ge> 0 then [] else [''.maxIterations'']
           | Some _ \<Rightarrow> [''.maxIterations'']) @
          (if field region ''cachePolicy'' = None \<or> one_of (field region ''cachePolicy'') [''reuse'', ''rerun'']
           then [] else [''.cachePolicy''])
      | _ \<Rightarrow> [[]])"

fun input_of_link :: "endpoint \<Rightarrow> portref option" where
  "input_of_link (PortEnd p) = Some p"
| "input_of_link _ = None"

definition feeds :: "string \<Rightarrow> string \<Rightarrow> portref \<Rightarrow> bool" where
  "feeds node port p \<longleftrightarrow> pr_node p = node \<and> pr_port p = port"

definition hasInput :: "(string \<times> graph_def) list \<Rightarrow> string \<Rightarrow> node_data \<Rightarrow> string \<Rightarrow> js_error + bool" where
  "hasInput graphs graphId node ident =
     (if map_of (nd_values node) ident \<noteq> None then Inr True
      else case read_key graphs graphId of
        Own g \<Rightarrow>
          Inr ((\<exists>l \<in> set (gd_links g). case input_of_link (ln_to (snd l)) of Some p \<Rightarrow> feeds (nd_id node) ident p | None \<Rightarrow> False) \<or>
               (\<exists>n \<in> set (gd_nets g). \<exists>s \<in> set (nt_sinks (snd n)). feeds (nd_id node) ident s))
      | _ \<Rightarrow> Inl TypeError)"

definition missing_input ::
  "(string \<times> graph_def) list \<Rightarrow> string \<Rightarrow> node_data \<Rightarrow> string list \<Rightarrow> string \<Rightarrow> js_error + diagnostic list" where
  "missing_input graphs graphId node inputIds ident =
     (if ident \<notin> set inputIds then Inr []
      else map_result (\<lambda>fed. report_if (\<not> fed) ''doc.region.inputMissing'') (hasInput graphs graphId node ident))"

definition element_diags ::
  "(string \<times> graph_def) list \<Rightarrow> string \<Rightarrow> node_data \<Rightarrow> boundary_item list \<Rightarrow> string list \<Rightarrow> string \<Rightarrow>
   js_error + diagnostic list" where
  "element_diags graphs graphId node inputs states ident =
     map_result
       ((@) (report_if (ident \<notin> set (map bi_id inputs)) ''doc.region.elementPortUndeclared'' @
             report_if (ident \<in> set states) ''doc.region.portRoleOverlap'' @
             report_if (Option.bind (find (\<lambda>i. bi_id i = ident) inputs) bi_promoted = Some True) ''doc.region.elementPromoted''))
       (missing_input graphs graphId node (map bi_id inputs) ident)"

definition state_diags ::
  "(string \<times> graph_def) list \<Rightarrow> string \<Rightarrow> node_data \<Rightarrow> string list \<Rightarrow> string \<Rightarrow> js_error + diagnostic list" where
  "state_diags graphs graphId node inputIds ident =
     map_result ((@) (report_if (ident \<notin> set inputIds) ''doc.region.statePortUndeclared''))
       (missing_input graphs graphId node inputIds ident)"

text \<open>The loop over the output roles; \<open>targets\<close> are the state ports that have an output so far.\<close>

fun role_diags ::
  "string list \<Rightarrow> string list \<Rightarrow> string list \<Rightarrow> string option \<Rightarrow> string list \<Rightarrow> (string \<times> json) list \<Rightarrow>
   string list \<times> diagnostic list" where
  "role_diags inputIds outputIds states cont targets [] = (targets, [])"
| "role_diags inputIds outputIds states cont targets ((ident, role) # roles) =
     (let declared = (ident \<in> set outputIds);
          is_state = (text_of (field role ''kind'') = ''state'');
          statePort = text_of (field role ''statePort'');
          again = (is_state \<and> declared \<and> statePort \<in> set targets);
          targets1 = (if is_state \<and> declared \<and> \<not> again then statePort # targets else targets);
          here = report_if (\<not> declared) ''doc.region.outputUndeclared'' @
            report_if (cont = Some ident) ''doc.region.outputContinueOverlap'' @
            report_if (is_state \<and> (statePort \<notin> set states \<or> statePort \<notin> set inputIds)) ''doc.region.statePortMissing'' @
            report_if again ''doc.region.stateOutputDuplicate'';
          (final, ds) = role_diags inputIds outputIds states cont targets1 roles
      in (final, here @ ds))"

definition text_field :: "json \<Rightarrow> string \<Rightarrow> string option" where
  "text_field v k = (case field v k of Some (JStr s) \<Rightarrow> Some s | _ \<Rightarrow> None)"

definition kind_diags :: "json \<Rightarrow> string list \<Rightarrow> string list \<Rightarrow> diagnostic list" where
  "kind_diags region elements states =
     (let kind = text_field region ''kind''; cont = text_field region ''continueOutput'' in
      if kind = Some ''map'' then
        report_if (elements = []) ''doc.region.mapElementRequired'' @
        report_if (states \<noteq> []) ''doc.region.mapStateForbidden'' @
        report_if (cont \<noteq> None) ''doc.region.continueForbidden''
      else if kind = Some ''fold'' then
        report_if (elements = []) ''doc.region.foldElementRequired'' @
        report_if (cont \<noteq> None) ''doc.region.continueForbidden''
      else
        report_if (elements \<noteq> []) ''doc.region.whileElementForbidden'' @
        report_if (states = []) ''doc.region.whileStateRequired'' @
        report_if (cont = None) ''doc.region.whileContinueRequired'' @
        report_if (field region ''maxIterations'' = None) ''doc.region.whileMaxIterationsRequired'' @
        report_if (text_field region ''binding'' = Some ''cross'') ''doc.region.whileCross'' @
        report_if (text_field region ''binding'' = Some ''broadcast'') ''doc.region.whileBroadcast'')"

definition region_diags ::
  "(string \<times> graph_def) list \<Rightarrow> string \<Rightarrow> node_data \<Rightarrow> json \<Rightarrow> graph_def \<Rightarrow> boundary_item list \<Rightarrow> boundary_item list \<Rightarrow>
   js_error + diagnostic list" where
  "region_diags graphs graphId node region body inputs outputs =
     (let inputIds = map bi_id inputs; outputIds = map bi_id outputs;
          elements = js_set (texts_of (field region ''elementPorts''));
          states = js_set (texts_of (field region ''statePorts''));
          cont = text_field region ''continueOutput''
      in rbind (gather (element_diags graphs graphId node inputs states) elements) (\<lambda>eds.
         rbind (gather (state_diags graphs graphId node inputIds) states) (\<lambda>sds.
           (case role_diags inputIds outputIds states cont [] (entries_of (field region ''outputRoles'')) of
              (targets, rds) \<Rightarrow>
                Inr (eds @ sds @ rds @
                  concat (map (\<lambda>s. report_if (s \<notin> set targets) ''doc.region.stateOutputMissing'') states) @
                  report_if (case cont of Some c \<Rightarrow> c \<notin> set outputIds | None \<Rightarrow> False) ''doc.region.continueUndeclared'' @
                  report_if (\<not> (\<exists>i \<in> set outputIds. Some i \<noteq> cont) \<and> gd_nodes body = []) ''doc.region.outputRequired'' @
                  report_if (field region ''maxIterations'' \<noteq> None \<and> number_of (field region ''maxIterations'') < 1)
                    ''doc.region.maxIterations'' @
                  kind_diags region elements states)))))"

definition checkRegion ::
  "(string \<times> graph_def) list \<Rightarrow> string \<Rightarrow> node_data \<Rightarrow> json \<Rightarrow> js_error + diagnostic list" where
  "checkRegion graphs graphId node region =
     (if regionContractShapeProblems region \<noteq> []
      then Inr (map (\<lambda>p. error_diag ''doc.region.shapeInvalid'') (regionContractShapeProblems region))
      else case subgraphDefIdOf (nd_type node) of
        None \<Rightarrow> Inr [error_diag ''doc.region.notSubgraph'']
      | Some ref \<Rightarrow>
          (case read_key graphs ref of
             Absent \<Rightarrow> Inr []
           | Inherited \<Rightarrow> Inr [error_diag ''doc.region.boundaryMissing'']
           | Own body \<Rightarrow>
               (case gd_boundary body of
                  None \<Rightarrow> Inr [error_diag ''doc.region.boundaryMissing'']
                | Some (inputs, outputs) \<Rightarrow> region_diags graphs graphId node region body inputs outputs)))"

section \<open>Ids\<close>

record topo =
  tp_seen :: "string list"
  tp_inputs :: "string list"
  tp_reroutes :: "(string \<times> link_data) list"
  tp_candidates :: "string list"
  tp_selectors :: "(string \<times> link_data list) list"
  tp_diags :: "diagnostic list"

definition push :: "diagnostic list \<Rightarrow> topo \<Rightarrow> topo" where
  "push ds st = st\<lparr>tp_diags := tp_diags st @ ds\<rparr>"

definition graph_cursor :: "graph_def \<Rightarrow> string option \<Rightarrow> nat" where
  "graph_cursor def actor =
     (case actor of None \<Rightarrow> gd_nextOrdinal def | Some a \<Rightarrow> actorCursorOf (gd_actorCursors def) a)"

definition checkCursor :: "graph_def \<Rightarrow> string \<Rightarrow> diagnostic list" where
  "checkCursor def ident =
     (case parseAllocatedId ident of
        None \<Rightarrow> []
      | Some (p, ordinal, actor) \<Rightarrow> report_if (ordinal \<ge> graph_cursor def actor) ''doc.id.aboveCursor'')"

definition checkId :: "graph_def \<Rightarrow> string \<Rightarrow> topo \<Rightarrow> topo" where
  "checkId def ident st =
     push (report_if (ident \<in> set (tp_seen st)) ''doc.id.duplicate'' @ checkCursor def ident)
       (st\<lparr>tp_seen := ident # tp_seen st\<rparr>)"

definition check_node ::
  "(string \<times> graph_def) list \<Rightarrow> string \<Rightarrow> graph_def \<Rightarrow> topo \<Rightarrow> string \<times> node_data \<Rightarrow> js_error + topo" where
  "check_node graphs defId def st = (\<lambda>(key, node).
     let st1 = checkId def (nd_id node) (push (report_if (key \<noteq> nd_id node) ''doc.node.keyMismatch'') st);
         st2 = push (case subgraphDefIdOf (nd_type node) of
           Some ref \<Rightarrow> report_if (\<not> defined (read_key graphs ref)) ''doc.subgraph.dangling'' | None \<Rightarrow> []) st1
     in case nd_region node of
          None \<Rightarrow> Inr st2
        | Some region \<Rightarrow> map_result (\<lambda>ds. push ds st2) (checkRegion graphs defId node region))"

definition check_keyed :: "graph_def \<Rightarrow> string \<Rightarrow> string \<times> string \<Rightarrow> topo \<Rightarrow> topo" where
  "check_keyed def code = (\<lambda>(key, ident) st. checkId def ident (push (report_if (key \<noteq> ident) code) st))"

fun candidate_diags :: "graph_def \<Rightarrow> string list \<Rightarrow> string list \<Rightarrow> diagnostic list" where
  "candidate_diags def seen [] = []"
| "candidate_diags def seen (c # cs) =
     report_if (c \<in> set seen) ''doc.selector.candidateDuplicate'' @ checkCursor def c @ candidate_diags def (c # seen) cs"

definition check_selector :: "graph_def \<Rightarrow> string \<times> selector_data \<Rightarrow> topo \<Rightarrow> topo" where
  "check_selector def = (\<lambda>(key, sel) st.
     push (candidate_diags def [] (sl_candidates sel) @
           (case sl_policy sel of
              FixedPolicy c \<Rightarrow> report_if (c \<notin> set (sl_candidates sel)) ''doc.selector.policyDangling''
            | RandomPolicy \<Rightarrow> []))
       (checkId def (sl_id sel) (push (report_if (key \<noteq> sl_id sel) ''doc.selector.keyMismatch'') st)))"

definition opt_list :: "'a list option \<Rightarrow> 'a list" where
  "opt_list m = (case m of None \<Rightarrow> [] | Some xs \<Rightarrow> xs)"

definition check_members :: "(string \<times> graph_def) list \<Rightarrow> string \<Rightarrow> graph_def \<Rightarrow> js_error + topo" where
  "check_members graphs defId def =
     map_result
       (\<lambda>st. fold (check_selector def) (opt_list (gd_selectors def))
          (fold (check_keyed def ''doc.valueSource.keyMismatch'') (opt_list (gd_valueSources def))
             (fold (check_keyed def ''doc.reroute.keyMismatch'') (gd_reroutes def) st)))
       (foldR (check_node graphs defId def)
          \<lparr>tp_seen = [], tp_inputs = [], tp_reroutes = [], tp_candidates = [], tp_selectors = [], tp_diags = []\<rparr>
          (gd_nodes def))"

section \<open>Links and nets\<close>

definition dynamic_missing :: "portref \<Rightarrow> dyn_scope option \<Rightarrow> bool" where
  "dynamic_missing p dynamic \<longleftrightarrow> resolveDynamicAddress (pr_port p) (pr_members p) dynamic = Missing"

text \<open>The diagnostic \<open>checkEndpoint\<close> pushes; it returns true just in case there is none. An inherited
  node has no dynamic state, an inherited selector no candidates.\<close>

fun checkEndpoint :: "graph_def \<Rightarrow> endpoint \<Rightarrow> string \<Rightarrow> js_error + string option" where
  "checkEndpoint def (RerouteEnd r) code = Inr (if defined (read_key (gd_reroutes def) r) then None else Some code)"
| "checkEndpoint def (ValueSourceEnd v) code = Inr (if defined (opt_read (gd_valueSources def) v) then None else Some code)"
| "checkEndpoint def (SelectorEnd s c) code =
     (case opt_read (gd_selectors def) s of
        Absent \<Rightarrow> Inr (Some code)
      | Inherited \<Rightarrow> if c = None then Inr None else Inl TypeError
      | Own sel \<Rightarrow> Inr (if (case c of Some x \<Rightarrow> x \<notin> set (sl_candidates sel) | None \<Rightarrow> False) then Some code else None))"
| "checkEndpoint def (WidgetTapEnd n t) code = Inr (if defined (read_key (gd_nodes def) n) then None else Some code)"
| "checkEndpoint def (PortEnd p) code =
     Inr (case read_key (gd_nodes def) (pr_node p) of
            Absent \<Rightarrow> Some code
          | Inherited \<Rightarrow> if dynamic_missing p None then Some ''doc.dynamic.memberMissing'' else None
          | Own node \<Rightarrow> if dynamic_missing p (nd_dynamic node) then Some ''doc.dynamic.memberMissing'' else None)"

definition push_code :: "string option \<Rightarrow> topo \<Rightarrow> topo" where
  "push_code c st = push (case c of None \<Rightarrow> [] | Some code \<Rightarrow> [error_diag code]) st"

definition claimInput :: "portref \<Rightarrow> topo \<Rightarrow> topo" where
  "claimInput p st =
     (if portRefKey p \<in> set (tp_inputs st) then push [error_diag ''doc.input.multiDriver''] st
      else st\<lparr>tp_inputs := portRefKey p # tp_inputs st\<rparr>)"

definition selectorCandidateKey :: "string \<Rightarrow> string \<Rightarrow> string" where
  "selectorCandidateKey selector candidate = stringify_list [selector, candidate]"

definition drive_candidate :: "link_data \<Rightarrow> string \<Rightarrow> string \<Rightarrow> topo \<Rightarrow> topo" where
  "drive_candidate link selector candidate st =
     (if selectorCandidateKey selector candidate \<in> set (tp_candidates st)
      then push [error_diag ''doc.selector.multiDriver''] st
      else st\<lparr>tp_candidates := selectorCandidateKey selector candidate # tp_candidates st,
              tp_selectors := AList.update selector
                ((case map_of (tp_selectors st) selector of None \<Rightarrow> [] | Some ls \<Rightarrow> ls) @ [link]) (tp_selectors st)\<rparr>)"

definition drive_reroute :: "link_data \<Rightarrow> string \<Rightarrow> topo \<Rightarrow> topo" where
  "drive_reroute link r st =
     (case map_of (tp_reroutes st) r of
        Some existing \<Rightarrow> push [error_diag ''doc.reroute.multiDriver''] st
      | None \<Rightarrow> st\<lparr>tp_reroutes := tp_reroutes st @ [(r, link)]\<rparr>)"

definition check_source :: "endpoint \<Rightarrow> diagnostic list" where
  "check_source from =
     report_if (case from of SelectorEnd s c \<Rightarrow> c \<noteq> None | _ \<Rightarrow> False) ''doc.link.selectorCandidateSource''"

definition check_target :: "link_data \<Rightarrow> topo \<Rightarrow> topo" where
  "check_target link st =
     (case ln_to link of
        ValueSourceEnd v \<Rightarrow> push [error_diag ''doc.link.valueSourceTarget''] st
      | WidgetTapEnd n t \<Rightarrow> push [error_diag ''doc.link.tapTarget''] st
      | SelectorEnd s None \<Rightarrow> push [error_diag ''doc.link.selectorOutputTarget''] st
      | SelectorEnd s (Some c) \<Rightarrow> drive_candidate link s c st
      | RerouteEnd r \<Rightarrow> drive_reroute link r st
      | PortEnd p \<Rightarrow> claimInput p st)"

definition check_link :: "graph_def \<Rightarrow> topo \<Rightarrow> string \<times> link_data \<Rightarrow> js_error + topo" where
  "check_link def st = (\<lambda>(key, link).
     let st1 = checkId def (ln_id link) (push (report_if (key \<noteq> ln_id link) ''doc.link.keyMismatch'') st)
     in rbind (checkEndpoint def (ln_from link) ''doc.link.dangling'') (\<lambda>f.
        rbind (checkEndpoint def (ln_to link) ''doc.link.dangling'') (\<lambda>t.
          let st2 = (if f = None then push (check_source (ln_from link)) st1 else push_code f st1)
          in Inr (if t = None then check_target link st2 else push_code t st2))))"

definition check_sink :: "graph_def \<Rightarrow> topo \<Rightarrow> portref \<Rightarrow> js_error + topo" where
  "check_sink def st sink =
     map_result (\<lambda>c. if c = None then claimInput sink st else push_code c st)
       (checkEndpoint def (PortEnd sink) ''doc.net.dangling'')"

definition check_net :: "graph_def \<Rightarrow> topo \<Rightarrow> string \<times> net_data \<Rightarrow> js_error + topo" where
  "check_net def st = (\<lambda>(key, net).
     rbind (checkEndpoint def (PortEnd (nt_source net)) ''doc.net.dangling'') (\<lambda>c.
       foldR (check_sink def)
         (push_code c (checkId def (nt_id net) (push (report_if (key \<noteq> nt_id net) ''doc.net.keyMismatch'') st)))
         (nt_sinks net)))"

section \<open>Driver chains\<close>

text \<open>The keys of the walk: reroutes, selectors and tapped inputs.\<close>

fun follow :: "endpoint \<Rightarrow> string list" where
  "follow (RerouteEnd r) = [''r:'' @ r]"
| "follow (SelectorEnd s c) = (if c = None then [''s:'' @ s] else [])"
| "follow (WidgetTapEnd n t) = [''t:'' @ portRefKey \<lparr>pr_node = n, pr_port = t, pr_members = None\<rparr>]"
| "follow _ = []"

text \<open>What the walk follows from a key: the link that drives the reroute, the links that drive the candidates of
  the selector, or the first link or else net into the tapped input.\<close>

definition input_feeds :: "graph_def \<Rightarrow> (string \<times> string list) list" where
  "input_feeds def =
     concat (map (\<lambda>l. case input_of_link (ln_to (snd l)) of
       Some p \<Rightarrow> [(''t:'' @ portRefKey p, follow (ln_from (snd l)))] | None \<Rightarrow> []) (gd_links def)) @
     concat (map (\<lambda>n. map (\<lambda>s. (''t:'' @ portRefKey s, follow (PortEnd (nt_source (snd n))))) (nt_sinks (snd n))) (gd_nets def))"

definition driver_table :: "graph_def \<Rightarrow> topo \<Rightarrow> (string \<times> string list) list" where
  "driver_table def st =
     map (\<lambda>(r, link). (''r:'' @ r, follow (ln_from link))) (tp_reroutes st) @
     map (\<lambda>(s, links). (''s:'' @ s, concat (map (\<lambda>l. follow (ln_from l)) links))) (tp_selectors st) @
     input_feeds def"

definition cycle_code :: "string \<Rightarrow> diagnostic" where
  "cycle_code key = error_diag
     (if take 1 key = ''r'' then ''doc.reroute.cycle'' else if take 1 key = ''s'' then ''doc.selector.cycle''
      else ''doc.tap.cycle'')"

definition walk_roots_of :: "graph_def \<Rightarrow> string list" where
  "walk_roots_of def =
     map (\<lambda>kv. ''r:'' @ fst kv) (gd_reroutes def) @ map (\<lambda>kv. ''s:'' @ fst kv) (opt_list (gd_selectors def)) @
     concat (map (\<lambda>l. case ln_from (snd l) of WidgetTapEnd n t \<Rightarrow> follow (ln_from (snd l)) | _ \<Rightarrow> []) (gd_links def))"

definition check_chains :: "graph_def \<Rightarrow> topo \<Rightarrow> topo" where
  "check_chains def st = push (walk_from cycle_code True (driver_table def st) (walk_roots_of def)) st"

section \<open>Boundaries\<close>

record boundary_state =
  bs_ids :: "string list"
  bs_reroutes :: "string list"
  bs_inputs :: "string list"
  bs_diags :: "diagnostic list"

definition check_binding ::
  "graph_def \<Rightarrow> topo \<Rightarrow> bool \<Rightarrow> boundary_item \<Rightarrow> boundary_binding \<Rightarrow> boundary_state \<Rightarrow> boundary_state" where
  "check_binding def tp is_input item b st =
     (case b of
        UnboundBinding type \<Rightarrow>
          st\<lparr>bs_diags := bs_diags st @
            report_if (bi_alsoBinds item \<noteq> None \<or> bi_promoted item \<noteq> None) ''doc.boundary.unbound''\<rparr>
      | ValueSourceBinding v type \<Rightarrow>
          st\<lparr>bs_diags := bs_diags st @
               report_if (\<not> defined (opt_read (gd_valueSources def) v)) ''doc.boundary.dangling'' @
               report_if (bi_alsoBinds item \<noteq> None \<or> \<not> is_input \<and> bi_promoted item \<noteq> None) ''doc.boundary.valueSource'' @
               report_if (is_input \<and> v \<in> set (bs_inputs st)) ''doc.boundary.valueSourceConflict'',
             bs_inputs := (if is_input then v # bs_inputs st else bs_inputs st)\<rparr>
      | WidgetTapBinding n t \<Rightarrow>
          st\<lparr>bs_diags := bs_diags st @ report_if (\<not> defined (read_key (gd_nodes def) n)) ''doc.boundary.dangling''\<rparr>
      | PortBinding kind n p members via slots \<Rightarrow>
          (let st1 = (case via of
             None \<Rightarrow> st
           | Some r \<Rightarrow>
               st\<lparr>bs_diags := bs_diags st @
                    report_if (\<not> is_input \<or> kind \<noteq> PortKind \<or> \<not> defined (read_key (gd_reroutes def) r) \<or>
                      map_of (tp_reroutes tp) r \<noteq> None \<or> r \<in> set (bs_reroutes st)) ''doc.boundary.rerouteInvalid'',
                  bs_reroutes := r # bs_reroutes st\<rparr>)
           in st1\<lparr>bs_diags := bs_diags st1 @ report_if (\<not> defined (read_key (gd_nodes def) n)) ''doc.boundary.dangling''\<rparr>))"

definition check_item :: "graph_def \<Rightarrow> topo \<Rightarrow> bool \<Rightarrow> boundary_item \<Rightarrow> boundary_state \<Rightarrow> boundary_state" where
  "check_item def tp is_input item st =
     fold (check_binding def tp is_input item) (all_binds item)
       (st\<lparr>bs_diags := bs_diags st @ report_if (bi_id item \<in> set (bs_ids st)) ''doc.boundary.duplicateId'',
           bs_ids := bi_id item # bs_ids st\<rparr>)"

definition check_boundary :: "graph_def \<Rightarrow> topo \<Rightarrow> diagnostic list" where
  "check_boundary def tp =
     (case gd_boundary def of
        None \<Rightarrow> []
      | Some (inputs, outputs) \<Rightarrow>
          bs_diags (fold (check_item def tp False) outputs (fold (check_item def tp True) inputs
            \<lparr>bs_ids = [], bs_reroutes = [], bs_inputs = [], bs_diags = []\<rparr>)))"

section \<open>A graph\<close>

definition checkGraphDef :: "(string \<times> graph_def) list \<Rightarrow> string \<Rightarrow> graph_def \<Rightarrow> js_error + diagnostic list" where
  "checkGraphDef graphs defId def =
     rbind (check_members graphs defId def) (\<lambda>st1.
     rbind (foldR (check_link def) st1 (gd_links def)) (\<lambda>st2.
     map_result (\<lambda>st3. tp_diags st3 @ check_boundary def st3)
       (foldR (check_net def) (check_chains def st2) (gd_nets def))))"

definition checkGraphTopology :: "(string \<times> graph_def) list \<Rightarrow> graph_def \<Rightarrow> js_error + diagnostic list" where
  "checkGraphTopology graphs def = checkGraphDef graphs (gd_id def) def"

end
