(* ===== verification/DocumentCheck.thy ===== *)
theory DocumentCheck
  imports GraphCheck
begin

text \<open>
  The invariants that span a workflow document: \<open>packages/core/src/invariants.ts\<close>, from \<open>checkDocument\<close> to
  the occurrence topologies, the recursion check and the view state.

  An occurrence is resolved from the root graph through subgraph nodes; a boundary route is followed from the
  owner's hop inwards, one leg per hop. A graph found under a name of \<open>Object.prototype\<close> has no members: reading
  one of its records by index throws.
\<close>

section \<open>Occurrence chains\<close>

record hop =
  hp_ref :: occurrence
  hp_parent :: string
  hp_body :: string
  hp_node :: node_data

fun resolve_chain ::
  "(string \<times> graph_def) list \<Rightarrow> string list \<Rightarrow> string \<Rightarrow> string list \<Rightarrow> js_error + hop list option" where
  "resolve_chain graphs walked graphId [] = Inr (Some [])"
| "resolve_chain graphs walked graphId (segment # segments) =
     (case read_key graphs graphId of
        Absent \<Rightarrow> Inr None
      | Inherited \<Rightarrow> Inl TypeError
      | Own graph \<Rightarrow>
          (case read_key (gd_nodes graph) segment of
             Absent \<Rightarrow> Inr None
           | Inherited \<Rightarrow> Inl TypeError
           | Own node \<Rightarrow>
               (case subgraphDefIdOf (nd_type node) of
                  None \<Rightarrow> Inr None
                | Some body \<Rightarrow>
                    if \<not> defined (read_key graphs body) then Inr None
                    else map_result
                      (map_option ((#) \<lparr>hp_ref = \<lparr>oc_path = walked, oc_node = segment\<rparr>, hp_parent = graphId,
                         hp_body = body, hp_node = node\<rparr>))
                      (resolve_chain graphs (walked @ [segment]) body segments))))"

definition resolveOccurrenceChain :: "workflow_document \<Rightarrow> occurrence \<Rightarrow> js_error + hop list option" where
  "resolveOccurrenceChain doc owner = resolve_chain (wd_graphs doc) [] (wd_root doc) (oc_path owner @ [oc_node owner])"

section \<open>Projected identities\<close>

definition containsNul :: "string \<Rightarrow> bool" where
  "containsNul s \<longleftrightarrow> CHR 0x00 \<in> set s"

definition any_nul :: "string list option \<Rightarrow> bool" where
  "any_nul ss \<longleftrightarrow> list_ex containsNul (opt_list ss)"

definition opt_nul :: "string option \<Rightarrow> bool" where
  "opt_nul s = (case s of None \<Rightarrow> False | Some x \<Rightarrow> containsNul x)"

definition portref_nul :: "portref \<Rightarrow> bool" where
  "portref_nul p \<longleftrightarrow> containsNul (pr_node p) \<or> containsNul (pr_port p) \<or> any_nul (pr_members p)"

fun endpointIdentityContainsNul :: "endpoint \<Rightarrow> bool" where
  "endpointIdentityContainsNul (RerouteEnd r) = containsNul r"
| "endpointIdentityContainsNul (ValueSourceEnd v) = containsNul v"
| "endpointIdentityContainsNul (SelectorEnd s c) = (containsNul s \<or> opt_nul c)"
| "endpointIdentityContainsNul (WidgetTapEnd n t) = (containsNul n \<or> containsNul t)"
| "endpointIdentityContainsNul (PortEnd p) = portref_nul p"

definition occurrenceRefContainsNul :: "occurrence \<Rightarrow> bool" where
  "occurrenceRefContainsNul ref \<longleftrightarrow> containsNul (oc_node ref) \<or> list_ex containsNul (oc_path ref)"

fun binding_nul :: "boundary_binding \<Rightarrow> bool" where
  "binding_nul (ValueSourceBinding v type) = containsNul v"
| "binding_nul (WidgetTapBinding n t) = (containsNul n \<or> containsNul t)"
| "binding_nul (PortBinding kind n p members via slots) =
     (containsNul n \<or> containsNul p \<or> opt_nul via \<or> any_nul members \<or> any_nul slots)"
| "binding_nul (UnboundBinding type) = False"

definition routeContainsNul :: "route_leg list \<Rightarrow> bool" where
  "routeContainsNul route =
     list_ex (\<lambda>leg. containsNul (rl_graph leg) \<or> containsNul (rl_boundaryId leg) \<or> binding_nul (rl_binding leg)) route"

fun occurrenceEndpointContainsNul :: "occurrence_endpoint \<Rightarrow> bool" where
  "occurrenceEndpointContainsNul (BodyEnd e) = endpointIdentityContainsNul e"
| "occurrenceEndpointContainsNul (BoundaryEnd occ port members route) =
     (occurrenceRefContainsNul occ \<or> containsNul port \<or> any_nul members \<or> routeContainsNul route)"

fun parentDeliveryContainsNul :: "parent_delivery \<Rightarrow> bool" where
  "parentDeliveryContainsNul (ParentLink graph linkId) = (containsNul graph \<or> containsNul linkId)"
| "parentDeliveryContainsNul (ParentNetSink graph netId to) = (containsNul graph \<or> containsNul netId \<or> portref_nul to)"

fun suppression_nul :: "suppressed_delivery \<Rightarrow> bool" where
  "suppression_nul (SuppressedLink linkId) = containsNul linkId"
| "suppression_nul (SuppressedNetSink netId to) = (containsNul netId \<or> portref_nul to)"
| "suppression_nul (SuppressedLeg delivery route) = (parentDeliveryContainsNul delivery \<or> routeContainsNul route)"

definition topologyIdentityContainsNul :: "string \<Rightarrow> occurrence_topology \<Rightarrow> bool" where
  "topologyIdentityContainsNul key topology \<longleftrightarrow>
     containsNul key \<or> occurrenceRefContainsNul (ot_owner topology) \<or> containsNul (ot_bodyGraph topology) \<or>
     list_ex (\<lambda>(linkKey, link). containsNul linkKey \<or> containsNul (ol_id link) \<or>
       occurrenceEndpointContainsNul (ol_from link) \<or> occurrenceEndpointContainsNul (ol_to link)) (ot_links topology) \<or>
     list_ex suppression_nul (opt_list (ot_suppressed topology))"

section \<open>Routes\<close>

datatype side = FromSide | ToSide

text \<open>The address a leg hands to the next hop, with the flag of an inherited dotted member; None when the leg
  does not lead there.\<close>

definition next_address ::
  "boundary_item \<Rightarrow> port_kind \<Rightarrow> string \<Rightarrow> string \<Rightarrow> string list option \<Rightarrow> string \<Rightarrow> string list option \<Rightarrow>
   ((string \<times> string list option) \<times> bool) option" where
  "next_address item kind node bport bmembers port members =
     (if kind = SlotKind \<or> kind = DynamicComboKind then
        map_option (\<lambda>r. ((pr_port r, pr_members r), False))
          (translate_subtree \<lparr>sx_boundaryId = bi_id item, sx_targetNode = node, sx_constructPath = bport,
             sx_hopMembers = members_of bmembers\<rparr> port members)
      else if kind = FamilyKind \<and> members = None \<and> under port (bi_id item) then
        Some ((bport @ drop (length (bi_id item)) port, None), True)
      else Some ((bport, bmembers), False))"

fun route_matches ::
  "(string \<times> graph_def) list \<Rightarrow> side \<Rightarrow> hop list \<Rightarrow> route_leg list \<Rightarrow> string \<times> string list option \<Rightarrow> bool \<Rightarrow> js_error + bool" where
  "route_matches graphs side (hop # hops) (leg # legs) (port, members) inherited =
     (case read_key graphs (hp_body hop) of
        Absent \<Rightarrow> Inl TypeError
      | Inherited \<Rightarrow> Inr False
      | Own graph \<Rightarrow>
          if rl_graph leg \<noteq> gd_id graph then Inr False
          else case matchBoundaryItem
              (case gd_boundary graph of None \<Rightarrow> [] | Some (ins, outs) \<Rightarrow> if side = FromSide then outs else ins) port members of
            Inl failure \<Rightarrow> Inr False
          | Inr item \<Rightarrow>
              if bi_id item \<noteq> rl_boundaryId leg then Inr False
              else if (case bi_binds item of PortBinding FamilyKind n p ms via sl \<Rightarrow> True | _ \<Rightarrow> False) \<and> \<not> inherited \<and>
                (case resolveDynamicAddress port members (nd_dynamic (hp_node hop)) of Resolved refs \<Rightarrow> False | _ \<Rightarrow> True)
              then Inr False
              else case filter (\<lambda>b. boundaryBindingKey b = boundaryBindingKey (rl_binding leg)) (all_binds item) of
                [ValueSourceBinding v type] \<Rightarrow>
                  if side \<noteq> FromSide \<or> legs \<noteq> [] \<or> \<not> defined (opt_read (gd_valueSources graph) v) then Inr False
                  else route_matches graphs side hops legs (port, members) inherited
              | [WidgetTapBinding n t] \<Rightarrow>
                  if \<not> defined (read_key (gd_nodes graph) n) \<or> legs \<noteq> [] then Inr False
                  else route_matches graphs side hops legs (port, members) inherited
              | [PortBinding kind n p ms via slots] \<Rightarrow>
                  if (case via of None \<Rightarrow> False | Some r \<Rightarrow>
                        side \<noteq> ToSide \<or> legs \<noteq> [] \<or> \<not> defined (read_key (gd_reroutes graph) r))
                  then Inr False
                  else if (case read_key (gd_nodes graph) n of
                      Absent \<Rightarrow> True
                    | Inherited \<Rightarrow> resolveDynamicAddress p ms None = Missing
                    | Own target \<Rightarrow> resolveDynamicAddress p ms (nd_dynamic target) = Missing)
                  then Inr False
                  else if legs = [] then Inr True
                  else if hops \<noteq> [] \<and> n \<noteq> oc_node (hp_ref (hd hops)) then Inr False
                  else (case next_address item kind n p ms port members of
                      None \<Rightarrow> Inr False
                    | Some (address, inh) \<Rightarrow> route_matches graphs side hops legs address inh)
              | _ \<Rightarrow> Inr False)"
| "route_matches graphs side hops legs address inherited = Inr True"

definition routeMatchesOwnerChain ::
  "(string \<times> graph_def) list \<Rightarrow> hop list \<Rightarrow> nat \<Rightarrow> side \<Rightarrow> string \<times> string list option \<Rightarrow> route_leg list \<Rightarrow>
   js_error + bool" where
  "routeMatchesOwnerChain graphs chain startIndex side address route =
     (if length route \<noteq> length chain - startIndex then Inr False
      else route_matches graphs side (drop startIndex chain) route address False)"

section \<open>Occurrence topologies\<close>

text \<open>Reads of a record and of an optional record of a graph that may be an inherited member.\<close>

definition graph_read :: "(graph_def \<Rightarrow> (string \<times> 'a) list) \<Rightarrow> graph_def slot \<Rightarrow> string \<Rightarrow> js_error + 'a slot" where
  "graph_read members g k = (case g of Own def \<Rightarrow> Inr (read_key (members def) k) | _ \<Rightarrow> Inl TypeError)"

definition graph_opt_read :: "(graph_def \<Rightarrow> (string \<times> 'a) list option) \<Rightarrow> graph_def slot \<Rightarrow> string \<Rightarrow> 'a slot" where
  "graph_opt_read members g k = (case g of Own def \<Rightarrow> opt_read (members def) k | _ \<Rightarrow> Absent)"

definition dangling :: "bool \<Rightarrow> diagnostic list" where
  "dangling b = report_if b ''doc.occurrenceTopology.endpointDangling''"

fun checkOccurrenceBodyEndpoint :: "graph_def slot \<Rightarrow> endpoint \<Rightarrow> side \<Rightarrow> js_error + diagnostic list" where
  "checkOccurrenceBodyEndpoint g (RerouteEnd r) side =
     map_result (\<lambda>s. dangling (\<not> defined s)) (graph_read gd_reroutes g r)"
| "checkOccurrenceBodyEndpoint g (ValueSourceEnd v) side =
     Inr (dangling (\<not> defined (graph_opt_read gd_valueSources g v) \<or> side = ToSide))"
| "checkOccurrenceBodyEndpoint g (SelectorEnd s c) side =
     (case graph_opt_read gd_selectors g s of
        Absent \<Rightarrow> Inr (dangling True)
      | Inherited \<Rightarrow> if c \<noteq> None then Inl TypeError else Inr (dangling (side = ToSide))
      | Own sel \<Rightarrow>
          Inr (dangling (case c of
            Some x \<Rightarrow> x \<notin> set (sl_candidates sel) \<or> side = FromSide
          | None \<Rightarrow> side = ToSide)))"
| "checkOccurrenceBodyEndpoint g (WidgetTapEnd n t) side =
     map_result (\<lambda>s. dangling (\<not> defined s \<or> side = ToSide)) (graph_read gd_nodes g n)"
| "checkOccurrenceBodyEndpoint g (PortEnd p) side =
     map_result (\<lambda>s. case s of
         Absent \<Rightarrow> dangling True
       | Inherited \<Rightarrow> report_if (dynamic_missing p None) ''doc.dynamic.memberMissing''
       | Own node \<Rightarrow> report_if (dynamic_missing p (nd_dynamic node)) ''doc.dynamic.memberMissing'')
       (graph_read gd_nodes g (pr_node p))"

fun find_index :: "('a \<Rightarrow> bool) \<Rightarrow> 'a list \<Rightarrow> nat option" where
  "find_index p [] = None"
| "find_index p (x # xs) = (if p x then Some 0 else map_option Suc (find_index p xs))"

definition region_index :: "endpoint \<Rightarrow> side \<Rightarrow> hop \<Rightarrow> bool" where
  "region_index e side last_hop \<longleftrightarrow>
     (case e of
        PortEnd p \<Rightarrow> side = FromSide \<and> pr_node p = ''$region'' \<and> pr_port p = ''index'' \<and> pr_members p = None \<and>
          nd_region (hp_node last_hop) \<noteq> None
      | _ \<Rightarrow> False)"

definition check_link_end ::
  "(string \<times> graph_def) list \<Rightarrow> hop list \<Rightarrow> graph_def slot \<Rightarrow> side \<Rightarrow> occurrence_endpoint \<Rightarrow> js_error + diagnostic list" where
  "check_link_end graphs chain body side e =
     (case e of
        BodyEnd endpoint \<Rightarrow>
          if region_index endpoint side (last chain) then Inr [] else checkOccurrenceBodyEndpoint body endpoint side
      | BoundaryEnd occ port members route \<Rightarrow>
          (case find_index (\<lambda>h. sameOccurrenceRef (hp_ref h) occ) chain of
             None \<Rightarrow> Inr [error_diag ''doc.occurrenceTopology.boundaryOccurrence'']
           | Some startIndex \<Rightarrow>
               map_result (\<lambda>ok. report_if (\<not> ok) ''doc.occurrenceTopology.routeInvalid'')
                 (routeMatchesOwnerChain graphs chain startIndex side (port, members) route)))"

definition topology_cursor :: "occurrence_topology \<Rightarrow> string option \<Rightarrow> nat" where
  "topology_cursor topology actor =
     (case actor of None \<Rightarrow> ot_nextOrdinal topology | Some a \<Rightarrow> actorCursorOf (ot_actorCursors topology) a)"

definition link_id_diags :: "occurrence_topology \<Rightarrow> string list \<Rightarrow> string \<Rightarrow> string \<Rightarrow> diagnostic list" where
  "link_id_diags topology seen linkKey ident =
     report_if (linkKey \<noteq> ident) ''doc.occurrenceTopology.linkKeyMismatch'' @
     report_if (ident \<in> set seen) ''doc.occurrenceTopology.linkDuplicate'' @
     (case parseAllocatedId ident of
        None \<Rightarrow> []
      | Some (p, ordinal, actor) \<Rightarrow>
          report_if (ordinal \<ge> topology_cursor topology actor) ''doc.occurrenceTopology.idAboveCursor'')"

fun check_topology_links ::
  "(string \<times> graph_def) list \<Rightarrow> occurrence_topology \<Rightarrow> hop list \<Rightarrow> graph_def slot \<Rightarrow> string list \<Rightarrow>
   (string \<times> occurrence_link) list \<Rightarrow> js_error + diagnostic list" where
  "check_topology_links graphs topology chain body seen [] = Inr []"
| "check_topology_links graphs topology chain body seen ((linkKey, link) # links) =
     rbind (check_link_end graphs chain body FromSide (ol_from link)) (\<lambda>f.
     rbind (check_link_end graphs chain body ToSide (ol_to link)) (\<lambda>t.
     map_result (\<lambda>ds. link_id_diags topology seen linkKey (ol_id link) @ f @ t @ ds)
       (check_topology_links graphs topology chain body (ol_id link # seen) links)))"

text \<open>The endpoints of a parent delivery that are ports, with their sides.\<close>

definition port_ends :: "side \<Rightarrow> endpoint \<Rightarrow> (side \<times> portref) list" where
  "port_ends side e = (case e of PortEnd p \<Rightarrow> [(side, p)] | _ \<Rightarrow> [])"

definition delivery_graph :: "parent_delivery \<Rightarrow> string" where
  "delivery_graph d = (case d of ParentLink graph linkId \<Rightarrow> graph | ParentNetSink graph netId to \<Rightarrow> graph)"

definition projectedDeliveryEndpoints ::
  "(string \<times> graph_def) list \<Rightarrow> parent_delivery \<Rightarrow> js_error + (side \<times> portref) list option" where
  "projectedDeliveryEndpoints graphs delivery =
     (case read_key graphs (delivery_graph delivery) of
        Absent \<Rightarrow> Inr None
      | Inherited \<Rightarrow> Inl TypeError
      | Own def \<Rightarrow>
          (case delivery of
             ParentLink graph linkId \<Rightarrow>
               (case read_key (gd_links def) linkId of
                  Absent \<Rightarrow> Inr None
                | Inherited \<Rightarrow> Inl TypeError
                | Own link \<Rightarrow> Inr (Some (port_ends FromSide (ln_from link) @ port_ends ToSide (ln_to link))))
           | ParentNetSink graph netId to \<Rightarrow>
               (case read_key (gd_nets def) netId of
                  Absent \<Rightarrow> Inr None
                | Inherited \<Rightarrow> Inl TypeError
                | Own net \<Rightarrow>
                    Inr (if list_ex (\<lambda>sink. samePortRef sink to) (nt_sinks net)
                         then Some [(FromSide, nt_source net), (ToSide, to)] else None))))"

definition delivery_matches ::
  "(string \<times> graph_def) list \<Rightarrow> hop list \<Rightarrow> string \<Rightarrow> route_leg list \<Rightarrow> side \<times> portref \<Rightarrow> js_error + unit list" where
  "delivery_matches graphs chain graph route = (\<lambda>(side, p).
     (case find_index (\<lambda>h. hp_parent h = graph \<and> oc_node (hp_ref h) = pr_node p) chain of
        None \<Rightarrow> Inr []
      | Some startIndex \<Rightarrow>
          map_result (\<lambda>ok. if ok then [()] else [])
            (routeMatchesOwnerChain graphs chain startIndex side (pr_port p, pr_members p) route)))"

definition check_suppression ::
  "(string \<times> graph_def) list \<Rightarrow> hop list \<Rightarrow> graph_def slot \<Rightarrow> suppressed_delivery \<Rightarrow> js_error + diagnostic list" where
  "check_suppression graphs chain body suppression =
     (case suppression of
        SuppressedLink linkId \<Rightarrow> Inr []
      | SuppressedNetSink netId to \<Rightarrow>
          rbind (graph_read gd_nets body netId) (\<lambda>net.
            case net of
              Absent \<Rightarrow> Inr [error_diag ''doc.occurrenceTopology.suppressionDangling'']
            | Inherited \<Rightarrow> Inl TypeError
            | Own n \<Rightarrow>
                Inr (report_if (\<not> list_ex (\<lambda>sink. samePortRef sink to) (nt_sinks n)) ''doc.occurrenceTopology.suppressionDangling''))
      | SuppressedLeg delivery route \<Rightarrow>
          rbind (projectedDeliveryEndpoints graphs delivery) (\<lambda>ends.
            map_result (\<lambda>matches. report_if (length matches \<noteq> 1)
                (if ends = None then ''doc.occurrenceTopology.suppressionDangling'' else ''doc.occurrenceTopology.routeInvalid''))
              (gather (delivery_matches graphs chain (delivery_graph delivery) route) (opt_list ends))))"

definition check_topology ::
  "workflow_document \<Rightarrow> string \<times> occurrence_topology \<Rightarrow> js_error + diagnostic list" where
  "check_topology doc = (\<lambda>(key, topology).
     map_result ((@) (report_if (occurrenceKey (ot_owner topology) \<noteq> key) ''doc.occurrenceTopology.keyMismatch''))
       (rbind (resolveOccurrenceChain doc (ot_owner topology)) (\<lambda>resolved.
          case resolved of
            None \<Rightarrow> Inr [error_diag ''doc.occurrenceTopology.ownerMissing'']
          | Some chain \<Rightarrow>
              if hp_body (last chain) \<noteq> ot_bodyGraph topology
              then Inr [error_diag ''doc.occurrenceTopology.bodyMismatch'']
              else
                let body = read_key (wd_graphs doc) (ot_bodyGraph topology) in
                rbind (check_topology_links (wd_graphs doc) topology chain body [] (ot_links topology)) (\<lambda>ls.
                  map_result (\<lambda>ss. report_if (topologyIdentityContainsNul key topology) ''doc.occurrenceTopology.projectedId'' @ ls @ ss)
                    (gather (check_suppression (wd_graphs doc) chain body) (opt_list (ot_suppressed topology)))))))"

definition checkOccurrenceTopologies :: "workflow_document \<Rightarrow> js_error + diagnostic list" where
  "checkOccurrenceTopologies doc = gather (check_topology doc) (opt_list (wd_topologies doc))"

section \<open>Recursion\<close>

definition definition_refs :: "(string \<times> graph_def) list \<Rightarrow> (string \<times> string list) list" where
  "definition_refs graphs =
     map (\<lambda>(defId, def). (defId, concat (map (\<lambda>(key, node).
       case subgraphDefIdOf (nd_type node) of
         None \<Rightarrow> []
       | Some ref \<Rightarrow> if defined (read_key graphs ref) then [ref] else []) (gd_nodes def)))) graphs"

definition checkNoRecursion :: "(string \<times> graph_def) list \<Rightarrow> diagnostic list" where
  "checkNoRecursion graphs =
     walk_from (\<lambda>key. error_diag ''doc.subgraph.recursive'') False (definition_refs graphs) (map fst graphs)"

section \<open>View state\<close>

definition warn_missing :: "string \<Rightarrow> 'a slot \<Rightarrow> diagnostic list" where
  "warn_missing code s = (if defined s then [] else [warning_diag code])"

definition check_view :: "(string \<times> graph_def) list \<Rightarrow> string \<times> graph_view \<Rightarrow> js_error + diagnostic list" where
  "check_view graphs = (\<lambda>(defId, v).
     let g = read_key graphs defId in
     if \<not> defined g then Inr [warning_diag ''doc.view.danglingGraph'']
     else
       rbind (gather (\<lambda>k. map_result (warn_missing ''doc.view.danglingNode'') (graph_read gd_nodes g k)) (gv_nodes v)) (\<lambda>nodes.
       rbind (gather (\<lambda>k. map_result (warn_missing ''doc.view.danglingReroute'') (graph_read gd_reroutes g k))
         (opt_list (gv_reroutes v))) (\<lambda>reroutes.
       rbind (gather (\<lambda>k. map_result (warn_missing ''doc.view.danglingNet'') (graph_read gd_nets g k))
         (opt_list (gv_collapsedNets v))) (\<lambda>collapsed.
       map_result (\<lambda>guides.
           nodes @ reroutes @
           concat (map (\<lambda>k. warn_missing ''doc.view.danglingValueSource'' (graph_opt_read gd_valueSources g k)) (opt_list (gv_valueSources v))) @
           concat (map (\<lambda>k. warn_missing ''doc.view.danglingSelector'' (graph_opt_read gd_selectors g k)) (opt_list (gv_selectors v))) @
           collapsed @ guides)
         (gather (\<lambda>k. map_result (\<lambda>s.
             if \<not> defined s then [warning_diag ''doc.view.danglingNet'']
             else if k \<notin> set (opt_list (gv_collapsedNets v)) then [warning_diag ''doc.view.guideNotCollapsed''] else [])
           (graph_read gd_nets g k)) (opt_list (gv_guideNets v)))))))"

definition checkViewState :: "workflow_document \<Rightarrow> js_error + diagnostic list" where
  "checkViewState doc = gather (check_view (wd_graphs doc)) (wd_view doc)"

section \<open>A document\<close>

definition checkDocument :: "workflow_document \<Rightarrow> js_error + diagnostic list" where
  "checkDocument doc =
     (if \<not> defined (read_key (wd_graphs doc) (wd_root doc)) then Inr [error_diag ''doc.root.missing'']
      else
        rbind (gather (\<lambda>(defId, def). checkGraphDef (wd_graphs doc) defId def) (wd_graphs doc)) (\<lambda>gs.
        rbind (checkOccurrenceTopologies doc) (\<lambda>ts.
        map_result (\<lambda>vs. gs @ checkNoRecursion (wd_graphs doc) @ ts @ vs) (checkViewState doc))))"

end
