(* ===== verification/GraphRegion.thy ===== *)
theory GraphRegion
  imports GraphCheck
begin

text \<open>
  What \<open>checkRegion\<close> asks of a loop region, as a contract: which ports there must be and how each kind of loop uses them.
\<close>

section \<open>The contract\<close>

text \<open>A port of the occurrence has an outer input: a value, a link or a net of the graph it lies in.\<close>

definition fed :: "(string \<times> graph_def) list \<Rightarrow> string \<Rightarrow> node_data \<Rightarrow> string \<Rightarrow> bool" where
  "fed graphs graphId node port \<longleftrightarrow>
     port \<in> fst ` set (nd_values node) \<or>
     (\<exists>g. map_of graphs graphId = Some g \<and>
        ((\<exists>l \<in> snd ` set (gd_links g). \<exists>p. ln_to l = PortEnd p \<and> feeds (nd_id node) port p) \<or>
         (\<exists>n \<in> snd ` set (gd_nets g). \<exists>s \<in> set (nt_sinks n). feeds (nd_id node) port s)))"

definition elements_of :: "json \<Rightarrow> string set" where
  "elements_of region = set (texts_of (field region ''elementPorts''))"

definition states_of :: "json \<Rightarrow> string set" where
  "states_of region = set (texts_of (field region ''statePorts''))"

text \<open>The state ports that outputs with the state role carry on, in order.\<close>

definition carried :: "(string \<times> json) list \<Rightarrow> string list" where
  "carried roles = map (\<lambda>kr. text_of (field (snd kr) ''statePort''))
     (filter (\<lambda>kr. text_of (field (snd kr) ''kind'') = ''state'') roles)"

text \<open>A map and a fold go over elements, a map has no state, a while has state, no elements, a condition and a bound.\<close>

definition kind_contract :: "json \<Rightarrow> bool" where
  "kind_contract region \<longleftrightarrow>
     (let kind = text_field region ''kind''; condition = (text_field region ''continueOutput'' \<noteq> None) in
      (kind \<in> {Some ''map'', Some ''fold''} \<longrightarrow> elements_of region \<noteq> {} \<and> \<not> condition) \<and>
      (kind = Some ''map'' \<longrightarrow> states_of region = {}) \<and>
      (kind \<notin> {Some ''map'', Some ''fold''} \<longrightarrow>
         elements_of region = {} \<and> states_of region \<noteq> {} \<and> condition \<and> field region ''maxIterations'' \<noteq> None \<and>
         text_field region ''binding'' \<notin> {Some ''cross'', Some ''broadcast''}))"

definition ports_contract ::
  "(string \<times> graph_def) list \<Rightarrow> string \<Rightarrow> node_data \<Rightarrow> json \<Rightarrow> graph_def \<Rightarrow> boundary_item list \<Rightarrow> boundary_item list \<Rightarrow> bool" where
  "ports_contract graphs graphId node region body inputs outputs \<longleftrightarrow>
     (let ins = bi_id ` set inputs; outs = bi_id ` set outputs; cont = text_field region ''continueOutput'';
          roles = entries_of (field region ''outputRoles'') in
      elements_of region \<union> states_of region \<subseteq> ins \<and> elements_of region \<inter> states_of region = {} \<and>
      (\<forall>port \<in> elements_of region \<union> states_of region. fed graphs graphId node port) \<and>
      (\<forall>port \<in> elements_of region. Option.bind (find (\<lambda>i. bi_id i = port) inputs) bi_promoted \<noteq> Some True) \<and>
      fst ` set roles \<subseteq> outs \<and> cont \<notin> Some ` fst ` set roles \<and>
      distinct (carried roles) \<and> set (carried roles) = states_of region \<and>
      (\<forall>c. cont = Some c \<longrightarrow> c \<in> outs) \<and> ((\<exists>i \<in> outs. Some i \<noteq> cont) \<or> gd_nodes body \<noteq> []) \<and>
      (field region ''maxIterations'' \<noteq> None \<longrightarrow> 1 \<le> number_of (field region ''maxIterations'')))"

text \<open>A region is well-shaped and sits on an occurrence of a definition, which, if it is there, has a boundary.\<close>

definition region_contract :: "(string \<times> graph_def) list \<Rightarrow> string \<Rightarrow> node_data \<Rightarrow> json \<Rightarrow> bool" where
  "region_contract graphs graphId node region \<longleftrightarrow>
     regionContractShapeProblems region = [] \<and>
     (\<exists>ref. subgraphDefIdOf (nd_type node) = Some ref \<and>
        (read_key graphs ref = Absent \<or>
         (\<exists>body inputs outputs. map_of graphs ref = Some body \<and> gd_boundary body = Some (inputs, outputs) \<and>
            ports_contract graphs graphId node region body inputs outputs \<and> kind_contract region)))"

section \<open>The check decides it\<close>

lemma report_if_Nil [simp]: "report_if b code = [] \<longleftrightarrow> \<not> b"
  by (simp add: report_if_def)

lemma gather_Nil: "gather f xs = Inr [] \<longleftrightarrow> (\<forall>x \<in> set xs. f x = Inr [])"
proof (induction xs)
  case (Cons x xs)
  then show ?case by (cases "f x"; cases "gather f xs") (auto simp: result_simps)
qed simp

lemma hasInput_fed: "hasInput graphs graphId node port = Inr True \<longleftrightarrow> fed graphs graphId node port"
proof (cases "map_of (nd_values node) port")
  case None
  then have "port \<notin> fst ` set (nd_values node)" by (simp add: map_of_eq_None_iff)
  moreover have "(\<exists>l \<in> set ls. case input_of_link (ln_to (snd l)) of Some p \<Rightarrow> feeds n port p | None \<Rightarrow> False) \<longleftrightarrow>
      (\<exists>l \<in> snd ` set ls. \<exists>p. ln_to l = PortEnd p \<and> feeds n port p)" for ls :: "(string \<times> link_data) list" and n
    unfolding bex_simps by (intro bex_cong refl) (auto split: option.split elim!: input_of_link.elims)
  ultimately show ?thesis
    using None by (cases "map_of graphs graphId") (auto simp: hasInput_def fed_def read_key_def)
next
  case (Some v)
  then show ?thesis by (auto simp: hasInput_def fed_def dest: map_of_in_set intro: rev_image_eqI)
qed

lemma missing_input_Nil:
  "missing_input graphs graphId node inputIds port = Inr [] \<longleftrightarrow> port \<notin> set inputIds \<or> fed graphs graphId node port"
proof (cases "hasInput graphs graphId node port")
  case (Inr b)
  then show ?thesis using hasInput_fed [of graphs graphId node port] by (cases b) (simp_all add: missing_input_def report_if_def)
qed (use hasInput_fed [of graphs graphId node port] in \<open>simp add: missing_input_def\<close>)

lemma append_result: "map_result ((@) xs) r = Inr [] \<longleftrightarrow> xs = [] \<and> r = Inr []"
  by (cases r) auto

lemma element_diags_Nil:
  "element_diags graphs graphId node inputs states port = Inr [] \<longleftrightarrow>
     port \<in> bi_id ` set inputs \<and> port \<notin> set states \<and>
     Option.bind (find (\<lambda>i. bi_id i = port) inputs) bi_promoted \<noteq> Some True \<and> fed graphs graphId node port"
  by (auto simp: element_diags_def append_result report_if_Nil missing_input_Nil)

lemma state_diags_Nil:
  "state_diags graphs graphId node inputIds port = Inr [] \<longleftrightarrow> port \<in> set inputIds \<and> fed graphs graphId node port"
  by (auto simp: state_diags_def append_result report_if_Nil missing_input_Nil)

lemma role_diags_Nil:
  "role_diags inputIds outputIds states cont targets roles = (final, []) \<longleftrightarrow>
     final = rev (carried roles) @ targets \<and> fst ` set roles \<subseteq> set outputIds \<and> cont \<notin> Some ` fst ` set roles \<and>
     set (carried roles) \<subseteq> set states \<inter> set inputIds \<and> distinct (carried roles) \<and> set (carried roles) \<inter> set targets = {}"
proof (induction roles arbitrary: targets)
  case (Cons kr roles)
  obtain ident role where kr: "kr = (ident, role)" by (cases kr)
  show ?case
  proof (cases "text_of (field role ''kind'') = ''state''")
    case False
    then have "carried (kr # roles) = carried roles" by (simp add: carried_def kr)
    then show ?thesis using False Cons.IH [of targets]
      by (auto simp: kr report_if_Nil Let_def split: prod.splits)
  next
    case True
    define port where "port = text_of (field role ''statePort'')"
    have carried: "carried (kr # roles) = port # carried roles" using True by (simp add: carried_def kr port_def)
    show ?thesis
    proof (cases "ident \<in> set outputIds \<and> port \<notin> set targets")
      case True
      then show ?thesis using \<open>text_of (field role ''kind'') = ''state''\<close> Cons.IH [of "port # targets"] unfolding carried
        by (auto simp: kr report_if_Nil Let_def port_def [symmetric] split: prod.splits)
    next
      case False
      then show ?thesis using \<open>text_of (field role ''kind'') = ''state''\<close> unfolding carried
        by (auto simp: kr report_if_Nil Let_def port_def [symmetric] split: prod.splits)
    qed
  qed
qed (auto simp: carried_def)

lemma kind_diags_Nil:
  assumes "set elements = elements_of region" and "set states = states_of region"
  shows "kind_diags region elements states = [] \<longleftrightarrow> kind_contract region"
proof -
  have empty: "elements = [] \<longleftrightarrow> elements_of region = {}" "states = [] \<longleftrightarrow> states_of region = {}"
    using assms by (simp_all flip: set_empty)
  consider "text_field region ''kind'' = Some ''map''" | "text_field region ''kind'' = Some ''fold''"
    | "text_field region ''kind'' \<noteq> Some ''map''" "text_field region ''kind'' \<noteq> Some ''fold''" by blast
  then show ?thesis
    by cases (auto simp: kind_diags_def kind_contract_def report_if_Nil empty)
qed

lemma set_js_set: "set (js_set xs) = set xs"
  by (simp add: js_set_def)

lemma concat_reports: "concat (map (\<lambda>x. report_if (P x) code) xs) = [] \<longleftrightarrow> (\<forall>x \<in> set xs. \<not> P x)"
  by (auto simp: report_if_def)

lemma result_bind_Nil: "rbind r f = Inr [] \<longleftrightarrow> (\<exists>x. r = Inr x \<and> f x = Inr [])"
  by (cases r) simp_all

lemma gather_parts:
  "gather f xs = Inr ys \<Longrightarrow> ys = [] \<longleftrightarrow> gather f xs = Inr []"
  by auto

lemma region_diags_Nil:
  "region_diags graphs graphId node region body inputs outputs = Inr [] \<longleftrightarrow>
     ports_contract graphs graphId node region body inputs outputs \<and> kind_contract region"
proof -
  let ?els = "js_set (texts_of (field region ''elementPorts''))" and ?sts = "js_set (texts_of (field region ''statePorts''))"
  let ?roles = "entries_of (field region ''outputRoles'')" and ?cont = "text_field region ''continueOutput''"
  let ?els_ok = "gather (element_diags graphs graphId node inputs ?sts) ?els = Inr []"
  let ?sts_ok = "gather (state_diags graphs graphId node (map bi_id inputs)) ?sts = Inr []"
  have sets: "set ?els = elements_of region" "set ?sts = states_of region"
    by (simp_all add: set_js_set elements_of_def states_of_def)
  obtain targets rds where run: "role_diags (map bi_id inputs) (map bi_id outputs) ?sts ?cont [] ?roles = (targets, rds)"
    by (cases "role_diags (map bi_id inputs) (map bi_id outputs) ?sts ?cont [] ?roles")
  let ?roles_ok = "fst ` set ?roles \<subseteq> bi_id ` set outputs \<and> ?cont \<notin> Some ` fst ` set ?roles \<and>
      set (carried ?roles) \<subseteq> states_of region \<inter> bi_id ` set inputs \<and> distinct (carried ?roles)"
  note final = role_diags_Nil [of "map bi_id inputs" "map bi_id outputs" ?sts ?cont "[]" ?roles, unfolded run sets set_map]
  have roles: "rds = [] \<and> states_of region \<subseteq> set targets \<longleftrightarrow> ?roles_ok \<and> states_of region \<subseteq> set (carried ?roles)"
  proof
    assume "rds = [] \<and> states_of region \<subseteq> set targets"
    then show "?roles_ok \<and> states_of region \<subseteq> set (carried ?roles)" using final [of targets] by simp
  next
    assume "?roles_ok \<and> states_of region \<subseteq> set (carried ?roles)"
    then show "rds = [] \<and> states_of region \<subseteq> set targets" using final [of "rev (carried ?roles)"] by simp
  qed
  have members: "?els_ok \<and> ?sts_ok \<longleftrightarrow>
      elements_of region \<union> states_of region \<subseteq> bi_id ` set inputs \<and> elements_of region \<inter> states_of region = {} \<and>
      (\<forall>port \<in> elements_of region \<union> states_of region. fed graphs graphId node port) \<and>
      (\<forall>port \<in> elements_of region. Option.bind (find (\<lambda>i. bi_id i = port) inputs) bi_promoted \<noteq> Some True)"
    unfolding gather_Nil element_diags_Nil state_diags_Nil sets set_map by blast
  have silent: "region_diags graphs graphId node region body inputs outputs = Inr [] \<longleftrightarrow>
      (?els_ok \<and> ?sts_ok) \<and> (rds = [] \<and> states_of region \<subseteq> set targets) \<and>
      (\<forall>c. ?cont = Some c \<longrightarrow> c \<in> bi_id ` set outputs) \<and> ((\<exists>i \<in> bi_id ` set outputs. Some i \<noteq> ?cont) \<or> gd_nodes body \<noteq> []) \<and>
      (field region ''maxIterations'' \<noteq> None \<longrightarrow> 1 \<le> number_of (field region ''maxIterations'')) \<and> kind_contract region"
    unfolding region_diags_def Let_def result_bind_Nil run prod.case
    by (auto simp: concat_reports report_if_Nil kind_diags_Nil [OF sets] sets not_less split: option.splits)
  have carry: "?roles_ok \<and> states_of region \<subseteq> set (carried ?roles) \<longleftrightarrow>
      fst ` set ?roles \<subseteq> bi_id ` set outputs \<and> ?cont \<notin> Some ` fst ` set ?roles \<and> distinct (carried ?roles) \<and>
      set (carried ?roles) = states_of region" if "states_of region \<subseteq> bi_id ` set inputs"
    using that by blast
  show ?thesis
  proof (cases "states_of region \<subseteq> bi_id ` set inputs")
    case True
    show ?thesis unfolding silent members roles carry [OF True] ports_contract_def Let_def by argo
  next
    case False
    then show ?thesis unfolding silent members ports_contract_def Let_def Un_subset_iff by argo
  qed
qed

lemma checkRegion_silent: "checkRegion graphs graphId node region = Inr [] \<longleftrightarrow> region_contract graphs graphId node region"
proof (cases "regionContractShapeProblems region = []")
  case shape: True
  show ?thesis
  proof (cases "subgraphDefIdOf (nd_type node)")
    case (Some ref)
    then show ?thesis using shape
      by (cases "map_of graphs ref")
        (auto simp: checkRegion_def region_contract_def read_key_def region_diags_Nil split: option.split)
  qed (use shape in \<open>simp add: checkRegion_def region_contract_def\<close>)
qed (simp add: checkRegion_def region_contract_def)

end
