(* ===== verification/GraphLaws.thy ===== *)
theory GraphLaws
  imports GraphRegion
begin

text \<open>
  The graph check is exact: it is silent just in case the graph satisfies its invariants, stated here without the
  order and the bookkeeping of the loops. Names are taken not to be members of \<open>Object.prototype\<close>; what the
  check misses otherwise is shown at the end.
\<close>

section \<open>Loops without diagnostics\<close>

text \<open>A loop whose step leaves its state clean just in case it was clean and a condition holds, and then does
  what \<open>record_step\<close> does.\<close>

fun all_along :: "('s \<Rightarrow> 'x \<Rightarrow> 's) \<Rightarrow> ('s \<Rightarrow> 'x \<Rightarrow> bool) \<Rightarrow> 's \<Rightarrow> 'x list \<Rightarrow> bool" where
  "all_along g c st [] = True"
| "all_along g c st (x # xs) = (c st x \<and> all_along g c (g st x) xs)"

locale clean_loop =
  fixes step :: "'s \<Rightarrow> 'x \<Rightarrow> 'e + 's" and clean :: "'s \<Rightarrow> bool"
    and cond :: "'s \<Rightarrow> 'x \<Rightarrow> bool" and record_step :: "'s \<Rightarrow> 'x \<Rightarrow> 's"
  assumes step_clean: "step st x = Inr st' \<and> clean st' \<longleftrightarrow> clean st \<and> cond st x \<and> st' = record_step st x"
begin

lemma loop_clean:
  "foldR step st xs = Inr st' \<and> clean st' \<longleftrightarrow>
   clean st \<and> all_along record_step cond st xs \<and> st' = foldl record_step st xs"
proof (induction xs arbitrary: st)
  case (Cons x xs)
  have "foldR step st (x # xs) = Inr st' \<and> clean st' \<longleftrightarrow>
      (\<exists>st1. step st x = Inr st1 \<and> foldR step st1 xs = Inr st' \<and> clean st')"
    by (auto simp: result_simps)
  also have "\<dots> \<longleftrightarrow> (\<exists>st1. (step st x = Inr st1 \<and> clean st1) \<and> all_along record_step cond st1 xs \<and> st' = foldl record_step st1 xs)"
    using Cons.IH by blast
  finally show ?case unfolding step_clean by auto
qed auto

end

lemma foldR_Inr: "foldR (\<lambda>st x. Inr (h x st)) st xs = Inr (fold h xs st)"
  by (induction xs arbitrary: st) simp_all

section \<open>Steps\<close>

abbreviation silent :: "topo \<Rightarrow> bool" where
  "silent st \<equiv> tp_diags st = []"

lemma push_Nil [simp]: "push [] st = st"
  by (simp add: push_def)

lemma push_fields [simp]:
  "tp_diags (push ds st) = tp_diags st @ ds" "tp_seen (push ds st) = tp_seen st" "tp_inputs (push ds st) = tp_inputs st"
  "tp_reroutes (push ds st) = tp_reroutes st" "tp_candidates (push ds st) = tp_candidates st"
  "tp_selectors (push ds st) = tp_selectors st"
  by (simp_all add: push_def)

text \<open>An id that is new and below its cursor.\<close>

definition fresh_id :: "graph_def \<Rightarrow> topo \<Rightarrow> string \<Rightarrow> bool" where
  "fresh_id def st ident \<longleftrightarrow> ident \<notin> set (tp_seen st) \<and> checkCursor def ident = []"

definition note_id :: "topo \<Rightarrow> string \<Rightarrow> topo" where
  "note_id st ident = st\<lparr>tp_seen := ident # tp_seen st\<rparr>"

lemma note_id_fields [simp]:
  "tp_diags (note_id st i) = tp_diags st" "tp_seen (note_id st i) = i # tp_seen st" "tp_inputs (note_id st i) = tp_inputs st"
  "tp_reroutes (note_id st i) = tp_reroutes st" "tp_candidates (note_id st i) = tp_candidates st"
  "tp_selectors (note_id st i) = tp_selectors st"
  by (simp_all add: note_id_def)

lemma checkId_diags: "silent (checkId def ident st) \<longleftrightarrow> silent st \<and> fresh_id def st ident"
  by (auto simp: checkId_def fresh_id_def)

lemma checkId_fresh: "fresh_id def st ident \<Longrightarrow> checkId def ident st = note_id st ident"
  by (simp add: checkId_def fresh_id_def note_id_def report_if_def)

lemma push_silent: "push ds st = st' \<and> silent st' \<longleftrightarrow> silent st \<and> ds = [] \<and> st' = st"
  by (auto simp: push_def)

text \<open>The first steps of every loop: the key is the id, and the id is fresh.\<close>

lemma keyed_id:
  "silent (checkId def ident (push (report_if (key \<noteq> ident) code) st)) \<longleftrightarrow> silent st \<and> key = ident \<and> fresh_id def st ident"
  by (auto simp: checkId_diags fresh_id_def)

lemma keyed_id_state:
  "key = ident \<Longrightarrow> fresh_id def st ident \<Longrightarrow> checkId def ident (push (report_if (key \<noteq> ident) code) st) = note_id st ident"
  by (simp add: report_if_def checkId_fresh)

definition subgraph_resolves :: "(string \<times> graph_def) list \<Rightarrow> node_data \<Rightarrow> bool" where
  "subgraph_resolves graphs node \<longleftrightarrow> (\<forall>ref. subgraphDefIdOf (nd_type node) = Some ref \<longrightarrow> defined (read_key graphs ref))"

definition region_ok :: "(string \<times> graph_def) list \<Rightarrow> string \<Rightarrow> node_data \<Rightarrow> bool" where
  "region_ok graphs defId node \<longleftrightarrow> (\<forall>region. nd_region node = Some region \<longrightarrow> region_contract graphs defId node region)"

definition node_ok :: "(string \<times> graph_def) list \<Rightarrow> string \<Rightarrow> string \<times> node_data \<Rightarrow> bool" where
  "node_ok graphs defId kn \<longleftrightarrow>
     fst kn = nd_id (snd kn) \<and> subgraph_resolves graphs (snd kn) \<and> region_ok graphs defId (snd kn)"

lemma check_node_clean:
  "check_node graphs defId def st kn = Inr st' \<and> silent st' \<longleftrightarrow>
   silent st \<and> (fresh_id def st (nd_id (snd kn)) \<and> node_ok graphs defId kn) \<and> st' = note_id st (nd_id (snd kn))"
proof -
  obtain key node where kn: "kn = (key, node)" by (cases kn)
  define st1 where "st1 = checkId def (nd_id node) (push (report_if (key \<noteq> nd_id node) ''doc.node.keyMismatch'') st)"
  define sub where "sub = (case subgraphDefIdOf (nd_type node) of
      Some ref \<Rightarrow> report_if (\<not> defined (read_key graphs ref)) ''doc.subgraph.dangling'' | None \<Rightarrow> [])"
  have sub: "sub = [] \<longleftrightarrow> subgraph_resolves graphs node"
    by (auto simp: sub_def subgraph_resolves_def split: option.splits)
  have step: "check_node graphs defId def st kn = (case nd_region node of None \<Rightarrow> Inr (push sub st1)
      | Some region \<Rightarrow> map_result (\<lambda>ds. push ds (push sub st1)) (checkRegion graphs defId node region))"
    unfolding check_node_def kn st1_def sub_def Let_def by simp
  have st1: "silent st1 \<longleftrightarrow> silent st \<and> key = nd_id node \<and> fresh_id def st (nd_id node)"
    unfolding st1_def by (rule keyed_id)
  have st1_eq: "silent st1 \<Longrightarrow> st1 = note_id st (nd_id node)"
    unfolding st1 unfolding st1_def by (rule keyed_id_state) auto
  have "check_node graphs defId def st kn = Inr st' \<and> silent st' \<longleftrightarrow> silent st1 \<and> sub = [] \<and> region_ok graphs defId node \<and> st' = st1"
    unfolding step by (cases "nd_region node") (auto simp: region_ok_def result_simps simp flip: checkRegion_silent)
  then show ?thesis using st1 st1_eq sub kn by (auto simp: node_ok_def)
qed

interpretation nodes: clean_loop "check_node graphs defId def" silent
  "\<lambda>st kn. fresh_id def st (nd_id (snd kn)) \<and> node_ok graphs defId kn" "\<lambda>st kn. note_id st (nd_id (snd kn))"
  for graphs defId def
  by unfold_locales (rule check_node_clean)

interpretation keyed: clean_loop "\<lambda>st kv. Inr (check_keyed def code kv st) :: js_error + topo" silent
  "\<lambda>st kv. fresh_id def st (snd kv) \<and> fst kv = snd kv" "\<lambda>st kv. note_id st (snd kv)" for def code
proof
  fix st st' :: topo and kv :: "string \<times> string"
  have "silent (check_keyed def code kv st) \<longleftrightarrow> silent st \<and> fst kv = snd kv \<and> fresh_id def st (snd kv)"
    unfolding check_keyed_def case_prod_beta by (rule keyed_id)
  moreover have "fst kv = snd kv \<Longrightarrow> fresh_id def st (snd kv) \<Longrightarrow> check_keyed def code kv st = note_id st (snd kv)"
    unfolding check_keyed_def case_prod_beta by (rule keyed_id_state)
  ultimately show "(Inr (check_keyed def code kv st) :: js_error + topo) = Inr st' \<and> silent st' \<longleftrightarrow>
      silent st \<and> (fresh_id def st (snd kv) \<and> fst kv = snd kv) \<and> st' = note_id st (snd kv)"
    by auto
qed

definition selector_ok :: "graph_def \<Rightarrow> string \<times> selector_data \<Rightarrow> bool" where
  "selector_ok def ks \<longleftrightarrow>
     fst ks = sl_id (snd ks) \<and> distinct (sl_candidates (snd ks)) \<and>
     (\<forall>c \<in> set (sl_candidates (snd ks)). checkCursor def c = []) \<and>
     (\<forall>c. sl_policy (snd ks) = FixedPolicy c \<longrightarrow> c \<in> set (sl_candidates (snd ks)))"

lemma candidate_diags_Nil:
  "candidate_diags def seen cs = [] \<longleftrightarrow> distinct cs \<and> set cs \<inter> set seen = {} \<and> (\<forall>c \<in> set cs. checkCursor def c = [])"
  by (induction cs arbitrary: seen) auto

interpretation selectors: clean_loop "\<lambda>st ks. Inr (check_selector def ks st) :: js_error + topo" silent
  "\<lambda>st ks. fresh_id def st (sl_id (snd ks)) \<and> selector_ok def ks" "\<lambda>st ks. note_id st (sl_id (snd ks))" for def
proof
  fix st st' :: topo and ks :: "string \<times> selector_data"
  define st1 where "st1 = checkId def (sl_id (snd ks)) (push (report_if (fst ks \<noteq> sl_id (snd ks)) ''doc.selector.keyMismatch'') st)"
  define ds where "ds = candidate_diags def [] (sl_candidates (snd ks)) @ (case sl_policy (snd ks) of
      FixedPolicy c \<Rightarrow> report_if (c \<notin> set (sl_candidates (snd ks))) ''doc.selector.policyDangling'' | RandomPolicy \<Rightarrow> [])"
  have step: "check_selector def ks st = push ds st1"
    unfolding check_selector_def case_prod_beta ds_def st1_def by simp
  have "silent st1 \<longleftrightarrow> silent st \<and> fst ks = sl_id (snd ks) \<and> fresh_id def st (sl_id (snd ks))"
    unfolding st1_def by (rule keyed_id)
  moreover have "fst ks = sl_id (snd ks) \<Longrightarrow> fresh_id def st (sl_id (snd ks)) \<Longrightarrow> st1 = note_id st (sl_id (snd ks))"
    unfolding st1_def by (rule keyed_id_state)
  moreover have "ds = [] \<longleftrightarrow> distinct (sl_candidates (snd ks)) \<and> (\<forall>c \<in> set (sl_candidates (snd ks)). checkCursor def c = []) \<and>
      (\<forall>c. sl_policy (snd ks) = FixedPolicy c \<longrightarrow> c \<in> set (sl_candidates (snd ks)))"
    by (auto simp: ds_def candidate_diags_Nil split: selector_policy.splits)
  ultimately show "(Inr (check_selector def ks st) :: js_error + topo) = Inr st' \<and> silent st' \<longleftrightarrow>
      silent st \<and> (fresh_id def st (sl_id (snd ks)) \<and> selector_ok def ks) \<and> st' = note_id st (sl_id (snd ks))"
    unfolding step selector_ok_def by auto
qed

section \<open>Ids\<close>

definition ids_fresh :: "graph_def \<Rightarrow> string list \<Rightarrow> string list \<Rightarrow> bool" where
  "ids_fresh def seen ids \<longleftrightarrow> distinct ids \<and> set ids \<inter> set seen = {} \<and> (\<forall>i \<in> set ids. checkCursor def i = [])"

lemma ids_fresh_append: "ids_fresh def seen (xs @ ys) \<longleftrightarrow> ids_fresh def seen xs \<and> ids_fresh def (rev xs @ seen) ys"
  by (auto simp: ids_fresh_def)

lemma ids_fresh_Cons: "ids_fresh def seen (x # xs) \<longleftrightarrow> x \<notin> set seen \<and> checkCursor def x = [] \<and> ids_fresh def (x # seen) xs"
  by (auto simp: ids_fresh_def)

lemma all_along_ids:
  "all_along (\<lambda>st x. note_id st (f x)) (\<lambda>st x. fresh_id def st (f x) \<and> P x) st xs \<longleftrightarrow>
   ids_fresh def (tp_seen st) (map f xs) \<and> (\<forall>x \<in> set xs. P x)"
  by (induction xs arbitrary: st) (auto simp: ids_fresh_Cons fresh_id_def, auto simp: ids_fresh_def)

lemma foldl_note_id: "foldl (\<lambda>st x. note_id st (f x)) st xs = st\<lparr>tp_seen := rev (map f xs) @ tp_seen st\<rparr>"
  by (induction xs arbitrary: st) (simp_all add: note_id_def)

text \<open>The ids of the nodes, reroutes, value sources and selectors, in the order they are checked.\<close>

definition member_ids :: "graph_def \<Rightarrow> string list" where
  "member_ids def = map (\<lambda>kn. nd_id (snd kn)) (gd_nodes def) @ map snd (gd_reroutes def) @
     map snd (opt_list (gd_valueSources def)) @ map (\<lambda>ks. sl_id (snd ks)) (opt_list (gd_selectors def))"

definition members_ok :: "(string \<times> graph_def) list \<Rightarrow> string \<Rightarrow> graph_def \<Rightarrow> bool" where
  "members_ok graphs defId def \<longleftrightarrow>
     (\<forall>kn \<in> set (gd_nodes def). node_ok graphs defId kn) \<and> (\<forall>kv \<in> set (gd_reroutes def). fst kv = snd kv) \<and>
     (\<forall>kv \<in> set (opt_list (gd_valueSources def)). fst kv = snd kv) \<and>
     (\<forall>ks \<in> set (opt_list (gd_selectors def)). selector_ok def ks)"

definition empty_topo :: topo where
  "empty_topo = \<lparr>tp_seen = [], tp_inputs = [], tp_reroutes = [], tp_candidates = [], tp_selectors = [], tp_diags = []\<rparr>"

lemma check_members_clean:
  "check_members graphs defId def = Inr st' \<and> silent st' \<longleftrightarrow>
   ids_fresh def [] (member_ids def) \<and> members_ok graphs defId def \<and> st' = empty_topo\<lparr>tp_seen := rev (member_ids def)\<rparr>"
proof -
  let ?k = "\<lambda>code kvs st. foldR (\<lambda>st kv. Inr (check_keyed def code kv st) :: js_error + topo) st kvs"
  let ?s = "\<lambda>st. foldR (\<lambda>st ks. Inr (check_selector def ks st) :: js_error + topo) st (opt_list (gd_selectors def))"
  have run: "check_members graphs defId def =
      rbind (foldR (check_node graphs defId def) empty_topo (gd_nodes def)) (\<lambda>st1.
      rbind (?k ''doc.reroute.keyMismatch'' (gd_reroutes def) st1) (\<lambda>st2.
      rbind (?k ''doc.valueSource.keyMismatch'' (opt_list (gd_valueSources def)) st2) ?s))"
    unfolding check_members_def foldR_Inr empty_topo_def
    by (cases "foldR (check_node graphs defId def) empty_topo (gd_nodes def)") (simp_all add: empty_topo_def)
  have before_k: "?k code kvs st = Inr st' \<Longrightarrow> silent st' \<Longrightarrow> silent st" for code kvs st st'
    using keyed.loop_clean [of def code st kvs st'] by simp
  have before_s: "?s st = Inr st' \<Longrightarrow> silent st' \<Longrightarrow> silent st" for st st'
    using selectors.loop_clean [of def st "opt_list (gd_selectors def)" st'] by simp
  have "check_members graphs defId def = Inr st' \<and> silent st' \<longleftrightarrow> (\<exists>st1 st2 st3.
      foldR (check_node graphs defId def) empty_topo (gd_nodes def) = Inr st1 \<and>
      ?k ''doc.reroute.keyMismatch'' (gd_reroutes def) st1 = Inr st2 \<and>
      ?k ''doc.valueSource.keyMismatch'' (opt_list (gd_valueSources def)) st2 = Inr st3 \<and> (?s st3 = Inr st' \<and> silent st'))"
    unfolding run by (auto simp: result_simps)
  also have "\<dots> \<longleftrightarrow> (\<exists>st1 st2 st3.
      (foldR (check_node graphs defId def) empty_topo (gd_nodes def) = Inr st1 \<and> silent st1) \<and>
      (?k ''doc.reroute.keyMismatch'' (gd_reroutes def) st1 = Inr st2 \<and> silent st2) \<and>
      (?k ''doc.valueSource.keyMismatch'' (opt_list (gd_valueSources def)) st2 = Inr st3 \<and> silent st3) \<and>
      (?s st3 = Inr st' \<and> silent st'))"
    using before_k before_s by meson
  also have "\<dots> \<longleftrightarrow> ids_fresh def [] (member_ids def) \<and> members_ok graphs defId def \<and>
      st' = empty_topo\<lparr>tp_seen := rev (member_ids def)\<rparr>"
    unfolding nodes.loop_clean keyed.loop_clean selectors.loop_clean all_along_ids foldl_note_id member_ids_def
      ids_fresh_append members_ok_def
    by (auto simp: empty_topo_def)
  finally show ?thesis .
qed

end
