(* ===== verification/GraphDrivers.thy ===== *)
theory GraphDrivers
  imports GraphLaws
begin

text \<open>
  Links and nets: a silent run means that their endpoints resolve and that no input, reroute or selector candidate
  has two drivers; then the driver table of the walk is the drivers of the graph.
\<close>

section \<open>Links\<close>

definition ok_end :: "graph_def \<Rightarrow> endpoint \<Rightarrow> bool" where
  "ok_end def e \<longleftrightarrow> checkEndpoint def e [] = Inr None"

lemma checkEndpoint_ok: "checkEndpoint def e code = Inr None \<longleftrightarrow> ok_end def e"
  by (cases e) (auto simp: ok_end_def split: slot.splits)

fun produces :: "endpoint \<Rightarrow> bool" where
  "produces (SelectorEnd s c) = (c = None)"
| "produces _ = True"

fun consumes :: "endpoint \<Rightarrow> bool" where
  "consumes (ValueSourceEnd v) = False"
| "consumes (WidgetTapEnd n t) = False"
| "consumes (SelectorEnd s c) = (c \<noteq> None)"
| "consumes _ = True"

definition link_ok :: "graph_def \<Rightarrow> string \<times> link_data \<Rightarrow> bool" where
  "link_ok def kl \<longleftrightarrow> fst kl = ln_id (snd kl) \<and> ok_end def (ln_from (snd kl)) \<and> produces (ln_from (snd kl)) \<and>
     ok_end def (ln_to (snd kl)) \<and> consumes (ln_to (snd kl))"

text \<open>What a target drives, by the map that keeps it.\<close>

fun target_input :: "endpoint \<Rightarrow> string list" where
  "target_input (PortEnd p) = [portRefKey p]"
| "target_input _ = []"

fun target_reroute :: "endpoint \<Rightarrow> string list" where
  "target_reroute (RerouteEnd r) = [r]"
| "target_reroute _ = []"

fun target_candidate :: "endpoint \<Rightarrow> (string \<times> string) list" where
  "target_candidate (SelectorEnd s (Some c)) = [(s, c)]"
| "target_candidate _ = []"

definition undriven :: "topo \<Rightarrow> endpoint \<Rightarrow> bool" where
  "undriven st e \<longleftrightarrow>
     set (target_input e) \<inter> set (tp_inputs st) = {} \<and> set (target_reroute e) \<inter> fst ` set (tp_reroutes st) = {} \<and>
     (\<forall>(s, c) \<in> set (target_candidate e). selectorCandidateKey s c \<notin> set (tp_candidates st))"

definition note_target :: "link_data \<Rightarrow> topo \<Rightarrow> topo" where
  "note_target link st = st\<lparr>
     tp_inputs := target_input (ln_to link) @ tp_inputs st,
     tp_reroutes := tp_reroutes st @ map (\<lambda>r. (r, link)) (target_reroute (ln_to link)),
     tp_candidates := map (\<lambda>(s, c). selectorCandidateKey s c) (target_candidate (ln_to link)) @ tp_candidates st,
     tp_selectors := fold (\<lambda>(s, c) m. AList.update s ((case map_of m s of None \<Rightarrow> [] | Some ls \<Rightarrow> ls) @ [link]) m)
       (target_candidate (ln_to link)) (tp_selectors st)\<rparr>"

lemma check_target_clean:
  "check_target link st = st' \<and> silent st' \<longleftrightarrow> silent st \<and> (consumes (ln_to link) \<and> undriven st (ln_to link)) \<and> st' = note_target link st"
proof (cases "ln_to link")
  case (PortEnd p)
  then show ?thesis by (auto simp: check_target_def claimInput_def undriven_def note_target_def)
next
  case (RerouteEnd r)
  then show ?thesis
    by (auto simp: check_target_def drive_reroute_def undriven_def note_target_def simp flip: map_of_eq_None_iff
        split: option.splits)
next
  case (SelectorEnd s c)
  then show ?thesis
    by (cases c) (auto simp: check_target_def drive_candidate_def undriven_def note_target_def)
qed (auto simp: check_target_def)

lemma check_source_Nil: "check_source e = [] \<longleftrightarrow> produces e"
  by (cases e) (auto simp: check_source_def)

lemma push_code_silent: "silent (push_code c st) \<longleftrightarrow> silent st \<and> c = None"
  by (cases c) (simp_all add: push_code_def)

lemma check_link_clean:
  "check_link def st kl = Inr st' \<and> silent st' \<longleftrightarrow>
   silent st \<and> (fresh_id def st (ln_id (snd kl)) \<and> link_ok def kl \<and> undriven (note_id st (ln_id (snd kl))) (ln_to (snd kl))) \<and>
   st' = note_target (snd kl) (note_id st (ln_id (snd kl)))"
proof -
  obtain key link where kl: "kl = (key, link)" by (cases kl)
  define st1 where "st1 = checkId def (ln_id link) (push (report_if (key \<noteq> ln_id link) ''doc.link.keyMismatch'') st)"
  have st1: "silent st1 \<longleftrightarrow> silent st \<and> key = ln_id link \<and> fresh_id def st (ln_id link)"
    unfolding st1_def by (rule keyed_id)
  have st1_eq: "silent st1 \<Longrightarrow> st1 = note_id st (ln_id link)"
    unfolding st1 unfolding st1_def by (rule keyed_id_state) auto
  define after where "after f = (if f = None then push (check_source (ln_from link)) st1 else push_code f st1)" for f
  have step: "check_link def st kl =
      rbind (checkEndpoint def (ln_from link) ''doc.link.dangling'') (\<lambda>f.
        rbind (checkEndpoint def (ln_to link) ''doc.link.dangling'') (\<lambda>t.
          Inr (if t = None then check_target link (after f) else push_code t (after f))))"
    unfolding check_link_def kl st1_def after_def Let_def by simp
  have after: "silent (after f) \<longleftrightarrow> silent st1 \<and> f = None \<and> produces (ln_from link)" for f
    unfolding after_def by (auto simp: push_code_silent check_source_Nil)
  have after_eq: "silent (after f) \<Longrightarrow> after f = st1" for f
    unfolding after unfolding after_def by (simp add: check_source_Nil [THEN iffD2])
  have reduce: "check_link def st kl = Inr st' \<and> silent st' \<longleftrightarrow>
      checkEndpoint def (ln_from link) ''doc.link.dangling'' = Inr None \<and>
      checkEndpoint def (ln_to link) ''doc.link.dangling'' = Inr None \<and> silent (after None) \<and>
      (check_target link (after None) = st' \<and> silent st')"
  proof (cases "checkEndpoint def (ln_from link) ''doc.link.dangling''")
    case f: (Inr f)
    show ?thesis
    proof (cases "checkEndpoint def (ln_to link) ''doc.link.dangling''")
      case t: (Inr t)
      define r where "r = (if t = None then check_target link (after f) else push_code t (after f))"
      have "silent r \<Longrightarrow> t = None \<and> silent (after f)"
        using check_target_clean [of link "after f" r] push_code_silent [of t "after f"] by (simp add: r_def split: if_splits)
      moreover have "silent (after f) \<Longrightarrow> f = None" using after [of f] by simp
      ultimately have silent_r: "silent r \<Longrightarrow> t = None \<and> f = None \<and> silent (after None)" by blast
      have r: "t = None \<Longrightarrow> f = None \<Longrightarrow> r = check_target link (after None)" by (simp add: r_def)
      have eq: "check_link def st kl = Inr r" unfolding step f t r_def by simp
      show ?thesis
        unfolding f t eq sum.inject
      proof
        assume *: "r = st' \<and> silent st'"
        then have "t = None \<and> f = None \<and> silent (after None)" using silent_r by blast
        then show "f = None \<and> t = None \<and> silent (after None) \<and> (check_target link (after None) = st' \<and> silent st')"
          using r * by blast
      next
        assume "f = None \<and> t = None \<and> silent (after None) \<and> (check_target link (after None) = st' \<and> silent st')"
        then show "r = st' \<and> silent st'" using r by blast
      qed
    qed (simp add: step f)
  qed (simp add: step)
  show ?thesis
  proof (cases "silent (after None)")
    case True
    then have "after None = note_id st (ln_id link)" "silent st" "key = ln_id link" "fresh_id def st (ln_id link)"
        "produces (ln_from link)"
      using after_eq [of None] after [of None] st1 st1_eq by simp_all
    then show ?thesis unfolding reduce unfolding check_target_clean checkEndpoint_ok kl link_ok_def by simp
  next
    case False
    then have "\<not> (silent st \<and> fresh_id def st (ln_id link) \<and> key = ln_id link \<and> produces (ln_from link))"
      using after [of None] st1 by blast
    then show ?thesis using False unfolding reduce unfolding kl link_ok_def by auto
  qed
qed

interpretation links: clean_loop "check_link def" silent
  "\<lambda>st kl. fresh_id def st (ln_id (snd kl)) \<and> link_ok def kl \<and> undriven (note_id st (ln_id (snd kl))) (ln_to (snd kl))"
  "\<lambda>st kl. note_target (snd kl) (note_id st (ln_id (snd kl)))" for def
  by unfold_locales (rule check_link_clean)

text \<open>The targets of a list of links.\<close>

definition link_inputs :: "(string \<times> link_data) list \<Rightarrow> string list" where
  "link_inputs ls = concat (map (\<lambda>kl. target_input (ln_to (snd kl))) ls)"

definition link_reroutes :: "(string \<times> link_data) list \<Rightarrow> (string \<times> link_data) list" where
  "link_reroutes ls = concat (map (\<lambda>kl. map (\<lambda>r. (r, snd kl)) (target_reroute (ln_to (snd kl)))) ls)"

definition link_candidates :: "(string \<times> link_data) list \<Rightarrow> (string \<times> string) list" where
  "link_candidates ls = concat (map (\<lambda>kl. target_candidate (ln_to (snd kl))) ls)"

definition single_drivers :: "(string \<times> link_data) list \<Rightarrow> bool" where
  "single_drivers ls \<longleftrightarrow> distinct (link_inputs ls) \<and> distinct (map fst (link_reroutes ls)) \<and> distinct (link_candidates ls)"

lemma selectorCandidateKey_inj: "selectorCandidateKey s c = selectorCandidateKey t d \<longleftrightarrow> s = t \<and> c = d"
  unfolding selectorCandidateKey_def using stringify_list_inj [of "[s, c]" "[t, d]"] by auto

lemma target_lengths: "distinct (target_input e)" "distinct (target_reroute e)" "distinct (target_candidate e)"
  by ((cases e rule: target_input.cases; simp), (cases e rule: target_reroute.cases; simp),
    (cases e rule: target_candidate.cases; simp))

definition record_link :: "topo \<Rightarrow> string \<times> link_data \<Rightarrow> topo" where
  "record_link st kl = note_target (snd kl) (note_id st (ln_id (snd kl)))"

definition new_targets :: "topo \<Rightarrow> (string \<times> link_data) list \<Rightarrow> bool" where
  "new_targets st ls \<longleftrightarrow>
     distinct (link_inputs ls) \<and> set (link_inputs ls) \<inter> set (tp_inputs st) = {} \<and>
     distinct (map fst (link_reroutes ls)) \<and> fst ` set (link_reroutes ls) \<inter> fst ` set (tp_reroutes st) = {} \<and>
     distinct (link_candidates ls) \<and> (\<forall>sc \<in> set (link_candidates ls). selectorCandidateKey (fst sc) (snd sc) \<notin> set (tp_candidates st))"

lemma links_Nil [simp]: "link_inputs [] = []" "link_reroutes [] = []" "link_candidates [] = []"
  by (simp_all add: link_inputs_def link_reroutes_def link_candidates_def)

lemma links_Cons:
  "link_inputs (kl # ls) = target_input (ln_to (snd kl)) @ link_inputs ls"
  "link_reroutes (kl # ls) = map (\<lambda>r. (r, snd kl)) (target_reroute (ln_to (snd kl))) @ link_reroutes ls"
  "link_candidates (kl # ls) = target_candidate (ln_to (snd kl)) @ link_candidates ls"
  by (simp_all add: link_inputs_def link_reroutes_def link_candidates_def)

lemma record_link_fields [simp]:
  "tp_seen (record_link st kl) = ln_id (snd kl) # tp_seen st" "tp_diags (record_link st kl) = tp_diags st"
  "tp_inputs (record_link st kl) = target_input (ln_to (snd kl)) @ tp_inputs st"
  "tp_reroutes (record_link st kl) = tp_reroutes st @ map (\<lambda>r. (r, snd kl)) (target_reroute (ln_to (snd kl)))"
  "tp_candidates (record_link st kl) =
     map (\<lambda>(s, c). selectorCandidateKey s c) (target_candidate (ln_to (snd kl))) @ tp_candidates st"
  by (simp_all add: record_link_def note_target_def)

lemma new_targets_Cons:
  "new_targets st (kl # ls) \<longleftrightarrow> undriven (note_id st (ln_id (snd kl))) (ln_to (snd kl)) \<and> new_targets (record_link st kl) ls"
proof (cases "ln_to (snd kl)")
  case (SelectorEnd s c)
  then show ?thesis
    by (cases c) (auto simp: new_targets_def links_Cons undriven_def selectorCandidateKey_inj)
qed (auto simp: new_targets_def links_Cons undriven_def)

lemma all_along_links:
  "all_along record_link
     (\<lambda>st kl. fresh_id def st (ln_id (snd kl)) \<and> link_ok def kl \<and> undriven (note_id st (ln_id (snd kl))) (ln_to (snd kl))) st ls \<longleftrightarrow>
   ids_fresh def (tp_seen st) (map (\<lambda>kl. ln_id (snd kl)) ls) \<and> (\<forall>kl \<in> set ls. link_ok def kl) \<and> new_targets st ls"
proof (induction ls arbitrary: st)
  case Nil
  then show ?case by (simp add: ids_fresh_def new_targets_def)
next
  case (Cons kl ls)
  then show ?case by (auto simp: ids_fresh_Cons fresh_id_def new_targets_Cons)
qed

lemma foldl_record_link:
  "tp_seen (foldl record_link st ls) = rev (map (\<lambda>kl. ln_id (snd kl)) ls) @ tp_seen st"
  "tp_diags (foldl record_link st ls) = tp_diags st"
  "set (tp_inputs (foldl record_link st ls)) = set (link_inputs ls) \<union> set (tp_inputs st)"
  "tp_reroutes (foldl record_link st ls) = tp_reroutes st @ link_reroutes ls"
  by (induction ls arbitrary: st) (auto simp: links_Cons)

text \<open>The links into the candidates of a selector.\<close>

definition selector_links :: "(string \<times> link_data) list \<Rightarrow> string \<Rightarrow> link_data list" where
  "selector_links ls s = map snd (filter (\<lambda>kl. \<exists>c. ln_to (snd kl) = SelectorEnd s (Some c)) ls)"

definition selector_entry :: "topo \<Rightarrow> string \<Rightarrow> link_data list" where
  "selector_entry st s = (case map_of (tp_selectors st) s of None \<Rightarrow> [] | Some ls \<Rightarrow> ls)"

lemma selector_entry_record:
  "selector_entry (record_link st kl) s = selector_entry st s @ selector_links [kl] s"
proof (cases "ln_to (snd kl)")
  case (SelectorEnd t c)
  then show ?thesis
    by (cases c) (auto simp: selector_entry_def record_link_def note_target_def selector_links_def note_id_def)
qed (auto simp: selector_entry_def record_link_def note_target_def selector_links_def note_id_def)

lemma foldl_selector_entry: "selector_entry (foldl record_link st ls) s = selector_entry st s @ selector_links ls s"
proof (induction ls arbitrary: st)
  case (Cons kl ls)
  then show ?case using selector_entry_record [of st kl s] by (simp add: selector_links_def)
qed (simp add: selector_links_def)

section \<open>Nets\<close>

lemma check_sink_clean:
  "check_sink def st s = Inr st' \<and> silent st' \<longleftrightarrow>
   silent st \<and> (ok_end def (PortEnd s) \<and> portRefKey s \<notin> set (tp_inputs st)) \<and> st' = st\<lparr>tp_inputs := portRefKey s # tp_inputs st\<rparr>"
proof (cases "checkEndpoint def (PortEnd s) ''doc.net.dangling''")
  case (Inr c)
  have ok: "ok_end def (PortEnd s) \<longleftrightarrow> c = None"
    using checkEndpoint_ok [of def "PortEnd s" "''doc.net.dangling''"] Inr by simp
  have "check_sink def st s = Inr (if c = None then claimInput s st else push_code c st)"
    unfolding check_sink_def Inr by simp
  then show ?thesis by (auto simp: ok claimInput_def push_code_silent)
qed simp

interpretation sinks: clean_loop "check_sink def" silent
  "\<lambda>st s. ok_end def (PortEnd s) \<and> portRefKey s \<notin> set (tp_inputs st)" "\<lambda>st s. st\<lparr>tp_inputs := portRefKey s # tp_inputs st\<rparr>"
  for def
  by unfold_locales (rule check_sink_clean)

lemma all_along_sinks:
  "all_along (\<lambda>st s. st\<lparr>tp_inputs := portRefKey s # tp_inputs st\<rparr>)
     (\<lambda>st s. ok_end def (PortEnd s) \<and> portRefKey s \<notin> set (tp_inputs st)) st ss \<longleftrightarrow>
   (\<forall>s \<in> set ss. ok_end def (PortEnd s)) \<and> distinct (map portRefKey ss) \<and> portRefKey ` set ss \<inter> set (tp_inputs st) = {}"
  by (induction ss arbitrary: st) auto

lemma foldl_sinks:
  "foldl (\<lambda>st s. st\<lparr>tp_inputs := portRefKey s # tp_inputs st\<rparr>) st ss = st\<lparr>tp_inputs := rev (map portRefKey ss) @ tp_inputs st\<rparr>"
  by (induction ss arbitrary: st) simp_all

definition net_ok :: "graph_def \<Rightarrow> string \<times> net_data \<Rightarrow> bool" where
  "net_ok def kn \<longleftrightarrow> fst kn = nt_id (snd kn) \<and> ok_end def (PortEnd (nt_source (snd kn))) \<and>
     (\<forall>s \<in> set (nt_sinks (snd kn)). ok_end def (PortEnd s))"

definition sink_keys :: "string \<times> net_data \<Rightarrow> string list" where
  "sink_keys kn = map portRefKey (nt_sinks (snd kn))"

definition record_net :: "topo \<Rightarrow> string \<times> net_data \<Rightarrow> topo" where
  "record_net st kn = (note_id st (nt_id (snd kn)))\<lparr>tp_inputs := rev (sink_keys kn) @ tp_inputs st\<rparr>"

lemma check_net_clean:
  "check_net def st kn = Inr st' \<and> silent st' \<longleftrightarrow>
   silent st \<and> (fresh_id def st (nt_id (snd kn)) \<and> net_ok def kn \<and> distinct (sink_keys kn) \<and>
     set (sink_keys kn) \<inter> set (tp_inputs st) = {}) \<and> st' = record_net st kn"
proof -
  define st1 where "st1 = checkId def (nt_id (snd kn)) (push (report_if (fst kn \<noteq> nt_id (snd kn)) ''doc.net.keyMismatch'') st)"
  have st1: "silent st1 \<longleftrightarrow> silent st \<and> fst kn = nt_id (snd kn) \<and> fresh_id def st (nt_id (snd kn))"
    unfolding st1_def by (rule keyed_id)
  have st1_eq: "silent st1 \<Longrightarrow> st1 = note_id st (nt_id (snd kn))"
    unfolding st1 unfolding st1_def by (rule keyed_id_state) auto
  obtain c where c: "checkEndpoint def (PortEnd (nt_source (snd kn))) ''doc.net.dangling'' = Inr c" by simp
  have ok: "ok_end def (PortEnd (nt_source (snd kn))) \<longleftrightarrow> c = None"
    using checkEndpoint_ok [of def "PortEnd (nt_source (snd kn))" "''doc.net.dangling''"] c by simp
  have "check_net def st kn = foldR (check_sink def) (push_code c st1) (nt_sinks (snd kn))"
    unfolding check_net_def case_prod_beta c st1_def by simp
  then have run: "check_net def st kn = Inr st' \<and> silent st' \<longleftrightarrow>
      silent st1 \<and> c = None \<and> (\<forall>s \<in> set (nt_sinks (snd kn)). ok_end def (PortEnd s)) \<and> distinct (sink_keys kn) \<and>
      set (sink_keys kn) \<inter> set (tp_inputs st1) = {} \<and> st' = st1\<lparr>tp_inputs := rev (sink_keys kn) @ tp_inputs st1\<rparr>"
    unfolding sink_keys_def by (cases c) (simp_all add: sinks.loop_clean all_along_sinks foldl_sinks push_code_def)
  show ?thesis
  proof (cases "silent st1")
    case True
    then show ?thesis using run st1 st1_eq by (simp add: ok net_ok_def record_net_def conj_ac)
  next
    case False
    then have "\<not> (silent st \<and> fst kn = nt_id (snd kn) \<and> fresh_id def st (nt_id (snd kn)))" using st1 by blast
    then show ?thesis using False unfolding run net_ok_def by blast
  qed
qed

interpretation nets: clean_loop "check_net def" silent
  "\<lambda>st kn. fresh_id def st (nt_id (snd kn)) \<and> net_ok def kn \<and> distinct (sink_keys kn) \<and> set (sink_keys kn) \<inter> set (tp_inputs st) = {}"
  record_net for def
  by unfold_locales (rule check_net_clean)

definition net_inputs :: "(string \<times> net_data) list \<Rightarrow> string list" where
  "net_inputs ns = concat (map sink_keys ns)"

lemma record_net_fields [simp]:
  "tp_seen (record_net st kn) = nt_id (snd kn) # tp_seen st" "tp_inputs (record_net st kn) = rev (sink_keys kn) @ tp_inputs st"
  "tp_reroutes (record_net st kn) = tp_reroutes st"
  by (simp_all add: record_net_def)

lemma all_along_nets:
  "all_along record_net
     (\<lambda>st kn. fresh_id def st (nt_id (snd kn)) \<and> net_ok def kn \<and> distinct (sink_keys kn) \<and> set (sink_keys kn) \<inter> set (tp_inputs st) = {})
     st ns \<longleftrightarrow>
   ids_fresh def (tp_seen st) (map (\<lambda>kn. nt_id (snd kn)) ns) \<and> (\<forall>kn \<in> set ns. net_ok def kn) \<and>
   distinct (net_inputs ns) \<and> set (net_inputs ns) \<inter> set (tp_inputs st) = {}"
proof (induction ns arbitrary: st)
  case Nil
  then show ?case by (simp add: ids_fresh_def net_inputs_def)
next
  case (Cons kn ns)
  show ?case unfolding all_along.simps Cons.IH by (auto simp: ids_fresh_Cons fresh_id_def net_inputs_def)
qed

lemma foldl_record_net: "tp_reroutes (foldl record_net st ns) = tp_reroutes st"
  by (induction ns arbitrary: st) simp_all

end
