(* ===== verification/GraphExact.thy ===== *)
theory GraphExact
  imports GraphDrivers
begin

text \<open>
  The invariants of a graph, and that the graph check is silent just in case they hold.
\<close>

section \<open>Driver chains\<close>

text \<open>What a target stands for in a chain, and the chains: from what is driven to what drives it.\<close>

fun driven_keys :: "endpoint \<Rightarrow> string list" where
  "driven_keys (PortEnd p) = [''t:'' @ portRefKey p]"
| "driven_keys (RerouteEnd r) = [''r:'' @ r]"
| "driven_keys (SelectorEnd s (Some c)) = [''s:'' @ s]"
| "driven_keys _ = []"

definition chain_edges :: "graph_def \<Rightarrow> (string \<times> string) set" where
  "chain_edges def =
     {(a, b). \<exists>kl \<in> set (gd_links def). a \<in> set (driven_keys (ln_to (snd kl))) \<and> b \<in> set (follow (ln_from (snd kl)))}"

lemma edges_append: "fst ` set xs \<inter> fst ` set ys = {} \<Longrightarrow> edges (xs @ ys) = edges xs \<union> edges ys"
proof (intro set_eqI)
  fix x :: "string \<times> string"
  assume disjoint: "fst ` set xs \<inter> fst ` set ys = {}"
  obtain a b where x: "x = (a, b)" by (cases x)
  show "x \<in> edges (xs @ ys) \<longleftrightarrow> x \<in> edges xs \<union> edges ys"
  proof (cases "map_of xs a")
    case None
    then show ?thesis by (simp add: x edges_def map_add_def)
  next
    case (Some out)
    then have "a \<in> fst ` set xs" by (force dest: map_of_in_set)
    then have "map_of ys a = None" using disjoint by (auto simp: map_of_eq_None_iff)
    then show ?thesis using Some by (simp add: x edges_def map_add_def)
  qed
qed

lemma edges_distinct: "distinct (map fst xs) \<Longrightarrow> edges xs = {(a, b). \<exists>out. (a, out) \<in> set xs \<and> b \<in> set out}"
  by (auto simp: edges_def)

lemma map_of_prefixed: "map_of (map (\<lambda>(r, x). (p @ r, g x)) xs) (p @ k) = map_option g (map_of xs k)"
  by (induction xs) auto

definition reroute_table :: "topo \<Rightarrow> (string \<times> string list) list" where
  "reroute_table st = map (\<lambda>(r, link). (''r:'' @ r, follow (ln_from link))) (tp_reroutes st)"

definition selector_table :: "topo \<Rightarrow> (string \<times> string list) list" where
  "selector_table st = map (\<lambda>(s, links). (''s:'' @ s, concat (map (\<lambda>l. follow (ln_from l)) links))) (tp_selectors st)"

lemma driver_table_parts: "driver_table def st = reroute_table st @ selector_table st @ input_feeds def"
  by (simp add: driver_table_def reroute_table_def selector_table_def)

lemma input_feeds_keys: "map fst (input_feeds def) = map ((@) ''t:'') (link_inputs (gd_links def) @ net_inputs (gd_nets def))"
proof -
  have "map fst (concat (map (\<lambda>l. case input_of_link (ln_to (snd l)) of
      Some p \<Rightarrow> [(''t:'' @ portRefKey p, follow (ln_from (snd l)))] | None \<Rightarrow> []) ls)) = map ((@) ''t:'') (link_inputs ls)" for ls
  proof (induction ls)
    case (Cons kl ls)
    then show ?case by (cases "ln_to (snd kl)") (simp_all add: links_Cons)
  qed simp
  moreover have "map fst (concat (map (\<lambda>n. map (\<lambda>s. (''t:'' @ portRefKey s, follow (PortEnd (nt_source (snd n))))) (nt_sinks (snd n))) ns)) =
      map ((@) ''t:'') (net_inputs ns)" for ns :: "(string \<times> net_data) list"
    by (induction ns) (simp_all add: net_inputs_def sink_keys_def o_def)
  ultimately show ?thesis by (simp add: input_feeds_def)
qed

lemma reroute_edges:
  assumes "tp_reroutes st = link_reroutes ls" and "distinct (map fst (link_reroutes ls))"
  shows "edges (reroute_table st) =
    {(a, b). \<exists>kl \<in> set ls. \<exists>r. ln_to (snd kl) = RerouteEnd r \<and> a = ''r:'' @ r \<and> b \<in> set (follow (ln_from (snd kl)))}"
proof -
  have keys: "map fst (reroute_table st) = map ((@) ''r:'') (map fst (link_reroutes ls))"
    by (simp add: reroute_table_def assms(1) case_prod_beta o_def)
  have "distinct (map fst (reroute_table st))"
    unfolding keys using assms(2) by (subst distinct_map) (simp add: inj_on_def)
  moreover have "(r, l) \<in> set (link_reroutes ls) \<longleftrightarrow> (\<exists>kl \<in> set ls. ln_to (snd kl) = RerouteEnd r \<and> l = snd kl)" for r l
  proof (induction ls)
    case (Cons kl ls)
    then show ?case by (cases "ln_to (snd kl)") (auto simp: links_Cons)
  qed simp
  ultimately show ?thesis
    unfolding edges_distinct [OF \<open>distinct (map fst (reroute_table st))\<close>]
    by (fastforce simp: reroute_table_def assms(1))
qed

lemma selector_edges:
  assumes "\<And>s. selector_entry st s = selector_links ls s"
  shows "edges (selector_table st) =
    {(a, b). \<exists>kl \<in> set ls. \<exists>s c. ln_to (snd kl) = SelectorEnd s (Some c) \<and> a = ''s:'' @ s \<and> b \<in> set (follow (ln_from (snd kl)))}"
proof -
  have at: "map_of (selector_table st) (''s:'' @ s) = map_option (\<lambda>links. concat (map (\<lambda>l. follow (ln_from l)) links)) (map_of (tp_selectors st) s)" for s
    unfolding selector_table_def by (rule map_of_prefixed)
  have key: "\<exists>s. a = ''s:'' @ s" if "map_of (selector_table st) a = Some out" for a out
    using map_of_in_set [OF that] by (auto simp: selector_table_def)
  have at_key: "(''s:'' @ s, b) \<in> edges (selector_table st) \<longleftrightarrow> (\<exists>l \<in> set (selector_links ls s). b \<in> set (follow (ln_from l)))" for s b
    unfolding assms [symmetric] edges_def selector_entry_def by (simp only: mem_Collect_eq case_prod_conv at) (cases "map_of (tp_selectors st) s"; auto)
  have iff: "(a, b) \<in> edges (selector_table st) \<longleftrightarrow>
      (\<exists>s. a = ''s:'' @ s \<and> (\<exists>l \<in> set (selector_links ls s). b \<in> set (follow (ln_from l))))" for a b
  proof (cases "\<exists>s. a = ''s:'' @ s")
    case True
    then obtain s where "a = ''s:'' @ s" by blast
    then show ?thesis using at_key [of s b] by simp
  next
    case False
    then have "(a, b) \<notin> edges (selector_table st)" using key by (auto simp: edges_def)
    with False show ?thesis by auto
  qed
  have link: "l \<in> set (selector_links ls s) \<longleftrightarrow> (\<exists>kl \<in> set ls. \<exists>c. ln_to (snd kl) = SelectorEnd s (Some c) \<and> l = snd kl)" for l s
    by (auto simp: selector_links_def)
  show ?thesis
  proof (intro set_eqI)
    fix x :: "string \<times> string"
    obtain a b where x: "x = (a, b)" by (cases x)
    show "x \<in> edges (selector_table st) \<longleftrightarrow> x \<in> {(a, b). \<exists>kl \<in> set ls. \<exists>s c.
        ln_to (snd kl) = SelectorEnd s (Some c) \<and> a = ''s:'' @ s \<and> b \<in> set (follow (ln_from (snd kl)))}"
      unfolding x iff mem_Collect_eq case_prod_conv Bex_def link by blast
  qed
qed

lemma feed_edges:
  assumes "distinct (link_inputs (gd_links def) @ net_inputs (gd_nets def))"
  shows "edges (input_feeds def) =
    {(a, b). \<exists>kl \<in> set (gd_links def). \<exists>p. ln_to (snd kl) = PortEnd p \<and> a = ''t:'' @ portRefKey p \<and> b \<in> set (follow (ln_from (snd kl)))}"
proof -
  have "distinct (map fst (input_feeds def))"
    unfolding input_feeds_keys using assms by (subst distinct_map) (simp add: inj_on_def)
  then have "edges (input_feeds def) = {(a, b). \<exists>out. (a, out) \<in> set (input_feeds def) \<and> b \<in> set out}" by (rule edges_distinct)
  moreover have "(a, out) \<in> set (input_feeds def) \<longleftrightarrow>
      (\<exists>kl \<in> set (gd_links def). \<exists>p. ln_to (snd kl) = PortEnd p \<and> a = ''t:'' @ portRefKey p \<and> out = follow (ln_from (snd kl))) \<or>
      (\<exists>kn \<in> set (gd_nets def). \<exists>s \<in> set (nt_sinks (snd kn)). a = ''t:'' @ portRefKey s \<and> out = [])" for a out
  proof -
    have "(a, out) \<in> set (case input_of_link e of Some p \<Rightarrow> [(''t:'' @ portRefKey p, f)] | None \<Rightarrow> []) \<longleftrightarrow>
        (\<exists>p. e = PortEnd p \<and> a = ''t:'' @ portRefKey p \<and> out = f)" for e and f :: "string list"
      by (cases e) auto
    moreover have "(a, out) \<in> set (map (\<lambda>s. (''t:'' @ portRefKey s, follow (PortEnd p))) ss) \<longleftrightarrow>
        (\<exists>s \<in> set ss. a = ''t:'' @ portRefKey s \<and> out = [])" for p ss
      by auto
    moreover have "x \<in> set (concat (map f xs)) \<longleftrightarrow> (\<exists>y \<in> set xs. x \<in> set (f y))" for x f and xs :: "'z list"
      by simp
    ultimately show ?thesis unfolding input_feeds_def set_append Un_iff by simp
  qed
  ultimately show ?thesis
    by (intro set_eqI) (simp only: mem_Collect_eq split_paired_all case_prod_conv, force)
qed

lemma driver_edges:
  assumes "tp_reroutes st = link_reroutes (gd_links def)" and "\<And>s. selector_entry st s = selector_links (gd_links def) s"
    and "distinct (map fst (link_reroutes (gd_links def)))" and "distinct (link_inputs (gd_links def) @ net_inputs (gd_nets def))"
  shows "edges (driver_table def st) = chain_edges def"
proof -
  have feeds: "fst ` set (input_feeds def) \<subseteq> range ((@) ''t:'')"
    using arg_cong [OF input_feeds_keys [of def], of set] by auto
  have rs: "fst ` set (reroute_table st) \<subseteq> range ((@) ''r:'')" "fst ` set (selector_table st) \<subseteq> range ((@) ''s:'')"
    by (auto simp: reroute_table_def selector_table_def)
  have apart: "fst ` set (selector_table st) \<inter> fst ` set (input_feeds def) = {}"
      "fst ` set (reroute_table st) \<inter> fst ` set (selector_table st @ input_feeds def) = {}"
    using feeds rs by fastforce+
  have "edges (driver_table def st) = edges (reroute_table st) \<union> (edges (selector_table st) \<union> edges (input_feeds def))"
    unfolding driver_table_parts edges_append [OF apart(2)] edges_append [OF apart(1)] ..
  also have "\<dots> = chain_edges def"
    unfolding reroute_edges [OF assms(1,3)] selector_edges [OF assms(2)] feed_edges [OF assms(4)] chain_edges_def
  proof (intro set_eqI)
    fix x :: "string \<times> string"
    obtain a b where x: "x = (a, b)" by (cases x)
    have keys: "a \<in> set (driven_keys e) \<longleftrightarrow> (\<exists>r. e = RerouteEnd r \<and> a = ''r:'' @ r) \<or>
        (\<exists>s c. e = SelectorEnd s (Some c) \<and> a = ''s:'' @ s) \<or> (\<exists>p. e = PortEnd p \<and> a = ''t:'' @ portRefKey p)" for e
      by (cases e rule: driven_keys.cases) auto
    show "x \<in> {(a, b). \<exists>kl \<in> set (gd_links def). \<exists>r. ln_to (snd kl) = RerouteEnd r \<and> a = ''r:'' @ r \<and> b \<in> set (follow (ln_from (snd kl)))} \<union>
        ({(a, b). \<exists>kl \<in> set (gd_links def). \<exists>s c. ln_to (snd kl) = SelectorEnd s (Some c) \<and> a = ''s:'' @ s \<and> b \<in> set (follow (ln_from (snd kl)))} \<union>
         {(a, b). \<exists>kl \<in> set (gd_links def). \<exists>p. ln_to (snd kl) = PortEnd p \<and> a = ''t:'' @ portRefKey p \<and> b \<in> set (follow (ln_from (snd kl)))}) \<longleftrightarrow>
      x \<in> {(a, b). \<exists>kl \<in> set (gd_links def). a \<in> set (driven_keys (ln_to (snd kl))) \<and> b \<in> set (follow (ln_from (snd kl)))}"
      unfolding x Un_iff mem_Collect_eq case_prod_conv keys by blast
  qed
  finally show ?thesis .
qed

section \<open>Names and endpoints\<close>

definition plain :: "string \<Rightarrow> bool" where
  "plain x \<longleftrightarrow> x \<notin> set object_prototype_names"

lemma defined_plain: "plain k \<Longrightarrow> defined (read_key m k) \<longleftrightarrow> k \<in> fst ` set m"
  using map_of_eq_None_iff [of m k] by (auto simp: defined_def read_key_def plain_def split: option.splits)

lemma defined_opt_plain: "plain k \<Longrightarrow> defined (opt_read m k) \<longleftrightarrow> k \<in> fst ` set (opt_list m)"
  by (cases m) (simp_all add: opt_read_def opt_list_def defined_plain, simp add: defined_def)

fun endpoint_name :: "endpoint \<Rightarrow> string" where
  "endpoint_name (RerouteEnd r) = r"
| "endpoint_name (ValueSourceEnd v) = v"
| "endpoint_name (SelectorEnd s c) = s"
| "endpoint_name (WidgetTapEnd n t) = n"
| "endpoint_name (PortEnd p) = pr_node p"

text \<open>The endpoint names something of the graph; a port of a dynamic family names a member that is there.\<close>

fun endpoint_exists :: "graph_def \<Rightarrow> endpoint \<Rightarrow> bool" where
  "endpoint_exists def (RerouteEnd r) = (r \<in> fst ` set (gd_reroutes def))"
| "endpoint_exists def (ValueSourceEnd v) = (v \<in> fst ` set (opt_list (gd_valueSources def)))"
| "endpoint_exists def (SelectorEnd s c) =
     (\<exists>sel. map_of (opt_list (gd_selectors def)) s = Some sel \<and> (\<forall>x. c = Some x \<longrightarrow> x \<in> set (sl_candidates sel)))"
| "endpoint_exists def (WidgetTapEnd n t) = (n \<in> fst ` set (gd_nodes def))"
| "endpoint_exists def (PortEnd p) =
     (\<exists>node. map_of (gd_nodes def) (pr_node p) = Some node \<and> \<not> dynamic_missing p (nd_dynamic node))"

lemma opt_read_list: "opt_read m k = read_key (opt_list m) k" if "plain k"
  using that by (cases m) (simp_all add: opt_read_def opt_list_def read_key_def plain_def)

lemma read_plain: "plain k \<Longrightarrow> read_key m k = (case map_of m k of Some v \<Rightarrow> Own v | None \<Rightarrow> Absent)"
  by (simp add: read_key_def plain_def split: option.splits)

lemma ok_end_plain: "plain (endpoint_name e) \<Longrightarrow> ok_end def e \<longleftrightarrow> endpoint_exists def e"
proof (cases e)
  case (SelectorEnd s c)
  moreover assume "plain (endpoint_name e)"
  ultimately show ?thesis
    by (cases "map_of (opt_list (gd_selectors def)) s"; cases c) (auto simp: ok_end_def opt_read_list read_plain)
next
  case (PortEnd p)
  moreover assume "plain (endpoint_name e)"
  ultimately show ?thesis by (cases "map_of (gd_nodes def) (pr_node p)") (auto simp: ok_end_def read_plain)
qed (simp_all add: ok_end_def defined_plain defined_opt_plain)

lemma chain_roots:
  assumes links: "\<forall>kl \<in> set (gd_links def). ok_end def (ln_from (snd kl)) \<and> plain (endpoint_name (ln_from (snd kl)))"
    and edge: "(a, b) \<in> chain_edges def"
  shows "b \<in> set (walk_roots_of def)"
proof -
  obtain kl where kl: "kl \<in> set (gd_links def)" "b \<in> set (follow (ln_from (snd kl)))"
    using edge by (auto simp: chain_edges_def)
  have there: "endpoint_exists def (ln_from (snd kl))" using links kl(1) ok_end_plain by blast
  show ?thesis
  proof (cases "ln_from (snd kl)")
    case (RerouteEnd r)
    then show ?thesis using there kl(2) by (auto simp: walk_roots_of_def)
  next
    case (SelectorEnd s c)
    then have "s \<in> fst ` set (opt_list (gd_selectors def))" using there by (force dest: map_of_in_set)
    then show ?thesis using SelectorEnd kl(2) by (auto simp: walk_roots_of_def split: if_splits)
  next
    case (WidgetTapEnd n t)
    then have "b \<in> set (case ln_from (snd kl) of WidgetTapEnd n t \<Rightarrow> follow (ln_from (snd kl)) | _ \<Rightarrow> [])" using kl(2) by simp
    then have "b \<in> set (concat (map (\<lambda>l. case ln_from (snd l) of WidgetTapEnd n t \<Rightarrow> follow (ln_from (snd l)) | _ \<Rightarrow> []) (gd_links def)))"
      using kl(1) unfolding set_concat set_map by blast
    then show ?thesis unfolding walk_roots_of_def set_append by blast
  qed (use kl(2) in simp_all)
qed

end
