(* ===== verification/GraphInvariants.thy ===== *)
theory GraphInvariants
  imports GraphExact
begin

text \<open>
  The boundary of a graph, the invariants of a graph as one predicate, and the exactness of the graph check.
\<close>

section \<open>Boundaries\<close>

fun binding_name :: "boundary_binding \<Rightarrow> string list" where
  "binding_name (PortBinding k n p ms via sl) = n # (case via of None \<Rightarrow> [] | Some r \<Rightarrow> [r])"
| "binding_name (WidgetTapBinding n t) = [n]"
| "binding_name (ValueSourceBinding v ty) = [v]"
| "binding_name (UnboundBinding ty) = []"

fun binding_reroutes :: "boundary_binding \<Rightarrow> string list" where
  "binding_reroutes (PortBinding k n p ms via sl) = (case via of None \<Rightarrow> [] | Some r \<Rightarrow> [r])"
| "binding_reroutes _ = []"

fun binding_sources :: "boundary_binding \<Rightarrow> string list" where
  "binding_sources (ValueSourceBinding v ty) = [v]"
| "binding_sources _ = []"

definition binding_ok :: "graph_def \<Rightarrow> string set \<Rightarrow> bool \<Rightarrow> boundary_item \<Rightarrow> boundary_binding \<Rightarrow> bool" where
  "binding_ok def driven is_input item b =
     (case b of
        UnboundBinding ty \<Rightarrow> bi_alsoBinds item = None \<and> bi_promoted item = None
      | ValueSourceBinding v ty \<Rightarrow>
          defined (opt_read (gd_valueSources def) v) \<and> bi_alsoBinds item = None \<and> (is_input \<or> bi_promoted item = None)
      | WidgetTapBinding n t \<Rightarrow> defined (read_key (gd_nodes def) n)
      | PortBinding k n p ms via sl \<Rightarrow>
          defined (read_key (gd_nodes def) n) \<and>
          (\<forall>r. via = Some r \<longrightarrow> is_input \<and> k = PortKind \<and> defined (read_key (gd_reroutes def) r) \<and> r \<notin> driven))"

definition driven_reroutes :: "topo \<Rightarrow> string set" where
  "driven_reroutes tp = fst ` set (tp_reroutes tp)"

lemma not_driven: "map_of (tp_reroutes tp) r = None \<longleftrightarrow> r \<notin> driven_reroutes tp"
  by (simp add: driven_reroutes_def map_of_eq_None_iff)

lemma check_binding_state:
  "bs_ids (check_binding def tp inp item b st) = bs_ids st"
  "bs_reroutes (check_binding def tp inp item b st) = binding_reroutes b @ bs_reroutes st"
  "bs_inputs (check_binding def tp inp item b st) = (if inp then binding_sources b else []) @ bs_inputs st"
  "bs_diags (check_binding def tp inp item b st) = [] \<longleftrightarrow>
     bs_diags st = [] \<and> binding_ok def (driven_reroutes tp) inp item b \<and> set (binding_reroutes b) \<inter> set (bs_reroutes st) = {} \<and>
     (inp \<longrightarrow> set (binding_sources b) \<inter> set (bs_inputs st) = {})"
  by (cases b; auto simp: check_binding_def binding_ok_def not_driven split: option.splits)+

definition bindings_reroutes :: "boundary_binding list \<Rightarrow> string list" where
  "bindings_reroutes bs = concat (map binding_reroutes bs)"

definition bindings_sources :: "bool \<Rightarrow> boundary_binding list \<Rightarrow> string list" where
  "bindings_sources inp bs = (if inp then concat (map binding_sources bs) else [])"

lemma single_names: "distinct (binding_reroutes b)" "distinct (binding_sources b)"
  by (cases b; simp split: option.splits)+

lemma fold_bindings:
  "bs_ids (fold (check_binding def tp inp item) bs st) = bs_ids st"
  "set (bs_reroutes (fold (check_binding def tp inp item) bs st)) = set (bindings_reroutes bs) \<union> set (bs_reroutes st)"
  "set (bs_inputs (fold (check_binding def tp inp item) bs st)) = set (bindings_sources inp bs) \<union> set (bs_inputs st)"
  by (induction bs arbitrary: st) (auto simp: check_binding_state bindings_reroutes_def bindings_sources_def)

lemma fold_bindings_diags:
  "bs_diags (fold (check_binding def tp inp item) bs st) = [] \<longleftrightarrow>
   bs_diags st = [] \<and> (\<forall>b \<in> set bs. binding_ok def (driven_reroutes tp) inp item b) \<and>
   distinct (bindings_reroutes bs) \<and> set (bindings_reroutes bs) \<inter> set (bs_reroutes st) = {} \<and>
   distinct (bindings_sources inp bs) \<and> set (bindings_sources inp bs) \<inter> set (bs_inputs st) = {}"
proof (induction bs arbitrary: st)
  case (Cons b bs)
  show ?case
    unfolding fold_simps comp_def Cons.IH
    by (cases inp) (auto simp: check_binding_state bindings_reroutes_def bindings_sources_def single_names)
qed (simp add: bindings_reroutes_def bindings_sources_def)

definition items_binds :: "boundary_item list \<Rightarrow> boundary_binding list" where
  "items_binds items = concat (map all_binds items)"

lemma binds_append:
  "bindings_reroutes (xs @ ys) = bindings_reroutes xs @ bindings_reroutes ys"
  "bindings_sources inp (xs @ ys) = bindings_sources inp xs @ bindings_sources inp ys"
  by (simp_all add: bindings_reroutes_def bindings_sources_def)

lemma items_Cons: "items_binds (item # items) = all_binds item @ items_binds items" "items_binds [] = []"
  by (simp_all add: items_binds_def)

lemma binds_Nil: "bindings_reroutes [] = []" "bindings_sources inp [] = []"
  by (simp_all add: bindings_reroutes_def bindings_sources_def)

lemma check_item_state:
  "bs_ids (check_item def tp inp item st) = bi_id item # bs_ids st"
  "set (bs_reroutes (check_item def tp inp item st)) = set (bindings_reroutes (all_binds item)) \<union> set (bs_reroutes st)"
  "set (bs_inputs (check_item def tp inp item st)) = set (bindings_sources inp (all_binds item)) \<union> set (bs_inputs st)"
  unfolding check_item_def fold_bindings by simp_all

lemma check_item_diags:
  "bs_diags (check_item def tp inp item st) = [] \<longleftrightarrow>
   bs_diags st = [] \<and> bi_id item \<notin> set (bs_ids st) \<and>
   (\<forall>b \<in> set (all_binds item). binding_ok def (driven_reroutes tp) inp item b) \<and>
   distinct (bindings_reroutes (all_binds item)) \<and> set (bindings_reroutes (all_binds item)) \<inter> set (bs_reroutes st) = {} \<and>
   distinct (bindings_sources inp (all_binds item)) \<and> set (bindings_sources inp (all_binds item)) \<inter> set (bs_inputs st) = {}"
  unfolding check_item_def fold_bindings_diags by auto

lemma fold_items:
  "set (bs_ids (fold (check_item def tp inp) items st)) = set (map bi_id items) \<union> set (bs_ids st)"
  "set (bs_reroutes (fold (check_item def tp inp) items st)) = set (bindings_reroutes (items_binds items)) \<union> set (bs_reroutes st)"
  "set (bs_inputs (fold (check_item def tp inp) items st)) = set (bindings_sources inp (items_binds items)) \<union> set (bs_inputs st)"
  by (induction items arbitrary: st) (auto simp: check_item_state items_Cons binds_append binds_Nil)

lemma fold_items_diags:
  "bs_diags (fold (check_item def tp inp) items st) = [] \<longleftrightarrow>
   bs_diags st = [] \<and> distinct (map bi_id items) \<and> set (map bi_id items) \<inter> set (bs_ids st) = {} \<and>
   (\<forall>item \<in> set items. \<forall>b \<in> set (all_binds item). binding_ok def (driven_reroutes tp) inp item b) \<and>
   distinct (bindings_reroutes (items_binds items)) \<and> set (bindings_reroutes (items_binds items)) \<inter> set (bs_reroutes st) = {} \<and>
   distinct (bindings_sources inp (items_binds items)) \<and> set (bindings_sources inp (items_binds items)) \<inter> set (bs_inputs st) = {}"
proof (induction items arbitrary: st)
  case (Cons item items)
  show ?case
    unfolding fold_simps comp_def Cons.IH check_item_diags check_item_state items_Cons binds_append distinct_append set_append
    by auto
qed (simp add: items_Cons binds_Nil)

text \<open>I7: ids and attached reroutes are used once, value sources by one input, and every binding is in order.\<close>

definition boundary_ok :: "graph_def \<Rightarrow> string set \<Rightarrow> bool" where
  "boundary_ok def driven \<longleftrightarrow>
     (case gd_boundary def of
        None \<Rightarrow> True
      | Some (inputs, outputs) \<Rightarrow>
          distinct (map bi_id (inputs @ outputs)) \<and>
          (\<forall>item \<in> set inputs. \<forall>b \<in> set (all_binds item). binding_ok def driven True item b) \<and>
          (\<forall>item \<in> set outputs. \<forall>b \<in> set (all_binds item). binding_ok def driven False item b) \<and>
          distinct (bindings_reroutes (items_binds (inputs @ outputs))) \<and>
          distinct (bindings_sources True (items_binds inputs)))"

lemma check_boundary_Nil: "check_boundary def tp = [] \<longleftrightarrow> boundary_ok def (driven_reroutes tp)"
proof (cases "gd_boundary def")
  case (Some io)
  obtain inputs outputs where io: "io = (inputs, outputs)" by (cases io)
  have "bindings_sources False bs = []" for bs by (simp add: bindings_sources_def)
  moreover have "items_binds (inputs @ outputs) = items_binds inputs @ items_binds outputs" by (simp add: items_binds_def)
  ultimately show ?thesis
    by (auto simp: check_boundary_def boundary_ok_def Some io fold_items fold_items_diags binds_append)
qed (simp add: check_boundary_def boundary_ok_def)

section \<open>The invariants of a graph\<close>

definition link_ids :: "graph_def \<Rightarrow> string list" where
  "link_ids def = map (\<lambda>kl. ln_id (snd kl)) (gd_links def)"

definition net_ids :: "graph_def \<Rightarrow> string list" where
  "net_ids def = map (\<lambda>kn. nt_id (snd kn)) (gd_nets def)"

definition below_cursor :: "graph_def \<Rightarrow> string \<Rightarrow> bool" where
  "below_cursor def i \<longleftrightarrow> (\<forall>p n a. parseAllocatedId i = Some (p, n, a) \<longrightarrow> n < graph_cursor def a)"

text \<open>I6: ids are used once and lie below their cursors, and members are kept under their ids.\<close>

definition ids_ok :: "graph_def \<Rightarrow> bool" where
  "ids_ok def \<longleftrightarrow>
     distinct (member_ids def @ link_ids def @ net_ids def) \<and>
     (\<forall>i \<in> set (member_ids def @ link_ids def @ net_ids def). below_cursor def i) \<and>
     (\<forall>kn \<in> set (gd_nodes def). fst kn = nd_id (snd kn)) \<and> (\<forall>kv \<in> set (gd_reroutes def). fst kv = snd kv) \<and>
     (\<forall>kv \<in> set (opt_list (gd_valueSources def)). fst kv = snd kv) \<and>
     (\<forall>ks \<in> set (opt_list (gd_selectors def)). fst ks = sl_id (snd ks)) \<and>
     (\<forall>kl \<in> set (gd_links def). fst kl = ln_id (snd kl)) \<and> (\<forall>kn \<in> set (gd_nets def). fst kn = nt_id (snd kn))"

text \<open>I11: candidates are distinct and below their cursors, a fixed policy names one of them.\<close>

definition candidates_ok :: "graph_def \<Rightarrow> bool" where
  "candidates_ok def \<longleftrightarrow> (\<forall>(k, sel) \<in> set (opt_list (gd_selectors def)).
     distinct (sl_candidates sel) \<and> (\<forall>c \<in> set (sl_candidates sel). below_cursor def c) \<and>
     (\<forall>c. sl_policy sel = FixedPolicy c \<longrightarrow> c \<in> set (sl_candidates sel)))"

text \<open>I3, I4, I10, I12: endpoints exist, sources produce and targets consume.\<close>

definition endpoints_ok :: "graph_def \<Rightarrow> bool" where
  "endpoints_ok def \<longleftrightarrow>
     (\<forall>(k, l) \<in> set (gd_links def). endpoint_exists def (ln_from l) \<and> produces (ln_from l) \<and>
        endpoint_exists def (ln_to l) \<and> consumes (ln_to l)) \<and>
     (\<forall>(k, n) \<in> set (gd_nets def). \<forall>p \<in> set (nt_source n # nt_sinks n). endpoint_exists def (PortEnd p))"

text \<open>I5, I9, I11: at most one driver per input, reroute and candidate, and no cycle of drivers.\<close>

definition drivers_ok :: "graph_def \<Rightarrow> bool" where
  "drivers_ok def \<longleftrightarrow>
     distinct (link_inputs (gd_links def) @ net_inputs (gd_nets def)) \<and> distinct (map fst (link_reroutes (gd_links def))) \<and>
     distinct (link_candidates (gd_links def)) \<and> acyclic (chain_edges def)"

definition graph_ok :: "(string \<times> graph_def) list \<Rightarrow> string \<Rightarrow> graph_def \<Rightarrow> bool" where
  "graph_ok graphs defId def \<longleftrightarrow>
     ids_ok def \<and> candidates_ok def \<and> endpoints_ok def \<and> drivers_ok def \<and>
     (\<forall>(k, node) \<in> set (gd_nodes def). (\<forall>ref. subgraphDefIdOf (nd_type node) = Some ref \<longrightarrow> ref \<in> fst ` set graphs) \<and>
        region_ok graphs defId node) \<and>
     boundary_ok def (fst ` set (link_reroutes (gd_links def)))"

text \<open>The names the check looks up outside the boundary.\<close>

definition names_read :: "graph_def \<Rightarrow> string list" where
  "names_read def =
     concat (map (\<lambda>kl. [endpoint_name (ln_from (snd kl)), endpoint_name (ln_to (snd kl))]) (gd_links def)) @
     concat (map (\<lambda>kn. map pr_node (nt_source (snd kn) # nt_sinks (snd kn))) (gd_nets def)) @
     concat (map (\<lambda>kn. case subgraphDefIdOf (nd_type (snd kn)) of Some ref \<Rightarrow> [ref] | None \<Rightarrow> []) (gd_nodes def))"

definition plain_graph :: "graph_def \<Rightarrow> bool" where
  "plain_graph def \<longleftrightarrow> list_all plain (names_read def)"

lemma checkCursor_Nil: "checkCursor def i = [] \<longleftrightarrow> below_cursor def i"
  by (auto simp: checkCursor_def below_cursor_def not_le split: option.splits)

text \<open>The check, run without diagnostics, in terms of what its loops look for.\<close>

definition graph_checks :: "(string \<times> graph_def) list \<Rightarrow> string \<Rightarrow> graph_def \<Rightarrow> bool" where
  "graph_checks graphs defId def \<longleftrightarrow>
     ids_fresh def [] (member_ids def @ link_ids def @ net_ids def) \<and> members_ok graphs defId def \<and>
     (\<forall>kl \<in> set (gd_links def). link_ok def kl) \<and> (\<forall>kn \<in> set (gd_nets def). net_ok def kn) \<and>
     distinct (link_inputs (gd_links def) @ net_inputs (gd_nets def)) \<and> distinct (map fst (link_reroutes (gd_links def))) \<and>
     distinct (link_candidates (gd_links def)) \<and> boundary_ok def (fst ` set (link_reroutes (gd_links def)))"

definition after_members :: "graph_def \<Rightarrow> topo" where
  "after_members def = empty_topo\<lparr>tp_seen := rev (member_ids def)\<rparr>"

definition after_links :: "graph_def \<Rightarrow> topo" where
  "after_links def = foldl record_link (after_members def) (gd_links def)"

lemma after_fields:
  "silent (after_members def)" "tp_inputs (after_members def) = []" "tp_reroutes (after_members def) = []"
  "tp_candidates (after_members def) = []" "selector_entry (after_members def) s = []"
  "tp_seen (after_members def) = rev (member_ids def)"
  by (simp_all add: after_members_def empty_topo_def selector_entry_def)

lemma after_links_fields:
  "silent (after_links def)" "set (tp_inputs (after_links def)) = set (link_inputs (gd_links def))"
  "tp_reroutes (after_links def) = link_reroutes (gd_links def)"
  "selector_entry (after_links def) s = selector_links (gd_links def) s"
  "tp_seen (after_links def) = rev (link_ids def) @ rev (member_ids def)"
  by (simp_all add: after_links_def foldl_record_link foldl_selector_entry after_fields link_ids_def)

lemma new_targets_start:
  "new_targets (after_members def) ls \<longleftrightarrow>
   distinct (link_inputs ls) \<and> distinct (map fst (link_reroutes ls)) \<and> distinct (link_candidates ls)"
  by (simp add: new_targets_def after_fields)

definition chains_silent :: "graph_def \<Rightarrow> bool" where
  "chains_silent def \<longleftrightarrow> walk_from cycle_code True (driver_table def (after_links def)) (walk_roots_of def) = []"

lemma links_run:
  "foldR (check_link def) (after_members def) (gd_links def) = Inr st2 \<and> silent st2 \<longleftrightarrow>
   ids_fresh def (rev (member_ids def)) (link_ids def) \<and> (\<forall>kl \<in> set (gd_links def). link_ok def kl) \<and>
   new_targets (after_members def) (gd_links def) \<and> st2 = after_links def"
  unfolding links.loop_clean record_link_def [symmetric] all_along_links after_links_def link_ids_def
  by (auto simp: after_fields)

lemma chains_run: "silent (check_chains def (after_links def)) \<longleftrightarrow> chains_silent def"
  by (simp add: check_chains_def chains_silent_def after_links_fields)

lemma nets_run:
  assumes "chains_silent def"
  shows "foldR (check_net def) (check_chains def (after_links def)) (gd_nets def) = Inr st3 \<and> silent st3 \<longleftrightarrow>
   ids_fresh def (rev (link_ids def) @ rev (member_ids def)) (net_ids def) \<and> (\<forall>kn \<in> set (gd_nets def). net_ok def kn) \<and>
   distinct (net_inputs (gd_nets def)) \<and> set (net_inputs (gd_nets def)) \<inter> set (link_inputs (gd_links def)) = {} \<and>
   st3 = foldl record_net (after_links def) (gd_nets def)"
proof -
  have "check_chains def (after_links def) = after_links def"
    using assms by (simp add: check_chains_def chains_silent_def)
  then show ?thesis
    unfolding nets.loop_clean all_along_nets net_ids_def by (simp add: after_links_fields)
qed

lemma run_chain:
  assumes "\<And>st1. M st1 \<longleftrightarrow> A \<and> st1 = c" and "\<And>st2. L c st2 \<longleftrightarrow> B \<and> st2 = d"
  shows "(\<exists>st1 st2 st3. M st1 \<and> L st1 st2 \<and> Q st2 \<and> R st2 st3) \<longleftrightarrow> A \<and> B \<and> Q d \<and> (\<exists>st3. R d st3)"
  by (auto simp: assms)

lemma checkGraphDef_runs:
  "checkGraphDef graphs defId def = Inr [] \<longleftrightarrow> graph_checks graphs defId def \<and> chains_silent def"
proof -
  let ?links = "\<lambda>st. foldR (check_link def) st (gd_links def)"
  let ?nets = "\<lambda>st. foldR (check_net def) (check_chains def st) (gd_nets def)"
  have "checkGraphDef graphs defId def = Inr [] \<longleftrightarrow> (\<exists>st1 st2 st3. check_members graphs defId def = Inr st1 \<and>
      ?links st1 = Inr st2 \<and> (?nets st2 = Inr st3 \<and> silent st3) \<and> check_boundary def st3 = [])"
    by (auto simp: checkGraphDef_def result_simps)
  also have "\<dots> \<longleftrightarrow> (\<exists>st1 st2 st3. (check_members graphs defId def = Inr st1 \<and> silent st1) \<and>
      (?links st1 = Inr st2 \<and> silent st2) \<and> silent (check_chains def st2) \<and> (?nets st2 = Inr st3 \<and> silent st3) \<and> check_boundary def st3 = [])"
  proof -
    have "silent (check_chains def st2) \<and> silent st2" if "?nets st2 = Inr st3" "silent st3" for st2 st3
      using nets.loop_clean [of def "check_chains def st2" "gd_nets def" st3] that by (simp add: check_chains_def)
    moreover have "silent st1" if "?links st1 = Inr st2" "silent st2" for st1 st2
      using links.loop_clean [of def st1 "gd_links def" st2] that by simp
    ultimately show ?thesis by meson
  qed
  also have "\<dots> \<longleftrightarrow> (ids_fresh def [] (member_ids def) \<and> members_ok graphs defId def) \<and>
      (ids_fresh def (rev (member_ids def)) (link_ids def) \<and> (\<forall>kl \<in> set (gd_links def). link_ok def kl) \<and>
        new_targets (after_members def) (gd_links def)) \<and> silent (check_chains def (after_links def)) \<and>
      (\<exists>st3. (?nets (after_links def) = Inr st3 \<and> silent st3) \<and> check_boundary def st3 = [])"
    by (rule run_chain) (unfold check_members_clean after_members_def [symmetric] conj_assoc, rule refl,
      unfold links_run conj_assoc, rule refl)
  also have "\<dots> \<longleftrightarrow> graph_checks graphs defId def \<and> chains_silent def"
  proof (cases "chains_silent def")
    case True
    show ?thesis
      unfolding nets_run [OF True] chains_run check_boundary_Nil new_targets_start graph_checks_def ids_fresh_append
      by (auto simp: driven_reroutes_def foldl_record_net after_links_fields)
  qed (simp add: chains_run)
  finally show ?thesis .
qed

lemma chains_silent_acyclic:
  assumes "plain_graph def" and "graph_checks graphs defId def"
  shows "chains_silent def \<longleftrightarrow> acyclic (chain_edges def)"
proof -
  have edges: "edges (driver_table def (after_links def)) = chain_edges def"
    using assms(2) by (intro driver_edges) (simp_all add: graph_checks_def after_links_fields)
  have links: "\<forall>kl \<in> set (gd_links def). ok_end def (ln_from (snd kl)) \<and> plain (endpoint_name (ln_from (snd kl)))"
    using assms by (force simp: graph_checks_def link_ok_def plain_graph_def names_read_def list_all_iff)
  have "covered_walk (driver_table def (after_links def)) (walk_roots_of def)"
  proof
    fix k out
    assume "(k, k) \<in> (edges (driver_table def (after_links def)))\<^sup>+"
    then obtain a where "(a, k) \<in> chain_edges def" unfolding edges by (blast dest: tranclD2)
    then show "k \<in> set (walk_roots_of def)" using chain_roots [OF links] by blast
  qed
  from covered_walk.silent_iff_acyclic [OF this] show ?thesis unfolding chains_silent_def edges .
qed

lemma graph_ok_checks:
  assumes "plain_graph def"
  shows "graph_ok graphs defId def \<longleftrightarrow> graph_checks graphs defId def \<and> acyclic (chain_edges def)"
proof -
  have names: "\<forall>x \<in> set (names_read def). plain x" using assms by (simp add: plain_graph_def list_all_iff)
  have links: "ok_end def (ln_from (snd kl)) \<longleftrightarrow> endpoint_exists def (ln_from (snd kl))"
      "ok_end def (ln_to (snd kl)) \<longleftrightarrow> endpoint_exists def (ln_to (snd kl))" if "kl \<in> set (gd_links def)" for kl
    using names that by (auto simp: names_read_def intro!: ok_end_plain)
  have nets: "ok_end def (PortEnd p) \<longleftrightarrow> endpoint_exists def (PortEnd p)"
    if "kn \<in> set (gd_nets def)" "p \<in> set (nt_source (snd kn) # nt_sinks (snd kn))" for kn p
    using names that by (intro ok_end_plain) (auto simp: names_read_def)
  have subs: "subgraph_resolves graphs (snd kn) \<longleftrightarrow> (\<forall>ref. subgraphDefIdOf (nd_type (snd kn)) = Some ref \<longrightarrow> ref \<in> fst ` set graphs)"
    if "kn \<in> set (gd_nodes def)" for kn
  proof (cases "subgraphDefIdOf (nd_type (snd kn))")
    case (Some ref)
    then have "ref \<in> set (names_read def)" using that by (force simp: names_read_def)
    then show ?thesis using names Some by (simp add: subgraph_resolves_def defined_plain)
  qed (simp add: subgraph_resolves_def)
  have "(\<forall>kl \<in> set (gd_links def). link_ok def kl) \<longleftrightarrow> (\<forall>kl \<in> set (gd_links def). fst kl = ln_id (snd kl) \<and>
      endpoint_exists def (ln_from (snd kl)) \<and> produces (ln_from (snd kl)) \<and> endpoint_exists def (ln_to (snd kl)) \<and> consumes (ln_to (snd kl)))"
    using links by (auto simp: link_ok_def)
  moreover have "(\<forall>kn \<in> set (gd_nets def). net_ok def kn) \<longleftrightarrow> (\<forall>kn \<in> set (gd_nets def). fst kn = nt_id (snd kn) \<and>
      (\<forall>p \<in> set (nt_source (snd kn) # nt_sinks (snd kn)). endpoint_exists def (PortEnd p)))"
    using nets unfolding net_ok_def by (metis list.set_intros set_ConsD)
  moreover have "(\<forall>kn \<in> set (gd_nodes def). node_ok graphs defId kn) \<longleftrightarrow> (\<forall>kn \<in> set (gd_nodes def). fst kn = nd_id (snd kn) \<and>
      (\<forall>ref. subgraphDefIdOf (nd_type (snd kn)) = Some ref \<longrightarrow> ref \<in> fst ` set graphs) \<and> region_ok graphs defId (snd kn))"
    using subs unfolding node_ok_def by blast
  ultimately show ?thesis
    unfolding graph_ok_def graph_checks_def ids_ok_def candidates_ok_def endpoints_ok_def drivers_ok_def members_ok_def ids_fresh_def
      selector_ok_def checkCursor_Nil case_prod_beta
    by (simp only: ball_conj_distrib list.set(1) Int_empty_right simp_thms) argo
qed

section \<open>The check is exact\<close>

text \<open>C11: The check of a graph is exact. On a graph that names nothing after a member of \<open>Object.prototype\<close> it
  returns without diagnostics just in case every id is used once and lies below its allocation cursor, every link
  and net endpoint exists and is used in its direction, no input, reroute or selector candidate has two drivers, the
  chains of reroutes, selectors and widget taps have no cycle, every definition a node refers to exists, regions
  keep their contract, and the boundary binds what exists.\<close>

theorem checkGraphDef_exact:
  assumes "plain_graph def"
  shows "checkGraphDef graphs defId def = Inr [] \<longleftrightarrow> graph_ok graphs defId def"
  unfolding checkGraphDef_runs graph_ok_checks [OF assms] using chains_silent_acyclic [OF assms] by blast

definition demo_port :: "string \<Rightarrow> string \<Rightarrow> endpoint" where
  "demo_port n p = PortEnd \<lparr>pr_node = n, pr_port = p, pr_members = None\<rparr>"

definition demo_node :: "string \<Rightarrow> string \<times> node_data" where
  "demo_node n = (n, \<lparr>nd_id = n, nd_type = ''T'', nd_values = [], nd_dynamic = None, nd_region = None\<rparr>)"

definition demo_link :: "string \<Rightarrow> endpoint \<Rightarrow> endpoint \<Rightarrow> string \<times> link_data" where
  "demo_link l from to = (l, \<lparr>ln_id = l, ln_from = from, ln_to = to\<rparr>)"

definition demo_graph :: "(string \<times> link_data) list \<Rightarrow> graph_def" where
  "demo_graph ls = \<lparr>gd_id = ''g'', gd_nodes = [demo_node ''n0'', demo_node ''n1''], gd_links = ls, gd_nets = [],
     gd_reroutes = [(''r2'', ''r2'')], gd_valueSources = None, gd_selectors = None, gd_boundary = None,
     gd_nextOrdinal = 5, gd_actorCursors = None\<rparr>"

definition demo_links :: "(string \<times> link_data) list" where
  "demo_links = [demo_link ''l3'' (demo_port ''n0'' ''out'') (RerouteEnd ''r2''),
     demo_link ''l4'' (RerouteEnd ''r2'') (demo_port ''n1'' ''in'')]"

lemma demo_graph_ids: "digit_char 0 = CHR ''0''" "digit_char 1 = CHR ''1''" "digit_char 2 = CHR ''2''" "digit_char 3 = CHR ''3''"
  "digit_char 4 = CHR ''4''" "digit_char (Suc 0) = CHR ''1''"
  by code_simp+

lemma demo_parse:
  "parseAllocatedId ''n0'' = Some (''n'', 0, None)" "parseAllocatedId ''n1'' = Some (''n'', 1, None)"
  "parseAllocatedId ''r2'' = Some (''r'', 2, None)" "parseAllocatedId ''l3'' = Some (''l'', 3, None)"
  "parseAllocatedId ''l4'' = Some (''l'', 4, None)"
  using parse_format_id [of "''n''" 0 None] parse_format_id [of "''n''" 1 None] parse_format_id [of "''r''" 2 None]
    parse_format_id [of "''l''" 3 None] parse_format_id [of "''l''" 4 None]
  by (simp_all add: formatAllocatedId_def show_nat.simps demo_graph_ids is_lower_def max_safe_nat_def)

lemmas demo_defs = demo_graph_def demo_node_def demo_link_def demo_port_def demo_links_def

lemma demo_members: "check_members [] ''g'' (demo_graph ls) = Inr (empty_topo\<lparr>tp_seen := [''r2'', ''n1'', ''n0'']\<rparr>)"
  by (simp add: check_members_def demo_graph_def demo_node_def check_node_def checkId_def checkCursor_def demo_parse
      graph_cursor_def report_if_def push_def subgraphDefIdOf_def starts_with_def check_keyed_def opt_list_def empty_topo_def)

lemma static_address: "resolveDynamicAddress p None None = Opaque"
  by (simp add: resolveDynamicAddress_def structural_address.simps family_candidates_def longest_first_def)

lemmas check_evals = demo_defs check_link_def checkId_def checkCursor_def demo_parse graph_cursor_def report_if_def push_def
  push_code_def empty_topo_def defined_def read_key_def check_source_def check_target_def drive_reroute_def claimInput_def
  dynamic_missing_def static_address Let_def check_chains_def driver_table_def input_feeds_def walk_roots_of_def walk_from_def
  opt_list_def enter_def finish_def check_boundary_def object_prototype_names_def

lemma demo_check: "checkGraphDef [] ''g'' (demo_graph demo_links) = Inr []"
  by (simp add: checkGraphDef_def demo_members) (simp add: check_evals)

theorem checkGraphDef_exact_witness:
  "graph_ok [] ''g'' (demo_graph demo_links)"
  by (rule checkGraphDef_exact [THEN iffD1, OF _ demo_check]) code_simp

text \<open>Outside those names the check misses dangling references: a link from a node \<open>toString\<close> that the graph does
  not have goes unreported, because the indexed read finds the inherited method.\<close>

lemma inherited_name_unreported:
  "checkGraphDef [] ''g'' (demo_graph [demo_link ''l3'' (demo_port ''toString'' ''out'') (demo_port ''n1'' ''in'')]) = Inr []"
  "\<not> endpoint_exists (demo_graph ls) (demo_port ''toString'' ''out'')"
  by (simp add: checkGraphDef_def demo_members) (simp_all add: check_evals)

text \<open>A selector reference of that kind makes the check itself throw.\<close>

lemma inherited_name_throws:
  "checkEndpoint ((demo_graph ls)\<lparr>gd_selectors := Some []\<rparr>) (SelectorEnd ''toString'' (Some ''c0'')) code = Inl TypeError"
  by (simp add: demo_graph_def opt_read_def read_key_def object_prototype_names_def)

end
