(* ===== verification/DocumentLaws.thy ===== *)
theory DocumentLaws
  imports DocumentCheck GraphInvariants
begin

text \<open>
  What the document check promises: definitions do not contain themselves, so instances nest no deeper than there
  are definitions, and a document without errors has sound graphs and one overlay per occurrence.
\<close>

section \<open>Recursion\<close>

definition refers :: "(string \<times> graph_def) list \<Rightarrow> (string \<times> string) set" where
  "refers graphs = {(a, b). \<exists>def key node. map_of graphs a = Some def \<and> (key, node) \<in> set (gd_nodes def) \<and>
     subgraphDefIdOf (nd_type node) = Some b \<and> defined (read_key graphs b)}"

lemma map_of_map_value: "map_of (map (\<lambda>(k, v). (k, f v)) xs) k = map_option f (map_of xs k)"
  by (induction xs) auto

lemma edges_definition_refs: "edges (definition_refs graphs) = refers graphs"
proof -
  define out where "out def = concat (map (\<lambda>(key, node).
       case subgraphDefIdOf (nd_type node) of
         None \<Rightarrow> []
       | Some ref \<Rightarrow> if defined (read_key graphs ref) then [ref] else []) (gd_nodes def))" for def :: graph_def
  have refs: "definition_refs graphs = map (\<lambda>(k, v). (k, out v)) graphs"
    by (simp add: definition_refs_def out_def)
  have out: "b \<in> set (out def) \<longleftrightarrow> (\<exists>key node. (key, node) \<in> set (gd_nodes def) \<and> subgraphDefIdOf (nd_type node) = Some b \<and>
      defined (read_key graphs b))" for b def
  proof -
    have "b \<in> set (case subgraphDefIdOf (nd_type node) of None \<Rightarrow> [] | Some ref \<Rightarrow> if defined (read_key graphs ref) then [ref] else []) \<longleftrightarrow>
        subgraphDefIdOf (nd_type node) = Some b \<and> defined (read_key graphs b)" for node
      by (auto split: option.splits)
    then show ?thesis by (fastforce simp: out_def)
  qed
  show ?thesis unfolding edges_def refers_def refs map_of_map_value by (fastforce simp: out)
qed

interpretation definitions: covered_walk "definition_refs graphs" "map fst graphs" for graphs
proof
  fix k out
  assume "map_of (definition_refs graphs) k = Some out"
  then have "k \<in> fst ` set (definition_refs graphs)" by (force dest: map_of_in_set)
  then show "k \<in> set (map fst graphs)" by (force simp: definition_refs_def)
qed

text \<open>C13: The recursion check is exact: it reports nothing just in case no subgraph definition contains itself,
  directly or through other definitions.\<close>

theorem checkNoRecursion_exact: "checkNoRecursion graphs = [] \<longleftrightarrow> acyclic (refers graphs)"
  unfolding checkNoRecursion_def definitions.silent_iff_acyclic edges_definition_refs ..

lemma checkNoRecursion_Nil: "checkNoRecursion graphs = [] \<longleftrightarrow> acyclic (refers graphs)"
  unfolding checkNoRecursion_def definitions.silent_iff_acyclic edges_definition_refs ..

section \<open>Depth of instances\<close>

lemma resolve_chain_refers:
  "resolve_chain graphs walked g segs = Inr (Some chain) \<Longrightarrow>
   length chain = length segs \<and> (\<forall>h \<in> set chain. hp_parent h \<in> fst ` set graphs \<and> (g, hp_parent h) \<in> (refers graphs)\<^sup>*) \<and>
   (acyclic (refers graphs) \<longrightarrow> distinct (map hp_parent chain))"
proof (induction graphs walked g segs arbitrary: chain rule: resolve_chain.induct)
  case (2 graphs walked g seg segs)
  obtain def where g: "read_key graphs g = Own def" using "2.prems" by (auto split: slot.splits)
  obtain node where n: "read_key (gd_nodes def) seg = Own node" using "2.prems" g by (auto split: slot.splits)
  obtain body where b: "subgraphDefIdOf (nd_type node) = Some body" using "2.prems" g n by (auto split: option.splits)
  have d: "defined (read_key graphs body)" using "2.prems" g n b by (auto split: if_splits)
  obtain rest where rest: "resolve_chain graphs (walked @ [seg]) body segs = Inr (Some rest)"
      "chain = \<lparr>hp_ref = \<lparr>oc_path = walked, oc_node = seg\<rparr>, hp_parent = g, hp_body = body, hp_node = node\<rparr> # rest"
    using "2.prems" g n b d by (cases "resolve_chain graphs (walked @ [seg]) body segs") (auto simp: map_option_eq_Some)
  note IH = "2.IH" [OF g n b, simplified, OF d rest(1)]
  have own: "map_of graphs g = Some def" "map_of (gd_nodes def) seg = Some node"
    using g n by (auto simp: read_key_def split: option.splits if_splits)
  have step: "(g, body) \<in> refers graphs"
    using own b d by (auto simp: refers_def dest: map_of_in_set)
  have further: "(g, hp_parent h) \<in> (refers graphs)\<^sup>+" if "h \<in> set rest" for h
    using IH that step by (auto intro: rtrancl_into_trancl2)
  then have "acyclic (refers graphs) \<longrightarrow> g \<notin> hp_parent ` set rest" by (auto simp: acyclic_def)
  moreover have "g \<in> fst ` set graphs" using own(1) by (force dest: map_of_in_set)
  ultimately show ?case using IH rest(2) further by (auto intro: trancl_into_rtrancl)
qed simp

text \<open>C14: In a document that passes the recursion check an occurrence that resolves is nested no deeper than there
  are definitions, and no definition occurs twice on the way to it: expanding instances ends.\<close>

theorem occurrence_depth_bounded:
  assumes "checkNoRecursion (wd_graphs doc) = []" and "resolveOccurrenceChain doc owner = Inr (Some chain)"
  shows "length (oc_path owner) < length (wd_graphs doc) \<and> distinct (map hp_parent chain) \<and>
    length chain = Suc (length (oc_path owner))"
proof -
  have chain: "length chain = Suc (length (oc_path owner))" "hp_parent ` set chain \<subseteq> fst ` set (wd_graphs doc)"
      "distinct (map hp_parent chain)"
    using resolve_chain_refers [OF assms(2) [unfolded resolveOccurrenceChain_def]] assms(1)
    by (auto simp: checkNoRecursion_Nil)
  have "length chain = card (hp_parent ` set chain)" using distinct_card [OF chain(3)] by simp
  also have "\<dots> \<le> card (fst ` set (wd_graphs doc))" using chain(2) by (intro card_mono) auto
  also have "\<dots> \<le> length (wd_graphs doc)" using card_length [of "map fst (wd_graphs doc)"] by simp
  finally show ?thesis using chain by simp
qed

end
