(* ===== verification/DocumentClean.thy ===== *)
theory DocumentClean
  imports DocumentLaws
begin

text \<open>
  A document whose check reports no error: every diagnostic of the graph check is an error, so a graph of such a
  document passes its check without any, and every occurrence overlay belongs to an occurrence that resolves.
\<close>

section \<open>The graph check only reports errors\<close>

definition errs :: "diagnostic list \<Rightarrow> bool" where
  "errs ds \<longleftrightarrow> list_all (\<lambda>d. dg_severity d = SevError) ds"

lemma errs_simps [simp]:
  "errs []" "errs (xs @ ys) \<longleftrightarrow> errs xs \<and> errs ys" "errs (error_diag c # ds) \<longleftrightarrow> errs ds" "errs (report_if b c)"
  by (simp_all add: errs_def error_diag_def report_if_def)

lemma errs_concat: "errs (concat dss) \<longleftrightarrow> (\<forall>ds \<in> set dss. errs ds)"
  by (auto simp: errs_def list_all_iff)

lemma errs_no_errors: "errs ds \<Longrightarrow> \<not> hasErrors ds \<Longrightarrow> ds = []"
  by (cases ds) (auto simp: errs_def hasErrors_def)

lemma gather_all: "gather f xs = Inr ds \<Longrightarrow> x \<in> set xs \<Longrightarrow> \<exists>d. f x = Inr d \<and> set d \<subseteq> set ds"
  by (induction xs arbitrary: ds) (auto simp: result_simps, blast)

lemma gather_errs: "gather f xs = Inr ds \<Longrightarrow> (\<And>x d. f x = Inr d \<Longrightarrow> errs d) \<Longrightarrow> errs ds"
  by (induction xs arbitrary: ds) (auto simp: result_simps)

lemma errs_explore: "errs (snd st) \<Longrightarrow> (\<And>k. errs [report k]) \<Longrightarrow> errs (snd (explore report close succs ks st))"
proof (induction report close succs ks st rule: explore.induct)
  case (2 report close succs k ks st)
  have "errs (snd (case fst st k of
      None \<Rightarrow> (case map_of succs k of None \<Rightarrow> finish k st
        | Some out \<Rightarrow> finish k (explore report close succs out (enter k st)))
    | Some OnPath \<Rightarrow> report_cycle report close k st | Some Finished \<Rightarrow> st))"
    using 2 by (auto split: option.splits colour.splits)
  then show ?case using 2 by simp
qed simp

lemma missing_input_errs: "missing_input graphs g node ids i = Inr ds \<Longrightarrow> errs ds"
  by (auto simp: missing_input_def result_simps split: if_splits)

lemma role_diags_errs: "role_diags ins outs states cont ts roles = (final, ds) \<Longrightarrow> errs ds"
  by (induction ins outs states cont ts roles arbitrary: ds rule: role_diags.induct)
    (auto simp: Let_def split: prod.splits)

lemma region_diags_errs:
  assumes "region_diags graphs g node region body ins outs = Inr ds"
  shows "errs ds"
proof -
  have el: "errs d" if "element_diags graphs g node ins states i = Inr d" for states i d
    using that missing_input_errs by (auto simp: element_diags_def result_simps)
  have st: "errs d" if "state_diags graphs g node ids i = Inr d" for ids i d
    using that missing_input_errs by (auto simp: state_diags_def result_simps)
  have kind: "errs (kind_diags region es ss)" for es ss by (simp add: kind_diags_def Let_def)
  let ?states = "js_set (texts_of (field region ''statePorts''))"
  obtain targets rds where roles: "role_diags (map bi_id ins) (map bi_id outs) ?states (text_field region ''continueOutput'') []
      (entries_of (field region ''outputRoles'')) = (targets, rds)"
    by (cases "role_diags (map bi_id ins) (map bi_id outs) ?states (text_field region ''continueOutput'') []
      (entries_of (field region ''outputRoles''))")
  obtain eds sds where eds: "gather (element_diags graphs g node ins ?states) (js_set (texts_of (field region ''elementPorts''))) = Inr eds"
    and sds: "gather (state_diags graphs g node (map bi_id ins)) ?states = Inr sds"
    using assms by (auto simp: region_diags_def result_simps Let_def)
  have "errs eds" "errs sds" using gather_errs [OF eds] gather_errs [OF sds] el st by blast+
  then show ?thesis
    using assms kind role_diags_errs [OF roles]
    by (auto simp: region_diags_def Let_def errs_concat eds sds roles)
qed

lemma checkRegion_errs: "checkRegion graphs g node region = Inr ds \<Longrightarrow> errs ds"
  by (auto simp: checkRegion_def errs_def error_diag_def list_all_iff dest: region_diags_errs [unfolded errs_def list_all_iff]
      split: if_splits option.splits slot.splits prod.splits)

abbreviation topo_errs :: "topo \<Rightarrow> bool" where
  "topo_errs st \<equiv> errs (tp_diags st)"

lemma checkCursor_errs: "errs (checkCursor def i)"
  by (simp add: checkCursor_def split: option.splits prod.splits)

lemma checkId_errs: "topo_errs (checkId def i st) \<longleftrightarrow> topo_errs st"
  by (simp add: checkId_def checkCursor_errs)

lemma push_code_errs: "topo_errs (push_code c st) \<longleftrightarrow> topo_errs st"
  by (cases c) (simp_all add: push_code_def)

lemma check_node_errs: "topo_errs st \<Longrightarrow> check_node graphs g def st kn = Inr st' \<Longrightarrow> topo_errs st'"
  by (auto simp: check_node_def checkId_errs result_simps Let_def split: prod.splits option.splits dest: checkRegion_errs)

lemma candidate_errs: "errs (candidate_diags def seen cs)"
  by (induction cs arbitrary: seen) (simp_all add: checkCursor_errs)

lemma check_selector_errs: "topo_errs st \<Longrightarrow> topo_errs (check_selector def ks st)"
  by (simp add: check_selector_def checkId_errs candidate_errs split: prod.splits selector_policy.splits)

lemma check_keyed_errs: "topo_errs st \<Longrightarrow> topo_errs (check_keyed def code kv st)"
  by (simp add: check_keyed_def checkId_errs split: prod.splits)

lemma fold_errs: "topo_errs st \<Longrightarrow> (\<And>x st. topo_errs st \<Longrightarrow> topo_errs (f x st)) \<Longrightarrow> topo_errs (fold f xs st)"
  by (induction xs arbitrary: st) simp_all

lemma check_members_errs:
  assumes "check_members graphs g def = Inr st"
  shows "topo_errs st"
proof -
  obtain st0 where st0: "foldR (check_node graphs g def)
      \<lparr>tp_seen = [], tp_inputs = [], tp_reroutes = [], tp_candidates = [], tp_selectors = [], tp_diags = []\<rparr>
      (gd_nodes def) = Inr st0"
    and st: "st = fold (check_selector def) (opt_list (gd_selectors def))
          (fold (check_keyed def ''doc.valueSource.keyMismatch'') (opt_list (gd_valueSources def))
             (fold (check_keyed def ''doc.reroute.keyMismatch'') (gd_reroutes def) st0))"
    using assms by (auto simp: check_members_def result_simps)
  have "topo_errs st0" by (rule foldR_invariant [OF st0]) (auto intro: check_node_errs)
  then show ?thesis unfolding st by (intro fold_errs check_selector_errs check_keyed_errs)
qed

lemma check_target_errs: "topo_errs st \<Longrightarrow> topo_errs (check_target link st)"
  by (auto simp: check_target_def drive_candidate_def drive_reroute_def claimInput_def split: endpoint.splits option.splits)

lemma check_link_errs: "topo_errs st \<Longrightarrow> check_link def st kl = Inr st' \<Longrightarrow> topo_errs st'"
  by (auto simp: check_link_def Let_def result_simps checkId_errs push_code_errs check_source_def
      intro!: check_target_errs split: prod.splits if_splits)

lemma check_sink_errs: "topo_errs st \<Longrightarrow> check_sink def st s = Inr st' \<Longrightarrow> topo_errs st'"
  by (auto simp: check_sink_def result_simps push_code_errs claimInput_def split: if_splits)

lemma check_net_errs: "topo_errs st \<Longrightarrow> check_net def st kn = Inr st' \<Longrightarrow> topo_errs st'"
proof -
  assume st: "topo_errs st" and "check_net def st kn = Inr st'"
  then obtain c where run: "foldR (check_sink def) (push_code c (checkId def (nt_id (snd kn))
      (push (report_if (fst kn \<noteq> nt_id (snd kn)) ''doc.net.keyMismatch'') st))) (nt_sinks (snd kn)) = Inr st'"
    by (auto simp: check_net_def case_prod_beta result_simps)
  show ?thesis by (rule foldR_invariant [OF run]) (auto simp: st push_code_errs checkId_errs intro: check_sink_errs)
qed

lemma check_chains_errs: "topo_errs st \<Longrightarrow> topo_errs (check_chains def st)"
  by (auto simp: check_chains_def walk_from_def cycle_code_def intro!: errs_explore)

lemma check_binding_errs: "errs (bs_diags st) \<Longrightarrow> errs (bs_diags (check_binding def tp inp item b st))"
  by (auto simp: check_binding_def Let_def split: boundary_binding.splits option.splits)

lemma fold_bs_errs:
  "errs (bs_diags st) \<Longrightarrow> (\<And>x st. errs (bs_diags st) \<Longrightarrow> errs (bs_diags (f x st))) \<Longrightarrow> errs (bs_diags (fold f xs st))"
  by (induction xs arbitrary: st) simp_all

lemma check_boundary_errs: "errs (check_boundary def tp)"
  by (auto simp: check_boundary_def check_item_def intro!: fold_bs_errs check_binding_errs split: option.splits)

lemma checkGraphDef_errs:
  assumes "checkGraphDef graphs g def = Inr ds"
  shows "errs ds"
proof -
  obtain st1 st2 st3 where run: "check_members graphs g def = Inr st1" "foldR (check_link def) st1 (gd_links def) = Inr st2"
      "foldR (check_net def) (check_chains def st2) (gd_nets def) = Inr st3" "ds = tp_diags st3 @ check_boundary def st3"
    using assms by (auto simp: checkGraphDef_def result_simps)
  have "topo_errs st2"
    by (rule foldR_invariant [OF run(2)]) (auto intro: check_link_errs check_members_errs [OF run(1)])
  then have "topo_errs (check_chains def st2)" by (rule check_chains_errs)
  then have "topo_errs st3" by (rule foldR_invariant [OF run(3)]) (auto intro: check_net_errs)
  then show ?thesis using run(4) check_boundary_errs by simp
qed

section \<open>Documents without errors\<close>

lemma hasErrors_append [simp]: "hasErrors (xs @ ys) \<longleftrightarrow> hasErrors xs \<or> hasErrors ys"
  by (simp add: hasErrors_def)

lemma hasErrors_subset: "\<not> hasErrors ds \<Longrightarrow> set d \<subseteq> set ds \<Longrightarrow> \<not> hasErrors d"
  by (auto simp: hasErrors_def list_ex_iff)

lemma hasErrors_report: "hasErrors (report_if b c) \<longleftrightarrow> b"
  by (simp add: report_if_def) (simp add: hasErrors_def)

definition topology_ok :: "workflow_document \<Rightarrow> string \<times> occurrence_topology \<Rightarrow> bool" where
  "topology_ok doc kt \<longleftrightarrow> fst kt = occurrenceKey (ot_owner (snd kt)) \<and>
     (\<exists>chain. resolveOccurrenceChain doc (ot_owner (snd kt)) = Inr (Some chain) \<and>
        hp_body (last chain) = ot_bodyGraph (snd kt))"

lemma check_topology_ok:
  assumes "check_topology doc kt = Inr ds" and "\<not> hasErrors ds"
  shows "topology_ok doc kt"
proof -
  define rest where "rest = (\<lambda>resolved. case resolved of
      None \<Rightarrow> Inr [error_diag ''doc.occurrenceTopology.ownerMissing'']
    | Some chain \<Rightarrow>
        if hp_body (last chain) \<noteq> ot_bodyGraph (snd kt) then Inr [error_diag ''doc.occurrenceTopology.bodyMismatch'']
        else let body = read_key (wd_graphs doc) (ot_bodyGraph (snd kt)) in
          rbind (check_topology_links (wd_graphs doc) (snd kt) chain body [] (ot_links (snd kt))) (\<lambda>ls.
            map_result (\<lambda>ss. report_if (topologyIdentityContainsNul (fst kt) (snd kt)) ''doc.occurrenceTopology.projectedId'' @ ls @ ss)
              (gather (check_suppression (wd_graphs doc) chain body) (opt_list (ot_suppressed (snd kt))))))"
  have eq: "check_topology doc kt =
      map_result ((@) (report_if (occurrenceKey (ot_owner (snd kt)) \<noteq> fst kt) ''doc.occurrenceTopology.keyMismatch''))
        (rbind (resolveOccurrenceChain doc (ot_owner (snd kt))) rest)"
    unfolding check_topology_def case_prod_beta rest_def ..
  then obtain resolved ds' where r: "resolveOccurrenceChain doc (ot_owner (snd kt)) = Inr resolved" "rest resolved = Inr ds'"
      "ds = report_if (occurrenceKey (ot_owner (snd kt)) \<noteq> fst kt) ''doc.occurrenceTopology.keyMismatch'' @ ds'"
    using assms(1) unfolding eq by (auto simp: result_simps)
  then have key: "fst kt = occurrenceKey (ot_owner (snd kt))" and no: "\<not> hasErrors ds'"
    using assms(2) by (auto simp: hasErrors_report)
  obtain chain where chain: "resolved = Some chain" using r(2) no by (cases resolved) (auto simp: rest_def)
  then have "hp_body (last chain) = ot_bodyGraph (snd kt)" using r(2) no by (auto simp: rest_def split: if_splits)
  then show ?thesis using key r(1) chain by (simp add: topology_ok_def)
qed

definition document_ok :: "workflow_document \<Rightarrow> bool" where
  "document_ok doc \<longleftrightarrow>
     defined (read_key (wd_graphs doc) (wd_root doc)) \<and>
     (\<forall>(k, def) \<in> set (wd_graphs doc). graph_ok (wd_graphs doc) k def) \<and> acyclic (refers (wd_graphs doc)) \<and>
     (\<forall>kt \<in> set (opt_list (wd_topologies doc)). topology_ok doc kt)"

lemma walk_from_errs: "(\<And>k. errs [report k]) \<Longrightarrow> errs (walk_from report close succs roots)"
  unfolding walk_from_def by (rule errs_explore) simp_all

text \<open>C12: A document whose check reports no error (warnings about the view aside) is sound: its root exists, every
  graph satisfies its invariants, definitions do not contain themselves, and every occurrence overlay is kept under
  the key of an occurrence that resolves to the definition it overlays.\<close>

theorem checked_document_sound:
  assumes "checkDocument doc = Inr ds" and "\<not> hasErrors ds"
    and "\<forall>(k, def) \<in> set (wd_graphs doc). plain_graph def"
  shows "document_ok doc"
proof -
  have root: "defined (read_key (wd_graphs doc) (wd_root doc))"
    using assms(1,2) by (auto simp: checkDocument_def split: if_splits)
  then obtain gs ts vs where run: "gather (\<lambda>(k, def). checkGraphDef (wd_graphs doc) k def) (wd_graphs doc) = Inr gs"
      "checkOccurrenceTopologies doc = Inr ts" "ds = gs @ checkNoRecursion (wd_graphs doc) @ ts @ vs"
    using assms(1) by (auto simp: checkDocument_def result_simps)
  have no: "\<not> hasErrors gs" "\<not> hasErrors (checkNoRecursion (wd_graphs doc))" "\<not> hasErrors ts"
    using assms(2) run(3) by simp_all
  have graphs: "graph_ok (wd_graphs doc) k def" if mem: "(k, def) \<in> set (wd_graphs doc)" for k def
  proof -
    obtain d where d: "checkGraphDef (wd_graphs doc) k def = Inr d" "set d \<subseteq> set gs"
      using gather_all [OF run(1) mem] by auto
    have "d = []" using errs_no_errors [OF checkGraphDef_errs [OF d(1)]] hasErrors_subset [OF no(1) d(2)] by blast
    moreover have "plain_graph def" using assms(3) mem by blast
    ultimately show ?thesis using d(1) graph_ok_checks chains_silent_acyclic checkGraphDef_runs by blast
  qed
  have "checkNoRecursion (wd_graphs doc) = []"
    using no(2) by (intro errs_no_errors) (simp_all add: checkNoRecursion_def walk_from_errs)
  then have "acyclic (refers (wd_graphs doc))" by (simp add: checkNoRecursion_Nil)
  moreover have "topology_ok doc kt" if "kt \<in> set (opt_list (wd_topologies doc))" for kt
    using gather_all [OF run(2) [unfolded checkOccurrenceTopologies_def] that] hasErrors_subset [OF no(3)]
      check_topology_ok by blast
  ultimately show ?thesis unfolding document_ok_def using root graphs by blast
qed

section \<open>A document\<close>

definition empty_graph :: "string \<Rightarrow> (string \<times> node_data) list \<Rightarrow> graph_def" where
  "empty_graph g ns = \<lparr>gd_id = g, gd_nodes = ns, gd_links = [], gd_nets = [], gd_reroutes = [], gd_valueSources = None,
     gd_selectors = None, gd_boundary = None, gd_nextOrdinal = 5, gd_actorCursors = None\<rparr>"

definition instance_node :: "string \<times> node_data" where
  "instance_node = (''n0'', \<lparr>nd_id = ''n0'', nd_type = ''#s'', nd_values = [], nd_dynamic = None, nd_region = None\<rparr>)"

definition demo_owner :: occurrence where
  "demo_owner = \<lparr>oc_path = [], oc_node = ''n0''\<rparr>"

definition demo_document :: workflow_document where
  "demo_document = \<lparr>wd_root = ''g'', wd_graphs = [(''g'', empty_graph ''g'' [instance_node]), (''s'', empty_graph ''s'' [demo_node ''n1''])],
     wd_topologies = Some [(occurrenceKey demo_owner, \<lparr>ot_owner = demo_owner, ot_bodyGraph = ''s'', ot_links = [],
       ot_suppressed = None, ot_nextOrdinal = 0, ot_actorCursors = None\<rparr>)],
     wd_view = [(''g'', \<lparr>gv_nodes = [''gone''], gv_reroutes = None, gv_valueSources = None, gv_selectors = None,
       gv_collapsedNets = None, gv_guideNets = None\<rparr>)]\<rparr>"

lemmas document_evals = demo_document_def empty_graph_def instance_node_def demo_node_def subgraphDefIdOf_def starts_with_def
  read_key_def defined_def

lemma demo_chain:
  "resolveOccurrenceChain demo_document demo_owner =
   Inr (Some [\<lparr>hp_ref = demo_owner, hp_parent = ''g'', hp_body = ''s'', hp_node = snd instance_node\<rparr>])"
  by (simp add: resolveOccurrenceChain_def demo_owner_def document_evals)

lemma demo_no_recursion: "checkNoRecursion (wd_graphs demo_document) = []"
  by (simp add: checkNoRecursion_def definition_refs_def document_evals walk_from_def enter_def finish_def)

theorem occurrence_depth_bounded_witness: "length (oc_path demo_owner) < length (wd_graphs demo_document)"
  using occurrence_depth_bounded [OF demo_no_recursion demo_chain] by blast

lemma demo_graphs:
  "checkGraphDef (wd_graphs demo_document) ''g'' (empty_graph ''g'' [instance_node]) = Inr []"
  "checkGraphDef (wd_graphs demo_document) ''s'' (empty_graph ''s'' [demo_node ''n1'']) = Inr []"
  by (simp_all add: checkGraphDef_def check_members_def check_node_def document_evals check_evals)

lemma demo_topologies: "\<exists>ts. checkOccurrenceTopologies demo_document = Inr ts \<and> \<not> hasErrors ts"
proof -
  have "wd_topologies demo_document = Some [(occurrenceKey demo_owner, \<lparr>ot_owner = demo_owner, ot_bodyGraph = ''s'', ot_links = [],
       ot_suppressed = None, ot_nextOrdinal = 0, ot_actorCursors = None\<rparr>)]"
    by (simp add: demo_document_def)
  moreover have "\<not> CHR 0x00 \<in> set (occurrenceKey demo_owner)"
    by code_simp
  ultimately show ?thesis
    by (simp add: checkOccurrenceTopologies_def opt_list_def check_topology_def demo_chain topologyIdentityContainsNul_def
        containsNul_def occurrenceRefContainsNul_def Let_def report_if_def hasErrors_def) (simp add: demo_owner_def)
qed

lemma demo_view: "checkViewState demo_document = Inr [warning_diag ''doc.view.danglingNode'']"
  by (simp add: checkViewState_def check_view_def document_evals graph_read_def opt_list_def warn_missing_def
      object_prototype_names_def)

theorem checked_document_sound_witness: "document_ok demo_document"
proof -
  obtain ts where ts: "checkOccurrenceTopologies demo_document = Inr ts" "\<not> hasErrors ts" using demo_topologies by blast
  have "wd_graphs demo_document = [(''g'', empty_graph ''g'' [instance_node]), (''s'', empty_graph ''s'' [demo_node ''n1''])]"
    by (simp add: demo_document_def)
  then have "checkDocument demo_document = Inr (ts @ [warning_diag ''doc.view.danglingNode''])"
    using demo_graphs ts(1) demo_view demo_no_recursion
    by (simp add: checkDocument_def) (simp add: demo_document_def read_key_def defined_def)
  then show ?thesis
  proof (rule checked_document_sound)
    show "\<not> hasErrors (ts @ [warning_diag ''doc.view.danglingNode''])"
      using ts(2) by (simp add: hasErrors_def warning_diag_def)
    show "\<forall>(k, def) \<in> set (wd_graphs demo_document). plain_graph def"
      by (simp add: plain_graph_def names_read_def plain_def object_prototype_names_def document_evals)
  qed
qed

end
