(* ===== verification/Reroute.thy ===== *)
theory Reroute
  imports GraphCheck
begin

text \<open>
  Tracing through junctions: \<open>packages/core/src/reroute.ts\<close>, and \<open>connectError\<close> of \<open>commands/core-commands.ts\<close>,
  which asks it whether a connection would close a cycle.

  A JavaScript map is an association list in insertion order. The loops keep the set of visited keys and end because
  only the finitely many endpoints that have a driver, or a choice of candidates, lead further.
\<close>

section \<open>The index\<close>

record reroute_index =
  rx_driverOf :: "(string \<times> link_data) list"
  rx_successorsOf :: "(string \<times> link_data list) list"
  rx_selectorDriverOf :: "(string \<times> link_data) list"
  rx_selectorSuccessorsOf :: "(string \<times> link_data list) list"
  rx_inputDriverOf :: "(string \<times> link_data) list"
  rx_netSourceOf :: "(string \<times> portref) list"

definition set_new :: "string \<Rightarrow> 'v \<Rightarrow> (string \<times> 'v) list \<Rightarrow> (string \<times> 'v) list" where
  "set_new k v m = (if map_of m k = None then m @ [(k, v)] else m)"

definition push_to :: "string \<Rightarrow> 'v \<Rightarrow> (string \<times> 'v list) list \<Rightarrow> (string \<times> 'v list) list" where
  "push_to k v m = AList.update k (opt_list (map_of m k) @ [v]) m"

definition index_target :: "link_data \<Rightarrow> reroute_index \<Rightarrow> reroute_index" where
  "index_target link i =
     (case ln_to link of
        RerouteEnd r \<Rightarrow> i\<lparr>rx_driverOf := set_new r link (rx_driverOf i)\<rparr>
      | SelectorEnd s (Some c) \<Rightarrow>
          i\<lparr>rx_selectorDriverOf := set_new (selectorCandidateKey s c) link (rx_selectorDriverOf i)\<rparr>
      | PortEnd p \<Rightarrow> i\<lparr>rx_inputDriverOf := set_new (portRefKey p) link (rx_inputDriverOf i)\<rparr>
      | _ \<Rightarrow> i)"

definition index_source :: "link_data \<Rightarrow> reroute_index \<Rightarrow> reroute_index" where
  "index_source link i =
     (case ln_from link of
        RerouteEnd r \<Rightarrow> i\<lparr>rx_successorsOf := push_to r link (rx_successorsOf i)\<rparr>
      | SelectorEnd s None \<Rightarrow> i\<lparr>rx_selectorSuccessorsOf := push_to s link (rx_selectorSuccessorsOf i)\<rparr>
      | _ \<Rightarrow> i)"

definition index_net :: "net_data \<Rightarrow> reroute_index \<Rightarrow> reroute_index" where
  "index_net net = fold (\<lambda>sink i. i\<lparr>rx_netSourceOf := AList.update (portRefKey sink) (nt_source net) (rx_netSourceOf i)\<rparr>)
     (nt_sinks net)"

definition empty_index :: reroute_index where
  "empty_index = \<lparr>rx_driverOf = [], rx_successorsOf = [], rx_selectorDriverOf = [], rx_selectorSuccessorsOf = [],
     rx_inputDriverOf = [], rx_netSourceOf = []\<rparr>"

definition links_of :: "graph_def \<Rightarrow> link_data list" where
  "links_of def = map snd (gd_links def)"

definition nets_of :: "graph_def \<Rightarrow> net_data list" where
  "nets_of def = map snd (gd_nets def)"

definition buildRerouteIndex :: "graph_def \<Rightarrow> reroute_index" where
  "buildRerouteIndex def =
     fold index_net (nets_of def) (fold (\<lambda>link i. index_source link (index_target link i)) (links_of def) empty_index)"

section \<open>Drivers\<close>

definition into_reroute :: "string \<Rightarrow> link_data \<Rightarrow> bool" where
  "into_reroute r link \<longleftrightarrow> ln_to link = RerouteEnd r"

definition into_candidate :: "string \<Rightarrow> string \<Rightarrow> link_data \<Rightarrow> bool" where
  "into_candidate s c link \<longleftrightarrow> ln_to link = SelectorEnd s (Some c)"

definition into_input :: "string \<Rightarrow> link_data \<Rightarrow> bool" where
  "into_input key link \<longleftrightarrow> (case ln_to link of PortEnd p \<Rightarrow> portRefKey p = key | _ \<Rightarrow> False)"

definition net_into :: "string \<Rightarrow> net_data \<Rightarrow> bool" where
  "net_into key net \<longleftrightarrow> list_ex (\<lambda>s. portRefKey s = key) (nt_sinks net)"

definition rerouteDriverOf :: "graph_def \<Rightarrow> string \<Rightarrow> reroute_index option \<Rightarrow> link_data option" where
  "rerouteDriverOf def r index =
     (case index of Some i \<Rightarrow> map_of (rx_driverOf i) r | None \<Rightarrow> find (into_reroute r) (links_of def))"

definition rerouteSuccessorsOf :: "graph_def \<Rightarrow> string \<Rightarrow> reroute_index option \<Rightarrow> link_data list" where
  "rerouteSuccessorsOf def r index =
     (case index of Some i \<Rightarrow> opt_list (map_of (rx_successorsOf i) r)
      | None \<Rightarrow> filter (\<lambda>l. ln_from l = RerouteEnd r) (links_of def))"

definition selectorDriverOf :: "graph_def \<Rightarrow> string \<Rightarrow> string \<Rightarrow> reroute_index option \<Rightarrow> link_data option" where
  "selectorDriverOf def s c index =
     (case index of Some i \<Rightarrow> map_of (rx_selectorDriverOf i) (selectorCandidateKey s c)
      | None \<Rightarrow> find (into_candidate s c) (links_of def))"

definition selectorSuccessorsOf :: "graph_def \<Rightarrow> string \<Rightarrow> reroute_index option \<Rightarrow> link_data list" where
  "selectorSuccessorsOf def s index =
     (case index of Some i \<Rightarrow> opt_list (map_of (rx_selectorSuccessorsOf i) s)
      | None \<Rightarrow> filter (\<lambda>l. ln_from l = SelectorEnd s None) (links_of def))"

definition indexed :: "(reroute_index \<Rightarrow> (string \<times> 'v) list) \<Rightarrow> reroute_index option \<Rightarrow> string \<Rightarrow> 'v option" where
  "indexed m index key = (case index of None \<Rightarrow> None | Some i \<Rightarrow> map_of (m i) key)"

text \<open>The driver of a tapped input and the source of a net into it: the index first, else the graph.\<close>

definition tap_driver :: "graph_def \<Rightarrow> string \<Rightarrow> reroute_index option \<Rightarrow> link_data option" where
  "tap_driver def key index =
     (case indexed rx_inputDriverOf index key of Some l \<Rightarrow> Some l | None \<Rightarrow> find (into_input key) (links_of def))"

definition tap_source :: "graph_def \<Rightarrow> string \<Rightarrow> reroute_index option \<Rightarrow> portref option" where
  "tap_source def key index =
     (case indexed rx_netSourceOf index key of
        Some p \<Rightarrow> Some p | None \<Rightarrow> map_option nt_source (find (net_into key) (nets_of def)))"

section \<open>Visited keys\<close>

definition tap_key :: "string \<Rightarrow> string \<Rightarrow> string" where
  "tap_key node tap = portRefKey \<lparr>pr_node = node, pr_port = tap, pr_members = None\<rparr>"

fun visit_key :: "endpoint \<Rightarrow> string option" where
  "visit_key (RerouteEnd r) = Some (''r:'' @ r)"
| "visit_key (SelectorEnd s (Some c)) = Some (''s:'' @ selectorCandidateKey s c)"
| "visit_key (SelectorEnd s None) = Some (''so:'' @ s)"
| "visit_key (WidgetTapEnd n t) = Some (''t:'' @ tap_key n t)"
| "visit_key _ = None"

definition visited_before :: "string list \<Rightarrow> endpoint \<Rightarrow> bool" where
  "visited_before visited e \<longleftrightarrow> (case visit_key e of None \<Rightarrow> False | Some k \<Rightarrow> k \<in> set visited)"

definition visit :: "endpoint \<Rightarrow> string list \<Rightarrow> string list" where
  "visit e visited = (case visit_key e of None \<Rightarrow> visited | Some k \<Rightarrow> k # visited)"

text \<open>The keys of the endpoints that can lead further, for termination.\<close>

definition index_keys :: "reroute_index option \<Rightarrow> string set" where
  "index_keys index =
     (case index of
        None \<Rightarrow> {}
      | Some i \<Rightarrow> (@) ''r:'' ` fst ` set (rx_driverOf i) \<union> (@) ''s:'' ` fst ` set (rx_selectorDriverOf i) \<union>
          (@) ''t:'' ` (fst ` set (rx_inputDriverOf i) \<union> fst ` set (rx_netSourceOf i)))"

fun target_key :: "endpoint \<Rightarrow> string option" where
  "target_key (PortEnd p) = Some (''t:'' @ portRefKey p)"
| "target_key e = visit_key e"

definition passing_keys :: "graph_def \<Rightarrow> reroute_index option \<Rightarrow> (string \<times> string) list option \<Rightarrow> string set" where
  "passing_keys def index sel =
     index_keys index \<union> {k. \<exists>l \<in> set (links_of def). target_key (ln_to l) = Some k} \<union>
     (@) ''so:'' ` (fst ` set (opt_list (gd_selectors def)) \<union> fst ` set (opt_list sel))"

definition unvisited :: "graph_def \<Rightarrow> reroute_index option \<Rightarrow> (string \<times> string) list option \<Rightarrow> string list \<Rightarrow> nat" where
  "unvisited def index sel visited = card (passing_keys def index sel - set visited)"

lemma finite_passing_keys [simp]: "finite (passing_keys def index sel)"
proof -
  have "{k. \<exists>l \<in> set (links_of def). target_key (ln_to l) = Some k} \<subseteq> (\<lambda>l. the (target_key (ln_to l))) ` set (links_of def)"
    by force
  then have "finite {k. \<exists>l \<in> set (links_of def). target_key (ln_to l) = Some k}" by (rule finite_subset) simp
  then show ?thesis by (simp add: passing_keys_def index_keys_def split: option.splits)
qed

lemma unvisited_less: "k \<in> passing_keys def index sel \<Longrightarrow> k \<notin> set visited \<Longrightarrow> unvisited def index sel (k # visited) < unvisited def index sel visited"
  unfolding unvisited_def by (intro psubset_card_mono) auto

lemma unvisited_le: "unvisited def index sel (k # visited) \<le> unvisited def index sel visited"
  unfolding unvisited_def by (intro card_mono) auto

lemma find_found: "find P xs = Some x \<Longrightarrow> x \<in> set xs \<and> P x"
  by (auto simp: find_Some_iff)

lemma passing_link: "l \<in> set (links_of def) \<Longrightarrow> target_key (ln_to l) = Some k \<Longrightarrow> k \<in> passing_keys def index sel"
  unfolding passing_keys_def by blast

lemma map_of_key: "map_of m k = Some v \<Longrightarrow> k \<in> fst ` set m"
  by (force dest: map_of_in_set)

lemma passing_index:
  "map_of (rx_driverOf i) k = Some l \<Longrightarrow> CHR ''r'' # CHR '':'' # k \<in> passing_keys def (Some i) sel"
  "map_of (rx_selectorDriverOf i) k = Some l \<Longrightarrow> CHR ''s'' # CHR '':'' # k \<in> passing_keys def (Some i) sel"
  "map_of (rx_inputDriverOf i) k = Some l \<Longrightarrow> CHR ''t'' # CHR '':'' # k \<in> passing_keys def (Some i) sel"
  "map_of (rx_netSourceOf i) k = Some p \<Longrightarrow> CHR ''t'' # CHR '':'' # k \<in> passing_keys def (Some i) sel"
  by (drule map_of_key, simp add: passing_keys_def index_keys_def)+

lemma reroute_driver_key: "rerouteDriverOf def r index = Some l \<Longrightarrow> ''r:'' @ r \<in> passing_keys def index sel"
  using passing_link [of l def "''r:'' @ r"]
  by (cases index) (auto simp: rerouteDriverOf_def into_reroute_def passing_index dest!: find_found)

lemma selector_driver_key:
  "selectorDriverOf def s c index = Some l \<Longrightarrow> ''s:'' @ selectorCandidateKey s c \<in> passing_keys def index sel"
  using passing_link [of l def "''s:'' @ selectorCandidateKey s c"]
  by (cases index) (auto simp: selectorDriverOf_def into_candidate_def passing_index dest!: find_found)

lemma into_input_iff: "into_input key l \<longleftrightarrow> (\<exists>p. ln_to l = PortEnd p \<and> portRefKey p = key)"
  by (simp add: into_input_def split: endpoint.splits)

lemma tap_driver_key: "tap_driver def key index = Some l \<Longrightarrow> ''t:'' @ key \<in> passing_keys def index sel"
  using passing_link [of l def "''t:'' @ key"]
  by (cases index)
    (auto simp: tap_driver_def indexed_def into_input_iff passing_index dest!: find_found split: option.splits)

section \<open>Tracing to the producer\<close>

datatype reroute_trace =
    OutputTrace portref "link_data option"
  | ValueSourceTrace string "link_data option"
  | UndrivenTrace string
  | CycleTrace string
  | TapValueTrace string string "link_data option"
  | TapCycleTrace string string
  | SelectorTrace string "link_data option"
  | SelectorUnresolvedTrace string
  | SelectorUndrivenTrace string string
  | SelectorCycleTrace string string

text \<open>The candidate the walk goes through: the one named, else the one selected.\<close>

definition picked :: "(string \<times> string) list option \<Rightarrow> string \<Rightarrow> string option \<Rightarrow> string option" where
  "picked sel s c = (case c of Some x \<Rightarrow> Some x | None \<Rightarrow> (case sel of None \<Rightarrow> None | Some m \<Rightarrow> map_of m s))"

function trace_from ::
  "graph_def \<Rightarrow> reroute_index option \<Rightarrow> (string \<times> string) list option \<Rightarrow> string list \<Rightarrow> link_data option \<Rightarrow> endpoint \<Rightarrow>
   reroute_trace" where
  "trace_from def index sel visited lastLink (WidgetTapEnd n t) =
     (if ''t:'' @ tap_key n t \<in> set visited then TapCycleTrace n t
      else case tap_driver def (tap_key n t) index of
        Some driver \<Rightarrow> trace_from def index sel ((''t:'' @ tap_key n t) # visited) (Some driver) (ln_from driver)
      | None \<Rightarrow>
          (case tap_source def (tap_key n t) index of
             Some p \<Rightarrow> OutputTrace p lastLink
           | None \<Rightarrow> TapValueTrace n t lastLink))"
| "trace_from def index sel visited lastLink (ValueSourceEnd v) = ValueSourceTrace v lastLink"
| "trace_from def index sel visited lastLink (SelectorEnd s c) =
     (case picked sel s c of
        None \<Rightarrow> if sel = None then SelectorTrace s lastLink else SelectorUnresolvedTrace s
      | Some x \<Rightarrow>
          if ''s:'' @ selectorCandidateKey s x \<in> set visited then SelectorCycleTrace s x
          else case selectorDriverOf def s x index of
            None \<Rightarrow> SelectorUndrivenTrace s x
          | Some driver \<Rightarrow>
              trace_from def index sel ((''s:'' @ selectorCandidateKey s x) # visited) (Some driver) (ln_from driver))"
| "trace_from def index sel visited lastLink (PortEnd p) = OutputTrace p lastLink"
| "trace_from def index sel visited lastLink (RerouteEnd r) =
     (if ''r:'' @ r \<in> set visited then CycleTrace r
      else case rerouteDriverOf def r index of
        None \<Rightarrow> UndrivenTrace r
      | Some driver \<Rightarrow> trace_from def index sel ((''r:'' @ r) # visited) (Some driver) (ln_from driver))"
  by pat_completeness auto

termination
  by (relation "measure (\<lambda>(def, index, sel, visited, lastLink, e). unvisited def index sel visited)")
    (simp_all add: unvisited_less tap_driver_key [simplified] selector_driver_key [simplified] reroute_driver_key [simplified])

definition traceEndpoint ::
  "graph_def \<Rightarrow> endpoint \<Rightarrow> reroute_index option \<Rightarrow> (string \<times> string) list option \<Rightarrow> reroute_trace" where
  "traceEndpoint def from index sel = trace_from def index sel [] None from"

section \<open>All producers\<close>

record trace_via =
  tv_reroutes :: "string list"
  tv_selectors :: "(string \<times> string list) list"
  tv_valueSources :: "string list"

definition set_add :: "'a \<Rightarrow> 'a list \<Rightarrow> 'a list" where
  "set_add x xs = (if x \<in> set xs then xs else xs @ [x])"

fun note_via :: "endpoint \<Rightarrow> trace_via \<Rightarrow> trace_via" where
  "note_via (RerouteEnd r) via = via\<lparr>tv_reroutes := set_add r (tv_reroutes via)\<rparr>"
| "note_via (ValueSourceEnd v) via = via\<lparr>tv_valueSources := set_add v (tv_valueSources via)\<rparr>"
| "note_via (SelectorEnd s (Some c)) via =
     via\<lparr>tv_selectors := AList.update s (set_add c (opt_list (map_of (tv_selectors via) s))) (tv_selectors via)\<rparr>"
| "note_via (SelectorEnd s None) via = via\<lparr>tv_selectors := set_new s [] (tv_selectors via)\<rparr>"
| "note_via _ via = via"

definition candidates_of :: "graph_def \<Rightarrow> string \<Rightarrow> string list" where
  "candidates_of def s = (case opt_read (gd_selectors def) s of Own sel \<Rightarrow> sl_candidates sel | _ \<Rightarrow> [])"

text \<open>What an endpoint puts on the stack, topmost first, and what it emits.\<close>

definition link_or :: "link_data option \<Rightarrow> endpoint list \<times> reroute_trace list \<Rightarrow> endpoint list \<times> reroute_trace list" where
  "link_or driver otherwise = (case driver of Some l \<Rightarrow> ([ln_from l], []) | None \<Rightarrow> otherwise)"

fun expand ::
  "graph_def \<Rightarrow> reroute_index option \<Rightarrow> (string \<times> string) list option \<Rightarrow> endpoint \<Rightarrow> endpoint list \<times> reroute_trace list" where
  "expand def index sel (WidgetTapEnd n t) =
     link_or (indexed rx_inputDriverOf index (tap_key n t))
       (case indexed rx_netSourceOf index (tap_key n t) of
          Some p \<Rightarrow> ([PortEnd p], []) | None \<Rightarrow> ([], [TapValueTrace n t None]))"
| "expand def index sel (ValueSourceEnd v) = ([], [ValueSourceTrace v None])"
| "expand def index sel (SelectorEnd s (Some c)) =
     link_or (selectorDriverOf def s c index) ([], [SelectorUndrivenTrace s c])"
| "expand def index sel (SelectorEnd s None) =
     (case picked sel s None of
        Some x \<Rightarrow> ([SelectorEnd s (Some x)], [])
      | None \<Rightarrow> (map (\<lambda>c. SelectorEnd s (Some c)) (candidates_of def s), []))"
| "expand def index sel (PortEnd p) = ([], [OutputTrace p None])"
| "expand def index sel (RerouteEnd r) = link_or (rerouteDriverOf def r index) ([], [UndrivenTrace r])"

lemma link_or_more: "fst (link_or d x) \<noteq> [] \<Longrightarrow> (\<exists>l. d = Some l) \<or> fst x \<noteq> []"
  by (auto simp: link_or_def split: option.splits)

lemma candidates_key: "candidates_of def s \<noteq> [] \<Longrightarrow> s \<in> fst ` set (opt_list (gd_selectors def))"
  by (cases "gd_selectors def")
    (auto simp: candidates_of_def opt_read_def read_key_def opt_list_def split: option.splits if_splits dest: map_of_key)

lemma expand_key:
  assumes "fst (expand def index sel e) \<noteq> []"
  shows "\<exists>k. visit_key e = Some k \<and> k \<in> passing_keys def index sel"
proof (cases e rule: visit_key.cases)
  case (1 r)
  then show ?thesis using assms reroute_driver_key [of def r index _ sel] by (auto dest!: link_or_more)
next
  case (2 s c)
  then show ?thesis using assms selector_driver_key [of def s c index _ sel] by (auto dest!: link_or_more)
next
  case (3 s)
  have "s \<in> fst ` set (opt_list (gd_selectors def)) \<union> fst ` set (opt_list sel)"
    using assms candidates_key [of def s] unfolding 3 expand.simps
    by (auto simp: picked_def opt_list_def split: option.splits dest: map_of_key)
  then show ?thesis unfolding 3 visit_key.simps passing_keys_def by blast
next
  case (4 n t)
  then show ?thesis using assms
    by (cases index) (auto simp: indexed_def passing_index split: option.splits dest!: link_or_more)
qed (use assms in simp_all)

definition emit :: "reroute_trace list \<Rightarrow> reroute_trace list \<Rightarrow> reroute_trace list" where
  "emit out results = fold set_add out results"

function trace_all ::
  "graph_def \<Rightarrow> reroute_index option \<Rightarrow> (string \<times> string) list option \<Rightarrow> string list \<Rightarrow> endpoint list \<Rightarrow>
   reroute_trace list \<Rightarrow> trace_via \<Rightarrow> reroute_trace list \<times> trace_via" where
  "trace_all def index sel visited [] results via = (results, via)"
| "trace_all def index sel visited (current # stack) results via =
     (if visited_before visited current then trace_all def index sel visited stack results via
      else trace_all def index sel (visit current visited) (fst (expand def index sel current) @ stack)
        (emit (snd (expand def index sel current)) results) (note_via current via))"
  by pat_completeness auto

lemma unvisited_visit: "unvisited def index sel (visit e visited) \<le> unvisited def index sel visited"
  by (simp add: visit_def unvisited_le split: option.split)

lemma unvisited_pass:
  assumes "fst (expand def index sel e) \<noteq> []" and "\<not> visited_before visited e"
  shows "unvisited def index sel (visit e visited) < unvisited def index sel visited"
proof -
  obtain k where k: "visit_key e = Some k" "k \<in> passing_keys def index sel" using expand_key [OF assms(1)] by blast
  then have "k \<notin> set visited" using assms(2) by (simp add: visited_before_def)
  then show ?thesis using unvisited_less k by (simp add: visit_def)
qed

termination trace_all
proof (relation "measures [\<lambda>(def, index, sel, visited, stack, results, via). unvisited def index sel visited,
    \<lambda>(def, index, sel, visited, stack, results, via). length stack]", goal_cases)
  case (3 def index sel visited current stack results via)
  show ?case
  proof (cases "fst (expand def index sel current) = []")
    case True
    then show ?thesis using unvisited_visit [of def index sel current visited] by (simp add: le_less)
  next
    case False
    then show ?thesis using unvisited_pass [OF False 3] by simp
  qed
qed simp_all

definition traceEndpointAll ::
  "graph_def \<Rightarrow> endpoint \<Rightarrow> reroute_index option \<Rightarrow> (string \<times> string) list option \<Rightarrow> trace_via \<Rightarrow>
   reroute_trace list \<times> trace_via" where
  "traceEndpointAll def from index sel via = trace_all def index sel [] [from] [] via"

section \<open>Would a connection close a cycle?\<close>

text \<open>A junction's upstream: the walk ends at ports, value sources and widget taps.\<close>

fun junction_next :: "graph_def \<Rightarrow> reroute_index option \<Rightarrow> endpoint \<Rightarrow> endpoint list" where
  "junction_next def index (RerouteEnd r) = opt_list (map_option (\<lambda>l. [ln_from l]) (rerouteDriverOf def r index))"
| "junction_next def index (SelectorEnd s (Some c)) = opt_list (map_option (\<lambda>l. [ln_from l]) (selectorDriverOf def s c index))"
| "junction_next def index (SelectorEnd s None) = rev (map (\<lambda>c. SelectorEnd s (Some c)) (candidates_of def s))"
| "junction_next def index _ = []"

definition junction_seen :: "string list \<Rightarrow> endpoint \<Rightarrow> bool" where
  "junction_seen visited e \<longleftrightarrow> (case e of WidgetTapEnd n t \<Rightarrow> False | _ \<Rightarrow> visited_before visited e)"

definition junction_visit :: "endpoint \<Rightarrow> string list \<Rightarrow> string list" where
  "junction_visit e visited = (case e of WidgetTapEnd n t \<Rightarrow> visited | _ \<Rightarrow> visit e visited)"

function hunt :: "graph_def \<Rightarrow> (endpoint \<Rightarrow> bool) \<Rightarrow> reroute_index option \<Rightarrow> string list \<Rightarrow> endpoint list \<Rightarrow> bool" where
  "hunt def hits index visited [] = False"
| "hunt def hits index visited (current # stack) =
     (if hits current then True
      else if junction_seen visited current then hunt def hits index visited stack
      else hunt def hits index (junction_visit current visited) (junction_next def index current @ stack))"
  by pat_completeness auto

lemma junction_next_key:
  assumes "junction_next def index e \<noteq> []"
  shows "\<exists>k. visit_key e = Some k \<and> k \<in> passing_keys def index None \<and> (\<forall>visited. junction_visit e visited = k # visited)"
proof (cases e rule: visit_key.cases)
  case (1 r)
  then show ?thesis using assms reroute_driver_key [of def r index _ None]
    by (auto simp: opt_list_def junction_visit_def visit_def split: option.splits)
next
  case (2 s c)
  then show ?thesis using assms selector_driver_key [of def s c index _ None]
    by (auto simp: opt_list_def junction_visit_def visit_def split: option.splits)
next
  case (3 s)
  then show ?thesis using assms candidates_key [of def s]
    by (simp add: junction_visit_def visit_def passing_keys_def)
qed (use assms in simp_all)

lemma unvisited_junction: "unvisited def index sel (junction_visit e visited) \<le> unvisited def index sel visited"
  by (simp add: junction_visit_def unvisited_visit split: endpoint.split)

termination hunt
proof (relation "measures [\<lambda>(def, hits, index, visited, stack). unvisited def index None visited,
    \<lambda>(def, hits, index, visited, stack). length stack]", goal_cases)
  case (3 def hits index visited current stack)
  show ?case
  proof (cases "junction_next def index current = []")
    case True
    then show ?thesis using unvisited_junction [of def index None current visited] by (simp add: le_less)
  next
    case False
    then obtain k where k: "visit_key current = Some k" "k \<in> passing_keys def index None"
        "junction_visit current visited = k # visited"
      using junction_next_key by blast
    moreover have "junction_seen visited current \<longleftrightarrow> k \<in> set visited"
      using False k(1) by (cases current) (simp_all add: junction_seen_def visited_before_def)
    ultimately show ?thesis using 3 unvisited_less [OF k(2)] by simp
  qed
qed simp_all

definition upstreamHitsJunction ::
  "graph_def \<Rightarrow> endpoint \<Rightarrow> (endpoint \<Rightarrow> bool) \<Rightarrow> reroute_index option \<Rightarrow> bool" where
  "upstreamHitsJunction def from hits index = hunt def hits index [] [from]"

definition wouldCreateRerouteCycle :: "graph_def \<Rightarrow> endpoint \<Rightarrow> string \<Rightarrow> reroute_index option \<Rightarrow> bool" where
  "wouldCreateRerouteCycle def from toReroute index = upstreamHitsJunction def from (\<lambda>e. e = RerouteEnd toReroute) index"

fun of_selector :: "string \<Rightarrow> endpoint \<Rightarrow> bool" where
  "of_selector s (SelectorEnd s' c) = (s' = s)"
| "of_selector s _ = False"

definition wouldCreateSelectorCycle :: "graph_def \<Rightarrow> endpoint \<Rightarrow> string \<Rightarrow> reroute_index option \<Rightarrow> bool" where
  "wouldCreateSelectorCycle def from toSelector index = upstreamHitsJunction def from (of_selector toSelector) index"

text \<open>The graph as it would be: the link replaces what drives its target.\<close>

definition prospective :: "graph_def \<Rightarrow> endpoint \<Rightarrow> endpoint \<Rightarrow> graph_def" where
  "prospective def from to =
     def\<lparr>gd_links := AList.update ''__tap_cycle__'' \<lparr>ln_id = ''__tap_cycle__'', ln_from = from, ln_to = to\<rparr>
       (filter (\<lambda>kl. \<not> sameEndpoint (ln_to (snd kl)) to) (gd_links def))\<rparr>"

fun closes_cycle :: "reroute_trace \<Rightarrow> bool" where
  "closes_cycle (TapCycleTrace n t) = True"
| "closes_cycle (CycleTrace r) = True"
| "closes_cycle (SelectorCycleTrace s c) = True"
| "closes_cycle _ = False"

definition wouldCreateTapCycle :: "graph_def \<Rightarrow> endpoint \<Rightarrow> endpoint \<Rightarrow> bool" where
  "wouldCreateTapCycle def from to =
     (let trial = prospective def from to
      in closes_cycle (traceEndpoint trial from (Some (buildRerouteIndex trial)) None))"

text \<open>\<open>connectError\<close>, by the code of its diagnostic.\<close>

definition connectError :: "graph_def \<Rightarrow> endpoint \<Rightarrow> endpoint \<Rightarrow> string option" where
  "connectError def from to =
     (case to of
        WidgetTapEnd n t \<Rightarrow> Some ''link.tapTarget''
      | ValueSourceEnd v \<Rightarrow> Some ''link.valueSourceTarget''
      | _ \<Rightarrow>
        if (case from of SelectorEnd s c \<Rightarrow> c \<noteq> None | _ \<Rightarrow> False) then Some ''link.selectorCandidateSource''
        else if (case to of SelectorEnd s c \<Rightarrow> c = None | _ \<Rightarrow> False) then Some ''link.selectorOutputTarget''
        else if (case (from, to) of
            (PortEnd p, PortEnd q) \<Rightarrow> pr_node p = pr_node q
          | (WidgetTapEnd n t, PortEnd q) \<Rightarrow> n = pr_node q \<and> t = pr_port q
          | _ \<Rightarrow> False) then Some ''link.selfLoop''
        else if (case from of WidgetTapEnd n t \<Rightarrow> wouldCreateTapCycle def from to | _ \<Rightarrow> False) then Some ''link.tapCycle''
        else case to of
          RerouteEnd r \<Rightarrow>
            if from = RerouteEnd r then Some ''link.selfLoop''
            else if wouldCreateRerouteCycle def from r None then Some ''reroute.cycle'' else None
        | SelectorEnd s c \<Rightarrow>
            if (case from of SelectorEnd s' c' \<Rightarrow> s' = s | _ \<Rightarrow> False) then Some ''link.selfLoop''
            else if wouldCreateSelectorCycle def from s None then Some ''selector.cycle'' else None
        | _ \<Rightarrow> None)"

section \<open>Downstream inputs\<close>

text \<open>\<open>visit\<close> of \<open>rerouteInputTargets\<close> over the targets still to be looked at; \<open>path\<close> are the junctions above them.
  A junction that is missing, on the path or without successors, or a target that is no input, gives undefined.\<close>

function input_targets :: "graph_def \<Rightarrow> reroute_index \<Rightarrow> string list \<Rightarrow> endpoint list \<Rightarrow> portref list option" where
  "input_targets def index path [] = Some []"
| "input_targets def index path (target # targets) =
     (case target of
        PortEnd p \<Rightarrow> map_option ((#) p) (input_targets def index path targets)
      | RerouteEnd r \<Rightarrow>
          (let successors = opt_list (map_of (rx_successorsOf index) r) in
           if \<not> defined (read_key (gd_reroutes def) r) \<or> r \<in> set path \<or> successors = [] then None
           else Option.bind (input_targets def index (r # path) (map ln_to successors)) (\<lambda>nested.
             map_option ((@) nested) (input_targets def index path targets)))
      | _ \<Rightarrow> None)"
  by pat_completeness auto

lemma finite_defined: "finite {r. defined (read_key m r)}"
proof (rule finite_subset)
  show "{r. defined (read_key m r)} \<subseteq> fst ` set m \<union> set object_prototype_names"
    by (auto simp: defined_def read_key_def split: option.splits if_splits dest: map_of_key)
qed simp

definition path_left :: "graph_def \<Rightarrow> string list \<Rightarrow> nat" where
  "path_left def path = card ({r. defined (read_key (gd_reroutes def) r)} - set path)"

lemma path_grows:
  "defined (read_key (gd_reroutes def) r) \<Longrightarrow> r \<notin> set path \<Longrightarrow> path_left def (r # path) < path_left def path"
  unfolding path_left_def using finite_defined [of "gd_reroutes def"] by (intro psubset_card_mono) auto

termination input_targets
  by (relation "measures [\<lambda>(def, index, path, targets). path_left def path, \<lambda>(def, index, path, targets). length targets]")
    (auto simp: path_grows)

definition rerouteInputTargets :: "graph_def \<Rightarrow> string \<Rightarrow> portref list option" where
  "rerouteInputTargets def reroute = input_targets def (buildRerouteIndex def) [] [RerouteEnd reroute]"

end
