(* ===== verification/RerouteLaws.thy ===== *)
theory RerouteLaws
  imports Reroute GraphInvariants
begin

text \<open>
  The index answers as a search of the links does, and in a graph that passes its check no trace runs in a circle.
\<close>

section \<open>The index\<close>

lemma map_of_set_new: "map_of (set_new k v m) x = (if map_of m x = None \<and> x = k then Some v else map_of m x)"
  by (auto simp: set_new_def map_add_def split: option.split)

lemma map_of_push_to: "map_of (push_to k v m) x = (if x = k then Some (opt_list (map_of m k) @ [v]) else map_of m x)"
  by (simp add: push_to_def update_conv')

definition index_link :: "link_data \<Rightarrow> reroute_index \<Rightarrow> reroute_index" where
  "index_link link i = index_source link (index_target link i)"

lemma index_source_fields [simp]:
  "rx_driverOf (index_source l i) = rx_driverOf i" "rx_selectorDriverOf (index_source l i) = rx_selectorDriverOf i"
  "rx_inputDriverOf (index_source l i) = rx_inputDriverOf i" "rx_netSourceOf (index_source l i) = rx_netSourceOf i"
  by (simp_all add: index_source_def split: endpoint.split option.split)

lemma index_target_fields [simp]:
  "rx_successorsOf (index_target l i) = rx_successorsOf i"
  "rx_selectorSuccessorsOf (index_target l i) = rx_selectorSuccessorsOf i" "rx_netSourceOf (index_target l i) = rx_netSourceOf i"
  by (simp_all add: index_target_def split: endpoint.split option.split)

lemma index_link_driver:
  "map_of (rx_driverOf (index_link l i)) r =
     (case map_of (rx_driverOf i) r of Some d \<Rightarrow> Some d | None \<Rightarrow> if into_reroute r l then Some l else None)"
  by (auto simp: index_link_def index_target_def into_reroute_def map_of_set_new split: endpoint.split option.split)

lemma index_link_candidate:
  "map_of (rx_selectorDriverOf (index_link l i)) (selectorCandidateKey s c) =
     (case map_of (rx_selectorDriverOf i) (selectorCandidateKey s c) of
        Some d \<Rightarrow> Some d | None \<Rightarrow> if into_candidate s c l then Some l else None)"
  by (auto simp: index_link_def index_target_def into_candidate_def map_of_set_new selectorCandidateKey_inj
    split: endpoint.split option.split)

lemma index_link_input:
  "map_of (rx_inputDriverOf (index_link l i)) k =
     (case map_of (rx_inputDriverOf i) k of Some d \<Rightarrow> Some d | None \<Rightarrow> if into_input k l then Some l else None)"
  by (auto simp: index_link_def index_target_def into_input_def map_of_set_new split: endpoint.split option.split)

lemma index_link_successors:
  "opt_list (map_of (rx_successorsOf (index_link l i)) r) =
     opt_list (map_of (rx_successorsOf i) r) @ (if ln_from l = RerouteEnd r then [l] else [])"
  "opt_list (map_of (rx_selectorSuccessorsOf (index_link l i)) r) =
     opt_list (map_of (rx_selectorSuccessorsOf i) r) @ (if ln_from l = SelectorEnd r None then [l] else [])"
  by (auto simp: index_link_def index_source_def map_of_push_to opt_list_def split: endpoint.split option.split)

lemma fold_first:
  assumes "\<And>l i. get (index_link l i) = (case get i of Some d \<Rightarrow> Some d | None \<Rightarrow> if P l then Some l else None)"
  shows "get (fold index_link ls i) = (case get i of Some d \<Rightarrow> Some d | None \<Rightarrow> find P ls)"
  by (induction ls arbitrary: i) (simp_all add: assms split: option.split)

lemma fold_all:
  assumes "\<And>l i. get (index_link l i) = get i @ (if P l then [l] else [])"
  shows "get (fold index_link ls i) = get i @ filter P ls"
  by (induction ls arbitrary: i) (simp_all add: assms)

lemma fold_same: "(\<And>n i. get (f n i) = get i) \<Longrightarrow> get (fold f ns i) = get i"
  by (induction ns arbitrary: i) simp_all

lemma index_net_fields [simp]:
  "rx_driverOf (index_net n i) = rx_driverOf i" "rx_selectorDriverOf (index_net n i) = rx_selectorDriverOf i"
  "rx_inputDriverOf (index_net n i) = rx_inputDriverOf i" "rx_successorsOf (index_net n i) = rx_successorsOf i"
  "rx_selectorSuccessorsOf (index_net n i) = rx_selectorSuccessorsOf i"
  unfolding index_net_def by (rule fold_same, simp)+

lemma index_parts:
  "buildRerouteIndex def = fold index_net (nets_of def) (fold index_link (links_of def) empty_index)"
  by (simp add: buildRerouteIndex_def index_link_def [abs_def])

lemma index_empty [simp]:
  "rx_driverOf empty_index = []" "rx_selectorDriverOf empty_index = []" "rx_inputDriverOf empty_index = []"
  "rx_successorsOf empty_index = []" "rx_selectorSuccessorsOf empty_index = []" "rx_netSourceOf empty_index = []"
  by (simp_all add: empty_index_def)

lemma index_first:
  assumes "\<And>l i. get (index_link l i) = (case get i of Some d \<Rightarrow> Some d | None \<Rightarrow> if P l then Some l else None)"
    and "\<And>n i. get (index_net n i) = get i" and "get empty_index = None"
  shows "get (buildRerouteIndex def) = find P (links_of def)"
  unfolding index_parts fold_same [of get, OF assms(2)] fold_first [of get, OF assms(1)] assms(3) by simp

lemma index_all:
  assumes "\<And>l i. get (index_link l i) = get i @ (if P l then [l] else [])"
    and "\<And>n i. get (index_net n i) = get i" and "get empty_index = []"
  shows "get (buildRerouteIndex def) = filter P (links_of def)"
  unfolding index_parts fold_same [of get, OF assms(2)] fold_all [of get, OF assms(1)] assms(3) by simp

lemma index_lookups:
  "map_of (rx_driverOf (buildRerouteIndex def)) r = find (into_reroute r) (links_of def)"
  "map_of (rx_selectorDriverOf (buildRerouteIndex def)) (selectorCandidateKey s c) = find (into_candidate s c) (links_of def)"
  "map_of (rx_inputDriverOf (buildRerouteIndex def)) k = find (into_input k) (links_of def)"
  "opt_list (map_of (rx_successorsOf (buildRerouteIndex def)) r) = filter (\<lambda>l. ln_from l = RerouteEnd r) (links_of def)"
  "opt_list (map_of (rx_selectorSuccessorsOf (buildRerouteIndex def)) r) = filter (\<lambda>l. ln_from l = SelectorEnd r None) (links_of def)"
  by (rule index_first [where get = "\<lambda>i. map_of (rx_driverOf i) r", OF index_link_driver], simp, simp)
    (rule index_first [where get = "\<lambda>i. map_of (rx_selectorDriverOf i) (selectorCandidateKey s c)", OF index_link_candidate], simp, simp,
     rule index_first [where get = "\<lambda>i. map_of (rx_inputDriverOf i) k", OF index_link_input], simp, simp,
     rule index_all [where get = "\<lambda>i. opt_list (map_of (rx_successorsOf i) r)", OF index_link_successors(1)], simp, simp add: opt_list_def,
     rule index_all [where get = "\<lambda>i. opt_list (map_of (rx_selectorSuccessorsOf i) r)", OF index_link_successors(2)], simp,
     simp add: opt_list_def)

text \<open>Of two nets into an input the index has the last and the search the first; a checked graph has at most one.\<close>

lemma index_net_source:
  "map_of (rx_netSourceOf (index_net n i)) k = (if net_into k n then Some (nt_source n) else map_of (rx_netSourceOf i) k)"
proof -
  have "map_of (rx_netSourceOf (fold (\<lambda>s i. i\<lparr>rx_netSourceOf := AList.update (portRefKey s) p (rx_netSourceOf i)\<rparr>) ss i)) k =
      (if \<exists>s \<in> set ss. portRefKey s = k then Some p else map_of (rx_netSourceOf i) k)" for ss p
    by (induction ss arbitrary: i) (auto simp: update_conv')
  then show ?thesis by (simp add: index_net_def net_into_def list_ex_iff)
qed

lemma fold_net_source:
  "distinct (concat (map (\<lambda>n. map portRefKey (nt_sinks n)) ns)) \<Longrightarrow>
   map_of (rx_netSourceOf (fold index_net ns i)) k =
     (case find (net_into k) ns of Some n \<Rightarrow> Some (nt_source n) | None \<Rightarrow> map_of (rx_netSourceOf i) k)"
proof (induction ns arbitrary: i)
  case (Cons n ns)
  have rest: "distinct (concat (map (\<lambda>n. map portRefKey (nt_sinks n)) ns))"
    and new: "\<And>m s t. m \<in> set ns \<Longrightarrow> s \<in> set (nt_sinks n) \<Longrightarrow> t \<in> set (nt_sinks m) \<Longrightarrow> portRefKey s \<noteq> portRefKey t"
    using Cons.prems by fastforce+
  have "find (net_into k) ns = None" if "net_into k n"
    using that new unfolding find_None_iff net_into_def list_ex_iff by metis
  then show ?case
    by (cases "net_into k n") (simp_all add: Cons.IH [OF rest] index_net_source split: option.split)
qed simp

definition single_nets :: "graph_def \<Rightarrow> bool" where
  "single_nets def \<longleftrightarrow> distinct (net_inputs (gd_nets def))"

lemma index_sources:
  assumes "single_nets def"
  shows "map_of (rx_netSourceOf (buildRerouteIndex def)) k = map_option nt_source (find (net_into k) (nets_of def))"
proof -
  have "net_inputs (gd_nets def) = concat (map (\<lambda>n. map portRefKey (nt_sinks n)) (nets_of def))"
    by (simp add: net_inputs_def sink_keys_def [abs_def] nets_of_def comp_def)
  moreover have "rx_netSourceOf (fold index_link ls i) = rx_netSourceOf i" for ls i
    by (rule fold_same) (simp add: index_link_def)
  ultimately show ?thesis
    using assms by (simp add: index_parts fold_net_source single_nets_def split: option.split)
qed

lemma lookups_agree:
  "rerouteDriverOf def r (Some (buildRerouteIndex def)) = rerouteDriverOf def r None"
  "selectorDriverOf def s c (Some (buildRerouteIndex def)) = selectorDriverOf def s c None"
  "rerouteSuccessorsOf def r (Some (buildRerouteIndex def)) = rerouteSuccessorsOf def r None"
  "selectorSuccessorsOf def s (Some (buildRerouteIndex def)) = selectorSuccessorsOf def s None"
  "tap_driver def k (Some (buildRerouteIndex def)) = tap_driver def k None"
  by (simp_all add: rerouteDriverOf_def selectorDriverOf_def rerouteSuccessorsOf_def selectorSuccessorsOf_def
      tap_driver_def indexed_def index_lookups split: option.split)

lemma tap_source_agrees: "single_nets def \<Longrightarrow> tap_source def k (Some (buildRerouteIndex def)) = tap_source def k None"
  by (simp add: tap_source_def indexed_def index_sources split: option.split)

lemma trace_from_agrees:
  "single_nets def \<Longrightarrow> index = None \<Longrightarrow>
   trace_from def (Some (buildRerouteIndex def)) sel visited lastLink e = trace_from def index sel visited lastLink e"
proof (induction def index sel visited lastLink e rule: trace_from.induct)
  case (3 def index sel visited lastLink s c)
  then show ?case by (cases "picked sel s c") (simp_all add: lookups_agree split: option.split)
qed (simp_all add: lookups_agree tap_source_agrees split: option.split)

text \<open>An index changes nothing. In a graph where no input is a sink of two nets, tracing with the index built from
  the graph gives what tracing by searching the links gives, and every lookup of drivers and successors agrees, also in
  graphs where a junction has several drivers.\<close>

theorem index_changes_nothing:
  assumes "single_nets def"
  shows "traceEndpoint def from (Some (buildRerouteIndex def)) sel = traceEndpoint def from None sel \<and>
    rerouteDriverOf def r (Some (buildRerouteIndex def)) = rerouteDriverOf def r None \<and>
    rerouteSuccessorsOf def r (Some (buildRerouteIndex def)) = rerouteSuccessorsOf def r None \<and>
    selectorDriverOf def s c (Some (buildRerouteIndex def)) = selectorDriverOf def s c None \<and>
    selectorSuccessorsOf def s (Some (buildRerouteIndex def)) = selectorSuccessorsOf def s None"
  unfolding traceEndpoint_def using trace_from_agrees [OF assms refl] lookups_agree by blast

section \<open>No circles in a checked graph\<close>

lemma selector_prefix: "''s:'' @ x \<noteq> ''so:'' @ y"
  by simp

lemma tap_key_inj: "tap_key n t = tap_key m u \<longleftrightarrow> n = m \<and> t = u"
  using portRefKey_inj [of "\<lparr>pr_node = n, pr_port = t, pr_members = None\<rparr>" "\<lparr>pr_node = m, pr_port = u, pr_members = None\<rparr>"]
  by (auto simp: tap_key_def samePortRef_def)

lemma visit_key_inj: "visit_key x = Some k \<Longrightarrow> visit_key y = Some k \<Longrightarrow> x = y"
  by (cases x rule: visit_key.cases; cases y rule: visit_key.cases) (auto simp: selectorCandidateKey_inj tap_key_inj)

text \<open>An endpoint's key in the driver chains.\<close>

fun chain_key :: "endpoint \<Rightarrow> string" where
  "chain_key (RerouteEnd r) = ''r:'' @ r"
| "chain_key (SelectorEnd s c) = ''s:'' @ s"
| "chain_key (WidgetTapEnd n t) = ''t:'' @ tap_key n t"
| "chain_key _ = []"

lemma follow_chain: "produces e \<Longrightarrow> visit_key e \<noteq> None \<Longrightarrow> follow e = [chain_key e]"
  by (cases e rule: visit_key.cases) (simp_all add: tap_key_def)

definition behind :: "graph_def \<Rightarrow> string list \<Rightarrow> endpoint \<Rightarrow> bool" where
  "behind def visited e \<longleftrightarrow> (visit_key e \<noteq> None \<longrightarrow>
     (\<forall>k \<in> set visited. \<exists>x. visit_key x = Some k \<and> (chain_key x, chain_key e) \<in> (chain_edges def)\<^sup>+))"

definition all_produce :: "graph_def \<Rightarrow> bool" where
  "all_produce def \<longleftrightarrow> (\<forall>l \<in> set (links_of def). produces (ln_from l))"

lemma chain_edge:
  assumes "all_produce def" and "l \<in> set (links_of def)" and "a \<in> set (driven_keys (ln_to l))" and "visit_key (ln_from l) \<noteq> None"
  shows "(a, chain_key (ln_from l)) \<in> chain_edges def"
proof -
  obtain k where "(k, l) \<in> set (gd_links def)" using assms(2) by (auto simp: links_of_def)
  moreover have "chain_key (ln_from l) \<in> set (follow (ln_from l))"
    using assms(1,2,4) follow_chain by (simp add: all_produce_def)
  ultimately have "\<exists>kl \<in> set (gd_links def). a \<in> set (driven_keys (ln_to (snd kl))) \<and> chain_key (ln_from l) \<in> set (follow (ln_from (snd kl)))"
    using assms(3) by (intro bexI [of _ "(k, l)"]) simp_all
  then show ?thesis by (simp add: chain_edges_def)
qed

lemma behind_step:
  assumes "all_produce def" and "behind def visited e" and "l \<in> set (links_of def)"
    and "chain_key e \<in> set (driven_keys (ln_to l))" and "visit_key e \<noteq> None"
    and "visit_key x = Some k" and "chain_key x = chain_key e"
  shows "behind def (k # visited) (ln_from l)"
proof -
  have "\<exists>y. visit_key y = Some j \<and> (chain_key y, chain_key (ln_from l)) \<in> (chain_edges def)\<^sup>+"
    if passes: "visit_key (ln_from l) \<noteq> None" and mem: "j \<in> set (k # visited)" for j
  proof -
    have edge: "(chain_key e, chain_key (ln_from l)) \<in> chain_edges def"
      using chain_edge [OF assms(1,3,4) passes] .
    show ?thesis
    proof (cases "j = k")
      case True
      have "(chain_key x, chain_key (ln_from l)) \<in> (chain_edges def)\<^sup>+" unfolding assms(7) using edge by (rule r_into_trancl)
      then show ?thesis using assms(6) True by blast
    next
      case False
      then obtain y where "visit_key y = Some j" "(chain_key y, chain_key e) \<in> (chain_edges def)\<^sup>+"
        using mem assms(2,5) unfolding behind_def set_simps by blast
      then show ?thesis using trancl_into_trancl [OF _ edge] by blast
    qed
  qed
  then show ?thesis unfolding behind_def by blast
qed

lemma behind_fresh:
  assumes "acyclic (chain_edges def)" and "behind def visited e" and "visit_key e \<noteq> None"
    and "visit_key x = Some k" and "chain_key x = chain_key e"
  shows "k \<notin> set visited"
proof
  assume "k \<in> set visited"
  then obtain y where y: "visit_key y = Some k" "(chain_key y, chain_key e) \<in> (chain_edges def)\<^sup>+"
    using assms(2,3) unfolding behind_def by blast
  then have "y = x" using assms(4) visit_key_inj by blast
  then show False using y(2) assms(1,5) by (simp add: acyclic_def)
qed

lemma found_links:
  "rerouteDriverOf def r None = Some l \<Longrightarrow> l \<in> set (links_of def) \<and> ln_to l = RerouteEnd r"
  "selectorDriverOf def s c None = Some l \<Longrightarrow> l \<in> set (links_of def) \<and> ln_to l = SelectorEnd s (Some c)"
  "tap_driver def k None = Some l \<Longrightarrow> l \<in> set (links_of def) \<and> (\<exists>p. ln_to l = PortEnd p \<and> portRefKey p = k)"
  by (auto simp: rerouteDriverOf_def selectorDriverOf_def tap_driver_def indexed_def into_reroute_def into_candidate_def
      into_input_iff dest!: find_found)

lemma trace_from_ends:
  "acyclic (chain_edges def) \<Longrightarrow> all_produce def \<Longrightarrow> index = None \<Longrightarrow> behind def visited e \<Longrightarrow>
   \<not> closes_cycle (trace_from def index sel visited lastLink e)"
proof (induction def index sel visited lastLink e rule: trace_from.induct)
  case (1 def index sel visited lastLink n t)
  let ?e = "WidgetTapEnd n t"
  have fresh: "''t:'' @ tap_key n t \<notin> set visited" using behind_fresh [OF 1(2,5), of ?e] by simp
  show ?case
  proof (cases "tap_driver def (tap_key n t) index")
    case (Some l)
    then have "l \<in> set (links_of def) \<and> (\<exists>p. ln_to l = PortEnd p \<and> portRefKey p = tap_key n t)"
      using found_links(3) 1(4) by simp
    then have l: "l \<in> set (links_of def)" "chain_key ?e \<in> set (driven_keys (ln_to l))" by auto
    have "behind def ((''t:'' @ tap_key n t) # visited) (ln_from l)"
      using behind_step [OF 1(3,5) l, of ?e] by simp
    then show ?thesis using 1(1) [OF fresh Some 1(2-4)] fresh Some by simp
  qed (use fresh in \<open>simp split: option.split\<close>)
next
  case (3 def index sel visited lastLink s c)
  let ?e = "SelectorEnd s c"
  have key: "visit_key ?e \<noteq> None" by (cases c) simp_all
  show ?case
  proof (cases "picked sel s c")
    case (Some x)
    have fresh: "''s:'' @ selectorCandidateKey s x \<notin> set visited"
      using behind_fresh [OF 3(2,5) key, of "SelectorEnd s (Some x)"] by simp
    show ?thesis
    proof (cases "selectorDriverOf def s x index")
      case l: (Some l)
      with found_links(2) 3(4) have l': "l \<in> set (links_of def)" "chain_key ?e \<in> set (driven_keys (ln_to l))" by auto
      have "behind def ((''s:'' @ selectorCandidateKey s x) # visited) (ln_from l)"
        using behind_step [OF 3(3,5) l' key, of "SelectorEnd s (Some x)"] by simp
      then show ?thesis using 3(1) [OF Some fresh l 3(2-4)] fresh l Some by simp
    qed (use fresh Some in simp)
  qed simp
next
  case (5 def index sel visited lastLink r)
  let ?e = "RerouteEnd r"
  have fresh: "''r:'' @ r \<notin> set visited" using behind_fresh [OF 5(2,5), of ?e] by simp
  show ?case
  proof (cases "rerouteDriverOf def r index")
    case (Some l)
    with found_links(1) 5(4) have l: "l \<in> set (links_of def)" "chain_key ?e \<in> set (driven_keys (ln_to l))" by auto
    have "behind def ((''r:'' @ r) # visited) (ln_from l)" using behind_step [OF 5(3,5) l, of ?e] by simp
    then show ?thesis using 5(1) [OF fresh Some 5(2-4)] fresh Some by simp
  qed (use fresh in simp)
qed simp_all

lemma checked_graph_ok:
  "plain_graph def \<Longrightarrow> checkGraphDef graphs defId def = Inr [] \<Longrightarrow> graph_ok graphs defId def"
  using checkGraphDef_runs graph_ok_checks chains_silent_acyclic by blast

lemma graph_ok_parts:
  assumes "graph_ok graphs defId def"
  shows "acyclic (chain_edges def)" and "all_produce def" and "single_nets def"
  using assms by (auto simp: graph_ok_def drivers_ok_def endpoints_ok_def all_produce_def links_of_def single_nets_def)

text \<open>In a graph that passes its check no trace closes a cycle: whatever endpoint it starts from, with or without
  an index, and whichever candidates are selected, it ends at a producer, at a junction without a driver or at a
  selector left open.\<close>

theorem checked_graph_traces_end:
  assumes "checkGraphDef graphs defId def = Inr []" and "plain_graph def"
    and "index \<in> {None, Some (buildRerouteIndex def)}"
  shows "\<not> closes_cycle (traceEndpoint def from index sel)"
proof -
  note ok = graph_ok_parts [OF checked_graph_ok [OF assms(2,1)]]
  have "behind def [] from" by (simp add: behind_def)
  from trace_from_ends [OF ok(1,2) refl this]
  have "\<not> closes_cycle (trace_from def None sel [] None from)" .
  then show ?thesis using assms(3) trace_from_agrees [OF ok(3) refl] by (auto simp: traceEndpoint_def)
qed

lemma demo_plain: "plain_graph (demo_graph demo_links)"
  by code_simp

lemma demo_single: "single_nets (demo_graph demo_links)"
  by (simp add: single_nets_def net_inputs_def demo_graph_def)

theorem index_changes_nothing_witness:
  "traceEndpoint (demo_graph demo_links) (RerouteEnd ''r2'') (Some (buildRerouteIndex (demo_graph demo_links))) None =
   traceEndpoint (demo_graph demo_links) (RerouteEnd ''r2'') None None"
  using index_changes_nothing [OF demo_single] by blast

theorem checked_graph_traces_end_witness:
  "\<not> closes_cycle (traceEndpoint (demo_graph demo_links) (RerouteEnd ''r2'') None None)"
  by (rule checked_graph_traces_end [OF demo_check demo_plain]) simp

end
