(* ===== verification/RerouteSearch.thy ===== *)
theory RerouteSearch
  imports RerouteLaws
begin

text \<open>
  The searches through junctions find what is upstream: all producers, and whether a connection closes a cycle.
\<close>

section \<open>Searching with a stack\<close>

text \<open>A search pops an endpoint, skips it when its key has been seen, and else pushes what comes next. The endpoints
  that were not skipped cover what is reachable.\<close>

locale stack_search =
  fixes key :: "'e \<Rightarrow> string option" and further :: "'e \<Rightarrow> 'e list"
  assumes key_inj: "key x = Some k \<Longrightarrow> key y = Some k \<Longrightarrow> x = y"
begin

definition steps :: "('e \<times> 'e) set" where
  "steps = {(a, b). b \<in> set (further a)}"

definition seen :: "string list \<Rightarrow> 'e \<Rightarrow> bool" where
  "seen visited e \<longleftrightarrow> (case key e of None \<Rightarrow> False | Some k \<Rightarrow> k \<in> set visited)"

definition see :: "'e \<Rightarrow> string list \<Rightarrow> string list" where
  "see e visited = (case key e of None \<Rightarrow> visited | Some k \<Rightarrow> k # visited)"

definition covered :: "'e set \<Rightarrow> string list \<Rightarrow> 'e list \<Rightarrow> bool" where
  "covered D visited stack \<longleftrightarrow>
     (\<forall>e \<in> D. set (further e) \<subseteq> D \<union> set stack) \<and> (\<forall>e k. key e = Some k \<and> k \<in> set visited \<longrightarrow> e \<in> D)"

lemma covered_start: "covered {} [] stack"
  by (simp add: covered_def)

lemma covered_skip: "covered D visited (e # stack) \<Longrightarrow> seen visited e \<Longrightarrow> covered D visited stack \<and> e \<in> D"
  by (auto simp: covered_def seen_def split: option.splits)

lemma covered_push:
  assumes "covered D visited (e # stack)"
  shows "covered (insert e D) (see e visited) (further e @ stack)"
proof -
  have "set (further d) \<subseteq> insert e D \<union> set (further e @ stack)" if "d \<in> insert e D" for d
    using that assms by (auto simp: covered_def)
  moreover have "d \<in> insert e D" if "key d = Some k" and "k \<in> set (see e visited)" for d k
    using that assms key_inj [OF that(1), of e] by (auto simp: covered_def see_def split: option.splits)
  ultimately show ?thesis unfolding covered_def by blast
qed

lemma covered_done:
  assumes "covered D visited []" and "(e, e') \<in> steps\<^sup>*" and "e \<in> D"
  shows "e' \<in> D"
  using assms(2,3,1) by induction (auto simp: covered_def steps_def)

end

section \<open>Junctions upstream\<close>

definition junction_key :: "endpoint \<Rightarrow> string option" where
  "junction_key e = (case e of WidgetTapEnd n t \<Rightarrow> None | _ \<Rightarrow> visit_key e)"

lemma junction_key_visit: "junction_key e = Some k \<Longrightarrow> visit_key e = Some k"
  by (cases e) (simp_all add: junction_key_def)

lemma junction_key_inj: "junction_key x = Some k \<Longrightarrow> junction_key y = Some k \<Longrightarrow> x = y"
  using visit_key_inj junction_key_visit by blast

interpretation junctions: stack_search junction_key "junction_next def index" for def index
  by unfold_locales (rule junction_key_inj)

lemma junction_loop: "junction_seen visited e \<longleftrightarrow> junctions.seen visited e" "junction_visit e visited = junctions.see e visited"
  by (simp_all add: junction_seen_def junction_visit_def junctions.seen_def junctions.see_def junction_key_def
      visited_before_def visit_def split: endpoint.split)

lemma hunt_found: "hunt def hits index visited stack \<Longrightarrow> \<exists>s \<in> set stack. \<exists>e. (s, e) \<in> (junctions.steps def index)\<^sup>* \<and> hits e"
proof (induction def hits index visited stack rule: hunt.induct)
  case (2 def hits index visited current stack)
  consider "hits current" | "\<not> hits current" "junction_seen visited current" "hunt def hits index visited stack"
    | "\<not> hits current" "\<not> junction_seen visited current"
      "hunt def hits index (junction_visit current visited) (junction_next def index current @ stack)"
    using "2.prems" by (auto split: if_splits)
  then show ?case
  proof cases
    case 3
    from "2.IH"(2) [OF 3] obtain s e where s: "s \<in> set (junction_next def index current @ stack)"
        "(s, e) \<in> (junctions.steps def index)\<^sup>*" "hits e" by blast
    show ?thesis
    proof (cases "s \<in> set stack")
      case False
      then have "(current, s) \<in> junctions.steps def index" using s(1) by (simp add: junctions.steps_def)
      then show ?thesis using s(2,3) converse_rtrancl_into_rtrancl by fastforce
    qed (use s in auto)
  qed (use "2.IH"(1) in auto)
qed simp

lemma hunt_exhausts:
  "\<not> hunt def hits index visited stack \<Longrightarrow> junctions.covered def index D visited stack \<Longrightarrow> \<forall>e \<in> D. \<not> hits e \<Longrightarrow>
   \<exists>D' visited'. D \<union> set stack \<subseteq> D' \<and> junctions.covered def index D' visited' [] \<and> (\<forall>e \<in> D'. \<not> hits e)"
proof (induction def hits index visited stack arbitrary: D rule: hunt.induct)
  case (2 def hits index visited current stack)
  have no: "\<not> hits current" using "2.prems"(1) by auto
  show ?case
  proof (cases "junction_seen visited current")
    case True
    have cov: "junctions.covered def index D visited stack" "current \<in> D"
      using junctions.covered_skip [OF "2.prems"(2)] True by (simp_all add: junction_loop)
    have "\<not> hunt def hits index visited stack" using "2.prems"(1) no True by simp
    from "2.IH"(1) [OF no True this cov(1) "2.prems"(3)] show ?thesis using cov(2) unfolding set_simps by blast
  next
    case False
    have "junctions.covered def index (insert current D) (junction_visit current visited) (junction_next def index current @ stack)"
      using junctions.covered_push [OF "2.prems"(2)] by (simp add: junction_loop)
    moreover have "\<not> hunt def hits index (junction_visit current visited) (junction_next def index current @ stack)"
      using "2.prems"(1) no False by simp
    moreover have "\<forall>e \<in> insert current D. \<not> hits e" using no "2.prems"(3) by simp
    ultimately have "\<exists>D' visited'. insert current D \<union> set (junction_next def index current @ stack) \<subseteq> D' \<and>
        junctions.covered def index D' visited' [] \<and> (\<forall>e \<in> D'. \<not> hits e)"
      by (intro "2.IH"(2) [OF no False])
    then obtain D' visited' where "insert current D \<union> set (junction_next def index current @ stack) \<subseteq> D'"
        "junctions.covered def index D' visited' []" "\<forall>e \<in> D'. \<not> hits e" by (elim exE conjE)
    moreover from this(1) have "D \<union> set (current # stack) \<subseteq> D'" by simp
    ultimately show ?thesis by blast
  qed
next
  case (1 def hits index visited)
  then show ?case by (intro exI [of _ D] exI [of _ visited]) simp
qed

lemma upstreamHitsJunction_iff:
  "upstreamHitsJunction def from hits index \<longleftrightarrow> (\<exists>e. (from, e) \<in> (junctions.steps def index)\<^sup>* \<and> hits e)"
proof
  show "\<exists>e. (from, e) \<in> (junctions.steps def index)\<^sup>* \<and> hits e" if "upstreamHitsJunction def from hits index"
    using hunt_found [OF that [unfolded upstreamHitsJunction_def]] by simp
next
  assume "\<exists>e. (from, e) \<in> (junctions.steps def index)\<^sup>* \<and> hits e"
  then obtain e where e: "(from, e) \<in> (junctions.steps def index)\<^sup>*" "hits e" by blast
  show "upstreamHitsJunction def from hits index"
  proof (rule ccontr)
    assume "\<not> upstreamHitsJunction def from hits index"
    from hunt_exhausts [OF this [unfolded upstreamHitsJunction_def] junctions.covered_start]
    obtain D visited where D: "set [from] \<subseteq> D" "junctions.covered def index D visited []" "\<forall>e \<in> D. \<not> hits e" by auto
    then show False using junctions.covered_done [OF D(2) e(1)] e(2) by simp
  qed
qed

section \<open>All producers\<close>

interpretation producers: stack_search visit_key "\<lambda>e. fst (expand def index sel e)" for def index sel
  by unfold_locales (rule visit_key_inj)

lemma producer_loop: "visited_before visited e \<longleftrightarrow> producers.seen visited e" "visit e visited = producers.see e visited"
  by (simp_all add: visited_before_def visit_def producers.seen_def producers.see_def)

lemma set_emit: "set (emit out results) = set out \<union> set results"
  unfolding emit_def by (induction out arbitrary: results) (auto simp: set_add_def)

lemma distinct_emit: "distinct results \<Longrightarrow> distinct (emit out results)"
  unfolding emit_def by (induction out arbitrary: results) (auto simp: set_add_def)

lemma trace_all_distinct: "distinct results \<Longrightarrow> distinct (fst (trace_all def index sel visited stack results via))"
  by (induction def index sel visited stack results via rule: trace_all.induct) (simp_all add: distinct_emit)

definition emitted :: "graph_def \<Rightarrow> reroute_index option \<Rightarrow> (string \<times> string) list option \<Rightarrow> endpoint set \<Rightarrow> reroute_trace set" where
  "emitted def index sel D = (\<Union>e \<in> D. set (snd (expand def index sel e)))"

lemma trace_all_results:
  "producers.covered def index sel D visited stack \<Longrightarrow> emitted def index sel D \<subseteq> set results \<Longrightarrow>
   \<exists>D' visited'. D \<union> set stack \<subseteq> D' \<and> D' \<subseteq> D \<union> (producers.steps def index sel)\<^sup>* `` set stack \<and>
     producers.covered def index sel D' visited' [] \<and>
     set (fst (trace_all def index sel visited stack results via)) = set results \<union> emitted def index sel D'"
proof (induction def index sel visited stack results via arbitrary: D rule: trace_all.induct)
  case (1 def index sel visited results via)
  then show ?case by (intro exI [of _ D] exI [of _ visited]) auto
next
  case (2 def index sel visited current stack results via)
  let ?R = "(producers.steps def index sel)\<^sup>*"
  show ?case
  proof (cases "visited_before visited current")
    case True
    have cov: "producers.covered def index sel D visited stack" "current \<in> D"
      using producers.covered_skip [OF "2.prems"(1)] True by (simp_all add: producer_loop)
    from "2.IH"(1) [OF True cov(1) "2.prems"(2)] obtain D' visited' where
      D': "D \<union> set stack \<subseteq> D'" "D' \<subseteq> D \<union> ?R `` set stack" "producers.covered def index sel D' visited' []"
        "set (fst (trace_all def index sel visited stack results via)) = set results \<union> emitted def index sel D'"
      by (elim exE conjE)
    have "D \<union> set (current # stack) \<subseteq> D'" "D' \<subseteq> D \<union> ?R `` set (current # stack)" using D'(1,2) cov(2) by auto
    then show ?thesis using D'(3,4) True by (intro exI [of _ D'] exI [of _ visited'] conjI) simp_all
  next
    case False
    let ?next = "fst (expand def index sel current)" and ?out = "snd (expand def index sel current)"
    have cov: "producers.covered def index sel (insert current D) (visit current visited) (?next @ stack)"
      using producers.covered_push [OF "2.prems"(1)] by (simp add: producer_loop)
    have out: "emitted def index sel (insert current D) \<subseteq> set (emit ?out results)"
      using "2.prems"(2) by (auto simp: emitted_def set_emit)
    from "2.IH"(2) [OF False cov out] obtain D' visited' where
      D': "insert current D \<union> set (?next @ stack) \<subseteq> D'" "D' \<subseteq> insert current D \<union> ?R `` set (?next @ stack)"
        "producers.covered def index sel D' visited' []"
        "set (fst (trace_all def index sel (visit current visited) (?next @ stack) (emit ?out results) (note_via current via))) =
           set (emit ?out results) \<union> emitted def index sel D'"
      by (elim exE conjE)
    have sub: "D' \<subseteq> D \<union> ?R `` set (current # stack)"
    proof
      fix x assume "x \<in> D'"
      then consider "x = current" | "x \<in> D" | y where "y \<in> set ?next" "(y, x) \<in> ?R" | y where "y \<in> set stack" "(y, x) \<in> ?R"
        using D'(2) by auto
      then show "x \<in> D \<union> ?R `` set (current # stack)"
      proof cases
        case 3
        then have "(current, x) \<in> ?R"
          using converse_rtrancl_into_rtrancl [of current y "producers.steps def index sel" x] by (simp add: producers.steps_def)
        then show ?thesis by auto
      qed auto
    qed
    have "set ?out \<subseteq> emitted def index sel D'" using D'(1) unfolding emitted_def by blast
    then have res: "set (fst (trace_all def index sel visited (current # stack) results via)) = set results \<union> emitted def index sel D'"
      using D'(4) False by (auto simp: set_emit)
    have "D \<union> set (current # stack) \<subseteq> D'" using D'(1) by simp
    then show ?thesis using sub D'(3) res by (intro exI [of _ D'] exI [of _ visited'] conjI)
  qed
qed

lemma traceEndpointAll_set:
  "set (fst (traceEndpointAll def from index sel via)) = emitted def index sel ((producers.steps def index sel)\<^sup>* `` {from})"
proof -
  let ?R = "(producers.steps def index sel)\<^sup>*"
  have "\<exists>D' visited'. {} \<union> set [from] \<subseteq> D' \<and> D' \<subseteq> {} \<union> ?R `` set [from] \<and> producers.covered def index sel D' visited' [] \<and>
      set (fst (trace_all def index sel [] [from] [] via)) = set [] \<union> emitted def index sel D'"
    by (rule trace_all_results [OF producers.covered_start]) (simp add: emitted_def)
  then obtain D visited where D: "from \<in> D" "D \<subseteq> ?R `` {from}" "producers.covered def index sel D visited []"
      "set (fst (trace_all def index sel [] [from] [] via)) = emitted def index sel D" by auto
  have "?R `` {from} \<subseteq> D" using producers.covered_done [OF D(3) _ D(1)] by blast
  then have "D = ?R `` {from}" using D(2) by blast
  then show ?thesis using D(4) by (simp add: traceEndpointAll_def)
qed

end
