(* ===== verification/RerouteProducers.thy ===== *)
theory RerouteProducers
  imports RerouteSearch
begin

text \<open>
  What is upstream of an endpoint, read off the links and nets of a graph, and that the traces compute it.
\<close>

section \<open>Upstream\<close>

fun drives :: "endpoint \<Rightarrow> link_data \<Rightarrow> bool" where
  "drives (RerouteEnd r) l = into_reroute r l"
| "drives (SelectorEnd s (Some c)) l = into_candidate s c l"
| "drives (WidgetTapEnd n t) l = into_input (tap_key n t) l"
| "drives _ l = False"

definition driven :: "graph_def \<Rightarrow> endpoint \<Rightarrow> bool" where
  "driven def e \<longleftrightarrow> (\<exists>l \<in> set (links_of def). drives e l)"

text \<open>From a driven endpoint to the source of its link, from a selector to each of its candidates, and from a tap of
  an input that only a net feeds to the net's source.\<close>

inductive upstream :: "graph_def \<Rightarrow> endpoint \<Rightarrow> endpoint \<Rightarrow> bool" for def where
  through_link: "l \<in> set (links_of def) \<Longrightarrow> drives e l \<Longrightarrow> upstream def e (ln_from l)"
| through_candidate: "c \<in> set (candidates_of def s) \<Longrightarrow> upstream def (SelectorEnd s None) (SelectorEnd s (Some c))"
| through_net: "n \<in> set (nets_of def) \<Longrightarrow> net_into (tap_key node tap) n \<Longrightarrow> \<not> driven def (WidgetTapEnd node tap) \<Longrightarrow>
    upstream def (WidgetTapEnd node tap) (PortEnd (nt_source n))"

inductive_simps upstream_simps:
  "upstream def (PortEnd p) e" "upstream def (ValueSourceEnd v) e" "upstream def (RerouteEnd r) e"
  "upstream def (SelectorEnd s None) e" "upstream def (SelectorEnd s (Some c)) e" "upstream def (WidgetTapEnd n t) e"

text \<open>The producers an endpoint stands for itself.\<close>

fun endings :: "graph_def \<Rightarrow> endpoint \<Rightarrow> reroute_trace set" where
  "endings def (PortEnd p) = {OutputTrace p None}"
| "endings def (ValueSourceEnd v) = {ValueSourceTrace v None}"
| "endings def (RerouteEnd r) = (if driven def (RerouteEnd r) then {} else {UndrivenTrace r})"
| "endings def (SelectorEnd s (Some c)) = (if driven def (SelectorEnd s (Some c)) then {} else {SelectorUndrivenTrace s c})"
| "endings def (SelectorEnd s None) = {}"
| "endings def (WidgetTapEnd n t) =
     (if driven def (WidgetTapEnd n t) \<or> (\<exists>net \<in> set (nets_of def). net_into (tap_key n t) net) then {}
      else {TapValueTrace n t None})"

section \<open>One driver each\<close>

lemma concat_unique:
  "distinct (concat (map f xs)) \<Longrightarrow> x \<in> set xs \<Longrightarrow> y \<in> set xs \<Longrightarrow> k \<in> set (f x) \<Longrightarrow> k \<in> set (f y) \<Longrightarrow> x = y"
  by (induction xs) (auto dest: distinct_append [THEN iffD1])

lemma find_unique:
  assumes "\<And>x y. x \<in> set xs \<Longrightarrow> y \<in> set xs \<Longrightarrow> P x \<Longrightarrow> P y \<Longrightarrow> f x = f y" and "x \<in> set xs" and "P x"
  shows "map_option f (find P xs) = Some (f x)"
proof (cases "find P xs")
  case None
  then show ?thesis using assms(2,3) by (auto simp: find_None_iff)
next
  case (Some y)
  then show ?thesis using assms(1) [of y x] assms(2,3) find_found [OF Some] by simp
qed

lemma driver_unique:
  assumes "single_drivers (gd_links def)" and "l \<in> set (links_of def)" and "l' \<in> set (links_of def)"
    and "drives e l" and "drives e l'"
  shows "l = l'"
proof -
  obtain k k' where mem: "(k, l) \<in> set (gd_links def)" "(k', l') \<in> set (gd_links def)"
    using assms(2,3) by (auto simp: links_of_def)
  have "(k, l) = (k', l')"
  proof (cases e rule: visit_key.cases)
    case (1 r)
    have "distinct (concat (map (\<lambda>kl. target_reroute (ln_to (snd kl))) (gd_links def)))"
      using assms(1) by (simp add: single_drivers_def link_reroutes_def map_concat comp_def)
    from concat_unique [OF this mem, of r] show ?thesis using assms(4,5) 1 by (simp add: into_reroute_def)
  next
    case (2 s c)
    have "distinct (concat (map (\<lambda>kl. target_candidate (ln_to (snd kl))) (gd_links def)))"
      using assms(1) by (simp add: single_drivers_def link_candidates_def)
    from concat_unique [OF this mem, of "(s, c)"] show ?thesis using assms(4,5) 2 by (simp add: into_candidate_def)
  next
    case (4 n t)
    have "distinct (concat (map (\<lambda>kl. target_input (ln_to (snd kl))) (gd_links def)))"
      using assms(1) by (simp add: single_drivers_def link_inputs_def)
    from concat_unique [OF this mem, of "tap_key n t"] show ?thesis using assms(4,5) 4 by (auto simp: into_input_iff)
  qed (use assms(4) in simp_all)
  then show ?thesis by simp
qed

lemma net_unique:
  assumes "single_nets def" and "n \<in> set (nets_of def)" and "n' \<in> set (nets_of def)" and "net_into k n" and "net_into k n'"
  shows "n = n'"
proof -
  have "distinct (concat (map (\<lambda>n. map portRefKey (nt_sinks n)) (nets_of def)))"
    using assms(1) by (simp add: single_nets_def net_inputs_def sink_keys_def [abs_def] nets_of_def comp_def)
  moreover have "k \<in> set (map portRefKey (nt_sinks n))" "k \<in> set (map portRefKey (nt_sinks n'))"
    using assms(4,5) unfolding net_into_def list_ex_iff set_map by (metis imageI)+
  ultimately show ?thesis by (rule concat_unique [OF _ assms(2,3)])
qed

lemma found_driver:
  assumes "single_drivers (gd_links def)"
  shows "find (drives e) (links_of def) = Some l \<longleftrightarrow> l \<in> set (links_of def) \<and> drives e l"
proof
  show "find (drives e) (links_of def) = Some l" if "l \<in> set (links_of def) \<and> drives e l"
    using find_unique [of "links_of def" "drives e" "\<lambda>x. x" l] driver_unique [OF assms] that by (simp add: option.map_ident)
qed (rule find_found)

lemma driven_find: "driven def e \<longleftrightarrow> find (drives e) (links_of def) \<noteq> None"
  by (auto simp: driven_def find_None_iff)

section \<open>The search computes it\<close>

lemma drivers_found:
  "rerouteDriverOf def r (Some (buildRerouteIndex def)) = find (drives (RerouteEnd r)) (links_of def)"
  "selectorDriverOf def s c (Some (buildRerouteIndex def)) = find (drives (SelectorEnd s (Some c))) (links_of def)"
  "indexed rx_inputDriverOf (Some (buildRerouteIndex def)) (tap_key n t) = find (drives (WidgetTapEnd n t)) (links_of def)"
  by (simp_all add: rerouteDriverOf_def selectorDriverOf_def indexed_def index_lookups drives.simps [abs_def])

lemma link_or_parts:
  "b \<in> set (fst (link_or d x)) \<longleftrightarrow> (\<exists>l. d = Some l \<and> b = ln_from l) \<or> d = None \<and> b \<in> set (fst x)"
  "set (snd (link_or d x)) = (if d = None then set (snd x) else {})"
  by (simp_all add: link_or_def split: option.split)

lemma source_found:
  assumes "single_nets def"
  shows "indexed rx_netSourceOf (Some (buildRerouteIndex def)) k = Some p \<longleftrightarrow>
    (\<exists>n \<in> set (nets_of def). net_into k n \<and> nt_source n = p)"
proof -
  have "find (net_into k) (nets_of def) = Some n \<longleftrightarrow> n \<in> set (nets_of def) \<and> net_into k n" for n
    using find_unique [of "nets_of def" "net_into k" "\<lambda>x. x" n] net_unique [OF assms, of _ _ k]
      find_found [of "net_into k" "nets_of def" n] by (auto simp: option.map_ident)
  then show ?thesis by (auto simp: indexed_def index_sources [OF assms])
qed

lemma upstream_steps:
  assumes "single_drivers (gd_links def)" and "single_nets def"
  shows "(a, b) \<in> producers.steps def (Some (buildRerouteIndex def)) None \<longleftrightarrow> upstream def a b"
proof -
  note found = found_driver [OF assms(1)] and undriven = driven_find [of def, symmetric]
  show ?thesis
  proof (cases a rule: visit_key.cases)
    case (1 r)
    then show ?thesis by (auto simp: producers.steps_def drivers_found link_or_parts found upstream_simps)
  next
    case (2 s c)
    then show ?thesis by (auto simp: producers.steps_def drivers_found link_or_parts found upstream_simps)
  next
    case (3 s)
    then show ?thesis by (auto simp: producers.steps_def picked_def upstream_simps)
  next
    case (4 n t)
    have net: "b \<in> set (fst (case indexed rx_netSourceOf (Some (buildRerouteIndex def)) (tap_key n t) of
          Some p \<Rightarrow> ([PortEnd p], []) | None \<Rightarrow> ([], [TapValueTrace n t None]))) \<longleftrightarrow>
        (\<exists>net \<in> set (nets_of def). net_into (tap_key n t) net \<and> b = PortEnd (nt_source net))"
    proof (cases "indexed rx_netSourceOf (Some (buildRerouteIndex def)) (tap_key n t)")
      case None
      then have "\<not> net_into (tap_key n t) m" if "m \<in> set (nets_of def)" for m
        using source_found [OF assms(2), of "tap_key n t" "nt_source m"] that by auto
      then show ?thesis using None by auto
    next
      case (Some p)
      then obtain m where "m \<in> set (nets_of def)" "net_into (tap_key n t) m" "nt_source m = p"
        using source_found [OF assms(2)] by blast
      then have "nt_source net = p" if "net \<in> set (nets_of def)" "net_into (tap_key n t) net" for net
        using net_unique [OF assms(2) that(1) _ that(2)] by blast
      then show ?thesis using Some \<open>m \<in> set (nets_of def)\<close> \<open>net_into (tap_key n t) m\<close> by auto
    qed
    have none: "find (drives (WidgetTapEnd n t)) (links_of def) = None \<longleftrightarrow> \<not> driven def (WidgetTapEnd n t)"
      by (simp add: driven_find)
    show ?thesis unfolding 4 producers.steps_def mem_Collect_eq case_prod_conv expand.simps link_or_parts drivers_found
        found upstream_simps net none drives.simps by blast
  qed (simp_all add: producers.steps_def upstream_simps)
qed

lemma endings_emitted:
  assumes "single_nets def"
  shows "set (snd (expand def (Some (buildRerouteIndex def)) None e)) = endings def e"
proof (cases e rule: visit_key.cases)
  case (4 n t)
  show ?thesis
    using source_found [OF assms, of "tap_key n t"]
    by (cases "find (drives e) (links_of def)"; cases "indexed rx_netSourceOf (Some (buildRerouteIndex def)) (tap_key n t)")
      (auto simp: 4 drivers_found link_or_parts driven_find)
qed (auto simp: drivers_found link_or_parts driven_find picked_def split: option.split)

lemma checked_single:
  assumes "graph_ok graphs defId def"
  shows "single_drivers (gd_links def)" and "single_nets def"
  using assms by (auto simp: graph_ok_def drivers_ok_def single_drivers_def single_nets_def)

lemma all_producers:
  assumes "single_drivers (gd_links def)" and "single_nets def"
  shows "set (fst (traceEndpointAll def from (Some (buildRerouteIndex def)) None via)) =
    (\<Union>e \<in> {e. (upstream def)\<^sup>*\<^sup>* from e}. endings def e)"
proof -
  have "producers.steps def (Some (buildRerouteIndex def)) None = {(a, b). upstream def a b}"
    using upstream_steps [OF assms] by auto
  then show ?thesis
    by (auto simp: traceEndpointAll_set emitted_def endings_emitted [OF assms(2)] rtranclp_rtrancl_eq)
qed

text \<open>C40: In a graph that passes its check \<open>traceEndpointAll\<close> gives, each once, exactly the producers that can be reached
  upstream: the outputs, value sources and tapped values there, and the junctions without a driver. What \<open>via\<close>
  has collected before does not matter.\<close>

theorem traceEndpointAll_exact:
  assumes "checkGraphDef graphs defId def = Inr []" and "plain_graph def"
  shows "distinct (fst (traceEndpointAll def from (Some (buildRerouteIndex def)) None via)) \<and>
    set (fst (traceEndpointAll def from (Some (buildRerouteIndex def)) None via)) =
      (\<Union>e \<in> {e. (upstream def)\<^sup>*\<^sup>* from e}. endings def e)"
proof
  show "distinct (fst (traceEndpointAll def from (Some (buildRerouteIndex def)) None via))"
    unfolding traceEndpointAll_def by (rule trace_all_distinct) simp
qed (rule all_producers [OF checked_single [OF checked_graph_ok [OF assms(2,1)]]])

section \<open>Policies\<close>

text \<open>A trace without the link it came through.\<close>

fun bare :: "reroute_trace \<Rightarrow> reroute_trace" where
  "bare (OutputTrace p l) = OutputTrace p None"
| "bare (ValueSourceTrace v l) = ValueSourceTrace v None"
| "bare (TapValueTrace n t l) = TapValueTrace n t None"
| "bare (SelectorTrace s l) = SelectorTrace s None"
| "bare t = t"

definition among_candidates :: "graph_def \<Rightarrow> (string \<times> string) list \<Rightarrow> bool" where
  "among_candidates def m \<longleftrightarrow> (\<forall>(s, c) \<in> set m. c \<in> set (candidates_of def s))"

lemma drivers_searched:
  "rerouteDriverOf def r None = find (drives (RerouteEnd r)) (links_of def)"
  "selectorDriverOf def s c None = find (drives (SelectorEnd s (Some c))) (links_of def)"
  "tap_driver def (tap_key n t) None = find (drives (WidgetTapEnd n t)) (links_of def)"
  by (simp_all add: rerouteDriverOf_def selectorDriverOf_def tap_driver_def indexed_def drives.simps [abs_def])

definition reaches :: "graph_def \<Rightarrow> endpoint \<Rightarrow> reroute_trace \<Rightarrow> bool" where
  "reaches def e t \<longleftrightarrow> closes_cycle t \<or> (\<exists>s. t = SelectorUnresolvedTrace s) \<or>
     (\<exists>e'. (upstream def)\<^sup>*\<^sup>* e e' \<and> bare t \<in> endings def e')"

lemma reaches_here: "bare t \<in> endings def e \<Longrightarrow> reaches def e t"
  by (auto simp: reaches_def)

lemma reaches_step: "upstream def e e' \<Longrightarrow> reaches def e' t \<Longrightarrow> reaches def e t"
  unfolding reaches_def by (meson converse_rtranclp_into_rtranclp)

lemma reaches_link: "find (drives e) (links_of def) = Some l \<Longrightarrow> reaches def (ln_from l) t \<Longrightarrow> reaches def e t"
  using reaches_step through_link find_found by metis

lemma trace_from_reaches:
  "index = None \<Longrightarrow> sel = Some m \<Longrightarrow> among_candidates def m \<Longrightarrow> reaches def e (trace_from def index sel visited lastLink e)"
proof (induction def index sel visited lastLink e rule: trace_from.induct)
  case (1 def index sel visited lastLink n t)
  let ?e = "WidgetTapEnd n t"
  show ?case
  proof (cases "''t:'' @ tap_key n t \<in> set visited")
    case False
    show ?thesis
    proof (cases "tap_driver def (tap_key n t) index")
      case None
      then have un: "\<not> driven def ?e" using 1(2) by (simp add: driven_find drivers_searched)
      show ?thesis
      proof (cases "find (net_into (tap_key n t)) (nets_of def)")
        case none: None
        then have "\<not> (\<exists>net \<in> set (nets_of def). net_into (tap_key n t) net)" by (auto simp: find_None_iff)
        then show ?thesis using False None none un 1(2) by (intro reaches_here) (simp add: tap_source_def indexed_def)
      next
        case (Some net)
        then have "upstream def ?e (PortEnd (nt_source net))" using find_found [OF Some] through_net un by blast
        moreover have "trace_from def index sel visited lastLink ?e = OutputTrace (nt_source net) lastLink"
          using False None Some 1(2) by (simp add: tap_source_def indexed_def)
        ultimately show ?thesis using reaches_step reaches_here [of _ def "PortEnd (nt_source net)"] by simp
      qed
    next
      case (Some l)
      then have "find (drives ?e) (links_of def) = Some l" using 1(2) by (simp add: drivers_searched)
      from reaches_link [OF this 1(1) [OF False Some 1(2-4)]] show ?thesis using False Some by simp
    qed
  qed (simp add: reaches_def)
next
  case (3 def index sel visited lastLink s c)
  show ?case
  proof (cases "picked sel s c")
    case (Some x)
    let ?e = "SelectorEnd s (Some x)"
    have "reaches def ?e (trace_from def index sel visited lastLink (SelectorEnd s c))"
    proof (cases "''s:'' @ selectorCandidateKey s x \<in> set visited")
      case False
      show ?thesis
      proof (cases "selectorDriverOf def s x index")
        case None
        then show ?thesis using Some False 3(2) by (intro reaches_here) (simp add: driven_find drivers_searched)
      next
        case l: (Some l)
        then have "find (drives ?e) (links_of def) = Some l" using 3(2) by (simp add: drivers_searched)
        from reaches_link [OF this 3(1) [OF Some False l 3(2-4)]] show ?thesis using False Some l by simp
      qed
    qed (use Some in \<open>simp add: reaches_def\<close>)
    moreover have "SelectorEnd s c = ?e \<or> upstream def (SelectorEnd s c) ?e"
    proof (cases c)
      case None
      then have "(s, x) \<in> set m" using Some 3(3) by (auto simp: picked_def dest: map_of_in_set)
      then show ?thesis using None 3(4) through_candidate unfolding among_candidates_def by blast
    qed (use Some in \<open>simp add: picked_def\<close>)
    ultimately show ?thesis using reaches_step by metis
  qed (use 3(3) in \<open>simp add: reaches_def\<close>)
next
  case (5 def index sel visited lastLink r)
  show ?case
  proof (cases "''r:'' @ r \<in> set visited")
    case False
    show ?thesis
    proof (cases "rerouteDriverOf def r index")
      case None
      then show ?thesis using False 5(2) by (intro reaches_here) (simp add: driven_find drivers_searched)
    next
      case (Some l)
      then have "find (drives (RerouteEnd r)) (links_of def) = Some l" using 5(2) by (simp add: drivers_searched)
      from reaches_link [OF this 5(1) [OF False Some 5(2-4)]] show ?thesis using False Some by simp
    qed
  qed (simp add: reaches_def)
qed (simp_all add: reaches_here)

text \<open>What \<open>traceEndpointAll\<close> gives holds under any policy: in a graph that passes its check, the producer that
  tracing finds for any choice of candidates is one of its results, unless the choice leaves a selector open.\<close>

theorem any_policy_among_producers:
  assumes "checkGraphDef graphs defId def = Inr []" and "plain_graph def" and "among_candidates def m"
    and "traceEndpoint def from (Some (buildRerouteIndex def)) (Some m) = t" and "\<forall>s. t \<noteq> SelectorUnresolvedTrace s"
  shows "bare t \<in> set (fst (traceEndpointAll def from (Some (buildRerouteIndex def)) None via))"
proof -
  note ok = checked_graph_ok [OF assms(2,1)]
  have t: "t = trace_from def None (Some m) [] None from"
    using assms(4) trace_from_agrees [OF graph_ok_parts(3) [OF ok] refl] by (simp add: traceEndpoint_def)
  have "\<not> closes_cycle t"
    using trace_from_ends [OF graph_ok_parts(1,2) [OF ok] refl] unfolding t by (simp add: behind_def)
  then obtain e where "(upstream def)\<^sup>*\<^sup>* from e" "bare t \<in> endings def e"
    using trace_from_reaches [OF refl refl assms(3), of "from" "[]" None] assms(5) unfolding t reaches_def by blast
  then show ?thesis unfolding all_producers [OF checked_single [OF ok]] by blast
qed

definition demo_via :: trace_via where
  "demo_via = \<lparr>tv_reroutes = [], tv_selectors = [], tv_valueSources = []\<rparr>"

theorem traceEndpointAll_exact_witness:
  "distinct (fst (traceEndpointAll (demo_graph demo_links) (RerouteEnd ''r2'') (Some (buildRerouteIndex (demo_graph demo_links))) None demo_via))"
  using traceEndpointAll_exact [OF demo_check demo_plain] by blast

lemma demo_trace:
  "traceEndpoint (demo_graph demo_links) (RerouteEnd ''r2'') (Some (buildRerouteIndex (demo_graph demo_links))) (Some []) =
     OutputTrace \<lparr>pr_node = ''n0'', pr_port = ''out'', pr_members = None\<rparr> (Some (snd (hd demo_links)))"
  unfolding traceEndpoint_def trace_from_agrees [OF demo_single refl]
  by (simp add: rerouteDriverOf_def links_of_def demo_defs into_reroute_def)

theorem any_policy_among_producers_witness:
  "OutputTrace \<lparr>pr_node = ''n0'', pr_port = ''out'', pr_members = None\<rparr> None \<in>
     set (fst (traceEndpointAll (demo_graph demo_links) (RerouteEnd ''r2'')
       (Some (buildRerouteIndex (demo_graph demo_links))) None demo_via))"
  using any_policy_among_producers [OF demo_check demo_plain _ demo_trace] by (simp add: among_candidates_def)

end
