(* ===== verification/RerouteConnect.thy ===== *)
theory RerouteConnect
  imports RerouteProducers
begin

text \<open>
  Connecting: what the cycle checks of \<open>connectError\<close> let through keeps the driver chains free of cycles where no
  widget tap is used, and does not where one is.
\<close>

section \<open>Chains and junctions\<close>

fun is_tap :: "endpoint \<Rightarrow> bool" where
  "is_tap (WidgetTapEnd n t) = True"
| "is_tap _ = False"

definition untapped :: "graph_def \<Rightarrow> bool" where
  "untapped def \<longleftrightarrow> (\<forall>l \<in> set (links_of def). \<not> is_tap (ln_from l))"

lemma untapped_keys:
  assumes "\<not> is_tap e" and "follow e = [k]"
  obtains r where "e = RerouteEnd r" "k = ''r:'' @ r" | s where "e = SelectorEnd s None" "k = ''s:'' @ s"
  using assms by (cases e rule: follow.cases) (auto split: if_splits)

lemma driven_by_prefix:
  "''r:'' @ r \<in> set (driven_keys e) \<longleftrightarrow> e = RerouteEnd r"
  "''s:'' @ s \<in> set (driven_keys e) \<longleftrightarrow> (\<exists>c. e = SelectorEnd s (Some c))"
  by (cases e rule: driven_keys.cases; auto)+

lemma candidates_exist: "endpoint_exists def (SelectorEnd s (Some c)) \<Longrightarrow> c \<in> set (candidates_of def s)"
  by (cases "gd_selectors def") (auto simp: candidates_of_def opt_read_def opt_list_def read_key_def)

lemma chain_step:
  assumes "graph_ok graphs defId def" and "untapped def" and "(k, k') \<in> chain_edges def" and "follow e = [k]" and "\<not> is_tap e"
  shows "\<exists>e'. (e, e') \<in> (junctions.steps def None)\<^sup>* \<and> follow e' = [k'] \<and> \<not> is_tap e'"
proof -
  let ?R = "junctions.steps def None"
  obtain key l where l: "(key, l) \<in> set (gd_links def)" "k \<in> set (driven_keys (ln_to l))" "k' \<in> set (follow (ln_from l))"
    using assms(3) by (auto simp: chain_edges_def)
  then have mem: "l \<in> set (links_of def)" by (force simp: links_of_def)
  have link: "(e, ln_from l) \<in> ?R" if "drives e l" "junction_next def None e = opt_list (map_option (\<lambda>l. [ln_from l]) (find (drives e) (links_of def)))" for e
    using that found_driver [OF checked_single(1) [OF assms(1)], of e l] mem by (simp add: junctions.steps_def opt_list_def)
  have "(e, ln_from l) \<in> ?R\<^sup>*"
  proof (rule untapped_keys [OF assms(5,4)])
    fix r assume e: "e = RerouteEnd r" "k = ''r:'' @ r"
    then have "ln_to l = RerouteEnd r" using l(2) driven_by_prefix(1) by blast
    then show ?thesis using link [of e] e by (auto simp: into_reroute_def drivers_searched)
  next
    fix s assume e: "e = SelectorEnd s None" "k = ''s:'' @ s"
    then obtain c where c: "ln_to l = SelectorEnd s (Some c)" using l(2) driven_by_prefix(2) by blast
    have "endpoint_exists def (ln_to l)" using assms(1) l(1) by (auto simp: graph_ok_def endpoints_ok_def)
    then have "(e, SelectorEnd s (Some c)) \<in> ?R"
      using candidates_exist c e by (simp add: junctions.steps_def)
    moreover have "(SelectorEnd s (Some c), ln_from l) \<in> ?R"
      using link [of "SelectorEnd s (Some c)"] c by (simp add: into_candidate_def drivers_searched)
    ultimately show ?thesis by (meson r_into_rtrancl rtrancl_trans)
  qed
  moreover have "\<not> is_tap (ln_from l)" using assms(2) mem by (simp add: untapped_def)
  moreover have "follow (ln_from l) = [k']" using l(3) by (cases "ln_from l" rule: follow.cases) (auto split: if_splits)
  ultimately show ?thesis by blast
qed

lemma chain_junctions:
  assumes "(k, k') \<in> (chain_edges def)\<^sup>*" and "graph_ok graphs defId def" and "untapped def" and "follow e = [k]" and "\<not> is_tap e"
  shows "\<exists>e'. (e, e') \<in> (junctions.steps def None)\<^sup>* \<and> follow e' = [k'] \<and> \<not> is_tap e'"
  using assms(1)
proof induction
  case base
  then show ?case using assms(4,5) by blast
next
  case (step y z)
  then obtain e' where e': "(e, e') \<in> (junctions.steps def None)\<^sup>*" "follow e' = [y]" "\<not> is_tap e'" by blast
  from chain_step [OF assms(2,3) step(2) e'(2,3)] show ?case using e'(1) by (meson rtrancl_trans)
qed

section \<open>Connecting\<close>

lemma prospective_edges:
  "chain_edges (prospective def from to) \<subseteq> chain_edges def \<union> set (driven_keys to) \<times> set (follow from)"
proof
  fix x assume "x \<in> chain_edges (prospective def from to)"
  then obtain a b kl where x: "x = (a, b)" "kl \<in> set (gd_links (prospective def from to))"
      "a \<in> set (driven_keys (ln_to (snd kl)))" "b \<in> set (follow (ln_from (snd kl)))"
    by (cases x) (auto simp: chain_edges_def)
  then consider "kl \<in> set (gd_links def)" | "snd kl = \<lparr>ln_id = ''__tap_cycle__'', ln_from = from, ln_to = to\<rparr>"
    using set_update_subset by (fastforce simp: prospective_def)
  then show "x \<in> chain_edges def \<union> set (driven_keys to) \<times> set (follow from)"
    using x by cases (auto simp: chain_edges_def)
qed

lemma connect_checked:
  assumes "connectError def from to = None" and "\<not> is_tap from"
  shows "to = RerouteEnd r \<Longrightarrow> \<not> wouldCreateRerouteCycle def from r None"
    and "to = SelectorEnd s c \<Longrightarrow> \<not> wouldCreateSelectorCycle def from s None"
    and "follow from = [k] \<Longrightarrow> produces from"
  using assms by (auto simp: connectError_def split: if_splits endpoint.splits)

lemma no_way_back:
  assumes "graph_ok graphs defId def" and "untapped def" and "\<not> is_tap from" and "connectError def from to = None"
    and "a \<in> set (driven_keys to)" and "follow from = [b]"
  shows "(b, a) \<notin> (chain_edges def)\<^sup>*"
proof
  assume "(b, a) \<in> (chain_edges def)\<^sup>*"
  from chain_junctions [OF this assms(1,2,6,3)] obtain e where
    e: "(from, e) \<in> (junctions.steps def None)\<^sup>*" "follow e = [a]" "\<not> is_tap e" by blast
  show False
  proof (rule untapped_keys [OF e(3,2)])
    fix r assume r: "e = RerouteEnd r" "a = ''r:'' @ r"
    then have "to = RerouteEnd r" using assms(5) driven_by_prefix(1) by blast
    then show False using connect_checked(1) [OF assms(4,3)] e(1) r(1)
      unfolding wouldCreateRerouteCycle_def upstreamHitsJunction_iff by blast
  next
    fix s assume s: "e = SelectorEnd s None" "a = ''s:'' @ s"
    then obtain c where "to = SelectorEnd s (Some c)" using assms(5) driven_by_prefix(2) by blast
    then show False using connect_checked(2) [OF assms(4,3)] e(1) s(1)
      unfolding wouldCreateSelectorCycle_def upstreamHitsJunction_iff by fastforce
  qed
qed

lemma short_lists: "length (driven_keys e) \<le> 1" "length (follow e) \<le> 1"
  by ((cases e rule: driven_keys.cases; simp), (cases e rule: follow.cases; simp))

lemma connect_acyclic:
  assumes "graph_ok graphs defId def" and "untapped def" and "\<not> is_tap from" and "connectError def from to = None"
  shows "acyclic (chain_edges (prospective def from to))"
proof (cases "driven_keys to = [] \<or> follow from = []")
  case True
  then show ?thesis using prospective_edges [of def "from" to] graph_ok_parts(1) [OF assms(1)] acyclic_subset by fastforce
next
  case False
  then obtain a b where ab: "driven_keys to = [a]" "follow from = [b]"
    using short_lists [of to] short_lists [of "from"] by (auto simp: neq_Nil_conv)
  then have "chain_edges (prospective def from to) \<subseteq> insert (a, b) (chain_edges def)"
    using prospective_edges [of def "from" to] by auto
  moreover have "acyclic (insert (a, b) (chain_edges def))"
    using graph_ok_parts(1) [OF assms(1)] no_way_back [OF assms, of a b] ab by (simp add: acyclic_insert)
  ultimately show ?thesis by (rule acyclic_subset [rotated])
qed

text \<open>A connection that \<open>connectError\<close> accepts closes no cycle: in a graph that passes its check and uses no widget
  taps, the driver chains with the new link in place of what drove its target have no cycle.\<close>

theorem accepted_connection_acyclic:
  assumes "checkGraphDef graphs defId def = Inr []" and "plain_graph def" and "untapped def" and "\<not> is_tap from"
    and "connectError def from to = None"
  shows "acyclic (chain_edges (prospective def from to))"
  using connect_acyclic [OF checked_graph_ok [OF assms(2,1)] assms(3-5)] .

section \<open>Examples\<close>

theorem accepted_connection_acyclic_witness:
  "acyclic (chain_edges (prospective (demo_graph demo_links) (demo_port ''n0'' ''mask'') (RerouteEnd ''r2'')))"
proof (rule accepted_connection_acyclic [OF demo_check demo_plain])
  show "untapped (demo_graph demo_links)" by (simp add: untapped_def links_of_def demo_defs)
  show "connectError (demo_graph demo_links) (demo_port ''n0'' ''mask'') (RerouteEnd ''r2'') = None"
    by (simp add: connectError_def demo_port_def wouldCreateRerouteCycle_def upstreamHitsJunction_def junction_seen_def
        visited_before_def)
qed (simp add: demo_port_def)

text \<open>A tap of the input that a reroute is about to drive: the connection is accepted, and the reroute then drives itself.\<close>

definition tapped_links :: "(string \<times> link_data) list" where
  "tapped_links = [demo_link ''l3'' (WidgetTapEnd ''n1'' ''in'') (RerouteEnd ''r2'')]"

lemma tap_cycle_accepted:
  "checkGraphDef [] ''g'' (demo_graph tapped_links) = Inr []"
  "connectError (demo_graph tapped_links) (RerouteEnd ''r2'') (demo_port ''n1'' ''in'') = None"
  "\<not> acyclic (chain_edges (prospective (demo_graph tapped_links) (RerouteEnd ''r2'') (demo_port ''n1'' ''in'')))"
proof -
  show "checkGraphDef [] ''g'' (demo_graph tapped_links) = Inr []"
    by (simp add: checkGraphDef_def demo_members) (simp add: check_evals tapped_links_def)
  show "connectError (demo_graph tapped_links) (RerouteEnd ''r2'') (demo_port ''n1'' ''in'') = None"
    by (simp add: connectError_def demo_port_def)
  let ?E = "chain_edges (prospective (demo_graph tapped_links) (RerouteEnd ''r2'') (demo_port ''n1'' ''in''))"
  let ?t = "''t:'' @ portRefKey \<lparr>pr_node = ''n1'', pr_port = ''in'', pr_members = None\<rparr>"
  have "(''r:r2'', ?t) \<in> ?E" "(?t, ''r:r2'') \<in> ?E"
    by (simp_all add: chain_edges_def prospective_def demo_defs tapped_links_def)
  then show "\<not> acyclic ?E" unfolding acyclic_def by (meson trancl.intros)
qed

end
